(* ===== verification/Prelude.thy ===== *)
theory Prelude
  imports Main "HOL-Library.Word"
begin

unbundle bit_operations_syntax

text \<open>
  Shared vocabulary of the development: the machine integer types of the sources, byte strings,
  little-endian and big-endian values of byte lists, and the generic facts on words, lists and
  two's complement arithmetic that several components use.

  \<^item> \<open>u8\<close>, \<open>u32\<close>, \<open>u64\<close>, \<open>u128\<close> are the unsigned integers of C at their width;
  \<^item> \<open>i32\<close> and \<open>i64\<close> wrap a mathematical integer to a signed integer of that width (two's
    complement), for the code that computes in \<open>int32_t\<close> and \<open>int64_t\<close>;
  \<^item> the collection \<open>wrap_simps\<close> holds the facts that remove a wrap when the value fits.
\<close>

type_synonym u8 = "8 word"
type_synonym u32 = "32 word"
type_synonym u64 = "64 word"
type_synonym u128 = "128 word"
type_synonym bytes = "8 word list"

named_theorems wrap_simps \<open>removal of two's complement wrap-around\<close>
named_theorems word_nat_simps \<open>reading word arithmetic as natural numbers\<close>

section \<open>Signed machine integers\<close>

definition i32 :: "int \<Rightarrow> int" where
  "i32 x = signed_take_bit 31 x"

definition i64 :: "int \<Rightarrow> int" where
  "i64 x = signed_take_bit 63 x"

definition in_i32 :: "int \<Rightarrow> bool" where
  "in_i32 x \<longleftrightarrow> - (2 ^ 31) \<le> x \<and> x < 2 ^ 31"

definition in_i64 :: "int \<Rightarrow> bool" where
  "in_i64 x \<longleftrightarrow> - (2 ^ 63) \<le> x \<and> x < 2 ^ 63"

lemma i32_id [wrap_simps]: "in_i32 x \<Longrightarrow> i32 x = x"
  by (simp add: in_i32_def i32_def signed_take_bit_int_eq_self)

lemma i64_id [wrap_simps]: "in_i64 x \<Longrightarrow> i64 x = x"
  by (simp add: in_i64_def i64_def signed_take_bit_int_eq_self)

lemma in_i32_i32: "in_i32 (i32 x)"
  unfolding in_i32_def i32_def
  using signed_take_bit_int_greater_eq_minus_exp [of 31 x] signed_take_bit_int_less_exp [of 31 x]
  by simp

lemma in_i64_i64: "in_i64 (i64 x)"
  unfolding in_i64_def i64_def
  using signed_take_bit_int_greater_eq_minus_exp [of 63 x] signed_take_bit_int_less_exp [of 63 x]
  by simp

lemma i64_i64_add: "i64 (i64 a + i64 b) = i64 (a + b)"
  by (simp add: i64_def signed_take_bit_add)

lemma in_i32_abs: "\<bar>x\<bar> < 2 ^ 31 \<Longrightarrow> in_i32 x"
  by (auto simp: in_i32_def)

lemma in_i64_abs: "\<bar>x\<bar> < 2 ^ 63 \<Longrightarrow> in_i64 x"
  by (auto simp: in_i64_def)

section \<open>Values of byte strings\<close>

text \<open>The number a byte string denotes, least significant byte first.\<close>

primrec le_val :: "bytes \<Rightarrow> nat" where
  "le_val [] = 0"
| "le_val (b # bs) = unat b + 256 * le_val bs"

text \<open>The number a byte string denotes, most significant byte first.\<close>

definition be_val :: "bytes \<Rightarrow> nat" where
  "be_val bs = foldl (\<lambda>a b. 256 * a + unat b) 0 bs"

lemma unat_exp_bound: "unat (w :: 'a :: len word) < 2 ^ LENGTH('a)"
  by (rule unsigned_less)

lemma unat_u8_bound [simp]: "unat (b :: u8) < 256"
  using unat_exp_bound [of b] by simp

lemma le_val_bound: "le_val bs < 256 ^ length bs"
proof (induction bs)
  case Nil
  then show ?case by simp
next
  case (Cons b bs)
  have "unat b + 256 * le_val bs \<le> 255 + 256 * (256 ^ length bs - 1)"
  proof (intro add_mono mult_le_mono2)
    show "unat b \<le> 255" using unat_u8_bound [of b] by linarith
    show "le_val bs \<le> 256 ^ length bs - 1" using Cons by linarith
  qed
  also have "\<dots> < 256 ^ length (b # bs)"
    by (simp add: diff_mult_distrib2)
  finally show ?case by simp
qed

lemma le_val_0: "le_val s = 0 \<longleftrightarrow> (\<forall>b \<in> set s. b = 0)"
  by (induction s) (auto simp: unat_eq_zero)

lemma le_val_replicate_0 [simp]: "le_val (replicate n 0) = 0"
  by (simp add: le_val_0)

lemma le_val_append: "le_val (xs @ ys) = le_val xs + 256 ^ length xs * le_val ys"
  by (induction xs) (auto simp: algebra_simps)

lemma be_val_snoc [simp]: "be_val (bs @ [b]) = 256 * be_val bs + unat b"
  by (simp add: be_val_def)

lemma be_val_Nil [simp]: "be_val [] = 0"
  by (simp add: be_val_def)

lemma be_val_le_val_rev: "be_val bs = le_val (rev bs)"
  by (induction bs rule: rev_induct) auto

lemma be_val_bound: "be_val bs < 256 ^ length bs"
  using le_val_bound [of "rev bs"] by (simp add: be_val_le_val_rev)

lemma mixed_radix_unique:
  fixes a b :: nat
  assumes "a < n" and "b < n" and "a + n * x = b + n * y"
  shows "a = b" and "x = y"
proof -
  have "a = (a + n * x) mod n" and "b = (b + n * y) mod n"
    using assms(1,2) by (simp_all only: mod_mult_self2 mod_less)
  with assms(3) show "a = b" by simp
  with assms show "x = y" by auto
qed

lemma le_val_inject:
  "length xs = length ys \<Longrightarrow> le_val xs = le_val ys \<Longrightarrow> xs = ys"
proof (induction xs ys rule: list_induct2)
  case Nil
  then show ?case by simp
next
  case (Cons x xs y ys)
  have eq: "unat x + 256 * le_val xs = unat y + 256 * le_val ys"
    using Cons.prems by simp
  have xy: "unat x = unat y" and "le_val xs = le_val ys"
    by (rule mixed_radix_unique [OF _ _ eq], simp_all)+
  with Cons.IH show ?case by (simp add: word_unat_eq_iff)
qed

lemma be_val_inject:
  assumes "length xs = length ys" and "be_val xs = be_val ys"
  shows "xs = ys"
proof -
  have "rev xs = rev ys"
    by (rule le_val_inject) (use assms in \<open>simp_all add: be_val_le_val_rev\<close>)
  then show ?thesis by simp
qed

lemma div_bounds_int:
  fixes x d :: int
  assumes "0 < d"
  shows "d * (x div d) \<le> x" and "x < d * (x div d) + d"
  using mult_div_mod_eq [of d x] pos_mod_sign [OF assms, of x] pos_mod_bound [OF assms, of x] by linarith+

lemma div_less_int:
  fixes x d b :: int
  assumes "0 < d" and "x < d * b"
  shows "x div d < b"
proof (rule ccontr)
  assume "\<not> x div d < b"
  then have "d * b \<le> d * (x div d)" using assms(1) by simp
  also have "\<dots> \<le> x"
    using mult_div_mod_eq [of d x] pos_mod_sign [OF assms(1), of x] by linarith
  finally show False using assms(2) by simp
qed

lemma upt_ball: "\<forall>i \<in> set [0..<k]. P i \<Longrightarrow> n < k \<Longrightarrow> P n"
  by simp

lemma sum_lessThan_numeral: "sum f {..<numeral n} = sum f {..<pred_numeral n} + f (pred_numeral n)"
  for f :: "nat \<Rightarrow> int"
  by (simp add: numeral_eq_Suc)

lemma less_numeral_iff: "k < numeral n \<longleftrightarrow> k < pred_numeral n \<or> k = pred_numeral n"
  by (auto simp: numeral_eq_Suc)

text \<open>The \<open>n\<close> bytes of a number in memory, least significant byte first.\<close>

primrec le_bytes :: "nat \<Rightarrow> nat \<Rightarrow> bytes" where
  "le_bytes 0 v = []"
| "le_bytes (Suc n) v = word_of_nat v # le_bytes n (v div 256)"

lemma length_le_bytes [simp]: "length (le_bytes n v) = n"
  by (induction n arbitrary: v) auto

lemma le_val_le_bytes: "le_val (le_bytes n v) = v mod 256 ^ n"
proof (induction n arbitrary: v)
  case (Suc n)
  have "unat (word_of_nat v :: u8) = v mod 256" by (simp add: unat_of_nat)
  then show ?case using Suc by (simp add: mod_mult2_eq)
qed simp

section \<open>Unsigned words as natural numbers\<close>

lemma unat_u64_bound [simp]: "unat (w :: u64) < 18446744073709551616"
  using unat_exp_bound [of w] by simp

lemma unat_u32_bound [simp]: "unat (w :: u32) < 4294967296"
  using unat_exp_bound [of w] by simp

lemma unat_of_nat_small: "x < 2 ^ LENGTH('a) \<Longrightarrow> unat (word_of_nat x :: 'a :: len word) = x"
  by (simp add: unat_of_nat)

lemma unat_add_no_wrap [word_nat_simps]:
  "unat a + unat b < 2 ^ LENGTH('a) \<Longrightarrow> unat (a + b :: 'a :: len word) = unat a + unat b"
  by (simp add: unat_word_ariths)

lemma unat_mult_no_wrap [word_nat_simps]:
  "unat a * unat b < 2 ^ LENGTH('a) \<Longrightarrow> unat (a * b :: 'a :: len word) = unat a * unat b"
  by (simp add: unat_word_ariths)

lemma unat_sub_no_wrap [word_nat_simps]:
  "b \<le> a \<Longrightarrow> unat (a - b :: 'a :: len word) = unat a - unat b"
  by (simp add: unat_sub)

lemma add_carry_iff:
  "(a + b :: 'a :: len word) < a \<longleftrightarrow> 2 ^ LENGTH('a) \<le> unat a + unat b"
proof (cases "unat a + unat b < 2 ^ LENGTH('a)")
  case True
  then show ?thesis by (simp add: word_less_nat_alt unat_add_no_wrap)
next
  case False
  have "unat a + unat b - 2 ^ LENGTH('a) < 2 ^ LENGTH('a)"
    using unat_exp_bound [of a] unat_exp_bound [of b] by linarith
  then have "unat (a + b) = unat a + unat b - 2 ^ LENGTH('a)"
    using False by (simp add: unat_word_ariths mod_if [of "unat a + unat b"])
  then show ?thesis
    using False unat_exp_bound [of b] unfolding word_less_nat_alt by linarith
qed

lemma unat_drop_bit_div: "unat (drop_bit n (w :: 'a :: len word)) = unat w div 2 ^ n"
  by (subst unsigned_drop_bit_eq)
    (simp add: drop_bit_eq_div take_bit_nat_eq_self unat_exp_bound)

lemma unat_take_bit_mod: "n \<le> LENGTH('a) \<Longrightarrow>
    unat (take_bit n (w :: 'a :: len word)) = unat w mod 2 ^ n"
  by (subst unsigned_take_bit_eq) (simp add: take_bit_eq_mod)

lemma unat_push_bit_mod:
  "unat (push_bit n (w :: 'a :: len word)) = unat w * 2 ^ n mod 2 ^ LENGTH('a)"
  by (subst unsigned_push_bit_eq) (simp add: push_bit_eq_mult take_bit_eq_mod)

lemma unat_ucast_mod: "unat (ucast (w :: 'a :: len word) :: 'b :: len word) = unat w mod 2 ^ LENGTH('b)"
  by (subst unsigned_ucast_eq) (simp add: take_bit_eq_mod)

lemma unat_ucast_up: "LENGTH('a) \<le> LENGTH('b) \<Longrightarrow>
    unat (ucast (w :: 'a :: len word) :: 'b :: len word) = unat w"
  using less_le_trans [OF unat_exp_bound [of w]
      power_increasing [of "LENGTH('a)" "LENGTH('b)" "2 :: nat"]]
  by (simp add: unat_ucast_mod)

lemma unat_div_word: "unat (a div b :: 'a :: len word) = unat a div unat b"
  by (simp add: unat_div_distrib)

lemma unat_mod_word: "unat (a mod b :: 'a :: len word) = unat a mod unat b"
  by (simp add: unat_mod_distrib)

text \<open>Bits that do not overlap: a disjunction is a sum.\<close>

lemma unat_or_disjoint:
  assumes "(a :: 'a :: len word) AND b = 0"
  shows "unat (a OR b) = unat a + unat b"
proof -
  have "unat a AND unat b = unat (a AND b)"
    by (simp add: unsigned_and_eq)
  with assms have "unat a AND unat b = 0" by simp
  then show ?thesis
    by (simp add: unsigned_or_eq disjunctive_add_eq_or)
qed

lemma nat_shift_or:
  assumes "(b :: nat) < 2 ^ n"
  shows "push_bit n a OR b = a * 2 ^ n + b"
proof -
  have "push_bit n a AND take_bit n b = 0"
    by (rule bit_eqI) (auto simp: bit_simps)
  moreover have "take_bit n b = b"
    using assms by (rule take_bit_nat_eq_self)
  ultimately show ?thesis
    by (simp add: disjunctive_add_eq_or [symmetric] push_bit_eq_mult)
qed

lemma unat_shift_or:
  assumes "unat b < 2 ^ n" and "unat a * 2 ^ n < 2 ^ LENGTH('a)"
  shows "unat (push_bit n (a :: 'a :: len word) OR b) = unat a * 2 ^ n + unat b"
proof -
  have "unat (push_bit n a) = push_bit n (unat a)"
    unfolding unat_push_bit_mod using assms(2) by (simp add: push_bit_eq_mult)
  then show ?thesis
    using assms(1) by (simp add: unsigned_or_eq nat_shift_or)
qed

end
