(* ===== verification/Limbs.thy ===== *)
theory Limbs
  imports Prelude
begin

text \<open>
  The carry machine of \<open>src/crypto/crypto-ops.c\<close>. The field arithmetic (ten limbs of alternating
  26 and 25 bits) and the scalar arithmetic (up to 24 limbs of 21 bits) both hold a number as a list of signed
  limbs and normalise it by long straight-line sequences of a few idioms. Each idiom of the C text
  is one operation here, and a function's sequence is the list of its operations in source order:

  \<^item> \<open>Round i k\<close>: \<^verbatim>\<open>carry = (s[i] + (1 << (k-1))) >> k; s[i+1] += carry; s[i] -= carry << k;\<close>
  \<^item> \<open>Floor i k\<close>: \<^verbatim>\<open>carry = s[i] >> k; s[i+1] += carry; s[i] -= carry << k;\<close>
  \<^item> \<open>Wrap i k c\<close>: \<^verbatim>\<open>carry = (s[i] + (1 << (k-1))) >> k; s[0] += carry * c; s[i] -= carry << k;\<close>
  \<^item> \<open>Fold j\<close>: the six lines that add \<open>s[j]\<close> times the constants of the group order to the limbs
    \<open>j - 12\<close> to \<open>j - 7\<close>;
  \<^item> \<open>Clear j\<close>: \<^verbatim>\<open>s[j] = 0;\<close>

  Every intermediate result is wrapped to the machine width \<open>n\<close> (64 for \<open>int64_t\<close>). An interval
  analysis on the operations, proved sound once, shows for a concrete sequence that no wrap happens
  and bounds the limbs of the result; the locale \<open>limb_machine\<close> states what a sequence does to the
  number the limbs denote, for any weights and modulus that fit the operations.
\<close>

datatype limb_op =
    Round nat nat
  | Floor nat nat
  | Wrap nat nat int
  | Fold nat
  | Clear nat

definition wrapn :: "nat \<Rightarrow> int \<Rightarrow> int" where
  "wrapn n x = signed_take_bit (n - 1) x"

fun exec_op :: "nat \<Rightarrow> limb_op \<Rightarrow> int list \<Rightarrow> int list" where
  "exec_op n (Round i k) s =
    (let carry = wrapn n (s ! i + 2 ^ (k - 1)) div 2 ^ k
     in s[Suc i := wrapn n (s ! Suc i + carry), i := wrapn n (s ! i - wrapn n (carry * 2 ^ k))])"
| "exec_op n (Floor i k) s =
    (let carry = s ! i div 2 ^ k
     in s[Suc i := wrapn n (s ! Suc i + carry), i := wrapn n (s ! i - wrapn n (carry * 2 ^ k))])"
| "exec_op n (Wrap i k c) s =
    (let carry = wrapn n (s ! i + 2 ^ (k - 1)) div 2 ^ k
     in s[0 := wrapn n (s ! 0 + wrapn n (carry * c)), i := wrapn n (s ! i - wrapn n (carry * 2 ^ k))])"
| "exec_op n (Fold j) s =
    s[j - 12 := wrapn n (s ! (j - 12) + wrapn n (s ! j * 666643)),
      j - 11 := wrapn n (s ! (j - 11) + wrapn n (s ! j * 470296)),
      j - 10 := wrapn n (s ! (j - 10) + wrapn n (s ! j * 654183)),
      j - 9 := wrapn n (s ! (j - 9) - wrapn n (s ! j * 997805)),
      j - 8 := wrapn n (s ! (j - 8) + wrapn n (s ! j * 136657)),
      j - 7 := wrapn n (s ! (j - 7) - wrapn n (s ! j * 683901))]"
| "exec_op n (Clear j) s = s[j := 0]"

definition exec :: "nat \<Rightarrow> limb_op list \<Rightarrow> int list \<Rightarrow> int list" where
  "exec n ops s = fold (exec_op n) ops s"

text \<open>A sum of products \<^verbatim>\<open>x*y + ... + x*y\<close>: every product and every addition is one machine operation, from left to right.\<close>

fun dot :: "nat \<Rightarrow> (int \<times> int) list \<Rightarrow> int" where
  "dot n [] = 0"
| "dot n ((x, y) # ps) = foldl (\<lambda>s (x, y). wrapn n (s + wrapn n (x * y))) (wrapn n (x * y)) ps"

section \<open>Interval analysis\<close>

type_synonym itv = "int \<times> int"

definition fits :: "nat \<Rightarrow> int \<Rightarrow> bool" where
  "fits n x \<longleftrightarrow> - (2 ^ (n - 1)) \<le> x \<and> x < 2 ^ (n - 1)"

definition fits_itv :: "nat \<Rightarrow> itv \<Rightarrow> bool" where
  "fits_itv n I \<longleftrightarrow> fits n (fst I) \<and> fits n (snd I)"

definition mem_itv :: "int \<Rightarrow> itv \<Rightarrow> bool" where
  "mem_itv x I \<longleftrightarrow> fst I \<le> x \<and> x \<le> snd I"

definition within :: "itv list \<Rightarrow> int list \<Rightarrow> bool" where
  "within B s \<longleftrightarrow> length s = length B \<and> (\<forall>i < length B. mem_itv (s ! i) (B ! i))"

definition add_itv :: "itv \<Rightarrow> itv \<Rightarrow> itv" where
  "add_itv I J = (fst I + fst J, snd I + snd J)"

definition sub_itv :: "itv \<Rightarrow> itv \<Rightarrow> itv" where
  "sub_itv I J = (fst I - snd J, snd I - fst J)"

definition scale_itv :: "int \<Rightarrow> itv \<Rightarrow> itv" where
  "scale_itv c I = (if 0 \<le> c then (c * fst I, c * snd I) else (c * snd I, c * fst I))"

definition shift_itv :: "nat \<Rightarrow> itv \<Rightarrow> itv" where
  "shift_itv k I = (fst I div 2 ^ k, snd I div 2 ^ k)"

text \<open>One multiply-accumulate of \<open>Fold\<close>, as the analysis sees it.\<close>

definition acc_itv :: "nat \<Rightarrow> itv \<Rightarrow> itv \<Rightarrow> int \<Rightarrow> itv option" where
  "acc_itv n I J c =
    (let P = scale_itv \<bar>c\<bar> J; R = (if 0 \<le> c then add_itv I P else sub_itv I P)
     in if fits_itv n P \<and> fits_itv n R then Some R else None)"

fun op_itv :: "nat \<Rightarrow> limb_op \<Rightarrow> itv list \<Rightarrow> itv list option" where
  "op_itv n (Round i k) B =
    (let I = add_itv (B ! i) (2 ^ (k - 1), 2 ^ (k - 1)); C = shift_itv k I;
         R = add_itv (B ! Suc i) C
     in if Suc i < length B \<and> 0 < k \<and> k < n \<and> fits_itv n I \<and> fits_itv n (scale_itv (2 ^ k) C) \<and> fits_itv n R
        then Some (B[Suc i := R, i := (- (2 ^ (k - 1)), 2 ^ (k - 1) - 1)]) else None)"
| "op_itv n (Floor i k) B =
    (let C = shift_itv k (B ! i); R = add_itv (B ! Suc i) C
     in if Suc i < length B \<and> k < n \<and> fits_itv n (scale_itv (2 ^ k) C) \<and> fits_itv n R
        then Some (B[Suc i := R, i := (0, 2 ^ k - 1)]) else None)"
| "op_itv n (Wrap i k c) B =
    (let I = add_itv (B ! i) (2 ^ (k - 1), 2 ^ (k - 1)); C = shift_itv k I;
         R = add_itv (B ! 0) (scale_itv c C)
     in if i < length B \<and> 0 < i \<and> 0 < k \<and> k < n \<and> 0 \<le> c \<and> fits_itv n I \<and> fits_itv n (scale_itv (2 ^ k) C)
           \<and> fits_itv n (scale_itv c C) \<and> fits_itv n R
        then Some (B[0 := R, i := (- (2 ^ (k - 1)), 2 ^ (k - 1) - 1)]) else None)"
| "op_itv n (Fold j) B =
    (if 12 \<le> j \<and> j < length B then
      (case (acc_itv n (B ! (j - 12)) (B ! j) 666643, acc_itv n (B ! (j - 11)) (B ! j) 470296,
             acc_itv n (B ! (j - 10)) (B ! j) 654183, acc_itv n (B ! (j - 9)) (B ! j) (- 997805),
             acc_itv n (B ! (j - 8)) (B ! j) 136657, acc_itv n (B ! (j - 7)) (B ! j) (- 683901)) of
         (Some R0, Some R1, Some R2, Some R3, Some R4, Some R5) \<Rightarrow>
           Some (B[j - 12 := R0, j - 11 := R1, j - 10 := R2, j - 9 := R3, j - 8 := R4, j - 7 := R5])
       | _ \<Rightarrow> None)
     else None)"
| "op_itv n (Clear j) B = (if j < length B then Some (B[j := (0, 0)]) else None)"

fun ops_itv :: "nat \<Rightarrow> limb_op list \<Rightarrow> itv list \<Rightarrow> itv list option" where
  "ops_itv n [] B = Some B"
| "ops_itv n (op # ops) B = (case op_itv n op B of None \<Rightarrow> None | Some B' \<Rightarrow> ops_itv n ops B')"

lemma wrapn_id: "0 < n \<Longrightarrow> fits n x \<Longrightarrow> wrapn n x = x"
  by (simp add: wrapn_def fits_def signed_take_bit_int_eq_self)

lemma mem_fits: "mem_itv x I \<Longrightarrow> fits_itv n I \<Longrightarrow> fits n x"
  by (auto simp: mem_itv_def fits_itv_def fits_def)

lemma mem_add: "mem_itv x I \<Longrightarrow> mem_itv y J \<Longrightarrow> mem_itv (x + y) (add_itv I J)"
  by (simp add: mem_itv_def add_itv_def)

lemma mem_sub: "mem_itv x I \<Longrightarrow> mem_itv y J \<Longrightarrow> mem_itv (x - y) (sub_itv I J)"
  by (simp add: mem_itv_def sub_itv_def)

lemma mem_scale: "mem_itv x I \<Longrightarrow> mem_itv (x * c) (scale_itv c I)"
  by (auto simp: mem_itv_def scale_itv_def mult.commute [of x] intro: mult_left_mono mult_left_mono_neg)

lemma mem_shift: "mem_itv x I \<Longrightarrow> mem_itv (x div 2 ^ k) (shift_itv k I)"
  by (simp add: mem_itv_def shift_itv_def zdiv_mono1)

lemma mem_const: "mem_itv c (c, c)"
  by (simp add: mem_itv_def)

lemma within_update:
  "within B s \<Longrightarrow> mem_itv x I \<Longrightarrow> within (B[i := I]) (s[i := x])"
  by (cases "i < length B") (auto simp: within_def nth_list_update list_update_beyond)

lemma within_nth: "within B s \<Longrightarrow> i < length B \<Longrightarrow> mem_itv (s ! i) (B ! i)"
  by (simp add: within_def)

lemma within_length: "within B s \<Longrightarrow> length s = length B"
  by (simp add: within_def)

text \<open>The operations on mathematical integers, without wrap-around.\<close>

fun exact_op :: "limb_op \<Rightarrow> int list \<Rightarrow> int list" where
  "exact_op (Round i k) s =
    (let carry = (s ! i + 2 ^ (k - 1)) div 2 ^ k
     in s[Suc i := s ! Suc i + carry, i := s ! i - carry * 2 ^ k])"
| "exact_op (Floor i k) s =
    (let carry = s ! i div 2 ^ k
     in s[Suc i := s ! Suc i + carry, i := s ! i - carry * 2 ^ k])"
| "exact_op (Wrap i k c) s =
    (let carry = (s ! i + 2 ^ (k - 1)) div 2 ^ k
     in s[0 := s ! 0 + carry * c, i := s ! i - carry * 2 ^ k])"
| "exact_op (Fold j) s =
    s[j - 12 := s ! (j - 12) + s ! j * 666643,
      j - 11 := s ! (j - 11) + s ! j * 470296,
      j - 10 := s ! (j - 10) + s ! j * 654183,
      j - 9 := s ! (j - 9) - s ! j * 997805,
      j - 8 := s ! (j - 8) + s ! j * 136657,
      j - 7 := s ! (j - 7) - s ! j * 683901]"
| "exact_op (Clear j) s = s[j := 0]"

text \<open>
  The values that an operation computes before they are wrapped. A run overflows nowhere when all of them, at every
  operation, fit the machine width.
\<close>

fun op_values :: "limb_op \<Rightarrow> int list \<Rightarrow> int list" where
  "op_values (Round i k) s =
    (let carry = (s ! i + 2 ^ (k - 1)) div 2 ^ k
     in [s ! i + 2 ^ (k - 1), s ! Suc i + carry, carry * 2 ^ k, s ! i - carry * 2 ^ k])"
| "op_values (Floor i k) s =
    (let carry = s ! i div 2 ^ k
     in [s ! Suc i + carry, carry * 2 ^ k, s ! i - carry * 2 ^ k])"
| "op_values (Wrap i k c) s =
    (let carry = (s ! i + 2 ^ (k - 1)) div 2 ^ k
     in [s ! i + 2 ^ (k - 1), carry * c, s ! 0 + carry * c, carry * 2 ^ k, s ! i - carry * 2 ^ k])"
| "op_values (Fold j) s =
    [s ! j * 666643, s ! (j - 12) + s ! j * 666643, s ! j * 470296, s ! (j - 11) + s ! j * 470296,
     s ! j * 654183, s ! (j - 10) + s ! j * 654183, s ! j * 997805, s ! (j - 9) - s ! j * 997805,
     s ! j * 136657, s ! (j - 8) + s ! j * 136657, s ! j * 683901, s ! (j - 7) - s ! j * 683901]"
| "op_values (Clear j) s = []"

fun no_overflow :: "nat \<Rightarrow> limb_op list \<Rightarrow> int list \<Rightarrow> bool" where
  "no_overflow n [] s \<longleftrightarrow> True"
| "no_overflow n (op # ops) s \<longleftrightarrow> list_all (fits n) (op_values op s) \<and> no_overflow n ops (exact_op op s)"

lemma no_overflow_append: "no_overflow n (xs @ ys) s \<longleftrightarrow> no_overflow n xs s \<and> no_overflow n ys (fold exact_op xs s)"
  by (induction xs arbitrary: s) auto

text \<open>The products and the partial sums of a sum of products.\<close>

fun dot_values :: "int \<Rightarrow> (int \<times> int) list \<Rightarrow> int list" where
  "dot_values s [] = []"
| "dot_values s ((x, y) # ps) = x * y # (s + x * y) # dot_values (s + x * y) ps"

definition dot_fits :: "nat \<Rightarrow> (int \<times> int) list \<Rightarrow> bool" where
  "dot_fits n ps \<longleftrightarrow> list_all (fits n) (dot_values 0 ps)"

definition products :: "(int \<times> int) list \<Rightarrow> int list" where
  "products ps = map (\<lambda>(x, y). x * y) ps"

lemma dot_exact:
  assumes "dot_fits n ps" and "0 < n"
  shows "dot n ps = sum_list (products ps)"
proof -
  have acc: "foldl (\<lambda>s (x, y). wrapn n (s + wrapn n (x * y))) s qs = s + sum_list (products qs)"
    if "list_all (fits n) (dot_values s qs)" for s qs
    using that
  proof (induction qs arbitrary: s)
    case (Cons q qs)
    obtain x y where q: "q = (x, y)" by fastforce
    then show ?case using Cons assms(2) by (simp add: products_def wrapn_id)
  qed (simp add: products_def)
  show ?thesis
  proof (cases ps)
    case (Cons q qs)
    obtain x y where "q = (x, y)" by fastforce
    then show ?thesis using assms acc [of "x * y" qs] by (simp add: Cons dot_fits_def products_def wrapn_id)
  qed (simp add: products_def)
qed

text \<open>It is enough that the sum of the absolute values fits.\<close>

lemma dot_fits_abs:
  assumes "sum_list (map abs (products ps)) < 2 ^ (n - 1)"
  shows "dot_fits n ps"
proof -
  have "list_all (fits n) (dot_values s qs)" if "\<bar>s\<bar> + sum_list (map abs (products qs)) < 2 ^ (n - 1)" for s qs
    using that
  proof (induction qs arbitrary: s)
    case (Cons q qs)
    obtain x y where q: "q = (x, y)" by fastforce
    have "0 \<le> sum_list (map abs (products qs))" by (rule sum_list_nonneg) auto
    moreover have "\<bar>s\<bar> + \<bar>x * y\<bar> + sum_list (map abs (products qs)) < 2 ^ (n - 1)" using Cons.prems by (simp add: q products_def)
    ultimately have "fits n (x * y)" "fits n (s + x * y)" "\<bar>s + x * y\<bar> + sum_list (map abs (products qs)) < 2 ^ (n - 1)"
      unfolding fits_def by linarith+
    then show ?case using Cons.IH by (simp add: q)
  qed simp
  then show ?thesis using assms by (simp add: dot_fits_def)
qed

lemma rounded_rest:
  "0 < k \<Longrightarrow> mem_itv (x - (x + 2 ^ (k - 1)) div 2 ^ k * 2 ^ k) (- (2 ^ (k - 1)), 2 ^ (k - 1) - 1)"
proof -
  assume "0 < k"
  then have e: "(2 :: int) ^ k = 2 * 2 ^ (k - 1)" by (cases k) auto
  have "x + 2 ^ (k - 1) = (x + 2 ^ (k - 1)) div 2 ^ k * 2 ^ k + (x + 2 ^ (k - 1)) mod 2 ^ k"
    by (rule div_mult_mod_eq [symmetric])
  moreover have "0 \<le> (x + 2 ^ (k - 1)) mod 2 ^ k" "(x + 2 ^ (k - 1)) mod 2 ^ k < 2 ^ k"
    by simp_all
  ultimately show ?thesis unfolding mem_itv_def fst_conv snd_conv using e by linarith
qed

lemma floored_rest: "mem_itv (x - x div 2 ^ k * 2 ^ k) (0, 2 ^ k - 1 :: int)"
  unfolding mem_itv_def fst_conv snd_conv
  using pos_mod_bound [of "2 ^ k" x] by (simp add: minus_div_mult_eq_mod)

lemma fits_half:
  assumes "k < n" and "mem_itv x (- (2 ^ (k - 1)), 2 ^ (k - 1) - 1)"
  shows "fits n x"
proof -
  have "(2 :: int) ^ (k - 1) \<le> 2 ^ (n - 1)" using assms(1) by (intro power_increasing) auto
  with assms(2) show ?thesis unfolding mem_itv_def fits_def fst_conv snd_conv by linarith
qed

lemma fits_full:
  assumes "k < n" and "mem_itv x (0, 2 ^ k - 1)"
  shows "fits n x"
proof -
  have "(2 :: int) ^ k \<le> 2 ^ (n - 1)" using assms(1) by (intro power_increasing) auto
  moreover have "(0 :: int) \<le> 2 ^ (n - 1)" by simp
  ultimately show ?thesis
    using assms(2) unfolding mem_itv_def fits_def fst_conv snd_conv by linarith
qed

lemma acc_itv_sound:
  assumes "acc_itv n I J c = Some R" and "mem_itv x I" and "mem_itv y J" and "0 < n"
  shows "0 \<le> c \<Longrightarrow> wrapn n (x + wrapn n (y * c)) = x + y * c \<and> mem_itv (x + y * c) R \<and> fits n (y * c) \<and> fits n (x + y * c)"
    and "c < 0 \<Longrightarrow> wrapn n (x - wrapn n (y * - c)) = x - y * - c \<and> mem_itv (x - y * - c) R \<and> fits n (y * - c) \<and> fits n (x - y * - c)"
proof -
  have P: "mem_itv (y * \<bar>c\<bar>) (scale_itv \<bar>c\<bar> J)"
    using assms(3) by (rule mem_scale)
  have f: "fits_itv n (scale_itv \<bar>c\<bar> J)" "fits_itv n R"
    "R = (if 0 \<le> c then add_itv I (scale_itv \<bar>c\<bar> J) else sub_itv I (scale_itv \<bar>c\<bar> J))"
    using assms(1) by (auto simp: acc_itv_def Let_def split: if_splits)
  have w: "wrapn n (y * \<bar>c\<bar>) = y * \<bar>c\<bar>"
    using wrapn_id [OF assms(4) mem_fits [OF P f(1)]] .
  show "0 \<le> c \<Longrightarrow> wrapn n (x + wrapn n (y * c)) = x + y * c \<and> mem_itv (x + y * c) R \<and> fits n (y * c) \<and> fits n (x + y * c)"
    using w mem_add [OF assms(2) P] f mem_fits [OF P f(1)] mem_fits [of _ R n] wrapn_id [OF assms(4) mem_fits] by (auto simp: abs_of_nonneg)
  show "c < 0 \<Longrightarrow> wrapn n (x - wrapn n (y * - c)) = x - y * - c \<and> mem_itv (x - y * - c) R \<and> fits n (y * - c) \<and> fits n (x - y * - c)"
    using w mem_sub [OF assms(2) P] f mem_fits [OF P f(1)] mem_fits [of _ R n] wrapn_id [OF assms(4) mem_fits]
    by (simp del: mult_minus_right add: abs_of_neg)
qed

lemma fold_accumulators:
  assumes "op_itv n (Fold j) B = Some B'"
  obtains R0 R1 R2 R3 R4 R5 where "12 \<le> j" and "j < length B"
    and "acc_itv n (B ! (j - 12)) (B ! j) 666643 = Some R0"
    and "acc_itv n (B ! (j - 11)) (B ! j) 470296 = Some R1"
    and "acc_itv n (B ! (j - 10)) (B ! j) 654183 = Some R2"
    and "acc_itv n (B ! (j - 9)) (B ! j) (- 997805) = Some R3"
    and "acc_itv n (B ! (j - 8)) (B ! j) 136657 = Some R4"
    and "acc_itv n (B ! (j - 7)) (B ! j) (- 683901) = Some R5"
    and "B' = B[j - 12 := R0, j - 11 := R1, j - 10 := R2, j - 9 := R3, j - 8 := R4, j - 7 := R5]"
  using assms by (auto split: if_splits option.splits)

lemma fold_sound:
  assumes "op_itv n (Fold j) B = Some B'" and "within B s" and "0 < n"
  shows "exec_op n (Fold j) s = exact_op (Fold j) s \<and> within B' (exact_op (Fold j) s) \<and> list_all (fits n) (op_values (Fold j) s)"
proof -
  from assms(1) obtain R0 R1 R2 R3 R4 R5 where j: "12 \<le> j" "j < length B"
    and acc: "acc_itv n (B ! (j - 12)) (B ! j) 666643 = Some R0"
      "acc_itv n (B ! (j - 11)) (B ! j) 470296 = Some R1"
      "acc_itv n (B ! (j - 10)) (B ! j) 654183 = Some R2"
      "acc_itv n (B ! (j - 9)) (B ! j) (- 997805) = Some R3"
      "acc_itv n (B ! (j - 8)) (B ! j) 136657 = Some R4"
      "acc_itv n (B ! (j - 7)) (B ! j) (- 683901) = Some R5"
    and B': "B' = B[j - 12 := R0, j - 11 := R1, j - 10 := R2, j - 9 := R3, j - 8 := R4, j - 7 := R5]"
    by (rule fold_accumulators)
  have y: "mem_itv (s ! j) (B ! j)" using assms(2) j by (intro within_nth)
  have x: "mem_itv (s ! (j - d)) (B ! (j - d))" for d
    using assms(2) j by (intro within_nth) auto
  note pos = acc_itv_sound(1) [OF _ x y assms(3)]
  note neg = acc_itv_sound(2) [OF _ x y assms(3)]
  have r: "wrapn n (s ! (j - 12) + wrapn n (s ! j * 666643)) = s ! (j - 12) + s ! j * 666643 \<and>
           mem_itv (s ! (j - 12) + s ! j * 666643) R0"
    "wrapn n (s ! (j - 11) + wrapn n (s ! j * 470296)) = s ! (j - 11) + s ! j * 470296 \<and>
           mem_itv (s ! (j - 11) + s ! j * 470296) R1"
    "wrapn n (s ! (j - 10) + wrapn n (s ! j * 654183)) = s ! (j - 10) + s ! j * 654183 \<and>
           mem_itv (s ! (j - 10) + s ! j * 654183) R2"
    "wrapn n (s ! (j - 9) - wrapn n (s ! j * 997805)) = s ! (j - 9) - s ! j * 997805 \<and>
           mem_itv (s ! (j - 9) - s ! j * 997805) R3"
    "wrapn n (s ! (j - 8) + wrapn n (s ! j * 136657)) = s ! (j - 8) + s ! j * 136657 \<and>
           mem_itv (s ! (j - 8) + s ! j * 136657) R4"
    "wrapn n (s ! (j - 7) - wrapn n (s ! j * 683901)) = s ! (j - 7) - s ! j * 683901 \<and>
           mem_itv (s ! (j - 7) - s ! j * 683901) R5"
    using pos [OF acc(1)] pos [OF acc(2)] pos [OF acc(3)] neg [OF acc(4)] pos [OF acc(5)] neg [OF acc(6)]
    by simp_all
  moreover have "list_all (fits n) (op_values (Fold j) s)"
    using pos [OF acc(1)] pos [OF acc(2)] pos [OF acc(3)] neg [OF acc(4)] pos [OF acc(5)] neg [OF acc(6)]
    by simp
  ultimately show ?thesis
    using assms(2) unfolding B' by (auto intro!: within_update)
qed

lemma round_sound:
  assumes "op_itv n (Round i k) B = Some B'" and "within B s" and "0 < n"
  shows "exec_op n (Round i k) s = exact_op (Round i k) s \<and> within B' (exact_op (Round i k) s) \<and> list_all (fits n) (op_values (Round i k) s)"
proof -
  let ?I = "add_itv (B ! i) (2 ^ (k - 1), 2 ^ (k - 1))"
  let ?C = "shift_itv k ?I" and ?c = "(s ! i + 2 ^ (k - 1)) div 2 ^ k"
  from assms(1) have h: "Suc i < length B" "0 < k" "k < n" "fits_itv n ?I" "fits_itv n (scale_itv (2 ^ k) ?C)"
      "fits_itv n (add_itv (B ! Suc i) ?C)"
    and B': "B' = B[Suc i := add_itv (B ! Suc i) ?C, i := (- (2 ^ (k - 1)), 2 ^ (k - 1) - 1)]"
    by (auto simp: Let_def split: if_splits)
  have m: "mem_itv (s ! i) (B ! i)" "mem_itv (s ! Suc i) (B ! Suc i)"
    using assms(2) h(1) by (auto intro: within_nth)
  have I: "mem_itv (s ! i + 2 ^ (k - 1)) ?I" using m(1) mem_const by (rule mem_add)
  then have C: "mem_itv ?c ?C" by (rule mem_shift)
  then have S: "mem_itv (?c * 2 ^ k) (scale_itv (2 ^ k) ?C)" by (rule mem_scale)
  have R: "mem_itv (s ! Suc i + ?c) (add_itv (B ! Suc i) ?C)" using m(2) C by (rule mem_add)
  have L: "mem_itv (s ! i - ?c * 2 ^ k) (- (2 ^ (k - 1)), 2 ^ (k - 1) - 1)" by (rule rounded_rest [OF h(2)])
  note w = wrapn_id [OF assms(3) mem_fits [OF I h(4)]] wrapn_id [OF assms(3) mem_fits [OF S h(5)]]
    wrapn_id [OF assms(3) mem_fits [OF R h(6)]] wrapn_id [OF assms(3) fits_half [OF h(3) L]]
  have "list_all (fits n) (op_values (Round i k) s)"
    using mem_fits [OF I h(4)] mem_fits [OF S h(5)] mem_fits [OF R h(6)] fits_half [OF h(3) L] by (simp add: Let_def)
  moreover have "exec_op n (Round i k) s = exact_op (Round i k) s"
    by (simp only: w Let_def exec_op.simps exact_op.simps)
  moreover have "within B' (exact_op (Round i k) s)"
    unfolding B' exact_op.simps Let_def using assms(2) R L by (intro within_update)
  ultimately show ?thesis by simp
qed

lemma floor_sound:
  assumes "op_itv n (Floor i k) B = Some B'" and "within B s" and "0 < n"
  shows "exec_op n (Floor i k) s = exact_op (Floor i k) s \<and> within B' (exact_op (Floor i k) s) \<and> list_all (fits n) (op_values (Floor i k) s)"
proof -
  let ?C = "shift_itv k (B ! i)" and ?c = "s ! i div 2 ^ k"
  from assms(1) have h: "Suc i < length B" "k < n" "fits_itv n (scale_itv (2 ^ k) ?C)"
      "fits_itv n (add_itv (B ! Suc i) ?C)"
    and B': "B' = B[Suc i := add_itv (B ! Suc i) ?C, i := (0, 2 ^ k - 1)]"
    by (auto simp: Let_def split: if_splits)
  have m: "mem_itv (s ! i) (B ! i)" "mem_itv (s ! Suc i) (B ! Suc i)"
    using assms(2) h(1) by (auto intro: within_nth)
  from m(1) have C: "mem_itv ?c ?C" by (rule mem_shift)
  then have S: "mem_itv (?c * 2 ^ k) (scale_itv (2 ^ k) ?C)" by (rule mem_scale)
  have R: "mem_itv (s ! Suc i + ?c) (add_itv (B ! Suc i) ?C)" using m(2) C by (rule mem_add)
  have L: "mem_itv (s ! i - ?c * 2 ^ k) (0, 2 ^ k - 1)" by (rule floored_rest)
  note w = wrapn_id [OF assms(3) mem_fits [OF S h(3)]]
    wrapn_id [OF assms(3) mem_fits [OF R h(4)]] wrapn_id [OF assms(3) fits_full [OF h(2) L]]
  have "list_all (fits n) (op_values (Floor i k) s)"
    using mem_fits [OF S h(3)] mem_fits [OF R h(4)] fits_full [OF h(2) L] by (simp add: Let_def)
  moreover have "exec_op n (Floor i k) s = exact_op (Floor i k) s"
    by (simp only: w Let_def exec_op.simps exact_op.simps)
  moreover have "within B' (exact_op (Floor i k) s)"
    unfolding B' exact_op.simps Let_def using assms(2) R L by (intro within_update)
  ultimately show ?thesis by simp
qed

lemma wrap_sound:
  assumes "op_itv n (Wrap i k c) B = Some B'" and "within B s" and "0 < n"
  shows "exec_op n (Wrap i k c) s = exact_op (Wrap i k c) s \<and> within B' (exact_op (Wrap i k c) s) \<and> list_all (fits n) (op_values (Wrap i k c) s)"
proof -
  let ?I = "add_itv (B ! i) (2 ^ (k - 1), 2 ^ (k - 1))"
  let ?C = "shift_itv k ?I" and ?c = "(s ! i + 2 ^ (k - 1)) div 2 ^ k"
  from assms(1) have h: "i < length B" "0 < i" "0 < k" "k < n" "fits_itv n ?I" "fits_itv n (scale_itv (2 ^ k) ?C)"
      "fits_itv n (scale_itv c ?C)" "fits_itv n (add_itv (B ! 0) (scale_itv c ?C))"
    and B': "B' = B[0 := add_itv (B ! 0) (scale_itv c ?C), i := (- (2 ^ (k - 1)), 2 ^ (k - 1) - 1)]"
    by (auto simp: Let_def split: if_splits)
  have m: "mem_itv (s ! i) (B ! i)" "mem_itv (s ! 0) (B ! 0)"
    using assms(2) h(1,2) by (auto intro: within_nth)
  have I: "mem_itv (s ! i + 2 ^ (k - 1)) ?I" using m(1) mem_const by (rule mem_add)
  then have C: "mem_itv ?c ?C" by (rule mem_shift)
  then have S: "mem_itv (?c * 2 ^ k) (scale_itv (2 ^ k) ?C)" and P: "mem_itv (?c * c) (scale_itv c ?C)"
    by (rule mem_scale)+
  have R: "mem_itv (s ! 0 + ?c * c) (add_itv (B ! 0) (scale_itv c ?C))" using m(2) P by (rule mem_add)
  have L: "mem_itv (s ! i - ?c * 2 ^ k) (- (2 ^ (k - 1)), 2 ^ (k - 1) - 1)" by (rule rounded_rest [OF h(3)])
  note w = wrapn_id [OF assms(3) mem_fits [OF I h(5)]] wrapn_id [OF assms(3) mem_fits [OF S h(6)]]
    wrapn_id [OF assms(3) mem_fits [OF P h(7)]]
    wrapn_id [OF assms(3) mem_fits [OF R h(8)]] wrapn_id [OF assms(3) fits_half [OF h(4) L]]
  have "list_all (fits n) (op_values (Wrap i k c) s)"
    using mem_fits [OF I h(5)] mem_fits [OF S h(6)] mem_fits [OF P h(7)] mem_fits [OF R h(8)] fits_half [OF h(4) L] by (simp add: Let_def)
  moreover have "exec_op n (Wrap i k c) s = exact_op (Wrap i k c) s"
    by (simp only: w Let_def exec_op.simps exact_op.simps)
  moreover have "within B' (exact_op (Wrap i k c) s)"
    unfolding B' exact_op.simps Let_def using assms(2) R L by (intro within_update)
  ultimately show ?thesis by simp
qed

lemma op_itv_sound:
  assumes "op_itv n op B = Some B'" and "within B s" and "0 < n"
  shows "exec_op n op s = exact_op op s \<and> within B' (exact_op op s) \<and> list_all (fits n) (op_values op s)"
proof (cases op)
  case (Clear j)
  with assms show ?thesis
    by (auto split: if_splits intro!: within_update simp: mem_itv_def)
qed (use assms round_sound floor_sound wrap_sound fold_sound in metis)+

lemma ops_itv_sound:
  assumes "ops_itv n ops B = Some B'" and "within B s" and "0 < n"
  shows "exec n ops s = fold exact_op ops s \<and> within B' (fold exact_op ops s) \<and> no_overflow n ops s"
  using assms
proof (induction ops arbitrary: B s)
  case Nil
  then show ?case by (simp add: exec_def)
next
  case (Cons op ops)
  then obtain B1 where "op_itv n op B = Some B1" and "ops_itv n ops B1 = Some B'"
    by (auto split: option.splits)
  with Cons show ?case
    using op_itv_sound [of n op B B1 s] by (simp add: exec_def)
qed

section \<open>The number the limbs denote\<close>

definition limb_val :: "(nat \<Rightarrow> nat) \<Rightarrow> nat \<Rightarrow> int list \<Rightarrow> int" where
  "limb_val W m s = (\<Sum>i < m. s ! i * 2 ^ W i)"

lemma limb_val_update:
  assumes "i < m" and "m \<le> length s"
  shows "limb_val W m (s[i := x]) = limb_val W m s + (x - s ! i) * 2 ^ W i"
proof -
  have "limb_val W m (s[i := x]) = (\<Sum>t < m. s ! t * 2 ^ W t + (if t = i then (x - s ! i) * 2 ^ W i else 0))"
    unfolding limb_val_def using assms
    by (intro sum.cong) (auto simp: nth_list_update algebra_simps)
  with assms(1) show ?thesis
    by (simp add: sum.distrib sum.delta limb_val_def)
qed

lemma limb_val_Suc: "limb_val W (Suc m) s = limb_val W m s + s ! m * 2 ^ W m"
  by (simp add: limb_val_def)

lemma limb_val_0 [simp]: "limb_val W 0 s = 0"
  by (simp add: limb_val_def)

lemma limb_val_1 [simp]: "limb_val W (Suc 0) s = s ! 0 * 2 ^ W 0"
  by (simp add: limb_val_def)

lemma limb_val_numeral:
  "limb_val W (numeral n) s = limb_val W (pred_numeral n) s + s ! pred_numeral n * 2 ^ W (pred_numeral n)"
  by (simp add: numeral_eq_Suc limb_val_Suc)

text \<open>
  A sequence is tracked with the number \<open>m\<close> of limbs that are live: \<open>Fold j\<close> moves the top limb
  into the lower ones (the C code leaves the dead value in \<open>s[j]\<close>), and \<open>Clear j\<close> makes limb \<open>j\<close>
  live again, with the value 0.
\<close>

fun op_live :: "(nat \<Rightarrow> nat) \<Rightarrow> (nat \<Rightarrow> nat \<Rightarrow> int \<Rightarrow> bool) \<Rightarrow> (nat \<Rightarrow> bool) \<Rightarrow> limb_op \<Rightarrow> nat \<Rightarrow> nat option" where
  "op_live W wraps folds (Round i k) m = (if Suc i < m \<and> W (Suc i) = W i + k then Some m else None)"
| "op_live W wraps folds (Floor i k) m = (if Suc i < m \<and> W (Suc i) = W i + k then Some m else None)"
| "op_live W wraps folds (Wrap i k c) m = (if 0 < i \<and> i < m \<and> wraps i k c then Some m else None)"
| "op_live W wraps folds (Fold j) m = (if m = Suc j \<and> folds j then Some j else None)"
| "op_live W wraps folds (Clear j) m = (if m = j then Some (Suc j) else None)"

fun ops_live :: "(nat \<Rightarrow> nat) \<Rightarrow> (nat \<Rightarrow> nat \<Rightarrow> int \<Rightarrow> bool) \<Rightarrow> (nat \<Rightarrow> bool) \<Rightarrow> limb_op list \<Rightarrow> nat \<Rightarrow> nat option" where
  "ops_live W wraps folds [] m = Some m"
| "ops_live W wraps folds (op # ops) m =
    (case op_live W wraps folds op m of None \<Rightarrow> None | Some m' \<Rightarrow> ops_live W wraps folds ops m')"

fun op_size :: "limb_op \<Rightarrow> nat" where
  "op_size (Clear j) = Suc j"
| "op_size _ = 0"

lemma exact_op_length [simp]: "length (exact_op op s) = length s"
  by (cases op) (auto simp: Let_def)

lemma exact_ops_length [simp]: "length (fold exact_op ops s) = length s"
  by (induction ops arbitrary: s) auto

lemma carry_value:
  assumes "Suc i < m" and "m \<le> length s" and "W (Suc i) = W i + k"
  shows "limb_val W m (s[Suc i := s ! Suc i + c, i := s ! i - c * 2 ^ k]) = limb_val W m s"
  using assms by (simp add: limb_val_update power_add algebra_simps)

locale limb_machine =
  fixes W :: "nat \<Rightarrow> nat" and M :: int
    and wraps :: "nat \<Rightarrow> nat \<Rightarrow> int \<Rightarrow> bool" and folds :: "nat \<Rightarrow> bool"
  assumes W_0: "W 0 = 0"
    and wraps_law: "wraps i k c \<Longrightarrow> M dvd 2 ^ (W i + k) - c"
    and folds_12: "folds j \<Longrightarrow> 12 \<le> j"
    and folds_law: "folds j \<Longrightarrow> M dvd 2 ^ W j -
      (666643 * 2 ^ W (j - 12) + 470296 * 2 ^ W (j - 11) + 654183 * 2 ^ W (j - 10)
       - 997805 * 2 ^ W (j - 9) + 136657 * 2 ^ W (j - 8) - 683901 * 2 ^ W (j - 7))"
begin

lemma wrap_value:
  assumes "0 < i" and "i < m" and "m \<le> length s" and "wraps i k c"
  shows "M dvd limb_val W m s - limb_val W m (s[0 := s ! 0 + d * c, i := s ! i - d * 2 ^ k])"
proof -
  have "limb_val W m s - limb_val W m (s[0 := s ! 0 + d * c, i := s ! i - d * 2 ^ k]) =
        d * (2 ^ (W i + k) - c)"
    using assms by (simp add: limb_val_update W_0 power_add algebra_simps)
  then show ?thesis using wraps_law [OF assms(4)] by (simp add: dvd_mult)
qed

lemma fold_value:
  assumes "folds j" and "j < length s"
  shows "M dvd limb_val W (Suc j) s - limb_val W j (exact_op (Fold j) s)"
proof -
  have "limb_val W (Suc j) s - limb_val W j (exact_op (Fold j) s) = s ! j * (2 ^ W j -
      (666643 * 2 ^ W (j - 12) + 470296 * 2 ^ W (j - 11) + 654183 * 2 ^ W (j - 10)
       - 997805 * 2 ^ W (j - 9) + 136657 * 2 ^ W (j - 8) - 683901 * 2 ^ W (j - 7)))"
    using assms(2) folds_12 [OF assms(1)]
    by (simp add: limb_val_update limb_val_Suc nth_list_update algebra_simps)
  then show ?thesis using folds_law [OF assms(1)] by (simp add: dvd_mult)
qed

lemma op_value:
  assumes "op_live W wraps folds op m = Some m'" and "m \<le> length s" and "op_size op \<le> length s"
  shows "m' \<le> length s \<and> M dvd limb_val W m s - limb_val W m' (exact_op op s)"
proof (cases op)
  case (Round i k)
  with assms show ?thesis by (auto simp: Let_def carry_value split: if_splits)
next
  case (Floor i k)
  with assms show ?thesis by (auto simp: Let_def carry_value split: if_splits)
next
  case (Wrap i k c)
  with assms show ?thesis by (auto simp: Let_def wrap_value split: if_splits)
next
  case (Fold j)
  with assms fold_value [of j s] show ?thesis by (auto split: if_splits)
next
  case (Clear j)
  then have "limb_val W m' (exact_op op s) = limb_val W m s"
    using assms by (auto simp: limb_val_Suc split: if_splits) (simp add: limb_val_def)
  with Clear assms show ?thesis by (auto split: if_splits)
qed

text \<open>What a whole sequence does to the number, modulo \<open>M\<close>.\<close>

lemma ops_value:
  assumes "ops_live W wraps folds ops m = Some m'" and "m \<le> length s"
    and "\<forall>op \<in> set ops. op_size op \<le> length s"
  shows "m' \<le> length s \<and> M dvd limb_val W m s - limb_val W m' (fold exact_op ops s)"
  using assms
proof (induction ops arbitrary: m s)
  case Nil
  then show ?case by simp
next
  case (Cons op ops)
  then obtain m1 where m1: "op_live W wraps folds op m = Some m1"
      and "ops_live W wraps folds ops m1 = Some m'"
    by (auto split: option.splits)
  moreover have step: "m1 \<le> length s \<and> M dvd limb_val W m s - limb_val W m1 (exact_op op s)"
    using op_value [OF m1] Cons.prems by simp
  ultimately have "m' \<le> length s \<and>
      M dvd limb_val W m1 (exact_op op s) - limb_val W m' (fold exact_op ops (exact_op op s))"
    using Cons.IH [of m1 "exact_op op s"] Cons.prems by simp
  with step show ?case
    using dvd_add [of M "limb_val W m s - limb_val W m1 (exact_op op s)"] by fastforce
qed

text \<open>The machine's run, wrap-around included: the analysis rules every wrap out.\<close>

theorem exec_value:
  assumes "ops_itv n ops B = Some B'" and "within B s" and "0 < n"
    and "ops_live W wraps folds ops m = Some m'" and "m \<le> length s"
    and "\<forall>op \<in> set ops. op_size op \<le> length s"
  shows "within B' (exec n ops s)" and "limb_val W m' (exec n ops s) mod M = limb_val W m s mod M"
proof -
  have e: "exec n ops s = fold exact_op ops s" and w: "within B' (fold exact_op ops s)"
    using ops_itv_sound [OF assms(1-3)] by auto
  show "within B' (exec n ops s)" using e w by simp
  have "M dvd limb_val W m s - limb_val W m' (exec n ops s)"
    using ops_value [OF assms(4-6)] e by simp
  then show "limb_val W m' (exec n ops s) mod M = limb_val W m s mod M"
    by (metis mod_eq_dvd_iff)
qed

end

text \<open>A sequence of carries alone keeps the number itself.\<close>

fun is_carry :: "limb_op \<Rightarrow> bool" where
  "is_carry (Round i k) = True"
| "is_carry (Floor i k) = True"
| "is_carry _ = False"

lemma carries_value:
  assumes "list_all is_carry ops" and "ops_live W wraps folds ops m = Some m'" and "m \<le> length s"
  shows "m' = m \<and> limb_val W m (fold exact_op ops s) = limb_val W m s"
  using assms
proof (induction ops arbitrary: s)
  case Nil
  then show ?case by simp
next
  case (Cons op ops)
  then show ?case
    by (cases op) (auto simp: Let_def carry_value split: if_splits option.splits)
qed

end
