(* ===== verification/LimbBytes.thy ===== *)
theory LimbBytes
  imports Limbs
begin

text \<open>
  Limbs and byte strings: the loads \<open>load_3\<close> and \<open>load_4\<close> of \<open>src/crypto/crypto-ops.c\<close>, and the facts
  that turn a masked load into a bit field of the little-endian number, a sum of such fields into the
  number, and the bytes of a store into parts of the limbs.
\<close>

text \<open>\<open>load_3\<close> and \<open>load_4\<close>: the pointer argument is the suffix of the byte string it points at.\<close>

definition load_3 :: "bytes \<Rightarrow> u64" where
  "load_3 b = ucast (b ! 0) OR push_bit 8 (ucast (b ! 1)) OR push_bit 16 (ucast (b ! 2))"

definition load_4 :: "bytes \<Rightarrow> u64" where
  "load_4 b = ucast (b ! 0) OR push_bit 8 (ucast (b ! 1)) OR push_bit 16 (ucast (b ! 2))
    OR push_bit 24 (ucast (b ! 3))"

lemma unat_push_byte: "k \<le> 24 \<Longrightarrow> unat (push_bit k (ucast (b :: u8) :: u64)) = push_bit k (unat b)"
proof -
  assume "k \<le> 24"
  then have "unat b * 2 ^ k < 256 * 2 ^ 24"
    using mult_less_le_imp_less [of "unat b" 256 "2 ^ k" "2 ^ 24"] power_increasing [of k 24 "2 :: nat"]
    by simp
  then have "unat b * 2 ^ k mod 2 ^ 64 = unat b * 2 ^ k"
    by (intro mod_less) simp
  then show ?thesis
    using unat_push_bit_mod [of k "ucast b :: u64"] unat_ucast_up [of b, where 'b = 64]
    by (simp add: push_bit_eq_mult [where 'a = nat])
qed

lemma nat_or_shift: "(b :: nat) < 2 ^ n \<Longrightarrow> b OR push_bit n a = b + a * 2 ^ n"
  using nat_shift_or [of b n a] by (simp add: or.commute)

lemma unat_load_3: "unat (load_3 [b0, b1, b2]) = le_val [b0, b1, b2]"
proof -
  have b: "unat b0 + unat b1 * 256 < 65536"
    using unat_u8_bound [of b0] unat_u8_bound [of b1] by linarith
  have "unat (load_3 [b0, b1, b2]) = (unat b0 OR push_bit 8 (unat b1)) OR push_bit 16 (unat b2)"
    by (simp add: load_3_def unsigned_or_eq unat_push_byte unat_ucast_up or.assoc)
  also have "\<dots> = (unat b0 + unat b1 * 2 ^ 8) + unat b2 * 2 ^ 16"
    using b by (simp add: nat_or_shift)
  finally show ?thesis by simp
qed

lemma unat_load_4: "unat (load_4 [b0, b1, b2, b3]) = le_val [b0, b1, b2, b3]"
proof -
  have b: "unat b0 + unat b1 * 256 < 65536" "unat b0 + unat b1 * 256 + unat b2 * 65536 < 16777216"
    using unat_u8_bound [of b0] unat_u8_bound [of b1] unat_u8_bound [of b2] by linarith+
  have "unat (load_4 [b0, b1, b2, b3]) =
      ((unat b0 OR push_bit 8 (unat b1)) OR push_bit 16 (unat b2)) OR push_bit 24 (unat b3)"
    by (simp add: load_4_def unsigned_or_eq unat_push_byte unat_ucast_up or.assoc)
  also have "\<dots> = (unat b0 + unat b1 * 2 ^ 8) + unat b2 * 2 ^ 16 + unat b3 * 2 ^ 24"
    using b by (simp add: nat_or_shift)
  finally show ?thesis by simp
qed

lemma take_4_list: "4 \<le> length (b :: 'a list) \<Longrightarrow> \<exists>w x y z r. b = w # x # y # z # r"
  by (auto simp: Suc_le_length_iff numeral_eq_Suc)

lemma take_3_list: "3 \<le> length (b :: 'a list) \<Longrightarrow> \<exists>w x y r. b = w # x # y # r"
  by (auto simp: Suc_le_length_iff numeral_eq_Suc)

lemma le_val_drop: "le_val (drop k s) = le_val s div 256 ^ k"
proof (cases "k \<le> length s")
  case True
  have "le_val s = le_val (take k s) + 256 ^ k * le_val (drop k s)"
    using le_val_append [of "take k s" "drop k s"] True by simp
  moreover have "le_val (take k s) < 256 ^ k"
    using le_val_bound [of "take k s"] True by simp
  ultimately show ?thesis by simp
next
  case False
  then have "le_val s < 256 ^ k"
    using le_val_bound [of s] power_increasing [of "length s" k "256 :: nat"] by linarith
  with False show ?thesis by simp
qed

lemma le_val_take: "le_val (take k s) = le_val s mod 256 ^ k"
proof (cases "k \<le> length s")
  case True
  have "le_val s = le_val (take k s) + 256 ^ k * le_val (drop k s)"
    using le_val_append [of "take k s" "drop k s"] True by simp
  moreover have "le_val (take k s) < 256 ^ k"
    using le_val_bound [of "take k s"] True by simp
  ultimately show ?thesis by simp
next
  case False
  then have "le_val s < 256 ^ k"
    using le_val_bound [of s] power_increasing [of "length s" k "256 :: nat"] by linarith
  with False show ?thesis by simp
qed

lemma load_3_value: "k + 3 \<le> length s \<Longrightarrow> unat (load_3 (drop k s)) = le_val s div 256 ^ k mod 2 ^ 24"
proof -
  assume "k + 3 \<le> length s"
  then have "3 \<le> length (drop k s)" by simp
  from take_3_list [OF this] obtain w x y r where d: "drop k s = w # x # y # r" by blast
  have "unat (load_3 (drop k s)) = le_val (take 3 (drop k s))"
    using unat_load_3 [of w x y] by (simp add: d load_3_def)
  then show ?thesis by (simp add: le_val_take le_val_drop)
qed

lemma load_4_value: "k + 4 \<le> length s \<Longrightarrow> unat (load_4 (drop k s)) = le_val s div 256 ^ k mod 2 ^ 32"
proof -
  assume "k + 4 \<le> length s"
  then have "4 \<le> length (drop k s)" by simp
  from take_4_list [OF this] obtain w x y z r where d: "drop k s = w # x # y # z # r" by blast
  have "unat (load_4 (drop k s)) = le_val (take 4 (drop k s))"
    using unat_load_4 [of w x y z] by (simp add: d load_4_def)
  then show ?thesis by (simp add: le_val_take le_val_drop)
qed

text \<open>A field of \<open>m\<close> bits at bit \<open>r\<close> of a window of \<open>n\<close> bits is a field of the whole number.\<close>

lemma window_field:
  fixes x :: nat
  assumes "r + m \<le> n"
  shows "x div 2 ^ q mod 2 ^ n div 2 ^ r mod 2 ^ m = x div 2 ^ (q + r) mod 2 ^ m"
proof -
  have "take_bit m (drop_bit r (take_bit n (drop_bit q x))) = take_bit m (drop_bit (q + r) x)"
    by (rule bit_eqI) (use assms in \<open>auto simp: bit_simps add_ac\<close>)
  then show ?thesis by (simp add: take_bit_eq_mod drop_bit_eq_div)
qed

lemma exp_256: "(256 :: nat) ^ k = 2 ^ (8 * k)"
  by (simp add: power_mult)

lemma limb_3:
  assumes "k + 3 \<le> length s" and "r \<le> 3"
  shows "uint (2097151 AND drop_bit r (load_3 (drop k s))) = int (le_val s) div 2 ^ (8 * k + r) mod 2 ^ 21"
proof -
  have "2097151 AND drop_bit r (load_3 (drop k s)) = take_bit 21 (drop_bit r (load_3 (drop k s)))"
    by (simp add: take_bit_eq_mask mask_eq_exp_minus_1 and.commute)
  then have "unat (2097151 AND drop_bit r (load_3 (drop k s))) = le_val s div 2 ^ (8 * k) mod 2 ^ 24 div 2 ^ r mod 2 ^ 21"
    by (simp add: unat_take_bit_mod unat_drop_bit_div load_3_value [OF assms(1)] exp_256)
  also have "\<dots> = le_val s div 2 ^ (8 * k + r) mod 2 ^ 21"
    using assms(2) by (intro window_field) simp
  finally show ?thesis
    by (simp add: uint_nat zdiv_int zmod_int)
qed

lemma limb_4:
  assumes "k + 4 \<le> length s" and "r \<le> 11"
  shows "uint (2097151 AND drop_bit r (load_4 (drop k s))) = int (le_val s) div 2 ^ (8 * k + r) mod 2 ^ 21"
proof -
  have "2097151 AND drop_bit r (load_4 (drop k s)) = take_bit 21 (drop_bit r (load_4 (drop k s)))"
    by (simp add: take_bit_eq_mask mask_eq_exp_minus_1 and.commute)
  then have "unat (2097151 AND drop_bit r (load_4 (drop k s))) = le_val s div 2 ^ (8 * k) mod 2 ^ 32 div 2 ^ r mod 2 ^ 21"
    by (simp add: unat_take_bit_mod unat_drop_bit_div load_4_value [OF assms(1)] exp_256)
  also have "\<dots> = le_val s div 2 ^ (8 * k + r) mod 2 ^ 21"
    using assms(2) by (intro window_field) simp
  finally show ?thesis
    by (simp add: uint_nat zdiv_int zmod_int)
qed

lemma limb_top:
  assumes "length s = k + 4"
  shows "uint (drop_bit r (load_4 (drop k s))) = int (le_val s) div 2 ^ (8 * k + r)"
proof -
  have "le_val s div 256 ^ k < 2 ^ 32"
    using le_val_bound [of s] assms by (simp add: div_less_iff_less_mult power_add mult.commute)
  then have "unat (drop_bit r (load_4 (drop k s))) = le_val s div 256 ^ k div 2 ^ r"
    by (simp add: unat_drop_bit_div load_4_value assms)
  then show ?thesis
    by (simp add: uint_nat zdiv_int exp_256 power_add zdiv_zmult2_eq)
qed

lemma digits_sum:
  fixes x :: int
  shows "(\<Sum>i < m. x div 2 ^ (k * i) mod 2 ^ k * 2 ^ (k * i)) = x mod 2 ^ (k * m)"
proof (induction m)
  case 0
  then show ?case by simp
next
  case (Suc m)
  have "x mod 2 ^ (k * Suc m) = 2 ^ (k * m) * (x div 2 ^ (k * m) mod 2 ^ k) + x mod 2 ^ (k * m)"
    using zmod_zmult2_eq [of "2 ^ k" x "2 ^ (k * m)"] by (simp add: power_add add.commute mult.commute)
  with Suc show ?case by (simp add: mult.commute)
qed

text \<open>The bytes of the store: eight bits of one limb, or the top of one and the bottom of the next.\<close>

lemma byte_of_limb: "uint (word_of_int (drop_bit a x) :: u8) = x div 2 ^ a mod 256"
  by (simp add: uint_word_of_int drop_bit_eq_div)

lemma byte_of_two:
  assumes "0 \<le> x" and "x < 2 ^ (a + b)" and "b \<le> 8"
  shows "uint (word_of_int (drop_bit a x OR push_bit b y) :: u8) = x div 2 ^ a + 2 ^ b * (y mod 2 ^ (8 - b))"
proof -
  have lt: "0 \<le> x div 2 ^ a" "x div 2 ^ a < 2 ^ b"
    using assms by (simp_all add: pos_imp_zdiv_nonneg_iff power_add div_less_int)
  then have "take_bit b (drop_bit a x) = x div 2 ^ a"
    by (simp add: drop_bit_eq_div take_bit_int_eq_self)
  moreover have "take_bit b (drop_bit a x) AND push_bit b y = 0"
    by (rule bit_eqI) (auto simp: bit_simps)
  ultimately have or: "drop_bit a x OR push_bit b y = x div 2 ^ a + 2 ^ b * y"
    by (simp add: disjunctive_add_eq_or [symmetric] push_bit_eq_mult drop_bit_eq_div mult.commute)
  have e: "(256 :: int) = 2 ^ b * 2 ^ (8 - b)"
    using assms(3) by (simp flip: power_add)
  have "(x div 2 ^ a + 2 ^ b * y) mod 256 = x div 2 ^ a + 2 ^ b * (y mod 2 ^ (8 - b))"
    unfolding e using lt by (subst zmod_zmult2_eq) simp_all
  then show ?thesis unfolding or uint_word_of_int by simp
qed

end
