(* ===== verification/Scalar.thy ===== *)
theory Scalar
  imports LimbBytes
begin

unbundle bit_operations_syntax

text \<open>
  Arithmetic of scalars modulo the order \<open>l\<close> of the base point, \<open>src/crypto/crypto-ops.c\<close>: \<open>sc_0\<close>,
  \<open>sc_reduce\<close>, \<open>sc_reduce32\<close>, \<open>sc_add\<close>, \<open>sc_sub\<close>, \<open>sc_mulsub\<close>, \<open>sc_check\<close> and \<open>sc_isnonzero\<close>. A scalar is
  a string of 32 bytes, little-endian. The functions split it into limbs of 21 bits, compute on
  \<open>int64_t\<close> limbs and run the carry sequences of \<open>Limbs\<close>; each sequence below lists the carry and
  reduction lines of the C function in their order. The functions work in place on \<open>unsigned char *\<close>
  arguments: here they return the new contents.

  The lemmas show that no limb ever overflows \<open>int64_t\<close>, and that the result is the canonical
  representative, below \<open>l\<close>, of the sum, difference, reduction or of \<open>c - a b\<close>.
\<close>

definition l_order :: int where
  "l_order = 2 ^ 252 + 27742317777372353535851937790883648493"

definition load_scalar :: "bytes \<Rightarrow> int list" where
  "load_scalar s =
    [uint (2097151 AND drop_bit 0 (load_3 (drop 0 s))), uint (2097151 AND drop_bit 5 (load_4 (drop 2 s))),
     uint (2097151 AND drop_bit 2 (load_3 (drop 5 s))), uint (2097151 AND drop_bit 7 (load_4 (drop 7 s))),
     uint (2097151 AND drop_bit 4 (load_4 (drop 10 s))),
     uint (2097151 AND drop_bit 1 (load_3 (drop 13 s))),
     uint (2097151 AND drop_bit 6 (load_4 (drop 15 s))),
     uint (2097151 AND drop_bit 3 (load_3 (drop 18 s))),
     uint (2097151 AND drop_bit 0 (load_3 (drop 21 s))),
     uint (2097151 AND drop_bit 5 (load_4 (drop 23 s))),
     uint (2097151 AND drop_bit 2 (load_3 (drop 26 s))), uint (drop_bit 7 (load_4 (drop 28 s)))]"

definition load_scalar_64 :: "bytes \<Rightarrow> int list" where
  "load_scalar_64 s =
    [uint (2097151 AND drop_bit 0 (load_3 (drop 0 s))), uint (2097151 AND drop_bit 5 (load_4 (drop 2 s))),
     uint (2097151 AND drop_bit 2 (load_3 (drop 5 s))), uint (2097151 AND drop_bit 7 (load_4 (drop 7 s))),
     uint (2097151 AND drop_bit 4 (load_4 (drop 10 s))),
     uint (2097151 AND drop_bit 1 (load_3 (drop 13 s))),
     uint (2097151 AND drop_bit 6 (load_4 (drop 15 s))),
     uint (2097151 AND drop_bit 3 (load_3 (drop 18 s))),
     uint (2097151 AND drop_bit 0 (load_3 (drop 21 s))),
     uint (2097151 AND drop_bit 5 (load_4 (drop 23 s))),
     uint (2097151 AND drop_bit 2 (load_3 (drop 26 s))),
     uint (2097151 AND drop_bit 7 (load_4 (drop 28 s))),
     uint (2097151 AND drop_bit 4 (load_4 (drop 31 s))),
     uint (2097151 AND drop_bit 1 (load_3 (drop 34 s))),
     uint (2097151 AND drop_bit 6 (load_4 (drop 36 s))),
     uint (2097151 AND drop_bit 3 (load_3 (drop 39 s))),
     uint (2097151 AND drop_bit 0 (load_3 (drop 42 s))),
     uint (2097151 AND drop_bit 5 (load_4 (drop 44 s))),
     uint (2097151 AND drop_bit 2 (load_3 (drop 47 s))),
     uint (2097151 AND drop_bit 7 (load_4 (drop 49 s))),
     uint (2097151 AND drop_bit 4 (load_4 (drop 52 s))),
     uint (2097151 AND drop_bit 1 (load_3 (drop 55 s))),
     uint (2097151 AND drop_bit 6 (load_4 (drop 57 s))), uint (drop_bit 3 (load_4 (drop 60 s)))]"

definition store_scalar :: "int list \<Rightarrow> bytes" where
  "store_scalar s =
    [word_of_int (drop_bit 0 (s ! 0)), word_of_int (drop_bit 8 (s ! 0)),
     word_of_int (drop_bit 16 (s ! 0) OR push_bit 5 (s ! 1)), word_of_int (drop_bit 3 (s ! 1)),
     word_of_int (drop_bit 11 (s ! 1)), word_of_int (drop_bit 19 (s ! 1) OR push_bit 2 (s ! 2)),
     word_of_int (drop_bit 6 (s ! 2)), word_of_int (drop_bit 14 (s ! 2) OR push_bit 7 (s ! 3)),
     word_of_int (drop_bit 1 (s ! 3)), word_of_int (drop_bit 9 (s ! 3)),
     word_of_int (drop_bit 17 (s ! 3) OR push_bit 4 (s ! 4)), word_of_int (drop_bit 4 (s ! 4)),
     word_of_int (drop_bit 12 (s ! 4)), word_of_int (drop_bit 20 (s ! 4) OR push_bit 1 (s ! 5)),
     word_of_int (drop_bit 7 (s ! 5)), word_of_int (drop_bit 15 (s ! 5) OR push_bit 6 (s ! 6)),
     word_of_int (drop_bit 2 (s ! 6)), word_of_int (drop_bit 10 (s ! 6)),
     word_of_int (drop_bit 18 (s ! 6) OR push_bit 3 (s ! 7)), word_of_int (drop_bit 5 (s ! 7)),
     word_of_int (drop_bit 13 (s ! 7)), word_of_int (drop_bit 0 (s ! 8)), word_of_int (drop_bit 8 (s ! 8)),
     word_of_int (drop_bit 16 (s ! 8) OR push_bit 5 (s ! 9)), word_of_int (drop_bit 3 (s ! 9)),
     word_of_int (drop_bit 11 (s ! 9)), word_of_int (drop_bit 19 (s ! 9) OR push_bit 2 (s ! 10)),
     word_of_int (drop_bit 6 (s ! 10)), word_of_int (drop_bit 14 (s ! 10) OR push_bit 7 (s ! 11)),
     word_of_int (drop_bit 1 (s ! 11)), word_of_int (drop_bit 9 (s ! 11)),
     word_of_int (drop_bit 17 (s ! 11))]"

text \<open>The carries that open \<open>sc_mulsub\<close>, on the 24 limbs of the product.\<close>

definition product_carries :: "limb_op list" where
  "product_carries =
    [Round 0 21, Round 2 21, Round 4 21, Round 6 21, Round 8 21, Round 10 21, Round 12 21, Round 14 21,
     Round 16 21, Round 18 21, Round 20 21, Round 22 21, Round 1 21, Round 3 21, Round 5 21, Round 7 21,
     Round 9 21, Round 11 21, Round 13 21, Round 15 21, Round 17 21, Round 19 21, Round 21 21]"

text \<open>From 24 limbs to 12, as in \<open>sc_reduce\<close> and \<open>sc_mulsub\<close>.\<close>

definition fold_high_limbs :: "limb_op list" where
  "fold_high_limbs =
    [Fold 23, Fold 22, Fold 21, Fold 20, Fold 19, Fold 18, Round 6 21, Round 8 21, Round 10 21,
     Round 12 21, Round 14 21, Round 16 21, Round 7 21, Round 9 21, Round 11 21, Round 13 21, Round 15 21,
     Fold 17, Fold 16, Fold 15, Fold 14, Fold 13, Fold 12, Clear 12]"

text \<open>The rounded pass, its reduction and the first floor pass, shared by all five functions.\<close>

definition normal_pass :: "limb_op list" where
  "normal_pass =
    [Round 0 21, Round 2 21, Round 4 21, Round 6 21, Round 8 21, Round 10 21, Round 1 21, Round 3 21,
     Round 5 21, Round 7 21, Round 9 21, Round 11 21, Fold 12, Clear 12, Floor 0 21, Floor 1 21,
     Floor 2 21, Floor 3 21, Floor 4 21, Floor 5 21, Floor 6 21, Floor 7 21, Floor 8 21, Floor 9 21,
     Floor 10 21, Floor 11 21]"

text \<open>The last reduction and floor pass, shared by all five functions.\<close>

definition last_pass :: "limb_op list" where
  "last_pass =
    [Fold 12, Floor 0 21, Floor 1 21, Floor 2 21, Floor 3 21, Floor 4 21, Floor 5 21, Floor 6 21,
     Floor 7 21, Floor 8 21, Floor 9 21, Floor 10 21]"

definition sc_0 :: bytes where
  "sc_0 = replicate 32 0"

definition sc_reduce :: "bytes \<Rightarrow> bytes" where
  "sc_reduce s = store_scalar (exec 64 last_pass (exec 64 (fold_high_limbs @ normal_pass) (load_scalar_64 s)))"

definition sc_reduce32 :: "bytes \<Rightarrow> bytes" where
  "sc_reduce32 s = store_scalar (exec 64 last_pass (exec 64 normal_pass (load_scalar s @ [0])))"

definition sc_add :: "bytes \<Rightarrow> bytes \<Rightarrow> bytes" where
  "sc_add a b =
    (let s = map2 (\<lambda>x y. wrapn 64 (x + y)) (load_scalar a) (load_scalar b) @ [0]
     in store_scalar (exec 64 last_pass (exec 64 normal_pass s)))"

definition sc_sub :: "bytes \<Rightarrow> bytes \<Rightarrow> bytes" where
  "sc_sub a b =
    (let s = map2 (\<lambda>x y. wrapn 64 (x - y)) (load_scalar a) (load_scalar b) @ [0]
     in store_scalar (exec 64 last_pass (exec 64 normal_pass s)))"

text \<open>
  The limbs of \<open>c - a b\<close> before any carry: the factors of the products of each sum, and the limbs. The limbs 0 to 11 are
  \<^verbatim>\<open>c[k] - (sum)\<close>, the limbs 12 to 21 \<^verbatim>\<open>-(sum)\<close>, and the limb 22 is \<^verbatim>\<open>-a11*b11\<close>.
\<close>

definition mulsub_rows :: "int list \<Rightarrow> int list \<Rightarrow> (int \<times> int) list list" where
  "mulsub_rows a b =
    [[(a ! 0, b ! 0)],
     [(a ! 0, b ! 1), (a ! 1, b ! 0)],
     [(a ! 0, b ! 2), (a ! 1, b ! 1), (a ! 2, b ! 0)],
     [(a ! 0, b ! 3), (a ! 1, b ! 2), (a ! 2, b ! 1), (a ! 3, b ! 0)],
     [(a ! 0, b ! 4), (a ! 1, b ! 3), (a ! 2, b ! 2), (a ! 3, b ! 1), (a ! 4, b ! 0)],
     [(a ! 0, b ! 5), (a ! 1, b ! 4), (a ! 2, b ! 3), (a ! 3, b ! 2), (a ! 4, b ! 1), (a ! 5, b ! 0)],
     [(a ! 0, b ! 6), (a ! 1, b ! 5), (a ! 2, b ! 4), (a ! 3, b ! 3), (a ! 4, b ! 2), (a ! 5, b ! 1), (a ! 6, b ! 0)],
     [(a ! 0, b ! 7), (a ! 1, b ! 6), (a ! 2, b ! 5), (a ! 3, b ! 4), (a ! 4, b ! 3), (a ! 5, b ! 2), (a ! 6, b ! 1),
      (a ! 7, b ! 0)],
     [(a ! 0, b ! 8), (a ! 1, b ! 7), (a ! 2, b ! 6), (a ! 3, b ! 5), (a ! 4, b ! 4), (a ! 5, b ! 3), (a ! 6, b ! 2),
      (a ! 7, b ! 1), (a ! 8, b ! 0)],
     [(a ! 0, b ! 9), (a ! 1, b ! 8), (a ! 2, b ! 7), (a ! 3, b ! 6), (a ! 4, b ! 5), (a ! 5, b ! 4), (a ! 6, b ! 3),
      (a ! 7, b ! 2), (a ! 8, b ! 1), (a ! 9, b ! 0)],
     [(a ! 0, b ! 10), (a ! 1, b ! 9), (a ! 2, b ! 8), (a ! 3, b ! 7), (a ! 4, b ! 6), (a ! 5, b ! 5), (a ! 6, b ! 4),
      (a ! 7, b ! 3), (a ! 8, b ! 2), (a ! 9, b ! 1), (a ! 10, b ! 0)],
     [(a ! 0, b ! 11), (a ! 1, b ! 10), (a ! 2, b ! 9), (a ! 3, b ! 8), (a ! 4, b ! 7), (a ! 5, b ! 6), (a ! 6, b ! 5),
      (a ! 7, b ! 4), (a ! 8, b ! 3), (a ! 9, b ! 2), (a ! 10, b ! 1), (a ! 11, b ! 0)],
     [(a ! 1, b ! 11), (a ! 2, b ! 10), (a ! 3, b ! 9), (a ! 4, b ! 8), (a ! 5, b ! 7), (a ! 6, b ! 6), (a ! 7, b ! 5),
      (a ! 8, b ! 4), (a ! 9, b ! 3), (a ! 10, b ! 2), (a ! 11, b ! 1)],
     [(a ! 2, b ! 11), (a ! 3, b ! 10), (a ! 4, b ! 9), (a ! 5, b ! 8), (a ! 6, b ! 7), (a ! 7, b ! 6), (a ! 8, b ! 5),
      (a ! 9, b ! 4), (a ! 10, b ! 3), (a ! 11, b ! 2)],
     [(a ! 3, b ! 11), (a ! 4, b ! 10), (a ! 5, b ! 9), (a ! 6, b ! 8), (a ! 7, b ! 7), (a ! 8, b ! 6), (a ! 9, b ! 5),
      (a ! 10, b ! 4), (a ! 11, b ! 3)],
     [(a ! 4, b ! 11), (a ! 5, b ! 10), (a ! 6, b ! 9), (a ! 7, b ! 8), (a ! 8, b ! 7), (a ! 9, b ! 6), (a ! 10, b ! 5),
      (a ! 11, b ! 4)],
     [(a ! 5, b ! 11), (a ! 6, b ! 10), (a ! 7, b ! 9), (a ! 8, b ! 8), (a ! 9, b ! 7), (a ! 10, b ! 6), (a ! 11, b ! 5)],
     [(a ! 6, b ! 11), (a ! 7, b ! 10), (a ! 8, b ! 9), (a ! 9, b ! 8), (a ! 10, b ! 7), (a ! 11, b ! 6)],
     [(a ! 7, b ! 11), (a ! 8, b ! 10), (a ! 9, b ! 9), (a ! 10, b ! 8), (a ! 11, b ! 7)],
     [(a ! 8, b ! 11), (a ! 9, b ! 10), (a ! 10, b ! 9), (a ! 11, b ! 8)],
     [(a ! 9, b ! 11), (a ! 10, b ! 10), (a ! 11, b ! 9)],
     [(a ! 10, b ! 11), (a ! 11, b ! 10)]]"

definition mulsub_limbs :: "int list \<Rightarrow> int list \<Rightarrow> int list \<Rightarrow> int list" where
  "mulsub_limbs a b c =
    (let sums = map (dot 64) (mulsub_rows a b)
     in map2 (\<lambda>x y. wrapn 64 (x - y)) c (take 12 sums) @ map (\<lambda>y. wrapn 64 (- y)) (drop 12 sums)
        @ [wrapn 64 (wrapn 64 (- (a ! 11)) * b ! 11), 0])"

definition sc_mulsub :: "bytes \<Rightarrow> bytes \<Rightarrow> bytes \<Rightarrow> bytes" where
  "sc_mulsub a b c =
    (let s = mulsub_limbs (load_scalar a) (load_scalar b) (load_scalar c)
     in store_scalar (exec 64 last_pass (exec 64 (product_carries @ fold_high_limbs @ normal_pass) s)))"

text \<open>\<open>signum\<close> on \<open>int64_t\<close>; the shift by 63 is arithmetic.\<close>

definition signum :: "int \<Rightarrow> int" where
  "signum a = wrapn 64 (drop_bit 63 a - drop_bit 63 (wrapn 64 (- a)))"

definition sc_check :: "bytes \<Rightarrow> int" where
  "sc_check s =
    (let s0 = uint (load_4 (drop 0 s)); s1 = uint (load_4 (drop 4 s)); s2 = uint (load_4 (drop 8 s));
         s3 = uint (load_4 (drop 12 s)); s4 = uint (load_4 (drop 16 s)); s5 = uint (load_4 (drop 20 s));
         s6 = uint (load_4 (drop 24 s)); s7 = uint (load_4 (drop 28 s))
     in drop_bit 8 (signum (1559614444 - s0) + push_bit 1 (signum (1477600026 - s1))
          + push_bit 2 (signum (2734136534 - s2)) + push_bit 3 (signum (350157278 - s3))
          + push_bit 4 (signum (- s4)) + push_bit 5 (signum (- s5)) + push_bit 6 (signum (- s6))
          + push_bit 7 (signum (268435456 - s7))))"

definition sc_isnonzero :: "bytes \<Rightarrow> int" where
  "sc_isnonzero s = drop_bit 8 (uint (foldl (OR) (s ! 0) (map (\<lambda>i. s ! i) [1..<32])) - 1) + 1"

section \<open>Loads and stores\<close>

definition W21 :: "nat \<Rightarrow> nat" where
  "W21 i = 21 * i"

lemma limb_first: "3 \<le> length s \<Longrightarrow> uint (2097151 AND load_3 s) = int (le_val s) mod 2097152"
  using limb_3 [of 0 s 0] by simp

lemma load_scalar_fields:
  assumes "length s = 32"
  shows "load_scalar s = map (\<lambda>i. int (le_val s) div 2 ^ (21 * i) mod 2 ^ 21) [0..<11] @ [int (le_val s) div 2 ^ 231]"
  unfolding load_scalar_def using assms limb_3 [of 21 s 0]
  by (simp add: limb_first limb_3 limb_4 limb_top upt_rec [of _ 11])

lemma upt_0_23: "[0..<23] = [0, 1, 2, 3, 4, 5, 6, 7, 8, 9, 10, 11, 12, 13, 14, 15, 16, 17, 18, 19, 20, 21, 22]"
  by code_simp

lemma load_scalar_64_fields:
  assumes "length s = 64"
  shows "load_scalar_64 s = map (\<lambda>i. int (le_val s) div 2 ^ (21 * i) mod 2 ^ 21) [0..<23] @ [int (le_val s) div 2 ^ 483]"
proof -
  have limbs: "k + 3 \<le> 64 \<Longrightarrow> r \<le> 3 \<Longrightarrow> 8 * k + r = q \<Longrightarrow>
        uint (2097151 AND drop_bit r (load_3 (drop k s))) = int (le_val s) div 2 ^ q mod 2 ^ 21"
      "k + 4 \<le> 64 \<Longrightarrow> r \<le> 11 \<Longrightarrow> 8 * k + r = q \<Longrightarrow>
        uint (2097151 AND drop_bit r (load_4 (drop k s))) = int (le_val s) div 2 ^ q mod 2 ^ 21"
      "k + 4 = 64 \<Longrightarrow> 8 * k + r = q \<Longrightarrow>
        uint (drop_bit r (load_4 (drop k s))) = int (le_val s) div 2 ^ q" for k r q
    using assms limb_3 [of k s r] limb_4 [of k s r] limb_top [of s k r] by auto
  show ?thesis
    unfolding load_scalar_64_def upt_0_23 list.map append.simps
    by (intro arg_cong2 [where f = Cons] refl limbs) simp_all
qed

lemma fields_value:
  fixes x :: int
  shows "limb_val W21 (Suc m) (map (\<lambda>i. x div 2 ^ (21 * i) mod 2 ^ 21) [0..<m] @ [x div 2 ^ (21 * m)]) = x"
proof -
  have "limb_val W21 m (map (\<lambda>i. x div 2 ^ (21 * i) mod 2 ^ 21) [0..<m] @ [x div 2 ^ (21 * m)])
      = (\<Sum>i < m. x div 2 ^ (21 * i) mod 2 ^ 21 * 2 ^ (21 * i))"
    unfolding limb_val_def W21_def by (intro sum.cong) (auto simp: nth_append)
  then show ?thesis
    unfolding limb_val_Suc digits_sum by (simp add: W21_def nth_append mod_div_mult_eq)
qed

lemma fields_within:
  fixes x :: int
  assumes "0 \<le> x" and "x < 2 ^ (21 * m) * 2 ^ t"
  shows "within (replicate m (0, 2 ^ 21 - 1) @ [(0, 2 ^ t - 1)])
    (map (\<lambda>i. x div 2 ^ (21 * i) mod 2 ^ 21) [0..<m] @ [x div 2 ^ (21 * m)])"
  using assms div_less_int [of "2 ^ (21 * m)" x "2 ^ t"]
  by (auto simp: within_def mem_itv_def nth_append less_Suc_eq pos_imp_zdiv_nonneg_iff)

definition scalar_itv :: "itv list" where
  "scalar_itv = replicate 11 (0, 2 ^ 21 - 1) @ [(0, 2 ^ 25 - 1)]"

lemma load_scalar_value:
  assumes "length s = 32"
  shows "limb_val W21 12 (load_scalar s) = int (le_val s)" and "within scalar_itv (load_scalar s)"
proof -
  have "int (le_val s) < 2 ^ (21 * 11) * 2 ^ 25"
    using le_val_bound [of s] assms by simp
  then show "within scalar_itv (load_scalar s)"
    using fields_within [of "int (le_val s)" 11 25] by (simp add: load_scalar_fields [OF assms] scalar_itv_def)
  show "limb_val W21 12 (load_scalar s) = int (le_val s)"
    using fields_value [of 11 "int (le_val s)"] by (simp add: load_scalar_fields [OF assms])
qed

lemma load_scalar_64_value:
  assumes "length s = 64"
  shows "limb_val W21 24 (load_scalar_64 s) = int (le_val s)"
    and "within (replicate 23 (0, 2 ^ 21 - 1) @ [(0, 2 ^ 29 - 1)]) (load_scalar_64 s)"
proof -
  have "int (le_val s) < 2 ^ (21 * 23) * 2 ^ 29"
    using le_val_bound [of s] assms by simp
  then show "within (replicate 23 (0, 2 ^ 21 - 1) @ [(0, 2 ^ 29 - 1)]) (load_scalar_64 s)"
    using fields_within [of "int (le_val s)" 23 29] by (simp add: load_scalar_64_fields [OF assms])
  show "limb_val W21 24 (load_scalar_64 s) = int (le_val s)"
    using fields_value [of 23 "int (le_val s)"] by (simp add: load_scalar_64_fields [OF assms])
qed

text \<open>The parts of a limb that the store takes, as differences of its shifts.\<close>

lemma low_part: "(x :: int) mod numeral d = x - numeral d * (x div numeral d)"
  by (simp add: minus_mult_div_eq_mod)

lemma div_twice: "(x :: int) div numeral a div numeral b = x div (numeral a * numeral b)"
  by (rule zdiv_zmult2_eq [symmetric]) simp

lemma store_scalar_length: "length (store_scalar s) = 32"
  by (simp add: store_scalar_def)

lemma store_scalar_value:
  assumes "\<forall>i < 11. 0 \<le> s ! i \<and> s ! i < 2 ^ 21" and "0 \<le> s ! 11" and "s ! 11 < 2 ^ 25"
  shows "int (le_val (store_scalar s)) = limb_val W21 12 s"
proof -
  note r = assms(1) [rule_format]
  have two: "uint (word_of_int (drop_bit a (s ! i) OR push_bit b y) :: u8) = s ! i div 2 ^ a + 2 ^ b * (y mod 2 ^ (8 - b))"
    if "i < 11" and "a + b = 21" and "b \<le> 8" for i a b y
    using that byte_of_two [of "s ! i" a b y] r [of i] by simp
  have byte_0: "uint (word_of_int (s ! i) :: u8) = s ! i mod 256" for i
    by (simp add: uint_word_of_int)
  have top: "s ! 7 div 2097152 = 0" "s ! 11 div 33554432 = 0"
    using assms r [of 7] by simp_all
  show ?thesis
    unfolding store_scalar_def
    by (simp add: two two [of 4 20 1, simplified] byte_of_limb byte_0 uint_nat [symmetric] limb_val_numeral W21_def)
      (simp add: low_part div_twice top)
qed

section \<open>Reduction\<close>

interpretation sc: limb_machine W21 l_order "\<lambda>i k c. False" "\<lambda>j. 12 \<le> j"
proof unfold_locales
  show "W21 0 = 0" by (simp add: W21_def)
next
  fix j :: nat
  assume "12 \<le> j"
  then obtain t where j: "j = t + 12" by (metis add.commute le_Suc_ex)
  have "2 ^ W21 j - (666643 * 2 ^ W21 (j - 12) + 470296 * 2 ^ W21 (j - 11) + 654183 * 2 ^ W21 (j - 10)
       - 997805 * 2 ^ W21 (j - 9) + 136657 * 2 ^ W21 (j - 8) - 683901 * 2 ^ W21 (j - 7))
      = 2 ^ (21 * t) * l_order"
    by (simp add: j W21_def l_order_def power_add algebra_simps)
  then show "l_order dvd 2 ^ W21 j - (666643 * 2 ^ W21 (j - 12) + 470296 * 2 ^ W21 (j - 11)
      + 654183 * 2 ^ W21 (j - 10) - 997805 * 2 ^ W21 (j - 9) + 136657 * 2 ^ W21 (j - 8) - 683901 * 2 ^ W21 (j - 7))"
    by simp
qed simp_all

lemma digits_bound:
  assumes "\<forall>i < m. 0 \<le> s ! i \<and> s ! i < 2 ^ 21"
  shows "0 \<le> limb_val W21 m s \<and> limb_val W21 m s < 2 ^ (21 * m)"
  using assms
proof (induction m)
  case 0
  then show ?case by simp
next
  case (Suc m)
  then have "0 \<le> limb_val W21 m s" "limb_val W21 m s < 2 ^ (21 * m)" "0 \<le> s ! m" "s ! m \<le> 2 ^ 21 - 1"
    by auto
  moreover from this have "s ! m * 2 ^ (21 * m) \<le> 2097151 * 2 ^ (21 * m)" "0 \<le> s ! m * 2 ^ (21 * m)"
    by (auto intro: mult_right_mono)
  ultimately have "0 \<le> limb_val W21 m s + s ! m * 2 ^ (21 * m)"
      "limb_val W21 m s + s ! m * 2 ^ (21 * m) < 2097152 * 2 ^ (21 * m)"
    by linarith+
  then show ?case
    by (simp add: limb_val_Suc W21_def [of m] power_add)
qed

text \<open>
  What the interval analysis has to show of the sequence \<open>pre\<close> before the last pass: it leaves digits
  in the limbs 0 to 11 and only a borrow of \<open>-1\<close> or nothing in limb 12.
\<close>

definition digit_itv :: itv where
  "digit_itv = (0, 2097151)"

definition reduces :: "limb_op list \<Rightarrow> nat \<Rightarrow> itv list \<Rightarrow> bool" where
  "reduces pre m B \<longleftrightarrow>
    (case ops_itv 64 pre B of None \<Rightarrow> False
     | Some B1 \<Rightarrow> 13 \<le> length B1 \<and> list_all (\<lambda>I. I = digit_itv) (take 12 B1) \<and> B1 ! 12 = (- 1, 0) \<and>
        (case ops_itv 64 last_pass B1 of None \<Rightarrow> False
         | Some B2 \<Rightarrow> list_all (\<lambda>I. I = digit_itv) (take 11 B2)))
    \<and> ops_live W21 (\<lambda>i k c. False) (\<lambda>j. 12 \<le> j) pre m = Some 13
    \<and> list_all (\<lambda>op. op_size op \<le> length B) pre \<and> m \<le> length B"

lemma mem_digit: "mem_itv x digit_itv \<longleftrightarrow> 0 \<le> x \<and> x < 2 ^ 21"
  by (auto simp: mem_itv_def digit_itv_def)

lemma within_digits:
  assumes "within B s" and "list_all (\<lambda>I. I = digit_itv) (take m B)" and "m \<le> length B"
  shows "\<forall>i < m. 0 \<le> s ! i \<and> s ! i < 2 ^ 21"
proof (intro allI impI)
  fix i assume i: "i < m"
  then have "B ! i = digit_itv"
    using assms(2,3) by (auto simp: list_all_length)
  then show "0 \<le> s ! i \<and> s ! i < 2 ^ 21"
    using within_nth [OF assms(1), of i] i assms(3) by (simp only: mem_digit)
qed

lemma last_fold_value:
  "13 \<le> length s \<Longrightarrow> limb_val W21 12 (exact_op (Fold 12) s) = limb_val W21 13 s - s ! 12 * l_order"
  by (simp add: limb_val_update limb_val_numeral [of _ "num.Bit1 (num.Bit0 (num.Bit1 num.One))"] nth_list_update
      W21_def l_order_def algebra_simps)

lemma last_pass_carries:
  "list_all is_carry (tl last_pass) \<and>
   ops_live W21 (\<lambda>i k c. False) (\<lambda>j. 12 \<le> j) (tl last_pass) 12 = Some 12"
  by code_simp

lemma last_pass_value:
  assumes "13 \<le> length s" and "\<forall>i < 12. 0 \<le> s ! i \<and> s ! i < 2 ^ 21" and "s ! 12 = - 1 \<or> s ! 12 = 0"
  shows "limb_val W21 12 (fold exact_op last_pass s) = limb_val W21 13 s mod l_order"
proof -
  let ?t = "exact_op (Fold 12) s" and ?v = "limb_val W21 12 s"
  have "limb_val W21 12 (fold exact_op (tl last_pass) ?t) = limb_val W21 12 ?t"
    using carries_value [OF conjunct1 [OF last_pass_carries] conjunct2 [OF last_pass_carries], of ?t] assms(1)
    by (simp del: exact_op.simps)
  moreover have "fold exact_op last_pass s = fold exact_op (tl last_pass) ?t"
    by (simp add: last_pass_def del: exact_op.simps)
  ultimately have e: "limb_val W21 12 (fold exact_op last_pass s) = limb_val W21 13 s - s ! 12 * l_order"
    using last_fold_value [OF assms(1)] by simp
  have v: "0 \<le> ?v" "?v < 2 ^ 252" using digits_bound [OF assms(2)] by simp_all
  have s: "limb_val W21 13 s = ?v + s ! 12 * 2 ^ 252"
    using limb_val_Suc [of W21 12 s] by (simp add: W21_def [of 12])
  have "0 \<le> limb_val W21 13 s - s ! 12 * l_order" "limb_val W21 13 s - s ! 12 * l_order < l_order"
    using assms(3) v by (auto simp: s l_order_def)
  then have "(limb_val W21 13 s - s ! 12 * l_order) mod l_order = limb_val W21 13 s - s ! 12 * l_order"
    by (rule mod_pos_pos_trivial)
  moreover have "(limb_val W21 13 s - s ! 12 * l_order) mod l_order = limb_val W21 13 s mod l_order"
    by (simp add: mod_diff_right_eq [of _ "s ! 12 * l_order", symmetric])
  ultimately show ?thesis using e by simp
qed

text \<open>The result of a whole reduction: 32 bytes that hold the canonical representative.\<close>

lemma reduces_sound:
  assumes "reduces pre m B" and "within B s"
  shows "int (le_val (store_scalar (exec 64 last_pass (exec 64 pre s)))) = limb_val W21 m s mod l_order"
proof -
  from assms(1) obtain B1 B2 where B1: "ops_itv 64 pre B = Some B1" "13 \<le> length B1"
      "list_all (\<lambda>I. I = digit_itv) (take 12 B1)" "B1 ! 12 = (- 1, 0)"
    and B2: "ops_itv 64 last_pass B1 = Some B2" "list_all (\<lambda>I. I = digit_itv) (take 11 B2)"
    and pre: "ops_live W21 (\<lambda>i k c. False) (\<lambda>j. 12 \<le> j) pre m = Some 13"
      "list_all (\<lambda>op. op_size op \<le> length B) pre" "m \<le> length B"
    unfolding reduces_def by (auto split: option.splits)
  let ?t = "exec 64 pre s" and ?r = "exec 64 last_pass (exec 64 pre s)"
  have len: "length s = length B" using assms(2) by (rule within_length)
  have t: "within B1 ?t" "limb_val W21 13 ?t mod l_order = limb_val W21 m s mod l_order"
    using sc.exec_value [OF B1(1) assms(2) _ pre(1)] pre(2,3) len by (auto simp: list_all_iff)
  have r: "?r = fold exact_op last_pass ?t" "within B2 ?r"
    using ops_itv_sound [OF B2(1) t(1)] by auto
  have lt: "length ?t = length B1" using t(1) by (rule within_length)
  have "s12": "?t ! 12 = - 1 \<or> ?t ! 12 = 0"
    using within_nth [OF t(1), of 12] B1(2,4) by (auto simp: mem_itv_def)
  have v: "limb_val W21 12 ?r = limb_val W21 m s mod l_order"
    using last_pass_value [of ?t] within_digits [OF t(1) B1(3)] B1(2) lt s12 t(2) r(1) by simp
  have d: "\<forall>i < 11. 0 \<le> ?r ! i \<and> ?r ! i < 2 ^ 21"
    using within_digits [OF r(2) B2(2)] within_length [OF r(2)] r(1) lt B1(2) by simp
  have "limb_val W21 12 ?r = limb_val W21 11 ?r + ?r ! 11 * 2 ^ 231"
    using limb_val_Suc [of W21 11 ?r] by (simp add: W21_def [of 11])
  moreover have "0 \<le> limb_val W21 12 ?r" "limb_val W21 12 ?r < l_order"
    unfolding v by (simp_all add: l_order_def)
  moreover have "0 \<le> limb_val W21 11 ?r" "limb_val W21 11 ?r < 2 ^ 231"
    using digits_bound [OF d] by simp_all
  ultimately have "0 \<le> ?r ! 11" "?r ! 11 < 2 ^ 25"
    unfolding l_order_def by simp_all
  with d store_scalar_value [of ?r] v show ?thesis by simp
qed

lemma reduces_64: "reduces (fold_high_limbs @ normal_pass) 24 (replicate 23 (0, 2 ^ 21 - 1) @ [(0, 2 ^ 29 - 1)])"
  by code_simp

definition product_itv :: itv where
  "product_itv = (- (2 ^ 54), 2 ^ 25)"

definition small :: "nat \<Rightarrow> int \<Rightarrow> bool" where
  "small n x \<longleftrightarrow> 0 \<le> x \<and> x \<le> int n * 2 ^ 50"

lemma small_add: "0 < n \<Longrightarrow> small (n - 1) x \<Longrightarrow> small 1 y \<Longrightarrow> small n (x + y)"
  by (cases n) (auto simp: small_def)

lemma small_prod:
  assumes "0 \<le> x" "x < 2 ^ 25" "0 \<le> y" "y < 2 ^ 25" "0 < n"
  shows "small n (x * y)"
proof -
  have "x * y \<le> 2 ^ 25 * 2 ^ 25" using assms by (intro mult_mono) auto
  also have "\<dots> \<le> int n * 2 ^ 50" using assms(5) by simp
  finally show ?thesis using assms by (simp add: small_def)
qed

lemma small_wrap:
  assumes "small 12 x"
  shows "0 \<le> c \<Longrightarrow> c < 33554432 \<Longrightarrow> wrapn 64 (c - x) = c - x" and "wrapn 64 (- x) = - x"
    and "0 \<le> c \<Longrightarrow> c < 33554432 \<Longrightarrow> mem_itv (c - x) product_itv" and "mem_itv (- x) product_itv"
  using assms by (auto simp: small_def mem_itv_def product_itv_def fits_def intro!: wrapn_id)

lemma scalar_itv_nth:
  assumes "within scalar_itv s" and "i < 12"
  shows "0 \<le> s ! i \<and> s ! i < 33554432"
proof -
  have "scalar_itv ! i = (0, 2097151) \<or> scalar_itv ! i = (0, 33554431)" 
    using assms(2) by (auto simp: scalar_itv_def nth_append)
  then show ?thesis
    using within_nth [OF assms(1), of i] assms(2) by (auto simp: mem_itv_def scalar_itv_def)
qed

lemma mulsub_small:
  assumes "within scalar_itv a" and "within scalar_itv b" and "i < 12" and "j < 12" and "0 < n"
  shows "small n (a ! i * b ! j)"
  using scalar_itv_nth [OF assms(1,3)] scalar_itv_nth [OF assms(2,4)] assms(5) by (intro small_prod) auto

text \<open>The product of two numbers in limbs is the number of the convolution of the limbs.\<close>

definition conv :: "nat \<Rightarrow> int list \<Rightarrow> int list \<Rightarrow> nat \<Rightarrow> int" where
  "conv n a b k = (\<Sum>i < n. if i \<le> k \<and> k < i + n then a ! i * b ! (k - i) else 0)"

lemma conv_value: "(\<Sum>k < 2 * n. conv n a b k * 2 ^ W21 k) = limb_val W21 n a * limb_val W21 n b"
proof -
  have "(\<Sum>k < 2 * n. conv n a b k * 2 ^ W21 k)
      = (\<Sum>i < n. \<Sum>k < 2 * n. if i \<le> k \<and> k < i + n then a ! i * b ! (k - i) * 2 ^ W21 k else 0)"
    unfolding conv_def sum_distrib_right by (subst sum.swap) (intro sum.cong refl, simp)
  also have "\<dots> = (\<Sum>i < n. \<Sum>j < n. a ! i * b ! j * 2 ^ W21 (i + j))"
  proof (rule sum.cong [OF refl])
    fix i assume "i \<in> {..<n}"
    then have "{k \<in> {..<2 * n}. i \<le> k \<and> k < i + n} = {i..<i + n}"
      by auto
    also have "\<dots> = (\<lambda>j. i + j) ` {..<n}"
      by (simp add: lessThan_atLeast0 add.commute)
    finally have "{k \<in> {..<2 * n}. i \<le> k \<and> k < i + n} = (\<lambda>j. i + j) ` {..<n}" .
    then show "(\<Sum>k < 2 * n. if i \<le> k \<and> k < i + n then a ! i * b ! (k - i) * 2 ^ W21 k else 0)
        = (\<Sum>j < n. a ! i * b ! j * 2 ^ W21 (i + j))"
      by (simp add: sum.inter_filter [symmetric] sum.reindex inj_on_def)
  qed
  also have "\<dots> = limb_val W21 n a * limb_val W21 n b"
    by (simp add: limb_val_def sum_product W21_def power_add algebra_simps)
  finally show ?thesis .
qed

lemma small_sum:
  assumes "\<forall>(x, y) \<in> set row. small 1 (x * y)"
  shows "sum_list (map abs (products row)) = sum_list (products row) \<and> small (length row) (sum_list (products row))"
  using assms by (induction row) (auto simp: products_def small_def algebra_simps)

lemma mulsub_rows_length: "length (mulsub_rows a b) = 22" "\<forall>row \<in> set (mulsub_rows a b). length row \<le> 12"
  by (simp_all add: mulsub_rows_def)

lemma mulsub_rows_sum:
  assumes "k < 22"
  shows "sum_list (products (mulsub_rows a b ! k)) = conv 12 a b k"
proof -
  have "k = 0 \<or> k = 1 \<or> k = 2 \<or> k = 3 \<or> k = 4 \<or> k = 5 \<or> k = 6 \<or> k = 7 \<or> k = 8 \<or> k = 9 \<or> k = 10 \<or> k = 11
      \<or> k = 12 \<or> k = 13 \<or> k = 14 \<or> k = 15 \<or> k = 16 \<or> k = 17 \<or> k = 18 \<or> k = 19 \<or> k = 20 \<or> k = 21"
    using assms by (simp add: less_numeral_iff)
  then show ?thesis
    unfolding mulsub_rows_def conv_def by (elim disjE) (simp_all add: products_def sum_lessThan_numeral)
qed

lemma mulsub_rows_small:
  assumes "within scalar_itv a" and "within scalar_itv b" and "row \<in> set (mulsub_rows a b)"
  shows "dot_fits 64 row" and "small 12 (sum_list (products row))"
proof -
  have "\<forall>row \<in> set (mulsub_rows a b). \<forall>(x, y) \<in> set row. small 1 (x * y)"
    by (simp add: mulsub_rows_def mulsub_small [OF assms(1,2)])
  then have s: "sum_list (map abs (products row)) = sum_list (products row)" "small (length row) (sum_list (products row))"
    using small_sum assms(3) by blast+
  moreover have "length row \<le> 12" using mulsub_rows_length(2) assms(3) by blast
  ultimately show "small 12 (sum_list (products row))" by (auto simp: small_def)
  then show "dot_fits 64 row" by (intro dot_fits_abs) (simp add: s(1) small_def)
qed

lemma conv_small:
  assumes "within scalar_itv a" and "within scalar_itv b" and "k < 24"
  shows "small 12 (conv 12 a b k)"
proof -
  consider "k < 22" | "k = 22" | "k = 23" using assms(3) by linarith
  then show ?thesis
  proof cases
    case 1
    then show ?thesis
      using mulsub_rows_small(2) [OF assms(1,2), of "mulsub_rows a b ! k"] mulsub_rows_sum [of k a b] by (simp add: mulsub_rows_length)
  next
    case 2
    have "conv 12 a b 22 = a ! 11 * b ! 11" by (simp add: conv_def sum_lessThan_numeral)
    then show ?thesis using 2 mulsub_small [OF assms(1,2), of 11 11 12] by simp
  next
    case 3
    have "conv 12 a b 23 = 0" by (simp add: conv_def sum_lessThan_numeral)
    then show ?thesis using 3 by (simp add: small_def)
  qed
qed

text \<open>No product, no partial sum and no difference overflows before the carries.\<close>

definition products_fit :: "int list \<Rightarrow> int list \<Rightarrow> int list \<Rightarrow> bool" where
  "products_fit a b c \<longleftrightarrow> list_all (dot_fits 64) (mulsub_rows a b)
     \<and> list_all2 (\<lambda>x row. fits 64 (x - sum_list (products row))) c (take 12 (mulsub_rows a b))
     \<and> list_all (\<lambda>row. fits 64 (- sum_list (products row))) (drop 12 (mulsub_rows a b))
     \<and> fits 64 (- (a ! 11)) \<and> fits 64 (- (a ! 11) * b ! 11)"

lemma small_fits: "small 12 x \<Longrightarrow> 0 \<le> c \<Longrightarrow> c < 33554432 \<Longrightarrow> fits 64 (c - x)" "small 12 x \<Longrightarrow> fits 64 (- x)"
  by (auto simp: small_def fits_def)

lemma mulsub_products_fit:
  assumes "within scalar_itv a" and "within scalar_itv b" and "within scalar_itv c"
  shows "products_fit a b c"
proof -
  note row = mulsub_rows_small [OF assms(1,2)] and c = scalar_itv_nth [OF assms(3)]
  have len: "length c = 12" using within_length [OF assms(3)] by (simp add: scalar_itv_def)
  have "fits 64 (c ! k - sum_list (products (mulsub_rows a b ! k)))" if "k < 12" for k
    using small_fits(1) [OF row(2), of "mulsub_rows a b ! k" "c ! k"] c [OF that] that by (simp add: mulsub_rows_length)
  then have "list_all2 (\<lambda>x row. fits 64 (x - sum_list (products row))) c (take 12 (mulsub_rows a b))"
    by (simp add: list_all2_conv_all_nth len mulsub_rows_length)
  moreover have "fits 64 (- (a ! 11))" "fits 64 (- (a ! 11) * b ! 11)"
    using scalar_itv_nth [OF assms(1), of 11] small_fits(2) [OF mulsub_small [OF assms(1,2), of 11 11 12]] by (auto simp: fits_def)
  ultimately show ?thesis
    using row small_fits(2) by (auto simp: products_fit_def list_all_iff dest: in_set_dropD)
qed

lemma mulsub_limbs_nth:
  assumes "within scalar_itv a" and "within scalar_itv b" and "within scalar_itv c" and "k < 24"
  shows "mulsub_limbs a b c ! k = (if k < 12 then c ! k else 0) - conv 12 a b k" and "length (mulsub_limbs a b c) = 24"
proof -
  note sm = conv_small [OF assms(1,2)] and c = scalar_itv_nth [OF assms(3)]
  have len: "length c = 12" using within_length [OF assms(3)] by (simp add: scalar_itv_def)
  then show "length (mulsub_limbs a b c) = 24" by (simp add: mulsub_limbs_def Let_def mulsub_rows_length)
  have dot: "dot 64 (mulsub_rows a b ! i) = conv 12 a b i" if "i < 22" for i
    using dot_exact [OF mulsub_rows_small(1) [OF assms(1,2)]] mulsub_rows_sum [OF that, of a b] that by (simp add: mulsub_rows_length)
  have c22: "conv 12 a b 22 = a ! 11 * b ! 11" and c23: "conv 12 a b 23 = 0" by (simp_all add: conv_def sum_lessThan_numeral)
  have w: "wrapn 64 (- (a ! 11)) = - (a ! 11)" "wrapn 64 (- (a ! 11) * b ! 11) = - (a ! 11 * b ! 11)"
    using mulsub_products_fit [OF assms(1-3)] by (simp_all add: products_fit_def wrapn_id)
  consider "k < 12" | "12 \<le> k" "k < 22" | "k = 22" | "k = 23" using assms(4) by linarith
  then show "mulsub_limbs a b c ! k = (if k < 12 then c ! k else 0) - conv 12 a b k"
  proof cases
    case 1
    then show ?thesis using small_wrap(1) [OF sm, of k "c ! k"] c [of k]
      by (simp add: mulsub_limbs_def Let_def nth_append len mulsub_rows_length dot)
  next
    case 2
    then have "k - 12 < 10" by simp
    then show ?thesis using 2 small_wrap(2) [OF sm, of k]
      by (simp add: mulsub_limbs_def Let_def nth_append len mulsub_rows_length dot)
  next
    case 3
    then show ?thesis using w by (simp add: mulsub_limbs_def Let_def nth_append len mulsub_rows_length c22)
  next
    case 4
    then show ?thesis by (simp add: mulsub_limbs_def Let_def nth_append len mulsub_rows_length c23)
  qed
qed

lemma mulsub_limbs_value:
  assumes "within scalar_itv a" and "within scalar_itv b" and "within scalar_itv c"
  shows "limb_val W21 24 (mulsub_limbs a b c) = limb_val W21 12 c - limb_val W21 12 a * limb_val W21 12 b"
proof -
  have "limb_val W21 24 (mulsub_limbs a b c)
      = (\<Sum>k < 24. (if k < 12 then c ! k else 0) * 2 ^ W21 k) - (\<Sum>k < 24. conv 12 a b k * 2 ^ W21 k)"
    unfolding limb_val_def
    by (subst sum_subtractf [symmetric])
      (intro sum.cong, simp_all add: mulsub_limbs_nth [OF assms] left_diff_distrib)
  moreover have "(\<Sum>k < 24. (if k < 12 then c ! k else 0) * 2 ^ W21 k) = limb_val W21 12 c"
    by (simp add: limb_val_def sum_lessThan_numeral)
  ultimately show ?thesis
    using conv_value [of 12 a b] by simp
qed

lemma within_replicate_snoc:
  "within (replicate n I @ [J]) (xs @ [y]) \<longleftrightarrow> length xs = n \<and> (\<forall>x \<in> set xs. mem_itv x I) \<and> mem_itv y J"
  by (auto simp: within_def nth_append less_Suc_eq all_set_conv_all_nth)

lemma mulsub_limbs_within:
  assumes "within scalar_itv a" and "within scalar_itv b" and "within scalar_itv c"
  shows "within (replicate 23 product_itv @ [(0, 0)]) (mulsub_limbs a b c)"
  unfolding within_def
proof (intro conjI allI impI)
  note nth = mulsub_limbs_nth [OF assms]
  show "length (mulsub_limbs a b c) = length (replicate 23 product_itv @ [(0, 0)])" using nth(2) [of 0] by simp
  fix i assume "i < length (replicate 23 product_itv @ [(0, 0)])"
  then have i: "i < 24" by simp
  have c23: "conv 12 a b 23 = 0" by (simp add: conv_def sum_lessThan_numeral)
  show "mem_itv (mulsub_limbs a b c ! i) ((replicate 23 product_itv @ [(0, 0)]) ! i)"
    using small_wrap(3,4) [OF conv_small [OF assms(1,2) i]] scalar_itv_nth [OF assms(3), of i] i c23
    unfolding nth(1) [OF i] by (cases "i = 23") (auto simp: nth_append mem_const)
qed

lemma reduces_mulsub:
  "reduces (product_carries @ fold_high_limbs @ normal_pass) 24 (replicate 23 product_itv @ [(0, 0)])"
  by code_simp

text \<open>The analysis of a reduction shows also that it overflows nowhere.\<close>

lemma reduces_no_overflow:
  assumes "reduces pre m B" and "within B s"
  shows "no_overflow 64 (pre @ last_pass) s"
proof -
  from assms(1) obtain B1 B2 where B1: "ops_itv 64 pre B = Some B1" and B2: "ops_itv 64 last_pass B1 = Some B2"
    unfolding reduces_def by (auto split: option.splits)
  note pre = ops_itv_sound [OF B1 assms(2)]
  then show ?thesis using ops_itv_sound [OF B2, of "fold exact_op pre s"] by (simp add: no_overflow_append)
qed

section \<open>The operations\<close>

definition sum_itv :: itv where
  "sum_itv = (- (2 ^ 25), 2 ^ 26)"

text \<open>The limbs of a sum or a difference of two loaded scalars, with limb 12 at zero.\<close>

lemma limbwise:
  assumes "within scalar_itv a" and "within scalar_itv b"
    and f: "\<And>x y. 0 \<le> x \<Longrightarrow> x < 33554432 \<Longrightarrow> 0 \<le> y \<Longrightarrow> y < 33554432 \<Longrightarrow>
        mem_itv (f x y) sum_itv \<and> f x y = x + e * y"
  shows "within (replicate 12 sum_itv @ [(0, 0)]) (map2 f a b @ [0])"
    and "limb_val W21 13 (map2 f a b @ [0]) = limb_val W21 12 a + e * limb_val W21 12 b"
proof -
  have len: "length a = 12" "length b = 12"
    using assms(1,2) by (auto simp: scalar_itv_def dest: within_length)
  have n: "mem_itv (f (a ! i) (b ! i)) sum_itv" "f (a ! i) (b ! i) = a ! i + e * b ! i" if "i < 12" for i
    using f [of "a ! i" "b ! i"] scalar_itv_nth [OF assms(1) that] scalar_itv_nth [OF assms(2) that] by blast+
  show "within (replicate 12 sum_itv @ [(0, 0)]) (map2 f a b @ [0])"
    unfolding within_replicate_snoc using len n(1) by (auto simp: in_set_conv_nth mem_const)
  have "limb_val W21 12 (map2 f a b @ [0]) = (\<Sum>i < 12. (a ! i + e * b ! i) * 2 ^ W21 i)"
    unfolding limb_val_def using n(2) len by (intro sum.cong) (auto simp: nth_append)
  also have "\<dots> = limb_val W21 12 a + e * limb_val W21 12 b"
    by (simp add: limb_val_def sum.distrib sum_distrib_left distrib_right mult.assoc)
  finally show "limb_val W21 13 (map2 f a b @ [0]) = limb_val W21 12 a + e * limb_val W21 12 b"
    using limb_val_Suc [of W21 12 "map2 f a b @ [0]"] len by (simp add: nth_append)
qed

lemma sum_limb:
  assumes "0 \<le> x" "x < 33554432" "0 \<le> y" "y < 33554432"
  shows "mem_itv (wrapn 64 (x + y)) sum_itv \<and> wrapn 64 (x + y) = x + 1 * y"
    and "mem_itv (wrapn 64 (x - y)) sum_itv \<and> wrapn 64 (x - y) = x + (- 1) * y"
proof -
  have "wrapn 64 (x + y) = x + y" "wrapn 64 (x - y) = x - y"
    using assms by (auto intro!: wrapn_id simp: fits_def)
  then show "mem_itv (wrapn 64 (x + y)) sum_itv \<and> wrapn 64 (x + y) = x + 1 * y"
    "mem_itv (wrapn 64 (x - y)) sum_itv \<and> wrapn 64 (x - y) = x + (- 1) * y"
    using assms by (auto simp: mem_itv_def sum_itv_def)
qed

lemma reduces_sum: "reduces normal_pass 13 (replicate 12 sum_itv @ [(0, 0)])"
  by code_simp

theorem sc_reduce32_mod:
  assumes "length s = 32"
  shows "length (sc_reduce32 s) = 32 \<and> int (le_val (sc_reduce32 s)) = int (le_val s) mod l_order"
proof -
  have "map2 (\<lambda>x y. x) (load_scalar s) (load_scalar s) = load_scalar s"
    by (simp add: map2_map_map [of _ "\<lambda>x. x" _ "\<lambda>x. x", simplified])
  moreover note limbwise [OF load_scalar_value(2) load_scalar_value(2), OF assms assms, of "\<lambda>x y. x" 0]
  ultimately show ?thesis
    using reduces_sound [OF reduces_sum, of "load_scalar s @ [0]"] load_scalar_value(1) [OF assms]
    by (simp add: sc_reduce32_def store_scalar_length mem_itv_def sum_itv_def)
qed

theorem sc_reduce32_mod_witness:
  "length (sc_reduce32 (7 # replicate 31 0)) = 32 \<and> int (le_val (sc_reduce32 (7 # replicate 31 0))) = 7"
  using sc_reduce32_mod [of "7 # replicate 31 0"] by (simp add: l_order_def)

theorem sc_reduce_mod:
  assumes "length s = 64"
  shows "length (sc_reduce s) = 32 \<and> int (le_val (sc_reduce s)) = int (le_val s) mod l_order"
  using reduces_sound [OF reduces_64 load_scalar_64_value(2) [OF assms]] load_scalar_64_value(1) [OF assms]
  by (simp add: sc_reduce_def store_scalar_length)

theorem sc_reduce_mod_witness:
  "length (sc_reduce (replicate 63 0 @ [16])) = 32 \<and>
   int (le_val (sc_reduce (replicate 63 0 @ [16]))) = 2 ^ 508 mod l_order"
  using sc_reduce_mod [of "replicate 63 0 @ [16]"] by (simp add: le_val_append)

theorem sc_add_mod:
  assumes "length a = 32" and "length b = 32"
  shows "length (sc_add a b) = 32 \<and> int (le_val (sc_add a b)) = (int (le_val a) + int (le_val b)) mod l_order"
proof -
  note w = limbwise [OF load_scalar_value(2) [OF assms(1)] load_scalar_value(2) [OF assms(2)] sum_limb(1)]
  show ?thesis
    using reduces_sound [OF reduces_sum w(1)] w(2) load_scalar_value(1) assms
    by (simp add: sc_add_def store_scalar_length)
qed

theorem sc_add_mod_witness:
  "length (sc_add (3 # replicate 31 0) (4 # replicate 31 0)) = 32 \<and>
   int (le_val (sc_add (3 # replicate 31 0) (4 # replicate 31 0))) = 7"
  using sc_add_mod [of "3 # replicate 31 0" "4 # replicate 31 0"] by (simp add: l_order_def)

theorem sc_sub_mod:
  assumes "length a = 32" and "length b = 32"
  shows "length (sc_sub a b) = 32 \<and> int (le_val (sc_sub a b)) = (int (le_val a) - int (le_val b)) mod l_order"
proof -
  note w = limbwise [OF load_scalar_value(2) [OF assms(1)] load_scalar_value(2) [OF assms(2)] sum_limb(2)]
  show ?thesis
    using reduces_sound [OF reduces_sum w(1)] w(2) load_scalar_value(1) assms
    by (simp add: sc_sub_def store_scalar_length)
qed

theorem sc_sub_mod_witness:
  "length (sc_sub (3 # replicate 31 0) (4 # replicate 31 0)) = 32 \<and>
   int (le_val (sc_sub (3 # replicate 31 0) (4 # replicate 31 0))) = l_order - 1"
  using sc_sub_mod [of "3 # replicate 31 0" "4 # replicate 31 0"] by (simp add: l_order_def)

text \<open>C37: For all 32-byte inputs \<open>sc_mulsub\<close> stores the canonical 32-byte representative of (c -
  a b) modulo the group order, and every product, partial sum, difference and carry step on the way is
  within the range of \<open>int64_t\<close>.\<close>

theorem sc_mulsub_mod:
  assumes "length a = 32" and "length b = 32" and "length c = 32"
  shows "length (sc_mulsub a b c) = 32 \<and> int (le_val (sc_mulsub a b c)) = (int (le_val c) - int (le_val a) * int (le_val b)) mod l_order
    \<and> products_fit (load_scalar a) (load_scalar b) (load_scalar c)
    \<and> no_overflow 64 ((product_carries @ fold_high_limbs @ normal_pass) @ last_pass) (mulsub_limbs (load_scalar a) (load_scalar b) (load_scalar c))"
proof -
  note v = load_scalar_value [OF assms(1)] load_scalar_value [OF assms(2)] load_scalar_value [OF assms(3)]
  note w = mulsub_limbs_within [OF v(2,4,6)]
  show ?thesis
    using reduces_sound [OF reduces_mulsub w] reduces_no_overflow [OF reduces_mulsub w] mulsub_limbs_value [OF v(2,4,6)]
      mulsub_products_fit [OF v(2,4,6)] v
    by (simp add: sc_mulsub_def store_scalar_length Let_def)
qed

theorem sc_mulsub_mod_witness:
  "length (sc_mulsub (2 # replicate 31 0) (3 # replicate 31 0) (5 # replicate 31 0)) = 32 \<and>
   int (le_val (sc_mulsub (2 # replicate 31 0) (3 # replicate 31 0) (5 # replicate 31 0))) = l_order - 1 \<and>
   products_fit (load_scalar (2 # replicate 31 0)) (load_scalar (3 # replicate 31 0)) (load_scalar (5 # replicate 31 0))"
  using sc_mulsub_mod [of "2 # replicate 31 0" "3 # replicate 31 0" "5 # replicate 31 0"]
  by (simp add: l_order_def)

section \<open>Checks\<close>

lemma signum_sgn:
  assumes "- (2 ^ 63) < a" and "a < 2 ^ 63"
  shows "signum a = sgn a"
proof -
  have w: "wrapn 64 (- a) = - a" using assms by (intro wrapn_id) (auto simp: fits_def)
  have d: "x div 2 ^ 63 = (if x < 0 then - 1 else 0)" if "- (2 ^ 63) < x" "x < 2 ^ 63" for x :: int
    using that by (auto simp: div_pos_neg_trivial zdiv_eq_0_iff div_eq_minus1 intro: int_div_pos_eq [where r = "x + 2 ^ 63"])
  have "drop_bit 63 a - drop_bit 63 (- a) = sgn a"
    using assms d [of a] d [of "- a"] by (auto simp: drop_bit_eq_div sgn_if)
  then show ?thesis
    unfolding signum_def w by (auto intro!: wrapn_id simp: fits_def sgn_if)
qed

text \<open>The signs of the digits, weighted by powers of two, have the sign of the number.\<close>

primrec horner :: "int \<Rightarrow> int list \<Rightarrow> int" where
  "horner B [] = 0"
| "horner B (d # ds) = d + B * horner B ds"

lemma horner_sgn:
  assumes "\<forall>d \<in> set ds. \<bar>d\<bar> < B" and "1 < B"
  shows "sgn (horner 2 (map sgn ds)) = sgn (horner B ds)"
  using assms(1)
proof (induction ds)
  case Nil
  then show ?case by simp
next
  case (Cons d ds)
  let ?v = "horner B ds" and ?w = "horner 2 (map sgn ds)"
  have IH: "sgn ?w = sgn ?v" and d: "\<bar>d\<bar> < B" using Cons by auto
  have s: "- 1 \<le> sgn d" "sgn d \<le> 1" by (simp_all add: sgn_if)
  consider "?v = 0" | "1 \<le> ?v" | "?v \<le> - 1" by linarith
  then show ?case
  proof cases
    case 1
    with IH show ?thesis by (simp add: sgn_0_0)
  next
    case 2
    then have "B * 1 \<le> B * ?v" using assms(2) by (intro mult_left_mono) auto
    moreover have "sgn ?w = 1" using IH 2 by simp
    then have "0 < ?w" by (simp only: sgn_1_pos)
    ultimately have "0 < d + B * ?v" "0 < sgn d + 2 * ?w" using d s by linarith+
    then show ?thesis by simp
  next
    case 3
    then have "B * ?v \<le> B * - 1" using assms(2) by (intro mult_left_mono) auto
    moreover have "sgn ?w = - 1" using IH 3 by simp
    then have "?w < 0" by (simp only: sgn_1_neg)
    ultimately have "d + B * ?v < 0" "sgn d + 2 * ?w < 0" using d s by linarith+
    then show ?thesis by simp
  qed
qed

lemma horner_sgn_bound: "\<bar>horner 2 (map sgn ds)\<bar> \<le> 2 ^ length ds - 1"
proof (induction ds)
  case Nil
  then show ?case by simp
next
  case (Cons d ds)
  have "- 1 \<le> sgn d" "sgn d \<le> 1" by (simp_all add: sgn_if)
  with Cons show ?case unfolding list.map horner.simps list.size power_Suc by (simp add: abs_le_iff)
qed

definition check_diffs :: "bytes \<Rightarrow> int list" where
  "check_diffs s = map2 (\<lambda>c k. c - uint (load_4 (drop k s)))
    [1559614444, 1477600026, 2734136534, 350157278, 0, 0, 0, 268435456] [0, 4, 8, 12, 16, 20, 24, 28]"

lemma load_4_word: "k + 4 \<le> length s \<Longrightarrow> uint (load_4 (drop k s)) = int (le_val s) div 2 ^ (8 * k) mod 2 ^ 32"
  using load_4_value [of k s] by (simp add: uint_nat zdiv_int zmod_int exp_256)

lemma load_4_range: "k + 4 \<le> length s \<Longrightarrow> 0 \<le> uint (load_4 (drop k s)) \<and> uint (load_4 (drop k s)) < 4294967296"
  by (simp add: load_4_word)

lemma check_diffs_value:
  assumes "length s = 32"
  shows "horner (2 ^ 32) (check_diffs s) = l_order - 1 - int (le_val s)"
proof -
  have "(\<Sum>i < 8. int (le_val s) div 2 ^ (32 * i) mod 2 ^ 32 * 2 ^ (32 * i)) = int (le_val s)"
    using digits_sum [of "int (le_val s)" 32 8] le_val_bound [of s] assms by simp
  then show ?thesis
    using assms load_4_word [of 0 s]
    by (simp add: check_diffs_def load_4_word sum_lessThan_numeral l_order_def)
qed

lemma abs_diff_word:
  assumes "0 \<le> c" and "c < 4294967296" and "uint (w :: u64) < 4294967296"
  shows "\<bar>c - uint w\<bar> < 4294967296"
  using assms uint_ge_0 [of w] by (simp only: abs_less_iff) linarith

theorem sc_check_iff:
  assumes "length s = 32"
  shows "sc_check s = (if int (le_val s) < l_order then 0 else - 1)"
proof -
  have r: "\<bar>d\<bar> < 2 ^ 32" if "d \<in> set (check_diffs s)" for d
    using that assms load_4_range [of 0 s] load_4_range [of 4 s] load_4_range [of 8 s] load_4_range [of 12 s]
      load_4_range [of 16 s] load_4_range [of 20 s] load_4_range [of 24 s] load_4_range [of 28 s]
    by (auto simp: check_diffs_def abs_diff_word)
  have "sc_check s = drop_bit 8 (horner 2 (map signum (check_diffs s)))"
    by (simp add: sc_check_def check_diffs_def push_bit_eq_mult Let_def mult.commute add.assoc)
  also have "map signum (check_diffs s) = map sgn (check_diffs s)"
    using r by (intro map_cong refl signum_sgn) fastforce+
  finally have e: "sc_check s = horner 2 (map sgn (check_diffs s)) div 256"
    by (simp add: drop_bit_eq_div)
  have "\<bar>horner 2 (map sgn (check_diffs s))\<bar> \<le> 255"
    using horner_sgn_bound [of "check_diffs s"] by (simp add: check_diffs_def del: horner.simps)
  then have "sc_check s = (if 0 \<le> horner 2 (map sgn (check_diffs s)) then 0 else - 1)"
    using e by auto
  also have "0 \<le> horner 2 (map sgn (check_diffs s)) \<longleftrightarrow> 0 \<le> horner (2 ^ 32) (check_diffs s)"
    using horner_sgn [of "check_diffs s" "2 ^ 32"] r by (auto simp: sgn_if split: if_splits)
  finally show ?thesis
    using check_diffs_value [OF assms] by auto
qed

theorem sc_check_iff_witness:
  "sc_check (replicate 31 0 @ [32]) = - 1 \<and> sc_check (9 # replicate 31 0) = 0"
  using sc_check_iff [of "replicate 31 0 @ [32]"] sc_check_iff [of "9 # replicate 31 0"]
  by (simp add: l_order_def le_val_append)

lemma foldl_or_zero: "foldl (OR) x ys = (0 :: u8) \<longleftrightarrow> x = 0 \<and> (\<forall>y \<in> set ys. y = 0)"
proof (induction ys arbitrary: x)
  case Nil
  then show ?case by simp
next
  case (Cons y ys)
  have "x OR y = 0 \<longleftrightarrow> x = 0 \<and> y = 0" by (metis or_eq_0_iff)
  with Cons show ?case by auto
qed

lemma sc_isnonzero_or:
  assumes "length s = 32"
  shows "sc_isnonzero s = (if le_val s = 0 then 0 else 1)"
proof -
  let ?o = "foldl (OR) (s ! 0) (map (\<lambda>i. s ! i) [1..<32])"
  have "s = map (\<lambda>i. s ! i) (0 # [1..<32])"
    using map_nth [of s] assms by (simp add: upt_conv_Cons)
  then have "set s = insert (s ! 0) (set (map (\<lambda>i. s ! i) [1..<32]))"
    by (metis list.simps(9) list.simps(15))
  then have z: "?o = 0 \<longleftrightarrow> le_val s = 0"
    unfolding foldl_or_zero le_val_0 by auto
  have "0 \<le> uint ?o" "uint ?o < 256"
    using uint_lt2p [of ?o] by simp_all
  then have "drop_bit 8 (uint ?o - 1) = (if ?o = 0 then - 1 else 0)"
    by (auto simp: drop_bit_eq_div uint_0_iff order.order_iff_strict)
  with z show ?thesis by (simp add: sc_isnonzero_def)
qed

theorem sc_isnonzero_iff:
  assumes "length s = 32"
  shows "sc_isnonzero s = (if le_val s = 0 then 0 else 1)"
  using assms by (rule sc_isnonzero_or)

theorem sc_isnonzero_iff_witness:
  "sc_isnonzero (replicate 32 0) = 0 \<and> sc_isnonzero (8 # replicate 31 0) = 1"
  using sc_isnonzero_iff [of "replicate 32 0"] sc_isnonzero_iff [of "8 # replicate 31 0"] by simp

theorem sc_0_value: "length sc_0 = 32 \<and> le_val sc_0 = 0"
  by (simp add: sc_0_def le_val_0)

end
