(* ===== verification/Field.thy ===== *)
theory Field
  imports Scalar
begin

unbundle bit_operations_syntax

text \<open>
  Arithmetic of the field of \<open>2^255 - 19\<close> elements, \<open>src/crypto/crypto-ops.c\<close>: the functions \<open>fe_0\<close>
  to \<open>fe_tobytes\<close>, \<open>fe_invert\<close> and the exponentiation in \<open>fe_divpowm1\<close>. An \<open>fe\<close> is a list of ten \<open>int32_t\<close>
  limbs, of alternating weight 26 and 25 bits; \<open>fe_val\<close> is the integer it denotes. The functions
  write their result through a pointer that may alias an argument, after having read all the
  arguments: here they return it.

  The lemmas follow the bounds that the comments of the source document: \<open>fe_within c f\<close> says that
  the limbs are at most \<open>c / 100\<close> times \<open>2^25\<close> and \<open>2^24\<close> in absolute value, so that \<open>1.65*2^26\<close> is
  330 and \<open>1.01*2^25\<close> is 101. Inside these bounds no intermediate value leaves \<open>int32_t\<close> or \<open>int64_t\<close>
  and the functions compute sums, differences, products and powers modulo \<open>2^255 - 19\<close>;
  \<open>fe_tobytes\<close> gives the canonical bytes.
\<close>

type_synonym fe = "int list"

definition fe_0 :: fe where
  "fe_0 = [0, 0, 0, 0, 0, 0, 0, 0, 0, 0]"

definition fe_1 :: fe where
  "fe_1 = [1, 0, 0, 0, 0, 0, 0, 0, 0, 0]"

definition fe_add :: "fe \<Rightarrow> fe \<Rightarrow> fe" where
  "fe_add f g = map (\<lambda>i. wrapn 32 (f ! i + g ! i)) [0, 1, 2, 3, 4, 5, 6, 7, 8, 9]"

text \<open>\<open>b = -b\<close> is on \<open>unsigned int\<close>; the xor and the mask act on the 32 bits of the limbs.\<close>

definition fe_cmov :: "fe \<Rightarrow> fe \<Rightarrow> u32 \<Rightarrow> fe" where
  "fe_cmov f g b =
    (let b = - b
     in map (\<lambda>i. let x = wrapn 32 ((f ! i XOR g ! i) AND uint b) in f ! i XOR x) [0, 1, 2, 3, 4, 5, 6, 7, 8, 9])"

definition fe_copy :: "fe \<Rightarrow> fe" where
  "fe_copy f = map (\<lambda>i. f ! i) [0, 1, 2, 3, 4, 5, 6, 7, 8, 9]"

definition fe_neg :: "fe \<Rightarrow> fe" where
  "fe_neg f = map (\<lambda>i. wrapn 32 (- (f ! i))) [0, 1, 2, 3, 4, 5, 6, 7, 8, 9]"

definition fe_sub :: "fe \<Rightarrow> fe \<Rightarrow> fe" where
  "fe_sub f g = map (\<lambda>i. wrapn 32 (f ! i - g ! i)) [0, 1, 2, 3, 4, 5, 6, 7, 8, 9]"

text \<open>
  The limbs of the product, of the square, before any carry: the factors of the products of each sum, after the
  multiplications by small constants in \<open>int32_t\<close>, and the sums in \<open>int64_t\<close>.
\<close>

definition fe_mul_rows :: "fe \<Rightarrow> fe \<Rightarrow> (int \<times> int) list list" where
  "fe_mul_rows f g =
    (let g1_19 = wrapn 32 (19 * g ! 1); g2_19 = wrapn 32 (19 * g ! 2); g3_19 = wrapn 32 (19 * g ! 3);
         g4_19 = wrapn 32 (19 * g ! 4); g5_19 = wrapn 32 (19 * g ! 5); g6_19 = wrapn 32 (19 * g ! 6);
         g7_19 = wrapn 32 (19 * g ! 7); g8_19 = wrapn 32 (19 * g ! 8); g9_19 = wrapn 32 (19 * g ! 9);
         f1_2 = wrapn 32 (2 * f ! 1); f3_2 = wrapn 32 (2 * f ! 3); f5_2 = wrapn 32 (2 * f ! 5);
         f7_2 = wrapn 32 (2 * f ! 7); f9_2 = wrapn 32 (2 * f ! 9)
     in [[(f ! 0, g ! 0), (f1_2, g9_19), (f ! 2, g8_19), (f3_2, g7_19), (f ! 4, g6_19), (f5_2, g5_19), (f ! 6, g4_19),
          (f7_2, g3_19), (f ! 8, g2_19), (f9_2, g1_19)],
         [(f ! 0, g ! 1), (f ! 1, g ! 0), (f ! 2, g9_19), (f ! 3, g8_19), (f ! 4, g7_19), (f ! 5, g6_19), (f ! 6, g5_19),
          (f ! 7, g4_19), (f ! 8, g3_19), (f ! 9, g2_19)],
         [(f ! 0, g ! 2), (f1_2, g ! 1), (f ! 2, g ! 0), (f3_2, g9_19), (f ! 4, g8_19), (f5_2, g7_19), (f ! 6, g6_19),
          (f7_2, g5_19), (f ! 8, g4_19), (f9_2, g3_19)],
         [(f ! 0, g ! 3), (f ! 1, g ! 2), (f ! 2, g ! 1), (f ! 3, g ! 0), (f ! 4, g9_19), (f ! 5, g8_19), (f ! 6, g7_19),
          (f ! 7, g6_19), (f ! 8, g5_19), (f ! 9, g4_19)],
         [(f ! 0, g ! 4), (f1_2, g ! 3), (f ! 2, g ! 2), (f3_2, g ! 1), (f ! 4, g ! 0), (f5_2, g9_19), (f ! 6, g8_19),
          (f7_2, g7_19), (f ! 8, g6_19), (f9_2, g5_19)],
         [(f ! 0, g ! 5), (f ! 1, g ! 4), (f ! 2, g ! 3), (f ! 3, g ! 2), (f ! 4, g ! 1), (f ! 5, g ! 0), (f ! 6, g9_19),
          (f ! 7, g8_19), (f ! 8, g7_19), (f ! 9, g6_19)],
         [(f ! 0, g ! 6), (f1_2, g ! 5), (f ! 2, g ! 4), (f3_2, g ! 3), (f ! 4, g ! 2), (f5_2, g ! 1), (f ! 6, g ! 0),
          (f7_2, g9_19), (f ! 8, g8_19), (f9_2, g7_19)],
         [(f ! 0, g ! 7), (f ! 1, g ! 6), (f ! 2, g ! 5), (f ! 3, g ! 4), (f ! 4, g ! 3), (f ! 5, g ! 2), (f ! 6, g ! 1),
          (f ! 7, g ! 0), (f ! 8, g9_19), (f ! 9, g8_19)],
         [(f ! 0, g ! 8), (f1_2, g ! 7), (f ! 2, g ! 6), (f3_2, g ! 5), (f ! 4, g ! 4), (f5_2, g ! 3), (f ! 6, g ! 2),
          (f7_2, g ! 1), (f ! 8, g ! 0), (f9_2, g9_19)],
         [(f ! 0, g ! 9), (f ! 1, g ! 8), (f ! 2, g ! 7), (f ! 3, g ! 6), (f ! 4, g ! 5), (f ! 5, g ! 4), (f ! 6, g ! 3),
          (f ! 7, g ! 2), (f ! 8, g ! 1), (f ! 9, g ! 0)]])"

definition fe_mul_limbs :: "fe \<Rightarrow> fe \<Rightarrow> int list" where
  "fe_mul_limbs f g = map (dot 64) (fe_mul_rows f g)"

definition fe_sq_rows :: "fe \<Rightarrow> (int \<times> int) list list" where
  "fe_sq_rows f =
    (let f0_2 = wrapn 32 (2 * f ! 0); f1_2 = wrapn 32 (2 * f ! 1); f2_2 = wrapn 32 (2 * f ! 2);
         f3_2 = wrapn 32 (2 * f ! 3); f4_2 = wrapn 32 (2 * f ! 4); f5_2 = wrapn 32 (2 * f ! 5);
         f6_2 = wrapn 32 (2 * f ! 6); f7_2 = wrapn 32 (2 * f ! 7); f5_38 = wrapn 32 (38 * f ! 5);
         f6_19 = wrapn 32 (19 * f ! 6); f7_38 = wrapn 32 (38 * f ! 7); f8_19 = wrapn 32 (19 * f ! 8);
         f9_38 = wrapn 32 (38 * f ! 9)
     in [[(f ! 0, f ! 0), (f1_2, f9_38), (f2_2, f8_19), (f3_2, f7_38), (f4_2, f6_19), (f ! 5, f5_38)],
         [(f0_2, f ! 1), (f ! 2, f9_38), (f3_2, f8_19), (f ! 4, f7_38), (f5_2, f6_19)],
         [(f0_2, f ! 2), (f1_2, f ! 1), (f3_2, f9_38), (f4_2, f8_19), (f5_2, f7_38), (f ! 6, f6_19)],
         [(f0_2, f ! 3), (f1_2, f ! 2), (f ! 4, f9_38), (f5_2, f8_19), (f ! 6, f7_38)],
         [(f0_2, f ! 4), (f1_2, f3_2), (f ! 2, f ! 2), (f5_2, f9_38), (f6_2, f8_19), (f ! 7, f7_38)],
         [(f0_2, f ! 5), (f1_2, f ! 4), (f2_2, f ! 3), (f ! 6, f9_38), (f7_2, f8_19)],
         [(f0_2, f ! 6), (f1_2, f5_2), (f2_2, f ! 4), (f3_2, f ! 3), (f7_2, f9_38), (f ! 8, f8_19)],
         [(f0_2, f ! 7), (f1_2, f ! 6), (f2_2, f ! 5), (f3_2, f ! 4), (f ! 8, f9_38)],
         [(f0_2, f ! 8), (f1_2, f7_2), (f2_2, f ! 6), (f3_2, f5_2), (f ! 4, f ! 4), (f ! 9, f9_38)],
         [(f0_2, f ! 9), (f1_2, f ! 8), (f2_2, f ! 7), (f3_2, f ! 6), (f4_2, f ! 5)]])"

definition fe_sq_limbs :: "fe \<Rightarrow> int list" where
  "fe_sq_limbs f = map (dot 64) (fe_sq_rows f)"

text \<open>The carry chain shared by \<open>fe_mul\<close>, \<open>fe_sq\<close> and \<open>fe_sq2\<close>.\<close>

definition fe_carries :: "limb_op list" where
  "fe_carries =
    [Round 0 26, Round 4 26, Round 1 25, Round 5 25, Round 2 26, Round 6 26, Round 3 25, Round 7 25,
     Round 4 26, Round 8 26, Wrap 9 25 19, Round 0 26]"

definition fe_mul :: "fe \<Rightarrow> fe \<Rightarrow> fe" where
  "fe_mul f g = map (wrapn 32) (exec 64 fe_carries (fe_mul_limbs f g))"

definition fe_sq :: "fe \<Rightarrow> fe" where
  "fe_sq f = map (wrapn 32) (exec 64 fe_carries (fe_sq_limbs f))"

text \<open>\<open>fe_sq2\<close> has the text of \<open>fe_sq\<close> up to its carries, and doubles each limb before them.\<close>

definition fe_sq2 :: "fe \<Rightarrow> fe" where
  "fe_sq2 f = map (wrapn 32) (exec 64 fe_carries (map (\<lambda>h. wrapn 64 (h + h)) (fe_sq_limbs f)))"

definition tobytes_q :: "fe \<Rightarrow> int" where
  "tobytes_q h =
    (let q = drop_bit 25 (wrapn 32 (wrapn 32 (19 * h ! 9) + 2 ^ 24));
         q = drop_bit 26 (wrapn 32 (h ! 0 + q)); q = drop_bit 25 (wrapn 32 (h ! 1 + q));
         q = drop_bit 26 (wrapn 32 (h ! 2 + q)); q = drop_bit 25 (wrapn 32 (h ! 3 + q));
         q = drop_bit 26 (wrapn 32 (h ! 4 + q)); q = drop_bit 25 (wrapn 32 (h ! 5 + q));
         q = drop_bit 26 (wrapn 32 (h ! 6 + q)); q = drop_bit 25 (wrapn 32 (h ! 7 + q));
         q = drop_bit 26 (wrapn 32 (h ! 8 + q)); q = drop_bit 25 (wrapn 32 (h ! 9 + q))
     in q)"

definition tobytes_carries :: "limb_op list" where
  "tobytes_carries =
    [Floor 0 26, Floor 1 25, Floor 2 26, Floor 3 25, Floor 4 26, Floor 5 25, Floor 6 26, Floor 7 25,
     Floor 8 26, Floor 9 25]"

definition store_fe :: "int list \<Rightarrow> bytes" where
  "store_fe h =
    [word_of_int (drop_bit 0 (h ! 0)), word_of_int (drop_bit 8 (h ! 0)), word_of_int (drop_bit 16 (h ! 0)),
     word_of_int (drop_bit 24 (h ! 0) OR push_bit 2 (h ! 1)), word_of_int (drop_bit 6 (h ! 1)),
     word_of_int (drop_bit 14 (h ! 1)), word_of_int (drop_bit 22 (h ! 1) OR push_bit 3 (h ! 2)),
     word_of_int (drop_bit 5 (h ! 2)), word_of_int (drop_bit 13 (h ! 2)),
     word_of_int (drop_bit 21 (h ! 2) OR push_bit 5 (h ! 3)), word_of_int (drop_bit 3 (h ! 3)),
     word_of_int (drop_bit 11 (h ! 3)), word_of_int (drop_bit 19 (h ! 3) OR push_bit 6 (h ! 4)),
     word_of_int (drop_bit 2 (h ! 4)), word_of_int (drop_bit 10 (h ! 4)),
     word_of_int (drop_bit 18 (h ! 4)), word_of_int (drop_bit 0 (h ! 5)), word_of_int (drop_bit 8 (h ! 5)),
     word_of_int (drop_bit 16 (h ! 5)), word_of_int (drop_bit 24 (h ! 5) OR push_bit 1 (h ! 6)),
     word_of_int (drop_bit 7 (h ! 6)), word_of_int (drop_bit 15 (h ! 6)),
     word_of_int (drop_bit 23 (h ! 6) OR push_bit 3 (h ! 7)), word_of_int (drop_bit 5 (h ! 7)),
     word_of_int (drop_bit 13 (h ! 7)), word_of_int (drop_bit 21 (h ! 7) OR push_bit 4 (h ! 8)),
     word_of_int (drop_bit 4 (h ! 8)), word_of_int (drop_bit 12 (h ! 8)),
     word_of_int (drop_bit 20 (h ! 8) OR push_bit 6 (h ! 9)), word_of_int (drop_bit 2 (h ! 9)),
     word_of_int (drop_bit 10 (h ! 9)), word_of_int (drop_bit 18 (h ! 9))]"

text \<open>
  The eleventh limb takes the last carry: the comment of the source calls it \<open>h10\<close>, and the code
  does not keep it.
\<close>

definition fe_tobytes :: "fe \<Rightarrow> bytes" where
  "fe_tobytes h =
    (let h0 = wrapn 32 (h ! 0 + wrapn 32 (19 * tobytes_q h))
     in store_fe (exec 32 tobytes_carries (h[0 := h0] @ [0])))"

definition fe_isnegative :: "fe \<Rightarrow> int" where
  "fe_isnegative f = (let s = fe_tobytes f in uint (s ! 0 AND 1))"

definition fe_isnonzero :: "fe \<Rightarrow> int" where
  "fe_isnonzero f = sc_isnonzero (fe_tobytes f)"

definition fe_invert :: "fe \<Rightarrow> fe" where
  "fe_invert z =
    (let t0 = fe_sq z;
         t1 = fe_sq t0;
         t1 = fe_sq t1;
         t1 = fe_mul z t1;
         t0 = fe_mul t0 t1;
         t2 = fe_sq t0;
         t1 = fe_mul t1 t2;
         t2 = fe_sq t1;
         t2 = (fe_sq ^^ 4) t2;
         t1 = fe_mul t2 t1;
         t2 = fe_sq t1;
         t2 = (fe_sq ^^ 9) t2;
         t2 = fe_mul t2 t1;
         t3 = fe_sq t2;
         t3 = (fe_sq ^^ 19) t3;
         t2 = fe_mul t3 t2;
         t2 = fe_sq t2;
         t2 = (fe_sq ^^ 9) t2;
         t1 = fe_mul t2 t1;
         t2 = fe_sq t1;
         t2 = (fe_sq ^^ 49) t2;
         t2 = fe_mul t2 t1;
         t3 = fe_sq t2;
         t3 = (fe_sq ^^ 99) t3;
         t2 = fe_mul t3 t2;
         t2 = fe_sq t2;
         t2 = (fe_sq ^^ 49) t2;
         t1 = fe_mul t2 t1;
         t1 = fe_sq t1;
         t1 = (fe_sq ^^ 4) t1
     in fe_mul t1 t0)"

section \<open>Values and bounds\<close>

definition p25519 :: int where
  "p25519 = 2 ^ 255 - 19"

definition Wfe :: "nat \<Rightarrow> nat" where
  "Wfe i = (51 * i + 1) div 2"

definition fe_val :: "fe \<Rightarrow> int" where
  "fe_val f = limb_val Wfe 10 f"

lemma upt_0_10: "[0..<10] = [0, 1, 2, 3, 4, 5, 6, 7, 8, 9]"
  by code_simp

definition fe_within :: "int \<Rightarrow> fe \<Rightarrow> bool" where
  "fe_within c f \<longleftrightarrow> length f = 10 \<and>
    (\<forall>i < 10. 100 * \<bar>f ! i\<bar> \<le> c * (if even i then 2 ^ 25 else 2 ^ 24))"

lemma fe_small: "\<bar>a\<bar> \<le> 1000000 \<Longrightarrow> fe_within 101 [a, 0, 0, 0, 0, 0, 0, 0, 0, 0]"
  by (auto simp: fe_within_def less_numeral_iff)

lemma fe_small_val: "fe_val [a, 0, 0, 0, 0, 0, 0, 0, 0, 0] = a"
  by (simp add: fe_val_def limb_val_numeral Wfe_def)

lemma fe_within_mono:
  assumes "fe_within c f" and "c \<le> d"
  shows "fe_within d f"
  unfolding fe_within_def
proof (intro conjI allI impI)
  show "length f = 10" using assms(1) by (simp add: fe_within_def)
  fix i :: nat assume "i < 10"
  with assms(1) have "100 * \<bar>f ! i\<bar> \<le> c * (if even i then 2 ^ 25 else 2 ^ 24)" by (simp add: fe_within_def)
  also have "\<dots> \<le> d * (if even i then 2 ^ 25 else 2 ^ 24)" using assms(2) by (intro mult_right_mono) auto
  finally show "100 * \<bar>f ! i\<bar> \<le> d * (if even i then 2 ^ 25 else 2 ^ 24)" .
qed

lemma fe_small_330: "\<bar>a\<bar> \<le> 1000000 \<Longrightarrow> fe_within 330 [a, 0, 0, 0, 0, 0, 0, 0, 0, 0]"
  using fe_within_mono [OF fe_small] by simp

interpretation fe: limb_machine Wfe p25519 "\<lambda>i k c. i = 9 \<and> k = 25 \<and> c = 19" "\<lambda>j. False"
proof unfold_locales
  show "p25519 dvd 2 ^ (Wfe i + k) - c" if "i = 9 \<and> k = 25 \<and> c = 19" for i k c
    using that by (simp add: Wfe_def p25519_def)
qed (simp_all add: Wfe_def)

text \<open>The coefficient of a product of two limbs, and the limb it goes to.\<close>

definition fcoeff :: "nat \<Rightarrow> nat \<Rightarrow> int" where
  "fcoeff i j = (if odd i \<and> odd j then 2 else 1) * (if i + j < 10 then 1 else 19)"

definition fconv :: "fe \<Rightarrow> fe \<Rightarrow> nat \<Rightarrow> int" where
  "fconv f g k = (\<Sum>i < 10. let j = (k + 10 - i) mod 10 in fcoeff i j * (f ! i * g ! j))"

lemma Wfe_add:
  "\<forall>i \<in> set [0..<10]. \<forall>j \<in> set [0..<10].
    Wfe i + Wfe j = (if i + j < 10 then 0 else 255) + (if odd i \<and> odd j then 1 else 0) + Wfe ((i + j) mod 10)"
  by code_simp

lemma fcoeff_mod:
  assumes "i < 10" and "j < 10"
  shows "p25519 dvd 2 ^ Wfe i * 2 ^ Wfe j - fcoeff i j * 2 ^ Wfe ((i + j) mod 10)"
proof -
  let ?a = "if i + j < 10 then 0 else 255 :: nat" and ?b = "if odd i \<and> odd j then 1 else 0 :: nat"
  have w: "Wfe i + Wfe j = ?a + ?b + Wfe ((i + j) mod 10)"
    using Wfe_add assms by simp
  have "2 ^ Wfe i * 2 ^ Wfe j - fcoeff i j * 2 ^ Wfe ((i + j) mod 10)
      = (2 ^ ?a - (if i + j < 10 then 1 else 19)) * (2 ^ ?b * 2 ^ Wfe ((i + j) mod 10))"
    unfolding power_add [symmetric] w by (simp add: power_add fcoeff_def algebra_simps)
  moreover have "p25519 dvd 2 ^ ?a - (if i + j < 10 then 1 else 19)"
    by (simp add: p25519_def)
  ultimately show ?thesis by (simp add: dvd_mult2)
qed

lemma fcoeff_index:
  "\<forall>i \<in> set [0..<10]. \<forall>j \<in> set [0..<10]. ((i + j) mod 10 + 10 - i) mod 10 = j \<and> (i + (j + 10 - i) mod 10) mod 10 = (j :: nat)"
  by code_simp

lemma fconv_sum: "(\<Sum>k < 10. fconv f g k * 2 ^ Wfe k) = (\<Sum>i < 10. \<Sum>j < 10. fcoeff i j * (f ! i * g ! j) * 2 ^ Wfe ((i + j) mod 10))"
proof -
  have "(\<Sum>k < 10. fconv f g k * 2 ^ Wfe k) =
      (\<Sum>i < 10. \<Sum>k < 10. let j = (k + 10 - i) mod 10 in fcoeff i j * (f ! i * g ! j) * 2 ^ Wfe k)"
    unfolding fconv_def sum_distrib_right Let_def by (rule sum.swap)
  also have "\<dots> = (\<Sum>i < 10. \<Sum>j < 10. fcoeff i j * (f ! i * g ! j) * 2 ^ Wfe ((i + j) mod 10))"
    unfolding Let_def
  proof (rule sum.cong [OF refl])
    fix i :: nat assume i: "i \<in> {..<10}"
    show "(\<Sum>k < 10. fcoeff i ((k + 10 - i) mod 10) * (f ! i * g ! ((k + 10 - i) mod 10)) * 2 ^ Wfe k)
        = (\<Sum>j < 10. fcoeff i j * (f ! i * g ! j) * 2 ^ Wfe ((i + j) mod 10))"
      by (rule sum.reindex_bij_witness [where i = "\<lambda>j. (i + j) mod 10" and j = "\<lambda>k. (k + 10 - i) mod 10"])
        (use i fcoeff_index in auto)
  qed
  finally show ?thesis .
qed

lemma fconv_value: "(\<Sum>k < 10. fconv f g k * 2 ^ Wfe k) mod p25519 = fe_val f * fe_val g mod p25519"
proof -
  have "fe_val f * fe_val g - (\<Sum>k < 10. fconv f g k * 2 ^ Wfe k) =
     (\<Sum>i < 10. \<Sum>j < 10. (2 ^ Wfe i * 2 ^ Wfe j - fcoeff i j * 2 ^ Wfe ((i + j) mod 10)) * (f ! i * g ! j))"
    unfolding fconv_sum fe_val_def limb_val_def sum_product
    by (simp add: sum_subtractf [symmetric] algebra_simps)
  moreover have "p25519 dvd \<dots>"
    by (intro dvd_sum dvd_mult2 fcoeff_mod) auto
  ultimately show ?thesis by (metis mod_eq_dvd_iff)
qed

definition fe_max :: "nat \<Rightarrow> int" where
  "fe_max i = (if even i then 110729625 else 55364812)"

lemma fe_max_nonneg: "0 \<le> fe_max i"
  by (simp add: fe_max_def)

lemma fe_within_max: "fe_within 330 f \<Longrightarrow> i < 10 \<Longrightarrow> \<bar>f ! i\<bar> \<le> fe_max i"
  by (auto simp: fe_within_def fe_max_def split: if_splits)

lemma fconv_bound:
  assumes "fe_within 330 f" and "fe_within 330 g" and "k < 10"
  shows "\<bar>fconv f g k\<bar> \<le> (if even k then 1530000000000000000 else 945000000000000000)"
proof -
  have "\<bar>fconv f g k\<bar> \<le> (\<Sum>i < 10. let j = (k + 10 - i) mod 10 in fcoeff i j * (fe_max i * fe_max j))"
    unfolding fconv_def Let_def
    by (rule order_trans [OF sum_abs], rule sum_mono)
      (auto simp: abs_mult fcoeff_def fe_max_nonneg intro!: mult_mono fe_within_max assms)
  also have "\<dots> \<le> (if even k then 1530000000000000000 else 945000000000000000)"
  proof -
    have "\<forall>k \<in> set [0..<10]. (\<Sum>i \<leftarrow> [0..<10]. let j = (k + 10 - i) mod 10 in fcoeff i j * (fe_max i * fe_max j))
       \<le> (if even k then 1530000000000000000 else 945000000000000000)"
      by code_simp
    then show ?thesis using assms(3) by (simp add: interv_sum_list_conv_sum_set_nat atLeast0LessThan)
  qed
  finally show ?thesis .
qed


lemma pre_fits:
  assumes "fe_within 330 f" and "i < 10"
  shows "fits 32 (19 * f ! i)" and "fits 32 (2 * f ! i)" and "odd i \<Longrightarrow> fits 32 (38 * f ! i)"
  using fe_within_max [OF assms] by (auto simp: fits_def fe_max_def split: if_splits)

lemma pre_exact:
  assumes "fe_within 330 f" and "i < 10"
  shows "wrapn 32 (19 * f ! i) = 19 * f ! i" and "wrapn 32 (2 * f ! i) = 2 * f ! i"
    and "odd i \<Longrightarrow> wrapn 32 (38 * f ! i) = 38 * f ! i"
  using pre_fits [OF assms] by (simp_all add: wrapn_id)

lemmas fconv_unfold = fconv_def fcoeff_def Let_def sum_lessThan_numeral

text \<open>Every product, taken without its sign, is a product of the limbs without their signs.\<close>

lemma fe_within_abs: "fe_within c f \<Longrightarrow> fe_within c (map abs f)"
  by (simp add: fe_within_def)

definition fe_rows :: "fe \<Rightarrow> fe \<Rightarrow> (int \<times> int) list list \<Rightarrow> bool" where
  "fe_rows f g rows \<longleftrightarrow> map (\<lambda>row. sum_list (products row)) rows = map (fconv f g) [0, 1, 2, 3, 4, 5, 6, 7, 8, 9]
     \<and> map (\<lambda>row. sum_list (map abs (products row))) rows = map (fconv (map abs f) (map abs g)) [0, 1, 2, 3, 4, 5, 6, 7, 8, 9]"

lemma fe_rows_fit:
  assumes "fe_within 330 f" and "fe_within 330 g" and "fe_rows f g rows"
  shows "list_all (dot_fits 64) rows" and "map (dot 64) rows = map (fconv f g) [0, 1, 2, 3, 4, 5, 6, 7, 8, 9]"
proof -
  have "dot_fits 64 row" if "row \<in> set rows" for row
  proof -
    have "sum_list (map abs (products row)) \<in> set (map (\<lambda>row. sum_list (map abs (products row))) rows)" using that by simp
    also have "\<dots> = fconv (map abs f) (map abs g) ` set [0, 1, 2, 3, 4, 5, 6, 7, 8, 9]"
      using assms(3) unfolding fe_rows_def by (simp only: set_map)
    finally obtain k where "k \<in> set [0, 1, 2, 3, 4, 5, 6, 7, 8, 9]" and "sum_list (map abs (products row)) = fconv (map abs f) (map abs g) k"
      by (rule imageE)
    then have k: "k < 10" "sum_list (map abs (products row)) = fconv (map abs f) (map abs g) k" by auto
    have "\<bar>fconv (map abs f) (map abs g) k\<bar> \<le> 1530000000000000000"
      using fconv_bound [OF fe_within_abs [OF assms(1)] fe_within_abs [OF assms(2)] k(1)] by (simp split: if_splits)
    then show ?thesis by (intro dot_fits_abs) (simp add: k(2) abs_le_iff)
  qed
  then show "list_all (dot_fits 64) rows" by (simp add: list_all_iff)
  moreover have "map (dot 64) rows = map (\<lambda>row. sum_list (products row)) rows"
    using calculation dot_exact [of 64] by (auto simp: list_all_iff)
  ultimately show "map (dot 64) rows = map (fconv f g) [0, 1, 2, 3, 4, 5, 6, 7, 8, 9]"
    using assms(3) unfolding fe_rows_def by argo
qed

lemma fe_mul_rows_ok:
  assumes "fe_within 330 f" and "fe_within 330 g"
  shows "fe_rows f g (fe_mul_rows f g)"
proof -
  have len: "length f = 10" "length g = 10" using assms by (simp_all add: fe_within_def)
  note pre = pre_exact [OF assms(1)] pre_exact [OF assms(2)]
  show ?thesis
    unfolding fe_rows_def fe_mul_rows_def Let_def
    by (simp add: pre products_def abs_mult)
      (simp add: fconv_unfold len abs_mult algebra_simps numeral_2_eq_2 [symmetric] numeral_3_eq_3 [symmetric])
qed

lemma fe_sq_rows_ok:
  assumes "fe_within 330 f"
  shows "fe_rows f f (fe_sq_rows f)"
proof -
  have len: "length f = 10" using assms by (simp add: fe_within_def)
  show ?thesis
    unfolding fe_rows_def fe_sq_rows_def Let_def
    by (simp add: pre_exact [OF assms] products_def abs_mult)
      (simp add: fconv_unfold len abs_mult algebra_simps numeral_2_eq_2 [symmetric] numeral_3_eq_3 [symmetric])
qed

text \<open>What the carry chain leaves of limbs of the size of a doubled product.\<close>

definition fe_product_itv :: "itv list" where
  "fe_product_itv = map (\<lambda>i. if even i then (- 3060000000000000000, 3060000000000000000)
    else (- 1890000000000000000, 1890000000000000000)) [0..<10]"

definition fe_carried_itv :: "itv list \<Rightarrow> bool" where
  "fe_carried_itv B \<longleftrightarrow> length B = 10 \<and> (\<forall>i \<in> set [0..<10].
    - (if even i then 33889976 else 16944988) \<le> fst (B ! i) \<and> snd (B ! i) \<le> (if even i then 33889976 else 16944988))"

lemma fe_carries_itv:
  "case ops_itv 64 fe_carries fe_product_itv of None \<Rightarrow> False | Some B \<Rightarrow> fe_carried_itv B"
  by code_simp

lemma fe_carries_live:
  "ops_live Wfe (\<lambda>i k c. i = 9 \<and> k = 25 \<and> c = 19) (\<lambda>j. False) fe_carries 10 = Some 10 \<and>
   list_all (\<lambda>op. op_size op \<le> 10) fe_carries"
  by code_simp

lemma within_fe:
  assumes "within B s" and "fe_carried_itv B"
  shows "fe_within 101 s"
  unfolding fe_within_def
proof (intro conjI allI impI)
  show "length s = 10" using assms by (simp add: within_length fe_carried_itv_def)
  fix i :: nat assume "i < 10"
  then have "mem_itv (s ! i) (B ! i)" and "- (if even i then 33889976 else 16944988) \<le> fst (B ! i)"
    and "snd (B ! i) \<le> (if even i then 33889976 else 16944988)"
    using assms by (auto simp: fe_carried_itv_def intro: within_nth)
  then show "100 * \<bar>s ! i\<bar> \<le> 101 * (if even i then 2 ^ 25 else 2 ^ 24)"
    by (auto simp: mem_itv_def split: if_splits)
qed

lemma fe_within_fits:
  assumes "fe_within c f" and "c \<le> 6000"
  shows "list_all (fits 32) f"
  unfolding list_all_iff
proof
  fix x assume "x \<in> set f"
  then obtain i where "i < 10" "x = f ! i"
    using assms(1) by (auto simp: in_set_conv_nth fe_within_def)
  then have "100 * \<bar>x\<bar> \<le> c * (if even i then 2 ^ 25 else 2 ^ 24)"
    using assms(1) by (simp add: fe_within_def)
  also have "\<dots> \<le> 6000 * 2 ^ 25" using assms(2) by (intro mult_mono) auto
  finally show "fits 32 x" by (auto simp: fits_def)
qed

lemma fe_within_i32: "fe_within c f \<Longrightarrow> c \<le> 6000 \<Longrightarrow> map (wrapn 32) f = f"
  using fe_within_fits [of c f] by (auto simp: list_all_iff wrapn_id intro: map_idI)

lemma fe_carried:
  assumes "length h = 10" and "\<forall>i < 10. \<bar>h ! i\<bar> \<le> (if even i then 3060000000000000000 else 1890000000000000000)"
  shows "fe_within 101 (map (wrapn 32) (exec 64 fe_carries h)) \<and>
    fe_val (map (wrapn 32) (exec 64 fe_carries h)) mod p25519 = limb_val Wfe 10 h mod p25519 \<and>
    no_overflow 64 fe_carries h \<and> list_all (fits 32) (exec 64 fe_carries h)"
proof -
  have w: "within fe_product_itv h"
    using assms by (auto simp: within_def fe_product_itv_def mem_itv_def abs_le_iff split: if_splits)
  from fe_carries_itv obtain B where B: "ops_itv 64 fe_carries fe_product_itv = Some B" "fe_carried_itv B"
    by (auto split: option.splits)
  have e: "within B (exec 64 fe_carries h)" "limb_val Wfe 10 (exec 64 fe_carries h) mod p25519 = limb_val Wfe 10 h mod p25519"
    using fe.exec_value [OF B(1) w _ conjunct1 [OF fe_carries_live]] fe_carries_live assms(1)
    by (auto simp: list_all_iff)
  have "fe_within 101 (exec 64 fe_carries h)"
    using e(1) B(2) by (rule within_fe)
  with e(2) fe_within_i32 [OF this] ops_itv_sound [OF B(1) w] fe_within_fits [OF this] show ?thesis by (simp add: fe_val_def)
qed

lemma fconv_limbs:
  assumes "fe_within 330 f" and "fe_within 330 g" and "c = 1 \<or> c = 2"
  shows "length (map (\<lambda>k. c * fconv f g k) [0, 1, 2, 3, 4, 5, 6, 7, 8, 9]) = 10"
    and "\<forall>i < 10. \<bar>map (\<lambda>k. c * fconv f g k) [0, 1, 2, 3, 4, 5, 6, 7, 8, 9] ! i\<bar>
      \<le> (if even i then 3060000000000000000 else 1890000000000000000)"
    and "limb_val Wfe 10 (map (\<lambda>k. c * fconv f g k) [0, 1, 2, 3, 4, 5, 6, 7, 8, 9]) mod p25519
      = c * (fe_val f * fe_val g) mod p25519"
proof -
  let ?h = "map (\<lambda>k. c * fconv f g k) [0, 1, 2, 3, 4, 5, 6, 7, 8, 9]"
  have nth: "?h ! i = c * fconv f g i" if "i < 10" for i
    using that by (auto simp: less_numeral_iff)
  show "length ?h = 10" by simp
  show "\<forall>i < 10. \<bar>?h ! i\<bar> \<le> (if even i then 3060000000000000000 else 1890000000000000000)"
  proof (intro allI impI)
    fix i :: nat assume i: "i < 10"
    show "\<bar>?h ! i\<bar> \<le> (if even i then 3060000000000000000 else 1890000000000000000)"
      unfolding nth [OF i] abs_mult using fconv_bound [OF assms(1,2) i] assms(3) by auto
  qed
  have "limb_val Wfe 10 ?h = c * (\<Sum>k < 10. fconv f g k * 2 ^ Wfe k)"
    unfolding limb_val_def sum_distrib_left using nth by (intro sum.cong) auto
  then show "limb_val Wfe 10 ?h mod p25519 = c * (fe_val f * fe_val g) mod p25519"
    using fconv_value [of f g] by (metis mod_mult_right_eq)
qed

lemma fconv_no_wrap:
  assumes "fe_within 330 f" and "fe_within 330 g" and "k < 10"
  shows "wrapn 64 (fconv f g k) = fconv f g k" and "wrapn 64 (2 * fconv f g k) = 2 * fconv f g k"
  using fconv_bound [OF assms] by (auto intro!: wrapn_id simp: fits_def abs_le_iff split: if_splits)

text \<open>
  Nothing overflows in \<open>fe_mul\<close>: the multiplications in \<open>int32_t\<close>, the products and partial sums in \<open>int64_t\<close>, the
  carries, and the conversions of the limbs to \<open>int32_t\<close> at the end.
\<close>

definition fe_mul_fits :: "fe \<Rightarrow> fe \<Rightarrow> bool" where
  "fe_mul_fits f g \<longleftrightarrow> list_all (\<lambda>i. fits 32 (19 * g ! i)) [1, 2, 3, 4, 5, 6, 7, 8, 9] \<and> list_all (\<lambda>i. fits 32 (2 * f ! i)) [1, 3, 5, 7, 9]
     \<and> list_all (dot_fits 64) (fe_mul_rows f g) \<and> no_overflow 64 fe_carries (fe_mul_limbs f g)
     \<and> list_all (fits 32) (exec 64 fe_carries (fe_mul_limbs f g))"

lemma fe_mul_ok:
  assumes "fe_within 330 f" and "fe_within 330 g"
  shows "fe_within 101 (fe_mul f g) \<and> fe_val (fe_mul f g) mod p25519 = fe_val f * fe_val g mod p25519" and "fe_mul_fits f g"
proof -
  have "fe_mul_limbs f g = map (\<lambda>k. 1 * fconv f g k) [0, 1, 2, 3, 4, 5, 6, 7, 8, 9]"
    using fe_rows_fit(2) [OF assms fe_mul_rows_ok [OF assms]] by (simp add: fe_mul_limbs_def)
  then show "fe_within 101 (fe_mul f g) \<and> fe_val (fe_mul f g) mod p25519 = fe_val f * fe_val g mod p25519"
    and "fe_mul_fits f g"
    using fe_carried [OF fconv_limbs(1,2) [OF assms, of 1]] fconv_limbs(3) [OF assms, of 1] fe_rows_fit(1) [OF assms fe_mul_rows_ok [OF assms]]
      pre_fits [OF assms(1)] pre_fits [OF assms(2)]
    by (simp_all add: fe_mul_def fe_mul_fits_def)
qed

lemma fe_sq_ok:
  assumes "fe_within 330 f"
  shows "fe_within 101 (fe_sq f) \<and> fe_val (fe_sq f) mod p25519 = fe_val f ^ 2 mod p25519"
proof -
  have "fe_sq_limbs f = map (\<lambda>k. 1 * fconv f f k) [0, 1, 2, 3, 4, 5, 6, 7, 8, 9]"
    using fe_rows_fit(2) [OF assms assms fe_sq_rows_ok [OF assms]] by (simp add: fe_sq_limbs_def)
  then show ?thesis
    using fe_carried [OF fconv_limbs(1,2) [OF assms assms, of 1]] fconv_limbs(3) [OF assms assms, of 1]
    by (simp add: fe_sq_def power2_eq_square)
qed

text \<open>C38: For limbs within the documented bounds, 1.65*2^26 and 1.65*2^25 alternating, \<open>fe_mul\<close>
  computes the product modulo 2^255-19 and returns reduced limbs; the 32-bit multiples of the limbs, the
  64-bit products, partial sums and carries and the 32-bit results are all within the range of their types.\<close>

theorem fe_mul_mod:
  assumes "fe_within 330 f" and "fe_within 330 g"
  shows "fe_within 101 (fe_mul f g) \<and> fe_val (fe_mul f g) mod p25519 = fe_val f * fe_val g mod p25519 \<and> fe_mul_fits f g"
  using fe_mul_ok [OF assms] by blast

theorem fe_mul_mod_witness:
  "fe_val (fe_mul [6, 0, 0, 0, 0, 0, 0, 0, 0, 0] [7, 0, 0, 0, 0, 0, 0, 0, 0, 0]) mod p25519 = 42
    \<and> fe_mul_fits [6, 0, 0, 0, 0, 0, 0, 0, 0, 0] [7, 0, 0, 0, 0, 0, 0, 0, 0, 0]"
  using fe_mul_mod [of "[6, 0, 0, 0, 0, 0, 0, 0, 0, 0]" "[7, 0, 0, 0, 0, 0, 0, 0, 0, 0]"]
  by (simp add: fe_small_330 fe_small_val p25519_def)

theorem fe_sq_mod:
  assumes "fe_within 330 f"
  shows "fe_within 101 (fe_sq f) \<and> fe_val (fe_sq f) mod p25519 = fe_val f ^ 2 mod p25519"
  using assms by (rule fe_sq_ok)

theorem fe_sq_mod_witness:
  "fe_val (fe_sq [- 6, 0, 0, 0, 0, 0, 0, 0, 0, 0]) mod p25519 = 36"
  using fe_sq_mod [of "[- 6, 0, 0, 0, 0, 0, 0, 0, 0, 0]"] by (simp add: fe_small_330 fe_small_val p25519_def)

lemma fe_sq2_ok:
  assumes "fe_within 330 f"
  shows "fe_within 101 (fe_sq2 f) \<and> fe_val (fe_sq2 f) mod p25519 = 2 * fe_val f ^ 2 mod p25519"
proof -
  have "map (\<lambda>h. wrapn 64 (h + h)) (fe_sq_limbs f) = map (\<lambda>k. 2 * fconv f f k) [0, 1, 2, 3, 4, 5, 6, 7, 8, 9]"
    using fe_rows_fit(2) [OF assms assms fe_sq_rows_ok [OF assms]] by (simp add: fe_sq_limbs_def fconv_no_wrap [OF assms assms])
  then show ?thesis
    using fe_carried [OF fconv_limbs(1,2) [OF assms assms, of 2]] fconv_limbs(3) [OF assms assms, of 2]
    by (simp add: fe_sq2_def power2_eq_square)
qed


theorem fe_sq2_mod:
  assumes "fe_within 330 f"
  shows "fe_within 101 (fe_sq2 f) \<and> fe_val (fe_sq2 f) mod p25519 = 2 * fe_val f ^ 2 mod p25519"
  using assms by (rule fe_sq2_ok)

theorem fe_sq2_mod_witness:
  "fe_val (fe_sq2 [- 6, 0, 0, 0, 0, 0, 0, 0, 0, 0]) mod p25519 = 72"
  using fe_sq2_mod [of "[- 6, 0, 0, 0, 0, 0, 0, 0, 0, 0]"] by (simp add: fe_small_330 fe_small_val p25519_def)

lemma fe_val_map:
  assumes "\<And>i. i < 10 \<Longrightarrow> h i = e * f ! i + d * g ! i"
  shows "fe_val (map h [0, 1, 2, 3, 4, 5, 6, 7, 8, 9]) = e * fe_val f + d * fe_val g"
proof -
  have "map h [0, 1, 2, 3, 4, 5, 6, 7, 8, 9] ! i = h i" if "i < 10" for i
    using that by (auto simp: less_numeral_iff)
  then have "fe_val (map h [0, 1, 2, 3, 4, 5, 6, 7, 8, 9]) = (\<Sum>i < 10. (e * f ! i + d * g ! i) * 2 ^ Wfe i)"
    unfolding fe_val_def limb_val_def using assms by (intro sum.cong) auto
  then show ?thesis
    by (simp add: fe_val_def limb_val_def sum_distrib_left sum.distrib algebra_simps)
qed

lemma fe_within_map:
  fixes h :: "nat \<Rightarrow> int"
  assumes "\<And>i. i < 10 \<Longrightarrow> 100 * \<bar>h i\<bar> \<le> c * (if even i then 2 ^ 25 else 2 ^ 24)"
  shows "fe_within c (map h [0, 1, 2, 3, 4, 5, 6, 7, 8, 9])"
proof -
  have "map h [0, 1, 2, 3, 4, 5, 6, 7, 8, 9] ! i = h i" if "i < 10" for i
    using that by (auto simp: less_numeral_iff)
  with assms show ?thesis by (simp add: fe_within_def del: list.map)
qed

lemma fe_within_nth: "fe_within c f \<Longrightarrow> i < 10 \<Longrightarrow> 100 * \<bar>f ! i\<bar> \<le> c * (if even i then 2 ^ 25 else 2 ^ 24)"
  by (simp add: fe_within_def)

text \<open>Sums, differences and negations are exact; their bounds add up.\<close>

lemma fe_limbwise:
  assumes "fe_within a f" and "fe_within b g" and "a + b \<le> 6000" and "e = 1 \<or> e = - 1 \<or> e = 0" and "d = 1 \<or> d = - 1 \<or> d = 0"
    and h: "\<And>i. h i = wrapn 32 (e * f ! i + d * g ! i)"
  shows "fe_within (a + b) (map h [0, 1, 2, 3, 4, 5, 6, 7, 8, 9]) \<and>
    fe_val (map h [0, 1, 2, 3, 4, 5, 6, 7, 8, 9]) = e * fe_val f + d * fe_val g"
proof -
  have b: "100 * \<bar>e * f ! i + d * g ! i\<bar> \<le> (a + b) * (if even i then 2 ^ 25 else 2 ^ 24)" if "i < 10" for i
  proof -
    have "100 * \<bar>e * f ! i + d * g ! i\<bar> \<le> 100 * \<bar>f ! i\<bar> + 100 * \<bar>g ! i\<bar>"
      using abs_triangle_ineq [of "e * f ! i" "d * g ! i"] assms(4,5) by (auto simp: abs_mult)
    with fe_within_nth [OF assms(1) that] fe_within_nth [OF assms(2) that] show ?thesis
      unfolding distrib_right by linarith
  qed
  have w: "h i = e * f ! i + d * g ! i" if "i < 10" for i
  proof -
    have "(a + b) * (if even i then 2 ^ 25 else 2 ^ 24) \<le> 6000 * 2 ^ 25"
      using assms(3) by (intro mult_mono) auto
    with b [OF that] have "100 * \<bar>e * f ! i + d * g ! i\<bar> \<le> 6000 * 2 ^ 25" by (rule order_trans)
    then have "fits 32 (e * f ! i + d * g ! i)" by (auto simp: fits_def)
    then show ?thesis by (simp add: h wrapn_id)
  qed
  show ?thesis using fe_within_map [of h "a + b"] fe_val_map [of h e f d g] b w by simp
qed

lemma fe_add_ok:
  assumes "fe_within a f" and "fe_within b g" and "a + b \<le> 6000"
  shows "fe_within (a + b) (fe_add f g) \<and> fe_val (fe_add f g) = fe_val f + fe_val g"
  using fe_limbwise [OF assms, of 1 1 "\<lambda>i. wrapn 32 (f ! i + g ! i)"] by (simp add: fe_add_def)

lemma fe_sub_ok:
  assumes "fe_within a f" and "fe_within b g" and "a + b \<le> 6000"
  shows "fe_within (a + b) (fe_sub f g) \<and> fe_val (fe_sub f g) = fe_val f - fe_val g"
  using fe_limbwise [OF assms, of 1 "- 1" "\<lambda>i. wrapn 32 (f ! i - g ! i)"] by (simp add: fe_sub_def)

lemma fe_within_0: "fe_within 0 fe_0"
  by (auto simp: fe_within_def fe_0_def less_numeral_iff)

lemma fe_neg_ok:
  assumes "fe_within a f" and "a \<le> 6000"
  shows "fe_within a (fe_neg f) \<and> fe_val (fe_neg f) = - fe_val f"
  using fe_limbwise [OF assms(1) fe_within_0, of "- 1" 0 "\<lambda>i. wrapn 32 (- (f ! i))"] assms(2)
  by (simp add: fe_neg_def)

lemma fe_copy_id: "length f = 10 \<Longrightarrow> fe_copy f = f"
  using map_nth [of f] by (simp add: fe_copy_def upt_0_10)

lemma fe_consts: "fe_val fe_0 = 0" "fe_val fe_1 = 1" "fe_within 1 fe_1"
  by (simp_all add: fe_val_def fe_0_def fe_1_def limb_val_numeral Wfe_def)
    (auto simp: fe_within_def fe_1_def less_numeral_iff)

lemma fe_cmov_select:
  assumes "length f = 10" and "length g = 10" and "\<forall>i < 10. fits 32 (f ! i) \<and> fits 32 (g ! i)"
  shows "fe_cmov f g 0 = f" and "fe_cmov f g 1 = g"
proof -
  have e: "map (\<lambda>i. f ! i) [0, 1, 2, 3, 4, 5, 6, 7, 8, 9] = f" "map (\<lambda>i. g ! i) [0, 1, 2, 3, 4, 5, 6, 7, 8, 9] = g"
    using map_nth [of f] map_nth [of g] assms(1,2) by (simp_all add: upt_0_10)
  have "wrapn 32 0 = 0" by (simp add: wrapn_def)
  then have "fe_cmov f g 0 = map (\<lambda>i. f ! i) [0, 1, 2, 3, 4, 5, 6, 7, 8, 9]"
    by (simp add: fe_cmov_def Let_def)
  then show "fe_cmov f g 0 = f" using e(1) by simp
  have "f ! i XOR wrapn 32 ((f ! i XOR g ! i) AND uint (- 1 :: u32)) = g ! i" if "i < 10" for i
  proof -
    have "wrapn 32 ((f ! i XOR g ! i) AND uint (- 1 :: u32)) = signed_take_bit 31 (take_bit 32 (f ! i XOR g ! i))"
      by (simp add: wrapn_def take_bit_eq_mask mask_eq_exp_minus_1 unsigned_minus_1_eq_mask)
    also have "\<dots> = wrapn 32 (f ! i) XOR wrapn 32 (g ! i)"
      by (rule bit_eqI) (simp add: wrapn_def bit_simps min_def)
    also have "\<dots> = f ! i XOR g ! i" using assms(3) that by (simp add: wrapn_id)
    finally show ?thesis by (simp add: xor.assoc [symmetric])
  qed
  then have "fe_cmov f g 1 = map (\<lambda>i. g ! i) [0, 1, 2, 3, 4, 5, 6, 7, 8, 9]"
    by (simp add: fe_cmov_def Let_def)
  then show "fe_cmov f g 1 = g" using e(2) by simp
qed

end
