(* ===== verification/FieldBytes.thy ===== *)
theory FieldBytes
  imports Field
begin

unbundle bit_operations_syntax

text \<open>
  Canonical bytes, the sign and zero tests and the inversion of field elements: the correctness of
  \<open>fe_tobytes\<close>, \<open>fe_isnegative\<close>, \<open>fe_isnonzero\<close> and \<open>fe_invert\<close> as \<open>Field\<close> models them.
\<close>

section \<open>Canonical bytes\<close>

definition fe_digits :: "int list \<Rightarrow> bool" where
  "fe_digits s \<longleftrightarrow> (\<forall>i < 10. 0 \<le> s ! i \<and> s ! i < (if even i then 2 ^ 26 else 2 ^ 25))"

lemma store_fe_length: "length (store_fe h) = 32"
  by (simp add: store_fe_def)

lemma store_fe_value:
  assumes "fe_digits s"
  shows "int (le_val (store_fe s)) = limb_val Wfe 10 s"
proof -
  note r = assms [unfolded fe_digits_def, rule_format]
  have two: "uint (word_of_int (drop_bit a (s ! i) OR push_bit b y) :: u8) = s ! i div 2 ^ a + 2 ^ b * (y mod 2 ^ (8 - b))"
    if "i < 10" and "a + b = (if even i then 26 else 25)" and "b \<le> 8" for i a b y
    using that byte_of_two [of "s ! i" a b y] r [of i] by (simp split: if_splits)
  have byte_0: "uint (word_of_int (s ! i) :: u8) = s ! i mod 256" for i
    by (simp add: uint_word_of_int)
  have top: "s ! 4 div 67108864 = 0" "s ! 9 div 67108864 = 0"
    using r [of 4] r [of 9] by simp_all
  show ?thesis
    unfolding store_fe_def
    by (simp add: two two [of 5 24 1, simplified] byte_of_limb byte_0 uint_nat [symmetric] limb_val_numeral Wfe_def)
      (simp add: low_part div_twice top)
qed

definition tobytes_q0 :: "fe \<Rightarrow> int" where
  "tobytes_q0 h = (19 * h ! 9 + 2 ^ 24) div 2 ^ 25"

definition tobytes_qn :: "fe \<Rightarrow> nat \<Rightarrow> int" where
  "tobytes_qn h n = (tobytes_q0 h + limb_val Wfe n h) div 2 ^ Wfe n"

lemma tobytes_qn_Suc:
  assumes "Wfe (Suc n) = Wfe n + k"
  shows "tobytes_qn h (Suc n) = (h ! n + tobytes_qn h n) div 2 ^ k"
proof -
  have e: "tobytes_q0 h + limb_val Wfe (Suc n) h = (tobytes_q0 h + limb_val Wfe n h) + h ! n * 2 ^ Wfe n"
    by (simp add: limb_val_Suc)
  have "(tobytes_q0 h + limb_val Wfe (Suc n) h) div 2 ^ Wfe n = h ! n + tobytes_qn h n"
    unfolding e tobytes_qn_def by (rule div_mult_self1) simp
  then show ?thesis
    by (simp add: tobytes_qn_def assms power_add zdiv_zmult2_eq)
qed

lemma limb_220: "fe_within 220 h \<Longrightarrow> i < 10 \<Longrightarrow> \<bar>h ! i\<bar> \<le> 73819750 \<and> (odd i \<longrightarrow> \<bar>h ! i\<bar> \<le> 36909875)"
  using fe_within_nth [of 220 h i] by (auto split: if_splits)

lemma Wfe_Suc: "Wfe (Suc n) = Wfe n + (if even n then 26 else 25)"
  by (auto simp: Wfe_def elim!: evenE oddE)

lemma tobytes_q0_bound: "fe_within 220 h \<Longrightarrow> \<bar>tobytes_q0 h\<bar> \<le> 32"
proof -
  assume "fe_within 220 h"
  then have "\<bar>h ! 9\<bar> \<le> 36909875" using limb_220 [of h 9] by simp
  then show ?thesis unfolding tobytes_q0_def by (auto simp: abs_le_iff)
qed

lemma tobytes_qn_bound:
  assumes "fe_within 220 h" and "n \<le> 10"
  shows "\<bar>tobytes_qn h n\<bar> \<le> 32"
  using assms(2)
proof (induction n)
  case 0
  then show ?case using tobytes_q0_bound [OF assms(1)] by (simp add: tobytes_qn_def Wfe_def)
next
  case (Suc n)
  then have "\<bar>tobytes_qn h n\<bar> \<le> 32" "\<bar>h ! n\<bar> \<le> 73819750" using limb_220 [OF assms(1)] by auto
  then show ?case
    by (auto simp: tobytes_qn_Suc [OF Wfe_Suc] abs_le_iff)
qed

lemma tobytes_q_eq:
  assumes "fe_within 220 h"
  shows "tobytes_q h = (tobytes_q0 h + fe_val h) div 2 ^ 255"
proof -
  have w: "wrapn 32 (19 * h ! 9) = 19 * h ! 9" "wrapn 32 (19 * h ! 9 + 2 ^ 24) = 19 * h ! 9 + 2 ^ 24"
    using limb_220 [OF assms, of 9] by (auto intro!: wrapn_id simp: fits_def abs_le_iff)
  have s: "drop_bit k (wrapn 32 (h ! n + tobytes_qn h n)) = tobytes_qn h (Suc n)"
    if "n < 10" and "k = (if even n then 26 else 25)" for n k
  proof -
    have "wrapn 32 (h ! n + tobytes_qn h n) = h ! n + tobytes_qn h n"
      using that(1) limb_220 [OF assms, of n] tobytes_qn_bound [OF assms, of n]
      by (auto intro!: wrapn_id simp: fits_def abs_le_iff)
    then show ?thesis by (simp add: tobytes_qn_Suc [OF Wfe_Suc] that(2) drop_bit_eq_div)
  qed
  have "drop_bit 25 (19 * h ! 9 + 2 ^ 24) = tobytes_qn h 0"
    by (simp add: tobytes_qn_def tobytes_q0_def Wfe_def drop_bit_eq_div)
  then have "tobytes_q h = tobytes_qn h 10"
    unfolding tobytes_q_def Let_def w
    using s [of 0 26] s [of 1 25] s [of 2 26] s [of 3 25] s [of 4 26] s [of 5 25] s [of 6 26] s [of 7 25]
      s [of 8 26] s [of 9 25] by (simp add: numeral_2_eq_2 [symmetric])
  then show ?thesis by (simp add: tobytes_qn_def fe_val_def Wfe_def)
qed


lemma low_limbs_bound:
  assumes "fe_within 220 h"
  shows "\<bar>limb_val Wfe 9 h\<bar> \<le> 2 ^ 233"
proof -
  have "\<bar>limb_val Wfe 9 h\<bar> \<le> (\<Sum>i < 9. 2 ^ 27 * 2 ^ Wfe i)"
    unfolding limb_val_def
  proof (rule order_trans [OF sum_abs], rule sum_mono)
    fix i :: nat assume "i \<in> {..<9}"
    then have "\<bar>h ! i\<bar> \<le> 2 ^ 27" using limb_220 [OF assms, of i] by simp
    then show "\<bar>h ! i * 2 ^ Wfe i\<bar> \<le> 2 ^ 27 * 2 ^ Wfe i" unfolding abs_mult by simp
  qed
  also have "\<dots> \<le> 2 ^ 233" by (simp add: sum_lessThan_numeral Wfe_def)
  finally show ?thesis .
qed

text \<open>The quotient: \<open>h - p q\<close> is the canonical representative.\<close>

lemma tobytes_q_range:
  assumes "fe_within 220 h"
  shows "0 \<le> fe_val h - p25519 * tobytes_q h" and "fe_val h - p25519 * tobytes_q h < p25519"
proof -
  define v q q0 w r where "v = fe_val h" and "q = tobytes_q h" and "q0 = tobytes_q0 h" and "w = limb_val Wfe 9 h"
    and "r = v - p25519 * q"
  define t where "t = (q0 + v) - 2 ^ 255 * q"
  have t: "t = (q0 + v) mod 2 ^ 255"
    unfolding t_def q_def tobytes_q_eq [OF assms] q0_def [symmetric] v_def [symmetric] by (rule minus_mult_div_eq_mod)
  have t1: "0 \<le> t" "t \<le> 2 ^ 255 - 1" unfolding t by simp_all
  have v: "v = w + h ! 9 * 2 ^ 230"
    using limb_val_Suc [of Wfe 9 h] by (simp add: v_def w_def fe_val_def Wfe_def [of 9])
  have w: "- (2 ^ 233) \<le> w" "w \<le> 2 ^ 233" using low_limbs_bound [OF assms] by (auto simp: w_def)
  have q0: "- 32 \<le> q0" "q0 \<le> 32" using tobytes_q0_bound [OF assms] by (auto simp: q0_def)
  have m: "2 ^ 25 * q0 \<le> 19 * h ! 9 + 2 ^ 24" "19 * h ! 9 + 2 ^ 24 < 2 ^ 25 * q0 + 2 ^ 25"
    using div_bounds_int [of "2 ^ 25" "19 * h ! 9 + 2 ^ 24"]
    unfolding q0_def tobytes_q0_def by simp_all
  have r: "r = t + 19 * q - q0" unfolding r_def t_def p25519_def by (simp add: algebra_simps)
  have "0 \<le> r \<and> r < 2 ^ 255 - 19"
    using t1 v w q0 m t_def unfolding r by (simp; linarith)
  then show "0 \<le> fe_val h - p25519 * tobytes_q h" "fe_val h - p25519 * tobytes_q h < p25519"
    by (simp_all add: r_def v_def q_def p25519_def)
qed


definition digits_itv :: "itv list \<Rightarrow> bool" where
  "digits_itv B \<longleftrightarrow> length B = 11 \<and> (\<forall>i \<in> set [0..<10]. B ! i = (0, if even i then 2 ^ 26 - 1 else 2 ^ 25 - 1))"

lemma within_fe_digits:
  assumes "within B s" and "digits_itv B"
  shows "fe_digits s"
  unfolding fe_digits_def
proof (intro allI impI)
  fix i :: nat assume "i < 10"
  then have "mem_itv (s ! i) (0, if even i then 2 ^ 26 - 1 else 2 ^ 25 - 1)"
    using within_nth [OF assms(1), of i] assms(2) by (auto simp: digits_itv_def)
  then show "0 \<le> s ! i \<and> s ! i < (if even i then 2 ^ 26 else 2 ^ 25)"
    by (auto simp: mem_itv_def split: if_splits)
qed

lemma tobytes_itv:
  "case ops_itv 32 tobytes_carries (replicate 10 (- (2 ^ 28), 2 ^ 28) @ [(0, 0)]) of None \<Rightarrow> False | Some B \<Rightarrow> digits_itv B"
  by code_simp

lemma tobytes_live:
  "list_all is_carry tobytes_carries \<and>
   ops_live Wfe (\<lambda>i k c. False) (\<lambda>j. False) tobytes_carries 11 = Some 11"
  by code_simp

lemma fe_digits_bound:
  assumes "fe_digits s"
  shows "0 \<le> limb_val Wfe 10 s \<and> limb_val Wfe 10 s < 2 ^ 255"
proof -
  note r = assms [unfolded fe_digits_def, rule_format]
  show ?thesis
    using r [of 0] r [of 1] r [of 2] r [of 3] r [of 4] r [of 5] r [of 6] r [of 7] r [of 8] r [of 9]
    by (simp add: limb_val_numeral Wfe_def)
qed

lemma tobytes_within:
  assumes "fe_within 220 h" and "\<bar>q\<bar> \<le> 32"
  shows "within (replicate 10 (- (2 ^ 28), 2 ^ 28) @ [(0, 0)]) (h[0 := h ! 0 + 19 * q] @ [0])"
  unfolding within_replicate_snoc
proof (intro conjI ballI)
  show "length (h[0 := h ! 0 + 19 * q]) = 10" using assms(1) by (simp add: fe_within_def)
  fix x assume "x \<in> set (h[0 := h ! 0 + 19 * q])"
  then have "x = h ! 0 + 19 * q \<or> x \<in> set h"
    using set_update_subset_insert [of h 0 "h ! 0 + 19 * q"] by auto
  moreover have "\<bar>h ! 0 + 19 * q\<bar> \<le> 2 ^ 28"
    using limb_220 [OF assms(1), of 0] assms(2) by (simp add: abs_le_iff)
  moreover have "\<bar>x\<bar> \<le> 2 ^ 28" if "x \<in> set h"
  proof -
    from that obtain i where "i < 10" "x = h ! i" using assms(1) by (auto simp: fe_within_def in_set_conv_nth)
    then show ?thesis using limb_220 [OF assms(1), of i] by simp
  qed
  ultimately have "\<bar>x\<bar> \<le> 2 ^ 28" by blast
  then show "mem_itv x (- (2 ^ 28), 2 ^ 28)" by (auto simp: mem_itv_def)
qed (simp add: mem_itv_def)

lemma fe_tobytes_ok:
  assumes "fe_within 220 h"
  shows "length (fe_tobytes h) = 32 \<and> int (le_val (fe_tobytes h)) = fe_val h mod p25519"
proof -
  define q where "q = tobytes_q h"
  define H where "H = h[0 := h ! 0 + 19 * q] @ [0]"
  define r where "r = exec 32 tobytes_carries H"
  have len: "length h = 10" using assms by (simp add: fe_within_def)
  have q: "\<bar>q\<bar> \<le> 32"
    using tobytes_qn_bound [OF assms, of 10] tobytes_q_eq [OF assms] by (simp add: q_def tobytes_qn_def fe_val_def Wfe_def)
  have h0: "wrapn 32 (19 * q) = 19 * q" "wrapn 32 (h ! 0 + 19 * q) = h ! 0 + 19 * q"
    using q limb_220 [OF assms, of 0] by (auto intro!: wrapn_id simp: fits_def abs_le_iff)
  have B0: "within (replicate 10 (- (2 ^ 28), 2 ^ 28) @ [(0, 0)]) H"
    unfolding H_def by (rule tobytes_within [OF assms q])
  from tobytes_itv obtain B where B: "ops_itv 32 tobytes_carries (replicate 10 (- (2 ^ 28), 2 ^ 28) @ [(0, 0)]) = Some B" "digits_itv B"
    by (auto split: option.splits)
  have rB: "r = fold exact_op tobytes_carries H" "within B r"
    using ops_itv_sound [OF B(1) B0] by (auto simp: r_def)
  have d: "fe_digits r"
    using rB(2) B(2) by (rule within_fe_digits)
  have "limb_val Wfe 11 r = limb_val Wfe 11 H"
    using carries_value [OF conjunct1 [OF tobytes_live] conjunct2 [OF tobytes_live]] rB(1) len by (simp add: H_def)
  moreover have "limb_val Wfe 11 H = fe_val h + 19 * q"
    using limb_val_update [of 0 10 "h @ [0]" Wfe "h ! 0 + 19 * q"] limb_val_Suc [of Wfe 10 H] len
    by (simp add: H_def fe_val_def nth_append list_update_append Wfe_def limb_val_def)
  moreover have "limb_val Wfe 11 r = limb_val Wfe 10 r + r ! 10 * 2 ^ 255"
    using limb_val_Suc [of Wfe 10 r] by (simp add: Wfe_def [of 10])
  ultimately have "limb_val Wfe 10 r = (fe_val h - p25519 * q) + (q - r ! 10) * 2 ^ 255"
    by (simp add: p25519_def algebra_simps)
  moreover have "q - r ! 10 < 1" "- 1 < q - r ! 10"
    using fe_digits_bound [OF d] tobytes_q_range [OF assms] calculation
    unfolding q_def [symmetric] p25519_def by (simp; linarith)+
  ultimately have v: "limb_val Wfe 10 r = fe_val h - p25519 * q" by simp
  also have "\<dots> = (fe_val h - p25519 * q) mod p25519"
    using tobytes_q_range [OF assms] by (simp add: q_def)
  also have "\<dots> = fe_val h mod p25519" by (simp add: mod_diff_right_eq [symmetric])
  finally have "limb_val Wfe 10 r = fe_val h mod p25519" .
  moreover have "fe_tobytes h = store_fe r"
    by (simp add: fe_tobytes_def q_def [symmetric] h0 H_def r_def Let_def)
  ultimately show ?thesis
    using store_fe_value [OF d] by (simp add: store_fe_length)
qed


theorem fe_tobytes_canonical:
  assumes "fe_within 220 h"
  shows "length (fe_tobytes h) = 32 \<and> int (le_val (fe_tobytes h)) = fe_val h mod p25519"
  using assms by (rule fe_tobytes_ok)

theorem fe_tobytes_canonical_witness:
  "int (le_val (fe_tobytes [- 1, 0, 0, 0, 0, 0, 0, 0, 0, 0])) = 2 ^ 255 - 20"
  using fe_tobytes_canonical [OF fe_within_mono [OF fe_small [of "- 1"]]]
  by (simp add: fe_small_val p25519_def)

lemma fe_isnegative_ok:
  assumes "fe_within 220 f"
  shows "fe_isnegative f = fe_val f mod p25519 mod 2"
proof -
  obtain b bs where b: "fe_tobytes f = b # bs"
    using fe_tobytes_ok [OF assms] by (cases "fe_tobytes f") auto
  have "fe_isnegative f = uint b mod 2"
    by (simp only: fe_isnegative_def Let_def b nth_Cons_0 unsigned_and_eq unsigned_1 and_one_eq [where 'a = int])
  also have "\<dots> = int (le_val (fe_tobytes f)) mod 2"
  proof -
    have "int (le_val (fe_tobytes f)) = uint b + 2 * (128 * int (le_val bs))" by (simp add: b)
    then show ?thesis by (simp only: mod_mult_self2)
  qed
  finally show ?thesis using fe_tobytes_ok [OF assms] by simp
qed

theorem fe_isnegative_iff:
  assumes "fe_within 220 f"
  shows "fe_isnegative f = fe_val f mod p25519 mod 2"
  using assms by (rule fe_isnegative_ok)

theorem fe_isnegative_iff_witness:
  "fe_isnegative [- 1, 0, 0, 0, 0, 0, 0, 0, 0, 0] = 0 \<and> fe_isnegative [5, 0, 0, 0, 0, 0, 0, 0, 0, 0] = 1"
  using fe_isnegative_iff [OF fe_within_mono [OF fe_small [of "- 1"]]]
    fe_isnegative_iff [OF fe_within_mono [OF fe_small [of 5]]]
  by (simp add: fe_small_val p25519_def)

lemma fe_isnonzero_ok:
  assumes "fe_within 220 f"
  shows "fe_isnonzero f = (if fe_val f mod p25519 = 0 then 0 else 1)"
proof -
  have "le_val (fe_tobytes f) = 0 \<longleftrightarrow> fe_val f mod p25519 = 0"
    using fe_tobytes_ok [OF assms] by (metis of_nat_0_eq_iff)
  then show ?thesis
    unfolding fe_isnonzero_def
    using sc_isnonzero_or [of "fe_tobytes f"] fe_tobytes_ok [OF assms] by simp
qed

theorem fe_isnonzero_iff:
  assumes "fe_within 220 f"
  shows "fe_isnonzero f = (if fe_val f mod p25519 = 0 then 0 else 1)"
  using assms by (rule fe_isnonzero_ok)

theorem fe_isnonzero_iff_witness:
  "fe_isnonzero [0, 0, 0, 0, 0, 0, 0, 0, 0, 0] = 0 \<and> fe_isnonzero [5, 0, 0, 0, 0, 0, 0, 0, 0, 0] = 1"
  using fe_isnonzero_iff [OF fe_within_mono [OF fe_small [of 0]]]
    fe_isnonzero_iff [OF fe_within_mono [OF fe_small [of 5]]]
  by (simp add: fe_small_val p25519_def)

section \<open>Inversion\<close>

text \<open>\<open>fe_pow z k f\<close>: the element \<open>f\<close> is reduced and denotes the power \<open>z^k\<close>.\<close>

definition fe_pow :: "fe \<Rightarrow> nat \<Rightarrow> fe \<Rightarrow> bool" where
  "fe_pow z k f \<longleftrightarrow> fe_within 330 f \<and> fe_val f mod p25519 = fe_val z ^ k mod p25519"

lemma fe_pow_mul:
  assumes "fe_pow z a f" and "fe_pow z b g"
  shows "fe_pow z (a + b) (fe_mul f g)"
proof -
  have "fe_within 101 (fe_mul f g) \<and> fe_val (fe_mul f g) mod p25519 = fe_val f * fe_val g mod p25519"
    using assms by (intro fe_mul_ok(1)) (auto simp: fe_pow_def)
  moreover have "fe_val f * fe_val g mod p25519 = fe_val z ^ a * fe_val z ^ b mod p25519"
    using assms by (intro mod_mult_cong) (auto simp: fe_pow_def)
  ultimately show ?thesis
    by (auto simp: fe_pow_def power_add intro: fe_within_mono)
qed

lemma fe_pow_sq:
  assumes "fe_pow z a f"
  shows "fe_pow z (2 * a) (fe_sq f)"
proof -
  have "fe_within 101 (fe_sq f) \<and> fe_val (fe_sq f) mod p25519 = fe_val f ^ 2 mod p25519"
    using assms by (intro fe_sq_ok) (auto simp: fe_pow_def)
  moreover have "fe_val f * fe_val f mod p25519 = fe_val z ^ a * fe_val z ^ a mod p25519"
    using assms by (intro mod_mult_cong) (auto simp: fe_pow_def)
  ultimately show ?thesis
    by (auto simp: fe_pow_def power_add mult_2 power2_eq_square intro: fe_within_mono)
qed

lemma fe_pow_sq_iter: "fe_pow z a f \<Longrightarrow> fe_pow z (2 ^ n * a) ((fe_sq ^^ n) f)"
proof (induction n)
  case (Suc n)
  then show ?case using fe_pow_sq [of z "2 ^ n * a"] by (simp add: mult.assoc)
qed simp


lemma fe_pow_self: "fe_within 330 z \<Longrightarrow> fe_pow z 1 z"
  by (simp add: fe_pow_def)

lemmas fe_pow_steps = fe_pow_mul fe_pow_sq fe_pow_sq_iter

lemma fe_invert_ok:
  assumes "fe_within 330 z"
  shows "fe_within 101 (fe_invert z) \<and> fe_val (fe_invert z) mod p25519 = fe_val z ^ nat (p25519 - 2) mod p25519"
proof -
  note z = fe_pow_self [OF assms]
  define t0 where "t0 = fe_sq z"
  have t0: "fe_pow z 2 t0" using fe_pow_sq [OF z] by (simp add: t0_def)
  define t1 where "t1 = fe_mul z (fe_sq (fe_sq t0))"
  have t1: "fe_pow z 9 t1" using fe_pow_mul [OF z fe_pow_sq [OF fe_pow_sq [OF t0]]] by (simp add: t1_def)
  define u0 where "u0 = fe_mul t0 t1"
  have u0: "fe_pow z 11 u0" using fe_pow_mul [OF t0 t1] by (simp add: u0_def)
  define u1 where "u1 = fe_mul t1 (fe_sq u0)"
  have u1: "fe_pow z (2 ^ 5 - 1) u1" using fe_pow_mul [OF t1 fe_pow_sq [OF u0]] by (simp add: u1_def)
  define v1 where "v1 = fe_mul ((fe_sq ^^ 4) (fe_sq u1)) u1"
  have v1: "fe_pow z (2 ^ 10 - 1) v1" using fe_pow_mul [OF fe_pow_sq_iter [OF fe_pow_sq [OF u1], of 4] u1] by (simp add: v1_def)
  define v2 where "v2 = fe_mul ((fe_sq ^^ 9) (fe_sq v1)) v1"
  have v2: "fe_pow z (2 ^ 20 - 1) v2" using fe_pow_mul [OF fe_pow_sq_iter [OF fe_pow_sq [OF v1], of 9] v1] by (simp add: v2_def)
  define w2 where "w2 = fe_mul ((fe_sq ^^ 19) (fe_sq v2)) v2"
  have w2: "fe_pow z (2 ^ 40 - 1) w2" using fe_pow_mul [OF fe_pow_sq_iter [OF fe_pow_sq [OF v2], of 19] v2] by (simp add: w2_def)
  define w1 where "w1 = fe_mul ((fe_sq ^^ 9) (fe_sq w2)) v1"
  have w1: "fe_pow z (2 ^ 50 - 1) w1" using fe_pow_mul [OF fe_pow_sq_iter [OF fe_pow_sq [OF w2], of 9] v1] by (simp add: w1_def)
  define x2 where "x2 = fe_mul ((fe_sq ^^ 49) (fe_sq w1)) w1"
  have x2: "fe_pow z (2 ^ 100 - 1) x2" using fe_pow_mul [OF fe_pow_sq_iter [OF fe_pow_sq [OF w1], of 49] w1] by (simp add: x2_def)
  define y2 where "y2 = fe_mul ((fe_sq ^^ 99) (fe_sq x2)) x2"
  have y2: "fe_pow z (2 ^ 200 - 1) y2" using fe_pow_mul [OF fe_pow_sq_iter [OF fe_pow_sq [OF x2], of 99] x2] by (simp add: y2_def)
  define y1 where "y1 = fe_mul ((fe_sq ^^ 49) (fe_sq y2)) w1"
  have y1: "fe_pow z (2 ^ 250 - 1) y1" using fe_pow_mul [OF fe_pow_sq_iter [OF fe_pow_sq [OF y2], of 49] w1] by (simp add: y1_def)
  define e where "e = (fe_sq ^^ 4) (fe_sq y1)"
  have e: "fe_pow z (2 ^ 255 - 2 ^ 5) e" using fe_pow_sq_iter [OF fe_pow_sq [OF y1], of 4] by (simp add: e_def)
  have i: "fe_invert z = fe_mul e u0"
    unfolding fe_invert_def Let_def e_def y1_def y2_def x2_def w1_def w2_def v2_def v1_def u1_def u0_def t1_def t0_def ..
  have "fe_pow z (2 ^ 255 - 21) (fe_invert z)"
    unfolding i using fe_pow_mul [OF e u0] by simp
  moreover have "fe_within 101 (fe_invert z)"
    unfolding i using fe_mul_ok(1) [of e u0] e u0 by (simp add: fe_pow_def)
  ultimately show ?thesis by (simp add: fe_pow_def p25519_def)
qed

theorem fe_invert_pow:
  assumes "fe_within 330 z"
  shows "fe_within 101 (fe_invert z) \<and> fe_val (fe_invert z) mod p25519 = fe_val z ^ nat (p25519 - 2) mod p25519"
  using assms by (rule fe_invert_ok)

theorem fe_invert_pow_witness:
  "fe_within 101 (fe_invert [2, 0, 0, 0, 0, 0, 0, 0, 0, 0]) \<and>
   fe_val (fe_invert [2, 0, 0, 0, 0, 0, 0, 0, 0, 0]) mod p25519 = 2 ^ nat (p25519 - 2) mod p25519"
  using fe_invert_pow [OF fe_small_330 [of 2]] by (simp add: fe_small_val)

end
