(* ===== verification/Curve.thy ===== *)
theory Curve
  imports FieldBytes "HOL-Library.Numeral_Type"
begin

text \<open>
  The twisted Edwards curve \<open>- x^2 + y^2 = 1 + d x^2 y^2\<close> over the integers modulo \<open>2^255 - 19\<close>, in the
  projective coordinates the group operations of \<open>src/crypto/crypto-ops.c\<close> use. The residues are the
  ring \<open>fp\<close>, a numeral type; \<open>fpv\<close> is the residue an element of type \<open>fe\<close> denotes. The formulas are the
  unified addition and the dedicated doubling in extended coordinates; the lemmas show
  that they stay on the curve and that doubling is the addition of a point to itself.
\<close>

section \<open>Residues\<close>

type_synonym fp = "57896044618658097711785492504343953926634992332820282019728792003956564819949"

lemma card_fp: "int CARD(fp) = p25519"
  by (simp add: p25519_def)

lemma of_int_fp_eq: "(of_int x :: fp) = of_int y \<longleftrightarrow> x mod p25519 = y mod p25519"
proof -
  have "(of_int x :: fp) = of_int y \<longleftrightarrow> x mod int CARD(fp) = y mod int CARD(fp)"
    by (metis bit1.Rep_Abs_mod bit1.of_int_eq)
  then show ?thesis unfolding card_fp .
qed

definition fpv :: "fe \<Rightarrow> fp" where
  "fpv f = of_int (fe_val f)"

lemma fpv_eq_iff: "fpv f = fpv g \<longleftrightarrow> fe_val f mod p25519 = fe_val g mod p25519"
  by (simp add: fpv_def of_int_fp_eq)

named_theorems fe_ops \<open>value and bounds of the field operations\<close>

lemma fpv_mul [fe_ops]:
  assumes "fe_within 330 f" and "fe_within 330 g"
  shows "fe_within 101 (fe_mul f g)" and "fpv (fe_mul f g) = fpv f * fpv g"
  using fe_mul_ok(1) [OF assms] unfolding fpv_def of_int_mult [symmetric] of_int_fp_eq by auto

lemma fpv_sq [fe_ops]:
  assumes "fe_within 330 f"
  shows "fe_within 101 (fe_sq f)" and "fpv (fe_sq f) = fpv f ^ 2"
  using fe_sq_ok [OF assms] unfolding fpv_def of_int_power [symmetric] of_int_fp_eq by auto

lemma fpv_sq2 [fe_ops]:
  assumes "fe_within 330 f"
  shows "fe_within 101 (fe_sq2 f)" and "fpv (fe_sq2 f) = 2 * fpv f ^ 2"
proof -
  show "fe_within 101 (fe_sq2 f)" using fe_sq2_ok [OF assms] by blast
  have "fpv (fe_sq2 f) = of_int (2 * fe_val f ^ 2)"
    using fe_sq2_ok [OF assms] unfolding fpv_def of_int_fp_eq by blast
  then show "fpv (fe_sq2 f) = 2 * fpv f ^ 2" by (simp add: fpv_def)
qed

lemma fpv_add:
  assumes "fe_within a f" and "fe_within b g" and "a + b \<le> 6000"
  shows "fe_within (a + b) (fe_add f g)" and "fpv (fe_add f g) = fpv f + fpv g"
  using fe_add_ok [OF assms] by (auto simp: fpv_def)

lemma fpv_sub:
  assumes "fe_within a f" and "fe_within b g" and "a + b \<le> 6000"
  shows "fe_within (a + b) (fe_sub f g)" and "fpv (fe_sub f g) = fpv f - fpv g"
  using fe_sub_ok [OF assms] by (auto simp: fpv_def)

lemma fpv_neg:
  assumes "fe_within a f" and "a \<le> 6000"
  shows "fe_within a (fe_neg f)" and "fpv (fe_neg f) = - fpv f"
  using fe_neg_ok [OF assms] by (auto simp: fpv_def)

section \<open>The curve\<close>

type_synonym 'a ext = "'a \<times> 'a \<times> 'a \<times> 'a"

text \<open>Extended coordinates \<open>(X, Y, Z, T)\<close> with \<open>x = X / Z\<close>, \<open>y = Y / Z\<close> and \<open>x y = T / Z\<close>.\<close>

fun on_curve :: "'a :: comm_ring_1 \<Rightarrow> 'a ext \<Rightarrow> bool" where
  "on_curve d (X, Y, Z, T) \<longleftrightarrow> Z * T = X * Y \<and> Y ^ 2 - X ^ 2 = Z ^ 2 + d * T ^ 2"

text \<open>Projective coordinates, without \<open>T\<close>.\<close>

fun on_curve_p2 :: "'a :: comm_ring_1 \<Rightarrow> 'a \<times> 'a \<times> 'a \<Rightarrow> bool" where
  "on_curve_p2 d (X, Y, Z) \<longleftrightarrow> (Y ^ 2 - X ^ 2) * Z ^ 2 = Z ^ 4 + d * X ^ 2 * Y ^ 2"

text \<open>A completed point \<open>((E : G), (H : F))\<close>, and the extended point it stands for.\<close>

fun completed :: "'a :: comm_ring_1 ext \<Rightarrow> 'a ext" where
  "completed (E, H, G, F) = (E * F, H * G, G * F, E * H)"

fun ed_add :: "'a :: comm_ring_1 \<Rightarrow> 'a ext \<Rightarrow> 'a ext \<Rightarrow> 'a ext" where
  "ed_add d (X1, Y1, Z1, T1) (X2, Y2, Z2, T2) =
    (let A = (Y1 - X1) * (Y2 - X2); B = (Y1 + X1) * (Y2 + X2); C = 2 * d * T1 * T2; D = 2 * Z1 * Z2
     in (B - A, B + A, D + C, D - C))"

fun ed_dbl :: "'a :: comm_ring_1 \<times> 'a \<times> 'a \<Rightarrow> 'a ext" where
  "ed_dbl (X, Y, Z) = (2 * X * Y, Y ^ 2 + X ^ 2, Y ^ 2 - X ^ 2, 2 * Z ^ 2 - (Y ^ 2 - X ^ 2))"

fun ed_neg :: "'a :: comm_ring_1 ext \<Rightarrow> 'a ext" where
  "ed_neg (X, Y, Z, T) = (- X, Y, Z, - T)"

lemma on_curve_neg: "on_curve d P \<Longrightarrow> on_curve d (ed_neg P)"
  by (cases P) simp

lemma on_curve_to_p2: "on_curve d (X, Y, Z, T) \<Longrightarrow> on_curve_p2 d (X, Y, Z)"
proof -
  assume c: "on_curve d (X, Y, Z, T)"
  have "(Y ^ 2 - X ^ 2) * Z ^ 2 = (Z ^ 2 + d * T ^ 2) * Z ^ 2" using c by simp
  also have "\<dots> = Z ^ 4 + d * (Z * T) ^ 2" by (simp add: algebra_simps power2_eq_square power4_eq_xxxx)
  also have "\<dots> = Z ^ 4 + d * X ^ 2 * Y ^ 2" using c by (simp add: power_mult_distrib mult.assoc)
  finally show ?thesis by simp
qed

text \<open>The sum of two points of the curve is on the curve.\<close>

lemma edwards_sum_identity:
  fixes X1 :: "'a :: comm_ring_1"
  assumes s1: "Z1 * T1 = X1 * Y1" and c1: "Y1 ^ 2 - X1 ^ 2 = Z1 ^ 2 + d * T1 ^ 2"
    and s2: "Z2 * T2 = X2 * Y2" and c2: "Y2 ^ 2 - X2 ^ 2 = Z2 ^ 2 + d * T2 ^ 2"
  defines "e \<equiv> X1 * Y2 + X2 * Y1" and "h \<equiv> Y1 * Y2 + X1 * X2"
    and "a \<equiv> Z1 * Z2" and "b \<equiv> d * T1 * T2"
  shows "(a + b) ^ 2 * h ^ 2 - e ^ 2 * (a - b) ^ 2 = (a - b) ^ 2 * (a + b) ^ 2 + d * e ^ 2 * h ^ 2"
proof -
  define m where "m = d * (Z1 ^ 2 * T2 ^ 2 + Z2 ^ 2 * T1 ^ 2)"
  define U1 where "U1 = Y1 ^ 2 + X1 ^ 2"
  define U2 where "U2 = Y2 ^ 2 + X2 ^ 2"
  let ?S1 = "X1 * Y1" and ?S2 = "X2 * Y2"
  have "h ^ 2 - e ^ 2 = (Y1 ^ 2 - X1 ^ 2) * (Y2 ^ 2 - X2 ^ 2)"
    by (simp add: e_def h_def power2_eq_square algebra_simps)
  also have "\<dots> = a ^ 2 + b ^ 2 + m"
    unfolding c1 c2 by (simp add: a_def b_def m_def power2_eq_square algebra_simps)
  finally have he: "h ^ 2 - e ^ 2 = a ^ 2 + b ^ 2 + m" .
  have sum: "h ^ 2 + e ^ 2 = U1 * U2 + 4 * (?S1 * ?S2)"
    by (simp add: e_def h_def U1_def U2_def power2_eq_square algebra_simps)
  have prod: "e * h = ?S1 * U2 + ?S2 * U1"
    by (simp add: e_def h_def U1_def U2_def power2_eq_square algebra_simps)
  have ab: "a * b = d * (?S1 * ?S2)"
    unfolding s1 [symmetric] s2 [symmetric] by (simp add: a_def b_def algebra_simps)
  have u1: "U1 ^ 2 = (Z1 ^ 2 + d * T1 ^ 2) ^ 2 + 4 * ?S1 ^ 2"
    unfolding c1 [symmetric] by (simp add: U1_def power2_eq_square algebra_simps)
  have u2: "U2 ^ 2 = (Z2 ^ 2 + d * T2 ^ 2) ^ 2 + 4 * ?S2 ^ 2"
    unfolding c2 [symmetric] by (simp add: U2_def power2_eq_square algebra_simps)
  have "d * (?S1 ^ 2 * U2 ^ 2 + ?S2 ^ 2 * U1 ^ 2) = 8 * (a * b) * (?S1 * ?S2)
      + (d * ?S1 ^ 2 * (Z2 ^ 2 + d * T2 ^ 2) ^ 2 + d * ?S2 ^ 2 * (Z1 ^ 2 + d * T1 ^ 2) ^ 2)"
    unfolding u1 u2 ab by (simp add: power2_eq_square algebra_simps)
  also have "d * ?S1 ^ 2 * (Z2 ^ 2 + d * T2 ^ 2) ^ 2 + d * ?S2 ^ 2 * (Z1 ^ 2 + d * T1 ^ 2) ^ 2
      = 4 * (a ^ 2 * b ^ 2) + (a ^ 2 + b ^ 2) * m"
    unfolding s1 [symmetric] s2 [symmetric] by (simp add: a_def b_def m_def power2_eq_square algebra_simps)
  finally have rest: "d * (?S1 ^ 2 * U2 ^ 2 + ?S2 ^ 2 * U1 ^ 2)
      = 8 * (a * b) * (?S1 * ?S2) + (4 * (a ^ 2 * b ^ 2) + (a ^ 2 + b ^ 2) * m)" .
  have "d * e ^ 2 * h ^ 2 = d * (e * h) ^ 2" by (simp add: power_mult_distrib mult.assoc)
  also have "\<dots> = 2 * (d * (?S1 * ?S2)) * (U1 * U2) + d * (?S1 ^ 2 * U2 ^ 2 + ?S2 ^ 2 * U1 ^ 2)"
    unfolding prod by (simp add: power2_eq_square algebra_simps)
  also have "\<dots> = 2 * (a * b) * (U1 * U2 + 4 * (?S1 * ?S2)) + 4 * (a ^ 2 * b ^ 2) + (a ^ 2 + b ^ 2) * m"
    unfolding rest ab [symmetric] by (simp add: algebra_simps)
  also have "\<dots> = 2 * (a * b) * (h ^ 2 + e ^ 2) + 4 * (a ^ 2 * b ^ 2) + (a ^ 2 + b ^ 2) * (h ^ 2 - e ^ 2 - a ^ 2 - b ^ 2)"
    unfolding sum [symmetric] he by (simp add: algebra_simps)
  finally show ?thesis by (simp add: power2_eq_square algebra_simps)
qed

lemma on_curve_completed:
  "on_curve d (completed (E, H, G, F)) \<longleftrightarrow> H ^ 2 * G ^ 2 - E ^ 2 * F ^ 2 = G ^ 2 * F ^ 2 + d * E ^ 2 * H ^ 2"
  by (simp add: power_mult_distrib mult.assoc mult.commute mult.left_commute)

lemma on_curve_add:
  assumes "on_curve d P" and "on_curve d Q"
  shows "on_curve d (completed (ed_add d P Q))"
proof -
  obtain X1 Y1 Z1 T1 X2 Y2 Z2 T2 where PQ: "P = (X1, Y1, Z1, T1)" "Q = (X2, Y2, Z2, T2)" by (metis prod_cases4)
  define e where "e = X1 * Y2 + X2 * Y1"
  define h where "h = Y1 * Y2 + X1 * X2"
  define a where "a = Z1 * Z2"
  define b where "b = d * T1 * T2"
  have sum: "ed_add d P Q = (2 * e, 2 * h, 2 * (a + b), 2 * (a - b))"
    by (simp add: PQ e_def h_def a_def b_def Let_def algebra_simps)
  have "(a + b) ^ 2 * h ^ 2 - e ^ 2 * (a - b) ^ 2 = (a - b) ^ 2 * (a + b) ^ 2 + d * e ^ 2 * h ^ 2"
    using edwards_sum_identity [of Z1 T1 X1 Y1 d Z2 T2 X2 Y2] assms by (simp add: PQ e_def h_def a_def b_def)
  then have "16 * ((a + b) ^ 2 * h ^ 2 - e ^ 2 * (a - b) ^ 2) = 16 * ((a - b) ^ 2 * (a + b) ^ 2 + d * e ^ 2 * h ^ 2)"
    by simp
  then show ?thesis unfolding sum by (simp add: power2_eq_square algebra_simps)
qed

lemma on_curve_dbl:
  assumes "on_curve_p2 d P"
  shows "on_curve d (completed (ed_dbl P))"
proof -
  obtain X Y Z where P: "P = (X, Y, Z)" by (metis prod_cases3)
  define G where "G = Y ^ 2 - X ^ 2"
  define H where "H = Y ^ 2 + X ^ 2"
  have c: "G * Z ^ 2 - Z ^ 4 = d * X ^ 2 * Y ^ 2" using assms by (simp add: P G_def)
  have E: "(2 * X * Y) ^ 2 = H ^ 2 - G ^ 2" by (simp add: H_def G_def power2_eq_square algebra_simps)
  have "H ^ 2 * G ^ 2 - (2 * X * Y) ^ 2 * (2 * Z ^ 2 - G) ^ 2 - G ^ 2 * (2 * Z ^ 2 - G) ^ 2 = 4 * H ^ 2 * (G * Z ^ 2 - Z ^ 4)"
    unfolding E by (simp add: power2_eq_square power4_eq_xxxx algebra_simps)
  also have "\<dots> = d * (2 * X * Y) ^ 2 * H ^ 2" unfolding c by (simp add: power2_eq_square algebra_simps)
  finally have "H ^ 2 * G ^ 2 - (2 * X * Y) ^ 2 * (2 * Z ^ 2 - G) ^ 2 = G ^ 2 * (2 * Z ^ 2 - G) ^ 2 + d * (2 * X * Y) ^ 2 * H ^ 2"
    by (simp add: algebra_simps)
  then show ?thesis by (simp only: P ed_dbl.simps G_def [symmetric] H_def [symmetric] on_curve_completed)
qed

text \<open>On the curve, doubling gives the completed point of the unified addition, up to the scalar 2.\<close>

fun ext_scale :: "'a :: comm_ring_1 \<Rightarrow> 'a ext \<Rightarrow> 'a ext" where
  "ext_scale c (X, Y, Z, T) = (c * X, c * Y, c * Z, c * T)"

lemma ed_dbl_add:
  assumes "on_curve d (X, Y, Z, T)"
  shows "ed_add d (X, Y, Z, T) (X, Y, Z, T) = ext_scale 2 (ed_dbl (X, Y, Z))"
proof -
  have c: "Y ^ 2 - X ^ 2 = Z ^ 2 + d * T ^ 2" using assms by simp
  show ?thesis unfolding ed_dbl.simps c by (simp add: Let_def power2_eq_square algebra_simps)
qed

text \<open>The neutral element.\<close>

lemma on_curve_zero: "on_curve d (0, 1, 1, 0)" "on_curve_p2 d (0, 1, 1)"
  by simp_all

lemma completed_p2: "on_curve d (completed (E, H, G, F)) \<Longrightarrow> on_curve_p2 d (E * F, H * G, G * F)"
  using on_curve_to_p2 [of d "E * F" "H * G" "G * F" "E * H"] by simp

end
