(* ===== verification/Group.thy ===== *)
theory Group
  imports Curve
begin

text \<open>
  The group operations of \<open>src/crypto/crypto-ops.c\<close> on their five representations of a point, over the
  field elements of \<open>Field\<close>. For each operation: the limbs of its result are within the bounds the
  next operation needs, so that no limb overflows, and its value is the corresponding formula on the curve.
\<close>

section \<open>Definitions\<close>

record ge_p2 =
  p2_X :: fe
  p2_Y :: fe
  p2_Z :: fe

record ge_p3 =
  p3_X :: fe
  p3_Y :: fe
  p3_Z :: fe
  p3_T :: fe

record ge_p1p1 =
  p1_X :: fe
  p1_Y :: fe
  p1_Z :: fe
  p1_T :: fe

record ge_precomp =
  yplusx :: fe
  yminusx :: fe
  xy2d :: fe

record ge_cached =
  YplusX :: fe
  YminusX :: fe
  c_Z :: fe
  T2d :: fe

definition fe_d :: fe where
  "fe_d = [-10913610, 13857413, -15372611, 6949391, 114729, -8787816, -6275908, -3247719, -18696448, -12055116]"

definition fe_sqrtm1 :: fe where
  "fe_sqrtm1 = [-32595792, -7943725, 9377950, 3500415, 12389472, -272473, -25146209, -2005654, 326686, 11406482]"

definition fe_d2 :: fe where
  "fe_d2 = [-21827239, -5839606, -30745221, 13898782, 229458, 15978800, -12551817, -6495438, 29715968, 9444199]"

definition ge_add :: "ge_p3 \<Rightarrow> ge_cached \<Rightarrow> ge_p1p1" where
  "ge_add p q =
    (let rX = fe_add (p3_Y p) (p3_X p);
         rY = fe_sub (p3_Y p) (p3_X p);
         rZ = fe_mul rX (YplusX q);
         rY = fe_mul rY (YminusX q);
         rT = fe_mul (T2d q) (p3_T p);
         rX = fe_mul (p3_Z p) (c_Z q);
         t0 = fe_add rX rX;
         rX = fe_sub rZ rY;
         rY = fe_add rZ rY;
         rZ = fe_add t0 rT;
         rT = fe_sub t0 rT
     in \<lparr>p1_X = rX, p1_Y = rY, p1_Z = rZ, p1_T = rT\<rparr>)"

definition ge_madd :: "ge_p3 \<Rightarrow> ge_precomp \<Rightarrow> ge_p1p1" where
  "ge_madd p q =
    (let rX = fe_add (p3_Y p) (p3_X p);
         rY = fe_sub (p3_Y p) (p3_X p);
         rZ = fe_mul rX (yplusx q);
         rY = fe_mul rY (yminusx q);
         rT = fe_mul (xy2d q) (p3_T p);
         t0 = fe_add (p3_Z p) (p3_Z p);
         rX = fe_sub rZ rY;
         rY = fe_add rZ rY;
         rZ = fe_add t0 rT;
         rT = fe_sub t0 rT
     in \<lparr>p1_X = rX, p1_Y = rY, p1_Z = rZ, p1_T = rT\<rparr>)"

definition ge_msub :: "ge_p3 \<Rightarrow> ge_precomp \<Rightarrow> ge_p1p1" where
  "ge_msub p q =
    (let rX = fe_add (p3_Y p) (p3_X p);
         rY = fe_sub (p3_Y p) (p3_X p);
         rZ = fe_mul rX (yminusx q);
         rY = fe_mul rY (yplusx q);
         rT = fe_mul (xy2d q) (p3_T p);
         t0 = fe_add (p3_Z p) (p3_Z p);
         rX = fe_sub rZ rY;
         rY = fe_add rZ rY;
         rZ = fe_sub t0 rT;
         rT = fe_add t0 rT
     in \<lparr>p1_X = rX, p1_Y = rY, p1_Z = rZ, p1_T = rT\<rparr>)"

definition ge_p1p1_to_p2 :: "ge_p1p1 \<Rightarrow> ge_p2" where
  "ge_p1p1_to_p2 p =
    \<lparr>p2_X = fe_mul (p1_X p) (p1_T p), p2_Y = fe_mul (p1_Y p) (p1_Z p), p2_Z = fe_mul (p1_Z p) (p1_T p)\<rparr>"

definition ge_p1p1_to_p3 :: "ge_p1p1 \<Rightarrow> ge_p3" where
  "ge_p1p1_to_p3 p =
    \<lparr>p3_X = fe_mul (p1_X p) (p1_T p), p3_Y = fe_mul (p1_Y p) (p1_Z p), p3_Z = fe_mul (p1_Z p) (p1_T p),
     p3_T = fe_mul (p1_X p) (p1_Y p)\<rparr>"

definition ge_p2_0 :: ge_p2 where
  "ge_p2_0 = \<lparr>p2_X = fe_0, p2_Y = fe_1, p2_Z = fe_1\<rparr>"

definition ge_p2_dbl :: "ge_p2 \<Rightarrow> ge_p1p1" where
  "ge_p2_dbl p =
    (let rX = fe_sq (p2_X p);
         rZ = fe_sq (p2_Y p);
         rT = fe_sq2 (p2_Z p);
         rY = fe_add (p2_X p) (p2_Y p);
         t0 = fe_sq rY;
         rY = fe_add rZ rX;
         rZ = fe_sub rZ rX;
         rX = fe_sub t0 rY;
         rT = fe_sub rT rZ
     in \<lparr>p1_X = rX, p1_Y = rY, p1_Z = rZ, p1_T = rT\<rparr>)"

definition ge_p3_0 :: ge_p3 where
  "ge_p3_0 = \<lparr>p3_X = fe_0, p3_Y = fe_1, p3_Z = fe_1, p3_T = fe_0\<rparr>"

definition ge_p3_to_p2 :: "ge_p3 \<Rightarrow> ge_p2" where
  "ge_p3_to_p2 p = \<lparr>p2_X = fe_copy (p3_X p), p2_Y = fe_copy (p3_Y p), p2_Z = fe_copy (p3_Z p)\<rparr>"

definition ge_p3_dbl :: "ge_p3 \<Rightarrow> ge_p1p1" where
  "ge_p3_dbl p = ge_p2_dbl (ge_p3_to_p2 p)"

definition ge_p3_to_cached :: "ge_p3 \<Rightarrow> ge_cached" where
  "ge_p3_to_cached p =
    \<lparr>YplusX = fe_add (p3_Y p) (p3_X p), YminusX = fe_sub (p3_Y p) (p3_X p), c_Z = fe_copy (p3_Z p),
     T2d = fe_mul (p3_T p) fe_d2\<rparr>"

definition ge_precomp_0 :: ge_precomp where
  "ge_precomp_0 = \<lparr>yplusx = fe_1, yminusx = fe_1, xy2d = fe_0\<rparr>"

definition ge_cached_0 :: ge_cached where
  "ge_cached_0 = \<lparr>YplusX = fe_1, YminusX = fe_1, c_Z = fe_1, T2d = fe_0\<rparr>"

definition ge_sub :: "ge_p3 \<Rightarrow> ge_cached \<Rightarrow> ge_p1p1" where
  "ge_sub p q =
    (let rX = fe_add (p3_Y p) (p3_X p);
         rY = fe_sub (p3_Y p) (p3_X p);
         rZ = fe_mul rX (YminusX q);
         rY = fe_mul rY (YplusX q);
         rT = fe_mul (T2d q) (p3_T p);
         rX = fe_mul (p3_Z p) (c_Z q);
         t0 = fe_add rX rX;
         rX = fe_sub rZ rY;
         rY = fe_add rZ rY;
         rZ = fe_sub t0 rT;
         rT = fe_add t0 rT
     in \<lparr>p1_X = rX, p1_Y = rY, p1_Z = rZ, p1_T = rT\<rparr>)"

definition ge_mul8 :: "ge_p2 \<Rightarrow> ge_p1p1" where
  "ge_mul8 t =
    (let r = ge_p2_dbl t;
         u = ge_p1p1_to_p2 r;
         r = ge_p2_dbl u;
         u = ge_p1p1_to_p2 r
     in ge_p2_dbl u)"

definition ge_dsm_precomp :: "ge_p3 \<Rightarrow> ge_cached list" where
  "ge_dsm_precomp s =
    (let r0 = ge_p3_to_cached s;
         t = ge_p3_dbl s; s2 = ge_p1p1_to_p3 t;
         next = (\<lambda>r. ge_p3_to_cached (ge_p1p1_to_p3 (ge_add s2 r)));
         r1 = next r0; r2 = next r1; r3 = next r2; r4 = next r3; r5 = next r4; r6 = next r5; r7 = next r6
     in [r0, r1, r2, r3, r4, r5, r6, r7])"

section \<open>What the representations stand for\<close>

definition curve_d :: fp where
  "curve_d = fpv fe_d"

definition p3_ext :: "ge_p3 \<Rightarrow> fp ext" where
  "p3_ext p = (fpv (p3_X p), fpv (p3_Y p), fpv (p3_Z p), fpv (p3_T p))"

definition p2_proj :: "ge_p2 \<Rightarrow> fp \<times> fp \<times> fp" where
  "p2_proj p = (fpv (p2_X p), fpv (p2_Y p), fpv (p2_Z p))"

definition p1_ext :: "ge_p1p1 \<Rightarrow> fp ext" where
  "p1_ext p = (fpv (p1_X p), fpv (p1_Y p), fpv (p1_Z p), fpv (p1_T p))"

definition p3_ok :: "ge_p3 \<Rightarrow> bool" where
  "p3_ok p \<longleftrightarrow> fe_within 101 (p3_X p) \<and> fe_within 101 (p3_Y p) \<and> fe_within 101 (p3_Z p) \<and> fe_within 101 (p3_T p)"

definition p2_ok :: "ge_p2 \<Rightarrow> bool" where
  "p2_ok p \<longleftrightarrow> fe_within 101 (p2_X p) \<and> fe_within 101 (p2_Y p) \<and> fe_within 101 (p2_Z p)"

definition p1_ok :: "ge_p1p1 \<Rightarrow> bool" where
  "p1_ok p \<longleftrightarrow> fe_within 330 (p1_X p) \<and> fe_within 330 (p1_Y p) \<and> fe_within 330 (p1_Z p) \<and> fe_within 330 (p1_T p)"

text \<open>A cached point and the extended point it was computed from.\<close>

fun cached_rep :: "ge_cached \<Rightarrow> fp ext \<Rightarrow> bool" where
  "cached_rep q (X, Y, Z, T) \<longleftrightarrow> fe_within 202 (YplusX q) \<and> fe_within 202 (YminusX q) \<and> fe_within 101 (c_Z q)
     \<and> fe_within 101 (T2d q) \<and> fpv (YplusX q) = Y + X \<and> fpv (YminusX q) = Y - X \<and> fpv (c_Z q) = Z
     \<and> fpv (T2d q) = 2 * curve_d * T"

fun precomp_rep :: "ge_precomp \<Rightarrow> fp ext \<Rightarrow> bool" where
  "precomp_rep q (X, Y, Z, T) \<longleftrightarrow> fe_within 101 (yplusx q) \<and> fe_within 101 (yminusx q) \<and> fe_within 101 (xy2d q)
     \<and> fpv (yplusx q) = Y + X \<and> fpv (yminusx q) = Y - X \<and> Z = 1 \<and> fpv (xy2d q) = 2 * curve_d * T"

lemma fe_const_within:
  assumes "length f = 10" and "\<forall>i \<in> set [0..<10]. 100 * \<bar>f ! i\<bar> \<le> c * (if even i then 2 ^ 25 else 2 ^ 24)"
  shows "fe_within c f"
  using assms by (simp add: fe_within_def)

lemma fe_d_facts: "fe_within 101 fe_d" "fe_within 101 fe_d2" "fe_within 101 fe_sqrtm1"
  by (rule fe_const_within; code_simp)+

lemma fe_val_horner: "fe_val [a0, a1, a2, a3, a4, a5, a6, a7, a8, a9] =
    a0 + 2 ^ 26 * a1 + 2 ^ 51 * a2 + 2 ^ 77 * a3 + 2 ^ 102 * a4 + 2 ^ 128 * a5 + 2 ^ 153 * a6 + 2 ^ 179 * a7 + 2 ^ 204 * a8 + 2 ^ 230 * a9"
  by (simp add: fe_val_def limb_val_numeral Wfe_def)

lemma fe_d_value: "121666 * curve_d = - 121665"
proof -
  have "(of_int (121666 * fe_val fe_d) :: fp) = of_int (- 121665)"
    unfolding of_int_fp_eq fe_d_def fe_val_horner p25519_def by simp
  then show ?thesis by (simp add: curve_d_def fpv_def)
qed

lemma fe_d2_value: "fpv fe_d2 = 2 * curve_d"
proof -
  have "(of_int (fe_val fe_d2) :: fp) = of_int (2 * fe_val fe_d)"
    unfolding of_int_fp_eq fe_d_def fe_d2_def fe_val_horner p25519_def by simp
  then show ?thesis by (simp add: curve_d_def fpv_def)
qed

lemma fe_sqrtm1_value: "fpv fe_sqrtm1 ^ 2 = - 1"
proof -
  have "(of_int (fe_val fe_sqrtm1 ^ 2) :: fp) = of_int (- 1)"
    unfolding of_int_fp_eq fe_sqrtm1_def fe_val_horner p25519_def by simp
  then show ?thesis by (simp add: fpv_def)
qed

section \<open>The operations\<close>

lemma fe_within_330: "fe_within c f \<Longrightarrow> c \<le> 330 \<Longrightarrow> fe_within 330 f"
  by (rule fe_within_mono)

text \<open>The part that addition and subtraction, with a cached or a precomputed point, have in common.\<close>

lemma add_core:
  fixes p :: ge_p3 and a m t t0 :: fe
  assumes p: "p3_ok p" and bounds: "fe_within 330 a" "fe_within 330 m" "fe_within 330 t" "fe_within 202 t0"
  defines "B \<equiv> fe_mul (fe_add (p3_Y p) (p3_X p)) a" and "A \<equiv> fe_mul (fe_sub (p3_Y p) (p3_X p)) m"
    and "C \<equiv> fe_mul t (p3_T p)"
  shows "fe_within 330 (fe_sub B A)" "fe_within 330 (fe_add B A)" "fe_within 330 (fe_add t0 C)" "fe_within 330 (fe_sub t0 C)"
    and "fpv (fe_sub B A) = (fpv (p3_Y p) + fpv (p3_X p)) * fpv a - (fpv (p3_Y p) - fpv (p3_X p)) * fpv m"
    and "fpv (fe_add B A) = (fpv (p3_Y p) + fpv (p3_X p)) * fpv a + (fpv (p3_Y p) - fpv (p3_X p)) * fpv m"
    and "fpv (fe_add t0 C) = fpv t0 + fpv t * fpv (p3_T p)" and "fpv (fe_sub t0 C) = fpv t0 - fpv t * fpv (p3_T p)"
proof -
  have XY: "fe_within 101 (p3_X p)" "fe_within 101 (p3_Y p)" and T: "fe_within 330 (p3_T p)"
    using p by (auto simp: p3_ok_def intro: fe_within_330)
  note s = fpv_add [OF XY(2,1), simplified] fpv_sub [OF XY(2,1), simplified]
  note B = fpv_mul [OF fe_within_330 [OF s(1)] bounds(1), simplified, folded B_def]
  note A = fpv_mul [OF fe_within_330 [OF s(3)] bounds(2), simplified, folded A_def]
  note C = fpv_mul [OF bounds(3) T, folded C_def]
  note r = fpv_sub [OF B(1) A(1), simplified] fpv_add [OF B(1) A(1), simplified]
    fpv_add [OF bounds(4) C(1), simplified] fpv_sub [OF bounds(4) C(1), simplified]
  show "fe_within 330 (fe_sub B A)" "fe_within 330 (fe_add B A)" "fe_within 330 (fe_add t0 C)" "fe_within 330 (fe_sub t0 C)"
    using r by (auto intro: fe_within_330)
  show "fpv (fe_sub B A) = (fpv (p3_Y p) + fpv (p3_X p)) * fpv a - (fpv (p3_Y p) - fpv (p3_X p)) * fpv m"
    and "fpv (fe_add B A) = (fpv (p3_Y p) + fpv (p3_X p)) * fpv a + (fpv (p3_Y p) - fpv (p3_X p)) * fpv m"
    and "fpv (fe_add t0 C) = fpv t0 + fpv t * fpv (p3_T p)" and "fpv (fe_sub t0 C) = fpv t0 - fpv t * fpv (p3_T p)"
    using r A B C s by simp_all
qed

lemma twice_ok: "fe_within 101 f \<Longrightarrow> fe_within 202 (fe_add f f) \<and> fpv (fe_add f f) = 2 * fpv f"
  using fpv_add [of 101 f 101 f] by simp

lemma ge_add_ok:
  assumes p: "p3_ok p" and q: "cached_rep q Q"
  shows "p1_ok (ge_add p q)" and "p1_ext (ge_add p q) = ed_add curve_d (p3_ext p) Q"
    and "p1_ok (ge_sub p q)" and "p1_ext (ge_sub p q) = ed_add curve_d (p3_ext p) (ed_neg Q)"
proof -
  obtain X Y Z T where Q: "Q = (X, Y, Z, T)" by (metis prod_cases4)
  have w: "fe_within 330 (YplusX q)" "fe_within 330 (YminusX q)" "fe_within 330 (T2d q)" "fe_within 330 (c_Z q)" "fe_within 330 (p3_Z p)"
    using p q by (auto simp: Q p3_ok_def intro: fe_within_330)
  note z = fpv_mul [OF w(5,4)]
  note t0 = twice_ok [OF z(1), unfolded z(2)]
  note a = add_core [OF p w(1,2,3) conjunct1 [OF t0]] and b = add_core [OF p w(2,1,3) conjunct1 [OF t0]]
  have v: "fpv (YplusX q) = Y + X" "fpv (YminusX q) = Y - X" "fpv (c_Z q) = Z" "fpv (T2d q) = 2 * curve_d * T"
    using q by (simp_all add: Q)
  show "p1_ok (ge_add p q)" "p1_ok (ge_sub p q)" using a(1-4) b(1-4) by (simp_all add: p1_ok_def ge_add_def ge_sub_def Let_def)
  show "p1_ext (ge_add p q) = ed_add curve_d (p3_ext p) Q"
    using a(5-8) conjunct2 [OF t0] by (simp add: p1_ext_def ge_add_def p3_ext_def Let_def v Q algebra_simps)
  show "p1_ext (ge_sub p q) = ed_add curve_d (p3_ext p) (ed_neg Q)"
    using b(5-8) conjunct2 [OF t0] by (simp add: p1_ext_def ge_sub_def p3_ext_def Let_def v Q algebra_simps)
qed

lemma ge_madd_ok:
  assumes p: "p3_ok p" and q: "precomp_rep q Q"
  shows "p1_ok (ge_madd p q)" and "p1_ext (ge_madd p q) = ed_add curve_d (p3_ext p) Q"
    and "p1_ok (ge_msub p q)" and "p1_ext (ge_msub p q) = ed_add curve_d (p3_ext p) (ed_neg Q)"
proof -
  obtain X Y Z T where Q: "Q = (X, Y, Z, T)" by (metis prod_cases4)
  have w: "fe_within 330 (yplusx q)" "fe_within 330 (yminusx q)" "fe_within 330 (xy2d q)" "fe_within 101 (p3_Z p)"
    using p q by (auto simp: Q p3_ok_def intro: fe_within_330)
  note t0 = twice_ok [OF w(4)]
  note a = add_core [OF p w(1,2,3) conjunct1 [OF t0]] and b = add_core [OF p w(2,1,3) conjunct1 [OF t0]]
  have v: "fpv (yplusx q) = Y + X" "fpv (yminusx q) = Y - X" "Z = 1" "fpv (xy2d q) = 2 * curve_d * T"
    using q by (simp_all add: Q)
  show "p1_ok (ge_madd p q)" "p1_ok (ge_msub p q)" using a(1-4) b(1-4) by (simp_all add: p1_ok_def ge_madd_def ge_msub_def Let_def)
  show "p1_ext (ge_madd p q) = ed_add curve_d (p3_ext p) Q"
    using a(5-8) conjunct2 [OF t0] by (simp add: p1_ext_def ge_madd_def p3_ext_def Let_def v Q algebra_simps)
  show "p1_ext (ge_msub p q) = ed_add curve_d (p3_ext p) (ed_neg Q)"
    using b(5-8) conjunct2 [OF t0] by (simp add: p1_ext_def ge_msub_def p3_ext_def Let_def v Q algebra_simps)
qed

lemma ge_p1p1_to_p3_ok:
  assumes "p1_ok r"
  shows "p3_ok (ge_p1p1_to_p3 r)" and "p3_ext (ge_p1p1_to_p3 r) = completed (p1_ext r)"
  using assms by (simp_all add: p1_ok_def p3_ok_def p3_ext_def p1_ext_def ge_p1p1_to_p3_def fe_ops)

lemma ge_p1p1_to_p2_ok:
  assumes "p1_ok r"
  shows "p2_ok (ge_p1p1_to_p2 r)"
    and "p2_proj (ge_p1p1_to_p2 r) = (case completed (p1_ext r) of (X, Y, Z, T) \<Rightarrow> (X, Y, Z))"
  using assms by (simp_all add: p1_ok_def p2_ok_def p2_proj_def p1_ext_def ge_p1p1_to_p2_def fe_ops)

lemma ge_p2_dbl_ok:
  assumes "p2_ok p"
  shows "p1_ok (ge_p2_dbl p)" and "p1_ext (ge_p2_dbl p) = ed_dbl (p2_proj p)"
proof -
  have w: "fe_within 101 (p2_X p)" "fe_within 101 (p2_Y p)" "fe_within 330 (p2_X p)" "fe_within 330 (p2_Y p)" "fe_within 330 (p2_Z p)"
    using assms by (auto simp: p2_ok_def intro: fe_within_330)
  note x = fpv_sq [OF w(3)] and y = fpv_sq [OF w(4)] and z = fpv_sq2 [OF w(5)]
  note s = fpv_add [OF w(1,2), simplified]
  note t0 = fpv_sq [OF fe_within_330 [OF s(1)], simplified]
  note h = fpv_add [OF y(1) x(1), simplified] and g = fpv_sub [OF y(1) x(1), simplified]
  note e = fpv_sub [OF t0(1) h(1), simplified] and f = fpv_sub [OF z(1) g(1), simplified]
  show "p1_ok (ge_p2_dbl p)"
    using h(1) g(1) e(1) f(1) by (auto simp: p1_ok_def ge_p2_dbl_def Let_def intro: fe_within_330)
  show "p1_ext (ge_p2_dbl p) = ed_dbl (p2_proj p)"
    unfolding ge_p2_dbl_def p1_ext_def p2_proj_def ed_dbl.simps Let_def ge_p1p1.simps
      e(2) f(2) h(2) g(2) x(2) y(2) z(2) t0(2) s(2)
    by (simp add: power2_eq_square algebra_simps)
qed

lemma fe_copy_within: "fe_within c f \<Longrightarrow> fe_copy f = f"
  by (simp add: fe_copy_id fe_within_def)

lemma ge_p3_to_p2_ok:
  assumes "p3_ok p"
  shows "p2_ok (ge_p3_to_p2 p)" and "p2_proj (ge_p3_to_p2 p) = (case p3_ext p of (X, Y, Z, T) \<Rightarrow> (X, Y, Z))"
  using assms
  by (simp_all add: p3_ok_def p2_ok_def p2_proj_def p3_ext_def ge_p3_to_p2_def fe_copy_within [of 101])

lemma ge_p3_to_cached_ok:
  assumes "p3_ok p"
  shows "cached_rep (ge_p3_to_cached p) (p3_ext p)"
proof -
  have w: "fe_within 101 (p3_X p)" "fe_within 101 (p3_Y p)" "fe_within 330 (p3_T p)"
    using assms by (auto simp: p3_ok_def intro: fe_within_330)
  show ?thesis
    using assms fpv_add [OF w(2,1), simplified] fpv_sub [OF w(2,1), simplified]
      fpv_mul [OF w(3) fe_within_330 [OF fe_d_facts(2)], simplified]
    by (simp add: p3_ok_def p3_ext_def ge_p3_to_cached_def fe_copy_within [of 101] fe_d2_value)
qed

lemma ge_zero_ok:
  "p2_ok ge_p2_0" "p2_proj ge_p2_0 = (0, 1, 1)" "p3_ok ge_p3_0" "p3_ext ge_p3_0 = (0, 1, 1, 0)"
  "cached_rep ge_cached_0 (0, 1, 1, 0)" "precomp_rep ge_precomp_0 (0, 1, 1, 0)"
proof -
  have w: "fe_within 101 fe_0" "fe_within 101 fe_1" "fe_within 202 fe_1"
    using fe_within_mono [OF fe_within_0] fe_within_mono [OF fe_consts(3)] by simp_all
  have v: "fpv fe_0 = 0" "fpv fe_1 = 1" using fe_consts by (simp_all add: fpv_def)
  show "p2_ok ge_p2_0" "p2_proj ge_p2_0 = (0, 1, 1)" "p3_ok ge_p3_0" "p3_ext ge_p3_0 = (0, 1, 1, 0)"
    "cached_rep ge_cached_0 (0, 1, 1, 0)" "precomp_rep ge_precomp_0 (0, 1, 1, 0)"
    by (simp_all add: p2_ok_def p2_proj_def p3_ok_def p3_ext_def ge_p2_0_def ge_p3_0_def ge_cached_0_def ge_precomp_0_def w v)
qed

end
