(* ===== verification/IntUtil.thy ===== *)
theory IntUtil
  imports Prelude
begin

unbundle bit_operations_syntax

text \<open>
  \<open>src/common/int-util.h\<close>: 128-bit multiplication and division on 64-bit words, rotations and
  byte swaps. Output pointers of the C functions become components of the result.
\<close>

definition rol32 :: "u32 \<Rightarrow> nat \<Rightarrow> u32" where
  "rol32 x r = push_bit (r mod 32) x OR drop_bit ((32 - r mod 32) mod 32) x"

definition rol64 :: "u64 \<Rightarrow> nat \<Rightarrow> u64" where
  "rol64 x r = push_bit (r mod 64) x OR drop_bit ((64 - r mod 64) mod 64) x"

definition hi_dword :: "u64 \<Rightarrow> u64" where
  "hi_dword val = drop_bit 32 val"

definition lo_dword :: "u64 \<Rightarrow> u64" where
  "lo_dword val = val AND 0xFFFFFFFF"

text \<open>Result: (low word, high word).\<close>

definition mul128_manually :: "u64 \<Rightarrow> u64 \<Rightarrow> u64 \<times> u64" where
  "mul128_manually multiplier multiplicand =
    (let a = hi_dword multiplier;
         b = lo_dword multiplier;
         c = hi_dword multiplicand;
         d = lo_dword multiplicand;
         ac = a * c;
         ad = a * d;
         bc = b * c;
         bd = b * d;
         adbc = ad + bc;
         adbc_carry = (if adbc < ad then 1 else 0);
         product_lo = bd + push_bit 32 adbc;
         product_lo_carry = (if product_lo < bd then 1 else 0);
         product_hi = ac + drop_bit 32 adbc + push_bit 32 adbc_carry + product_lo_carry
     in (product_lo, product_hi))"

definition mul128 :: "u64 \<Rightarrow> u64 \<Rightarrow> u64 \<times> u64" where
  "mul128 multiplier multiplicand =
    (let product = (ucast multiplier :: u128) * ucast multiplicand;
         product_hi = ucast (drop_bit 64 product)
     in (ucast product AND NOT 0, product_hi))"

text \<open>Division by zero traps: \<open>None\<close>. Result: (quotient, remainder).\<close>

definition div_with_reminder :: "u64 \<Rightarrow> u32 \<Rightarrow> u32 \<Rightarrow> (u64 \<times> u32) option" where
  "div_with_reminder dividend0 divisor remainder =
    (let dividend = dividend0 OR push_bit 32 (ucast remainder)
     in if divisor = 0 then None
        else Some (dividend div ucast divisor, ucast (dividend mod ucast divisor)))"

text \<open>Result: (remainder, high quotient, low quotient).\<close>

definition div128_32_manually :: "u64 \<Rightarrow> u64 \<Rightarrow> u32 \<Rightarrow> (u32 \<times> u64 \<times> u64) option" where
  "div128_32_manually dividend_hi dividend_lo divisor =
    (case div_with_reminder (hi_dword dividend_hi) divisor 0 of None \<Rightarrow> None
     | Some (q3, r3) \<Rightarrow>
    (case div_with_reminder (lo_dword dividend_hi) divisor r3 of None \<Rightarrow> None
     | Some (q2, r2) \<Rightarrow>
    (case div_with_reminder (hi_dword dividend_lo) divisor r2 of None \<Rightarrow> None
     | Some (q1, r1) \<Rightarrow>
    (case div_with_reminder (lo_dword dividend_lo) divisor r1 of None \<Rightarrow> None
     | Some (q0, r0) \<Rightarrow>
       Some (r0, push_bit 32 q3 OR q2, push_bit 32 q1 OR q0)))))"

definition div128_32 :: "u64 \<Rightarrow> u64 \<Rightarrow> u32 \<Rightarrow> (u32 \<times> u64 \<times> u64) option" where
  "div128_32 dividend_hi dividend_lo divisor =
    (let dividend = push_bit 64 (ucast dividend_hi :: u128) OR ucast dividend_lo;
         quotient = dividend div ucast divisor;
         reminder = dividend mod ucast divisor
     in if divisor = 0 then None
        else Some (ucast reminder, ucast (drop_bit 64 quotient), ucast quotient AND NOT 0))"

definition SWAP32 :: "u32 \<Rightarrow> u32" where
  "SWAP32 x =
    (push_bit 24 (x AND 0x000000ff) OR push_bit 8 (x AND 0x0000ff00) OR
     drop_bit 8 (x AND 0x00ff0000) OR drop_bit 24 (x AND 0xff000000))"

definition SWAP64 :: "u64 \<Rightarrow> u64" where
  "SWAP64 x =
    (push_bit 56 (x AND 0x00000000000000ff) OR
     push_bit 40 (x AND 0x000000000000ff00) OR
     push_bit 24 (x AND 0x0000000000ff0000) OR
     push_bit 8 (x AND 0x00000000ff000000) OR
     drop_bit 8 (x AND 0x000000ff00000000) OR
     drop_bit 24 (x AND 0x0000ff0000000000) OR
     drop_bit 40 (x AND 0x00ff000000000000) OR
     drop_bit 56 (x AND 0xff00000000000000))"

definition swap32 :: "u32 \<Rightarrow> u32" where
  "swap32 x0 =
    (let x = push_bit 8 (x0 AND 0x00ff00ff) OR drop_bit 8 (x0 AND 0xff00ff00)
     in push_bit 16 x OR drop_bit 16 x)"

definition swap64 :: "u64 \<Rightarrow> u64" where
  "swap64 x0 =
    (let x1 = push_bit 8 (x0 AND 0x00ff00ff00ff00ff) OR drop_bit 8 (x0 AND 0xff00ff00ff00ff00);
         x2 = push_bit 16 (x1 AND 0x0000ffff0000ffff) OR drop_bit 16 (x1 AND 0xffff0000ffff0000)
     in push_bit 32 x2 OR drop_bit 32 x2)"

definition mem_inplace_swap32 :: "u32 list \<Rightarrow> nat \<Rightarrow> u32 list" where
  "mem_inplace_swap32 mem n = map swap32 (take n mem) @ drop n mem"

definition mem_inplace_swap64 :: "u64 list \<Rightarrow> nat \<Rightarrow> u64 list" where
  "mem_inplace_swap64 mem n = map swap64 (take n mem) @ drop n mem"

section \<open>Multiplication\<close>

lemma unat_hi_dword: "unat (hi_dword v) = unat v div 2 ^ 32"
  unfolding hi_dword_def by (rule unat_drop_bit_div)

lemma lo_dword_alt: "lo_dword v = take_bit 32 v"
  by (simp add: lo_dword_def take_bit_eq_mask mask_eq_exp_minus_1)

lemma unat_lo_dword: "unat (lo_dword v) = unat v mod 2 ^ 32"
  unfolding lo_dword_alt by (rule unat_take_bit_mod) simp

lemma dword_split: "unat v = unat (hi_dword v) * 2 ^ 32 + unat (lo_dword v)"
  unfolding unat_hi_dword unat_lo_dword by (rule div_mult_mod_eq [symmetric])

lemma hi_dword_bound: "unat (hi_dword v) < 2 ^ 32"
  unfolding unat_hi_dword using unat_u64_bound [of v] by (simp add: less_mult_imp_div_less)

lemma lo_dword_bound: "unat (lo_dword v) < 2 ^ 32"
  by (simp add: unat_lo_dword)

lemma dword_product_bound:
  "x < 2 ^ 32 \<Longrightarrow> y < 2 ^ 32 \<Longrightarrow> x * y \<le> (2 ^ 32 - 1) * (2 ^ 32 - 1 :: nat)"
  by (rule mult_le_mono) linarith+

text \<open>The schoolbook step on natural numbers: how the carries of the cross terms recombine.\<close>

lemma double_digit_shift:
  fixes s b :: nat
  assumes "0 < b"
  shows "s mod (b * b) div b + s div (b * b) * b = s div b"
proof -
  have "s mod (b * b) div b = s div b mod b"
    using assms by (simp add: mod_mult2_eq)
  then show ?thesis by (simp add: div_mult2_eq)
qed

lemma schoolbook_nat:
  fixes A B C D :: nat
  defines "S \<equiv> A * D + B * C"
  defines "L \<equiv> B * D + S mod 2 ^ 32 * 2 ^ 32"
  shows "(A * C + S mod 2 ^ 64 div 2 ^ 32 + S div 2 ^ 64 * 2 ^ 32 + L div 2 ^ 64) * 2 ^ 64 + L mod 2 ^ 64
    = (A * 2 ^ 32 + B) * (C * 2 ^ 32 + D)"
proof -
  have mid: "S mod 2 ^ 64 div 2 ^ 32 + S div 2 ^ 64 * 2 ^ 32 = S div 2 ^ 32"
    using double_digit_shift [of "2 ^ 32" S] by simp
  have low: "L div 2 ^ 64 * 2 ^ 64 + L mod 2 ^ 64 = L"
    by (rule div_mult_mod_eq)
  have sh: "S div 2 ^ 32 * 2 ^ 64 + S mod 2 ^ 32 * 2 ^ 32 = S * 2 ^ 32"
  proof -
    have "S * 2 ^ 32 = (S div 2 ^ 32 * 2 ^ 32 + S mod 2 ^ 32) * 2 ^ 32"
      by (simp only: div_mult_mod_eq)
    then show ?thesis by (simp only: distrib_right mult.assoc power_add [symmetric]) simp
  qed
  have "(A * C + S div 2 ^ 32 + L div 2 ^ 64) * 2 ^ 64 + L mod 2 ^ 64
      = A * C * 2 ^ 64 + S div 2 ^ 32 * 2 ^ 64 + L"
    using low by (simp add: algebra_simps)
  also have "\<dots> = A * C * 2 ^ 64 + S * 2 ^ 32 + B * D"
    using sh by (simp add: L_def)
  also have "\<dots> = (A * 2 ^ 32 + B) * (C * 2 ^ 32 + D)"
    by (simp add: S_def algebra_simps)
  finally show ?thesis using mid by (simp add: add.assoc)
qed

lemma of_bool_carry: "(if b then 1 else 0 :: u64) = of_bool b"
  by simp

lemma carry_div:
  fixes x :: nat
  assumes "x < 2 * 2 ^ 64"
  shows "x div 2 ^ 64 = of_bool (2 ^ 64 \<le> x)"
proof (cases "2 ^ 64 \<le> x")
  case True
  then have "x div 2 ^ 64 = 1"
    using assms by (intro div_nat_eqI) auto
  with True show ?thesis by simp
qed simp

lemma mul128_manually_exact:
  assumes "mul128_manually x y = (lo, hi)"
  shows "unat hi * 2 ^ 64 + unat lo = unat x * unat y"
proof -
  define a b c d where "a = hi_dword x" and "b = lo_dword x" and "c = hi_dword y" and "d = lo_dword y"
  define A B C D where "A = unat a" and "B = unat b" and "C = unat c" and "D = unat d"
  define S where "S = A * D + B * C"
  define L where "L = B * D + S mod 2 ^ 32 * 2 ^ 32"
  define adbc where "adbc = a * d + b * c"
  have small: "A < 2 ^ 32" "B < 2 ^ 32" "C < 2 ^ 32" "D < 2 ^ 32"
    by (simp_all only: A_def B_def C_def D_def a_def b_def c_def d_def hi_dword_bound lo_dword_bound)
  have prods: "unat (a * c) = A * C" "unat (a * d) = A * D" "unat (b * c) = B * C" "unat (b * d) = B * D"
    using dword_product_bound [OF small(1,3)] dword_product_bound [OF small(1,4)]
      dword_product_bound [OF small(2,3)] dword_product_bound [OF small(2,4)]
    by (auto simp: A_def B_def C_def D_def intro!: unat_mult_no_wrap)
  have S: "S < 2 * 2 ^ 64"
    using dword_product_bound [OF small(1,4)] dword_product_bound [OF small(2,3)]
    unfolding S_def by simp
  have adbc: "unat adbc = S mod 2 ^ 64"
    unfolding adbc_def by (simp add: unat_word_ariths(1) prods S_def)
  have carry1: "of_bool (adbc < a * d) = S div 2 ^ 64"
    unfolding adbc_def add_carry_iff using carry_div [OF S] by (simp add: prods S_def)
  have shifted: "unat (push_bit 32 adbc) = S mod 2 ^ 32 * 2 ^ 32"
  proof -
    have "unat (push_bit 32 adbc) = S mod 2 ^ 64 * 2 ^ 32 mod 2 ^ 64"
      unfolding unat_push_bit_mod adbc by simp
    also have "\<dots> = S mod 2 ^ 64 mod 2 ^ 32 * 2 ^ 32"
      using mod_mult_mult2 [of "S mod 2 ^ 64" "2 ^ 32" "2 ^ 32 :: nat"] by simp
    also have "\<dots> = S mod 2 ^ 32 * 2 ^ 32"
      by (simp add: mod_mod_cancel)
    finally show ?thesis .
  qed
  have L: "L < 2 * 2 ^ 64"
  proof -
    have "S mod 2 ^ 32 * 2 ^ 32 \<le> (2 ^ 32 - 1) * 2 ^ 32"
      by (rule mult_le_mono1) (simp add: less_Suc_eq_le [symmetric])
    then show ?thesis
      using dword_product_bound [OF small(2,4)] unfolding L_def by simp
  qed
  define H where "H = A * C + S mod 2 ^ 64 div 2 ^ 32 + S div 2 ^ 64 * 2 ^ 32 + L div 2 ^ 64"
  have lo: "lo = b * d + push_bit 32 adbc"
    and hi: "hi = a * c + drop_bit 32 adbc + push_bit 32 (of_bool (adbc < a * d)) + of_bool (lo < b * d)"
    using assms
    unfolding mul128_manually_def Let_def prod.inject of_bool_carry
      a_def [symmetric] b_def [symmetric] c_def [symmetric] d_def [symmetric] adbc_def [symmetric]
    by blast+
  have ulo: "unat lo = L mod 2 ^ 64"
    by (simp add: lo unat_word_ariths(1) prods shifted L_def)
  have carry2: "of_bool (lo < b * d) = L div 2 ^ 64"
    unfolding lo add_carry_iff using carry_div [OF L] by (simp add: prods shifted L_def)
  have parts: "unat (drop_bit 32 adbc) = S mod 2 ^ 64 div 2 ^ 32"
    "unat (push_bit 32 (of_bool (adbc < a * d) :: u64)) = S div 2 ^ 64 * 2 ^ 32"
    "unat (of_bool (lo < b * d) :: u64) = L div 2 ^ 64"
    unfolding unat_drop_bit_div adbc carry1 [symmetric] carry2 [symmetric] by simp_all
  have "unat hi = H mod 2 ^ 64"
    unfolding hi H_def by (simp only: unat_word_ariths(1) prods parts) (simp add: mod_simps)
  moreover have sum: "H * 2 ^ 64 + L mod 2 ^ 64 = unat x * unat y"
    using schoolbook_nat [of A C D B] dword_split [of x] dword_split [of y]
    unfolding H_def L_def S_def A_def B_def C_def D_def a_def b_def c_def d_def by simp
  moreover have "H < 2 ^ 64"
  proof (rule ccontr)
    assume "\<not> H < 2 ^ 64"
    then have "2 ^ 64 * 2 ^ 64 \<le> unat x * unat y"
      unfolding sum [symmetric] by (intro trans_le_add1 mult_le_mono1) simp
    moreover have "unat x * unat y < 2 ^ 64 * 2 ^ 64"
      by (rule mult_strict_mono) (use unat_u64_bound [of x] unat_u64_bound [of y] in simp_all)
    ultimately show False by simp
  qed
  ultimately show ?thesis using ulo by simp
qed

lemma mul128_exact:
  assumes "mul128 x y = (lo, hi)"
  shows "unat hi * 2 ^ 64 + unat lo = unat x * unat y"
proof -
  define p where "p = (ucast x :: u128) * ucast y"
  have lt: "unat x * unat y < 2 ^ 64 * 2 ^ 64"
    by (rule mult_strict_mono) (use unat_u64_bound [of x] unat_u64_bound [of y] in simp_all)
  have p: "unat p = unat x * unat y"
    unfolding p_def using lt by (simp add: unat_word_ariths unat_ucast_up)
  have lo: "lo = ucast p" and hi: "hi = ucast (drop_bit 64 p)"
    using assms by (simp_all add: mul128_def p_def Let_def)
  have "unat lo = unat p mod 2 ^ 64"
    unfolding lo unat_ucast_mod by simp
  moreover have "unat hi = unat p div 2 ^ 64 mod 2 ^ 64"
    unfolding hi unat_ucast_mod unat_drop_bit_div by simp
  moreover have "unat p div 2 ^ 64 < 2 ^ 64"
    unfolding p using lt by (rule less_mult_imp_div_less)
  ultimately show ?thesis by (simp add: p)
qed

lemma hi_lo_unique:
  fixes lo hi lo' hi' :: u64
  assumes "unat hi * 2 ^ 64 + unat lo = unat hi' * 2 ^ 64 + unat lo'"
  shows "hi = hi' \<and> lo = lo'"
proof -
  have eq: "unat lo + 2 ^ 64 * unat hi = unat lo' + 2 ^ 64 * unat hi'"
    using assms by simp
  have "unat lo = unat lo'" and "unat hi = unat hi'"
    by (rule mixed_radix_unique [OF _ _ eq], simp_all)+
  then show ?thesis by (simp add: word_unat_eq_iff)
qed

theorem mul128_manually_eq_mul128: "mul128_manually x y = mul128 x y"
proof -
  obtain lo hi lo' hi' where r: "mul128_manually x y = (lo, hi)" "mul128 x y = (lo', hi')"
    by fastforce
  have "unat hi * 2 ^ 64 + unat lo = unat hi' * 2 ^ 64 + unat lo'"
    using trans [OF mul128_manually_exact [OF r(1)] mul128_exact [OF r(2), symmetric]] .
  with r show ?thesis using hi_lo_unique [of hi lo hi' lo'] by simp
qed

section \<open>Division\<close>

lemma div_with_reminder_step:
  assumes "unat x < 2 ^ 32" and "unat r < unat d"
  shows "\<exists>q r'. div_with_reminder x d r = Some (q, r') \<and> unat q < 2 ^ 32 \<and> unat r' < unat d \<and>
    unat r * 2 ^ 32 + unat x = unat q * unat d + unat r'"
proof -
  define n where "n = x OR push_bit 32 (ucast r)"
  have d: "d \<noteq> 0" using assms(2) by auto
  have n: "unat n = unat r * 2 ^ 32 + unat x"
    unfolding n_def or.commute [of x] using assms(1) unat_u32_bound [of r]
    by (subst unat_shift_or) (simp_all add: unat_ucast_up)
  have dd: "unat (ucast d :: u64) = unat d"
    by (rule unat_ucast_up) simp
  have "unat n mod unat d < unat d"
    using assms(2) by (intro mod_less_divisor) linarith
  moreover have "unat n mod unat d < 2 ^ 32"
    using less_trans [OF calculation unat_exp_bound [of d]] by simp
  ultimately have r: "unat (ucast (n mod ucast d) :: u32) = unat n mod unat d"
    by (subst unat_ucast_mod) (simp add: unat_mod_word dd)
  have "unat n div unat d < 2 ^ 32"
  proof (rule less_mult_imp_div_less)
    have "unat n < (unat r + 1) * 2 ^ 32" using n assms(1) by simp
    also have "\<dots> \<le> unat d * 2 ^ 32" using assms(2) by (intro mult_le_mono1) simp
    finally show "unat n < 2 ^ 32 * unat d" by (simp add: mult.commute)
  qed
  then show ?thesis
    using d r n mod_less_divisor [of "unat d" "unat n"] assms(2)
    by (simp add: div_with_reminder_def n_def [symmetric] Let_def unat_div_word dd)
qed

lemma div128_32_manually_exact:
  assumes "divisor \<noteq> 0"
  shows "\<exists>r qh ql. div128_32_manually hi lo divisor = Some (r, qh, ql) \<and>
    unat hi * 2 ^ 64 + unat lo = (unat qh * 2 ^ 64 + unat ql) * unat divisor + unat r \<and>
    unat r < unat divisor"
proof -
  have d: "unat (0 :: u32) < unat divisor"
    using assms by (simp add: unat_gt_0)
  obtain q3 r3 where 3: "div_with_reminder (hi_dword hi) divisor 0 = Some (q3, r3)"
    "unat q3 < 2 ^ 32" "unat r3 < unat divisor" "unat (0 :: u32) * 2 ^ 32 + unat (hi_dword hi) = unat q3 * unat divisor + unat r3"
    using div_with_reminder_step [OF hi_dword_bound d] by blast
  obtain q2 r2 where 2: "div_with_reminder (lo_dword hi) divisor r3 = Some (q2, r2)"
    "unat q2 < 2 ^ 32" "unat r2 < unat divisor" "unat r3 * 2 ^ 32 + unat (lo_dword hi) = unat q2 * unat divisor + unat r2"
    using div_with_reminder_step [OF lo_dword_bound 3(3)] by blast
  obtain q1 r1 where 1: "div_with_reminder (hi_dword lo) divisor r2 = Some (q1, r1)"
    "unat q1 < 2 ^ 32" "unat r1 < unat divisor" "unat r2 * 2 ^ 32 + unat (hi_dword lo) = unat q1 * unat divisor + unat r1"
    using div_with_reminder_step [OF hi_dword_bound 2(3)] by blast
  obtain q0 r0 where 0: "div_with_reminder (lo_dword lo) divisor r1 = Some (q0, r0)"
    "unat q0 < 2 ^ 32" "unat r0 < unat divisor" "unat r1 * 2 ^ 32 + unat (lo_dword lo) = unat q0 * unat divisor + unat r0"
    using div_with_reminder_step [OF lo_dword_bound 1(3)] by blast
  have qh: "unat (push_bit 32 q3 OR q2) = unat q3 * 2 ^ 32 + unat q2"
    using 2(2) 3(2) by (intro unat_shift_or) simp_all
  have ql: "unat (push_bit 32 q1 OR q0) = unat q1 * 2 ^ 32 + unat q0"
    using 0(2) 1(2) by (intro unat_shift_or) simp_all
  have "unat hi * 2 ^ 64 + unat lo =
      ((unat q3 * 2 ^ 32 + unat q2) * 2 ^ 64 + (unat q1 * 2 ^ 32 + unat q0)) * unat divisor + unat r0"
    using 0(4) 1(4) 2(4) 3(4) dword_split [of hi] dword_split [of lo]
    by (simp add: algebra_simps)
  then show ?thesis
    using 0(1,3) 1(1) 2(1) 3(1) qh ql by (simp add: div128_32_manually_def)
qed

lemma div128_32_exact:
  assumes "divisor \<noteq> 0"
  shows "\<exists>r qh ql. div128_32 hi lo divisor = Some (r, qh, ql) \<and>
    unat hi * 2 ^ 64 + unat lo = (unat qh * 2 ^ 64 + unat ql) * unat divisor + unat r \<and>
    unat r < unat divisor"
proof -
  define n where "n = push_bit 64 (ucast hi :: u128) OR ucast lo"
  have n: "unat n = unat hi * 2 ^ 64 + unat lo"
    unfolding n_def using unat_u64_bound [of hi] unat_u64_bound [of lo]
    by (subst unat_shift_or) (simp_all add: unat_ucast_up)
  have d: "unat (ucast divisor :: u128) = unat divisor"
    by (rule unat_ucast_up) simp
  have dpos: "0 < unat divisor"
    using assms by (simp add: unat_gt_0)
  define q where "q = n div ucast divisor"
  have q: "unat q = unat n div unat divisor"
    by (simp add: q_def unat_div_word d)
  have "unat n mod unat divisor < unat divisor"
    using dpos by (rule mod_less_divisor)
  moreover from less_trans [OF this unat_exp_bound [of divisor]]
  have "unat n mod unat divisor < 2 ^ 32" by simp
  ultimately have r: "unat (ucast (n mod ucast divisor) :: u32) = unat n mod unat divisor"
    by (subst unat_ucast_mod) (simp add: unat_mod_word d)
  have "unat q div 2 ^ 64 < 2 ^ 64"
    using unat_exp_bound [of q] by (intro less_mult_imp_div_less) simp
  then have qh: "unat (ucast (drop_bit 64 q) :: u64) = unat q div 2 ^ 64"
    unfolding unat_ucast_mod unat_drop_bit_div by simp
  have ql: "unat (ucast q :: u64) = unat q mod 2 ^ 64"
    unfolding unat_ucast_mod by simp
  have "unat n = unat q * unat divisor + unat n mod unat divisor"
    unfolding q by simp
  moreover have "unat q = unat q div 2 ^ 64 * 2 ^ 64 + unat q mod 2 ^ 64"
    by (rule div_mult_mod_eq [symmetric])
  ultimately have "unat hi * 2 ^ 64 + unat lo =
      (unat (ucast (drop_bit 64 q) :: u64) * 2 ^ 64 + unat (ucast q :: u64)) * unat divisor
      + unat (ucast (n mod ucast divisor) :: u32)"
    unfolding qh ql r n [symmetric] by (simp only:)
  moreover have "div128_32 hi lo divisor =
      Some (ucast (n mod ucast divisor), ucast (drop_bit 64 q), ucast q)"
    using assms by (simp add: div128_32_def Let_def n_def q_def)
  moreover have "unat (ucast (n mod ucast divisor) :: u32) < unat divisor"
    unfolding r using dpos by (rule mod_less_divisor)
  ultimately show ?thesis by blast
qed

theorem div128_32_manually_eq_div128_32: "div128_32_manually hi lo d = div128_32 hi lo d"
proof (cases "d = 0")
  case True
  then show ?thesis by (simp add: div128_32_manually_def div128_32_def div_with_reminder_def)
next
  case False
  obtain r qh ql where 1: "div128_32_manually hi lo d = Some (r, qh, ql)"
    "unat hi * 2 ^ 64 + unat lo = (unat qh * 2 ^ 64 + unat ql) * unat d + unat r" "unat r < unat d"
    using div128_32_manually_exact [OF False] by blast
  obtain r' qh' ql' where 2: "div128_32 hi lo d = Some (r', qh', ql')"
    "unat hi * 2 ^ 64 + unat lo = (unat qh' * 2 ^ 64 + unat ql') * unat d + unat r'" "unat r' < unat d"
    using div128_32_exact [OF False] by blast
  have eq: "unat r + unat d * (unat qh * 2 ^ 64 + unat ql) = unat r' + unat d * (unat qh' * 2 ^ 64 + unat ql')"
    using 1(2) 2(2) by (simp add: mult.commute)
  from mixed_radix_unique [OF 1(3) 2(3) eq]
  have "r = r'" and "qh = qh' \<and> ql = ql'"
    using hi_lo_unique [of qh ql qh' ql'] by (simp_all add: word_unat_eq_iff)
  with 1(1) 2(1) show ?thesis by simp
qed

section \<open>Byte swaps and rotations\<close>

lemma word32_eqI: "(\<And>n. n \<in> set [0..<32] \<Longrightarrow> bit x n = bit y n) \<Longrightarrow> x = (y :: u32)"
  by (rule bit_word_eqI) simp

lemma word64_eqI: "(\<And>n. n \<in> set [0..<64] \<Longrightarrow> bit x n = bit y n) \<Longrightarrow> x = (y :: u64)"
  by (rule bit_word_eqI) simp

lemma upt_32: "[0..<32] = [0,1,2,3,4,5,6,7,8,9,10,11,12,13,14,15,16,17,18,19,20,21,22,23,24,25,26,27,28,29,30,31]"
  by code_simp

lemma upt_64: "[0..<64] =
   [0,1,2,3,4,5,6,7,8,9,10,11,12,13,14,15,
    16,17,18,19,20,21,22,23,24,25,26,27,28,29,30,31,
    32,33,34,35,36,37,38,39,40,41,42,43,44,45,46,47,
    48,49,50,51,52,53,54,55,56,57,58,59,60,61,62,63]"
  by code_simp

lemma set_Cons_elim: "n \<in> set (x # xs) \<Longrightarrow> (n = x \<Longrightarrow> P) \<Longrightarrow> (n \<in> set xs \<Longrightarrow> P) \<Longrightarrow> P"
  by auto

text \<open>
  Both formulations exchange byte \<open>i\<close> with byte \<open>n - 1 - i\<close>: bit \<open>8 i + j\<close> of the result is bit
  \<open>8 (n - 1 - i) + j\<close> of the argument.
\<close>

lemma bit_swap32: "n \<in> set [0..<32] \<Longrightarrow> bit (swap32 x) n = bit x (8 * (3 - n div 8) + n mod 8)"
  unfolding swap32_def Let_def upt_32
  by (elim set_Cons_elim; simp add: bit_simps numeral_2_eq_2 [symmetric])

lemma bit_SWAP32: "n \<in> set [0..<32] \<Longrightarrow> bit (SWAP32 x) n = bit x (8 * (3 - n div 8) + n mod 8)"
  unfolding SWAP32_def upt_32
  by (elim set_Cons_elim; simp add: bit_simps numeral_2_eq_2 [symmetric])

text \<open>The three exchanges of \<open>swap64\<close>: neighbouring bytes, neighbouring byte pairs, the halves.\<close>

definition swap_idx :: "nat \<Rightarrow> nat \<Rightarrow> nat" where
  "swap_idx k n = (if even (n div k) then n + k else n - k)"

lemma bit_u64_beyond: "64 \<le> n \<Longrightarrow> \<not> bit (x :: u64) n"
  using bit_imp_le_length [of x n] by auto

lemma bit_stage8: "n \<in> set [0..<64] \<Longrightarrow>
    bit (push_bit 8 (x AND 0x00ff00ff00ff00ff) OR drop_bit 8 (x AND 0xff00ff00ff00ff00) :: u64) n
    = bit x (swap_idx 8 n)"
  unfolding upt_64 by (elim set_Cons_elim; simp add: bit_simps swap_idx_def)

lemma bit_stage16: "n \<in> set [0..<64] \<Longrightarrow>
    bit (push_bit 16 (x AND 0x0000ffff0000ffff) OR drop_bit 16 (x AND 0xffff0000ffff0000) :: u64) n
    = bit x (swap_idx 16 n)"
  unfolding upt_64 by (elim set_Cons_elim; simp add: bit_simps swap_idx_def)

lemma bit_stage32: "n \<in> set [0..<64] \<Longrightarrow>
    bit (push_bit 32 x OR drop_bit 32 x :: u64) n = bit x (swap_idx 32 n)"
  unfolding upt_64 by (elim set_Cons_elim; simp add: bit_simps swap_idx_def bit_u64_beyond)

lemma swap_idx_chain:
  "n \<in> set [0..<64] \<Longrightarrow> swap_idx 8 (swap_idx 16 (swap_idx 32 n)) = 8 * (7 - n div 8) + n mod 8 \<and>
    swap_idx 32 n \<in> set [0..<64] \<and> swap_idx 16 (swap_idx 32 n) \<in> set [0..<64]"
  unfolding upt_64 by (elim set_Cons_elim; simp add: swap_idx_def)

lemma bit_swap64: "n \<in> set [0..<64] \<Longrightarrow> bit (swap64 x) n = bit x (8 * (7 - n div 8) + n mod 8)"
  using swap_idx_chain [of n] unfolding swap64_def Let_def
  by (simp only: bit_stage32 bit_stage16 bit_stage8)

lemma bit_SWAP64: "n \<in> set [0..<64] \<Longrightarrow> bit (SWAP64 x) n = bit x (8 * (7 - n div 8) + n mod 8)"
  unfolding SWAP64_def upt_64
  by (elim set_Cons_elim; simp add: bit_simps numeral_2_eq_2 [symmetric])

lemma byte_index_bound: "n < 8 * Suc k \<Longrightarrow> 8 * (k - n div 8) + n mod 8 < 8 * Suc (k :: nat)"
proof -
  have "n mod 8 < 8" by simp
  then show ?thesis by simp
qed

lemma byte_index_involution:
  assumes "n < 8 * Suc k"
  defines "m \<equiv> 8 * (k - n div 8) + n mod 8"
  shows "8 * (k - m div 8) + m mod 8 = (n :: nat)"
proof -
  have "n div 8 \<le> k"
    using assms(1) by (simp add: less_Suc_eq_le [symmetric] less_mult_imp_div_less mult.commute)
  moreover have "m div 8 = k - n div 8" "m mod 8 = n mod 8"
    by (simp_all add: m_def)
  ultimately show ?thesis by simp
qed

lemma swap32_SWAP32: "swap32 x = SWAP32 x"
  by (rule word32_eqI) (simp add: bit_swap32 bit_SWAP32)

lemma swap64_SWAP64: "swap64 y = SWAP64 y"
  by (rule word64_eqI) (simp add: bit_swap64 bit_SWAP64)

theorem swap_eq_SWAP: "swap32 x = SWAP32 x \<and> swap64 y = SWAP64 y"
  by (simp add: swap32_SWAP32 swap64_SWAP64)

lemma swap32_swap32 [simp]: "swap32 (swap32 x) = x"
proof (rule word32_eqI)
  fix n assume n: "n \<in> set [0..<32 :: nat]"
  then have "8 * (3 - n div 8) + n mod 8 \<in> set [0..<32]"
    using byte_index_bound [of n 3] by simp
  with n show "bit (swap32 (swap32 x)) n = bit x n"
    using byte_index_involution [of n 3] by (simp only: bit_swap32) simp
qed

lemma swap64_swap64 [simp]: "swap64 (swap64 x) = x"
proof (rule word64_eqI)
  fix n assume n: "n \<in> set [0..<64 :: nat]"
  then have "8 * (7 - n div 8) + n mod 8 \<in> set [0..<64]"
    using byte_index_bound [of n 7] by simp
  with n show "bit (swap64 (swap64 x)) n = bit x n"
    using byte_index_involution [of n 7] by (simp only: bit_swap64) simp
qed

lemma mem_inplace_swap64_involution:
  "mem_inplace_swap64 (mem_inplace_swap64 mem n) n = mem"
proof -
  have "swap64 \<circ> swap64 = id" by (simp add: fun_eq_iff)
  then show ?thesis by (simp add: mem_inplace_swap64_def min_def)
qed

lemma mem_inplace_swap32_involution:
  "mem_inplace_swap32 (mem_inplace_swap32 mem n) n = mem"
proof -
  have "swap32 \<circ> swap32 = id" by (simp add: fun_eq_iff)
  then show ?thesis by (simp add: mem_inplace_swap32_def min_def)
qed

lemma rotate_index:
  "k < w \<Longrightarrow> n < w \<Longrightarrow> (n + (w - k)) mod w = (if k \<le> n then n - k else n + (w - k :: nat))"
proof (cases "k \<le> n")
  case True
  assume "k < w" "n < w"
  then have "(n + (w - k)) mod w = ((n - k) + w) mod w" using True by simp
  also have "\<dots> = n - k" using \<open>n < w\<close> by (simp only: mod_add_self2 mod_less less_imp_diff_less)
  finally show ?thesis using True by simp
qed auto

lemma rol_bit_generic:
  fixes x :: "'a :: len word"
  assumes "k < LENGTH('a)" and "n < LENGTH('a)"
  shows "bit (push_bit k x OR drop_bit ((LENGTH('a) - k) mod LENGTH('a)) x) n
    = bit x ((n + (LENGTH('a) - k)) mod LENGTH('a))"
proof (cases "k = 0")
  case True
  with assms show ?thesis by (simp add: bit_simps)
next
  case False
  then have "(LENGTH('a) - k) mod LENGTH('a) = LENGTH('a) - k" by simp
  then show ?thesis
    using assms bit_imp_le_length [of x "n + (LENGTH('a) - k)"]
    unfolding rotate_index [OF assms]
    by (auto simp: bit_or_iff bit_push_bit_iff bit_drop_bit_eq add.commute)
qed

lemma rol32_bit: "n < 32 \<Longrightarrow> bit (rol32 x r) n = bit x ((n + (32 - r mod 32)) mod 32)"
  unfolding rol32_def using rol_bit_generic [of "r mod 32" n x] by simp

lemma rol64_bit: "n < 64 \<Longrightarrow> bit (rol64 x r) n = bit x ((n + (64 - r mod 64)) mod 64)"
  unfolding rol64_def using rol_bit_generic [of "r mod 64" n x] by simp

end
