(* ===== verification/Varint.thy ===== *)
theory Varint
  imports Prelude
begin

unbundle bit_operations_syntax

text \<open>
  \<open>src/common/varint.h\<close>: the variable-length integer code used for amounts, offsets, heights and
  address tags, at \<open>T = uint64_t\<close>. The output iterator is the list of bytes written; the input
  iterators are the list of remaining bytes, returned with the result.
\<close>

definition get_varint_packed_size :: "u64 \<Rightarrow> nat" where
  "get_varint_packed_size v =
    (if v \<le> 127 then 1
     else if v \<le> 16383 then 2
     else if v \<le> 2097151 then 3
     else if v \<le> 268435455 then 4
     else if v \<le> 34359738367 then 5
     else if v \<le> 4398046511103 then 6
     else if v \<le> 4398046511103 then 6
     else if v \<le> 562949953421311 then 7
     else 8)"

lemma drop_bit_7_decreases: "0x80 \<le> (i :: u64) \<Longrightarrow> unat (drop_bit 7 i) < unat i"
  by (simp only: unat_drop_bit_div word_le_nat_alt) simp

function write_varint :: "u64 \<Rightarrow> bytes" where
  "write_varint i =
    (if 0x80 \<le> i then ((ucast i AND 0x7f) OR 0x80) # write_varint (drop_bit 7 i)
     else [ucast i])"
  by pat_completeness auto
termination
  by (relation "measure unat") (use drop_bit_7_decreases in simp_all)

declare write_varint.simps [simp del]

lemma write_varint_nonempty [simp]: "write_varint v \<noteq> []"
  by (subst write_varint.simps) simp

definition get_varint_data :: "u64 \<Rightarrow> bytes" where
  "get_varint_data v = write_varint v"

text \<open>
  The loop of \<open>read_varint\<close>: \<open>shift\<close> and \<open>read\<close> are the loop variables, \<open>i\<close> the value read so far.
  The result is the return code (the number of bytes read, or -1, or -2), the value and the rest.
\<close>

fun read_varint_loop :: "nat \<Rightarrow> nat \<Rightarrow> int \<Rightarrow> u64 \<Rightarrow> bytes \<Rightarrow> int \<times> u64 \<times> bytes" where
  "read_varint_loop bits shift read i [] = (read, i, [])"
| "read_varint_loop bits shift read i (byte # rest) =
    (if bits \<le> shift + 7 \<and> 2 ^ (bits - shift) \<le> unat byte then (-1, i, rest)
     else if byte = 0 \<and> shift \<noteq> 0 then (-2, i, rest)
     else let i' = i OR push_bit shift (ucast (byte AND 0x7f))
          in if byte AND 0x80 = 0 then (read + 1, i', rest)
             else read_varint_loop bits (shift + 7) (read + 1) i' rest)"

definition read_varint :: "bytes \<Rightarrow> int \<times> u64 \<times> bytes" where
  "read_varint input = read_varint_loop 64 0 0 0 input"

section \<open>Single bytes\<close>

lemma unat_low7: "unat ((b :: u8) AND 0x7f) = unat b mod 128"
proof -
  have "b AND 0x7f = take_bit 7 b"
    by (simp add: take_bit_eq_mask mask_eq_exp_minus_1)
  then show ?thesis by (simp add: unat_take_bit_mod)
qed

lemma high_bit_clear_iff: "(b :: u8) AND 0x80 = 0 \<longleftrightarrow> unat b < 128"
proof -
  have "b AND 0x80 = 0 \<longleftrightarrow> \<not> bit b 7"
    using and_exp_eq_0_iff_not_bit [of b 7] by simp
  also have "\<dots> \<longleftrightarrow> \<not> bit (unat b) 7"
    by (simp only: bit_unsigned_iff) simp
  also have "\<dots> \<longleftrightarrow> even (unat b div 128)"
    by (subst bit_iff_odd) simp
  also have "\<dots> \<longleftrightarrow> unat b < 128"
  proof (cases "unat b < 128")
    case False
    then have "unat b div 128 = 1"
      using unat_u8_bound [of b] by (intro div_nat_eqI) auto
    with False show ?thesis by simp
  qed simp
  finally show ?thesis .
qed

lemma unat_continuation_byte: "unat ((ucast (i :: u64) AND 0x7f) OR 0x80 :: u8) = unat i mod 128 + 128"
proof -
  have "((ucast i :: u8) AND 0x7f) AND 0x80 = 0"
    by (simp add: and.assoc)
  then have "unat ((ucast i AND 0x7f) OR 0x80 :: u8) = unat ((ucast i :: u8) AND 0x7f) + 128"
    by (simp add: unat_or_disjoint)
  also have "\<dots> = unat i mod 256 mod 128 + 128"
    by (subst unat_low7, subst unat_ucast_mod) simp
  finally show ?thesis by (simp add: mod_mod_cancel)
qed

lemma write_varint_small:
  "unat i < 128 \<Longrightarrow> \<exists>b. write_varint i = [b] \<and> unat b = unat i"
  by (subst write_varint.simps) (simp add: word_le_nat_alt unat_ucast_mod del: unsigned_ucast_eq)

lemma write_varint_step:
  "128 \<le> unat i \<Longrightarrow> \<exists>b. write_varint i = b # write_varint (drop_bit 7 i) \<and> unat b = unat i mod 128 + 128"
  by (subst write_varint.simps) (simp add: word_le_nat_alt unat_continuation_byte)

text \<open>One step of the reader on a byte that is within bounds and not a superfluous zero.\<close>

lemma unat_or_shift_low7:
  assumes "unat i < 2 ^ shift" and "unat b mod 128 * 2 ^ shift < 2 ^ 64"
  shows "unat (i OR push_bit shift (ucast ((b :: u8) AND 0x7f)) :: u64) = unat i + unat b mod 128 * 2 ^ shift"
proof -
  have "unat (ucast (b AND 0x7f) :: u64) = unat b mod 128"
    by (subst unat_ucast_up) (simp_all add: unat_low7)
  with assms show ?thesis
    by (subst or.commute) (simp add: unat_shift_or)
qed

lemma fits_no_overflow:
  assumes "b * 2 ^ shift < (2 :: nat) ^ 64" and "0 < b"
  shows "b < 2 ^ (64 - shift)" and "shift < 64"
proof -
  have "2 ^ shift \<le> b * 2 ^ shift" using assms(2) by simp
  then have "(2 :: nat) ^ shift < 2 ^ 64" using assms(1) by linarith
  then show sh: "shift < 64" by (rule power_less_imp_less_exp [rotated]) simp
  then have "(2 :: nat) ^ 64 = 2 ^ (64 - shift) * 2 ^ shift"
    by (simp add: power_add [symmetric])
  with assms(1) show "b < 2 ^ (64 - shift)"
    by (metis mult_less_cancel2)
qed

lemma digit_bound:
  assumes "a < 2 ^ s" and "b < (128 :: nat)"
  shows "a + b * 2 ^ s < 2 ^ (s + 7)"
proof -
  have "b * 2 ^ s \<le> 127 * 2 ^ s"
    using assms(2) by (intro mult_le_mono1) linarith
  moreover have "(2 :: nat) ^ (s + 7) = 128 * 2 ^ s"
    by (simp add: power_add)
  ultimately show ?thesis using assms(1) by linarith
qed

lemma read_varint_write_varint_loop:
  assumes "unat v * 2 ^ shift < 2 ^ 64" and "unat i < 2 ^ shift" and "shift \<noteq> 0 \<longrightarrow> v \<noteq> 0"
  shows "\<exists>r. read_varint_loop 64 shift read i (write_varint v @ rest)
    = (read + int (length (write_varint v)), r, rest) \<and> unat r = unat i + unat v * 2 ^ shift"
  using assms
proof (induction v arbitrary: shift read i rule: write_varint.induct)
  case (1 v)
  show ?case
  proof (cases "unat v < 128")
    case True
    obtain b where w: "write_varint v = [b]" and b: "unat b = unat v"
      using write_varint_small [OF True] by blast
    have nov: "\<not> (64 \<le> shift + 7 \<and> 2 ^ (64 - shift) \<le> unat b)"
      using fits_no_overflow(1) [OF 1(2)] b by (cases "unat v = 0") auto
    have nz: "\<not> (b = 0 \<and> shift \<noteq> 0)"
      using 1(4) b by (auto simp: unat_eq_zero)
    from nov nz show ?thesis
      using unat_or_shift_low7 [of i shift b] 1(2,3) True
      by (auto simp: w high_bit_clear_iff b Let_def)
  next
    case False
    then obtain b where w: "write_varint v = b # write_varint (drop_bit 7 v)"
      and b: "unat b = unat v mod 128 + 128"
      using write_varint_step [of v] by auto
    have v: "unat v = unat v mod 128 + 128 * unat (drop_bit 7 v)"
      unfolding unat_drop_bit_div by simp
    have v': "0 < unat (drop_bit 7 v)"
      using False unfolding unat_drop_bit_div by simp
    define i' where "i' = i OR push_bit shift (ucast (b AND 0x7f))"
    have lt: "unat v mod 128 * 2 ^ shift + unat (drop_bit 7 v) * 2 ^ (shift + 7) < 2 ^ 64"
      using 1(2) by (subst (asm) v) (simp add: algebra_simps power_add)
    then have sh: "shift + 7 < 64"
      using fits_no_overflow(2) [of "unat (drop_bit 7 v)" "shift + 7"] v' by simp
    have i': "unat i' = unat i + unat v mod 128 * 2 ^ shift"
      unfolding i'_def using unat_or_shift_low7 [of i shift b] 1(3) lt by (simp add: b)
    have "unat i' < 2 ^ (shift + 7)"
      unfolding i' by (rule digit_bound) (use 1(3) in simp_all)
    moreover have "unat (drop_bit 7 v) * 2 ^ (shift + 7) < 2 ^ 64"
      using lt by simp
    moreover have "0x80 \<le> v" using False by (simp add: word_le_nat_alt)
    moreover have "drop_bit 7 v \<noteq> 0" using v' by auto
    ultimately obtain r where r: "read_varint_loop 64 (shift + 7) (read + 1) i' (write_varint (drop_bit 7 v) @ rest)
        = (read + 1 + int (length (write_varint (drop_bit 7 v))), r, rest)"
      "unat r = unat i' + unat (drop_bit 7 v) * 2 ^ (shift + 7)"
      using 1(1) [of "shift + 7" i' "read + 1"] by blast
    have "unat r = unat i + unat v * 2 ^ shift"
      unfolding r(2) i' using arg_cong [OF v, of "\<lambda>x. x * 2 ^ shift"]
      by (simp only: power_add distrib_right) simp
    moreover have "b \<noteq> 0" "b AND 0x80 \<noteq> 0"
      using b by (auto simp: high_bit_clear_iff)
    ultimately show ?thesis
      using r(1) sh by (simp add: w Let_def i'_def)
  qed
qed

section \<open>Round trip, canonicity and length\<close>

text \<open>What a run of the reader has consumed: either a complete code word of some value, or input that
  stopped in the middle of one (every byte has its continuation bit set).\<close>

lemma read_varint_loop_inv:
  assumes "read_varint_loop 64 shift read i bs = (n, r, rest)" and "0 \<le> n" and "0 \<le> read"
    and "unat i < 2 ^ shift" and "shift \<le> 63"
  shows "(\<exists>v. bs = write_varint v @ rest \<and> n = read + int (length (write_varint v)) \<and>
            unat r = unat i + unat v * 2 ^ shift \<and> unat v * 2 ^ shift < 2 ^ 64 \<and> (shift \<noteq> 0 \<longrightarrow> v \<noteq> 0))
    \<or> (rest = [] \<and> n = read + int (length bs) \<and> (\<forall>b \<in> set bs. 128 \<le> unat b))"
  using assms
proof (induction bs arbitrary: shift read i)
  case Nil
  then show ?case by simp
next
  case (Cons b bs)
  have nov: "\<not> (64 \<le> shift + 7 \<and> 2 ^ (64 - shift) \<le> unat b)"
    and nz: "\<not> (b = 0 \<and> shift \<noteq> 0)"
    using Cons.prems(1,2) by (auto split: if_splits)
  define i' where "i' = i OR push_bit shift (ucast (b AND 0x7f))"
  have fit: "unat b mod 128 * 2 ^ shift < 2 ^ 64"
  proof (cases "64 \<le> shift + 7")
    case True
    have "unat b mod 128 * 2 ^ shift < 2 ^ (64 - shift) * 2 ^ shift"
      using nov True mod_less_eq_dividend [of "unat b" 128] by (intro mult_strict_right_mono) auto
    also have "\<dots> = 2 ^ 64"
      using Cons.prems(5) by (subst power_add [symmetric]) simp
    finally show ?thesis .
  next
    case False
    have "unat b mod 128 * 2 ^ shift < 2 ^ (shift + 7)"
      using digit_bound [of 0 shift "unat b mod 128"] by simp
    also have "\<dots> \<le> 2 ^ 64" using False by (intro power_increasing) auto
    finally show ?thesis .
  qed
  have i': "unat i' = unat i + unat b mod 128 * 2 ^ shift"
    unfolding i'_def by (rule unat_or_shift_low7 [OF Cons.prems(4) fit])
  show ?case
  proof (cases "unat b < 128")
    case True
    define v where "v = (ucast b :: u64)"
    have v: "unat v = unat b" unfolding v_def by (rule unat_ucast_up) simp
    obtain c where c: "write_varint v = [c]" "unat c = unat v"
      using write_varint_small [of v] True v by auto
    then have w: "write_varint v = [b]" using v by (simp add: word_unat_eq_iff)
    have "(n, r, rest) = (read + 1, i', bs)"
      using Cons.prems(1) nov nz True by (auto simp: high_bit_clear_iff Let_def i'_def split: if_splits)
    moreover have "shift \<noteq> 0 \<longrightarrow> v \<noteq> 0"
      using nz v by (auto simp: unat_eq_zero)
    ultimately show ?thesis
      using True fit i' v by (intro disjI1 exI [of _ v]) (simp add: w)
  next
    case False
    have sh: "shift + 7 \<le> 63"
    proof (rule ccontr)
      assume "\<not> shift + 7 \<le> 63"
      then have "unat b < 2 ^ (64 - shift)" and "64 - shift \<le> 7" using nov by auto
      then have "unat b < 2 ^ 7"
        using power_increasing [of "64 - shift" 7 "2 :: nat"] by linarith
      with False show False by simp
    qed
    have "unat i' < 2 ^ (shift + 7)"
      unfolding i' by (rule digit_bound) (use Cons.prems(4) in simp_all)
    moreover have run: "read_varint_loop 64 (shift + 7) (read + 1) i' bs = (n, r, rest)"
      using Cons.prems(1) nov nz False by (auto simp: high_bit_clear_iff Let_def i'_def split: if_splits)
    ultimately consider
      (complete) v where "bs = write_varint v @ rest" "n = read + 1 + int (length (write_varint v))"
        "unat r = unat i' + unat v * 2 ^ (shift + 7)" "v \<noteq> 0"
    | (truncated) "rest = []" "n = read + 1 + int (length bs)" "\<forall>b \<in> set bs. 128 \<le> unat b"
      using Cons.IH [OF run Cons.prems(2)] Cons.prems(3) sh by auto
    then show ?thesis
    proof cases
      case complete
      define w where "w = (word_of_nat (unat v * 128 + unat b mod 128) :: u64)"
      have eq: "(unat v * 128 + unat b mod 128) * 2 ^ shift = unat r - unat i"
        using complete(3) i' by (simp add: algebra_simps power_add)
      then have lt: "(unat v * 128 + unat b mod 128) * 2 ^ shift < 2 ^ 64"
        using le_less_trans [OF diff_le_self unat_exp_bound [of r], of "unat i"] by simp
      have "unat v * 128 + unat b mod 128 \<le> (unat v * 128 + unat b mod 128) * 2 ^ shift"
        by simp
      from le_less_trans [OF this lt] have w: "unat w = unat v * 128 + unat b mod 128"
        unfolding w_def by (intro unat_of_nat_small) simp
      have big: "128 \<le> unat w"
        using complete(4) w by (cases "unat v") (auto simp: unat_eq_zero)
      have dw: "drop_bit 7 w = v"
        by (simp only: word_unat_eq_iff unat_drop_bit_div w) simp
      obtain c where c: "write_varint w = c # write_varint v" "unat c = unat w mod 128 + 128"
        using write_varint_step [OF big] unfolding dw by blast
      have "unat b div 128 = 1"
        using False unat_u8_bound [of b] by (intro div_nat_eqI) auto
      then have "unat b = unat b mod 128 + 128"
        using div_mult_mod_eq [of "unat b" 128] by linarith
      then have "c = b"
        using c(2) w by (simp add: word_unat_eq_iff)
      moreover have "unat r = unat i + unat w * 2 ^ shift"
        using eq w complete(3) i' by simp
      ultimately show ?thesis
        using c(1) complete(1,2) lt w big by (intro disjI1 exI [of _ w]) auto
    next
      case truncated
      with False show ?thesis by auto
    qed
  qed
qed

lemma read_varint_write:
  "read_varint (write_varint v @ rest) = (int (length (write_varint v)), v, rest)"
  using read_varint_write_varint_loop [of v 0 0 0 rest]
  by (auto simp: read_varint_def word_unat_eq_iff)

theorem read_write_varint:
  "read_varint (write_varint v @ rest) = (int (length (write_varint v)), v, rest)"
  by (rule read_varint_write)

lemma read_varint_cases:
  assumes "read_varint bs = (n, v, rest)" and "0 \<le> n"
  shows "(bs = write_varint v @ rest \<and> n = int (length (write_varint v)))
    \<or> (rest = [] \<and> n = int (length bs) \<and> (\<forall>b \<in> set bs. 128 \<le> unat b))"
  using read_varint_loop_inv [of 0 0 0 bs n v rest] assms
  by (auto simp: read_varint_def dest!: word_unat_eq_iff [THEN iffD2])

theorem read_varint_canonical:
  assumes "read_varint bs = (n, v, rest)" and "0 \<le> n"
  shows "(bs = write_varint v @ rest \<and> n = int (length (write_varint v)))
    \<or> (rest = [] \<and> n = int (length bs) \<and> (\<forall>b \<in> set bs. 128 \<le> unat b))"
  using assms by (rule read_varint_cases)

theorem read_varint_canonical_witness:
  "[172, 2, 7] = write_varint 300 @ [7] \<and> length (write_varint 300) = 2 \<or> [7] = ([] :: bytes)"
proof -
  have "read_varint [172, 2, 7] = (2, 300, [7])" by code_simp
  then show ?thesis using read_varint_canonical [of "[172, 2, 7]" 2 300 "[7]"] by auto
qed

text \<open>The number of bytes written, and the size function of the source.\<close>

lemma write_varint_length:
  "(k = 0 \<longrightarrow> v = 0) \<Longrightarrow> (0 < k \<longrightarrow> 128 ^ (k - 1) \<le> unat v) \<Longrightarrow> unat v < 128 ^ k \<Longrightarrow>
    length (write_varint v) = max 1 k"
proof (induction k arbitrary: v)
  case 0
  then show ?case using write_varint_small [of v] by auto
next
  case (Suc k)
  show ?case
  proof (cases "unat v < 128")
    case True
    have "k = 0"
    proof (rule ccontr)
      assume "k \<noteq> 0"
      then have "(128 :: nat) ^ 1 \<le> 128 ^ k" by (intro power_increasing) auto
      with True Suc.prems(2) show False by simp
    qed
    then show ?thesis using write_varint_small [OF True] by auto
  next
    case False
    then have "0 < k" using Suc.prems(3) by (cases k) auto
    then have "128 ^ (k - 1) * 128 \<le> unat v"
      using Suc.prems(2) by (cases k) auto
    then have "128 ^ (k - 1) \<le> unat (drop_bit 7 v)"
      unfolding unat_drop_bit_div by (simp add: less_eq_div_iff_mult_less_eq)
    moreover have "unat (drop_bit 7 v) < 128 ^ k"
      unfolding unat_drop_bit_div using Suc.prems(3) by (simp add: less_mult_imp_div_less mult.commute)
    ultimately have "length (write_varint (drop_bit 7 v)) = k"
      using Suc.IH [of "drop_bit 7 v"] \<open>0 < k\<close> by simp
    then show ?thesis using write_varint_step [of v] False by auto
  qed
qed

lemma packed_size_step: "v \<le> word_of_nat n \<longleftrightarrow> unat (v :: u64) \<le> n" if "n < 2 ^ 64"
  using that by (simp add: word_le_nat_alt unat_of_nat)

theorem get_varint_packed_size_exact:
  assumes "unat v < 2 ^ 56"
  shows "get_varint_packed_size v = length (write_varint v)"
proof -
  have "length (write_varint v) = max 1 k"
    if "0 < k" "128 ^ (k - 1) \<le> unat v" "unat v < 128 ^ k" for k
    using that write_varint_length [of k v] by simp
  note len = this [of 1] this [of 2] this [of 3] this [of 4] this [of 5] this [of 6] this [of 7] this [of 8]
  show ?thesis
    using len write_varint_small [of v] assms
    by (auto simp: get_varint_packed_size_def word_le_nat_alt unat_eq_zero not_le)
qed

theorem get_varint_packed_size_exact_witness:
  "get_varint_packed_size 300 = length (write_varint 300)"
  using get_varint_packed_size_exact [of 300] by simp

theorem get_varint_packed_size_too_small:
  assumes "2 ^ 56 \<le> unat v"
  shows "get_varint_packed_size v < length (write_varint v)"
proof -
  have "length (write_varint v) = 9 \<or> length (write_varint v) = 10"
  proof (cases "unat v < 2 ^ 63")
    case True
    then show ?thesis using write_varint_length [of 9 v] assms by simp
  next
    case False
    then show ?thesis using write_varint_length [of 10 v] unat_u64_bound [of v] by simp
  qed
  moreover have "get_varint_packed_size v \<le> 8"
    by (simp add: get_varint_packed_size_def)
  ultimately show ?thesis by linarith
qed

theorem get_varint_packed_size_too_small_witness:
  "get_varint_packed_size 72057594037927936 < length (write_varint 72057594037927936)"
  using get_varint_packed_size_too_small [of 72057594037927936] by simp

end
