(* ===== verification/Base58.thy ===== *)
theory Base58
  imports IntUtil Varint
begin

unbundle bit_operations_syntax

text \<open>
  \<open>src/common/base58.cpp\<close>: the block-wise base 58 code of addresses. Strings are lists of bytes;
  \<open>char\<close> is signed, as on the platforms the program is built for. A write outside the result buffer
  of \<open>encode_block\<close> would be undefined behaviour: it is the value \<open>None\<close> here, and the theorems show
  that it never happens. The hash of \<open>encode_addr\<close> and \<open>decode_addr\<close>, \<open>crypto::cn_fast_hash\<close>, is a
  parameter.
\<close>

section \<open>Definitions\<close>

definition alphabet :: bytes where
  "alphabet = [49, 50, 51, 52, 53, 54, 55, 56, 57, 65, 66, 67, 68, 69, 70, 71, 72, 74, 75, 76, 77, 78, 80, 81,
    82, 83, 84, 85, 86, 87, 88, 89, 90, 97, 98, 99, 100, 101, 102, 103, 104, 105, 106, 107, 109, 110, 111,
    112, 113, 114, 115, 116, 117, 118, 119, 120, 121, 122]"

definition alphabet_size :: u64 where
  "alphabet_size = 58"

definition encoded_block_sizes :: "nat list" where
  "encoded_block_sizes = [0, 2, 3, 5, 6, 7, 9, 10, 11]"

definition full_block_size :: nat where
  "full_block_size = length encoded_block_sizes - 1"

definition full_encoded_block_size :: nat where
  "full_encoded_block_size = encoded_block_sizes ! full_block_size"

definition addr_checksum_size :: nat where
  "addr_checksum_size = 4"

definition reverse_alphabet_data :: "int list" where
  "reverse_alphabet_data =
    fold (\<lambda>i m. m[nat (sint (alphabet ! i) - sint (alphabet ! 0)) := int i]) [0..<58]
      (replicate (nat (sint (alphabet ! 57) - sint (alphabet ! 0) + 1)) (- 1))"

definition reverse_alphabet :: "u8 \<Rightarrow> int" where
  "reverse_alphabet letter =
    (let idx = unat (word_of_int (sint letter - sint (alphabet ! 0)) :: u64)
     in if idx < length reverse_alphabet_data then reverse_alphabet_data ! idx else - 1)"

definition decoded_block_sizes_data :: "int list" where
  "decoded_block_sizes_data =
    fold (\<lambda>i m. m[encoded_block_sizes ! i := int i]) [0..<Suc full_block_size]
      (replicate (encoded_block_sizes ! full_block_size + 1) (- 1))"

definition decoded_block_sizes :: "nat \<Rightarrow> int" where
  "decoded_block_sizes n = decoded_block_sizes_data ! n"

definition uint_8be_to_64 :: "bytes \<Rightarrow> nat \<Rightarrow> u64" where
  "uint_8be_to_64 data sz = foldl (\<lambda>res b. push_bit 8 res OR ucast b) 0 (take sz data)"

text \<open>The bytes of a \<open>uint64_t\<close> in memory, on a little-endian machine.\<close>

definition memory_u64 :: "u64 \<Rightarrow> bytes" where
  "memory_u64 w = map (\<lambda>i. ucast (drop_bit (8 * i) w)) [0, 1, 2, 3, 4, 5, 6, 7]"

definition uint_64_to_8be :: "u64 \<Rightarrow> nat \<Rightarrow> bytes" where
  "uint_64_to_8be num sz = (let num_be = SWAP64 num in take sz (drop (8 - sz) (memory_u64 num_be)))"

function encode_loop :: "u64 \<Rightarrow> int \<Rightarrow> bytes \<Rightarrow> bytes option" where
  "encode_loop num i res =
    (if 0 < num then
       if i < 0 \<or> int (length res) \<le> i then None
       else encode_loop (num div alphabet_size) (i - 1) (res[nat i := alphabet ! unat (num mod alphabet_size)])
     else Some res)"
  by pat_completeness auto
termination
  by (relation "measure (\<lambda>(num, i, res). unat num)")
    (simp_all add: alphabet_size_def unat_div_word word_less_nat_alt)

declare encode_loop.simps [simp del]

text \<open>The caller has filled the part of the result the block goes to with \<open>alphabet[0]\<close>.\<close>

definition encode_block :: "bytes \<Rightarrow> nat \<Rightarrow> bytes option" where
  "encode_block block sz =
    (let num = uint_8be_to_64 block sz
     in encode_loop num (int (encoded_block_sizes ! sz) - 1)
          (replicate (encoded_block_sizes ! sz) (alphabet ! 0)))"

text \<open>The loop of \<open>decode_block\<close> over the symbols, from the last one to the first.\<close>

fun decode_loop :: "bytes \<Rightarrow> u64 \<Rightarrow> u64 \<Rightarrow> u64 option" where
  "decode_loop [] res_num order = Some res_num"
| "decode_loop (c # cs) res_num order =
    (let digit = reverse_alphabet c
     in if digit < 0 then None
        else let (lo, product_hi) = mul128 order (word_of_int digit); tmp = res_num + lo
             in if tmp < res_num \<or> 0 \<noteq> product_hi then None
                else decode_loop cs tmp (order * alphabet_size))"

definition decode_block :: "bytes \<Rightarrow> nat \<Rightarrow> bytes option" where
  "decode_block block sz =
    (let res_size = decoded_block_sizes sz
     in if res_size \<le> 0 then None
        else case decode_loop (rev (take sz block)) 0 1 of
               None \<Rightarrow> None
             | Some res_num \<Rightarrow>
                 if nat res_size < full_block_size \<and> push_bit (8 * nat res_size) 1 \<le> res_num then None
                 else Some (uint_64_to_8be res_num (nat res_size)))"

text \<open>The loops of \<open>encode\<close> and \<open>decode\<close> over the full blocks, then the last block.\<close>

fun encode_blocks :: "nat \<Rightarrow> bytes \<Rightarrow> bytes option" where
  "encode_blocks 0 data =
    (if data = [] then Some [] else encode_block data (length data))"
| "encode_blocks (Suc n) data =
    (case encode_block data full_block_size of None \<Rightarrow> None
     | Some b \<Rightarrow> map_option (\<lambda>r. b @ r) (encode_blocks n (drop full_block_size data)))"

definition encode :: "bytes \<Rightarrow> bytes option" where
  "encode data = (if data = [] then Some [] else encode_blocks (length data div full_block_size) data)"

fun decode_blocks :: "nat \<Rightarrow> bytes \<Rightarrow> bytes option" where
  "decode_blocks 0 enc = (if enc = [] then Some [] else decode_block enc (length enc))"
| "decode_blocks (Suc n) enc =
    (case decode_block enc full_encoded_block_size of None \<Rightarrow> None
     | Some b \<Rightarrow> map_option (\<lambda>r. b @ r) (decode_blocks n (drop full_encoded_block_size enc)))"

definition decode :: "bytes \<Rightarrow> bytes option" where
  "decode enc =
    (if enc = [] then Some []
     else if decoded_block_sizes (length enc mod full_encoded_block_size) < 0 then None
     else decode_blocks (length enc div full_encoded_block_size) enc)"

definition encode_addr :: "(bytes \<Rightarrow> bytes) \<Rightarrow> u64 \<Rightarrow> bytes \<Rightarrow> bytes option" where
  "encode_addr cn_fast_hash tag data =
    (let buf = get_varint_data tag @ data; hash = cn_fast_hash buf
     in encode (buf @ take addr_checksum_size hash))"

definition decode_addr :: "(bytes \<Rightarrow> bytes) \<Rightarrow> bytes \<Rightarrow> (u64 \<times> bytes) option" where
  "decode_addr cn_fast_hash addr =
    (case decode addr of None \<Rightarrow> None
     | Some addr_data \<Rightarrow>
         if length addr_data \<le> addr_checksum_size then None
         else let checksum = drop (length addr_data - addr_checksum_size) addr_data;
                  addr_data = take (length addr_data - addr_checksum_size) addr_data;
                  hash = cn_fast_hash addr_data
              in if take addr_checksum_size hash \<noteq> checksum then None
                 else let (read, tag, rest) = read_varint addr_data
                      in if read \<le> 0 then None else Some (tag, drop (nat read) addr_data))"

section \<open>Symbols and sizes\<close>

lemma reverse_alphabet_data_eq [code]: "reverse_alphabet_data =
    [0, 1, 2, 3, 4, 5, 6, 7, 8, - 1, - 1, - 1, - 1, - 1, - 1, - 1, 9, 10, 11, 12, 13, 14, 15, 16, - 1,
     17, 18, 19, 20, 21, - 1, 22, 23, 24, 25, 26, 27, 28, 29, 30, 31, 32, - 1, - 1, - 1, - 1, - 1, -
     1, 33, 34, 35, 36, 37, 38, 39, 40, 41, 42, 43, - 1, 44, 45, 46, 47, 48, 49, 50, 51, 52, 53, 54,
     55, 56, 57]"
  by code_simp

lemma reverse_alphabet_alphabet: "\<forall>i \<in> set [0..<58]. reverse_alphabet (alphabet ! i) = int i"
  by code_simp

lemma reverse_alphabet_small:
  "\<forall>i \<in> set [0..<74]. reverse_alphabet_data ! i < 0 \<or>
    reverse_alphabet_data ! i < 58 \<and> alphabet ! nat (reverse_alphabet_data ! i) = word_of_nat (i + 49)"
  by code_simp

lemma decoded_block_sizes_values:
  "map decoded_block_sizes [0..<12] = [0, - 1, 1, 2, - 1, 3, 4, 5, - 1, 6, 7, 8]"
  by code_simp

lemma block_capacity: "\<forall>n \<in> set [0..<9]. 256 ^ n \<le> (58 :: int) ^ (encoded_block_sizes ! n)"
  by code_simp

lemma sizes [simp]: "full_block_size = 8" "full_encoded_block_size = 11" "alphabet_size = 58" "addr_checksum_size = 4"
  by (simp_all add: full_block_size_def full_encoded_block_size_def encoded_block_sizes_def alphabet_size_def
      addr_checksum_size_def)

lemma alphabet_0: "alphabet ! 0 = 49"
  by (simp add: alphabet_def)

lemma alphabet_reverse_alphabet:
  assumes "0 \<le> reverse_alphabet c"
  shows "reverse_alphabet c < 58" and "alphabet ! nat (reverse_alphabet c) = c"
proof -
  define idx where "idx = unat (word_of_int (sint c - 49) :: u64)"
  have len: "length reverse_alphabet_data = 74" by (simp add: reverse_alphabet_data_eq)
  have s49: "sint (49 :: u8) = 49" by code_simp
  have r: "reverse_alphabet c = (if idx < 74 then reverse_alphabet_data ! idx else - 1)"
    unfolding reverse_alphabet_def Let_def idx_def len alphabet_0 s49 ..
  with assms have i: "idx < 74" by (auto split: if_splits)
  have rng: "- 128 \<le> sint c" "sint c < 128"
    using sint_ge [of c] sint_less [of c] by simp_all
  have "int idx = (sint c - 49) mod 2 ^ 64"
    unfolding idx_def uint_nat [symmetric] uint_word_of_int by simp
  moreover have "(sint c - 49) mod 2 ^ 64 = (if sint c < 49 then sint c - 49 + 2 ^ 64 else sint c - 49)"
  proof (cases "sint c < 49")
    case True
    have "(sint c - 49) mod 2 ^ 64 = (sint c - 49 + 2 ^ 64) mod 2 ^ 64" by (simp only: mod_add_self2)
    also have "\<dots> = sint c - 49 + 2 ^ 64" using True rng by (intro mod_pos_pos_trivial) auto
    finally show ?thesis using True by simp
  qed (use rng in \<open>simp add: mod_pos_pos_trivial\<close>)
  ultimately have "sint c = int (idx + 49)" using i rng by (auto split: if_splits)
  then have c: "c = word_of_nat (idx + 49)"
    by (metis of_int_of_nat_eq scast_id of_int_sint)
  show "reverse_alphabet c < 58" "alphabet ! nat (reverse_alphabet c) = c"
    using upt_ball [OF reverse_alphabet_small i] i assms r c by auto
qed

section \<open>Digits\<close>

fun digits58 :: "nat \<Rightarrow> nat \<Rightarrow> bytes" where
  "digits58 0 x = []"
| "digits58 (Suc n) x = digits58 n (x div 58) @ [alphabet ! (x mod 58)]"

lemma digits58_length [simp]: "length (digits58 n x) = n"
  by (induction n x rule: digits58.induct) auto

lemma digits58_0: "digits58 n 0 = replicate n (alphabet ! 0)"
  by (induction n) (auto simp: replicate_append_same)

lemma encode_loop_digits:
  "unat num < 58 ^ n \<Longrightarrow>
   encode_loop num (int n - 1) (replicate n (alphabet ! 0) @ suffix) = Some (digits58 n (unat num) @ suffix)"
proof (induction n arbitrary: num suffix)
  case 0
  then have "num = 0" by (simp add: unat_eq_zero)
  then show ?case by (simp add: encode_loop.simps)
next
  case (Suc n)
  show ?case
  proof (cases "num = 0")
    case True
    then show ?thesis by (simp add: encode_loop.simps digits58_0 replicate_append_same)
  next
    case False
    let ?d = "alphabet ! unat (num mod 58)"
    have "replicate (Suc n) (alphabet ! 0) @ suffix = replicate n (alphabet ! 0) @ (alphabet ! 0 # suffix)"
      by (simp add: replicate_app_Cons_same)
    then have "(replicate (Suc n) (alphabet ! 0) @ suffix)[n := ?d] = replicate n (alphabet ! 0) @ (?d # suffix)"
      by (simp add: list_update_append)
    moreover have "0 < num" using False by (simp add: word_neq_0_conv)
    ultimately have "encode_loop num (int (Suc n) - 1) (replicate (Suc n) (alphabet ! 0) @ suffix)
        = encode_loop (num div 58) (int n - 1) (replicate n (alphabet ! 0) @ (?d # suffix))"
      by (subst encode_loop.simps) simp
    also have "\<dots> = Some (digits58 n (unat (num div 58)) @ (?d # suffix))"
      using Suc.prems by (intro Suc.IH) (simp add: unat_div_word div_less_iff_less_mult mult.commute)
    finally show ?thesis by (simp add: unat_div_word unat_mod_word)
  qed
qed

primrec val58 :: "bytes \<Rightarrow> nat" where
  "val58 [] = 0"
| "val58 (c # cs) = nat (reverse_alphabet c) + 58 * val58 cs"

definition valid58 :: "bytes \<Rightarrow> bool" where
  "valid58 cs \<longleftrightarrow> list_all (\<lambda>c. 0 \<le> reverse_alphabet c) cs"

lemma digits58_val58: "x < 58 ^ n \<Longrightarrow> valid58 (digits58 n x) \<and> val58 (rev (digits58 n x)) = x"
proof (induction n arbitrary: x)
  case 0
  then show ?case by (simp add: valid58_def)
next
  case (Suc n)
  then have "x div 58 < 58 ^ n" by (simp add: div_less_iff_less_mult mult.commute)
  from Suc.IH [OF this] show ?case
    using reverse_alphabet_alphabet by (auto simp: valid58_def)
qed

lemma val58_digits58: "valid58 cs \<Longrightarrow> digits58 (length cs) (val58 (rev cs)) = cs \<and> val58 (rev cs) < 58 ^ length cs"
proof (induction cs rule: rev_induct)
  case Nil
  then show ?case by simp
next
  case (snoc c cs)
  have c: "0 \<le> reverse_alphabet c" "reverse_alphabet c < 58" "alphabet ! nat (reverse_alphabet c) = c"
    using snoc.prems alphabet_reverse_alphabet [of c] by (auto simp: valid58_def)
  have IH: "digits58 (length cs) (val58 (rev cs)) = cs" "val58 (rev cs) < 58 ^ length cs"
    using snoc by (auto simp: valid58_def)
  have "nat (reverse_alphabet c) < 58" using c by simp
  moreover from this have "(nat (reverse_alphabet c) + 58 * val58 (rev cs)) div 58 = val58 (rev cs)"
    "(nat (reverse_alphabet c) + 58 * val58 (rev cs)) mod 58 = nat (reverse_alphabet c)" by simp_all
  ultimately show ?case using IH c(3) by simp
qed


lemma decode_loop_step:
  assumes "mul128 order (word_of_int d) = (lo, hi)" and "unat order = o'" and "0 \<le> d" and "d < 58"
  shows "(res + lo < res \<or> 0 \<noteq> hi) \<longleftrightarrow> 2 ^ 64 \<le> unat res + o' * nat d"
    and "unat res + o' * nat d < 2 ^ 64 \<Longrightarrow> unat (res + lo) = unat res + o' * nat d"
proof -
  have d: "unat (word_of_int d :: u64) = nat d"
    using assms(3,4) by (simp add: unat_eq_nat_uint uint_word_of_int)
  have e: "unat hi * 2 ^ 64 + unat lo = o' * nat d"
    using mul128_exact [OF assms(1)] assms(2) d by simp
  have c: "res + lo < res \<longleftrightarrow> 2 ^ 64 \<le> unat res + unat lo"
    using add_carry_iff [of res lo] by simp
  show "(res + lo < res \<or> 0 \<noteq> hi) \<longleftrightarrow> 2 ^ 64 \<le> unat res + o' * nat d"
  proof (cases "hi = 0")
    case True
    then show ?thesis using e c by simp
  next
    case False
    then have "1 \<le> unat hi" by (simp add: Suc_le_eq unat_gt_0)
    then have "1 * 2 ^ 64 \<le> unat hi * (2 ^ 64 :: nat)" by (intro mult_right_mono) auto
    then have "2 ^ 64 \<le> o' * nat d" unfolding e [symmetric] by linarith
    with False show ?thesis by simp
  qed
  assume lt: "unat res + o' * nat d < 2 ^ 64"
  then have "unat res + unat lo < 2 ^ 64" using e by linarith
  then have s: "unat (res + lo) = unat res + unat lo" by (intro unat_add_no_wrap) simp
  have "unat hi = 0" using lt e by (cases "unat hi") auto
  then show "unat (res + lo) = unat res + o' * nat d" using s e by simp
qed

lemma decode_loop_value:
  assumes "length cs + k \<le> 11" and "cs \<noteq> [] \<Longrightarrow> unat order = 58 ^ k"
  shows "decode_loop cs res order =
    (if valid58 cs \<and> unat res + 58 ^ k * val58 cs < 2 ^ 64 then Some (word_of_nat (unat res + 58 ^ k * val58 cs)) else None)"
  using assms
proof (induction cs arbitrary: k res order)
  case Nil
  then show ?case by (simp add: valid58_def)
next
  case (Cons c cs)
  let ?d = "reverse_alphabet c"
  obtain lo hi where m: "mul128 order (word_of_int ?d) = (lo, hi)" by fastforce
  have o: "unat order = 58 ^ k" using Cons.prems by simp
  show ?case
  proof (cases "0 \<le> ?d")
    case False
    then show ?thesis by (simp add: valid58_def)
  next
    case True
    note step = decode_loop_step [OF m o True alphabet_reverse_alphabet(1) [OF True], of res]
    have total: "unat res + 58 ^ k * val58 (c # cs) = (unat res + 58 ^ k * nat ?d) + 58 ^ Suc k * val58 cs"
      by (simp add: algebra_simps)
    show ?thesis
    proof (cases "unat res + 58 ^ k * nat ?d < 2 ^ 64")
      case False
      then show ?thesis using True step(1) m total by simp
    next
      case lt: True
      have "unat (order * 58) = 58 ^ Suc k" if "cs \<noteq> []"
      proof -
        from that have "Suc k \<le> 10" using Cons.prems(1) by (cases cs) auto
        then have "(58 :: nat) ^ Suc k \<le> 58 ^ 10" by (intro power_increasing) auto
        then have "unat order * unat (58 :: u64) < 2 ^ 64" using o by simp
        then show ?thesis using o by (subst unat_mult_no_wrap) simp_all
      qed
      then have "decode_loop cs (res + lo) (order * 58) =
          (if valid58 cs \<and> unat (res + lo) + 58 ^ Suc k * val58 cs < 2 ^ 64
           then Some (word_of_nat (unat (res + lo) + 58 ^ Suc k * val58 cs)) else None)"
        using Cons.prems(1) by (intro Cons.IH) auto
      moreover have "\<not> (res + lo < res \<or> 0 \<noteq> hi)" using step(1) lt by simp
      moreover have "valid58 (c # cs) = valid58 cs" using True by (simp add: valid58_def)
      ultimately show ?thesis
        using True m step(2) [OF lt] unfolding total by simp
    qed
  qed
qed

section \<open>Big-endian numbers\<close>

lemma foldl_be:
  "256 ^ length bs * (unat r + 1) \<le> 2 ^ 64 \<Longrightarrow>
   unat (foldl (\<lambda>res b. push_bit 8 res OR ucast b) (r :: u64) bs) = foldl (\<lambda>a b. 256 * a + unat b) (unat r) (bs :: bytes)"
proof (induction bs arbitrary: r)
  case Nil
  then show ?case by simp
next
  case (Cons b bs)
  have p: "1 \<le> (256 :: nat) ^ length bs" by simp
  have "256 * (unat r + 1) \<le> 256 ^ length bs * (256 * (unat r + 1))"
    using mult_right_mono [OF p, of "256 * (unat r + 1)"] by simp
  also have "\<dots> \<le> 2 ^ 64" using Cons.prems by (simp add: algebra_simps)
  finally have r: "unat r * 2 ^ 8 < 2 ^ 64" by simp
  have u: "unat (push_bit 8 r OR ucast b) = 256 * unat r + unat b"
    using unat_shift_or [of "ucast b :: u64" 8 r] r unat_ucast_up [of b, where 'b = 64] by simp
  have "256 ^ length bs * (256 * unat r + unat b + 1) \<le> 256 ^ length bs * (256 * (unat r + 1))"
  proof (intro mult_left_mono)
    have "unat b + 1 \<le> 256" using unat_u8_bound [of b] by (simp only: Suc_eq_plus1 [symmetric] Suc_le_eq)
    then show "256 * unat r + unat b + 1 \<le> 256 * (unat r + 1)" by simp
  qed simp
  also have "\<dots> \<le> 2 ^ 64" using Cons.prems by (simp add: algebra_simps)
  finally show ?case using Cons.IH [of "push_bit 8 r OR ucast b"] u by simp
qed

lemma uint_8be_to_64_value: "length bs \<le> 8 \<Longrightarrow> unat (uint_8be_to_64 bs (length bs)) = be_val bs"
proof -
  assume "length bs \<le> 8"
  then have "(256 :: nat) ^ length bs \<le> 256 ^ 8" by (intro power_increasing) auto
  then show ?thesis
    unfolding uint_8be_to_64_def be_val_def using foldl_be [of bs 0] by simp
qed


lemma unat_byte: "unat (ucast (drop_bit (8 * i) (w :: u64)) :: u8) = unat w div 256 ^ i mod 256"
  using unat_ucast_mod [of "drop_bit (8 * i) w", where 'b = 8] unat_drop_bit_div [of "8 * i" w]
  by (simp add: power_mult)

lemma memory_SWAP64:
  "memory_u64 (SWAP64 w) = map (\<lambda>i. ucast (drop_bit (8 * i) w)) [7, 6, 5, 4, 3, 2, 1, 0]"
proof -
  have "(ucast (drop_bit (8 * i) (SWAP64 w)) :: u8) = ucast (drop_bit (8 * (7 - i)) w)" if "i < 8" for i
  proof (rule bit_word_eqI)
    fix n assume "n < LENGTH(8)"
    then have n: "n < 8" by simp
    then have "8 * i + n < 64" using that by linarith
    then have "bit (SWAP64 w) (8 * i + n) = bit w (8 * (7 - i) + n)"
      using bit_SWAP64 [of "8 * i + n" w] n by simp
    then show "bit (ucast (drop_bit (8 * i) (SWAP64 w)) :: u8) n = bit (ucast (drop_bit (8 * (7 - i)) w) :: u8) n"
      using n by (simp add: bit_simps)
  qed
  from this [of 0] this [of 1] this [of 2] this [of 3] this [of 4] this [of 5] this [of 6] this [of 7]
  show ?thesis by (simp add: memory_u64_def)
qed

lemma be_val_bytes:
  "be_val (map (\<lambda>i. ucast (drop_bit (8 * i) (w :: u64))) (rev [0..<n])) = unat w mod 256 ^ n"
proof (induction n)
  case 0
  then show ?case by simp
next
  case (Suc n)
  have "be_val (x # xs) = unat x * 256 ^ length xs + be_val xs" for x :: u8 and xs
    by (simp add: be_val_le_val_rev le_val_append)
  then show ?case
    using Suc unat_byte [of n w] mod_mult2_eq [of "unat w" "256 ^ n" 256]
    by (simp add: mult.commute)
qed

lemma uint_64_to_8be_value:
  assumes "n \<le> 8" and "unat w < 256 ^ n"
  shows "length (uint_64_to_8be w n) = n \<and> be_val (uint_64_to_8be w n) = unat w"
proof -
  have "[7, 6, 5, 4, 3, 2, 1, 0] = rev [0..<8 :: nat]" by code_simp
  moreover have "drop (8 - n) (rev [0..<8]) = rev [0..<n]"
    using assms(1) by (simp add: drop_rev)
  ultimately have e: "uint_64_to_8be w n = map (\<lambda>i. ucast (drop_bit (8 * i) w)) (rev [0..<n])"
    by (simp add: uint_64_to_8be_def Let_def memory_SWAP64 drop_map del: upt_rec_numeral)
  show ?thesis
    unfolding e using be_val_bytes [of w n] assms(2) by simp
qed

section \<open>Blocks\<close>

text \<open>A block of \<open>n\<close> bytes and its encoding.\<close>

definition enc_spec :: "bytes \<Rightarrow> bytes" where
  "enc_spec bs = digits58 (encoded_block_sizes ! length bs) (be_val bs)"

lemma capacity: "n \<le> 8 \<Longrightarrow> x < 256 ^ n \<Longrightarrow> x < (58 :: nat) ^ (encoded_block_sizes ! n)"
proof -
  assume "n \<le> 8" and x: "x < 256 ^ n"
  then have "(256 :: int) ^ n \<le> 58 ^ (encoded_block_sizes ! n)" using block_capacity by auto
  then have "(256 :: nat) ^ n \<le> 58 ^ (encoded_block_sizes ! n)"
    by (metis of_nat_le_iff of_nat_numeral of_nat_power)
  with x show ?thesis by linarith
qed

lemma encode_block_spec: "length bs \<le> 8 \<Longrightarrow> encode_block bs (length bs) = Some (enc_spec bs)"
proof -
  assume n: "length bs \<le> 8"
  have "unat (uint_8be_to_64 bs (length bs)) < 58 ^ (encoded_block_sizes ! length bs)"
    using capacity [OF n be_val_bound] uint_8be_to_64_value [OF n] by simp
  from encode_loop_digits [OF this, of "[]"] show ?thesis
    using uint_8be_to_64_value [OF n] by (simp add: encode_block_def Let_def enc_spec_def)
qed


lemma decoded_size: "n \<le> 8 \<Longrightarrow> decoded_block_sizes (encoded_block_sizes ! n) = int n"
proof -
  have "\<forall>n \<in> set [0..<9]. decoded_block_sizes (encoded_block_sizes ! n) = int n" by code_simp
  moreover assume "n \<le> 8"
  ultimately show ?thesis by auto
qed

lemma decoded_size_inv:
  assumes "m \<le> 11" and "0 \<le> decoded_block_sizes m"
  shows "nat (decoded_block_sizes m) \<le> 8 \<and> encoded_block_sizes ! nat (decoded_block_sizes m) = m"
proof -
  have "\<forall>m \<in> set [0..<12]. decoded_block_sizes m < 0 \<or>
      decoded_block_sizes m \<le> 8 \<and> encoded_block_sizes ! nat (decoded_block_sizes m) = m" by code_simp
  from upt_ball [OF this, of m] assms show ?thesis by auto
qed

lemma encoded_sizes_bound:
  assumes "n \<le> 8"
  shows "encoded_block_sizes ! n \<le> 11" and "0 < n \<Longrightarrow> 0 < encoded_block_sizes ! n"
    and "n < 8 \<Longrightarrow> encoded_block_sizes ! n < 11"
proof -
  have "\<forall>n \<in> set [0..<9]. encoded_block_sizes ! n \<le> 11 \<and> (n = 0 \<or> 0 < encoded_block_sizes ! n)
      \<and> (n = 8 \<or> encoded_block_sizes ! n < 11)" by code_simp
  from upt_ball [OF this, of n] assms
  show "encoded_block_sizes ! n \<le> 11" and "0 < n \<Longrightarrow> 0 < encoded_block_sizes ! n"
    and "n < 8 \<Longrightarrow> encoded_block_sizes ! n < 11" by auto
qed

lemma decode_loop_block:
  assumes "length cs \<le> 11"
  shows "decode_loop (rev cs) 0 1 = (if valid58 cs \<and> val58 (rev cs) < 2 ^ 64 then Some (word_of_nat (val58 (rev cs))) else None)"
  using decode_loop_value [of "rev cs" 0 1 0] assms by (simp add: valid58_def)

text \<open>\<open>decode_block\<close> accepts exactly the encodings of blocks.\<close>

lemma decode_block_iff:
  assumes "length cs \<le> 11"
  shows "decode_block cs (length cs) = Some bs \<longleftrightarrow> bs \<noteq> [] \<and> length bs \<le> 8 \<and> cs = enc_spec bs"
proof
  assume d: "decode_block cs (length cs) = Some bs"
  define n where "n = nat (decoded_block_sizes (length cs))"
  define x where "x = val58 (rev cs)"
  from d have pos: "0 < decoded_block_sizes (length cs)" by (auto simp: decode_block_def Let_def split: if_splits)
  then have n: "0 < n" "n \<le> 8" "encoded_block_sizes ! n = length cs"
    using decoded_size_inv [OF assms] by (auto simp: n_def)
  from d pos have v: "valid58 cs" "x < 2 ^ 64" and guard: "\<not> (n < 8 \<and> push_bit (8 * n) 1 \<le> (word_of_nat x :: u64))"
    and bs: "bs = uint_64_to_8be (word_of_nat x) n"
    by (auto simp: decode_block_def Let_def decode_loop_block [OF assms] n_def x_def split: if_splits)
  have ux: "unat (word_of_nat x :: u64) = x" using v(2) by (intro unat_of_nat_small) simp
  have xn: "x < 256 ^ n"
  proof (cases "n = 8")
    case True
    then show ?thesis using v(2) by simp
  next
    case False
    then have "(2 :: nat) ^ (8 * n) \<le> 2 ^ 56" using n(2) by (intro power_increasing) auto
    then have "unat (push_bit (8 * n) 1 :: u64) = 2 ^ (8 * n)"
      unfolding unat_push_bit_mod by simp
    then show ?thesis
      using guard False n(2) ux by (auto simp: word_le_nat_alt power_mult)
  qed
  have b: "length bs = n" "be_val bs = x"
    using uint_64_to_8be_value [of n "word_of_nat x"] n(2) xn ux bs by auto
  then have "enc_spec bs = cs"
    using val58_digits58 [OF v(1)] n(3) by (simp add: enc_spec_def x_def)
  with b n show "bs \<noteq> [] \<and> length bs \<le> 8 \<and> cs = enc_spec bs" by auto
next
  assume a: "bs \<noteq> [] \<and> length bs \<le> 8 \<and> cs = enc_spec bs"
  define n x where "n = length bs" and "x = be_val bs"
  have n: "0 < n" "n \<le> 8" "length cs = encoded_block_sizes ! n"
    using a by (auto simp: n_def enc_spec_def)
  have x: "x < 256 ^ n" unfolding x_def n_def by (rule be_val_bound)
  then have x64: "x < 2 ^ 64"
    using power_increasing [OF n(2), of "256 :: nat"] by simp
  have "valid58 cs \<and> val58 (rev cs) = x"
    using digits58_val58 [OF capacity [OF n(2) x]] a by (simp add: enc_spec_def x_def n_def)
  then have l: "decode_loop (rev cs) 0 1 = Some (word_of_nat x)"
    using decode_loop_block [OF assms] x64 by simp
  have ux: "unat (word_of_nat x :: u64) = x" using x64 by (intro unat_of_nat_small) simp
  have guard: "\<not> (n < 8 \<and> push_bit (8 * n) 1 \<le> (word_of_nat x :: u64))"
  proof
    assume g: "n < 8 \<and> push_bit (8 * n) 1 \<le> (word_of_nat x :: u64)"
    then have "(2 :: nat) ^ (8 * n) \<le> 2 ^ 56" by (intro power_increasing) auto
    then have "unat (push_bit (8 * n) 1 :: u64) = 2 ^ (8 * n)" unfolding unat_push_bit_mod by simp
    with g ux x show False by (auto simp: word_le_nat_alt power_mult)
  qed
  have "uint_64_to_8be (word_of_nat x) n = bs"
    using uint_64_to_8be_value [of n "word_of_nat x"] n(2) x ux by (intro be_val_inject) (auto simp: n_def x_def)
  then show "decode_block cs (length cs) = Some bs"
    using l guard n decoded_size [OF n(2)] by (simp add: decode_block_def Let_def)
qed


section \<open>Strings\<close>

lemma encode_block_take: "encode_block data 8 = encode_block (take 8 data) 8"
  "decode_block data 11 = decode_block (take 11 data) 11"
  by (simp_all add: encode_block_def decode_block_def uint_8be_to_64_def Let_def)

text \<open>The blocks of a string: eight bytes each, the last one shorter.\<close>

fun enc_string :: "nat \<Rightarrow> bytes \<Rightarrow> bytes" where
  "enc_string 0 data = (if data = [] then [] else enc_spec data)"
| "enc_string (Suc n) data = enc_spec (take 8 data) @ enc_string n (drop 8 data)"

lemma enc_spec_length: "length bs \<le> 8 \<Longrightarrow> length (enc_spec bs) = encoded_block_sizes ! length bs"
  by (simp add: enc_spec_def)

lemma encode_blocks_spec:
  "length data div 8 = n \<Longrightarrow> encode_blocks n data = Some (enc_string n data)"
proof (induction n arbitrary: data)
  case 0
  then have "length data < 8" by (simp add: div_eq_0_iff)
  then show ?case using encode_block_spec [of data] by simp
next
  case (Suc n)
  then have l: "8 \<le> length data" by (cases "length data < 8") auto
  then have "encode_block data 8 = Some (enc_spec (take 8 data))"
    using encode_block_spec [of "take 8 data"] encode_block_take(1) [of data] by simp
  moreover have "length (drop 8 data) div 8 = n" using Suc.prems l by (simp add: le_div_geq)
  ultimately show ?case using Suc.IH [of "drop 8 data"] by simp
qed

lemma enc_string_length:
  "length data div 8 = n \<Longrightarrow> length (enc_string n data) = 11 * n + encoded_block_sizes ! (length data mod 8)"
proof (induction n arbitrary: data)
  case 0
  then have "length data < 8" by (simp add: div_eq_0_iff)
  then show ?case by (auto simp: enc_spec_length encoded_block_sizes_def)
next
  case (Suc n)
  then have l: "8 \<le> length data" by (cases "length data < 8") auto
  have e8: "encoded_block_sizes ! 8 = 11" by (simp add: encoded_block_sizes_def)
  have "length (drop 8 data) div 8 = n" "(length data - 8) mod 8 = length data mod 8"
    using Suc.prems l by (simp_all add: le_div_geq le_mod_geq)
  then show ?case using Suc.IH [of "drop 8 data"] l e8 by (simp add: enc_spec_length)
qed

lemma decode_blocks_iff:
  assumes "length enc div 11 = n"
  shows "decode_blocks n enc = Some data \<longleftrightarrow> length data div 8 = n \<and> enc = enc_string n data"
  using assms
proof (induction n arbitrary: enc data)
  case 0
  then have l: "length enc < 11" by (simp add: div_eq_0_iff)
  show ?case
  proof (cases "enc = []")
    case True
    have "enc_spec data \<noteq> []" if "data \<noteq> []" "length data < 8"
    proof -
      have "0 < encoded_block_sizes ! length data"
        using that by (intro encoded_sizes_bound(2)) auto
      then show ?thesis using enc_spec_length [of data] that(2) by auto
    qed
    with True show ?thesis by (auto simp: div_eq_0_iff)
  next
    case False
    have "length data \<noteq> 8" if "enc = enc_spec data"
      using l that enc_spec_length [of data] by (auto simp: encoded_block_sizes_def)
    then show ?thesis
      using False decode_block_iff [of enc data] l by (auto simp: div_eq_0_iff nat_less_le)
  qed
next
  case (Suc n)
  then have l: "11 \<le> length enc" by (cases "length enc < 11") auto
  have IH: "decode_blocks n (drop 11 enc) = Some r \<longleftrightarrow> length r div 8 = n \<and> drop 11 enc = enc_string n r" for r
    using Suc.prems l by (intro Suc.IH) (simp add: le_div_geq)
  have blk: "decode_block enc 11 = Some b \<longleftrightarrow> length b = 8 \<and> take 11 enc = enc_spec b" for b
  proof -
    have "decode_block enc 11 = Some b \<longleftrightarrow> b \<noteq> [] \<and> length b \<le> 8 \<and> take 11 enc = enc_spec b"
      using decode_block_iff [of "take 11 enc" b] encode_block_take(2) [of enc] l by simp
    moreover have "length b = 8" if "length b \<le> 8" "take 11 enc = enc_spec b"
      using that l enc_spec_length [of b] encoded_sizes_bound(3) [of "length b"]
      by (metis le_neq_implies_less length_take min.absorb2 nat_less_le)
    ultimately show ?thesis by auto
  qed
  have "decode_blocks (Suc n) enc = Some data \<longleftrightarrow>
      (\<exists>b r. length b = 8 \<and> take 11 enc = enc_spec b \<and> length r div 8 = n \<and> drop 11 enc = enc_string n r \<and> data = b @ r)"
  proof -
    have "decode_blocks (Suc n) enc = Some data \<longleftrightarrow>
        (\<exists>b r. decode_block enc 11 = Some b \<and> decode_blocks n (drop 11 enc) = Some r \<and> data = b @ r)"
      by (auto split: option.splits)
    then show ?thesis unfolding blk IH by auto
  qed
  also have "\<dots> \<longleftrightarrow> length data div 8 = Suc n \<and> enc = enc_string (Suc n) data"
  proof
    assume "\<exists>b r. length b = 8 \<and> take 11 enc = enc_spec b \<and> length r div 8 = n \<and> drop 11 enc = enc_string n r \<and> data = b @ r"
    then obtain b r where br: "length b = 8" "take 11 enc = enc_spec b" "length r div 8 = n"
        "drop 11 enc = enc_string n r" "data = b @ r" by blast
    then have "enc = enc_spec b @ enc_string n r" by (metis append_take_drop_id)
    then show "length data div 8 = Suc n \<and> enc = enc_string (Suc n) data" using br by simp
  next
    assume a: "length data div 8 = Suc n \<and> enc = enc_string (Suc n) data"
    then have ld: "8 \<le> length data" by (cases "length data < 8") auto
    then have "length (enc_spec (take 8 data)) = 11"
      using enc_spec_length [of "take 8 data"] by (simp add: encoded_block_sizes_def)
    then have "take 11 enc = enc_spec (take 8 data)" "drop 11 enc = enc_string n (drop 8 data)"
      using a by simp_all
    moreover have "length (drop 8 data) div 8 = n" using a ld by (simp add: le_div_geq)
    ultimately show "\<exists>b r. length b = 8 \<and> take 11 enc = enc_spec b \<and> length r div 8 = n \<and> drop 11 enc = enc_string n r \<and> data = b @ r"
      using ld by (intro exI [of _ "take 8 data"] exI [of _ "drop 8 data"]) simp
  qed
  finally show ?case .
qed

lemma decode_iff: "decode enc = Some data \<longleftrightarrow> enc = enc_string (length data div 8) data"
proof (cases "enc = []")
  case True
  have "enc_string (length data div 8) data = [] \<longleftrightarrow> data = []"
  proof
    assume "enc_string (length data div 8) data = []"
    then have "length data div 8 = 0" "encoded_block_sizes ! (length data mod 8) = 0"
      using enc_string_length [of data "length data div 8"] by auto
    moreover from this have "length data mod 8 = 0"
      using encoded_sizes_bound(2) [of "length data mod 8"] by fastforce
    ultimately show "data = []" by (simp add: div_eq_0_iff)
  qed simp
  with True show ?thesis by (auto simp: decode_def)
next
  case False
  have m: "length enc mod 11 \<le> 11" using mod_less_divisor [of 11 "length enc"] by linarith
  show ?thesis
  proof
    assume "decode enc = Some data"
    then have "decode_blocks (length enc div 11) enc = Some data"
      using False by (auto simp: decode_def split: if_splits)
    then show "enc = enc_string (length data div 8) data"
      using decode_blocks_iff [OF refl, of enc data] by simp
  next
    assume e: "enc = enc_string (length data div 8) data"
    have r: "encoded_block_sizes ! (length data mod 8) < 11"
      by (intro encoded_sizes_bound(3)) (simp_all add: less_imp_le)
    have len: "length enc = 11 * (length data div 8) + encoded_block_sizes ! (length data mod 8)"
      using e enc_string_length [OF refl, of data] by simp
    then have "length enc div 11 = length data div 8" "length enc mod 11 = encoded_block_sizes ! (length data mod 8)"
      using r by (simp_all add: div_mult_self1 add.commute)
    then show "decode enc = Some data"
      using False decode_blocks_iff [OF refl, of enc data] e decoded_size [of "length data mod 8"]
      by (simp add: decode_def less_imp_le)
  qed
qed

lemma encode_spec: "encode data = Some (enc_string (length data div 8) data)"
  using encode_blocks_spec [OF refl, of data] by (simp add: encode_def)

lemma decode_encode: "decode enc = Some data \<longleftrightarrow> encode data = Some enc"
  by (auto simp: decode_iff encode_spec)

theorem base58_roundtrip: "\<exists>enc. encode data = Some enc \<and> decode enc = Some data"
  by (simp add: decode_iff encode_spec)

theorem base58_decode_canonical: "decode enc = Some data \<longleftrightarrow> encode data = Some enc"
  by (rule decode_encode)

section \<open>Addresses\<close>

text \<open>C40: An encoded address decodes to its tag and payload.\<close>

theorem addr_roundtrip:
  assumes "4 \<le> length (cn_fast_hash (get_varint_data tag @ data))"
  shows "\<exists>addr. encode_addr cn_fast_hash tag data = Some addr \<and> decode_addr cn_fast_hash addr = Some (tag, data)"
proof -
  define buf where "buf = get_varint_data tag @ data"
  define sum where "sum = take 4 (cn_fast_hash buf)"
  have l: "length sum = 4" "0 < length buf"
    using assms write_varint_nonempty [of tag] by (simp_all add: sum_def buf_def get_varint_data_def)
  obtain addr where a: "encode (buf @ sum) = Some addr" using encode_spec by blast
  then have d: "decode addr = Some (buf @ sum)" by (simp add: decode_encode)
  have "read_varint buf = (int (length (write_varint tag)), tag, data)"
    using read_varint_write [of tag data] by (simp add: buf_def get_varint_data_def)
  moreover have "drop (length (write_varint tag)) buf = data" by (simp add: buf_def get_varint_data_def)
  ultimately have "decode_addr cn_fast_hash addr = Some (tag, data)"
    using d l write_varint_nonempty [of tag] by (simp add: decode_addr_def sum_def Let_def)
  moreover have "encode_addr cn_fast_hash tag data = Some addr"
    using a by (simp add: encode_addr_def buf_def sum_def Let_def)
  ultimately show ?thesis by blast
qed

theorem addr_roundtrip_witness:
  "\<exists>addr. encode_addr (\<lambda>b. replicate 32 7) 18 [1, 2, 3] = Some addr \<and>
    decode_addr (\<lambda>b. replicate 32 7) addr = Some (18, [1, 2, 3])"
  by (rule addr_roundtrip) simp

theorem decode_addr_sound:
  assumes "decode_addr cn_fast_hash addr = Some (tag, data)"
  shows "encode_addr cn_fast_hash tag data = Some addr \<or>
    (data = [] \<and> (\<exists>buf. decode addr = Some (buf @ take 4 (cn_fast_hash buf)) \<and> buf \<noteq> [] \<and> list_all (\<lambda>b. 128 \<le> unat b) buf))"
proof -
  from assms obtain d where d: "decode addr = Some d" by (auto simp: decode_addr_def split: option.splits)
  define buf where "buf = take (length d - 4) d"
  obtain read tag' rest where r: "read_varint buf = (read, tag', rest)" by (metis prod_cases3)
  from assms d r have l: "4 < length d" and c: "take 4 (cn_fast_hash buf) = drop (length d - 4) d"
    and pos: "0 < read" and t: "tag' = tag" and data: "data = drop (nat read) buf"
    by (auto simp: decode_addr_def Let_def buf_def split: if_splits)
  have full: "buf @ take 4 (cn_fast_hash buf) = d" using c by (simp add: buf_def)
  consider (whole) "buf = write_varint tag @ rest" "read = int (length (write_varint tag))"
    | (cut) "read = int (length buf)" "\<forall>b \<in> set buf. 128 \<le> unat b"
    using read_varint_cases [OF r] pos t by auto
  then show ?thesis
  proof cases
    case whole
    then have "get_varint_data tag @ data = buf" by (simp add: data get_varint_data_def)
    then have "encode_addr cn_fast_hash tag data = Some addr"
      using d full by (simp add: encode_addr_def Let_def decode_encode)
    then show ?thesis by simp
  next
    case cut
    then show ?thesis using data d full pos by (auto simp: list_all_iff)
  qed
qed

theorem decode_addr_sound_witness:
  "\<exists>addr. encode_addr (\<lambda>b. replicate 32 7) 18 [1] = Some addr \<and> decode_addr (\<lambda>b. replicate 32 7) addr = Some (18, [1])"
proof -
  have "\<exists>addr. decode_addr (\<lambda>b. replicate 32 7) addr = Some (18, [1])"
    by (rule exI [of _ "the (encode_addr (\<lambda>b. replicate 32 7) 18 [1])"]) code_simp
  then obtain addr where "decode_addr (\<lambda>b. replicate 32 7) addr = Some (18, [1])" by blast
  with decode_addr_sound [OF this] show ?thesis by auto
qed

end
