(* ===== verification/Difficulty.thy ===== *)
theory Difficulty
  imports IntUtil
begin

unbundle bit_operations_syntax

text \<open>
  \<open>src/currency_core/difficulty.cpp\<close>: the proof-of-work test and the retargeting rule. A hash is its
  four 64-bit words, least significant first, as the code reads it on a little-endian machine
  (\<open>swap64le\<close> is the identity there). \<open>wide_difficulty_type\<close> is Boost's unchecked 128-bit integer,
  \<open>u128\<close> here; the 256 and 512-bit intermediate values never exceed their width and are natural
  numbers. \<open>std::sort\<close> is \<open>sort\<close>. The code is compiled without \<open>assert\<close>, so that the assertions are
  not part of the model; the lemmas show where they hold.
\<close>

section \<open>Definitions\<close>

definition DIFFICULTY_TARGET :: u64 where
  "DIFFICULTY_TARGET = 60"

definition DIFFICULTY_WINDOW :: nat where
  "DIFFICULTY_WINDOW = 720"

definition DIFFICULTY_CUT :: nat where
  "DIFFICULTY_CUT = 60"

text \<open>\<open>mul\<close>: the low and the high word of the product.\<close>

definition mul :: "u64 \<Rightarrow> u64 \<Rightarrow> u64 \<times> u64" where
  "mul a b = (let res = (ucast a :: u128) * ucast b in (ucast res, ucast (drop_bit 64 res)))"

definition cadd :: "u64 \<Rightarrow> u64 \<Rightarrow> bool" where
  "cadd a b \<longleftrightarrow> a + b < a"

definition cadc :: "u64 \<Rightarrow> u64 \<Rightarrow> bool \<Rightarrow> bool" where
  "cadc a b c \<longleftrightarrow> a + b < a \<or> (c \<and> a + b = - 1)"

definition check_hash_old :: "u64 list \<Rightarrow> u64 \<Rightarrow> bool" where
  "check_hash_old hash difficulty =
    (let (top, high) = mul (hash ! 3) difficulty
     in if high \<noteq> 0 then False
        else let (low, cur) = mul (hash ! 0) difficulty;
                 (low, high) = mul (hash ! 1) difficulty;
                 carry = cadd cur low;
                 cur = high;
                 (low, high) = mul (hash ! 2) difficulty;
                 carry = cadc cur low carry;
                 carry = cadc high top carry
             in \<not> carry)"

definition max64bit :: u128 where
  "max64bit = 18446744073709551615"

definition max128bit :: nat where
  "max128bit = 2 ^ 128 - 1"

definition max256bit :: nat where
  "max256bit = 2 ^ 256 - 1"

definition uint128_n2b :: "u64 \<times> u64 \<Rightarrow> u128" where
  "uint128_n2b n = (case n of (upper, lower) \<Rightarrow> push_bit 64 (ucast upper) + ucast lower)"

definition uint128_b2n :: "u128 \<Rightarrow> u64 \<times> u64" where
  "uint128_b2n b =
    (let highpart = ucast (drop_bit 64 b); lowpart = ucast (drop_bit 64 (push_bit 64 b)) in (highpart, lowpart))"

text \<open>
  In the second branch the loop ors the words into \<open>hashVal\<close>; the statement \<open>hashVal << 64;\<close> that
  follows each of them has no effect.
\<close>

definition check_hash :: "u64 list \<Rightarrow> u128 \<Rightarrow> bool" where
  "check_hash hash difficulty =
    (if difficulty < max64bit then
       let dl = (ucast difficulty :: u64);
           (top, high) = mul (hash ! 3) dl
       in if high \<noteq> 0 then False
          else let (low, cur) = mul (hash ! 0) dl;
                   (low, high) = mul (hash ! 1) dl;
                   carry = cadd cur low;
                   cur = high;
                   (low, high) = mul (hash ! 2) dl;
                   carry = cadc cur low carry;
                   carry = cadc high top carry
               in \<not> carry
     else if hash ! 3 > 0 then False
     else let hashVal = fold (\<lambda>i v. v OR unat (hash ! (3 - i))) [1, 2, 3] 0
          in hashVal * unat difficulty > max256bit)"

text \<open>The window of \<open>next_difficulty\<close>: the first 720 entries, sorted, less 60 at each end.\<close>

definition cut_window :: "nat \<Rightarrow> nat \<times> nat" where
  "cut_window len =
    (if len \<le> DIFFICULTY_WINDOW - 2 * DIFFICULTY_CUT then (0, len)
     else let cut_begin = (len - (DIFFICULTY_WINDOW - 2 * DIFFICULTY_CUT) + 1) div 2
          in (cut_begin, cut_begin + (DIFFICULTY_WINDOW - 2 * DIFFICULTY_CUT)))"

definition next_difficulty_old :: "u64 list \<Rightarrow> u64 list \<Rightarrow> u64 \<Rightarrow> u64" where
  "next_difficulty_old timestamps cumulative_difficulties target_seconds =
    (let timestamps = take DIFFICULTY_WINDOW timestamps;
         cumulative_difficulties = take DIFFICULTY_WINDOW cumulative_difficulties;
         len = length timestamps
     in if len \<le> 1 then 1
        else let timestamps = sort timestamps;
                 (cut_begin, cut_end) = cut_window len;
                 time_span = timestamps ! (cut_end - 1) - timestamps ! cut_begin;
                 time_span = (if time_span = 0 then 1 else time_span);
                 total_work = cumulative_difficulties ! (cut_end - 1) - cumulative_difficulties ! cut_begin;
                 (low, high) = mul total_work target_seconds
             in if high \<noteq> 0 \<or> low + time_span - 1 < low then 0
                else (low + time_span - 1) div time_span)"

definition next_difficulty :: "u64 list \<Rightarrow> u128 list \<Rightarrow> u64 \<Rightarrow> u128" where
  "next_difficulty timestamps cumulative_difficulties target_seconds =
    (let timestamps = take DIFFICULTY_WINDOW timestamps;
         cumulative_difficulties = take DIFFICULTY_WINDOW cumulative_difficulties;
         len = length timestamps
     in if len \<le> 1 then 1
        else let timestamps = sort timestamps;
                 (cut_begin, cut_end) = cut_window len;
                 time_span = timestamps ! (cut_end - 1) - timestamps ! cut_begin;
                 time_span = (if time_span = 0 then 1 else time_span);
                 total_work = cumulative_difficulties ! (cut_end - 1) - cumulative_difficulties ! cut_begin;
                 res = (unat total_work * unat target_seconds + unat time_span - 1) div unat time_span
             in if res > max128bit then 0 else word_of_nat res)"

definition next_difficulty_default :: "u64 list \<Rightarrow> u128 list \<Rightarrow> u128" where
  "next_difficulty_default timestamps cumulative_difficulties =
    next_difficulty timestamps cumulative_difficulties DIFFICULTY_TARGET"

section \<open>The proof-of-work test\<close>

text \<open>The number a hash denotes.\<close>

definition hash_val :: "u64 list \<Rightarrow> nat" where
  "hash_val h = unat (h ! 0) + 2 ^ 64 * unat (h ! 1) + 2 ^ 128 * unat (h ! 2) + 2 ^ 192 * unat (h ! 3)"

lemma mul_mul128: "mul a b = mul128 a b"
  by (simp add: mul_def mul128_def Let_def)

lemma mul_exact: "mul a b = (lo, hi) \<Longrightarrow> unat hi * 2 ^ 64 + unat lo = unat a * unat b"
  unfolding mul_mul128 by (rule mul128_exact)

lemma cadd_iff: "cadd a b \<longleftrightarrow> 2 ^ 64 \<le> unat a + unat b"
  unfolding cadd_def using add_carry_iff [of a b] by simp

lemma cadc_iff: "cadc a b c \<longleftrightarrow> 2 ^ 64 \<le> unat a + unat b + of_bool c"
proof (cases "2 ^ 64 \<le> unat a + unat b")
  case True
  then show ?thesis using add_carry_iff [of a b] by (simp add: cadc_def)
next
  case False
  have m: "unat (- 1 :: u64) = 2 ^ 64 - 1" by (simp add: unsigned_minus_1_eq_mask mask_eq_exp_minus_1)
  have "a + b = - 1 \<longleftrightarrow> unat a + unat b = 2 ^ 64 - 1"
    unfolding word_unat_eq_iff m using False by (simp add: unat_add_no_wrap)
  then show ?thesis using add_carry_iff [of a b] False by (auto simp: cadc_def)
qed

text \<open>Four columns with carries: the sum overflows iff the last carry is set.\<close>

lemma column_carry:
  fixes l0 h0 l1 h1 l2 h2 t :: nat
  assumes "l0 < X" "h0 < X" "l1 < X" "h1 < X" "l2 < X" "h2 < X" "t < X" "0 < X"
  defines "c1 \<equiv> of_bool (X \<le> h0 + l1) :: nat"
  defines "c2 \<equiv> of_bool (X \<le> h1 + l2 + c1) :: nat"
  shows "X ^ 4 \<le> (h0 * X + l0) + X * (h1 * X + l1) + X ^ 2 * (h2 * X + l2) + X ^ 3 * t \<longleftrightarrow> X \<le> h2 + t + c2"
proof -
  define s1 where "s1 = h0 + l1 - X * c1"
  define s2 where "s2 = h1 + l2 + c1 - X * c2"
  have s1: "h0 + l1 = s1 + X * c1" "s1 < X" using assms by (auto simp: s1_def c1_def)
  have s2: "h1 + l2 + c1 = s2 + X * c2" "s2 < X" using assms by (auto simp: s2_def c2_def c1_def)
  have "(h0 * X + l0) + X * (h1 * X + l1) + X ^ 2 * (h2 * X + l2) + X ^ 3 * t
      = l0 + X * (h0 + l1) + X ^ 2 * (h1 + l2) + X ^ 3 * (h2 + t)"
    by (simp add: algebra_simps power2_eq_square power3_eq_cube)
  also have "\<dots> = (l0 + X * s1 + X ^ 2 * s2) + X ^ 3 * (h2 + t + c2)"
    unfolding s1 using s2(1) by (simp add: algebra_simps power2_eq_square power3_eq_cube) (metis add.assoc add.commute distrib_left)
  finally have e: "(h0 * X + l0) + X * (h1 * X + l1) + X ^ 2 * (h2 * X + l2) + X ^ 3 * t
      = (l0 + X * s1 + X ^ 2 * s2) + X ^ 3 * (h2 + t + c2)" .
  have "l0 + X * s1 + X ^ 2 * s2 < X ^ 3"
  proof -
    have "l0 + X * s1 < X + X * s1" using assms(1) by simp
    also have "\<dots> \<le> X * X" using s1(2) mult_le_mono2 [of "Suc s1" X X] by simp
    finally have "l0 + X * s1 < X ^ 2" by (simp add: power2_eq_square)
    moreover have "X ^ 2 + X ^ 2 * s2 \<le> X ^ 2 * X" using s2(2) mult_le_mono2 [of "Suc s2" X "X ^ 2"] by simp
    ultimately show ?thesis by (simp add: power3_eq_cube power2_eq_square)
  qed
  then show ?thesis
    unfolding e
  proof (cases "X \<le> h2 + t + c2")
    case True
    then have "X ^ 3 * X \<le> X ^ 3 * (h2 + t + c2)" by simp
    moreover have "X ^ 4 = X ^ 3 * X" by (simp add: power4_eq_xxxx power3_eq_cube)
    ultimately show "X ^ 4 \<le> l0 + X * s1 + X ^ 2 * s2 + X ^ 3 * (h2 + t + c2) \<longleftrightarrow> X \<le> h2 + t + c2"
      using True trans_le_add2 by metis
  next
    case False
    then have "X ^ 3 * (h2 + t + c2) + X ^ 3 \<le> X ^ 3 * X" using mult_le_mono2 [of "Suc (h2 + t + c2)" X "X ^ 3"] by simp
    moreover assume "l0 + X * s1 + X ^ 2 * s2 < X ^ 3"
    ultimately show "X ^ 4 \<le> l0 + X * s1 + X ^ 2 * s2 + X ^ 3 * (h2 + t + c2) \<longleftrightarrow> X \<le> h2 + t + c2"
      using False by (simp add: power4_eq_xxxx power3_eq_cube)
  qed
qed

lemma four_words_carry:
  assumes m: "mul h0 d = (l0, u0)" "mul h1 d = (l1, u1)" "mul h2 d = (l2, u2)" "mul h3 d = (t, 0)"
  shows "cadc u2 t (cadc u1 l2 (cadd u0 l1)) \<longleftrightarrow>
    2 ^ 256 \<le> (unat h0 + 2 ^ 64 * unat h1 + 2 ^ 128 * unat h2 + 2 ^ 192 * unat h3) * unat d"
proof -
  note e = m [THEN mul_exact]
  have t: "unat t = unat h3 * unat d" using e(4) by simp
  have "(2 ^ 64) ^ 4 \<le> (unat u0 * 2 ^ 64 + unat l0) + 2 ^ 64 * (unat u1 * 2 ^ 64 + unat l1)
      + (2 ^ 64) ^ 2 * (unat u2 * 2 ^ 64 + unat l2) + (2 ^ 64) ^ 3 * unat t
    \<longleftrightarrow> 2 ^ 64 \<le> unat u2 + unat t + of_bool (2 ^ 64 \<le> unat u1 + unat l2 + of_bool ((2 :: nat) ^ 64 \<le> unat u0 + unat l1))"
    by (rule column_carry) simp_all
  then have "cadc u2 t (cadc u1 l2 (cadd u0 l1)) \<longleftrightarrow>
      (2 ^ 64) ^ 4 \<le> unat h0 * unat d + 2 ^ 64 * (unat h1 * unat d) + (2 ^ 64) ^ 2 * (unat h2 * unat d) + (2 ^ 64) ^ 3 * (unat h3 * unat d)"
    unfolding cadc_iff cadd_iff e(1,2,3) t by simp
  then show ?thesis by (simp add: algebra_simps)
qed

lemma top_word_overflow:
  assumes "mul h3 d = (t, u)" and "u \<noteq> 0"
  shows "2 ^ 256 \<le> (x + 2 ^ 192 * unat h3) * unat d"
proof -
  have "1 \<le> unat u" using assms(2) by (simp add: Suc_le_eq unat_gt_0)
  then have "1 * 2 ^ 64 \<le> unat u * (2 ^ 64 :: nat)" by (intro mult_right_mono) auto
  then have "2 ^ 64 \<le> unat h3 * unat d" using mul_exact [OF assms(1)] by linarith
  then have "2 ^ 192 * 2 ^ 64 \<le> 2 ^ 192 * (unat h3 * unat d)" by (intro mult_left_mono) auto
  then have "2 ^ 192 * 2 ^ 64 \<le> x * unat d + 2 ^ 192 * (unat h3 * unat d)" by (rule trans_le_add2)
  then show ?thesis unfolding distrib_right mult.assoc power_add [symmetric] by simp
qed

lemma small_check:
  "(let (top, high) = mul (hash ! 3) d
    in if high \<noteq> 0 then False
       else let (low, cur) = mul (hash ! 0) d;
                (low, high) = mul (hash ! 1) d;
                carry = cadd cur low;
                cur = high;
                (low, high) = mul (hash ! 2) d;
                carry = cadc cur low carry;
                carry = cadc high top carry
            in \<not> carry) \<longleftrightarrow> hash_val hash * unat d < 2 ^ 256"
proof -
  obtain l0 u0 l1 u1 l2 u2 t u where m: "mul (hash ! 0) d = (l0, u0)" "mul (hash ! 1) d = (l1, u1)"
      "mul (hash ! 2) d = (l2, u2)" "mul (hash ! 3) d = (t, u)"
    by (metis surj_pair)
  show ?thesis
  proof (cases "u = 0")
    case True
    then show ?thesis
      using m four_words_carry [OF m(1,2,3), of "hash ! 3" t] by (simp add: hash_val_def not_le)
  next
    case False
    then show ?thesis
      using m top_word_overflow [OF m(4) False] by (simp add: hash_val_def not_less)
  qed
qed

theorem check_hash_old_iff: "check_hash_old hash d \<longleftrightarrow> hash_val hash * unat d < 2 ^ 256"
  unfolding check_hash_old_def by (rule small_check)

theorem check_hash_small_iff:
  assumes "difficulty < max64bit"
  shows "check_hash hash difficulty \<longleftrightarrow> hash_val hash * unat difficulty < 2 ^ 256"
proof -
  have "unat difficulty < 2 ^ 64" using assms by (simp add: max64bit_def word_less_nat_alt)
  then have u: "unat (ucast difficulty :: u64) = unat difficulty"
    using unat_ucast_mod [of difficulty, where 'b = 64] by simp
  show ?thesis
    unfolding check_hash_def using assms small_check [of hash "ucast difficulty"] u by (simp add: Let_def)
qed

theorem check_hash_small_iff_witness:
  "\<not> check_hash [0, 0, 0, 2 ^ 63] 2 \<and> check_hash [0, 0, 0, 2 ^ 62] 2"
  using check_hash_small_iff [of 2 "[0, 0, 0, 2 ^ 63]"] check_hash_small_iff [of 2 "[0, 0, 0, 2 ^ 62]"]
  by (simp add: hash_val_def max64bit_def)

theorem check_hash_wide_rejects:
  assumes "max64bit \<le> difficulty"
  shows "\<not> check_hash hash difficulty"
proof -
  define v where "v = (unat (hash ! 2) OR unat (hash ! 1)) OR unat (hash ! 0)"
  have "v = unat ((hash ! 2 OR hash ! 1) OR hash ! 0)" by (simp add: v_def unsigned_or_eq)
  then have "v < 2 ^ 64" using unat_exp_bound [of "(hash ! 2 OR hash ! 1) OR hash ! 0"] by simp
  moreover have "unat difficulty < 2 ^ 128" using unat_exp_bound [of difficulty] by simp
  ultimately have "v * unat difficulty < 2 ^ 64 * 2 ^ 128" by (intro mult_strict_mono) auto
  also have "\<dots> \<le> max256bit" by (simp add: max256bit_def)
  finally have "\<not> v * unat difficulty > max256bit" by simp
  then show ?thesis
    using assms by (simp add: check_hash_def not_less [symmetric] v_def or.commute or.left_commute)
qed

theorem check_hash_wide_rejects_witness: "\<not> check_hash [1, 0, 0, 0] 18446744073709551615"
  by (rule check_hash_wide_rejects) (simp add: max64bit_def)

lemma uint128_n2b_value: "unat (uint128_n2b (u, l)) = 2 ^ 64 * unat u + unat l"
proof -
  have "unat u \<le> 18446744073709551615" using unat_u64_bound [of u] by linarith
  then have "unat u * 18446744073709551616 + unat l < 340282366920938463463374607431768211456"
    using unat_u64_bound [of l] by linarith
  then have "unat u * 2 ^ 64 + unat l < (2 :: nat) ^ 128" by simp
  then show ?thesis
    by (simp add: uint128_n2b_def unat_push_bit_mod unat_word_ariths unat_ucast_up)
qed

lemma uint128_b2n_value:
  assumes "uint128_b2n b = (u, l)"
  shows "2 ^ 64 * unat u + unat l = unat b"
proof -
  have b: "unat b < 2 ^ 128" using unat_exp_bound [of b] by simp
  have u: "unat u = unat b div 2 ^ 64"
    using assms b by (auto simp: uint128_b2n_def Let_def unat_ucast_mod unat_drop_bit_div)
  have "unat l = (unat b * 2 ^ 64 mod 2 ^ 128) div 2 ^ 64 mod 2 ^ 64"
    using assms by (auto simp: uint128_b2n_def Let_def unat_ucast_mod unat_drop_bit_div unat_push_bit_mod)
  also have "\<dots> = unat b mod 2 ^ 64"
    using mult_mod_left [of "unat b" "2 ^ 64" "2 ^ 64 :: nat"] by simp
  finally show ?thesis using u by simp
qed

lemma uint128_b2n_n2b: "uint128_n2b (uint128_b2n b) = b"
proof -
  obtain u l where e: "uint128_b2n b = (u, l)" by force
  then have "unat (uint128_n2b (uint128_b2n b)) = unat b"
    using uint128_n2b_value uint128_b2n_value [OF e] by simp
  then show ?thesis by (simp add: word_unat_eq_iff)
qed

lemma uint128_n2b_b2n: "uint128_b2n (uint128_n2b n) = n"
proof -
  obtain u l where n: "n = (u, l)" by force
  obtain u' l' where e: "uint128_b2n (uint128_n2b n) = (u', l')" by force
  have "unat l' + 2 ^ 64 * unat u' = unat l + 2 ^ 64 * unat u"
    using uint128_b2n_value [OF e] n uint128_n2b_value by simp
  then have "unat l' = unat l" "unat u' = unat u"
    using mixed_radix_unique [of "unat l'" "2 ^ 64" "unat l" "unat u'" "unat u"] by simp_all
  then show ?thesis using n e by (simp add: word_unat_eq_iff)
qed

section \<open>Retargeting\<close>

lemma cut_window_bounds:
  assumes "2 \<le> len" and "len \<le> DIFFICULTY_WINDOW" and "cut_window len = (b, e)"
  shows "b + 2 \<le> e" and "e \<le> len" and "e - b \<le> DIFFICULTY_WINDOW - 2 * DIFFICULTY_CUT"
  using assms by (auto simp: cut_window_def DIFFICULTY_WINDOW_def DIFFICULTY_CUT_def Let_def split: if_splits)

text \<open>The indices the code reads are in range, and sorting makes the time span exact.\<close>

definition window_span :: "u64 list \<Rightarrow> nat" where
  "window_span timestamps =
    (let t = sort (take DIFFICULTY_WINDOW timestamps); (b, e) = cut_window (length t)
     in max 1 (unat (t ! (e - 1)) - unat (t ! b)))"

definition window_work :: "'a :: len word list \<Rightarrow> nat" where
  "window_work cumulative =
    (let c = take DIFFICULTY_WINDOW cumulative; (b, e) = cut_window (length c)
     in unat (c ! (e - 1)) - unat (c ! b))"

lemma window_span_pos: "0 < window_span timestamps"
  by (auto simp: window_span_def Let_def less_max_iff_disj split: prod.splits)

lemma sorted_diff_unat:
  fixes xs :: "'a :: len word list"
  assumes "sorted xs" and "i \<le> j" and "j < length xs"
  shows "unat (xs ! j - xs ! i) = unat (xs ! j) - unat (xs ! i)"
  using sorted_nth_mono [OF assms] by (rule unat_sub_no_wrap)

lemma time_span_unat:
  assumes "2 \<le> length timestamps" and "cut_window (min (length timestamps) DIFFICULTY_WINDOW) = (b, e)"
  defines "t \<equiv> sort (take DIFFICULTY_WINDOW timestamps)"
  defines "span \<equiv> t ! (e - 1) - t ! b"
  shows "unat (if span = 0 then 1 else span) = window_span timestamps"
proof -
  let ?n = "min (length timestamps) DIFFICULTY_WINDOW"
  have len: "length t = ?n" by (simp add: t_def)
  have "2 \<le> ?n" "?n \<le> DIFFICULTY_WINDOW" using assms(1) by (auto simp: DIFFICULTY_WINDOW_def)
  note be = cut_window_bounds [OF this assms(2)]
  have "unat span = unat (t ! (e - 1)) - unat (t ! b)"
    unfolding span_def by (rule sorted_diff_unat) (use be len in \<open>auto simp: t_def\<close>)
  then show ?thesis
    using assms(2) len unat_eq_zero [of span] by (auto simp: window_span_def t_def Let_def max_def)
qed

lemma total_work_unat:
  assumes "2 \<le> length c" and "sorted c" and "cut_window (min (length c) DIFFICULTY_WINDOW) = (b, e)"
  shows "unat (take DIFFICULTY_WINDOW c ! (e - 1) - take DIFFICULTY_WINDOW c ! b) = window_work c"
proof -
  let ?n = "min (length c) DIFFICULTY_WINDOW"
  have "2 \<le> ?n" "?n \<le> DIFFICULTY_WINDOW" using assms(1) by (auto simp: DIFFICULTY_WINDOW_def)
  note be = cut_window_bounds [OF this assms(3)]
  have "sorted (take DIFFICULTY_WINDOW c)" using assms(2) by (rule sorted_wrt_take)
  moreover have "b \<le> e - 1" "e - 1 < length (take DIFFICULTY_WINDOW c)" using be by auto
  ultimately show ?thesis
    using sorted_diff_unat [of "take DIFFICULTY_WINDOW c" b "e - 1"] assms(3)
    unfolding window_work_def Let_def length_take by (simp del: nth_take)
qed

lemma ceiling_div_le_iff:
  fixes a n d :: nat
  assumes "0 < n"
  shows "(a + n - 1) div n \<le> d \<longleftrightarrow> a \<le> d * n"
proof -
  have "(a + n - 1) div n \<le> d \<longleftrightarrow> (a + n - 1) div n < Suc d" by (simp add: less_Suc_eq_le)
  also have "\<dots> \<longleftrightarrow> a + n - 1 < Suc d * n" by (rule div_less_iff_less_mult [OF assms])
  also have "\<dots> \<longleftrightarrow> a \<le> d * n" using assms by auto
  finally show ?thesis .
qed

lemma next_difficulty_value:
  assumes "2 \<le> length timestamps" and "length cumulative = length timestamps" and "sorted cumulative"
  shows "next_difficulty timestamps cumulative target =
    (let q = (window_work cumulative * unat target + window_span timestamps - 1) div window_span timestamps
     in if q < 2 ^ 128 then word_of_nat q else 0)"
proof -
  obtain b e where be: "cut_window (min (length timestamps) DIFFICULTY_WINDOW) = (b, e)" by force
  have "\<not> min (length timestamps) DIFFICULTY_WINDOW \<le> Suc 0" using assms(1) by (simp add: DIFFICULTY_WINDOW_def)
  then show ?thesis
    unfolding next_difficulty_def
    using be total_work_unat [of cumulative b e] time_span_unat [OF assms(1) be] assms
    by (simp add: Let_def max128bit_def not_less cong: if_cong)
qed

text \<open>C28: \<open>next_difficulty\<close>, unless it reports an overflow with 0, is the least difficulty whose
  product with the time span reaches the work of the window times the target.\<close>

theorem next_difficulty_least:
  assumes "2 \<le> length timestamps" and "length cumulative = length timestamps" and "sorted cumulative"
    and "next_difficulty timestamps cumulative target = r" and "r \<noteq> 0"
  shows "unat r \<le> d \<longleftrightarrow> window_work cumulative * unat target \<le> d * window_span timestamps"
proof -
  let ?q = "(window_work cumulative * unat target + window_span timestamps - 1) div window_span timestamps"
  have "?q < 2 ^ 128" "r = word_of_nat ?q"
    using assms(4,5) unfolding next_difficulty_value [OF assms(1-3)] Let_def by (auto split: if_splits)
  then have "unat r = ?q" by (simp add: unat_of_nat_small)
  then show ?thesis using ceiling_div_le_iff [OF window_span_pos] by simp
qed

theorem next_difficulty_least_witness:
  "60 \<le> (75 :: nat) \<longleftrightarrow> window_work [0, 10, 20 :: u128] * 60 \<le> 75 * window_span [100, 120, 110]"
  using next_difficulty_least [of "[100, 120, 110]" "[0, 10, 20]" 60 60 75]
  by (simp add: next_difficulty_def Let_def cut_window_def DIFFICULTY_WINDOW_def DIFFICULTY_CUT_def max128bit_def
      unat_of_nat)

text \<open>The 64-bit rule computes the same number as long as it does not report an overflow.\<close>

lemma next_difficulty_old_value:
  assumes "2 \<le> length timestamps" and "length cumulative = length timestamps" and "sorted cumulative"
  shows "unat (next_difficulty_old timestamps cumulative target) =
    (let a = window_work cumulative * unat target; n = window_span timestamps
     in if a + n - 1 < 2 ^ 64 then (a + n - 1) div n else 0)"
proof -
  obtain b e where be: "cut_window (min (length timestamps) DIFFICULTY_WINDOW) = (b, e)" by force
  define span where "span = sort (take DIFFICULTY_WINDOW timestamps) ! (e - 1) - sort (take DIFFICULTY_WINDOW timestamps) ! b"
  define n where "n = (if span = 0 then 1 else span)"
  define work where "work = take DIFFICULTY_WINDOW cumulative ! (e - 1) - take DIFFICULTY_WINDOW cumulative ! b"
  have n: "unat n = window_span timestamps" "0 < unat n"
    using time_span_unat [OF assms(1) be] window_span_pos unfolding n_def span_def by (simp_all only:)
  have work: "unat work = window_work cumulative" using total_work_unat [of cumulative b e] assms be by (simp add: work_def)
  obtain lo hi where m: "mul work target = (lo, hi)" by force
  have e: "unat hi * 2 ^ 64 + unat lo = window_work cumulative * unat target" using mul_exact [OF m] work by simp
  have "\<not> min (length timestamps) DIFFICULTY_WINDOW \<le> Suc 0" using assms(1) by (simp add: DIFFICULTY_WINDOW_def)
  then have d: "next_difficulty_old timestamps cumulative target =
      (if hi \<noteq> 0 \<or> lo + n - 1 < lo then 0 else (lo + n - 1) div n)"
    unfolding next_difficulty_old_def using be m assms(2)
    by (simp add: Let_def n_def span_def work_def cong: if_cong)
  have "n - 1 + 1 = n" by simp
  have n1: "unat (n - 1) = unat n - 1" using n(2) by (intro unat_minus_one) (auto simp: unat_gt_0 [symmetric])
  have s: "lo + n - 1 = lo + (n - 1)" by simp
  show ?thesis
  proof (cases "hi = 0")
    case True
    then have lo: "unat lo = window_work cumulative * unat target" using e by simp
    show ?thesis
      unfolding d s add_carry_iff using True lo n n1
      by (auto simp: Let_def not_le unat_div_word unat_add_no_wrap)
  next
    case False
    then have "1 \<le> unat hi" by (simp add: Suc_le_eq unat_gt_0)
    then have "1 * 2 ^ 64 \<le> unat hi * (2 ^ 64 :: nat)" by (intro mult_right_mono) auto
    then have "2 ^ 64 \<le> window_work cumulative * unat target" using e by linarith
    then show ?thesis unfolding d using False n by (simp add: Let_def)
  qed
qed

lemma window_work_ucast: "window_work (map ucast cumulative :: u128 list) = window_work (cumulative :: u64 list)"
  if "2 \<le> length cumulative"
proof -
  obtain b e where be: "cut_window (min (length cumulative) DIFFICULTY_WINDOW) = (b, e)" by force
  have "2 \<le> min (length cumulative) DIFFICULTY_WINDOW" using that by (simp add: DIFFICULTY_WINDOW_def)
  from cut_window_bounds [OF this _ be] have "e \<le> length cumulative" "b + 2 \<le> e" "e \<le> DIFFICULTY_WINDOW" by auto
  moreover from this have "e - 1 < length cumulative" "e - 1 < DIFFICULTY_WINDOW" "b < length cumulative" "b < DIFFICULTY_WINDOW" by linarith+
  ultimately show ?thesis using be by (simp add: window_work_def unat_ucast_up)
qed

theorem next_difficulty_old_agrees:
  assumes "2 \<le> length timestamps" and "length cumulative = length timestamps" and "sorted cumulative"
    and "next_difficulty_old timestamps cumulative target \<noteq> 0"
  shows "next_difficulty timestamps (map ucast cumulative) target = ucast (next_difficulty_old timestamps cumulative target)"
proof -
  let ?r = "next_difficulty_old timestamps cumulative target"
  let ?a = "window_work cumulative * unat target" and ?n = "window_span timestamps"
  have r: "unat ?r = (?a + ?n - 1) div ?n"
    using assms(4) next_difficulty_old_value [OF assms(1-3), of target] unat_eq_zero [of ?r]
    by (auto simp: Let_def split: if_splits)
  have "sorted (map ucast cumulative :: u128 list)"
    using assms(3) by (simp add: sorted_map word_le_nat_alt [symmetric] unat_ucast_up word_le_nat_alt [where 'a = 128])
  moreover have "unat ?r < 2 ^ 128" by (rule less_trans [OF unat_u64_bound]) simp
  ultimately have "next_difficulty timestamps (map ucast cumulative) target = word_of_nat (unat ?r)"
    using next_difficulty_value [of timestamps "map ucast cumulative" target] assms(1,2) window_work_ucast [of cumulative] r
    by (simp add: Let_def)
  then show ?thesis by simp
qed

theorem next_difficulty_old_agrees_witness:
  "next_difficulty [100, 120, 110] (map ucast [0 :: u64, 10, 20]) 60 = ucast (60 :: u64)"
  using next_difficulty_old_agrees [of "[100, 120, 110]" "[0, 10, 20]" 60]
  by (simp add: next_difficulty_old_def Let_def cut_window_def DIFFICULTY_WINDOW_def DIFFICULTY_CUT_def mul_def)

end
