(* ===== verification/SwappedVector.thy ===== *)
theory SwappedVector
  imports Varint
begin

text \<open>
  \<open>src/currency_core/SwappedVector.h\<close>: the disk-backed vector that holds the blocks of the main chain.
  The items are serialized one after the other into a file, an index file holds their number (eight
  bytes) and their sizes (four bytes each), and a pool of at most \<open>m_poolSize\<close> items is kept in
  memory and evicted in the order of the last use.

  A stream is the contents of its file and its state (\<open>good\<close>); a write to a good stream succeeds. The
  serializer of the item type is the pair \<open>ser\<close>, \<open>deser\<close> of arguments (\<open>do_serialize\<close> on a binary
  archive), and \<open>dflt\<close> is the default-constructed item of a fresh cache entry. A \<open>CacheEntry\<close> is the
  index its iterator points to, so that \<open>splice\<close> and \<open>erase\<close> of an iterator are removals of that index.
  \<open>sv_rep\<close> relates a vector to the list it stands for; the refinement says that every
  run of operations, reopening the files included, behaves as on the list.
\<close>

section \<open>Definitions\<close>

record stream =
  contents :: bytes
  good :: bool

record 'a swapped_vector =
  m_itemsFile :: stream
  m_indexesFile :: stream
  m_poolSize :: nat
  m_offsets :: "u64 list"
  m_itemsFileSize :: u64
  m_items :: "u64 \<rightharpoonup> 'a"
  m_cache :: "u64 list"
  m_cacheHits :: u64
  m_cacheMisses :: u64

datatype sv_error = IndexOverflow | NoItemsFile | ReadItemError | NoIndexFile

text \<open>A write at a position overwrites what is there and extends the file; a gap is filled with zeros.\<close>

definition write_at :: "nat \<Rightarrow> bytes \<Rightarrow> bytes \<Rightarrow> bytes" where
  "write_at p bs c = take p c @ replicate (p - length c) 0 @ bs @ drop (p + length bs) c"

definition stream_write :: "nat \<Rightarrow> bytes \<Rightarrow> stream \<Rightarrow> stream" where
  "stream_write p bs f = f\<lparr>contents := write_at p bs (contents f)\<rparr>"

text \<open>The loop of \<open>open\<close> over the sizes of the items.\<close>

fun read_sizes :: "nat \<Rightarrow> bytes \<Rightarrow> u64 list \<Rightarrow> u64 \<Rightarrow> (u64 list \<times> u64) option" where
  "read_sizes 0 bs offsets itemsFileSize = Some (offsets, itemsFileSize)"
| "read_sizes (Suc n) bs offsets itemsFileSize =
    (if length bs < 4 then None
     else let itemSize = word_of_nat (le_val (take 4 bs)) :: u32
          in read_sizes n (drop 4 bs) (offsets @ [itemsFileSize]) (itemsFileSize + ucast itemSize))"

text \<open>
  The two files may be missing. A stream that is already open cannot be opened again: when only the
  index file exists, writing the count fails; when only the items file exists it is kept as it is.
\<close>

definition sv_open :: "bytes option \<Rightarrow> bytes option \<Rightarrow> nat \<Rightarrow> 'a swapped_vector \<Rightarrow> bool \<times> 'a swapped_vector" where
  "sv_open itemFile indexFile poolSize v =
    (if poolSize = 0 then (False, v)
     else
       let finish = (\<lambda>v. (True, v\<lparr>m_poolSize := poolSize, m_items := Map.empty, m_cache := [],
             m_cacheHits := 0, m_cacheMisses := 0\<rparr>))
       in case (itemFile, indexFile) of
            (Some items, Some index) \<Rightarrow>
              let v = v\<lparr>m_itemsFile := \<lparr>contents = items, good = True\<rparr>,
                        m_indexesFile := \<lparr>contents = index, good = True\<rparr>\<rparr>
              in if length index < 8 then (False, v\<lparr>m_indexesFile := (m_indexesFile v)\<lparr>good := False\<rparr>\<rparr>)
                 else (case read_sizes (le_val (take 8 index)) (drop 8 index) [] 0 of
                         None \<Rightarrow> (False, v\<lparr>m_indexesFile := (m_indexesFile v)\<lparr>good := False\<rparr>\<rparr>)
                       | Some (offsets, itemsFileSize) \<Rightarrow>
                           finish (v\<lparr>m_offsets := offsets, m_itemsFileSize := itemsFileSize\<rparr>))
          | (_, None) \<Rightarrow>
              finish (v\<lparr>m_itemsFile := \<lparr>contents = (case itemFile of None \<Rightarrow> [] | Some items \<Rightarrow> items), good = True\<rparr>,
                        m_indexesFile := \<lparr>contents = le_bytes 8 0, good = True\<rparr>,
                        m_offsets := [], m_itemsFileSize := 0\<rparr>)
          | (None, Some index) \<Rightarrow>
              (False, v\<lparr>m_itemsFile := \<lparr>contents = [], good = True\<rparr>,
                        m_indexesFile := \<lparr>contents = index, good = False\<rparr>\<rparr>))"

definition sv_empty :: "'a swapped_vector \<Rightarrow> bool" where
  "sv_empty v \<longleftrightarrow> m_offsets v = []"

definition sv_size :: "'a swapped_vector \<Rightarrow> u64" where
  "sv_size v = word_of_nat (length (m_offsets v))"

definition prepare :: "'a \<Rightarrow> u64 \<Rightarrow> 'a swapped_vector \<Rightarrow> 'a swapped_vector" where
  "prepare dflt index v =
    (let v = (if length (m_cache v) = m_poolSize v
              then v\<lparr>m_items := (m_items v)(hd (m_cache v) := None), m_cache := tl (m_cache v)\<rparr> else v)
     in case m_items v index of
          Some _ \<Rightarrow> v
        | None \<Rightarrow> v\<lparr>m_items := (m_items v)(index \<mapsto> dflt), m_cache := m_cache v @ [index]\<rparr>)"

definition sv_at :: "(bytes \<Rightarrow> 'a option) \<Rightarrow> 'a \<Rightarrow> u64 \<Rightarrow> 'a swapped_vector \<Rightarrow> (sv_error + 'a) \<times> 'a swapped_vector" where
  "sv_at deser dflt index v =
    (case m_items v index of
       Some item \<Rightarrow>
         let v = (if index \<noteq> last (m_cache v) then v\<lparr>m_cache := remove1 index (m_cache v) @ [index]\<rparr> else v)
         in (Inr item, v\<lparr>m_cacheHits := m_cacheHits v + 1\<rparr>)
     | None \<Rightarrow>
         if length (m_offsets v) \<le> unat index then (Inl IndexOverflow, v)
         else if \<not> good (m_itemsFile v) then (Inl NoItemsFile, v)
         else (case deser (drop (unat (m_offsets v ! unat index)) (contents (m_itemsFile v))) of
                 None \<Rightarrow> (Inl ReadItemError, v\<lparr>m_itemsFile := (m_itemsFile v)\<lparr>good := False\<rparr>\<rparr>)
               | Some tempItem \<Rightarrow>
                   let v = prepare dflt index v; v = v\<lparr>m_items := (m_items v)(index \<mapsto> tempItem)\<rparr>
                   in (Inr tempItem, v\<lparr>m_cacheMisses := m_cacheMisses v + 1\<rparr>)))"

definition sv_front :: "(bytes \<Rightarrow> 'a option) \<Rightarrow> 'a \<Rightarrow> 'a swapped_vector \<Rightarrow> (sv_error + 'a) \<times> 'a swapped_vector" where
  "sv_front deser dflt v = sv_at deser dflt 0 v"

definition sv_back :: "(bytes \<Rightarrow> 'a option) \<Rightarrow> 'a \<Rightarrow> 'a swapped_vector \<Rightarrow> (sv_error + 'a) \<times> 'a swapped_vector" where
  "sv_back deser dflt v = sv_at deser dflt (word_of_nat (length (m_offsets v)) - 1) v"

definition sv_clear :: "'a swapped_vector \<Rightarrow> (sv_error + unit) \<times> 'a swapped_vector" where
  "sv_clear v =
    (if \<not> good (m_indexesFile v) then (Inl NoIndexFile, v)
     else (Inr (), v\<lparr>m_indexesFile := stream_write 0 (le_bytes 8 0) (m_indexesFile v),
                     m_offsets := [], m_itemsFileSize := 0, m_items := Map.empty, m_cache := []\<rparr>))"

definition pop_back :: "'a swapped_vector \<Rightarrow> (sv_error + unit) \<times> 'a swapped_vector" where
  "pop_back v =
    (if \<not> good (m_indexesFile v) then (Inl NoIndexFile, v)
     else
       let count = (word_of_nat (length (m_offsets v)) - 1 :: u64);
           v = v\<lparr>m_indexesFile := stream_write 0 (le_bytes 8 (unat count)) (m_indexesFile v)\<rparr>;
           v = v\<lparr>m_itemsFileSize := last (m_offsets v)\<rparr>;
           v = v\<lparr>m_offsets := butlast (m_offsets v)\<rparr>;
           index = word_of_nat (length (m_offsets v))
       in case m_items v index of
            None \<Rightarrow> (Inr (), v)
          | Some _ \<Rightarrow> (Inr (), v\<lparr>m_cache := remove1 index (m_cache v), m_items := (m_items v)(index := None)\<rparr>))"

definition push_back :: "('a \<Rightarrow> bytes) \<Rightarrow> 'a \<Rightarrow> 'a \<Rightarrow> 'a swapped_vector \<Rightarrow> (sv_error + unit) \<times> 'a swapped_vector" where
  "push_back ser dflt item v =
    (if \<not> good (m_itemsFile v) then (Inl NoItemsFile, v)
     else
       let v = v\<lparr>m_itemsFile := stream_write (unat (m_itemsFileSize v)) (ser item) (m_itemsFile v)\<rparr>;
           itemsFileSize = m_itemsFileSize v + word_of_nat (length (ser item))
       in if \<not> good (m_indexesFile v) then (Inl NoIndexFile, v)
          else
            let itemSize = ucast (itemsFileSize - m_itemsFileSize v) :: u32;
                f = stream_write (8 + 4 * length (m_offsets v)) (le_bytes 4 (unat itemSize)) (m_indexesFile v);
                count = (word_of_nat (length (m_offsets v)) + 1 :: u64);
                v = v\<lparr>m_indexesFile := stream_write 0 (le_bytes 8 (unat count)) f\<rparr>;
                v = v\<lparr>m_offsets := m_offsets v @ [m_itemsFileSize v]\<rparr>;
                v = v\<lparr>m_itemsFileSize := itemsFileSize\<rparr>;
                index = word_of_nat (length (m_offsets v)) - 1;
                v = prepare dflt index v
            in (Inr (), v\<lparr>m_items := (m_items v)(index \<mapsto> item)\<rparr>))"

section \<open>The list a vector stands for\<close>

definition layout :: "('a \<Rightarrow> bytes) \<Rightarrow> 'a list \<Rightarrow> bytes" where
  "layout ser xs = concat (map ser xs)"

definition index_layout :: "('a \<Rightarrow> bytes) \<Rightarrow> 'a list \<Rightarrow> bytes" where
  "index_layout ser xs = concat (map (\<lambda>x. le_bytes 4 (length (ser x))) xs)"

definition item_offsets :: "('a \<Rightarrow> bytes) \<Rightarrow> 'a list \<Rightarrow> u64 list" where
  "item_offsets ser xs = map (\<lambda>i. word_of_nat (length (layout ser (take i xs)))) [0..<length xs]"

text \<open>The sizes fit the integers of the file format.\<close>

definition sv_fits :: "('a \<Rightarrow> bytes) \<Rightarrow> 'a list \<Rightarrow> bool" where
  "sv_fits ser xs \<longleftrightarrow> length (layout ser xs) < 2 ^ 63 \<and> 8 + 4 * length xs < 2 ^ 63
     \<and> (\<forall>x \<in> set xs. length (ser x) < 2 ^ 32)"

definition files_ok :: "('a \<Rightarrow> bytes) \<Rightarrow> bytes \<Rightarrow> bytes \<Rightarrow> 'a list \<Rightarrow> bool" where
  "files_ok ser items index xs \<longleftrightarrow> take (length (layout ser xs)) items = layout ser xs
     \<and> take (8 + 4 * length xs) index = le_bytes 8 (length xs) @ index_layout ser xs"

definition cache_ok :: "nat \<Rightarrow> (u64 \<rightharpoonup> 'a) \<Rightarrow> u64 list \<Rightarrow> 'a list \<Rightarrow> bool" where
  "cache_ok pool items cache xs \<longleftrightarrow> distinct cache \<and> length cache \<le> pool \<and> set cache = dom items
     \<and> (\<forall>i x. items i = Some x \<longrightarrow> unat i < length xs \<and> x = xs ! unat i)"

definition sv_rep :: "('a \<Rightarrow> bytes) \<Rightarrow> 'a swapped_vector \<Rightarrow> 'a list \<Rightarrow> bool" where
  "sv_rep ser v xs \<longleftrightarrow> good (m_itemsFile v) \<and> good (m_indexesFile v) \<and> 0 < m_poolSize v \<and> sv_fits ser xs
     \<and> m_offsets v = item_offsets ser xs \<and> m_itemsFileSize v = word_of_nat (length (layout ser xs))
     \<and> files_ok ser (contents (m_itemsFile v)) (contents (m_indexesFile v)) xs
     \<and> cache_ok (m_poolSize v) (m_items v) (m_cache v) xs"

subsection \<open>Files\<close>

lemma layout_snoc [simp]: "layout ser (xs @ [x]) = layout ser xs @ ser x"
  by (simp add: layout_def)

lemma layout_Nil [simp]: "layout ser [] = []"
  by (simp add: layout_def)

lemma index_layout_snoc [simp]: "index_layout ser (xs @ [x]) = index_layout ser xs @ le_bytes 4 (length (ser x))"
  by (simp add: index_layout_def)

lemma length_index_layout [simp]: "length (index_layout ser xs) = 4 * length xs"
  by (induction xs rule: rev_induct) (simp_all add: index_layout_def)

lemma length_item_offsets [simp]: "length (item_offsets ser xs) = length xs"
  by (simp add: item_offsets_def)

lemma item_offsets_snoc [simp]:
  "item_offsets ser (xs @ [x]) = item_offsets ser xs @ [word_of_nat (length (layout ser xs))]"
  by (simp add: item_offsets_def)

lemma layout_nth:
  assumes "i < length xs"
  shows "drop (length (layout ser (take i xs))) (layout ser xs) = ser (xs ! i) @ layout ser (drop (Suc i) xs)"
proof -
  have "layout ser xs = layout ser (take i xs) @ ser (xs ! i) @ layout ser (drop (Suc i) xs)"
    using id_take_nth_drop [OF assms] unfolding layout_def by (metis concat.simps(2) concat_append list.simps(9) map_append)
  then show ?thesis by (metis append_eq_conv_conj)
qed

lemma length_layout_take: "length (layout ser (take i xs)) \<le> length (layout ser xs)"
  unfolding layout_def by (metis append_take_drop_id concat_append le_add1 length_append map_append)

lemma write_at_prefix: "p + length bs \<le> n \<Longrightarrow> n \<le> length c \<Longrightarrow> take n (write_at p bs c) = take p c @ bs @ drop (p + length bs) (take n c)"
  by (cases "n = p") (auto simp: write_at_def drop_take min_def)

lemma write_at_end: "p \<le> length c \<Longrightarrow> take (p + length bs) (write_at p bs c) = take p c @ bs"
  by (simp add: write_at_def)

lemma write_at_length: "p \<le> length c \<Longrightarrow> length (write_at p bs c) = max (length c) (p + length bs)"
  by (auto simp: write_at_def max_def)

lemma sv_fits_snocD: "sv_fits ser (xs @ [x]) \<Longrightarrow> sv_fits ser xs"
  by (simp add: sv_fits_def)

lemma unat_small: "n < 2 ^ 63 \<Longrightarrow> unat (word_of_nat n :: u64) = n"
  by (rule unat_of_nat_small) simp

lemma unat_item_offset:
  assumes "sv_fits ser xs" and "i < length xs"
  shows "unat (item_offsets ser xs ! i) = length (layout ser (take i xs))"
proof -
  have "length (layout ser (take i xs)) < 2 ^ 63"
    using assms(1) length_layout_take [of ser i xs] unfolding sv_fits_def by linarith
  then show ?thesis using assms(2) by (simp add: item_offsets_def unat_small)
qed

lemma take_eq_length: "take n c = ys \<Longrightarrow> length ys = n \<Longrightarrow> n \<le> length c"
  by (metis length_take min.cobounded1)

lemma write_count:
  assumes "take k c = hdr @ rest" and "length hdr = 8" and "k = 8 + length rest"
  shows "take k (write_at 0 (le_bytes 8 m) c) = le_bytes 8 m @ rest"
proof -
  have "k \<le> length c" using assms by (intro take_eq_length) auto
  then have "take k (write_at 0 (le_bytes 8 m) c) = le_bytes 8 m @ drop 8 (take k c)"
    using write_at_prefix [of 0 "le_bytes 8 m" k c] assms(3) by simp
  then show ?thesis using assms(1,2) by simp
qed

lemma files_ok_Nil: "files_ok ser items index [] \<longleftrightarrow> take 8 index = le_bytes 8 0"
  by (simp add: files_ok_def index_layout_def)

lemma files_ok_length:
  assumes "files_ok ser items index xs"
  shows "length (layout ser xs) \<le> length items" and "8 + 4 * length xs \<le> length index"
  using assms take_eq_length [of _ items "layout ser xs"]
    take_eq_length [of "8 + 4 * length xs" index "le_bytes 8 (length xs) @ index_layout ser xs"]
  by (auto simp: files_ok_def)

lemma files_ok_push:
  assumes "files_ok ser items index xs"
  shows "files_ok ser (write_at (length (layout ser xs)) (ser x) items)
    (write_at 0 (le_bytes 8 (Suc (length xs))) (write_at (8 + 4 * length xs) (le_bytes 4 (length (ser x))) index)) (xs @ [x])"
proof -
  note len = files_ok_length [OF assms]
  have "take (8 + 4 * length xs + 4) (write_at (8 + 4 * length xs) (le_bytes 4 (length (ser x))) index)
      = take (8 + 4 * length xs) index @ le_bytes 4 (length (ser x))"
    using write_at_end [OF len(2), of "le_bytes 4 (length (ser x))"] by simp
  then have "take (8 + 4 * length xs + 4) (write_at (8 + 4 * length xs) (le_bytes 4 (length (ser x))) index)
      = le_bytes 8 (length xs) @ index_layout ser xs @ le_bytes 4 (length (ser x))"
    using assms by (simp add: files_ok_def)
  from write_count [OF this, of "Suc (length xs)"] show ?thesis
    using write_at_end [OF len(1), of "ser x"] assms by (simp add: files_ok_def add.commute add.left_commute)
qed

lemma files_ok_pop:
  assumes "files_ok ser items index (xs @ [x])"
  shows "files_ok ser items (write_at 0 (le_bytes 8 (length xs)) index) xs"
proof -
  have "take (8 + 4 * length xs) index = take (8 + 4 * length xs) (take (8 + 4 * length (xs @ [x])) index)" by simp
  also have "\<dots> = le_bytes 8 (Suc (length xs)) @ index_layout ser xs"
    using assms unfolding files_ok_def by simp
  finally have "take (8 + 4 * length xs) (write_at 0 (le_bytes 8 (length xs)) index) = le_bytes 8 (length xs) @ index_layout ser xs"
    by (rule write_count) auto
  moreover have "take (length (layout ser xs)) items = layout ser xs"
    using assms unfolding files_ok_def
    by (metis append_eq_conv_conj layout_snoc length_append min.absorb1 le_add1 take_take)
  ultimately show ?thesis by (simp add: files_ok_def)
qed

lemma files_ok_clear:
  assumes "files_ok ser items index xs"
  shows "files_ok ser items (write_at 0 (le_bytes 8 0) index) []"
proof -
  have "8 \<le> length index" using files_ok_length(2) [OF assms] by simp
  then show ?thesis using write_at_prefix [of 0 "le_bytes 8 0" 8 index] by (simp add: files_ok_Nil)
qed

text \<open>What \<open>open\<close> reads back from an index file.\<close>

lemma read_sizes_layout:
  assumes "\<forall>x \<in> set ys. length (ser x) < 2 ^ 32"
  shows "read_sizes (length ys) (index_layout ser ys @ rest) (item_offsets ser xs) (word_of_nat (length (layout ser xs)))
    = Some (item_offsets ser (xs @ ys), word_of_nat (length (layout ser (xs @ ys))))"
  using assms
proof (induction ys arbitrary: xs)
  case Nil
  then show ?case by simp
next
  case (Cons y ys)
  have e: "index_layout ser (y # ys) @ rest = le_bytes 4 (length (ser y)) @ index_layout ser ys @ rest"
    by (simp add: index_layout_def)
  have "length (ser y) < 2 ^ 32" using Cons.prems by simp
  then have "le_val (le_bytes 4 (length (ser y))) = length (ser y)"
    and u: "unat (word_of_nat (length (ser y)) :: u32) = length (ser y)"
    by (simp_all add: le_val_le_bytes unat_of_nat_small)
  moreover have "(ucast (word_of_nat (length (ser y)) :: u32) :: u64) = word_of_nat (length (ser y))"
    using u \<open>length (ser y) < 2 ^ 32\<close> by (simp add: word_unat_eq_iff unat_ucast_up unat_of_nat_small)
  ultimately show ?case
    using Cons.IH [of "xs @ [y]"] Cons.prems unfolding e by (simp add: Let_def)
qed

subsection \<open>The pool\<close>

lemma prepare_frame [simp]:
  "m_itemsFile (prepare d i v) = m_itemsFile v" "m_indexesFile (prepare d i v) = m_indexesFile v"
  "m_poolSize (prepare d i v) = m_poolSize v" "m_offsets (prepare d i v) = m_offsets v"
  "m_itemsFileSize (prepare d i v) = m_itemsFileSize v"
  by (simp_all add: prepare_def Let_def split: option.splits)

lemma cache_ok_Nil [simp]: "cache_ok pool Map.empty [] xs"
  by (simp add: cache_ok_def)

lemma cache_okD: "cache_ok pool items cache xs \<Longrightarrow> items i = Some x \<Longrightarrow> unat i < length xs \<and> x = xs ! unat i"
  by (simp add: cache_ok_def)

lemma cache_ok_extend: "cache_ok pool items cache xs \<Longrightarrow> cache_ok pool items cache (xs @ [x])"
  by (fastforce simp: cache_ok_def nth_append)

lemma cache_ok_remove:
  assumes "cache_ok pool items cache xs"
  shows "cache_ok pool (items(i := None)) (remove1 i cache) xs"
  using assms by (auto simp: cache_ok_def set_remove1_eq length_remove1)

lemma cache_ok_touch:
  assumes "cache_ok pool items cache xs" and "items i = Some x"
  shows "cache_ok pool items (remove1 i cache @ [i]) xs"
proof -
  have i: "i \<in> set cache" using assms by (auto simp: cache_ok_def)
  then have "length (remove1 i cache @ [i]) = length cache" using length_pos_if_in_set [OF i] by (simp add: length_remove1)
  then show ?thesis using assms i by (auto simp: cache_ok_def set_remove1_eq)
qed

lemma cache_ok_insert:
  assumes "cache_ok pool items cache xs" and "items i = None" and "length cache < pool" and "unat i < length xs"
  shows "cache_ok pool (items(i \<mapsto> xs ! unat i)) (cache @ [i]) xs"
  using assms by (auto simp: cache_ok_def dom_def)

lemma cache_ok_prepare:
  assumes ok: "cache_ok (m_poolSize v) (m_items v) (m_cache v) xs" and "0 < m_poolSize v"
    and "m_items v i = None" and "unat i < length xs"
  shows "cache_ok (m_poolSize v) ((m_items (prepare d i v))(i \<mapsto> xs ! unat i)) (m_cache (prepare d i v)) xs"
proof (cases "length (m_cache v) = m_poolSize v")
  case True
  then obtain j cs where c: "m_cache v = j # cs" using assms(2) by (cases "m_cache v") auto
  have "cache_ok (m_poolSize v) ((m_items v)(j := None)) cs xs" using cache_ok_remove [OF ok, of j] c by simp
  then have "cache_ok (m_poolSize v) ((m_items v)(j := None, i \<mapsto> xs ! unat i)) (cs @ [i]) xs"
    by (rule cache_ok_insert) (use True c assms(3,4) in auto)
  then show ?thesis using True c assms(3) by (auto simp: prepare_def Let_def)
next
  case False
  then have "length (m_cache v) < m_poolSize v" using ok by (simp add: cache_ok_def)
  from cache_ok_insert [OF ok assms(3) this assms(4)] show ?thesis using False assms(3) by (simp add: prepare_def Let_def)
qed

lemma cache_ok_shrink:
  assumes "cache_ok pool items cache (xs @ [x])" and "unat i = length xs" and "items i = None"
  shows "cache_ok pool items cache xs"
  unfolding cache_ok_def
proof (intro conjI allI impI)
  fix j y assume j: "items j = Some y"
  then have "j \<noteq> i" "unat j < Suc (length xs)" "y = (xs @ [x]) ! unat j" using assms by (auto simp: cache_ok_def)
  moreover from this have "unat j \<noteq> length xs" using assms(2) by (metis word_unat_eq_iff)
  ultimately show "unat j < length xs" "y = xs ! unat j" by (auto simp: nth_append)
qed (use assms in \<open>auto simp: cache_ok_def\<close>)

section \<open>Operations\<close>

lemma sv_rep_push_back:
  assumes rep: "sv_rep ser v xs" and fits: "sv_fits ser (xs @ [x])"
  shows "\<exists>v'. push_back ser d x v = (Inr (), v') \<and> sv_rep ser v' (xs @ [x])"
proof -
  let ?n = "length xs" and ?L = "length (layout ser xs)" and ?s = "length (ser x)"
  have small: "?L + ?s < 2 ^ 63" "?s < 2 ^ 32" "8 + 4 * Suc ?n < 2 ^ 63" using fits by (auto simp: sv_fits_def)
  have off: "m_offsets v = item_offsets ser xs" and sz: "m_itemsFileSize v = word_of_nat ?L"
    and ok: "files_ok ser (contents (m_itemsFile v)) (contents (m_indexesFile v)) xs"
    and cok: "cache_ok (m_poolSize v) (m_items v) (m_cache v) xs"
    using rep by (auto simp: sv_rep_def)
  have L: "unat (word_of_nat ?L :: u64) = ?L" using small by (simp add: unat_small)
  have n: "unat (word_of_nat ?n + 1 :: u64) = Suc ?n"
    using unat_small [of "Suc ?n"] small by (simp add: add.commute)
  have S: "unat (ucast (word_of_nat ?s :: u64) :: u32) = ?s" using small by (simp add: unat_ucast_mod unat_small)
  have idx: "unat (word_of_nat ?n :: u64) = ?n" using small by (simp add: unat_small)
  then have "m_items v (word_of_nat ?n) = None" using cache_okD [OF cok, of "word_of_nat ?n"] by (cases "m_items v (word_of_nat ?n)") auto
  then have c: "cache_ok (m_poolSize v) ((m_items (prepare d (word_of_nat ?n) w))(word_of_nat ?n \<mapsto> x))
      (m_cache (prepare d (word_of_nat ?n) w)) (xs @ [x])"
    if "m_poolSize w = m_poolSize v" "m_items w = m_items v" "m_cache w = m_cache v" for w :: "'a swapped_vector"
    using cache_ok_prepare [of w "xs @ [x]" "word_of_nat ?n" d] cache_ok_extend [OF cok, of x] that rep idx
    by (simp add: sv_rep_def)
  show ?thesis
    using rep fits c files_ok_push [OF ok, of x] n
    by (simp add: push_back_def sv_rep_def Let_def stream_write_def off sz L S)
qed

lemma sv_rep_pop_back:
  assumes rep: "sv_rep ser v (xs @ [x])"
  shows "\<exists>v'. pop_back v = (Inr (), v') \<and> sv_rep ser v' xs"
proof -
  let ?n = "length xs" and ?i = "word_of_nat (length xs) :: u64"
  have fits: "sv_fits ser (xs @ [x])"
    and ok: "files_ok ser (contents (m_itemsFile v)) (contents (m_indexesFile v)) (xs @ [x])"
    and cok: "cache_ok (m_poolSize v) (m_items v) (m_cache v) (xs @ [x])"
    using rep by (auto simp: sv_rep_def)
  have i: "unat ?i = ?n" using fits by (simp add: sv_fits_def unat_small)
  show ?thesis
  proof (cases "m_items v ?i")
    case None
    from cache_ok_shrink [OF cok i None] show ?thesis
      using rep files_ok_pop [OF ok] sv_fits_snocD [OF fits] None i
      by (simp add: pop_back_def sv_rep_def Let_def stream_write_def)
  next
    case (Some y)
    from cache_ok_shrink [OF cache_ok_remove [OF cok, of ?i] i] show ?thesis
      using rep files_ok_pop [OF ok] sv_fits_snocD [OF fits] Some i
      by (simp add: pop_back_def sv_rep_def Let_def stream_write_def)
  qed
qed

lemma sv_rep_clear:
  assumes rep: "sv_rep ser v xs"
  shows "\<exists>v'. sv_clear v = (Inr (), v') \<and> sv_rep ser v' []"
  using rep files_ok_clear [of ser "contents (m_itemsFile v)" "contents (m_indexesFile v)" xs]
  by (simp add: sv_clear_def sv_rep_def stream_write_def sv_fits_def item_offsets_def)

lemma sv_rep_size:
  assumes "sv_rep ser v xs"
  shows "unat (sv_size v) = length xs" and "sv_empty v \<longleftrightarrow> xs = []"
  using assms by (auto simp: sv_rep_def sv_size_def sv_empty_def sv_fits_def unat_small item_offsets_def)

lemma sv_rep_at_out_of_range:
  assumes rep: "sv_rep ser v xs" and "length xs \<le> unat i"
  shows "sv_at deser d i v = (Inl IndexOverflow, v)"
proof -
  have "m_items v i = None" using assms cache_okD [of "m_poolSize v" "m_items v" "m_cache v" xs i] by (force simp: sv_rep_def)
  then show ?thesis using assms by (simp add: sv_at_def sv_rep_def)
qed

lemma sv_rep_open:
  assumes ok: "files_ok ser items index xs" and fits: "sv_fits ser xs" and "0 < pool"
  shows "\<exists>v'. sv_open (Some items) (Some index) pool v = (True, v') \<and> sv_rep ser v' xs"
proof -
  note len = files_ok_length(2) [OF ok]
  have t: "take (8 + 4 * length xs) index = le_bytes 8 (length xs) @ index_layout ser xs" using ok by (simp add: files_ok_def)
  have i: "index = le_bytes 8 (length xs) @ index_layout ser xs @ drop (8 + 4 * length xs) index"
    using append_take_drop_id [of "8 + 4 * length xs" index] unfolding t by simp
  have h: "take 8 index = le_bytes 8 (length xs)" and r: "drop 8 index = index_layout ser xs @ drop (8 + 4 * length xs) index"
    by (subst i, simp)+
  have "le_val (le_bytes 8 (length xs)) = length xs" using fits by (simp add: le_val_le_bytes sv_fits_def)
  moreover have "read_sizes (length xs) (drop 8 index) [] 0 = Some (item_offsets ser xs, word_of_nat (length (layout ser xs)))"
    unfolding r using read_sizes_layout [of xs ser "drop (8 + 4 * length xs) index" "[]"] fits
    by (simp add: sv_fits_def item_offsets_def)
  ultimately show ?thesis
    using assms len h by (simp add: sv_open_def sv_rep_def Let_def)
qed

text \<open>The interface to the serializer: what was written is read back, whatever follows it.\<close>

locale codec =
  fixes ser :: "'a \<Rightarrow> bytes" and deser :: "bytes \<Rightarrow> 'a option"
  assumes deser_ser: "deser (ser x @ rest) = Some x"
begin

lemma sv_rep_at:
  assumes rep: "sv_rep ser v xs" and i: "unat i < length xs"
  shows "\<exists>v'. sv_at deser d i v = (Inr (xs ! unat i), v') \<and> sv_rep ser v' xs"
proof (cases "m_items v i")
  case (Some x)
  moreover have "x = xs ! unat i" using rep Some by (auto simp: sv_rep_def cache_ok_def)
  ultimately show ?thesis
    using rep cache_ok_touch [of "m_poolSize v" "m_items v" "m_cache v" xs i x]
    by (auto simp: sv_at_def sv_rep_def Let_def)
next
  case None
  have fits: "sv_fits ser xs" and off: "m_offsets v = item_offsets ser xs"
    and ok: "take (length (layout ser xs)) (contents (m_itemsFile v)) = layout ser xs"
    using rep by (auto simp: sv_rep_def files_ok_def)
  let ?o = "length (layout ser (take (unat i) xs))" and ?c = "contents (m_itemsFile v)"
  have "?c = layout ser xs @ drop (length (layout ser xs)) ?c" using append_take_drop_id ok by metis
  then have "drop ?o ?c = drop ?o (layout ser xs) @ drop (?o - length (layout ser xs)) (drop (length (layout ser xs)) ?c)"
    by (metis drop_append)
  then have "deser (drop ?o ?c) = Some (xs ! unat i)"
    unfolding layout_nth [OF i] by (simp add: deser_ser)
  then show ?thesis
    using rep None i unat_item_offset [OF fits i] cache_ok_prepare [of v xs i d]
    by (simp add: sv_at_def sv_rep_def Let_def)
qed

end

interpretation varint: codec write_varint "\<lambda>bs. case read_varint bs of (n, v, _) \<Rightarrow> if 0 < n then Some v else None"
  by unfold_locales (simp add: read_varint_write)

section \<open>Refinement\<close>

datatype 'a sv_op = Push 'a | Pop | At u64 | Clear | Reopen nat

text \<open>One call on the vector, and the same call on the list it stands for.\<close>

fun sv_step :: "('a \<Rightarrow> bytes) \<Rightarrow> (bytes \<Rightarrow> 'a option) \<Rightarrow> 'a \<Rightarrow> 'a sv_op \<Rightarrow> 'a swapped_vector
    \<Rightarrow> (sv_error + 'a option) \<times> 'a swapped_vector" where
  "sv_step ser deser d (Push x) v = (case push_back ser d x v of (r, v') \<Rightarrow> (map_sum id (\<lambda>_. None) r, v'))"
| "sv_step ser deser d Pop v = (case pop_back v of (r, v') \<Rightarrow> (map_sum id (\<lambda>_. None) r, v'))"
| "sv_step ser deser d (At i) v = (case sv_at deser d i v of (r, v') \<Rightarrow> (map_sum id Some r, v'))"
| "sv_step ser deser d Clear v = (case sv_clear v of (r, v') \<Rightarrow> (map_sum id (\<lambda>_. None) r, v'))"
| "sv_step ser deser d (Reopen pool) v =
    (case sv_open (Some (contents (m_itemsFile v))) (Some (contents (m_indexesFile v))) pool v of
       (ok, v') \<Rightarrow> (if ok then Inr None else Inl NoIndexFile, v'))"

text \<open>\<open>None\<close>: the call is outside the contract (an item that does not fit, \<open>pop_back\<close> of an empty vector).\<close>

fun list_step :: "('a \<Rightarrow> bytes) \<Rightarrow> 'a sv_op \<Rightarrow> 'a list \<Rightarrow> ((sv_error + 'a option) \<times> 'a list) option" where
  "list_step ser (Push x) xs = (if sv_fits ser (xs @ [x]) then Some (Inr None, xs @ [x]) else None)"
| "list_step ser Pop xs = (if xs = [] then None else Some (Inr None, butlast xs))"
| "list_step ser (At i) xs =
    Some (if unat i < length xs then Inr (Some (xs ! unat i)) else Inl IndexOverflow, xs)"
| "list_step ser Clear xs = Some (Inr None, [])"
| "list_step ser (Reopen pool) xs = (if pool = 0 then None else Some (Inr None, xs))"

fun sv_run :: "('a \<Rightarrow> bytes) \<Rightarrow> (bytes \<Rightarrow> 'a option) \<Rightarrow> 'a \<Rightarrow> 'a sv_op list \<Rightarrow> 'a swapped_vector
    \<Rightarrow> (sv_error + 'a option) list \<times> 'a swapped_vector" where
  "sv_run ser deser d [] v = ([], v)"
| "sv_run ser deser d (op # ops) v =
    (let (r, v) = sv_step ser deser d op v; (rs, v) = sv_run ser deser d ops v in (r # rs, v))"

fun list_run :: "('a \<Rightarrow> bytes) \<Rightarrow> 'a sv_op list \<Rightarrow> 'a list \<Rightarrow> ((sv_error + 'a option) list \<times> 'a list) option" where
  "list_run ser [] xs = Some ([], xs)"
| "list_run ser (op # ops) xs =
    (case list_step ser op xs of None \<Rightarrow> None
     | Some (r, xs) \<Rightarrow> map_option (\<lambda>(rs, xs). (r # rs, xs)) (list_run ser ops xs))"

context codec
begin

lemma step_refines:
  assumes rep: "sv_rep ser v xs" and step: "list_step ser op xs = Some (r, ys)"
  shows "\<exists>v'. sv_step ser deser d op v = (r, v') \<and> sv_rep ser v' ys"
proof (cases op)
  case (Push x)
  then show ?thesis using step sv_rep_push_back [OF rep, of x d] by (auto split: if_splits)
next
  case Pop
  then obtain zs z where "xs = zs @ [z]" using step by (cases xs rule: rev_cases) auto
  then show ?thesis using Pop step rep sv_rep_pop_back [of ser v zs z] by auto
next
  case (At i)
  then show ?thesis
    using step sv_rep_at [OF rep, of i d] sv_rep_at_out_of_range [OF rep, of i deser d] rep
    by (cases "unat i < length xs") auto
next
  case Clear
  then show ?thesis using step sv_rep_clear [OF rep] by auto
next
  case (Reopen pool)
  then show ?thesis
    using step sv_rep_open [of ser "contents (m_itemsFile v)" "contents (m_indexesFile v)" xs pool v] rep
    by (auto simp: sv_rep_def split: if_splits)
qed

lemma run_refines:
  assumes "sv_rep ser v xs" and "list_run ser ops xs = Some (rs, ys)"
  shows "\<exists>v'. sv_run ser deser d ops v = (rs, v') \<and> sv_rep ser v' ys"
  using assms
proof (induction ops arbitrary: v xs rs)
  case (Cons op ops)
  then obtain r zs rs' where s: "list_step ser op xs = Some (r, zs)" and r: "list_run ser ops zs = Some (rs', ys)"
      and rs: "rs = r # rs'"
    by (auto split: option.splits prod.splits)
  obtain v1 where v1: "sv_step ser deser d op v = (r, v1)" "sv_rep ser v1 zs"
    using step_refines [OF Cons.prems(1) s] by blast
  obtain v2 where "sv_run ser deser d ops v1 = (rs', v2)" "sv_rep ser v2 ys" using Cons.IH [OF v1(2) r] by blast
  then show ?case using v1(1) rs by auto
qed auto

end

text \<open>A vector created in an empty directory stands for the empty list.\<close>

lemma sv_rep_create:
  assumes "0 < pool"
  shows "\<exists>v'. sv_open None None pool v = (True, v') \<and> sv_rep ser v' []"
  using assms by (simp add: sv_open_def sv_rep_def files_ok_Nil sv_fits_def item_offsets_def)

text \<open>C34: Every sequence of pushes, pops, reads, clears and reopenings of the disk-backed vector gives the
  results of the same operations on a plain list, for every pool size: the cache and its eviction are
  invisible, and reopening restores the contents from the two files.\<close>

theorem swapped_vector_refines_list:
  assumes codec: "\<And>x rest. deser (ser x @ rest) = Some x"
    and create: "sv_open None None pool v0 = (True, v)"
    and spec: "list_run ser ops [] = Some (rs, xs)"
  shows "\<exists>v'. sv_run ser deser d ops v = (rs, v') \<and> unat (sv_size v') = length xs
    \<and> length (m_cache v') \<le> m_poolSize v'"
proof -
  have "0 < pool" using create by (auto simp: sv_open_def split: if_splits)
  then have "sv_rep ser v []" using sv_rep_create [of pool v0 ser] create by auto
  moreover have "codec ser deser" using codec by unfold_locales
  ultimately obtain v' where r: "sv_run ser deser d ops v = (rs, v')" "sv_rep ser v' xs"
    using codec.run_refines [of ser deser v "[]" ops rs xs d] spec by blast
  then show ?thesis using sv_rep_size(1) [OF r(2)] by (auto simp: sv_rep_def cache_ok_def)
qed

definition sv_initial :: "u64 swapped_vector" where
  "sv_initial = \<lparr>m_itemsFile = \<lparr>contents = [], good = True\<rparr>, m_indexesFile = \<lparr>contents = le_bytes 8 0, good = True\<rparr>,
     m_poolSize = 1, m_offsets = [], m_itemsFileSize = 0, m_items = Map.empty, m_cache = [], m_cacheHits = 0, m_cacheMisses = 0\<rparr>"

theorem swapped_vector_refines_list_witness:
  "\<exists>v'. sv_run write_varint (\<lambda>bs. case read_varint bs of (n, v, _) \<Rightarrow> if 0 < n then Some v else None) 0
      [Push 300, Push 5, At 0, Pop, Reopen 2, At 0, At 1] sv_initial
    = ([Inr None, Inr None, Inr (Some 300), Inr None, Inr None, Inr (Some 300), Inl IndexOverflow], v')
    \<and> unat (sv_size v') = 1 \<and> length (m_cache v') \<le> m_poolSize v'"
proof -
  have "sv_fits write_varint [300 :: u64, 5]" "sv_fits write_varint [300 :: u64]"
    by (simp_all add: sv_fits_def layout_def write_varint.simps [of 300] write_varint.simps [of 2] write_varint.simps [of 5])
  moreover have "sv_open None None 1 sv_initial = (True, sv_initial)" by (simp add: sv_open_def sv_initial_def)
  ultimately show ?thesis
    using swapped_vector_refines_list [OF varint.deser_ser, of 1 sv_initial sv_initial
        "[Push 300, Push 5, At 0, Pop, Reopen 2, At 0, At 1]" _ "[300]" 0]
    by simp
qed

end
