(* ===== verification/Hex.thy ===== *)
theory Hex
  imports Prelude
begin

text \<open>
  The hexadecimal codec of \<open>contrib/epee/include/string_tools.h\<close> that reads and prints hashes and keys.
  Characters are bytes. \<open>strtoul\<close> is the function of the C library, at base 16 and on the strings of
  at most two characters it is called on: white space, an optional sign, digits; the prefix \<open>0x\<close>
  needs a digit after it and so does not occur. Its result is the value and the number of characters read.
\<close>

section \<open>Definitions\<close>

definition isspace :: "u8 \<Rightarrow> bool" where
  "isspace c \<longleftrightarrow> c = 32 \<or> (9 \<le> c \<and> c \<le> 13)"

definition hex_digit :: "u8 \<Rightarrow> nat option" where
  "hex_digit c =
    (if 48 \<le> c \<and> c \<le> 57 then Some (unat c - 48)
     else if 97 \<le> c \<and> c \<le> 102 then Some (unat c - 87)
     else if 65 \<le> c \<and> c \<le> 70 then Some (unat c - 55)
     else None)"

fun hex_digits :: "bytes \<Rightarrow> nat \<Rightarrow> nat \<Rightarrow> nat \<times> nat" where
  "hex_digits [] v n = (v, n)"
| "hex_digits (c # cs) v n = (case hex_digit c of None \<Rightarrow> (v, n) | Some d \<Rightarrow> hex_digits cs (16 * v + d) (Suc n))"

definition strtoul :: "bytes \<Rightarrow> int \<times> nat" where
  "strtoul s =
    (let spaces = length (takeWhile isspace s);
         t = drop spaces s;
         signs = (if t \<noteq> [] \<and> (hd t = 43 \<or> hd t = 45) then 1 else 0);
         (v, n) = hex_digits (drop signs t) 0 0
     in if n = 0 then (0, 0)
        else (if t \<noteq> [] \<and> hd t = 45 then - int v else int v, spaces + signs + n))"

fun parse_hexstr_to_binbuff :: "bytes \<Rightarrow> bytes option" where
  "parse_hexstr_to_binbuff [] = Some []"
| "parse_hexstr_to_binbuff [c] =
    (let (v, n) = strtoul [c] in if v < 0 \<or> 0xFF < v \<or> n \<noteq> 1 then None else Some [word_of_int v])"
| "parse_hexstr_to_binbuff (c # d # s) =
    (let (v, n) = strtoul [c, d]
     in if v < 0 \<or> 0xFF < v \<or> n \<noteq> 2 then None
        else map_option (\<lambda>res. word_of_int v # res) (parse_hexstr_to_binbuff s))"

definition parse_tpod_from_hex_string :: "nat \<Rightarrow> bytes \<Rightarrow> bytes option" where
  "parse_tpod_from_hex_string pod_size str =
    (case parse_hexstr_to_binbuff str of None \<Rightarrow> None
     | Some buf \<Rightarrow> if length buf \<noteq> pod_size then None else Some buf)"

text \<open>A digit in lower case, as the stream prints it with \<open>hex\<close>.\<close>

definition digit_char :: "nat \<Rightarrow> u8" where
  "digit_char d = (if d < 10 then word_of_nat (48 + d) else word_of_nat (87 + d))"

definition buff_to_hex_nodelimer :: "bytes \<Rightarrow> bytes" where
  "buff_to_hex_nodelimer s =
    concat (map (\<lambda>c. [digit_char (unat c div 16), digit_char (unat c mod 16)]) s)"

section \<open>Round trip\<close>

lemma digit_char_facts:
  assumes "d < 16"
  shows "hex_digit (digit_char d) = Some d" and "\<not> isspace (digit_char d)" and "digit_char d \<noteq> 43" and "digit_char d \<noteq> 45"
proof -
  have "\<forall>d \<in> set [0..<16]. hex_digit (digit_char d) = Some d \<and> \<not> isspace (digit_char d) \<and> digit_char d \<noteq> 43 \<and> digit_char d \<noteq> 45"
    by (simp add: upt_rec hex_digit_def digit_char_def isspace_def)
  then show "hex_digit (digit_char d) = Some d" and "\<not> isspace (digit_char d)" and "digit_char d \<noteq> 43" and "digit_char d \<noteq> 45"
    using assms by simp_all
qed

lemma strtoul_digits:
  assumes "a < 16" and "b < 16"
  shows "strtoul [digit_char a, digit_char b] = (int (16 * a + b), 2)"
  using assms by (simp add: strtoul_def digit_char_facts Let_def)

lemma parse_two_digits:
  "parse_hexstr_to_binbuff (digit_char (unat c div 16) # digit_char (unat c mod 16) # s)
    = map_option (\<lambda>res. c # res) (parse_hexstr_to_binbuff s)"
proof -
  have "unat c div 16 < 16" using unat_u8_bound [of c] by (simp add: div_less_iff_less_mult)
  then have "strtoul [digit_char (unat c div 16), digit_char (unat c mod 16)] = (int (unat c), 2)"
    using strtoul_digits [of "unat c div 16" "unat c mod 16"] by (simp add: mult.commute)
  moreover have "uint c < 256" unfolding uint_nat using unat_u8_bound [of c] by linarith
  ultimately show ?thesis by simp
qed

lemma parse_buff_to_hex: "parse_hexstr_to_binbuff (buff_to_hex_nodelimer s) = Some s"
  by (induction s) (simp_all add: buff_to_hex_nodelimer_def parse_two_digits del: parse_hexstr_to_binbuff.simps(3))

lemma length_parse: "parse_hexstr_to_binbuff s = Some buf \<Longrightarrow> length buf = (length s + 1) div 2"
  by (induction s arbitrary: buf rule: parse_hexstr_to_binbuff.induct)
    (auto simp: Let_def split: prod.splits if_splits)

theorem hex_roundtrip:
  "parse_tpod_from_hex_string (length pod) (buff_to_hex_nodelimer pod) = Some pod"
  by (simp add: parse_tpod_from_hex_string_def parse_buff_to_hex)

text \<open>The parser is more liberal than the printer: a space or a sign may stand for the first digit.\<close>

theorem hex_accepts_signs: "parse_hexstr_to_binbuff [32, 97, 43, 98, 45, 48] = Some [10, 11, 0]"
  by (simp add: strtoul_def isspace_def hex_digit_def Let_def)

end
