(* ===== verification/BlockIndex.thy ===== *)
theory BlockIndex
  imports Prelude
begin

text \<open>
  \<open>src/currency_core/BlockIndex.h\<close> and \<open>BlockIndex.cpp\<close>: the ids of the main chain by height and by
  hash. The multi-index container is a list: its random access index is the list itself, its
  unique hashed index finds the position of an element. Sizes and heights are \<open>u64\<close>. The loop of
  \<open>getShortChainHistory\<close> is written with the wrap-around of \<open>size_t\<close>, so that its termination is a
  theorem about the loop and not part of the definition.
\<close>

section \<open>Definitions\<close>

type_synonym hash = bytes

definition null_hash :: hash where
  "null_hash = replicate 32 0"

definition HEIGHT_NOT_FOUND :: u64 where
  "HEIGHT_NOT_FOUND = - 1"

record block_index =
  m_container :: "hash list"

definition bi_pop :: "block_index \<Rightarrow> block_index" where
  "bi_pop bi = bi\<lparr>m_container := butlast (m_container bi)\<rparr>"

definition bi_push :: "hash \<Rightarrow> block_index \<Rightarrow> bool \<times> block_index" where
  "bi_push h bi =
    (if h \<in> set (m_container bi) then (False, bi) else (True, bi\<lparr>m_container := m_container bi @ [h]\<rparr>))"

definition hasBlock :: "block_index \<Rightarrow> hash \<Rightarrow> bool" where
  "hasBlock bi h \<longleftrightarrow> h \<in> set (m_container bi)"

text \<open>The position of an element, by the hashed index.\<close>

fun position :: "hash \<Rightarrow> hash list \<Rightarrow> nat option" where
  "position h [] = None"
| "position h (x # xs) = (if x = h then Some 0 else map_option Suc (position h xs))"

definition getBlockHeight :: "block_index \<Rightarrow> hash \<Rightarrow> u64 option" where
  "getBlockHeight bi h = map_option word_of_nat (position h (m_container bi))"

definition getBlockHeight_or_not_found :: "block_index \<Rightarrow> hash \<Rightarrow> u64" where
  "getBlockHeight_or_not_found bi h =
    (let nHeight = HEIGHT_NOT_FOUND in case getBlockHeight bi h of None \<Rightarrow> nHeight | Some height \<Rightarrow> height)"

definition bi_size :: "block_index \<Rightarrow> u64" where
  "bi_size bi = word_of_nat (length (m_container bi))"

definition bi_clear :: "block_index \<Rightarrow> block_index" where
  "bi_clear bi = bi\<lparr>m_container := []\<rparr>"

definition getBlockId :: "block_index \<Rightarrow> u64 \<Rightarrow> hash" where
  "getBlockId bi height =
    (if length (m_container bi) \<le> unat height then null_hash else m_container bi ! unat height)"

lemma unat_plus_one_no_wrap: "unat i < 18446744073709551615 \<Longrightarrow> unat (i + 1 :: u64) = Suc (unat i)"
  by (subst unat_add_no_wrap) simp_all

lemma unat_Suc_below: "(i :: u64) < n \<Longrightarrow> unat (i + 1) = Suc (unat i)"
  using unat_u64_bound [of n] unfolding word_less_nat_alt by (intro unat_plus_one_no_wrap) linarith

function collect_ids :: "hash list \<Rightarrow> u64 \<Rightarrow> u64 \<Rightarrow> hash list" where
  "collect_ids c stop i =
    (if i < stop \<and> unat i < length c then c ! unat i # collect_ids c stop (i + 1) else [])"
  by pat_completeness auto
termination
  by (relation "measure (\<lambda>(c, stop, i). unat stop - unat i)")
    (auto simp: unat_Suc_below word_less_nat_alt)

declare collect_ids.simps [simp del]

definition getBlockIds :: "block_index \<Rightarrow> u64 \<Rightarrow> u64 \<Rightarrow> hash list option" where
  "getBlockIds bi startHeight maxCount =
    (if length (m_container bi) \<le> unat startHeight then None
     else Some (collect_ids (m_container bi) (startHeight + maxCount) startHeight))"

fun findSupplement :: "block_index \<Rightarrow> hash list \<Rightarrow> u64 option" where
  "findSupplement bi [] = None"
| "findSupplement bi (h # hs) =
    (case getBlockHeight bi h of Some offset \<Rightarrow> Some offset | None \<Rightarrow> findSupplement bi hs)"

text \<open>
  The loop of \<open>getShortChainHistory\<close>: \<open>i\<close>, \<open>current_multiplier\<close>, \<open>current_back_offset\<close> and
  \<open>genesis_included\<close> are its variables, \<open>ids\<close> the list it extends.
\<close>

partial_function (option) history_loop ::
    "hash list \<Rightarrow> u64 \<Rightarrow> u64 \<Rightarrow> u64 \<Rightarrow> u64 \<Rightarrow> bool \<Rightarrow> hash list \<Rightarrow> (bool \<times> hash list) option" where
  "history_loop c sz i multiplier back_offset genesis_included ids =
    (if back_offset < sz then
       let ids = ids @ [c ! unat (sz - back_offset)];
           genesis_included = (if sz - back_offset = 0 then True else genesis_included)
       in if i < 10 then history_loop c sz (i + 1) multiplier (back_offset + 1) genesis_included ids
          else let multiplier = multiplier * 2
               in history_loop c sz (i + 1) multiplier (back_offset + multiplier) genesis_included ids
     else Some (genesis_included, ids))"

definition getShortChainHistory :: "block_index \<Rightarrow> hash list option" where
  "getShortChainHistory bi =
    (let c = m_container bi; sz = bi_size bi
     in if sz = 0 then Some []
        else case history_loop c sz 0 1 1 False [] of
               None \<Rightarrow> None
             | Some (genesis_included, ids) \<Rightarrow> Some (if genesis_included then ids else ids @ [c ! 0]))"

definition getTailId :: "block_index \<Rightarrow> hash" where
  "getTailId bi = (if m_container bi = [] then null_hash else last (m_container bi))"

section \<open>Positions\<close>

definition bi_inv :: "block_index \<Rightarrow> bool" where
  "bi_inv bi \<longleftrightarrow> distinct (m_container bi) \<and> length (m_container bi) < 2 ^ 63"

lemma position_Some_iff:
  "distinct c \<Longrightarrow> position h c = Some n \<longleftrightarrow> n < length c \<and> c ! n = h"
proof (induction c arbitrary: n)
  case (Cons x xs)
  then show ?case by (cases n) (auto simp: in_set_conv_nth)
qed simp

lemma position_None_iff: "position h c = None \<longleftrightarrow> h \<notin> set c"
  by (induction c) auto

lemma getBlockHeight_iff:
  assumes "bi_inv bi"
  shows "getBlockHeight bi h = Some height \<longleftrightarrow> unat height < length (m_container bi) \<and> m_container bi ! unat height = h"
proof -
  have p: "position h (m_container bi) = Some n \<longleftrightarrow> n < length (m_container bi) \<and> m_container bi ! n = h" for n
    using assms by (simp add: bi_inv_def position_Some_iff)
  have u: "unat (word_of_nat n :: u64) = n" if "n < length (m_container bi)" for n
    using that assms by (intro unat_of_nat_small) (simp add: bi_inv_def)
  show ?thesis
  proof
    assume "getBlockHeight bi h = Some height"
    then show "unat height < length (m_container bi) \<and> m_container bi ! unat height = h"
      using p u by (auto simp: getBlockHeight_def)
  next
    assume "unat height < length (m_container bi) \<and> m_container bi ! unat height = h"
    then have "position h (m_container bi) = Some (unat height)" using p by blast
    then show "getBlockHeight bi h = Some height" by (simp add: getBlockHeight_def)
  qed
qed

lemma getBlockHeight_None_iff: "getBlockHeight bi h = None \<longleftrightarrow> \<not> hasBlock bi h"
  by (simp add: getBlockHeight_def hasBlock_def position_None_iff)

text \<open>The operations keep the invariant; a pushed id is found at the new height.\<close>

lemma bi_inv_ops:
  "bi_inv bi \<Longrightarrow> bi_inv (bi_pop bi)" "bi_inv (bi_clear bi)"
  "bi_inv bi \<Longrightarrow> length (m_container bi) + 1 < 2 ^ 63 \<Longrightarrow> bi_inv (snd (bi_push h bi))"
  by (auto simp: bi_inv_def bi_pop_def bi_clear_def bi_push_def distinct_butlast)

lemma bi_push_height:
  assumes "bi_inv bi" and "length (m_container bi) + 1 < 2 ^ 63" and "bi_push h bi = (True, bi')"
  shows "getBlockHeight bi' h = Some (bi_size bi)" and "bi_pop bi' = bi" and "getTailId bi' = h"
proof -
  have bi': "m_container bi' = m_container bi @ [h]" "bi' = bi\<lparr>m_container := m_container bi @ [h]\<rparr>"
    using assms(3) by (auto simp: bi_push_def split: if_splits)
  have "bi_inv bi'" using bi_inv_ops(3) [OF assms(1,2), of h] assms(3) by simp
  moreover have "unat (bi_size bi) = length (m_container bi)"
    using assms(2) by (simp add: bi_size_def unat_of_nat_small)
  ultimately show "getBlockHeight bi' h = Some (bi_size bi)" by (simp add: getBlockHeight_iff bi')
  show "bi_pop bi' = bi" "getTailId bi' = h" by (simp_all add: bi' bi_pop_def getTailId_def)
qed

lemma collect_ids_take:
  assumes "unat i \<le> length c"
  shows "collect_ids c stop i = take (unat stop - unat i) (drop (unat i) c)"
  using assms
proof (induction c stop i rule: collect_ids.induct)
  case (1 c stop i)
  show ?case
  proof (cases "i < stop \<and> unat i < length c")
    case True
    then have "unat (i + 1) = Suc (unat i)" and s: "unat i < unat stop"
      using unat_Suc_below by (auto simp: word_less_nat_alt)
    then have "collect_ids c stop i = c ! unat i # take (unat stop - Suc (unat i)) (drop (Suc (unat i)) c)"
      using 1 True by (subst collect_ids.simps) simp
    also have "\<dots> = take (unat stop - unat i) (drop (unat i) c)"
      using s True by (simp add: take_Suc_conv_app_nth Cons_nth_drop_Suc [symmetric] Suc_diff_Suc [symmetric])
    finally show ?thesis .
  next
    case False
    then show ?thesis by (subst collect_ids.simps) (auto simp: word_less_nat_alt not_less)
  qed
qed

lemma getBlockIds_take:
  assumes "unat startHeight + unat maxCount < 2 ^ 64" and "getBlockIds bi startHeight maxCount = Some items"
  shows "items = take (unat maxCount) (drop (unat startHeight) (m_container bi))"
  using assms collect_ids_take [of startHeight "m_container bi" "startHeight + maxCount"]
  by (auto simp: getBlockIds_def unat_add_no_wrap split: if_splits)

section \<open>The short history\<close>

definition history_inv :: "nat \<Rightarrow> nat \<Rightarrow> nat \<Rightarrow> bool" where
  "history_inv i m b \<longleftrightarrow> (if i \<le> 10 then m = 1 \<and> b = i + 1 else m = 2 ^ (i - 10) \<and> m \<le> b)"

lemma history_step_bounds:
  fixes i m b sz :: u64
  assumes inv: "history_inv (unat i) (unat m) (unat b)" and b: "unat b < unat sz" and sz: "unat sz \<le> 2 ^ 62"
  shows "unat (i + 1) = Suc (unat i)" "unat (m * 2) = unat m * 2" "unat (b + 1) = Suc (unat b)"
    "unat (b + m * 2) = unat b + unat m * 2"
proof -
  have b62: "unat b < 4611686018427387904" using b sz by simp
  have m: "unat m \<le> unat b" using inv by (auto simp: history_inv_def split: if_splits)
  have "unat i < 73"
  proof (rule ccontr)
    assume "\<not> unat i < 73"
    then have "(2 :: nat) ^ 62 \<le> 2 ^ (unat i - 10)" by (intro power_increasing) auto
    moreover have "unat m = 2 ^ (unat i - 10)"
      using inv \<open>\<not> unat i < 73\<close> by (auto simp: history_inv_def)
    ultimately show False using m b62 by simp
  qed
  then have "unat i < 18446744073709551615" "unat b < 18446744073709551615" using b62 by linarith+
  then show "unat (i + 1) = Suc (unat i)" and "unat (b + 1) = Suc (unat b)"
    by (simp_all only: unat_plus_one_no_wrap)
  show m2: "unat (m * 2) = unat m * 2" using m b62 by (subst unat_mult_no_wrap) simp_all
  show "unat (b + m * 2) = unat b + unat m * 2" using m b62 by (subst unat_add_no_wrap) (simp_all add: m2)
qed

lemma history_loop_returns:
  assumes "history_inv (unat i) (unat m) (unat b)" and "unat sz \<le> 2 ^ 62" and "1 \<le> unat b"
  shows "\<exists>offs. history_loop c sz i m b g ids = Some (g, ids @ map (\<lambda>k. c ! (unat sz - k)) offs)
    \<and> (\<forall>k \<in> set offs. 1 \<le> k \<and> k < unat sz) \<and> (unat b < unat sz \<longrightarrow> offs \<noteq> [] \<and> hd offs = unat b)
    \<and> (offs = [] \<or> unat i + length offs \<le> 10 \<or> 2 ^ (unat i + length offs - 11) < unat sz)"
  using assms(1,3)
proof (induction "unat sz - unat b" arbitrary: i m b g ids rule: less_induct)
  case less
  show ?case
  proof (cases "unat b < unat sz")
    case False
    then have "history_loop c sz i m b g ids = Some (g, ids)"
      by (subst history_loop.simps) (simp add: word_less_nat_alt)
    then show ?thesis using False by (intro exI [of _ "[]"]) simp
  next
    case True
    note nx = history_step_bounds [OF less.prems(1) True assms(2)]
    define m' where "m' = (if i < 10 then m else m * 2)"
    define b' where "b' = (if i < 10 then b + 1 else b + m')"
    have sub: "unat (sz - b) = unat sz - unat b" using True by (intro unat_sub_no_wrap) (simp add: word_le_nat_alt)
    then have "sz - b \<noteq> 0" using True by (auto simp: word_unat_eq_iff)
    then have step: "history_loop c sz i m b g ids = history_loop c sz (i + 1) m' b' g (ids @ [c ! (unat sz - unat b)])"
      using True sub by (subst history_loop.simps) (simp add: word_less_nat_alt Let_def m'_def b'_def)
    have lt: "i < 10 \<longleftrightarrow> unat i < 10" by (simp add: word_less_nat_alt)
    have pw: "10 < unat i \<Longrightarrow> (2 :: nat) ^ (unat i - 10) * 2 = 2 ^ (unat i - 9)"
      using power_Suc2 [of "2 :: nat" "unat i - 10"] Suc_diff_le [of 10 "unat i"] by simp
    have inv': "history_inv (unat (i + 1)) (unat m') (unat b')" and b': "unat b < unat b'"
      using less.prems(1) nx lt pw
      by (auto simp: history_inv_def m'_def b'_def split: if_splits)
    have "unat sz - unat b' < unat sz - unat b" "1 \<le> unat b'" using b' True by auto
    from less.hyps [OF this(1) inv' this(2), of g "ids @ [c ! (unat sz - unat b)]"] obtain offs where
      offs: "history_loop c sz i m b g ids = Some (g, ids @ c ! (unat sz - unat b) # map (\<lambda>k. c ! (unat sz - k)) offs)"
        "\<forall>k \<in> set offs. 1 \<le> k \<and> k < unat sz"
        "offs = [] \<or> Suc (unat i) + length offs \<le> 10 \<or> 2 ^ (Suc (unat i) + length offs - 11) < unat sz"
      using step nx(1) by auto
    have "unat i \<le> 9 \<or> 2 ^ (unat i - 10) < unat sz"
      using less.prems(1) True by (auto simp: history_inv_def split: if_splits)
    then show ?thesis
      using offs True less.prems(2) by (intro exI [of _ "unat b # offs"]) auto
  qed
qed

lemma getShortChainHistory_offsets:
  assumes "0 < length (m_container bi)" and "length (m_container bi) \<le> 2 ^ 62"
  defines "n \<equiv> length (m_container bi)"
  shows "\<exists>offs. getShortChainHistory bi = Some (map (\<lambda>k. m_container bi ! (n - k)) offs @ [m_container bi ! 0])
    \<and> (\<forall>k \<in> set offs. 1 \<le> k \<and> k < n) \<and> (1 < n \<longrightarrow> offs \<noteq> [] \<and> hd offs = 1)
    \<and> (offs = [] \<or> length offs \<le> 10 \<or> 2 ^ (length offs - 11) < n)"
proof -
  have sz: "unat (bi_size bi) = n" using assms by (simp add: bi_size_def unat_of_nat_small)
  then have nz: "bi_size bi \<noteq> 0" using assms by (auto simp: word_unat_eq_iff)
  have "history_inv (unat (0 :: u64)) (unat (1 :: u64)) (unat (1 :: u64))" by (simp add: history_inv_def)
  from history_loop_returns [OF this, of "bi_size bi" "m_container bi" False "[]"] show ?thesis
    using sz nz assms by (auto simp: getShortChainHistory_def Let_def)
qed

theorem getShortChainHistory_covers:
  assumes "m_container bi \<noteq> []" and "length (m_container bi) \<le> 2 ^ 62"
  shows "\<exists>ids. getShortChainHistory bi = Some ids \<and> hd ids = getTailId bi \<and> last ids = getBlockId bi 0
    \<and> set ids \<subseteq> set (m_container bi) \<and> (length ids \<le> 11 \<or> 2 ^ (length ids - 12) < length (m_container bi))"
proof -
  let ?c = "m_container bi" and ?n = "length (m_container bi)"
  obtain offs where ids: "getShortChainHistory bi = Some (map (\<lambda>k. ?c ! (?n - k)) offs @ [?c ! 0])"
    and offs: "\<forall>k \<in> set offs. 1 \<le> k \<and> k < ?n" "1 < ?n \<longrightarrow> offs \<noteq> [] \<and> hd offs = 1"
    and len: "offs = [] \<or> length offs \<le> 10 \<or> 2 ^ (length offs - 11) < ?n"
    using getShortChainHistory_offsets [of bi] assms by auto
  have "hd (map (\<lambda>k. ?c ! (?n - k)) offs @ [?c ! 0]) = getTailId bi"
  proof (cases "1 < ?n")
    case True
    then show ?thesis using offs assms by (cases offs) (auto simp: getTailId_def last_conv_nth)
  next
    case False
    then have "?n = 1" using assms by (cases ?c) auto
    then have "offs = []" using offs(1) by (cases offs) auto
    then show ?thesis using \<open>?n = 1\<close> assms by (simp add: getTailId_def last_conv_nth)
  qed
  then show ?thesis using ids offs len assms by (auto simp: getBlockId_def)
qed

theorem getShortChainHistory_covers_witness:
  "\<exists>ids. getShortChainHistory \<lparr>m_container = [[1], [2], [3]]\<rparr> = Some ids \<and> hd ids = [3] \<and> last ids = [1]
    \<and> set ids \<subseteq> {[1], [2], [3]}"
  using getShortChainHistory_covers [of "\<lparr>m_container = [[1], [2], [3]]\<rparr>"]
  by (auto simp: getTailId_def getBlockId_def)

text \<open>A first known id in a list.\<close>

lemma findSupplement_Some:
  assumes "h \<in> set ids" and "hasBlock bi h"
  shows "\<exists>offset. findSupplement bi ids = Some offset"
  using assms(1)
proof (induction ids)
  case (Cons x xs)
  show ?case
  proof (cases "getBlockHeight bi x")
    case None
    then have "x \<noteq> h" using getBlockHeight_None_iff assms(2) by blast
    then show ?thesis using Cons None by simp
  qed simp
qed simp

lemma findSupplement_in:
  assumes "bi_inv bi" and "findSupplement bi ids = Some offset"
  shows "getBlockId bi offset \<in> set ids \<and> unat offset < length (m_container bi)"
  using assms(2)
proof (induction ids)
  case (Cons x xs)
  show ?case
  proof (cases "getBlockHeight bi x")
    case None
    then show ?thesis using Cons by simp
  next
    case (Some height)
    then have "offset = height" using Cons.prems by simp
    then show ?thesis using getBlockHeight_iff [OF assms(1), of x height] Some by (simp add: getBlockId_def)
  qed
qed simp

theorem short_history_finds_common_block:
  assumes "bi_inv mine" and "m_container theirs \<noteq> []" and "length (m_container theirs) \<le> 2 ^ 62"
    and "hasBlock mine (getBlockId theirs 0)" and "getShortChainHistory theirs = Some ids"
  shows "\<exists>offset. findSupplement mine ids = Some offset \<and> unat offset < length (m_container mine)
    \<and> hasBlock theirs (getBlockId mine offset)"
proof -
  obtain offs where ids: "ids = map (\<lambda>k. m_container theirs ! (length (m_container theirs) - k)) offs @ [m_container theirs ! 0]"
      and offs: "\<forall>k \<in> set offs. 1 \<le> k \<and> k < length (m_container theirs)"
    using getShortChainHistory_offsets [of theirs] assms(2,3,5) by auto
  have sub: "set ids \<subseteq> set (m_container theirs)" using ids offs assms(2) by auto
  have "getBlockId theirs 0 \<in> set ids" using ids assms(2) by (simp add: getBlockId_def)
  then obtain offset where "findSupplement mine ids = Some offset" using findSupplement_Some assms(4) by blast
  then show ?thesis using findSupplement_in [OF assms(1)] sub by (auto simp: hasBlock_def)
qed

theorem short_history_finds_common_block_witness:
  "\<exists>offset. findSupplement \<lparr>m_container = [[1], [5]]\<rparr> [[3], [2], [1]] = Some offset \<and> unat offset < Suc (Suc 0)
    \<and> hasBlock \<lparr>m_container = [[1], [2], [3]]\<rparr> (getBlockId \<lparr>m_container = [[1], [5]]\<rparr> offset)"
proof -
  have "getShortChainHistory \<lparr>m_container = [[1], [2], [3]]\<rparr> = Some [[3], [2], [1]]"
    by (simp add: getShortChainHistory_def bi_size_def history_loop.simps Let_def)
  then show ?thesis
    using short_history_finds_common_block [of "\<lparr>m_container = [[1], [5]]\<rparr>" "\<lparr>m_container = [[1], [2], [3]]\<rparr>" "[[3], [2], [1]]"]
      getBlockId_def [of "\<lparr>m_container = [[1], [2], [3]]\<rparr>" 0]
    by (simp add: bi_inv_def hasBlock_def [of "\<lparr>m_container = [[1], [5]]\<rparr>"])
qed

end
