(* ===== verification/Checkpoints.thy ===== *)
theory Checkpoints
  imports Hex BlockIndex
begin

text \<open>
  \<open>src/currency_core/checkpoints.cpp\<close>: block ids fixed in advance at some heights. The \<open>std::map\<close> is the
  list of its entries in the order of the heights.
\<close>

section \<open>Definitions\<close>

record checkpoints =
  m_points :: "(u64 \<times> hash) list"

definition add_checkpoint :: "u64 \<Rightarrow> bytes \<Rightarrow> checkpoints \<Rightarrow> bool \<times> checkpoints" where
  "add_checkpoint height hash_str cp =
    (case parse_tpod_from_hex_string 32 hash_str of
       None \<Rightarrow> (False, cp)
     | Some h \<Rightarrow>
         if map_of (m_points cp) height \<noteq> None then (False, cp)
         else (True, cp\<lparr>m_points := insort_key fst (height, h) (m_points cp)\<rparr>))"

definition is_in_checkpoint_zone :: "checkpoints \<Rightarrow> u64 \<Rightarrow> bool" where
  "is_in_checkpoint_zone cp height \<longleftrightarrow> m_points cp \<noteq> [] \<and> height \<le> fst (last (m_points cp))"

definition is_height_passed_zone :: "checkpoints \<Rightarrow> u64 \<Rightarrow> u64 \<Rightarrow> bool" where
  "is_height_passed_zone cp height blockchain_last_block_height =
    (if blockchain_last_block_height < height then False
     else case dropWhile (\<lambda>p. fst p < height) (m_points cp) of
            [] \<Rightarrow> False
          | it # _ \<Rightarrow> fst it \<le> blockchain_last_block_height)"

definition get_top_checkpoint_height :: "checkpoints \<Rightarrow> u64" where
  "get_top_checkpoint_height cp = (if m_points cp = [] then 0 else fst (last (m_points cp)))"

definition check_block :: "checkpoints \<Rightarrow> u64 \<Rightarrow> hash \<Rightarrow> bool" where
  "check_block cp height h = (case map_of (m_points cp) height of None \<Rightarrow> True | Some p \<Rightarrow> p = h)"

section \<open>Behaviour\<close>

definition cp_inv :: "checkpoints \<Rightarrow> bool" where
  "cp_inv cp \<longleftrightarrow> sorted (map fst (m_points cp)) \<and> distinct (map fst (m_points cp))"

lemma map_of_insort_key:
  assumes "height \<notin> fst ` set ps"
  shows "map_of (insort_key fst (height, h) ps) = (map_of ps)(height \<mapsto> h)"
  using assms by (induction ps) (auto simp: fun_eq_iff)

lemma distinct_insort_key_fst:
  "distinct (map fst (insort_key fst x ps)) \<longleftrightarrow> fst x \<notin> fst ` set ps \<and> distinct (map fst ps)"
  by (induction ps) (auto simp: set_insort_key)

lemma add_checkpoint_inv:
  assumes "cp_inv cp"
  shows "cp_inv (snd (add_checkpoint height s cp))"
  using assms
  by (auto simp: cp_inv_def add_checkpoint_def map_of_eq_None_iff sorted_insort_key distinct_insort_key_fst
      split: option.splits)

lemma add_checkpoint_lookup:
  "map_of (m_points (snd (add_checkpoint height s cp))) =
    (if fst (add_checkpoint height s cp)
     then (map_of (m_points cp))(height \<mapsto> the (parse_tpod_from_hex_string 32 s)) else map_of (m_points cp))"
  by (auto simp: add_checkpoint_def map_of_insort_key map_of_eq_None_iff split: option.splits)

text \<open>The heights with a checkpoint, in increasing order.\<close>

lemma last_is_greatest:
  assumes "sorted (map fst ps)" and "p \<in> set ps"
  shows "fst p \<le> fst (last ps)"
  using assms by (induction ps rule: rev_induct) (auto simp: sorted_append)

lemma zone_iff:
  assumes "cp_inv cp"
  shows "is_in_checkpoint_zone cp height \<longleftrightarrow> (\<exists>p \<in> set (m_points cp). height \<le> fst p)"
  using last_is_greatest [of "m_points cp"] assms last_in_set [of "m_points cp"]
  by (auto simp: is_in_checkpoint_zone_def cp_inv_def intro: order_trans)

lemma passed_zone_iff:
  assumes "cp_inv cp"
  shows "is_height_passed_zone cp height top \<longleftrightarrow> (\<exists>p \<in> set (m_points cp). height \<le> fst p \<and> fst p \<le> top)"
proof -
  let ?r = "dropWhile (\<lambda>p. fst p < height) (m_points cp)"
  have split: "m_points cp = takeWhile (\<lambda>p. fst p < height) (m_points cp) @ ?r" by simp
  have below: "p \<in> set (takeWhile (\<lambda>p. fst p < height) (m_points cp)) \<Longrightarrow> fst p < height" for p
    by (auto dest: set_takeWhileD)
  have "sorted (map fst (takeWhile (\<lambda>p. fst p < height) (m_points cp)) @ map fst ?r)"
    using assms unfolding map_append [symmetric] by (simp add: cp_inv_def)
  then have sorted: "sorted (map fst ?r)" by (simp add: sorted_append)
  have above: "p \<in> set (m_points cp) \<and> height \<le> fst p \<Longrightarrow> p \<in> set ?r" for p
    using below [of p] by (metis Un_iff not_le set_append split)
  show ?thesis
  proof (cases ?r)
    case Nil
    then have "\<not> is_height_passed_zone cp height top"
      by (simp add: is_height_passed_zone_def del: dropWhile_eq_Nil_conv)
    moreover have "\<not> height \<le> fst p" if "p \<in> set (m_points cp)" for p using Nil above [of p] that by auto
    ultimately show ?thesis by blast
  next
    case (Cons it rest)
    have it: "it \<in> set (m_points cp)" "\<not> fst it < height"
      using Cons hd_dropWhile [of "\<lambda>p. fst p < height" "m_points cp"] set_dropWhileD [of it "\<lambda>p. fst p < height" "m_points cp"] by auto
    have least: "fst it \<le> fst p" if "p \<in> set (m_points cp)" "height \<le> fst p" for p
      using above [of p] that sorted Cons by auto
    show ?thesis
      using it least Cons by (auto simp: is_height_passed_zone_def not_less intro: order_trans)
  qed
qed

text \<open>A table of checkpoints, built entry by entry: the first entry of a height stays.\<close>

definition create_checkpoints :: "(u64 \<times> bytes) list \<Rightarrow> checkpoints" where
  "create_checkpoints entries = fold (\<lambda>(height, s) cp. snd (add_checkpoint height s cp)) entries \<lparr>m_points = []\<rparr>"

lemma create_checkpoints_inv: "cp_inv (create_checkpoints entries)"
proof -
  have "cp_inv cp \<Longrightarrow> cp_inv (fold (\<lambda>(height, s) cp. snd (add_checkpoint height s cp)) entries cp)" for cp
    by (induction entries arbitrary: cp) (auto simp: add_checkpoint_inv)
  then show ?thesis by (simp add: create_checkpoints_def cp_inv_def)
qed

theorem checkpoint_zones:
  "(is_in_checkpoint_zone (create_checkpoints entries) height \<longleftrightarrow>
      (\<exists>p. map_of (m_points (create_checkpoints entries)) p \<noteq> None \<and> height \<le> p))
   \<and> (is_height_passed_zone (create_checkpoints entries) height top \<longleftrightarrow>
      (\<exists>p. map_of (m_points (create_checkpoints entries)) p \<noteq> None \<and> height \<le> p \<and> p \<le> top))"
  unfolding zone_iff [OF create_checkpoints_inv] passed_zone_iff [OF create_checkpoints_inv] map_of_eq_None_iff by force

lemma checkpoint_enforced:
  assumes "add_checkpoint height s cp = (True, cp')"
  shows "check_block cp' height h \<longleftrightarrow> parse_tpod_from_hex_string 32 s = Some h"
    and "height' \<noteq> height \<Longrightarrow> check_block cp' height' h = check_block cp height' h"
proof -
  obtain p where p: "parse_tpod_from_hex_string 32 s = Some p"
    using assms by (auto simp: add_checkpoint_def split: option.splits)
  then have "map_of (m_points cp') = (map_of (m_points cp))(height \<mapsto> p)"
    using add_checkpoint_lookup [of height s cp] assms by simp
  then show "check_block cp' height h \<longleftrightarrow> parse_tpod_from_hex_string 32 s = Some h"
    and "height' \<noteq> height \<Longrightarrow> check_block cp' height' h = check_block cp height' h"
    using p by (auto simp: check_block_def)
qed

end
