(* ===== verification/Reward.thy ===== *)
theory Reward
  imports IntUtil
begin

unbundle bit_operations_syntax

text \<open>
  The emission rule of \<open>src/currency_core/currency_basic_impl.cpp\<close> with the constants of
  \<open>src/currency_config.h\<close> (main network). All quantities are \<open>u64\<close>; the donation amount, an \<open>int64_t\<close>
  in the source, enters only operations that convert it to \<open>uint64_t\<close> and is kept as those 64 bits.
\<close>

section \<open>Definitions\<close>

definition TOTAL_MONEY_SUPPLY :: u64 where
  "TOTAL_MONEY_SUPPLY = - 1"

definition DONATIONS_SUPPLY :: u64 where
  "DONATIONS_SUPPLY = 0"

definition EMISSION_SUPPLY :: u64 where
  "EMISSION_SUPPLY = TOTAL_MONEY_SUPPLY - DONATIONS_SUPPLY"

definition EMISSION_CURVE_CHARACTER :: nat where
  "EMISSION_CURVE_CHARACTER = 17"

definition DEFAULT_DUST_THRESHOLD :: u64 where
  "DEFAULT_DUST_THRESHOLD = 1000000"

definition CURRENCY_DONATIONS_INTERVAL :: nat where
  "CURRENCY_DONATIONS_INTERVAL = 1440"

definition CURRENCY_BLOCK_GRANTED_FULL_REWARD_ZONE :: u64 where
  "CURRENCY_BLOCK_GRANTED_FULL_REWARD_ZONE = 30000"

definition CURRENCY_BLOCK_GRANTED_FULL_REWARD_ZONE_ENLARGE :: u64 where
  "CURRENCY_BLOCK_GRANTED_FULL_REWARD_ZONE_ENLARGE = 1000000"

definition CURRENCY_COINBASE_BLOB_RESERVED_SIZE :: u64 where
  "CURRENCY_COINBASE_BLOB_RESERVED_SIZE = 600"

definition ENLARGE_STARTING_BLOCK :: u64 where
  "ENLARGE_STARTING_BLOCK = 147000"

definition get_donations_anount_for_day :: "u64 \<Rightarrow> bool list \<Rightarrow> u64 option" where
  "get_donations_anount_for_day already_donated_coins votes =
    (if length votes \<noteq> CURRENCY_DONATIONS_INTERVAL then None
     else let votes_count = word_of_nat (length (filter id votes));
              (amount, donated) = ((\<lambda>(amount, donated).
                  let amount = amount + drop_bit EMISSION_CURVE_CHARACTER (DONATIONS_SUPPLY - donated)
                  in (amount, donated - amount)) ^^ CURRENCY_DONATIONS_INTERVAL) (0, already_donated_coins);
              amount = (amount * votes_count) div word_of_nat CURRENCY_DONATIONS_INTERVAL
          in Some (amount - amount mod DEFAULT_DUST_THRESHOLD))"

text \<open>Result: (royalty, donation).\<close>

definition get_donation_parts :: "u64 \<Rightarrow> u64 \<times> u64" where
  "get_donation_parts total_donations =
    (let royalty = total_donations div 10 in (royalty, total_donations - royalty))"

definition get_block_granted_full_reward_zone :: "u64 \<Rightarrow> u64" where
  "get_block_granted_full_reward_zone block_height =
    (if block_height < ENLARGE_STARTING_BLOCK then CURRENCY_BLOCK_GRANTED_FULL_REWARD_ZONE
     else CURRENCY_BLOCK_GRANTED_FULL_REWARD_ZONE_ENLARGE)"

definition get_max_transaction_blob_size :: "u64 \<Rightarrow> u64" where
  "get_max_transaction_blob_size block_height =
    (if block_height < ENLARGE_STARTING_BLOCK
     then CURRENCY_BLOCK_GRANTED_FULL_REWARD_ZONE - CURRENCY_COINBASE_BLOB_RESERVED_SIZE * 2
     else CURRENCY_BLOCK_GRANTED_FULL_REWARD_ZONE_ENLARGE - CURRENCY_COINBASE_BLOB_RESERVED_SIZE * 2)"

text \<open>\<open>None\<close> is the return value \<open>false\<close>; \<open>Some\<close> holds the output \<open>reward\<close>.\<close>

definition get_block_reward :: "u64 \<Rightarrow> u64 \<Rightarrow> u64 \<Rightarrow> u64 \<Rightarrow> u64 option" where
  "get_block_reward median_size current_block_size already_generated_coins block_height =
    (let base_reward = drop_bit EMISSION_CURVE_CHARACTER (EMISSION_SUPPLY - already_generated_coins);
         base_reward = base_reward - base_reward mod DEFAULT_DUST_THRESHOLD;
         median_size = (if median_size < get_block_granted_full_reward_zone block_height
                        then get_block_granted_full_reward_zone block_height else median_size)
     in if current_block_size \<le> median_size then Some base_reward
        else if current_block_size > 2 * median_size then None
        else if \<not> median_size < 0xFFFFFFFF then None
        else if \<not> current_block_size < 0xFFFFFFFF then None
        else let (product_lo, product_hi) = mul128 base_reward (current_block_size * (2 * median_size - current_block_size))
             in case div128_32 product_hi product_lo (ucast median_size) of None \<Rightarrow> None
              | Some (_, reward_hi, reward_lo) \<Rightarrow>
                  (case div128_32 reward_hi reward_lo (ucast median_size) of None \<Rightarrow> None
                   | Some (_, reward_hi, reward_lo) \<Rightarrow>
                       if reward_hi \<noteq> 0 then None
                       else if \<not> reward_lo < base_reward then None
                       else Some reward_lo))"

section \<open>Emission\<close>

text \<open>The base reward as a number.\<close>

definition base_reward_of :: "nat \<Rightarrow> nat" where
  "base_reward_of generated = (2 ^ 64 - 1 - generated) div 2 ^ 17 div 1000000 * 1000000"

definition penalty_median :: "u64 \<Rightarrow> u64 \<Rightarrow> nat" where
  "penalty_median median_size block_height =
    max (unat median_size) (if unat block_height < 147000 then 30000 else 1000000)"

lemma base_reward_unat:
  fixes g :: u64
  defines "b \<equiv> drop_bit EMISSION_CURVE_CHARACTER (EMISSION_SUPPLY - g)"
  shows "unat (b - b mod DEFAULT_DUST_THRESHOLD) = base_reward_of (unat g)"
proof -
  have "unat (EMISSION_SUPPLY - g) = 2 ^ 64 - 1 - unat g"
    unfolding EMISSION_SUPPLY_def DONATIONS_SUPPLY_def TOTAL_MONEY_SUPPLY_def
    by (subst unat_sub_no_wrap) (simp_all add: unsigned_minus_1_eq_mask mask_eq_exp_minus_1)
  then have b: "unat b = (2 ^ 64 - 1 - unat g) div 2 ^ 17"
    by (simp add: b_def EMISSION_CURVE_CHARACTER_def unat_drop_bit_div)
  have "b mod DEFAULT_DUST_THRESHOLD \<le> b" by (simp add: word_le_nat_alt unat_mod_word)
  then have "unat (b - b mod DEFAULT_DUST_THRESHOLD) = unat b - unat b mod 1000000"
    by (simp add: unat_sub_no_wrap unat_mod_word DEFAULT_DUST_THRESHOLD_def)
  also have "\<dots> = unat b div 1000000 * 1000000" by (metis minus_mod_eq_div_mult)
  finally show ?thesis by (simp add: b base_reward_of_def)
qed

lemma median_unat:
  "unat (if m < get_block_granted_full_reward_zone h then get_block_granted_full_reward_zone h else m) = penalty_median m h"
  by (simp add: penalty_median_def get_block_granted_full_reward_zone_def word_less_nat_alt max_def
      CURRENCY_BLOCK_GRANTED_FULL_REWARD_ZONE_def CURRENCY_BLOCK_GRANTED_FULL_REWARD_ZONE_ENLARGE_def ENLARGE_STARTING_BLOCK_def)

lemma penalty_below:
  fixes b c m :: nat
  assumes "m < c" and "c \<le> 2 * m" and "0 < b"
  shows "b * (c * (2 * m - c)) div (m * m) < b"
proof -
  have "c * (2 * m - c) < m * m"
  proof -
    obtain k where k: "c = m + k" "0 < k" "k \<le> m" using assms by (metis add_diff_cancel_left' add_le_cancel_left less_imp_add_positive mult_2)
    then have "(m + k) * (m - k) + k * k = m * m"
      using mult_le_mono [OF k(3) k(3)] by (simp add: algebra_simps diff_mult_distrib2)
    then show ?thesis using k by (auto simp: algebra_simps)
  qed
  moreover have "0 < m" using assms by simp
  ultimately show ?thesis using assms(3) by (simp add: div_less_iff_less_mult)
qed

lemma div128_32_div:
  assumes "unat d \<noteq> 0"
  shows "\<exists>r qh ql. div128_32 hi lo d = Some (r, qh, ql) \<and> unat qh * 2 ^ 64 + unat ql = (unat hi * 2 ^ 64 + unat lo) div unat d"
proof -
  have "d \<noteq> 0" using assms by auto
  from div128_32_exact [OF this, of hi lo] obtain r qh ql where
    q: "div128_32 hi lo d = Some (r, qh, ql)"
    "unat hi * 2 ^ 64 + unat lo = (unat qh * 2 ^ 64 + unat ql) * unat d + unat r" "unat r < unat d" by blast
  have "((unat qh * 2 ^ 64 + unat ql) * unat d + unat r) div unat d = unat qh * 2 ^ 64 + unat ql"
    using q(3) div_mult_self3 [OF assms, of "unat qh * 2 ^ 64 + unat ql" "unat r"] by simp
  then show ?thesis using q(1,2) by metis
qed

lemma get_block_reward_small:
  assumes "unat cur \<le> penalty_median median h"
  shows "map_option unat (get_block_reward median cur g h) = Some (base_reward_of (unat g))"
  using assms base_reward_unat [of g] median_unat [of median h]
  by (simp add: get_block_reward_def Let_def word_le_nat_alt)

lemma get_block_reward_large:
  assumes c: "penalty_median median h < unat cur" "unat cur \<le> 2 * penalty_median median h" "unat cur < 0xFFFFFFFF"
  shows "map_option unat (get_block_reward median cur g h) =
    (let b = base_reward_of (unat g); m = penalty_median median h; c = unat cur
     in if b = 0 then None else Some (b * (c * (2 * m - c)) div (m * m)))"
proof -
  define m where "m = (if median < get_block_granted_full_reward_zone h then get_block_granted_full_reward_zone h else median)"
  define b where "b = drop_bit EMISSION_CURVE_CHARACTER (EMISSION_SUPPLY - g) - drop_bit EMISSION_CURVE_CHARACTER (EMISSION_SUPPLY - g) mod DEFAULT_DUST_THRESHOLD"
  let ?m = "penalty_median median h" and ?b = "base_reward_of (unat g)" and ?c = "unat cur"
  have mu: "unat m = ?m" unfolding m_def by (rule median_unat)
  have bu: "unat b = ?b" unfolding b_def by (rule base_reward_unat)
  have m0: "0 < ?m" by (simp add: penalty_median_def less_max_iff_disj)
  have "unat (2 * m) = 2 * ?m" using c mu by (subst unat_mult_no_wrap) simp_all
  moreover from this have "unat (2 * m - cur) = 2 * ?m - ?c" using c by (subst unat_sub_no_wrap) (simp_all add: word_le_nat_alt)
  moreover have "?c * (2 * ?m - ?c) < 0xFFFFFFFF * 0xFFFFFFFF" using c by (intro mult_strict_mono) auto
  ultimately have p: "unat (cur * (2 * m - cur)) = ?c * (2 * ?m - ?c)" by (subst unat_mult_no_wrap) simp_all
  have d: "unat (ucast m :: u32) = ?m" using c mu by (simp add: unat_ucast_mod)
  obtain lo hi where mul: "mul128 b (cur * (2 * m - cur)) = (lo, hi)" by force
  obtain r1 h1 l1 where d1: "div128_32 hi lo (ucast m) = Some (r1, h1, l1)"
      "unat h1 * 2 ^ 64 + unat l1 = (unat hi * 2 ^ 64 + unat lo) div ?m"
    using div128_32_div [of "ucast m :: u32" hi lo] d m0 by auto
  obtain r2 h2 l2 where d2: "div128_32 h1 l1 (ucast m) = Some (r2, h2, l2)"
      "unat h2 * 2 ^ 64 + unat l2 = (unat h1 * 2 ^ 64 + unat l1) div ?m"
    using div128_32_div [of "ucast m :: u32" h1 l1] d m0 by auto
  have q: "unat h2 * 2 ^ 64 + unat l2 = ?b * (?c * (2 * ?m - ?c)) div (?m * ?m)"
    using d2(2) d1(2) mul128_exact [OF mul] p bu by (simp add: div_mult2_eq)
  have code: "get_block_reward median cur g h = (if h2 \<noteq> 0 then None else if \<not> l2 < b then None else Some l2)"
    using c mul d1(1) d2(1) \<open>unat (2 * m) = 2 * ?m\<close>
    unfolding get_block_reward_def m_def [symmetric] b_def [symmetric] Let_def
    by (simp add: word_le_nat_alt word_less_nat_alt mu not_less not_le)
  show ?thesis
  proof (cases "?b = 0")
    case True
    then have "b = 0" using bu by (simp add: unat_eq_zero)
    then show ?thesis using code True by (simp add: Let_def)
  next
    case False
    then have lt: "?b * (?c * (2 * ?m - ?c)) div (?m * ?m) < ?b" using penalty_below [of ?m ?c ?b] c by simp
    then have small: "unat h2 * 2 ^ 64 + unat l2 < 2 ^ 64" using q bu unat_u64_bound [of b] by simp
    then have "h2 = 0" by (simp add: word_unat_eq_iff)
    moreover from this have "unat l2 = ?b * (?c * (2 * ?m - ?c)) div (?m * ?m)" using q by simp
    ultimately show ?thesis using code lt bu False by (simp add: Let_def word_less_nat_alt)
  qed
qed

lemma get_block_reward_oversized:
  assumes "2 * penalty_median median h < unat cur"
  shows "get_block_reward median cur g h = None"
proof -
  define m where "m = (if median < get_block_granted_full_reward_zone h then get_block_granted_full_reward_zone h else median)"
  have mu: "unat m = penalty_median median h" unfolding m_def by (rule median_unat)
  have "penalty_median median h < 9223372036854775808" using assms unat_u64_bound [of cur] by linarith
  then have "unat (2 * m) = 2 * unat m" using mu by (subst unat_mult_no_wrap) simp_all
  then show ?thesis
    unfolding get_block_reward_def m_def [symmetric] Let_def
    using assms mu by (simp add: word_le_nat_alt word_less_nat_alt)
qed

text \<open>C26: \<open>get_block_reward\<close> grants the base reward up to the median size, the penalised reward b
  c (2 m - c) / m^2 up to twice the median, and fails beyond it or, above the median, when the base reward
  is zero; block sizes are below 2^32 - 1.\<close>

theorem get_block_reward_formula:
  fixes median cur g h :: u64
  defines "m \<equiv> penalty_median median h" and "c \<equiv> unat cur" and "b \<equiv> base_reward_of (unat g)"
  assumes "c < 0xFFFFFFFF"
  shows "map_option unat (get_block_reward median cur g h) =
    (if c \<le> m then Some b
     else if c \<le> 2 * m \<and> 0 < b then Some (b * (c * (2 * m - c)) div (m * m))
     else None)"
proof -
  consider "c \<le> m" | "m < c" "c \<le> 2 * m" | "2 * m < c" "m < c" by linarith
  then show ?thesis
    using assms get_block_reward_small [of cur median h g] get_block_reward_large [of median h cur g]
      get_block_reward_oversized [of median h cur g]
    by cases (auto simp: Let_def)
qed

theorem get_block_reward_formula_witness:
  "map_option unat (get_block_reward 0 45000 0 0) = Some (140737488000000 * (45000 * 15000) div (30000 * 30000))"
  using get_block_reward_formula [of 45000 0 0 0]
  by (simp add: penalty_median_def base_reward_of_def)

text \<open>The generated coins and the next reward stay below the supply, whatever the sizes and medians.\<close>

lemma reward_bounded:
  assumes "get_block_reward median cur g h = Some r"
  shows "unat g + unat r < 2 ^ 64 \<and> unat r * 2 ^ 17 \<le> 2 ^ 64 - 1 - unat g \<and> (unat cur \<le> penalty_median median h \<longrightarrow> 1000000 dvd unat r)"
proof -
  let ?b = "base_reward_of (unat g)"
  define b where "b = drop_bit EMISSION_CURVE_CHARACTER (EMISSION_SUPPLY - g) - drop_bit EMISSION_CURVE_CHARACTER (EMISSION_SUPPLY - g) mod DEFAULT_DUST_THRESHOLD"
  have bu: "unat b = ?b" unfolding b_def by (rule base_reward_unat)
  have "r \<le> b"
    using assms unfolding get_block_reward_def b_def
    by (auto simp: Let_def split: if_splits option.splits prod.splits)
  then have "unat r \<le> ?b" using bu by (simp add: word_le_nat_alt)
  then have "unat r * 2 ^ 17 \<le> ?b * 2 ^ 17" by simp
  also have "\<dots> \<le> (2 ^ 64 - 1 - unat g) div 2 ^ 17 * 2 ^ 17"
    unfolding base_reward_of_def by (intro mult_right_mono div_times_less_eq_dividend) simp
  also have "\<dots> \<le> 2 ^ 64 - 1 - unat g" by (rule div_times_less_eq_dividend)
  finally have r: "unat r * 2 ^ 17 \<le> 2 ^ 64 - 1 - unat g" .
  moreover have "unat g + unat r < 2 ^ 64" using r unat_u64_bound [of g] by (simp, linarith)
  moreover have "unat cur \<le> penalty_median median h \<Longrightarrow> unat r = ?b" using assms get_block_reward_small [of cur median h g] by simp
  ultimately show ?thesis by (simp add: base_reward_of_def)
qed

lemma donation_parts_sum: "get_donation_parts t = (r, d) \<Longrightarrow> unat r + unat d = unat t \<and> unat r = unat t div 10"
  by (auto simp: get_donation_parts_def Let_def unat_sub_no_wrap unat_div_word word_le_nat_alt)

end
