(* ===== verification/Keccak.thy ===== *)
theory Keccak
  imports Prelude
begin

unbundle bit_operations_syntax

text \<open>
  \<open>src/crypto/keccak.c\<close> and \<open>src/crypto/hash.c\<close>: the Keccak permutation on 25 words, the sponge on top of it
  and the hash \<open>cn_fast_hash\<close>. The arrays are lists, updated in place as in the source; words are read
  from and written to memory least significant byte first.
\<close>

section \<open>Definitions\<close>

definition keccakf_rndc :: "u64 list" where
  "keccakf_rndc =
    [0x0000000000000001, 0x0000000000008082, 0x800000000000808a,
     0x8000000080008000, 0x000000000000808b, 0x0000000080000001,
     0x8000000080008081, 0x8000000000008009, 0x000000000000008a,
     0x0000000000000088, 0x0000000080008009, 0x000000008000000a,
     0x000000008000808b, 0x800000000000008b, 0x8000000000008089,
     0x8000000000008003, 0x8000000000008002, 0x8000000000000080,
     0x000000000000800a, 0x800000008000000a, 0x8000000080008081,
     0x8000000000008080, 0x0000000080000001, 0x8000000080008008]"

definition keccakf_rotc :: "nat list" where
  "keccakf_rotc =
    [1,  3,  6,  10, 15, 21, 28, 36, 45, 55, 2,  14,
     27, 41, 56, 8,  25, 43, 62, 18, 39, 61, 20, 44]"

definition keccakf_piln :: "nat list" where
  "keccakf_piln =
    [10, 7,  11, 17, 18, 3, 5,  16, 8,  21, 24, 4,
     15, 23, 19, 13, 12, 2, 20, 14, 22, 9,  6,  1]"

definition ROTL64 :: "u64 \<Rightarrow> nat \<Rightarrow> u64" where
  "ROTL64 x y = push_bit y x OR drop_bit (64 - y) x"

definition theta :: "u64 list \<Rightarrow> u64 list" where
  "theta st =
    (let bc = map (\<lambda>i. st ! i XOR st ! (i + 5) XOR st ! (i + 10) XOR st ! (i + 15) XOR st ! (i + 20)) [0, 1, 2, 3, 4]
     in foldl (\<lambda>st i. let t = bc ! ((i + 4) mod 5) XOR ROTL64 (bc ! ((i + 1) mod 5)) 1
           in foldl (\<lambda>st j. st[j + i := st ! (j + i) XOR t]) st [0, 5, 10, 15, 20]) st [0, 1, 2, 3, 4])"

definition rho_pi :: "u64 list \<Rightarrow> u64 list" where
  "rho_pi st =
    fst (foldl (\<lambda>(st, t) i. let j = keccakf_piln ! i; bc0 = st ! j in (st[j := ROTL64 t (keccakf_rotc ! i)], bc0))
      (st, st ! 1) [0, 1, 2, 3, 4, 5, 6, 7, 8, 9, 10, 11, 12, 13, 14, 15, 16, 17, 18, 19, 20, 21, 22, 23])"

definition chi :: "u64 list \<Rightarrow> u64 list" where
  "chi st =
    foldl (\<lambda>st j. let bc = map (\<lambda>i. st ! (j + i)) [0, 1, 2, 3, 4]
      in foldl (\<lambda>st i. st[j + i := st ! (j + i) XOR (NOT (bc ! ((i + 1) mod 5)) AND bc ! ((i + 2) mod 5))])
           st [0, 1, 2, 3, 4]) st [0, 5, 10, 15, 20]"

definition iota :: "nat \<Rightarrow> u64 list \<Rightarrow> u64 list" where
  "iota round st = st[0 := st ! 0 XOR keccakf_rndc ! round]"

definition keccakf :: "u64 list \<Rightarrow> nat \<Rightarrow> u64 list" where
  "keccakf st rounds = foldl (\<lambda>st round. iota round (chi (rho_pi (theta st)))) st [0..<rounds]"

text \<open>A word in memory.\<close>

definition load_word :: "bytes \<Rightarrow> u64" where
  "load_word bs = foldr (\<lambda>b w. push_bit 8 w OR ucast b) bs 0"

definition store_word :: "u64 \<Rightarrow> bytes" where
  "store_word w = map (\<lambda>i. ucast (drop_bit (8 * i) w)) [0, 1, 2, 3, 4, 5, 6, 7]"

definition xor_block :: "nat \<Rightarrow> u64 list \<Rightarrow> bytes \<Rightarrow> u64 list" where
  "xor_block rsizw st block =
    foldl (\<lambda>st i. st[i := st ! i XOR load_word (take 8 (drop (8 * i) block))]) st [0..<rsizw]"

definition HASH_DATA_AREA :: nat where
  "HASH_DATA_AREA = 136"

text \<open>
  The loop over the full blocks; \<open>inlen\<close> is the signed counter of the bytes that are left. The result is the state, the
  input that is left and the counter.
\<close>

function keccak_absorb :: "nat \<Rightarrow> u64 list \<Rightarrow> bytes \<Rightarrow> int \<Rightarrow> u64 list \<times> bytes \<times> int" where
  "keccak_absorb rsiz st input inlen =
    (if 0 < rsiz \<and> int rsiz \<le> inlen
     then keccak_absorb rsiz (keccakf (xor_block (rsiz div 8) st input) 24) (drop rsiz input) (inlen - int rsiz)
     else (st, input, inlen))"
  by pat_completeness auto
termination by (relation "measure (\<lambda>(r, s, i, n). nat n)") auto

declare keccak_absorb.simps [simp del]

text \<open>For a negative \<open>inlen\<close> the size given to \<open>memcpy\<close> is beyond every buffer: the result \<open>None\<close> is undefined behaviour.\<close>

definition keccak :: "bytes \<Rightarrow> int \<Rightarrow> nat \<Rightarrow> bytes option" where
  "keccak input inlen mdlen =
    (let rsiz = (if 200 = mdlen then HASH_DATA_AREA else 200 - 2 * mdlen);
         (st, rest, inlen) = keccak_absorb rsiz (replicate 25 0) input inlen
     in if inlen < 0 then None
        else let temp = take (nat inlen) rest @ [1] @ replicate (rsiz - (nat inlen + 1)) 0;
                 temp = temp[rsiz - 1 := temp ! (rsiz - 1) OR 0x80];
                 st = keccakf (xor_block (rsiz div 8) st temp) 24
             in Some (take mdlen (concat (map store_word st))))"

definition keccak1600 :: "bytes \<Rightarrow> int \<Rightarrow> bytes option" where
  "keccak1600 input inlen = keccak input inlen 200"

text \<open>The conversion \<open>(int)count\<close> keeps the low 32 bits and reads them as a signed number.\<close>

definition int_of_count :: "nat \<Rightarrow> int" where
  "int_of_count count = sint (word_of_nat count :: 32 word)"

definition hash_process :: "bytes \<Rightarrow> bytes option" where
  "hash_process buf = keccak1600 buf (int_of_count (length buf))"

definition HASH_SIZE :: nat where
  "HASH_SIZE = 32"

text \<open>Where the behaviour is undefined the model takes zeros.\<close>

definition cn_fast_hash :: "bytes \<Rightarrow> bytes" where
  "cn_fast_hash data = (case hash_process data of None \<Rightarrow> replicate HASH_SIZE 0 | Some state \<Rightarrow> take HASH_SIZE state)"

section \<open>The reference permutation\<close>

text \<open>
  The step mappings of the Keccak specification on the lanes \<open>A[x, y]\<close>, at position \<open>x + 5 y\<close> of the list.
  The rotation offsets come from the walk of the specification, the round constants from its shift
  register.
\<close>

definition lane :: "u64 list \<Rightarrow> nat \<Rightarrow> nat \<Rightarrow> u64" where
  "lane A x y = A ! (x mod 5 + 5 * y)"

definition of_lanes :: "(nat \<Rightarrow> nat \<Rightarrow> u64) \<Rightarrow> u64 list" where
  "of_lanes f = map (\<lambda>k. f (k mod 5) (k div 5)) [0..<25]"

definition column :: "u64 list \<Rightarrow> nat \<Rightarrow> u64" where
  "column A x = lane A x 0 XOR lane A x 1 XOR lane A x 2 XOR lane A x 3 XOR lane A x 4"

definition ref_theta :: "u64 list \<Rightarrow> u64 list" where
  "ref_theta A = of_lanes (\<lambda>x y. lane A x y XOR column A (x + 4) XOR word_rotl 1 (column A (x + 1)))"

primrec rho_pos :: "nat \<Rightarrow> nat \<times> nat" where
  "rho_pos 0 = (1, 0)"
| "rho_pos (Suc t) = (case rho_pos t of (x, y) \<Rightarrow> (y, (2 * x + 3 * y) mod 5))"

definition rho_offset :: "nat \<Rightarrow> nat \<Rightarrow> nat" where
  "rho_offset x y = (case find (\<lambda>t. rho_pos t = (x, y)) [0..<24] of None \<Rightarrow> 0 | Some t \<Rightarrow> ((t + 1) * (t + 2) div 2) mod 64)"

definition ref_rho :: "u64 list \<Rightarrow> u64 list" where
  "ref_rho A = of_lanes (\<lambda>x y. word_rotl (rho_offset x y) (lane A x y))"

definition ref_pi :: "u64 list \<Rightarrow> u64 list" where
  "ref_pi A = of_lanes (\<lambda>x y. lane A (x + 3 * y) x)"

definition ref_chi :: "u64 list \<Rightarrow> u64 list" where
  "ref_chi A = of_lanes (\<lambda>x y. lane A x y XOR (NOT (lane A (x + 1) y) AND lane A (x + 2) y))"

fun shift_register :: "bool list \<Rightarrow> bool list" where
  "shift_register [r0, r1, r2, r3, r4, r5, r6, r7] = [r7, r0, r1, r2, r3 \<noteq> r7, r4 \<noteq> r7, r5 \<noteq> r7, r6]"
| "shift_register _ = []"

definition rc_bit :: "nat \<Rightarrow> bool" where
  "rc_bit t = hd ((shift_register ^^ (t mod 255)) [True, False, False, False, False, False, False, False])"

definition round_constant :: "nat \<Rightarrow> u64" where
  "round_constant r = foldl (\<lambda>w j. w OR push_bit (2 ^ j - 1) (of_bool (rc_bit (j + 7 * r)))) 0 [0, 1, 2, 3, 4, 5, 6]"

definition ref_iota :: "nat \<Rightarrow> u64 list \<Rightarrow> u64 list" where
  "ref_iota r A = of_lanes (\<lambda>x y. if x = 0 \<and> y = 0 then lane A x y XOR round_constant r else lane A x y)"

definition ref_keccakf :: "u64 list \<Rightarrow> u64 list" where
  "ref_keccakf A = fold (\<lambda>r A. ref_iota r (ref_chi (ref_pi (ref_rho (ref_theta A))))) [0..<24] A"

section \<open>Equivalence\<close>

lemma ROTL64_word_rotl:
  assumes "0 < y" and "y < 64"
  shows "ROTL64 x y = word_rotl y x"
proof (rule bit_word_eqI)
  fix n assume "n < LENGTH(64)"
  then have n: "n < 64" by simp
  define k where "k = 64 - y"
  have l: "bit (ROTL64 x y) n \<longleftrightarrow> bit (push_bit y x) n \<or> bit x (k + n)"
    by (simp add: ROTL64_def bit_or_iff bit_drop_bit_eq k_def)
  have r: "bit (word_rotl y x) n \<longleftrightarrow> bit x ((n + k) mod 64)"
    using n assms by (simp add: bit_word_rotl_iff k_def)
  show "bit (ROTL64 x y) n \<longleftrightarrow> bit (word_rotl y x) n"
  proof (cases "y \<le> n")
    case True
    then have "(n + k) mod 64 = n - y" using n assms by (simp add: mod_if k_def)
    moreover have "\<not> bit x (k + n)" using bit_imp_le_length [of x "k + n"] True assms by (auto simp: k_def)
    ultimately show ?thesis unfolding l r using True n by (simp add: bit_push_bit_iff)
  next
    case False
    then have "(n + k) mod 64 = k + n" using n assms by (auto simp: mod_if k_def)
    then show ?thesis unfolding l r using False by (simp add: bit_push_bit_iff)
  qed
qed

lemma word_rotl_0: "word_rotl 0 x = (x :: u64)"
  by (rule bit_word_eqI) (simp add: bit_word_rotl_iff)

lemma length_of_lanes [simp]: "length (of_lanes f) = 25"
  by (simp add: of_lanes_def)

lemma upt_25: "[0..<25] = [0, 1, 2, 3, 4, 5, 6, 7, 8, 9, 10, 11, 12, 13, 14, 15, 16, 17, 18, 19, 20, 21, 22, 23, 24]"
  by (simp add: upt_rec)

lemma list_25E:
  assumes "length st = 25"
  obtains a0 a1 a2 a3 a4 a5 a6 a7 a8 a9 a10 a11 a12 a13 a14 a15 a16 a17 a18 a19 a20 a21 a22 a23 a24
    where "st = [a0, a1, a2, a3, a4, a5, a6, a7, a8, a9, a10, a11, a12, a13, a14, a15, a16, a17, a18, a19, a20, a21, a22, a23, a24]"
  using assms by (auto simp: length_Suc_conv numeral_eq_Suc)

lemma theta_ref: "length st = 25 \<Longrightarrow> theta st = ref_theta st"
  by (erule list_25E)
    (simp add: theta_def ref_theta_def of_lanes_def upt_25 lane_def column_def ROTL64_word_rotl Let_def xor.assoc)

lemma rho_offsets:
  "map (\<lambda>k. rho_offset (k mod 5) (k div 5)) [0..<25] =
    [0, 1, 62, 28, 27, 36, 44, 6, 55, 20, 3, 10, 43, 25, 39, 41, 45, 15, 21, 8, 18, 2, 61, 56, 14]"
  by code_simp

lemma rho_pi_ref:
  assumes "length st = 25"
  shows "rho_pi st = ref_pi (ref_rho st)"
proof -
  have "ref_rho st = map (\<lambda>k. word_rotl (map (\<lambda>k. rho_offset (k mod 5) (k div 5)) [0..<25] ! k) (lane st (k mod 5) (k div 5))) [0..<25]"
    by (simp add: ref_rho_def of_lanes_def)
  then show ?thesis
    using assms unfolding rho_offsets
    by (elim list_25E) (simp add: rho_pi_def ref_pi_def of_lanes_def upt_25 lane_def keccakf_piln_def keccakf_rotc_def ROTL64_word_rotl word_rotl_0)
qed

lemma chi_ref: "length st = 25 \<Longrightarrow> chi st = ref_chi st"
  by (erule list_25E) (simp add: chi_def ref_chi_def of_lanes_def upt_25 lane_def)

lemma round_constants: "r < 24 \<Longrightarrow> keccakf_rndc ! r = round_constant r"
proof -
  have "\<forall>r \<in> set [0..<24]. keccakf_rndc ! r = round_constant r" by code_simp
  then show "r < 24 \<Longrightarrow> keccakf_rndc ! r = round_constant r" by (rule upt_ball)
qed

lemma iota_ref: "length st = 25 \<Longrightarrow> r < 24 \<Longrightarrow> iota r st = ref_iota r st"
  by (erule list_25E) (simp add: iota_def ref_iota_def of_lanes_def upt_25 lane_def round_constants)

lemma ref_length [simp]:
  "length (ref_theta A) = 25" "length (ref_rho A) = 25" "length (ref_pi A) = 25" "length (ref_chi A) = 25" "length (ref_iota r A) = 25"
  by (simp_all add: ref_theta_def ref_rho_def ref_pi_def ref_chi_def ref_iota_def)

lemma keccakf_ref:
  assumes "length st = 25"
  shows "keccakf st 24 = ref_keccakf st" and "length (keccakf st 24) = 25"
proof -
  have "k \<le> 24 \<Longrightarrow> keccakf st k = fold (\<lambda>r A. ref_iota r (ref_chi (ref_pi (ref_rho (ref_theta A))))) [0..<k] st \<and> length (keccakf st k) = 25" for k
  proof (induction k)
    case 0
    then show ?case using assms by (simp add: keccakf_def)
  next
    case (Suc k)
    have "keccakf st (Suc k) = iota k (chi (rho_pi (theta (keccakf st k))))" by (simp add: keccakf_def)
    moreover have "length (keccakf st k) = 25" using Suc by auto
    ultimately have "keccakf st (Suc k) = ref_iota k (ref_chi (ref_pi (ref_rho (ref_theta (keccakf st k)))))"
      using Suc.prems by (simp add: theta_ref rho_pi_ref chi_ref iota_ref)
    then show ?case using Suc by simp
  qed
  then show "keccakf st 24 = ref_keccakf st" and "length (keccakf st 24) = 25" unfolding ref_keccakf_def by blast+
qed

theorem keccakf_permutation:
  assumes "length st = 25"
  shows "keccakf st 24 = ref_keccakf st"
  using assms by (rule keccakf_ref)

theorem keccakf_permutation_witness: "keccakf (replicate 25 1) 24 = ref_keccakf (replicate 25 1)"
  by (rule keccakf_permutation) simp

section \<open>The sponge\<close>

text \<open>The padding rule: a one bit, zeros up to the last bit of the block, a one bit.\<close>

definition pad_block :: "nat \<Rightarrow> bytes \<Rightarrow> bytes" where
  "pad_block r m = (if length m + 1 = r then m @ [0x81] else m @ [0x01] @ replicate (r - length m - 2) 0 @ [0x80])"

definition xor_words :: "u64 list \<Rightarrow> u64 list \<Rightarrow> u64 list" where
  "xor_words st ws = map2 (XOR) st (ws @ replicate (length st - length ws) 0)"

function ref_sponge :: "u64 list \<Rightarrow> bytes \<Rightarrow> u64 list" where
  "ref_sponge st m =
    (if 136 \<le> length m
     then ref_sponge (ref_keccakf (xor_words st (map (\<lambda>i. load_word (take 8 (drop (8 * i) m))) [0..<17]))) (drop 136 m)
     else ref_keccakf (xor_words st (map (\<lambda>i. load_word (take 8 (drop (8 * i) (pad_block 136 m)))) [0..<17])))"
  by pat_completeness auto
termination by (relation "measure (\<lambda>(s, m). length m)") auto

declare ref_sponge.simps [simp del]

lemma xor_block_words:
  assumes "n \<le> length st"
  shows "xor_block n st block = xor_words st (map (\<lambda>i. load_word (take 8 (drop (8 * i) block))) [0..<n])"
proof -
  let ?w = "\<lambda>i. load_word (take 8 (drop (8 * i) block))"
  have "k \<le> n \<Longrightarrow> foldl (\<lambda>st i. st[i := st ! i XOR ?w i]) st [0..<k] = map (\<lambda>i. if i < k then st ! i XOR ?w i else st ! i) [0..<length st]" for k
  proof (induction k)
    case 0
    then show ?case by (simp add: map_nth)
  next
    case (Suc k)
    then show ?case using assms by (auto intro!: nth_equalityI simp: nth_list_update)
  qed
  from this [of n] show ?thesis
    using assms by (auto intro!: nth_equalityI simp: xor_block_def xor_words_def nth_append)
qed

lemma length_xor_words [simp]: "length ws \<le> length st \<Longrightarrow> length (xor_words st ws) = length st"
  by (simp add: xor_words_def)

lemma pad_code:
  assumes "length rest < r"
  defines "temp \<equiv> rest @ [1] @ replicate (r - (length rest + 1)) 0"
  shows "temp[r - 1 := temp ! (r - 1) OR 0x80] = pad_block r rest"
proof (cases "length rest + 1 = r")
  case True
  then show ?thesis by (auto simp: temp_def pad_block_def list_update_append)
next
  case False
  define k where "k = r - length rest - 2"
  have r: "r = length rest + 2 + k" using False assms(1) by (simp add: k_def)
  have "temp = rest @ [1] @ replicate k 0 @ [0]" by (simp add: temp_def r replicate_append_same)
  then show ?thesis using False by (simp add: pad_block_def r nth_append list_update_append)
qed

lemma xor_block_take:
  assumes "136 \<le> k"
  shows "xor_block 17 st (take k m) = xor_block 17 st m"
proof -
  have "take 8 (drop (8 * i) (take k m)) = take 8 (drop (8 * i) m)" if "i < 17" for i using assms that by (simp add: drop_take min_def)
  then show ?thesis unfolding xor_block_def by (intro foldl_cong) auto
qed

lemma keccak_sponge:
  assumes "length st = 25" and "k \<le> length m"
  shows "case keccak_absorb 136 st m (int k) of (st', rest, n) \<Rightarrow>
    keccakf (xor_block 17 st' (pad_block 136 (take (nat n) rest))) 24 = ref_sponge st (take k m) \<and> length st' = 25
      \<and> 0 \<le> n \<and> n < 136 \<and> nat n \<le> length rest"
  using assms
proof (induction k arbitrary: st m rule: less_induct)
  case (less k)
  show ?case
  proof (cases "136 \<le> k")
    case True
    let ?st = "keccakf (xor_block 17 st m) 24"
    have eq: "?st = ref_keccakf (xor_words st (map (\<lambda>i. load_word (take 8 (drop (8 * i) (take k m)))) [0..<17]))" and len: "length ?st = 25"
      using less.prems(1) keccakf_ref [of "xor_block 17 st m"] xor_block_take [OF True, of st m, symmetric] by (simp_all add: xor_block_words)
    have "ref_sponge st (take k m) = ref_sponge ?st (take (k - 136) (drop 136 m))"
      using True less.prems(2) eq by (subst ref_sponge.simps) (simp add: drop_take)
    moreover have "keccak_absorb 136 st m (int k) = keccak_absorb 136 ?st (drop 136 m) (int (k - 136))"
      using True by (subst keccak_absorb.simps) (simp add: of_nat_diff)
    ultimately show ?thesis using less.IH [of "k - 136" ?st "drop 136 m"] True len less.prems(2) by (simp split: prod.splits)
  next
    case False
    then show ?thesis
      using less.prems keccakf_ref [of "xor_block 17 st (pad_block 136 (take k m))"]
      by (subst keccak_absorb.simps, subst ref_sponge.simps) (simp add: xor_block_words)
  qed
qed

lemma length_store_word [simp]: "length (store_word w) = 8"
  by (simp add: store_word_def)

lemma length_concat_store [simp]: "length (concat (map store_word ws)) = 8 * length ws"
  by (induction ws) auto

lemma int_of_count_nonneg:
  assumes "n mod 2 ^ 32 < 2 ^ 31"
  shows "int_of_count n = int (n mod 2 ^ 32)"
proof -
  have "int (n mod 2 ^ 32) = int n mod 2 ^ 32" by (simp add: zmod_int)
  moreover have "int (n mod 2 ^ 32) < 2 ^ 31" using assms by simp
  ultimately have "int n mod 4294967296 < 2147483648" by simp
  then show ?thesis
    by (simp add: int_of_count_def sint_word_ariths signed_take_bit_eq_take_bit_minus take_bit_eq_mod zmod_int sint_uint unsigned_of_nat bit_iff_odd)
qed

lemma hash_process_sponge:
  assumes "length data mod 2 ^ 32 < 2 ^ 31"
  shows "hash_process data = Some (concat (map store_word (ref_sponge (replicate 25 0) (take (length data mod 2 ^ 32) data))))"
proof -
  let ?k = "length data mod 2 ^ 32"
  have k: "?k \<le> length data" by simp
  obtain st rest n where a: "keccak_absorb 136 (replicate 25 0) data (int ?k) = (st, rest, n)" by (metis prod_cases3)
  have s: "keccakf (xor_block 17 st (pad_block 136 (take (nat n) rest))) 24 = ref_sponge (replicate 25 0) (take ?k data)"
    "length st = 25" "0 \<le> n" "n < 136" "nat n \<le> length rest"
    using keccak_sponge [OF _ k, of "replicate 25 0"] a by simp_all
  have "length (xor_block 17 st (pad_block 136 (take (nat n) rest))) = 25" using s(2) by (simp add: xor_block_words)
  from keccakf_ref(2) [OF this] have "length (ref_sponge (replicate 25 0) (take ?k data)) = 25" by (simp add: s(1))
  moreover have "length (take (nat n) rest) = nat n" "nat n < 136" using s by simp_all
  ultimately show ?thesis
    using pad_code [of "take (nat n) rest" 136] a s(1,3)
    by (simp add: hash_process_def keccak1600_def keccak_def int_of_count_nonneg [OF assms] HASH_DATA_AREA_def Let_def)
qed

lemma keccak_length:
  assumes "keccak input inlen 200 = Some md"
  shows "length md = 200"
proof -
  have "length (fst (keccak_absorb 136 st m n)) = 25" if "length st = 25" for st m n
    using that
  proof (induction "136 :: nat" st m n rule: keccak_absorb.induct)
    case (1 st m n)
    then show ?case using keccakf_ref(2) [of "xor_block 17 st m"] by (subst keccak_absorb.simps) (simp add: xor_block_words)
  qed
  from this [of "replicate 25 0" input inlen] have "length (keccakf (xor_block 17 (fst (keccak_absorb 136 (replicate 25 0) input inlen)) b) 24) = 25" for b
    by (intro keccakf_ref(2)) (simp add: xor_block_words)
  then show ?thesis
    using assms by (auto simp: keccak_def HASH_DATA_AREA_def Let_def split: prod.splits if_splits)
qed

lemma length_cn_fast_hash [simp]: "length (cn_fast_hash data) = 32"
  using keccak_length by (auto simp: cn_fast_hash_def hash_process_def keccak1600_def HASH_SIZE_def split: option.splits)

lemma cn_fast_hash_low_bits:
  assumes "length data mod 2 ^ 32 < 2 ^ 31"
  shows "cn_fast_hash data = take 32 (concat (map store_word (ref_sponge (replicate 25 0) (take (length data mod 2 ^ 32) data))))"
  using hash_process_sponge [OF assms] by (simp add: cn_fast_hash_def HASH_SIZE_def)

text \<open>C39: \<open>cn_fast_hash\<close> of a byte string shorter than 2^31 is the first 32 bytes of the sponge
  over the padded message with rate 136.\<close>

theorem cn_fast_hash_sponge:
  assumes "length data < 2 ^ 31"
  shows "cn_fast_hash data = take 32 (concat (map store_word (ref_sponge (replicate 25 0) data)))"
  using cn_fast_hash_low_bits [of data] assms by simp

theorem cn_fast_hash_sponge_witness:
  "cn_fast_hash [1, 2, 3] = take 32 (concat (map store_word (ref_sponge (replicate 25 0) [1, 2, 3])))"
  by (rule cn_fast_hash_sponge) simp

end
