(* ===== verification/ChaCha8.thy ===== *)
theory ChaCha8
  imports Keccak IntUtil
begin

unbundle bit_operations_syntax

text \<open>
  \<open>src/crypto/chacha8.c\<close>: the stream cipher that encrypts the wallet files. The sixteen variables \<open>x0\<close> to
  \<open>x15\<close>, and \<open>j0\<close> to \<open>j15\<close>, are lists of words. A last block of less than 64 bytes is processed in the
  buffer \<open>tmp\<close>, whose bytes after the data are uninitialised: they are the argument \<open>tmp\<close>.
\<close>

section \<open>Definitions\<close>

definition load_u32 :: "bytes \<Rightarrow> u32" where
  "load_u32 bs = foldr (\<lambda>b w. push_bit 8 w OR ucast b) bs 0"

definition store_u32 :: "u32 \<Rightarrow> bytes" where
  "store_u32 w = map (\<lambda>i. ucast (drop_bit (8 * i) w)) [0, 1, 2, 3]"

definition sigma :: bytes where
  "sigma = [101, 120, 112, 97, 110, 100, 32, 51, 50, 45, 98, 121, 116, 101, 32, 107]"

definition QUARTERROUND :: "nat \<Rightarrow> nat \<Rightarrow> nat \<Rightarrow> nat \<Rightarrow> u32 list \<Rightarrow> u32 list" where
  "QUARTERROUND a b c d x =
    (let x = x[a := x ! a + x ! b]; x = x[d := rol32 (x ! d XOR x ! a) 16];
         x = x[c := x ! c + x ! d]; x = x[b := rol32 (x ! b XOR x ! c) 12];
         x = x[a := x ! a + x ! b]; x = x[d := rol32 (x ! d XOR x ! a) 8];
         x = x[c := x ! c + x ! d]
     in x[b := rol32 (x ! b XOR x ! c) 7])"

definition chacha_rounds :: "u32 list \<Rightarrow> u32 list" where
  "chacha_rounds x =
    (let x = QUARTERROUND 0 4 8 12 x; x = QUARTERROUND 1 5 9 13 x;
         x = QUARTERROUND 2 6 10 14 x; x = QUARTERROUND 3 7 11 15 x;
         x = QUARTERROUND 0 5 10 15 x; x = QUARTERROUND 1 6 11 12 x;
         x = QUARTERROUND 2 7 8 13 x
     in QUARTERROUND 3 4 9 14 x)"

definition chacha_init :: "bytes \<Rightarrow> bytes \<Rightarrow> u32 list" where
  "chacha_init key iv =
    [load_u32 (take 4 sigma), load_u32 (take 4 (drop 4 sigma)), load_u32 (take 4 (drop 8 sigma)),
     load_u32 (take 4 (drop 12 sigma)),
     load_u32 (take 4 key), load_u32 (take 4 (drop 4 key)), load_u32 (take 4 (drop 8 key)),
     load_u32 (take 4 (drop 12 key)), load_u32 (take 4 (drop 16 key)), load_u32 (take 4 (drop 20 key)),
     load_u32 (take 4 (drop 24 key)), load_u32 (take 4 (drop 28 key)), 0, 0,
     load_u32 (take 4 iv), load_u32 (take 4 (drop 4 iv))]"

text \<open>One pass of the loop: the 64 bytes it writes for the 64 bytes it reads.\<close>

definition chacha_block :: "u32 list \<Rightarrow> bytes \<Rightarrow> bytes" where
  "chacha_block j data =
    (let x = (chacha_rounds ^^ 4) j;
         x = map2 (+) x j;
         x = map2 (XOR) x (map (\<lambda>i. load_u32 (take 4 (drop (4 * i) data))) [0..<16])
     in concat (map store_u32 x))"

definition next_counter :: "u32 list \<Rightarrow> u32 list" where
  "next_counter j =
    (let j = j[12 := j ! 12 + 1] in if j ! 12 = 0 then j[13 := j ! 13 + 1] else j)"

function chacha8_loop :: "(nat \<Rightarrow> u8) \<Rightarrow> u32 list \<Rightarrow> bytes \<Rightarrow> bytes" where
  "chacha8_loop tmp j data =
    (if length data < 64
     then take (length data) (chacha_block j (data @ map tmp [length data..<64]))
     else if length data \<le> 64 then chacha_block j data
     else chacha_block j (take 64 data) @ chacha8_loop tmp (next_counter j) (drop 64 data))"
  by pat_completeness auto
termination by (relation "measure (\<lambda>(t, j, data). length data)") auto

declare chacha8_loop.simps [simp del]

definition chacha8 :: "(nat \<Rightarrow> u8) \<Rightarrow> bytes \<Rightarrow> bytes \<Rightarrow> bytes \<Rightarrow> bytes" where
  "chacha8 tmp key iv data = (if length data = 0 then [] else chacha8_loop tmp (chacha_init key iv) data)"

definition generate_chacha8_key :: "bytes \<Rightarrow> bytes" where
  "generate_chacha8_key password = take 32 (cn_fast_hash password)"

section \<open>The key stream\<close>

text \<open>Block \<open>n\<close> of the key stream: the 64-bit block number is in words 12 and 13.\<close>

definition stream_block :: "bytes \<Rightarrow> bytes \<Rightarrow> nat \<Rightarrow> bytes" where
  "stream_block key iv n =
    (let j = (chacha_init key iv)[12 := word_of_nat n, 13 := word_of_nat (n div 2 ^ 32)]
     in concat (map store_u32 (map2 (+) ((chacha_rounds ^^ 4) j) j)))"

definition keystream :: "bytes \<Rightarrow> bytes \<Rightarrow> nat \<Rightarrow> u8" where
  "keystream key iv i = stream_block key iv (i div 64) ! (i mod 64)"

definition xor_bytes :: "bytes \<Rightarrow> bytes \<Rightarrow> bytes" where
  "xor_bytes = map2 (XOR)"

lemma length_QUARTERROUND [simp]: "length (QUARTERROUND a b c d x) = length x"
  by (simp add: QUARTERROUND_def Let_def)

lemma length_rounds [simp]: "length ((chacha_rounds ^^ k) x) = length x"
  by (induction k) (simp_all add: chacha_rounds_def Let_def)

lemma length_chacha_init [simp]: "length (chacha_init key iv) = 16"
  by (simp add: chacha_init_def)

lemma length_store_u32 [simp]: "length (store_u32 w) = 4"
  by (simp add: store_u32_def)

lemma store_load_u32:
  assumes "length bs = 4"
  shows "store_u32 (w XOR load_u32 bs) = xor_bytes (store_u32 w) bs"
proof -
  obtain a b c d where bs: "bs = [a, b, c, d]" using assms by (auto simp: length_Suc_conv numeral_eq_Suc)
  have high: "\<not> bit x (8 + n)" "\<not> bit x (16 + n)" "\<not> bit x (24 + n)" for x :: u8 and n
    using bit_imp_le_length [of x "8 + n"] bit_imp_le_length [of x "16 + n"] bit_imp_le_length [of x "24 + n"] by auto
  have "store_u32 (load_u32 bs) = bs"
    unfolding bs store_u32_def load_u32_def by (auto intro!: bit_word_eqI simp: bit_simps high)
  moreover have "store_u32 (w XOR v) = xor_bytes (store_u32 w) (store_u32 v)" for v
    by (auto intro!: bit_word_eqI simp: store_u32_def xor_bytes_def bit_simps)
  ultimately show ?thesis by simp
qed

lemma chunks_append:
  assumes "length bs = 4 * n"
  shows "concat (map (\<lambda>i. take 4 (drop (4 * i) bs)) [0..<n]) = bs"
  using assms
proof (induction n arbitrary: bs)
  case (Suc n)
  have "[0..<Suc n] = 0 # map Suc [0..<n]" by (simp add: upt_conv_Cons map_Suc_upt del: upt_Suc)
  then show ?case using Suc.IH [of "drop 4 bs"] Suc.prems
    by (simp add: o_def add.commute del: upt_Suc)
qed simp

lemma xor_bytes_append:
  "length a = length c \<Longrightarrow> xor_bytes (a @ b) (c @ d) = xor_bytes a c @ xor_bytes b d"
  by (simp add: xor_bytes_def)

lemma concat_store_xor:
  assumes "length ws = length cs" and "\<forall>c \<in> set cs. length c = 4"
  shows "concat (map store_u32 (map2 (XOR) ws (map load_u32 cs))) = xor_bytes (concat (map store_u32 ws)) (concat cs)"
  using assms
proof (induction ws cs rule: list_induct2)
  case (Cons w ws c cs)
  then show ?case by (simp add: store_load_u32 xor_bytes_append)
qed (simp add: xor_bytes_def)

lemma chacha_block_xor:
  assumes "length j = 16" and "length data = 64"
  shows "chacha_block j data = xor_bytes (concat (map store_u32 (map2 (+) ((chacha_rounds ^^ 4) j) j))) data"
proof -
  let ?cs = "map (\<lambda>i. take 4 (drop (4 * i) data)) [0..<16]" and ?ws = "map2 (+) ((chacha_rounds ^^ 4) j) j"
  have "concat (map store_u32 (map2 (XOR) ?ws (map load_u32 ?cs))) = xor_bytes (concat (map store_u32 ?ws)) (concat ?cs)"
    by (rule concat_store_xor) (use assms in auto)
  moreover have "concat ?cs = data" by (rule chunks_append) (simp add: assms(2))
  moreover have "map load_u32 ?cs = map (\<lambda>i. load_u32 (take 4 (drop (4 * i) data))) [0..<16]" by simp
  ultimately show ?thesis unfolding chacha_block_def Let_def by (simp only:)
qed

lemma next_counter_step:
  assumes "length (J :: u32 list) = 16"
  shows "next_counter (J[12 := word_of_nat n, 13 := word_of_nat (n div 2 ^ 32)])
    = J[12 := word_of_nat (Suc n), 13 := word_of_nat (Suc n div 2 ^ 32)]"
proof -
  define w where "w = (word_of_nat (Suc n) :: u32)"
  have w: "1 + word_of_nat n = w" by (simp add: w_def)
  have z: "w = 0 \<longleftrightarrow> 2 ^ 32 dvd Suc n"
    unfolding w_def by (subst word_of_nat_eq_0_iff) simp
  have d: "Suc n div 2 ^ 32 = n div 2 ^ 32 + of_bool (w = 0)"
    using div_Suc [of n "2 ^ 32"] unfolding z by (auto simp: dvd_eq_mod_eq_0)
  show ?thesis
    unfolding d w_def [symmetric] using assms
    by (simp add: next_counter_def Let_def w list_update_swap add.commute)
qed

lemma length_concat_store_u32 [simp]: "length (concat (map store_u32 ws)) = 4 * length ws"
  by (induction ws) auto

lemma length_stream_block [simp]: "length (stream_block key iv n) = 64"
  unfolding stream_block_def Let_def length_concat_store_u32 by simp

lemma chacha8_loop_stream:
  fixes data :: bytes
  assumes "data \<noteq> []"
  shows "chacha8_loop tmp ((chacha_init key iv)[12 := word_of_nat n, 13 := word_of_nat (n div 2 ^ 32)]) data
    = map (\<lambda>i. data ! i XOR keystream key iv (64 * n + i)) [0..<length data]"
  using assms
proof (induction "length data" arbitrary: data n rule: less_induct)
  case less
  let ?j = "(chacha_init key iv)[12 := word_of_nat n, 13 := word_of_nat (n div 2 ^ 32)]"
  have block: "chacha_block ?j d = xor_bytes (stream_block key iv n) d" if "length d = 64" for d
    using that by (simp add: chacha_block_xor stream_block_def Let_def)
  have nth: "xor_bytes (stream_block key iv n) d ! i = d ! i XOR keystream key iv (64 * n + i)"
    if "length d = 64" "i < 64" for d i
    using that by (simp add: xor_bytes_def keystream_def xor.commute)
  have len: "length (xor_bytes (stream_block key iv n) d) = 64" if "length d = 64" for d
    using that by (simp add: xor_bytes_def)
  consider "length data < 64" | "length data = 64" | "64 < length data" by linarith
  then show ?case
  proof cases
    case 1
    let ?d = "data @ map tmp [length data..<64]"
    have "length ?d = 64" using 1 by simp
    then show ?thesis
      using 1 block [of ?d] len [of ?d] nth [of ?d]
      by (subst chacha8_loop.simps) (auto intro!: nth_equalityI simp: nth_append)
  next
    case 2
    then show ?thesis
      using block [of data] len [of data] nth [of data]
      by (subst chacha8_loop.simps) (auto intro!: nth_equalityI)
  next
    case 3
    have "chacha8_loop tmp (next_counter ?j) (drop 64 data)
        = map (\<lambda>i. drop 64 data ! i XOR keystream key iv (64 * Suc n + i)) [0..<length data - 64]"
      using 3 less(1) [of "drop 64 data" "Suc n"] next_counter_step [of "chacha_init key iv" n] by simp
    then show ?thesis
      using 3 block [of "take 64 data"] len [of "take 64 data"] nth [of "take 64 data"]
      by (subst chacha8_loop.simps) (auto intro!: nth_equalityI simp: nth_append)
  qed
qed

lemma chacha8_keystream:
  "chacha8 tmp key iv data = map (\<lambda>i. data ! i XOR keystream key iv i) [0..<length data]"
proof (cases "data = []")
  case True
  then show ?thesis by (simp add: chacha8_def)
next
  case False
  have "(chacha_init key iv)[12 := word_of_nat 0, 13 := word_of_nat (0 div 2 ^ 32)] = chacha_init key iv"
    by (simp add: chacha_init_def)
  then show ?thesis using False chacha8_loop_stream [of data tmp key iv 0] by (simp add: chacha8_def)
qed

theorem chacha8_stream_cipher:
  "chacha8 tmp key iv data = map (\<lambda>i. data ! i XOR keystream key iv i) [0..<length data]"
  by (rule chacha8_keystream)

theorem chacha8_roundtrip: "chacha8 tmp' key iv (chacha8 tmp key iv data) = data"
  unfolding chacha8_keystream by (auto intro!: nth_equalityI simp: xor.assoc)

end
