(* ===== verification/Archive.thy ===== *)
theory Archive
  imports Varint Difficulty
begin

text \<open>
  The binary archives of \<open>src/serialization\<close>: \<open>binary_archive.h\<close>, \<open>vector.h\<close>, \<open>variant.h\<close> and the entry
  points of \<open>serialization.h\<close>. An output archive is the bytes it writes; an input archive is a
  function from the bytes left in the stream to a value and the bytes after it, \<open>None\<close> when the stream
  fails. Every reader checks the state of its stream after each field, so a failure is final.
\<close>

section \<open>Readers and writers\<close>

type_synonym 'a reader = "bytes \<Rightarrow> ('a \<times> bytes) option"

text \<open>The result of \<open>read_varint\<close> is ignored: an ill-formed integer is read as far as it goes.\<close>

definition get_uvarint :: "u64 reader" where
  "get_uvarint bs = (case read_varint bs of (_, v, rest) \<Rightarrow> Some (v, rest))"

fun get_uint8 :: "u8 reader" where
  "get_uint8 [] = None"
| "get_uint8 (b # rest) = Some (b, rest)"

definition put_uint64 :: "u64 \<Rightarrow> bytes" where
  "put_uint64 v = le_bytes 8 (unat v)"

definition get_uint64 :: "u64 reader" where
  "get_uint64 bs = (if length bs < 8 then None else Some (word_of_nat (le_val (take 8 bs)), drop 8 bs))"

definition get_blob :: "nat \<Rightarrow> bytes reader" where
  "get_blob len bs = (if length bs < len then None else Some (take len bs, drop len bs))"

definition put_uint128 :: "u128 \<Rightarrow> bytes" where
  "put_uint128 v = (case uint128_b2n v of (highpart, lowpart) \<Rightarrow> write_varint highpart @ write_varint lowpart)"

definition get_uint128 :: "u128 reader" where
  "get_uint128 bs =
    (case get_uvarint bs of None \<Rightarrow> None
     | Some (nUpper, rest) \<Rightarrow> (case get_uvarint rest of None \<Rightarrow> None
        | Some (nLower, rest) \<Rightarrow> Some (uint128_n2b (nUpper, nLower), rest)))"

definition put_vector :: "('a \<Rightarrow> bytes) \<Rightarrow> 'a list \<Rightarrow> bytes" where
  "put_vector put v = write_varint (word_of_nat (length v)) @ concat (map put v)"

fun get_elements :: "'a reader \<Rightarrow> nat \<Rightarrow> 'a list reader" where
  "get_elements get 0 bs = Some ([], bs)"
| "get_elements get (Suc n) bs =
    (case get bs of None \<Rightarrow> None
     | Some (x, rest) \<Rightarrow> (case get_elements get n rest of None \<Rightarrow> None | Some (xs, rest) \<Rightarrow> Some (x # xs, rest)))"

definition get_vector :: "'a reader \<Rightarrow> 'a list reader" where
  "get_vector get bs =
    (case get_uvarint bs of None \<Rightarrow> None
     | Some (cnt, rest) \<Rightarrow> if length rest < unat cnt then None else get_elements get (unat cnt) rest)"

text \<open>A whole object: the stream has to end where the object ends.\<close>

definition parse_binary :: "'a reader \<Rightarrow> bytes \<Rightarrow> 'a option" where
  "parse_binary get blob = (case get blob of Some (v, []) \<Rightarrow> Some v | _ \<Rightarrow> None)"

section \<open>The contract of a serializer\<close>

text \<open>
  On the values of \<open>ok\<close> the reader inverts the writer, whatever follows in the stream, and at least one
  byte is written: \<open>get_vector\<close> relies on that when it compares the count with the bytes left.
\<close>

locale serializer =
  fixes ok :: "'a \<Rightarrow> bool" and put :: "'a \<Rightarrow> bytes" and get :: "'a reader"
  assumes get_put: "ok v \<Longrightarrow> get (put v @ rest) = Some (v, rest)"
    and put_nonempty: "ok v \<Longrightarrow> put v \<noteq> []"
begin

lemma get_elements_put:
  "list_all ok vs \<Longrightarrow> get_elements get (length vs) (concat (map put vs) @ rest) = Some (vs, rest)"
  by (induction vs) (simp_all add: get_put)

lemma length_put_list: "list_all ok vs \<Longrightarrow> length vs \<le> length (concat (map put vs))"
proof (induction vs)
  case (Cons v vs)
  moreover have "1 \<le> length (put v)" using put_nonempty [of v] Cons.prems by (cases "put v") auto
  ultimately show ?case by simp
qed simp

lemma get_vector_put:
  assumes "list_all ok vs" and "length vs < 2 ^ 64"
  shows "get_vector get (put_vector put vs @ rest) = Some (vs, rest)"
  using assms length_put_list [OF assms(1)]
  by (simp add: get_vector_def put_vector_def get_uvarint_def read_varint_write unat_of_nat_small get_elements_put)

lemma vector_serializer: "serializer (\<lambda>vs. list_all ok vs \<and> length vs < 2 ^ 64) (put_vector put) (get_vector get)"
proof
  fix vs :: "'a list" and rest
  assume "list_all ok vs \<and> length vs < 2 ^ 64"
  then show "get_vector get (put_vector put vs @ rest) = Some (vs, rest)" using get_vector_put by blast
  show "put_vector put vs \<noteq> []"
    by (simp add: put_vector_def)
qed

lemma parse_put: "ok v \<Longrightarrow> parse_binary get (put v) = Some v"
  using get_put [of v "[]"] by (simp add: parse_binary_def)

end

lemma list_all_True [simp]: "list_all (\<lambda>_. True) xs"
  by (simp add: list_all_iff)

interpretation uvarint: serializer "\<lambda>_. True" write_varint get_uvarint
  by unfold_locales (simp_all add: get_uvarint_def read_varint_write)

interpretation uint8: serializer "\<lambda>_. True" "\<lambda>b. [b]" get_uint8
  by unfold_locales simp_all

interpretation uint64: serializer "\<lambda>_. True" put_uint64 get_uint64
proof unfold_locales
  fix v :: u64 and rest
  have "unat v < 256 ^ 8" by simp
  then show "get_uint64 (put_uint64 v @ rest) = Some (v, rest)"
    by (simp add: get_uint64_def put_uint64_def length_le_bytes le_val_le_bytes)
  show "put_uint64 v \<noteq> []" by (simp add: put_uint64_def flip: length_0_conv)
qed

lemma blob_serializer: "0 < n \<Longrightarrow> serializer (\<lambda>b. length b = n) id (get_blob n)"
  by unfold_locales (auto simp: get_blob_def)

interpretation hash_blob: serializer "\<lambda>b. length b = 32" id "get_blob 32"
  by (rule blob_serializer) simp

interpretation signature_blob: serializer "\<lambda>b. length b = 64" id "get_blob 64"
  by (rule blob_serializer) simp

end
