(* ===== verification/Transaction.thy ===== *)
theory Transaction
  imports Archive BlockIndex "HOL-Library.Monad_Syntax"
begin

text \<open>
  The transactions and blocks of \<open>src/currency_core/currency_basic.h\<close> with their binary form, as the
  serialization macros of each structure produce it. Writing returns the success flag with the bytes
  written so far; a transaction or a block of a later version is refused after its version number.
\<close>

section \<open>Data\<close>

type_synonym public_key = bytes
type_synonym key_image = bytes
type_synonym signature = bytes

record txout_to_script =
  ts_keys :: "public_key list"
  ts_script :: bytes

record txout_to_key =
  tk_key :: public_key
  tk_mix_attr :: u8

record txin_to_key =
  ki_amount :: u64
  ki_key_offsets :: "u64 list"
  ki_k_image :: key_image

datatype txin_v =
    TxinGen (gen_height: u64)
  | TxinToScript hash u64 bytes
  | TxinToScripthash hash u64 txout_to_script bytes
  | TxinToKey txin_to_key

datatype txout_target_v =
    TxoutToScript txout_to_script
  | TxoutToScripthash hash
  | TxoutToKey txout_to_key

record tx_out =
  o_amount :: u64
  o_target :: txout_target_v

record transaction_prefix =
  version :: u64
  unlock_time :: u64
  vin :: "txin_v list"
  vout :: "tx_out list"
  extra :: bytes

record transaction = transaction_prefix +
  signatures :: "signature list list"

record block_header =
  major_version :: u8
  minor_version :: u8
  timestamp :: u64
  prev_id :: hash
  nonce :: u64
  flags :: u8

record block = block_header +
  miner_tx :: transaction
  tx_hashes :: "hash list"

definition CURRENT_TRANSACTION_VERSION :: u64 where
  "CURRENT_TRANSACTION_VERSION = 1"

definition CURRENT_BLOCK_MAJOR_VERSION :: u8 where
  "CURRENT_BLOCK_MAJOR_VERSION = 1"

definition set_null :: transaction where
  "set_null = \<lparr>version = 0, unlock_time = 0, vin = [], vout = [], extra = [], signatures = []\<rparr>"

fun get_signature_size :: "txin_v \<Rightarrow> nat" where
  "get_signature_size (TxinGen _) = 0"
| "get_signature_size (TxinToScript _ _ _) = 0"
| "get_signature_size (TxinToScripthash _ _ _ _) = 0"
| "get_signature_size (TxinToKey txin) = length (ki_key_offsets txin)"

section \<open>Writing\<close>

abbreviation put_bytes :: "bytes \<Rightarrow> bytes" where
  "put_bytes \<equiv> put_vector (\<lambda>b. [b])"

abbreviation get_bytes :: "bytes reader" where
  "get_bytes \<equiv> get_vector get_uint8"

definition put_txout_to_script :: "txout_to_script \<Rightarrow> bytes" where
  "put_txout_to_script s = put_vector id (ts_keys s) @ put_bytes (ts_script s)"

definition get_txout_to_script :: "txout_to_script reader" where
  "get_txout_to_script bs = do {
     (ks, bs) \<leftarrow> get_vector (get_blob 32) bs;
     (s, bs) \<leftarrow> get_bytes bs;
     Some (\<lparr>ts_keys = ks, ts_script = s\<rparr>, bs) }"

fun put_txin :: "txin_v \<Rightarrow> bytes" where
  "put_txin (TxinGen height) = 0xff # write_varint height"
| "put_txin (TxinToScript prev prevout sigset) = 0 # prev @ write_varint prevout @ put_bytes sigset"
| "put_txin (TxinToScripthash prev prevout script sigset) =
     1 # prev @ write_varint prevout @ put_txout_to_script script @ put_bytes sigset"
| "put_txin (TxinToKey k) = 2 # write_varint (ki_amount k) @ put_vector write_varint (ki_key_offsets k) @ ki_k_image k"

definition get_txin :: "txin_v reader" where
  "get_txin bs = do {
     (tag, bs) \<leftarrow> get_uint8 bs;
     if tag = 0xff then do {
       (height, bs) \<leftarrow> get_uvarint bs;
       Some (TxinGen height, bs) }
     else if tag = 0 then do {
       (prev, bs) \<leftarrow> get_blob 32 bs;
       (prevout, bs) \<leftarrow> get_uvarint bs;
       (sigset, bs) \<leftarrow> get_bytes bs;
       Some (TxinToScript prev prevout sigset, bs) }
     else if tag = 1 then do {
       (prev, bs) \<leftarrow> get_blob 32 bs;
       (prevout, bs) \<leftarrow> get_uvarint bs;
       (script, bs) \<leftarrow> get_txout_to_script bs;
       (sigset, bs) \<leftarrow> get_bytes bs;
       Some (TxinToScripthash prev prevout script sigset, bs) }
     else if tag = 2 then do {
       (amount, bs) \<leftarrow> get_uvarint bs;
       (offsets, bs) \<leftarrow> get_vector get_uvarint bs;
       (k_image, bs) \<leftarrow> get_blob 32 bs;
       Some (TxinToKey \<lparr>ki_amount = amount, ki_key_offsets = offsets, ki_k_image = k_image\<rparr>, bs) }
     else None }"

fun put_target :: "txout_target_v \<Rightarrow> bytes" where
  "put_target (TxoutToScript s) = 0 # put_txout_to_script s"
| "put_target (TxoutToScripthash h) = 1 # h"
| "put_target (TxoutToKey k) = 2 # tk_key k @ [tk_mix_attr k]"

definition get_target :: "txout_target_v reader" where
  "get_target bs = do {
     (tag, bs) \<leftarrow> get_uint8 bs;
     if tag = 0 then do {
       (s, bs) \<leftarrow> get_txout_to_script bs;
       Some (TxoutToScript s, bs) }
     else if tag = 1 then do {
       (h, bs) \<leftarrow> get_blob 32 bs;
       Some (TxoutToScripthash h, bs) }
     else if tag = 2 then do {
       (b, bs) \<leftarrow> get_blob 33 bs;
       Some (TxoutToKey \<lparr>tk_key = take 32 b, tk_mix_attr = b ! 32\<rparr>, bs) }
     else None }"

definition put_tx_out :: "tx_out \<Rightarrow> bytes" where
  "put_tx_out out = write_varint (o_amount out) @ put_target (o_target out)"

definition get_tx_out :: "tx_out reader" where
  "get_tx_out bs = do {
     (amount, bs) \<leftarrow> get_uvarint bs;
     (target, bs) \<leftarrow> get_target bs;
     Some (\<lparr>o_amount = amount, o_target = target\<rparr>, bs) }"

definition put_transaction_prefix :: "'a transaction_prefix_scheme \<Rightarrow> bool \<times> bytes" where
  "put_transaction_prefix tx =
    (if CURRENT_TRANSACTION_VERSION < version tx then (False, write_varint (version tx))
     else (True, write_varint (version tx) @ write_varint (unlock_time tx) @ put_vector put_txin (vin tx)
       @ put_vector put_tx_out (vout tx) @ put_bytes (extra tx)))"

definition get_transaction_prefix :: "transaction_prefix reader" where
  "get_transaction_prefix bs = do {
     (version, bs) \<leftarrow> get_uvarint bs;
     if CURRENT_TRANSACTION_VERSION < version then None
     else do {
       (unlock_time, bs) \<leftarrow> get_uvarint bs;
       (vin, bs) \<leftarrow> get_vector get_txin bs;
       (vout, bs) \<leftarrow> get_vector get_tx_out bs;
       (extra, bs) \<leftarrow> get_bytes bs;
       Some (\<lparr>version = version, unlock_time = unlock_time, vin = vin, vout = vout, extra = extra\<rparr>, bs) } }"

definition put_transaction :: "transaction \<Rightarrow> bool \<times> bytes" where
  "put_transaction tx =
    (case put_transaction_prefix tx of
       (False, bs) \<Rightarrow> (False, bs)
     | (True, bs) \<Rightarrow> (True, bs @ put_vector (put_vector id) (signatures tx)))"

definition get_transaction :: "transaction reader" where
  "get_transaction bs = do {
     (p, bs) \<leftarrow> get_transaction_prefix bs;
     (sigs, bs) \<leftarrow> get_vector (get_vector (get_blob 64)) bs;
     Some (\<lparr>version = version p, unlock_time = unlock_time p, vin = vin p, vout = vout p, extra = extra p,
       signatures = sigs\<rparr>, bs) }"

text \<open>The minor version is a variable-length integer of a single byte.\<close>

definition get_uvarint8 :: "u8 reader" where
  "get_uvarint8 bs = (case read_varint_loop 8 0 0 0 bs of (_, v, rest) \<Rightarrow> Some (ucast v, rest))"

definition put_block_header :: "'a block_header_scheme \<Rightarrow> bool \<times> bytes" where
  "put_block_header b =
    (if CURRENT_BLOCK_MAJOR_VERSION < major_version b then (False, [major_version b])
     else (True, [major_version b] @ put_uint64 (nonce b) @ prev_id b @ write_varint (ucast (minor_version b))
       @ write_varint (timestamp b) @ [flags b]))"

definition get_block_header :: "block_header reader" where
  "get_block_header bs = do {
     (major, bs) \<leftarrow> get_uint8 bs;
     if CURRENT_BLOCK_MAJOR_VERSION < major then None
     else do {
       (nonce, bs) \<leftarrow> get_uint64 bs;
       (prev, bs) \<leftarrow> get_blob 32 bs;
       (minor, bs) \<leftarrow> get_uvarint8 bs;
       (time, bs) \<leftarrow> get_uvarint bs;
       (flags, bs) \<leftarrow> get_uint8 bs;
       Some (\<lparr>major_version = major, minor_version = minor, timestamp = time, prev_id = prev, nonce = nonce,
         flags = flags\<rparr>, bs) } }"

definition put_block :: "block \<Rightarrow> bool \<times> bytes" where
  "put_block b =
    (case put_block_header b of (False, bs) \<Rightarrow> (False, bs)
     | (True, bs) \<Rightarrow> (case put_transaction (miner_tx b) of (False, cs) \<Rightarrow> (False, bs @ cs)
        | (True, cs) \<Rightarrow> (True, bs @ cs @ put_vector id (tx_hashes b))))"

definition get_block :: "block reader" where
  "get_block bs = do {
     (h, bs) \<leftarrow> get_block_header bs;
     (tx, bs) \<leftarrow> get_transaction bs;
     (hs, bs) \<leftarrow> get_vector (get_blob 32) bs;
     Some (\<lparr>major_version = major_version h, minor_version = minor_version h, timestamp = timestamp h,
       prev_id = prev_id h, nonce = nonce h, flags = flags h, miner_tx = tx, tx_hashes = hs\<rparr>, bs) }"

definition tx_to_blob :: "transaction \<Rightarrow> bytes" where
  "tx_to_blob tx = snd (put_transaction tx)"

definition block_to_blob :: "block \<Rightarrow> bytes" where
  "block_to_blob b = snd (put_block b)"

definition parse_and_validate_tx_from_blob :: "bytes \<Rightarrow> transaction option" where
  "parse_and_validate_tx_from_blob tx_blob = parse_binary get_transaction tx_blob"

definition parse_and_validate_block_from_blob :: "bytes \<Rightarrow> block option" where
  "parse_and_validate_block_from_blob b_blob = parse_binary get_block b_blob"

section \<open>Well-formed values\<close>

text \<open>What the types of the source impose: sizes of hashes, keys and signatures, and lengths that fit \<open>size_t\<close>.\<close>

abbreviation fits :: "'a list \<Rightarrow> bool" where
  "fits xs \<equiv> length xs < 2 ^ 64"

definition script_ok :: "txout_to_script \<Rightarrow> bool" where
  "script_ok s \<longleftrightarrow> list_all (\<lambda>k. length k = 32) (ts_keys s) \<and> fits (ts_keys s) \<and> fits (ts_script s)"

fun txin_ok :: "txin_v \<Rightarrow> bool" where
  "txin_ok (TxinGen _) \<longleftrightarrow> True"
| "txin_ok (TxinToScript prev _ sigset) \<longleftrightarrow> length prev = 32 \<and> fits sigset"
| "txin_ok (TxinToScripthash prev _ script sigset) \<longleftrightarrow> length prev = 32 \<and> script_ok script \<and> fits sigset"
| "txin_ok (TxinToKey k) \<longleftrightarrow> fits (ki_key_offsets k) \<and> length (ki_k_image k) = 32"

fun target_ok :: "txout_target_v \<Rightarrow> bool" where
  "target_ok (TxoutToScript s) \<longleftrightarrow> script_ok s"
| "target_ok (TxoutToScripthash h) \<longleftrightarrow> length h = 32"
| "target_ok (TxoutToKey k) \<longleftrightarrow> length (tk_key k) = 32"

definition prefix_ok :: "'a transaction_prefix_scheme \<Rightarrow> bool" where
  "prefix_ok tx \<longleftrightarrow> version tx \<le> CURRENT_TRANSACTION_VERSION \<and> list_all txin_ok (vin tx) \<and> fits (vin tx)
     \<and> list_all (\<lambda>out. target_ok (o_target out)) (vout tx) \<and> fits (vout tx) \<and> fits (extra tx)"

definition transaction_ok :: "transaction \<Rightarrow> bool" where
  "transaction_ok tx \<longleftrightarrow> prefix_ok tx
     \<and> list_all (\<lambda>sigs. list_all (\<lambda>s. length s = 64) sigs \<and> fits sigs) (signatures tx) \<and> fits (signatures tx)"

definition block_ok :: "block \<Rightarrow> bool" where
  "block_ok b \<longleftrightarrow> major_version b \<le> CURRENT_BLOCK_MAJOR_VERSION \<and> length (prev_id b) = 32 \<and> transaction_ok (miner_tx b)
     \<and> list_all (\<lambda>h. length h = 32) (tx_hashes b) \<and> fits (tx_hashes b)"

section \<open>Round trips\<close>

interpretation hash_list: serializer "\<lambda>hs. list_all (\<lambda>h. length h = 32) hs \<and> fits hs" "put_vector id" "get_vector (get_blob 32)"
  by (rule hash_blob.vector_serializer)

interpretation byte_list: serializer "\<lambda>bs. list_all (\<lambda>_. True) bs \<and> fits bs" put_bytes get_bytes
  by (rule uint8.vector_serializer)

interpretation offset_list: serializer "\<lambda>xs. list_all (\<lambda>_. True) xs \<and> fits xs" "put_vector write_varint" "get_vector get_uvarint"
  by (rule uvarint.vector_serializer)

interpretation signature_list: serializer "\<lambda>ss. list_all (\<lambda>s. length s = 64) ss \<and> fits ss" "put_vector id" "get_vector (get_blob 64)"
  by (rule signature_blob.vector_serializer)

interpretation signature_lists: serializer
    "\<lambda>xs. list_all (\<lambda>ss. list_all (\<lambda>s. length s = 64) ss \<and> fits ss) xs \<and> fits xs"
    "put_vector (put_vector id)" "get_vector (get_vector (get_blob 64))"
  by (rule signature_list.vector_serializer)

lemmas get_fields = uvarint.get_put uint8.get_put uint64.get_put hash_list.get_put byte_list.get_put
  offset_list.get_put signature_lists.get_put hash_blob.get_put [unfolded id_apply]

interpretation script: serializer script_ok put_txout_to_script get_txout_to_script
proof
  fix s rest
  assume "script_ok s"
  then show "get_txout_to_script (put_txout_to_script s @ rest) = Some (s, rest)"
    by (simp add: script_ok_def put_txout_to_script_def get_txout_to_script_def get_fields)
  show "put_txout_to_script s \<noteq> []"
    by (simp add: put_txout_to_script_def put_vector_def)
qed

interpretation txin: serializer txin_ok put_txin get_txin
proof
  fix i rest
  assume "txin_ok i"
  then show "get_txin (put_txin i @ rest) = Some (i, rest)"
    by (cases i) (simp_all add: get_txin_def get_fields script.get_put)
  show "put_txin i \<noteq> []" by (cases i) simp_all
qed

interpretation target: serializer target_ok put_target get_target
proof
  fix t rest
  assume "target_ok t"
  then show "get_target (put_target t @ rest) = Some (t, rest)"
    by (cases t) (simp_all add: get_target_def get_fields script.get_put get_blob_def nth_append)
  show "put_target t \<noteq> []" by (cases t) simp_all
qed

interpretation tx_out: serializer "\<lambda>out. target_ok (o_target out)" put_tx_out get_tx_out
proof
  fix out :: tx_out and rest
  assume "target_ok (o_target out)"
  then show "get_tx_out (put_tx_out out @ rest) = Some (out, rest)"
    by (simp add: put_tx_out_def get_tx_out_def get_fields target.get_put)
  show "put_tx_out out \<noteq> []" by (simp add: put_tx_out_def)
qed

interpretation txin_list: serializer "\<lambda>xs. list_all txin_ok xs \<and> fits xs" "put_vector put_txin" "get_vector get_txin"
  by (rule txin.vector_serializer)

interpretation tx_out_list: serializer "\<lambda>xs. list_all (\<lambda>out. target_ok (o_target out)) xs \<and> fits xs"
    "put_vector put_tx_out" "get_vector get_tx_out"
  by (rule tx_out.vector_serializer)

lemma put_transaction_prefix_ok:
  "prefix_ok tx \<Longrightarrow> put_transaction_prefix tx = (True, snd (put_transaction_prefix tx))"
  by (simp add: prefix_ok_def put_transaction_prefix_def not_less)

lemma get_transaction_prefix_put:
  assumes "prefix_ok tx"
  shows "get_transaction_prefix (snd (put_transaction_prefix tx) @ rest) = Some (transaction_prefix.truncate tx, rest)"
proof -
  have "\<not> CURRENT_TRANSACTION_VERSION < version tx" using assms by (simp add: prefix_ok_def not_less)
  then show ?thesis
    using assms
    by (simp add: prefix_ok_def put_transaction_prefix_def get_transaction_prefix_def get_fields txin_list.get_put
      tx_out_list.get_put transaction_prefix.truncate_def)
qed

lemma put_transaction_prefix_nonempty: "snd (put_transaction_prefix tx) \<noteq> []"
  by (simp add: put_transaction_prefix_def)

lemma put_transaction_ok:
  "transaction_ok tx \<Longrightarrow>
    put_transaction tx = (True, snd (put_transaction_prefix tx) @ put_vector (put_vector id) (signatures tx))"
  unfolding put_transaction_def transaction_ok_def by (subst put_transaction_prefix_ok) simp_all

interpretation transaction: serializer transaction_ok "\<lambda>tx. snd (put_transaction tx)" get_transaction
proof
  fix tx :: transaction and rest
  assume ok: "transaction_ok tx"
  then show "get_transaction (snd (put_transaction tx) @ rest) = Some (tx, rest)"
    by (simp add: put_transaction_ok get_transaction_def transaction_ok_def get_transaction_prefix_put get_fields
      transaction_prefix.truncate_def)
  show "snd (put_transaction tx) \<noteq> []"
    using ok put_transaction_prefix_nonempty [of tx] by (simp add: put_transaction_ok)
qed

lemma u8_cases:
  assumes "list_all (\<lambda>n. P (word_of_nat n)) [0..<256]"
  shows "P (v :: u8)"
proof -
  have "unat v < 256" "word_of_nat (unat v) = v" by simp_all
  then show ?thesis using assms by (metis list_all_iff atLeastLessThan_iff set_upt le0)
qed

lemma write_varint_u8:
  "write_varint (ucast v) = (if v < 0x80 then [v] else [v OR 0x80, 1])" for v :: u8
  by (rule u8_cases [of _ v]) code_simp

lemma low7_u8: "if v < 0x80 then v AND 0x7f = v \<and> v AND 0x80 = 0 \<and> ucast (ucast v :: u64) = v
    else ucast (ucast ((v OR 0x80) AND 0x7f) OR 128 :: u64) = v \<and> (v OR 0x80) AND 0x80 = 0x80" for v :: u8
  by (rule u8_cases [of _ v]) code_simp

lemma get_uvarint8_put: "get_uvarint8 (write_varint (ucast v) @ rest) = Some (v, rest)"
  using low7_u8 [of v] by (simp add: write_varint_u8 get_uvarint8_def Let_def split: if_splits)

interpretation block_header: serializer
    "\<lambda>b. major_version b \<le> CURRENT_BLOCK_MAJOR_VERSION \<and> length (prev_id b) = 32"
    "\<lambda>b. snd (put_block_header b)" get_block_header
proof
  fix b :: block_header and rest
  assume "major_version b \<le> CURRENT_BLOCK_MAJOR_VERSION \<and> length (prev_id b) = 32"
  then show "get_block_header (snd (put_block_header b) @ rest) = Some (b, rest)"
    by (auto simp: put_block_header_def get_block_header_def get_fields get_uvarint8_put)
  show "snd (put_block_header b) \<noteq> []" by (simp add: put_block_header_def)
qed

lemma put_block_header_truncate: "put_block_header (block_header.truncate b) = put_block_header b"
  by (simp add: put_block_header_def block_header.truncate_def)

interpretation block: serializer block_ok block_to_blob get_block
proof
  fix b rest
  assume ok: "block_ok b"
  have h: "put_block_header b = (True, snd (put_block_header b))"
    using ok by (simp add: block_ok_def put_block_header_def not_less)
  have tx: "put_transaction (miner_tx b) = (True, snd (put_transaction (miner_tx b)))"
    using ok put_transaction_ok [of "miner_tx b"] by (simp add: block_ok_def)
  have blob: "block_to_blob b = snd (put_block_header b) @ snd (put_transaction (miner_tx b)) @ put_vector id (tx_hashes b)"
    unfolding block_to_blob_def put_block_def by (subst h, subst tx) simp
  have "get_block_header (snd (put_block_header b) @ r) = Some (block_header.truncate b, r)" for r
    using block_header.get_put [of "block_header.truncate b" r] ok
    by (simp add: put_block_header_truncate block_ok_def) (simp add: block_header.truncate_def)
  then show "get_block (block_to_blob b @ rest) = Some (b, rest)"
    unfolding blob using ok
    by (simp add: get_block_def block_ok_def transaction.get_put get_fields block_header.truncate_def)
  show "block_to_blob b \<noteq> []"
    unfolding blob using transaction.put_nonempty [of "miner_tx b"] ok by (simp add: block_ok_def)
qed

section \<open>Properties\<close>

text \<open>C30: Every well-formed transaction of a supported version serializes successfully and its blob parses
  back to it.\<close>

theorem transaction_roundtrip:
  assumes "transaction_ok tx"
  shows "fst (put_transaction tx) \<and> parse_and_validate_tx_from_blob (tx_to_blob tx) = Some tx"
  using transaction.parse_put [OF assms] put_transaction_ok [OF assms]
  by (simp add: parse_and_validate_tx_from_blob_def tx_to_blob_def)

definition sample_tx :: transaction where
  "sample_tx = \<lparr>version = 1, unlock_time = 70, vin = [TxinToKey \<lparr>ki_amount = 500, ki_key_offsets = [3, 200], ki_k_image = replicate 32 7\<rparr>],
     vout = [\<lparr>o_amount = 300, o_target = TxoutToKey \<lparr>tk_key = replicate 32 9, tk_mix_attr = 0\<rparr>\<rparr>], extra = [1, 2],
     signatures = [[replicate 64 5, replicate 64 6]]\<rparr>"

lemma sample_tx_ok: "transaction_ok sample_tx"
  by (simp add: sample_tx_def transaction_ok_def prefix_ok_def CURRENT_TRANSACTION_VERSION_def)

theorem transaction_roundtrip_witness: "parse_and_validate_tx_from_blob (tx_to_blob sample_tx) = Some sample_tx"
  using transaction_roundtrip [OF sample_tx_ok] by simp

text \<open>C31: Every well-formed block of a supported version parses back from its blob.\<close>

theorem block_roundtrip:
  assumes "block_ok b"
  shows "parse_and_validate_block_from_blob (block_to_blob b) = Some b"
  using block.parse_put [OF assms] by (simp add: parse_and_validate_block_from_blob_def)

definition sample_block :: block where
  "sample_block = \<lparr>major_version = 1, minor_version = 200, timestamp = 1413000000, prev_id = replicate 32 1, nonce = 99, flags = 3,
     miner_tx = sample_tx, tx_hashes = [replicate 32 2, replicate 32 3]\<rparr>"

theorem block_roundtrip_witness: "parse_and_validate_block_from_blob (block_to_blob sample_block) = Some sample_block"
  by (rule block_roundtrip) (simp add: block_ok_def sample_block_def sample_tx_ok CURRENT_BLOCK_MAJOR_VERSION_def)

theorem truncated_blob_accepted:
  assumes "transaction_ok tx" and "signatures tx = []"
  shows "parse_and_validate_tx_from_blob (butlast (tx_to_blob tx)) = Some tx"
proof -
  have zero: "put_vector (put_vector id) ([] :: signature list list) = [0]"
    by (simp add: put_vector_def) (subst write_varint.simps, simp)
  have "butlast (tx_to_blob tx) = snd (put_transaction_prefix tx)"
    using put_transaction_ok [OF assms(1)] assms(2) by (simp add: tx_to_blob_def zero butlast_append)
  moreover have "get_vector (get_vector (get_blob 64)) [] = Some ([], [])"
    by (simp add: get_vector_def get_uvarint_def read_varint_def)
  moreover have "prefix_ok tx" using assms(1) by (simp add: transaction_ok_def)
  ultimately show ?thesis
    using get_transaction_prefix_put [of tx "[]"] assms(2)
    by (simp add: parse_and_validate_tx_from_blob_def parse_binary_def get_transaction_def transaction_prefix.truncate_def)
qed

theorem truncated_blob_accepted_witness:
  "parse_and_validate_tx_from_blob (butlast (tx_to_blob (sample_tx\<lparr>signatures := []\<rparr>))) = Some (sample_tx\<lparr>signatures := []\<rparr>)"
  by (rule truncated_blob_accepted) (simp_all add: sample_tx_def transaction_ok_def prefix_ok_def CURRENT_TRANSACTION_VERSION_def)

end
