(* ===== verification/TreeHash.thy ===== *)
theory TreeHash
  imports Keccak BlockIndex
begin

unbundle bit_operations_syntax

text \<open>
  \<open>src/crypto/tree-hash.c\<close>: the root of the hash tree over the transactions of a block. The buffer
  \<open>ints\<close> is a list, overwritten in place as in the source; its part that is not yet written holds
  empty strings. The number \<open>cnt\<close> is computed on 64-bit words by the bit manipulation of the source.
\<close>

section \<open>Definitions\<close>

definition tree_cnt :: "u64 \<Rightarrow> u64" where
  "tree_cnt count =
    (let cnt = foldl (\<lambda>cnt i. cnt OR drop_bit i cnt) (count - 1) [1, 2, 4, 8, 16, 32]
     in cnt AND NOT (drop_bit 1 cnt))"

function first_level :: "hash list \<Rightarrow> nat \<Rightarrow> nat \<Rightarrow> nat \<Rightarrow> hash list \<Rightarrow> hash list" where
  "first_level hashes cnt i j ints =
    (if j < cnt then first_level hashes cnt (i + 2) (j + 1) (ints[j := cn_fast_hash (hashes ! i @ hashes ! (i + 1))])
     else ints)"
  by pat_completeness auto
termination by (relation "measure (\<lambda>(hashes, cnt, i, j, ints). cnt - j)") auto

function halve_level :: "nat \<Rightarrow> nat \<Rightarrow> nat \<Rightarrow> hash list \<Rightarrow> hash list" where
  "halve_level cnt i j ints =
    (if j < cnt then halve_level cnt (i + 2) (j + 1) (ints[j := cn_fast_hash (ints ! i @ ints ! (i + 1))])
     else ints)"
  by pat_completeness auto
termination by (relation "measure (\<lambda>(cnt, i, j, ints). cnt - j)") auto

function reduce_levels :: "nat \<Rightarrow> hash list \<Rightarrow> hash list" where
  "reduce_levels cnt ints =
    (if 2 < cnt then let cnt = cnt div 2 in reduce_levels cnt (halve_level cnt 0 0 ints) else ints)"
  by pat_completeness auto
termination by (relation "measure fst") auto

declare first_level.simps [simp del] halve_level.simps [simp del] reduce_levels.simps [simp del]

definition tree_hash :: "hash list \<Rightarrow> hash" where
  "tree_hash hashes =
    (let count = length hashes
     in if count = 1 then hashes ! 0
        else if count = 2 then cn_fast_hash (hashes ! 0 @ hashes ! 1)
        else let cnt = unat (tree_cnt (word_of_nat count));
                 ints = take (2 * cnt - count) hashes @ replicate (cnt - (2 * cnt - count)) [];
                 ints = first_level hashes cnt (2 * cnt - count) (2 * cnt - count) ints;
                 ints = reduce_levels cnt ints
             in cn_fast_hash (ints ! 0 @ ints ! 1))"

section \<open>The greatest power of two below the number of leaves\<close>

lemma spread_bit:
  assumes "\<And>n. bit (v :: u64) n \<longleftrightarrow> (\<exists>m. n \<le> m \<and> m < n + s \<and> bit w m)"
  shows "bit (v OR drop_bit s v) n \<longleftrightarrow> (\<exists>m. n \<le> m \<and> m < n + 2 * s \<and> bit w m)"
proof -
  have "bit (v OR drop_bit s v) n \<longleftrightarrow> (\<exists>m. n \<le> m \<and> m < n + s \<and> bit w m) \<or> (\<exists>m. s + n \<le> m \<and> m < s + n + s \<and> bit w m)"
    by (simp add: bit_or_iff bit_drop_bit_eq assms)
  also have "\<dots> \<longleftrightarrow> (\<exists>m. n \<le> m \<and> m < n + 2 * s \<and> bit w m)"
  proof
    assume "\<exists>m. n \<le> m \<and> m < n + 2 * s \<and> bit w m"
    then obtain m where m: "n \<le> m" "m < n + 2 * s" "bit w m" by blast
    show "(\<exists>m. n \<le> m \<and> m < n + s \<and> bit w m) \<or> (\<exists>m. s + n \<le> m \<and> m < s + n + s \<and> bit w m)"
      using m by (cases "m < n + s") (auto intro!: exI [of _ m])
  next
    assume "(\<exists>m. n \<le> m \<and> m < n + s \<and> bit w m) \<or> (\<exists>m. s + n \<le> m \<and> m < s + n + s \<and> bit w m)"
    then show "\<exists>m. n \<le> m \<and> m < n + 2 * s \<and> bit w m"
      by (elim disjE exE conjE) (rule_tac x = m in exI, simp)+
  qed
  finally show ?thesis .
qed

lemma spread_all:
  fixes w :: u64
  shows "bit (foldl (\<lambda>cnt i. cnt OR drop_bit i cnt) w [1, 2, 4, 8, 16, 32]) n \<longleftrightarrow> (\<exists>m \<ge> n. bit w m)"
proof -
  have s1: "bit w n \<longleftrightarrow> (\<exists>m. n \<le> m \<and> m < n + 1 \<and> bit w m)" for n by (metis less_add_one le_less_Suc_eq Suc_eq_plus1 order_refl)
  note s = spread_bit [OF spread_bit [OF spread_bit [OF spread_bit [OF spread_bit [OF spread_bit [OF s1]]]]], simplified]
  have "m < n + 64" if "bit w m" for m using bit_imp_le_length [OF that] by simp
  then show ?thesis using s [of n] by auto
qed

lemma tree_cnt_pow2:
  fixes count :: u64
  assumes "2 ^ k < unat count" and "unat count \<le> 2 ^ Suc k"
  shows "unat (tree_cnt count) = 2 ^ k"
proof -
  define w where "w = count - 1"
  have "unat w = unat count - 1" unfolding w_def using assms(1) by (intro unat_minus_one) auto
  then have w: "2 ^ k \<le> unat w" "unat w < 2 ^ Suc k" using assms by auto
  have k: "k < 64"
  proof (rule ccontr)
    assume "\<not> k < 64"
    then have "(2 :: nat) ^ 64 \<le> 2 ^ k" by (intro power_increasing) auto
    then show False using w(1) unat_u64_bound [of w] by simp
  qed
  have "unat w div 2 ^ k = 1" using w by (intro div_nat_eqI) auto
  then have "bit (unat w) k" unfolding bit_iff_odd by simp
  then have top: "bit w k" by (simp add: bit_unsigned_iff)
  have above: "\<not> bit w m" if "k < m" for m
  proof -
    have "unat w < 2 ^ m" using w(2) power_increasing [of "Suc k" m "2 :: nat"] that by simp
    then have "\<not> bit (unat w) m" by (simp add: bit_iff_odd)
    then show ?thesis using bit_imp_le_length [of w m] by (auto simp: bit_unsigned_iff)
  qed
  have "tree_cnt count = 2 ^ k"
  proof (rule bit_word_eqI)
    fix n assume "n < LENGTH(64)"
    have "bit (tree_cnt count) n \<longleftrightarrow> (\<exists>m \<ge> n. bit w m) \<and> \<not> (\<exists>m \<ge> Suc n. bit w m)"
      using \<open>n < LENGTH(64)\<close>
      unfolding tree_cnt_def Let_def w_def [symmetric] bit_and_iff bit_not_iff bit_drop_bit_eq spread_all by simp
    also have "\<dots> \<longleftrightarrow> n = k"
    proof
      assume a: "(\<exists>m \<ge> n. bit w m) \<and> \<not> (\<exists>m \<ge> Suc n. bit w m)"
      then obtain m where "n \<le> m" "bit w m" "\<not> Suc n \<le> k" using top by blast
      moreover from this a have "m = n" by (metis Suc_leI le_neq_implies_less)
      ultimately show "n = k" using above [of n] by (metis not_less_eq_eq linorder_neqE_nat Suc_leI)
    next
      assume "n = k"
      then show "(\<exists>m \<ge> n. bit w m) \<and> \<not> (\<exists>m \<ge> Suc n. bit w m)" using top above by (auto simp: Suc_le_eq)
    qed
    also have "\<dots> \<longleftrightarrow> bit (2 ^ k :: u64) n" using k by (auto simp: bit_exp_iff)
    finally show "bit (tree_cnt count) n \<longleftrightarrow> bit (2 ^ k :: u64) n" .
  qed
  moreover have "unat (word_of_nat (2 ^ k) :: u64) = 2 ^ k"
    by (rule unat_of_nat_small) (use k power_strict_increasing [of k 64 "2 :: nat"] in simp)
  ultimately show ?thesis by simp
qed

section \<open>The hash tree\<close>

fun pairs :: "hash list \<Rightarrow> hash list" where
  "pairs (a # b # xs) = cn_fast_hash (a @ b) # pairs xs"
| "pairs _ = []"

text \<open>A full binary tree of depth \<open>d\<close> over \<open>2 ^ d\<close> leaves.\<close>

primrec merkle :: "nat \<Rightarrow> hash list \<Rightarrow> hash" where
  "merkle 0 xs = xs ! 0"
| "merkle (Suc d) xs = cn_fast_hash (merkle d (take (2 ^ d) xs) @ merkle d (drop (2 ^ d) xs))"

text \<open>
  The leaves of the full tree: with \<open>2 ^ d < n \<le> 2 ^ (d + 1)\<close> given hashes, the first \<open>2 ^ (d + 1) - n\<close>
  are leaves, the others are joined in pairs.
\<close>

definition tree_leaves :: "nat \<Rightarrow> hash list \<Rightarrow> hash list" where
  "tree_leaves d hashes = (let k = 2 * 2 ^ d - length hashes in take k hashes @ pairs (drop k hashes))"

lemma length_pairs: "length (pairs xs) = length xs div 2"
  by (induction xs rule: pairs.induct) auto

lemma nth_pairs: "k < length xs div 2 \<Longrightarrow> pairs xs ! k = cn_fast_hash (xs ! (2 * k) @ xs ! (2 * k + 1))"
proof (induction xs arbitrary: k rule: pairs.induct)
  case (1 a b xs)
  then show ?case by (cases k) auto
qed auto

lemma pairs_append: "even (length xs) \<Longrightarrow> pairs (xs @ ys) = pairs xs @ pairs ys"
  by (induction xs rule: pairs.induct) auto

lemma merkle_pairs: "length xs = 2 ^ Suc d \<Longrightarrow> merkle (Suc d) xs = merkle d (pairs xs)"
proof (induction d arbitrary: xs)
  case 0
  then show ?case by (simp add: nth_pairs)
next
  case (Suc d)
  let ?l = "take (2 ^ Suc d) xs" and ?r = "drop (2 ^ Suc d) xs"
  have len: "length ?l = 2 ^ Suc d" "length ?r = 2 ^ Suc d" using Suc.prems by simp_all
  have "pairs xs = pairs ?l @ pairs ?r" using pairs_append [of ?l ?r] len by simp
  moreover have "length (pairs ?l) = 2 ^ d" using len by (simp add: length_pairs)
  ultimately have "merkle (Suc d) (pairs xs) = cn_fast_hash (merkle d (pairs ?l) @ merkle d (pairs ?r))" by simp
  then show ?case using Suc.IH [OF len(1)] Suc.IH [OF len(2)] by (simp only: merkle.simps(2) [of "Suc d" xs])
qed

subsection \<open>The loops\<close>

lemma first_level_nth:
  assumes "cnt \<le> length ints"
  shows "length (first_level hashes cnt i j ints) = length ints \<and>
    (\<forall>k < length ints. first_level hashes cnt i j ints ! k =
      (if j \<le> k \<and> k < cnt then cn_fast_hash (hashes ! (i + 2 * (k - j)) @ hashes ! (i + 2 * (k - j) + 1)) else ints ! k))"
  using assms
proof (induction hashes cnt i j ints rule: first_level.induct)
  case (1 hashes cnt i j ints)
  show ?case
  proof (cases "j < cnt")
    case True
    then show ?thesis
      using 1 by (subst (1 2) first_level.simps) (auto simp: nth_list_update Suc_le_eq le_eq_less_or_eq Suc_diff_Suc [symmetric])
  next
    case False
    then show ?thesis by (subst (1 2) first_level.simps) auto
  qed
qed

lemma halve_level_nth:
  assumes "2 * cnt \<le> length ints"
  shows "length (halve_level cnt (2 * j) j ints) = length ints \<and>
    (\<forall>k < length ints. halve_level cnt (2 * j) j ints ! k =
      (if j \<le> k \<and> k < cnt then cn_fast_hash (ints ! (2 * k) @ ints ! (2 * k + 1)) else ints ! k))"
  using assms
proof (induction "cnt - j" arbitrary: j ints)
  case 0
  then show ?case by (subst (1 2) halve_level.simps) auto
next
  case (Suc n)
  let ?ints = "ints[j := cn_fast_hash (ints ! (2 * j) @ ints ! (2 * j + 1))]"
  have "j < cnt" using Suc.hyps(2) by linarith
  then have step: "halve_level cnt (2 * j) j ints = halve_level cnt (2 * Suc j) (Suc j) ?ints"
    by (subst halve_level.simps) simp
  have "n = cnt - Suc j" using Suc.hyps(2) by simp
  from Suc.hyps(1) [OF this, of ?ints] show ?case
    unfolding step using Suc.prems Suc.hyps(2) by (auto simp: nth_list_update)
qed

lemma halve_level_pairs:
  assumes "2 * cnt \<le> length ints"
  shows "take cnt (halve_level cnt 0 0 ints) = pairs (take (2 * cnt) ints)" and "length (halve_level cnt 0 0 ints) = length ints"
proof -
  note h = halve_level_nth [OF assms, of 0, simplified]
  show "length (halve_level cnt 0 0 ints) = length ints" using h by simp
  show "take cnt (halve_level cnt 0 0 ints) = pairs (take (2 * cnt) ints)"
    by (rule nth_equalityI) (use h assms in \<open>auto simp: length_pairs nth_pairs\<close>)
qed

lemma reduce_levels_merkle:
  assumes "2 ^ Suc d \<le> length ints"
  shows "cn_fast_hash (reduce_levels (2 ^ Suc d) ints ! 0 @ reduce_levels (2 ^ Suc d) ints ! 1)
    = merkle (Suc d) (take (2 ^ Suc d) ints)"
  using assms
proof (induction d arbitrary: ints)
  case 0
  then show ?case by (simp add: reduce_levels.simps)
next
  case (Suc d)
  let ?h = "halve_level (2 ^ Suc d) 0 0 ints"
  have len: "2 * 2 ^ Suc d \<le> length ints" using Suc.prems by simp
  have "(2 :: nat) < 2 ^ Suc (Suc d)" by (simp add: less_le_trans [of _ "4"])
  then have "reduce_levels (2 ^ Suc (Suc d)) ints = reduce_levels (2 ^ Suc d) ?h"
    by (subst reduce_levels.simps) (simp add: Let_def)
  moreover have "2 ^ Suc d \<le> length ?h" using halve_level_pairs(2) [OF len] len by simp
  ultimately have "cn_fast_hash (reduce_levels (2 ^ Suc (Suc d)) ints ! 0 @ reduce_levels (2 ^ Suc (Suc d)) ints ! 1)
      = merkle (Suc d) (take (2 ^ Suc d) ?h)"
    using Suc.IH [of ?h] by simp
  also have "\<dots> = merkle (Suc d) (pairs (take (2 ^ Suc (Suc d)) ints))"
    using halve_level_pairs(1) [OF len] by simp
  also have "\<dots> = merkle (Suc (Suc d)) (take (2 ^ Suc (Suc d)) ints)"
    using merkle_pairs [of "take (2 ^ Suc (Suc d)) ints" "Suc d"] len by simp
  finally show ?case .
qed

lemma first_level_leaves:
  assumes "2 ^ d < length hashes" and "length hashes \<le> 2 * 2 ^ d"
  defines "k \<equiv> 2 * 2 ^ d - length hashes"
  shows "first_level hashes (2 ^ d) k k (take k hashes @ replicate (2 ^ d - k) []) = tree_leaves d hashes"
proof -
  let ?ints = "take k hashes @ replicate (2 ^ d - k) []"
  have k: "k < 2 ^ d" "k \<le> length hashes" "length hashes - k = 2 * (2 ^ d - k)" using assms by (auto simp: k_def)
  then have len: "length ?ints = 2 ^ d" by simp
  note f = first_level_nth [of "2 ^ d" ?ints hashes k k, unfolded len, simplified]
  have lt: "length (tree_leaves d hashes) = 2 ^ d"
    using k by (simp add: tree_leaves_def k_def [symmetric] Let_def length_pairs)
  show ?thesis
  proof (rule nth_equalityI)
    show "length (first_level hashes (2 ^ d) k k ?ints) = length (tree_leaves d hashes)" using f lt by simp
    fix i assume "i < length (first_level hashes (2 ^ d) k k ?ints)"
    then have i: "i < 2 ^ d" using f by simp
    show "first_level hashes (2 ^ d) k k ?ints ! i = tree_leaves d hashes ! i"
    proof (cases "i < k")
      case True
      then show ?thesis using f i k by (simp add: tree_leaves_def k_def [symmetric] Let_def nth_append)
    next
      case False
      moreover have "i - k < length (drop k hashes) div 2" using False i k by simp
      ultimately show ?thesis
        using f i k by (simp add: tree_leaves_def k_def [symmetric] Let_def nth_append nth_pairs)
    qed
  qed
qed

lemma tree_hash_merkle:
  assumes "2 ^ d < length hashes" and "length hashes \<le> 2 * 2 ^ d" and "length hashes < 2 ^ 63"
  shows "tree_hash hashes = merkle d (tree_leaves d hashes)"
proof (cases d)
  case 0
  then have "length hashes = 2" using assms by simp
  then show ?thesis using 0 by (simp add: tree_hash_def tree_leaves_def nth_pairs)
next
  case (Suc e)
  have u: "unat (word_of_nat (length hashes) :: u64) = length hashes" using assms(3) by (simp add: unat_of_nat_small)
  then have cnt: "unat (tree_cnt (word_of_nat (length hashes))) = 2 ^ d"
    using assms by (intro tree_cnt_pow2) simp_all
  have "(2 :: nat) ^ 1 \<le> 2 ^ d" using Suc by (intro power_increasing) simp_all
  then have n: "length hashes \<noteq> 1" "length hashes \<noteq> 2" using assms(1) by simp_all
  let ?l = "tree_leaves d hashes"
  have "length ?l = 2 ^ d" using assms by (simp add: tree_leaves_def Let_def length_pairs)
  moreover have "tree_hash hashes = cn_fast_hash (reduce_levels (2 ^ d) ?l ! 0 @ reduce_levels (2 ^ d) ?l ! 1)"
    using n cnt first_level_leaves [OF assms(1,2)] by (simp add: tree_hash_def Let_def)
  ultimately show ?thesis using reduce_levels_merkle [of e ?l] Suc by simp
qed

text \<open>C35: \<open>tree_hash\<close>, with its power-of-two computation and in-place levels, computes the
  recursive Merkle root over the leaves whose first level pairs the surplus hashes.\<close>

theorem tree_hash_refines_merkle:
  assumes "2 ^ d < length hashes" and "length hashes \<le> 2 * 2 ^ d" and "length hashes < 2 ^ 63"
  shows "tree_hash hashes = merkle d (tree_leaves d hashes)"
  using assms by (rule tree_hash_merkle)

theorem tree_hash_refines_merkle_witness:
  "tree_hash [[1], [2], [3]] = cn_fast_hash ([1] @ cn_fast_hash ([2] @ [3]))"
  using tree_hash_refines_merkle [of 1 "[[1], [2], [3]]"] by (simp add: tree_leaves_def)

section \<open>Binding\<close>

text \<open>Two different strings of a set, with the same hash.\<close>

definition hash_collision :: "bytes set \<Rightarrow> bool" where
  "hash_collision S \<longleftrightarrow> (\<exists>a \<in> S. \<exists>b \<in> S. a \<noteq> b \<and> cn_fast_hash a = cn_fast_hash b)"

text \<open>The strings that are hashed on the way to a root: one for each inner node of the tree.\<close>

fun pair_inputs :: "hash list \<Rightarrow> bytes list" where
  "pair_inputs (a # b # xs) = (a @ b) # pair_inputs xs"
| "pair_inputs _ = []"

primrec merkle_inputs :: "nat \<Rightarrow> hash list \<Rightarrow> bytes list" where
  "merkle_inputs 0 xs = []"
| "merkle_inputs (Suc d) xs = merkle_inputs d (take (2 ^ d) xs) @ merkle_inputs d (drop (2 ^ d) xs)
     @ [merkle d (take (2 ^ d) xs) @ merkle d (drop (2 ^ d) xs)]"

definition tree_inputs :: "nat \<Rightarrow> hash list \<Rightarrow> bytes list" where
  "tree_inputs d hashes = pair_inputs (drop (2 * 2 ^ d - length hashes) hashes) @ merkle_inputs d (tree_leaves d hashes)"

definition hashes_ok :: "hash list \<Rightarrow> bool" where
  "hashes_ok xs \<longleftrightarrow> (\<forall>x \<in> set xs. length x = 32)"

lemma hashes_okD: "hashes_ok xs \<Longrightarrow> i < length xs \<Longrightarrow> length (xs ! i) = 32"
  by (simp add: hashes_ok_def)

lemma node_collision:
  assumes "length a = length c" "cn_fast_hash (a @ b) = cn_fast_hash (c @ d)" "a @ b \<in> S" "c @ d \<in> S"
  shows "(a = c \<and> b = d) \<or> hash_collision S"
proof (cases "a @ b = c @ d")
  case True
  then show ?thesis using assms by simp
next
  case False
  then show ?thesis unfolding hash_collision_def using assms by blast
qed

lemma pairs_collision:
  assumes "length xs = length ys" "even (length xs)" "hashes_ok xs" "hashes_ok ys" "pairs xs = pairs ys"
    "set (pair_inputs xs) \<union> set (pair_inputs ys) \<subseteq> S"
  shows "xs = ys \<or> hash_collision S"
  using assms
proof (induction xs arbitrary: ys rule: pairs.induct)
  case (1 a b xs)
  then obtain c d zs where ys: "ys = c # d # zs" by (cases ys rule: pairs.cases) auto
  then have "(a = c \<and> b = d) \<or> hash_collision S" "xs = zs \<or> hash_collision S"
    using 1 node_collision [of a c b d S] by (simp_all add: hashes_ok_def)
  then show ?case using ys by auto
qed auto

lemma hashes_ok_append: "hashes_ok (xs @ ys) \<longleftrightarrow> hashes_ok xs \<and> hashes_ok ys"
  by (auto simp: hashes_ok_def)

lemma hashes_ok_take: "hashes_ok xs \<Longrightarrow> hashes_ok (take n xs)" and hashes_ok_drop: "hashes_ok xs \<Longrightarrow> hashes_ok (drop n xs)"
  by (auto simp: hashes_ok_def dest: in_set_takeD in_set_dropD)

lemma hashes_ok_pairs: "hashes_ok (pairs xs)"
  by (induction xs rule: pairs.induct) (auto simp: hashes_ok_def)

lemma length_merkle: "hashes_ok xs \<Longrightarrow> length xs = 2 ^ d \<Longrightarrow> length (merkle d xs) = 32"
  by (cases d) (auto simp: hashes_okD)

lemma merkle_collision:
  assumes "length xs = 2 ^ d" "length ys = 2 ^ d" "hashes_ok xs" "hashes_ok ys" "merkle d xs = merkle d ys"
    "set (merkle_inputs d xs) \<union> set (merkle_inputs d ys) \<subseteq> S"
  shows "xs = ys \<or> hash_collision S"
  using assms
proof (induction d arbitrary: xs ys)
  case 0
  then show ?case by (auto simp: length_Suc_conv)
next
  case (Suc d)
  let ?n = "2 ^ d :: nat"
  have len: "length (take ?n xs) = ?n" "length (drop ?n xs) = ?n" "length (take ?n ys) = ?n" "length (drop ?n ys) = ?n"
    using Suc.prems by simp_all
  have ok: "hashes_ok (take ?n xs)" "hashes_ok (drop ?n xs)" "hashes_ok (take ?n ys)" "hashes_ok (drop ?n ys)"
    using Suc.prems by (simp_all add: hashes_ok_take hashes_ok_drop)
  have "merkle d (take ?n xs) = merkle d (take ?n ys) \<and> merkle d (drop ?n xs) = merkle d (drop ?n ys) \<or> hash_collision S"
    by (rule node_collision) (use Suc.prems(5,6) len ok in \<open>simp_all add: length_merkle\<close>)
  then have "(take ?n xs = take ?n ys \<and> drop ?n xs = drop ?n ys) \<or> hash_collision S"
    using Suc.IH [OF len(1,3) ok(1,3)] Suc.IH [OF len(2,4) ok(2,4)] Suc.prems(6) by auto
  then show ?case by (metis append_take_drop_id)
qed

lemma tree_hash_commits:
  assumes "2 ^ d < length xs" and "length xs \<le> 2 * 2 ^ d" and "length ys = length xs"
    and "hashes_ok xs" and "hashes_ok ys" and "length xs < 2 ^ 63"
  shows "(tree_hash xs = tree_hash ys \<longleftrightarrow> xs = ys) \<or> hash_collision (set (tree_inputs d xs @ tree_inputs d ys))"
proof -
  let ?S = "set (tree_inputs d xs @ tree_inputs d ys)"
  define k where "k = 2 * 2 ^ d - length xs"
  have k: "tree_leaves d xs = take k xs @ pairs (drop k xs)" "tree_leaves d ys = take k ys @ pairs (drop k ys)"
    "length (take k xs) = length (take k ys)" "even (length (drop k xs))"
    using assms(1-3) by (auto simp: tree_leaves_def k_def Let_def)
  have len: "length (tree_leaves d xs) = 2 ^ d" "length (tree_leaves d ys) = 2 ^ d"
    using assms(1-3) by (auto simp: tree_leaves_def Let_def length_pairs)
  have ok: "hashes_ok (tree_leaves d xs)" "hashes_ok (tree_leaves d ys)"
    unfolding k using assms by (simp_all add: hashes_ok_append hashes_ok_take hashes_ok_pairs)
  have "xs = ys \<or> hash_collision ?S" if "tree_hash xs = tree_hash ys"
  proof -
    have "merkle d (tree_leaves d xs) = merkle d (tree_leaves d ys)"
      using that tree_hash_merkle [of d xs] tree_hash_merkle [of d ys] assms by simp
    then have "tree_leaves d xs = tree_leaves d ys \<or> hash_collision ?S"
      by (rule merkle_collision [OF len ok]) (auto simp: tree_inputs_def)
    then have "(take k xs = take k ys \<and> pairs (drop k xs) = pairs (drop k ys)) \<or> hash_collision ?S"
      unfolding k(1,2) using k(3) by auto
    moreover have "pairs (drop k xs) = pairs (drop k ys) \<Longrightarrow> drop k xs = drop k ys \<or> hash_collision ?S"
      by (rule pairs_collision) (use assms k in \<open>auto simp: hashes_ok_drop tree_inputs_def k_def\<close>)
    ultimately show ?thesis by (metis append_take_drop_id)
  qed
  then show ?thesis by blast
qed

theorem tree_hash_binding:
  assumes "2 ^ d < length xs" and "length xs \<le> 2 * 2 ^ d" and "length ys = length xs"
    and "hashes_ok xs" and "hashes_ok ys" and "length xs < 2 ^ 63"
  shows "(tree_hash xs = tree_hash ys \<longleftrightarrow> xs = ys) \<or> hash_collision (set (tree_inputs d xs @ tree_inputs d ys))"
  using assms by (rule tree_hash_commits)

theorem tree_hash_binding_witness:
  "(tree_hash [replicate 32 0, replicate 32 1, replicate 32 2] = tree_hash [replicate 32 0, replicate 32 2, replicate 32 1]
      \<longleftrightarrow> [replicate 32 0, replicate 32 1, replicate 32 2] = [replicate 32 (0 :: u8), replicate 32 2, replicate 32 1])
    \<or> hash_collision (set (tree_inputs 1 [replicate 32 0, replicate 32 1, replicate 32 2]
        @ tree_inputs 1 [replicate 32 0, replicate 32 2, replicate 32 1]))"
  by (rule tree_hash_binding) (simp_all add: hashes_ok_def)

end
