(* ===== verification/TxFormat.thy ===== *)
theory TxFormat
  imports Transaction TreeHash
begin

text \<open>
  The functions of \<open>src/currency_core/currency_format_utils.cpp\<close> and \<open>.h\<close> on amounts, offsets, sizes and
  hashes of transactions and blocks. Output parameters are results, \<open>None\<close> is the return value \<open>false\<close>.
  \<open>check_key\<close>, the test of a public key, is an argument.
\<close>

section \<open>Definitions\<close>

definition is_coinbase :: "'a transaction_prefix_scheme \<Rightarrow> bool" where
  "is_coinbase tx \<longleftrightarrow> (case vin tx of [TxinGen _] \<Rightarrow> True | _ \<Rightarrow> False)"

fun sum_inputs :: "txin_v list \<Rightarrow> u64 \<Rightarrow> u64 option" where
  "sum_inputs [] money = Some money"
| "sum_inputs (TxinToKey k # ins) money = sum_inputs ins (money + ki_amount k)"
| "sum_inputs (_ # ins) money = None"

definition get_inputs_money_amount :: "transaction \<Rightarrow> u64 option" where
  "get_inputs_money_amount tx = sum_inputs (vin tx) 0"

definition get_outs_money_amount :: "transaction \<Rightarrow> u64" where
  "get_outs_money_amount tx = foldl (\<lambda>money out. money + o_amount out) 0 (vout tx)"

text \<open>
  The first check of \<open>get_tx_fee\<close> returns 0, which is \<open>false\<close>.
\<close>

definition get_tx_fee :: "transaction \<Rightarrow> u64 option" where
  "get_tx_fee tx =
    (case sum_inputs (vin tx) 0 of
       None \<Rightarrow> None
     | Some amount_in \<Rightarrow>
         let amount_out = foldl (\<lambda>money out. money + o_amount out) 0 (vout tx)
         in if amount_in \<ge> amount_out then Some (amount_in - amount_out) else None)"

definition get_tx_fee_or_0 :: "transaction \<Rightarrow> u64" where
  "get_tx_fee_or_0 tx = (case get_tx_fee tx of None \<Rightarrow> 0 | Some r \<Rightarrow> r)"

definition check_inputs_types_supported :: "transaction \<Rightarrow> bool" where
  "check_inputs_types_supported tx \<longleftrightarrow> list_all (\<lambda>i. case i of TxinToKey _ \<Rightarrow> True | _ \<Rightarrow> False) (vin tx)"

definition check_outs_valid :: "(public_key \<Rightarrow> bool) \<Rightarrow> transaction \<Rightarrow> bool" where
  "check_outs_valid check_key tx \<longleftrightarrow>
    list_all (\<lambda>out. case o_target out of
        TxoutToKey k \<Rightarrow> 0 < o_amount out \<and> check_key (tk_key k) | _ \<Rightarrow> False) (vout tx)"

fun inputs_overflow_loop :: "txin_v list \<Rightarrow> u64 \<Rightarrow> bool" where
  "inputs_overflow_loop [] money = True"
| "inputs_overflow_loop (TxinToKey k # ins) money =
    (if money > ki_amount k + money then False else inputs_overflow_loop ins (money + ki_amount k))"
| "inputs_overflow_loop (_ # ins) money = False"

definition check_inputs_overflow :: "transaction \<Rightarrow> bool" where
  "check_inputs_overflow tx = inputs_overflow_loop (vin tx) 0"

fun outs_overflow_loop :: "tx_out list \<Rightarrow> u64 \<Rightarrow> bool" where
  "outs_overflow_loop [] money = True"
| "outs_overflow_loop (out # outs) money =
    (if money > o_amount out + money then False else outs_overflow_loop outs (money + o_amount out))"

definition check_outs_overflow :: "transaction \<Rightarrow> bool" where
  "check_outs_overflow tx = outs_overflow_loop (vout tx) 0"

definition check_money_overflow :: "transaction \<Rightarrow> bool" where
  "check_money_overflow tx \<longleftrightarrow> check_inputs_overflow tx \<and> check_outs_overflow tx"

definition is_mixattr_applicable_for_fake_outs_counter :: "u8 \<Rightarrow> u64 \<Rightarrow> bool" where
  "is_mixattr_applicable_for_fake_outs_counter mix_attr fake_attr_count =
    (if mix_attr > 1 then fake_attr_count + 1 \<ge> ucast mix_attr
     else if mix_attr = 1 then fake_attr_count = 0
     else True)"

text \<open>The loops update the vector in place, upwards and downwards.\<close>

definition relative_output_offsets_to_absolute :: "u64 list \<Rightarrow> u64 list" where
  "relative_output_offsets_to_absolute off =
    foldl (\<lambda>res i. res[i := res ! i + res ! (i - 1)]) off [1..<length off]"

definition absolute_output_offsets_to_relative :: "u64 list \<Rightarrow> u64 list" where
  "absolute_output_offsets_to_relative off =
    (if off = [] then off
     else foldl (\<lambda>res i. res[i := res ! i - res ! (i - 1)]) (sort off) (rev [1..<length off]))"

text \<open>
  The chunks and the dust, in the order the handlers are called. The second component of an element
  is \<open>True\<close> for the dust handler.
\<close>

function decompose_loop :: "u64 \<Rightarrow> u64 \<Rightarrow> u64 \<Rightarrow> u64 \<Rightarrow> bool \<Rightarrow> (u64 \<times> bool) list \<Rightarrow> (u64 \<times> bool) list \<times> u64 \<times> bool" where
  "decompose_loop amount dust_threshold order dust is_dust_handled out =
    (if amount = 0 then (out, dust, is_dust_handled)
     else let chunk = (amount mod 10) * order; amount = amount div 10; order = order * 10
          in if dust + chunk \<le> dust_threshold
             then decompose_loop amount dust_threshold order (dust + chunk) is_dust_handled out
             else let out = (if \<not> is_dust_handled \<and> dust \<noteq> 0 then out @ [(dust, True)] else out);
                      is_dust_handled = (is_dust_handled \<or> dust \<noteq> 0);
                      out = (if chunk \<noteq> 0 then out @ [(chunk, False)] else out)
                  in decompose_loop amount dust_threshold order dust is_dust_handled out)"
  by pat_completeness auto
termination
proof (relation "measure (\<lambda>(amount, _). unat amount)")
qed (auto simp: unat_div_word unat_gt_0)

declare decompose_loop.simps [simp del]

definition decompose_amount_into_digits :: "u64 \<Rightarrow> u64 \<Rightarrow> (u64 \<times> bool) list" where
  "decompose_amount_into_digits amount dust_threshold =
    (if amount = 0 then []
     else case decompose_loop amount dust_threshold 1 0 False [] of
            (out, dust, is_dust_handled) \<Rightarrow>
              if \<not> is_dust_handled \<and> dust \<noteq> 0 then out @ [(dust, True)] else out)"

definition get_blob_hash :: "bytes \<Rightarrow> hash" where
  "get_blob_hash blob = cn_fast_hash blob"

definition get_transaction_hash :: "transaction \<Rightarrow> hash" where
  "get_transaction_hash tx = get_blob_hash (snd (put_transaction_prefix tx))"

definition get_object_blobsize :: "transaction \<Rightarrow> u64" where
  "get_object_blobsize tx =
    (let prefix_blob = word_of_nat (length (snd (put_transaction_prefix tx)))
     in if is_coinbase tx then prefix_blob
        else foldl (\<lambda>s i. let sig_count = word_of_nat (get_signature_size i)
                in s + 64 * sig_count + word_of_nat (get_varint_packed_size sig_count)) prefix_blob (vin tx)
             + word_of_nat (get_varint_packed_size (word_of_nat (length (vin tx)))))"

definition get_tx_tree_hash :: "block \<Rightarrow> hash" where
  "get_tx_tree_hash b = tree_hash (get_transaction_hash (miner_tx b) # tx_hashes b)"

definition get_block_hashing_blob :: "block \<Rightarrow> bytes" where
  "get_block_hashing_blob b =
    snd (put_block_header b) @ get_tx_tree_hash b @ get_varint_data (word_of_nat (length (tx_hashes b)) + 1)"

text \<open>\<open>get_object_hash\<close> serializes its argument, a string: its length comes first.\<close>

definition get_block_hash :: "block \<Rightarrow> hash" where
  "get_block_hash b =
    (let blob = get_block_hashing_blob b in get_blob_hash (write_varint (word_of_nat (length blob)) @ blob))"

definition get_block_height :: "block \<Rightarrow> u64" where
  "get_block_height b = (case vin (miner_tx b) of [TxinGen height] \<Rightarrow> height | _ \<Rightarrow> 0)"

section \<open>Amounts\<close>

fun input_amount :: "txin_v \<Rightarrow> nat" where
  "input_amount (TxinToKey k) = unat (ki_amount k)"
| "input_amount _ = 0"

definition inputs_total :: "transaction \<Rightarrow> nat" where
  "inputs_total tx = sum_list (map input_amount (vin tx))"

definition outs_total :: "transaction \<Rightarrow> nat" where
  "outs_total tx = sum_list (map (\<lambda>out. unat (o_amount out)) (vout tx))"

lemma add_checked:
  fixes m a :: u64
  assumes "\<not> a + m < m"
  shows "unat (m + a) = unat m + unat a"
proof -
  have "\<not> m + a < m" using assms by (simp only: add.commute [of a m] not_False_eq_True)
  then show ?thesis by (intro unat_add_no_wrap) (simp only: add_carry_iff not_le)
qed

lemma sum_inputs_exact:
  "inputs_overflow_loop ins m \<Longrightarrow> \<exists>s. sum_inputs ins m = Some s \<and> unat s = unat m + sum_list (map input_amount ins)"
proof (induction ins m rule: inputs_overflow_loop.induct)
  case (2 k ins money)
  then show ?case using add_checked [where m = money and a = "ki_amount k"] by (auto split: if_splits)
qed auto

lemma sum_outs_exact:
  "outs_overflow_loop outs m \<Longrightarrow>
    unat (foldl (\<lambda>money out. money + o_amount out) m outs) = unat m + sum_list (map (\<lambda>out. unat (o_amount out)) outs)"
proof (induction outs m rule: outs_overflow_loop.induct)
  case (2 out outs money)
  then show ?case using add_checked [where m = money and a = "o_amount out"] by (auto split: if_splits)
qed auto

lemma get_tx_fee_exact:
  assumes "check_money_overflow tx"
  shows "get_tx_fee tx = Some fee \<longleftrightarrow> inputs_total tx = outs_total tx + unat fee"
proof -
  obtain s where s: "sum_inputs (vin tx) 0 = Some s" "unat s = inputs_total tx"
    using assms sum_inputs_exact [of "vin tx" 0]
    by (auto simp: check_money_overflow_def check_inputs_overflow_def inputs_total_def)
  define t where "t = foldl (\<lambda>money out. money + o_amount out) 0 (vout tx)"
  have t: "unat t = outs_total tx"
    using assms sum_outs_exact [of "vout tx" 0]
    by (simp add: check_money_overflow_def check_outs_overflow_def outs_total_def t_def)
  have "get_tx_fee tx = (if t \<le> s then Some (s - t) else None)"
    by (simp add: get_tx_fee_def s(1) t_def Let_def)
  moreover have "s - t = fee \<longleftrightarrow> inputs_total tx = outs_total tx + unat fee" if "t \<le> s"
  proof -
    have "s - t = fee \<longleftrightarrow> unat (s - t) = unat fee" by (simp add: word_unat_eq_iff)
    also have "unat (s - t) = inputs_total tx - outs_total tx" using that s t by (simp add: unat_sub_no_wrap)
    finally show ?thesis using that s t by (auto simp: word_le_nat_alt)
  qed
  moreover have "t \<le> s \<longleftrightarrow> outs_total tx \<le> inputs_total tx" by (simp add: word_le_nat_alt s t)
  ultimately show ?thesis by auto
qed

section \<open>Output offsets\<close>

lemma length_foldl_update: "length (foldl (\<lambda>res i. res[i := f res i]) xs is) = length xs"
  by (induction "is" arbitrary: xs) simp_all

lemma differences_nth:
  fixes ys :: "u64 list"
  assumes "k \<le> length ys"
  shows "i < length ys \<Longrightarrow> foldl (\<lambda>res i. res[i := res ! i - res ! (i - 1)]) ys (rev [1..<k]) ! i
    = (if 1 \<le> i \<and> i < k then ys ! i - ys ! (i - 1) else ys ! i)"
  using assms
proof (induction k arbitrary: ys)
  case (Suc k)
  show ?case
  proof (cases "k = 0")
    case False
    let ?ys = "ys[k := ys ! k - ys ! (k - 1)]"
    have "rev [1..<Suc k] = k # rev [1..<k]" using False by simp
    then show ?thesis using Suc.IH [of ?ys] Suc.prems by (auto simp: nth_list_update less_Suc_eq)
  qed (use Suc.prems in auto)
qed simp

lemma sums_of_differences:
  fixes ds :: "u64 list"
  assumes "length ds = length ys" and "\<And>i. i < length ys \<Longrightarrow> ds ! i = (if 1 \<le> i then ys ! i - ys ! (i - 1) else ys ! i)"
    and "k \<le> length ys"
  shows "i < length ys \<Longrightarrow> foldl (\<lambda>res i. res[i := res ! i + res ! (i - 1)]) ds [1..<k] ! i
    = (if i < k \<or> i = 0 then ys ! i else ds ! i)"
  using assms(3)
proof (induction k arbitrary: i)
  case 0
  then show ?case using assms(2) [of 0] by auto
next
  case (Suc k)
  show ?case
  proof (cases "k = 0")
    case True
    then show ?thesis using Suc.prems assms(2) [of i] by auto
  next
    case False
    let ?r = "foldl (\<lambda>res i. res[i := res ! i + res ! (i - 1)]) ds [1..<k]"
    have "[1..<Suc k] = [1..<k] @ [k]" using False by simp
    moreover have "length ?r = length ys"
      using length_foldl_update [of "\<lambda>res i. res ! i + res ! (i - 1)" ds "[1..<k]"] assms(1) by simp
    moreover have "?r ! k = ys ! k - ys ! (k - 1)" "?r ! (k - 1) = ys ! (k - 1)"
      using Suc.IH [of k] Suc.IH [of "k - 1"] Suc.prems assms(2) [of k] False by auto
    ultimately show ?thesis using Suc.IH [of i] Suc.prems by (auto simp: nth_list_update less_Suc_eq)
  qed
qed

lemma offsets_roundtrip: "relative_output_offsets_to_absolute (absolute_output_offsets_to_relative off) = sort off"
proof (cases "off = []")
  case True
  then show ?thesis by (simp add: relative_output_offsets_to_absolute_def absolute_output_offsets_to_relative_def)
next
  case False
  let ?ys = "sort off" and ?ds = "absolute_output_offsets_to_relative off"
  have len: "length ?ds = length ?ys"
    using length_foldl_update [of "\<lambda>res i. res ! i - res ! (i - 1)" ?ys "rev [1..<length off]"] False
    by (simp add: absolute_output_offsets_to_relative_def)
  have ds: "?ds ! i = (if 1 \<le> i then ?ys ! i - ?ys ! (i - 1) else ?ys ! i)" if "i < length ?ys" for i
    using differences_nth [of "length off" ?ys i] False that by (simp add: absolute_output_offsets_to_relative_def)
  show ?thesis
  proof (rule nth_equalityI)
    show "length (relative_output_offsets_to_absolute ?ds) = length ?ys"
      using length_foldl_update [of "\<lambda>res i. res ! i + res ! (i - 1)" ?ds] len
      by (simp add: relative_output_offsets_to_absolute_def)
  next
    fix i assume "i < length (relative_output_offsets_to_absolute ?ds)"
    then have i: "i < length ?ys"
      using length_foldl_update [of "\<lambda>res i. res ! i + res ! (i - 1)" ?ds] len
      by (simp add: relative_output_offsets_to_absolute_def)
    then show "relative_output_offsets_to_absolute ?ds ! i = ?ys ! i"
      using sums_of_differences [OF len ds, of "length ?ds" i] len
      by (simp add: relative_output_offsets_to_absolute_def)
  qed
qed


section \<open>Sizes\<close>

lemma length_put_blobs: "list_all (\<lambda>s. length s = n) xs \<Longrightarrow> length (concat (map id xs)) = n * length xs"
  by (induction xs) auto

lemma length_signatures:
  assumes "list_all2 (\<lambda>i sigs. length sigs = get_signature_size i) ins xs"
    and "list_all (\<lambda>ss. list_all (\<lambda>s. length s = 64) ss \<and> length ss < 2 ^ 56) xs"
  shows "foldl (\<lambda>s i. let sig_count = word_of_nat (get_signature_size i)
      in s + 64 * sig_count + word_of_nat (get_varint_packed_size sig_count)) m ins
    = m + word_of_nat (length (concat (map (put_vector id) xs)))"
  using assms
proof (induction arbitrary: m rule: list_all2_induct)
  case (Cons i ins ss xs)
  let ?n = "word_of_nat (length ss) :: u64"
  have n: "unat ?n = length ss" using Cons by (simp add: unat_of_nat_small)
  have "get_varint_packed_size ?n = length (write_varint ?n)"
    using Cons n by (intro get_varint_packed_size_exact) simp
  moreover have "length (put_vector id ss) = length (write_varint ?n) + 64 * length ss"
    using Cons length_put_blobs [of 64 ss] by (simp add: put_vector_def)
  ultimately show ?case using Cons by (simp add: Let_def id_def algebra_simps)
qed simp

lemma get_object_blobsize_ok:
  assumes ok: "transaction_ok tx" and nc: "\<not> is_coinbase tx"
    and counts: "list_all2 (\<lambda>i sigs. length sigs = get_signature_size i) (vin tx) (signatures tx)"
    and small: "list_all (\<lambda>ss. length ss < 2 ^ 56) (signatures tx)" "length (vin tx) < 2 ^ 56"
  shows "get_object_blobsize tx = word_of_nat (length (tx_to_blob tx))"
proof -
  let ?n = "word_of_nat (length (vin tx)) :: u64"
  have len: "length (signatures tx) = length (vin tx)" using counts by (simp add: list_all2_lengthD)
  have n: "unat ?n = length (vin tx)" using small by (simp add: unat_of_nat_small)
  have sz: "get_varint_packed_size ?n = length (write_varint ?n)"
    using small n by (intro get_varint_packed_size_exact) simp
  have "list_all (\<lambda>ss. list_all (\<lambda>s. length s = 64) ss \<and> length ss < 2 ^ 56) (signatures tx)"
    using ok small(1) by (auto simp: transaction_ok_def list_all_iff)
  from length_signatures [OF counts this]
  show ?thesis
    using nc put_transaction_ok [OF ok] sz len
    by (simp add: get_object_blobsize_def tx_to_blob_def put_vector_def Let_def algebra_simps)
qed

section \<open>Decomposition of amounts\<close>

definition digit_chunk :: "u64 \<Rightarrow> bool" where
  "digit_chunk c \<longleftrightarrow> (\<exists>d j. 0 < d \<and> d < 10 \<and> unat c = d * 10 ^ j)"

definition part_ok :: "u64 \<Rightarrow> u64 \<times> bool \<Rightarrow> bool" where
  "part_ok dust_threshold part = (case part of (c, is_dust) \<Rightarrow>
     if is_dust then 0 < c \<and> c \<le> dust_threshold else digit_chunk c)"

definition parts_total :: "(u64 \<times> bool) list \<Rightarrow> nat" where
  "parts_total out = sum_list (map (\<lambda>(c, _). unat c) out)"

lemma parts_total_simps [simp]: "parts_total [] = 0" "parts_total ((c, b) # xs) = unat c + parts_total xs"
  "parts_total (xs @ ys) = parts_total xs + parts_total ys"
  by (simp_all add: parts_total_def)

definition decompose_inv :: "nat \<Rightarrow> u64 \<Rightarrow> nat \<Rightarrow> u64 \<Rightarrow> u64 \<Rightarrow> u64 \<Rightarrow> bool \<Rightarrow> (u64 \<times> bool) list \<Rightarrow> bool" where
  "decompose_inv whole th k amount order dust handled out \<longleftrightarrow>
    (amount \<noteq> 0 \<longrightarrow> unat order = 10 ^ k) \<and>
    unat amount * 10 ^ k + (if handled then 0 else unat dust) + parts_total out = whole \<and>
    unat amount * 10 ^ k + unat dust \<le> whole \<and> whole < 2 ^ 64 \<and> dust \<le> th \<and>
    (handled \<longrightarrow> unat th < unat dust + 10 ^ k) \<and> list_all (part_ok th) out"

lemma decompose_loop_inv:
  assumes "decompose_inv whole th k amount order dust handled out"
  shows "case decompose_loop amount th order dust handled out of (out, dust, handled) \<Rightarrow>
    (if handled then 0 else unat dust) + parts_total out = whole \<and> dust \<le> th \<and> list_all (part_ok th) out"
  using assms
proof (induction amount th order dust handled out arbitrary: k rule: decompose_loop.induct)
  case (1 amount th order dust handled out)
  show ?case
  proof (cases "amount = 0")
    case True
    then show ?thesis using "1.prems" by (simp add: decompose_loop.simps [of 0] decompose_inv_def)
  next
    case False
    define a where "a = unat amount"
    define d where "d = a mod 10"
    define chunk where "chunk = (amount mod 10) * order"
    have a: "a = 10 * (a div 10) + d" by (simp add: d_def)
    have inv: "a * 10 ^ k + (if handled then 0 else unat dust) + parts_total out = whole" "a * 10 ^ k + unat dust \<le> whole"
      "whole < 2 ^ 64" "unat order = 10 ^ k" "dust \<le> th" "handled \<longrightarrow> unat th < unat dust + 10 ^ k" "list_all (part_ok th) out"
      using "1.prems" False by (simp_all add: decompose_inv_def a_def)
    have split: "a * 10 ^ k = (a div 10) * 10 ^ Suc k + d * 10 ^ k"
      by (subst a) (simp add: algebra_simps)
    have le: "d * 10 ^ k + unat dust \<le> whole" using inv(2) split by simp
    have chunk: "unat chunk = d * 10 ^ k"
      unfolding chunk_def using le inv(3,4) by (subst unat_mult_no_wrap) (simp_all add: unat_mod_word d_def a_def)
    have sum: "unat (dust + chunk) = unat dust + d * 10 ^ k"
      using le inv(3) chunk by (subst unat_add_no_wrap) simp_all
    have a': "unat (amount div 10) = a div 10" by (simp add: unat_div_word a_def)
    have order: "amount div 10 \<noteq> 0 \<longrightarrow> unat (order * 10) = 10 ^ Suc k"
    proof
      assume "amount div 10 \<noteq> 0"
      then have "1 \<le> a div 10" using a' by (metis unat_eq_zero less_one not_le)
      then have "10 ^ Suc k \<le> (a div 10) * 10 ^ Suc k" by (metis mult_le_mono1 mult_1)
      then have "10 ^ Suc k < (2 :: nat) ^ 64" using split inv(2,3) by linarith
      then show "unat (order * 10) = 10 ^ Suc k" using inv(4) by (subst unat_mult_no_wrap) (simp_all add: mult.commute)
    qed
    have ten: "d * 10 ^ k < 10 ^ Suc k" by (simp add: d_def)
    show ?thesis
    proof (cases "dust + chunk \<le> th")
      case True
      then have "handled \<longrightarrow> d = 0"
        using inv(6) sum by (cases d) (auto simp: word_le_nat_alt)
      then have "decompose_inv whole th (Suc k) (amount div 10) (order * 10) (dust + chunk) handled out"
        using inv split order sum True a' chunk by (cases handled) (simp_all add: decompose_inv_def)
      from "1.IH"(1) [OF False chunk_def refl refl True this]
      show ?thesis using False True by (subst decompose_loop.simps) (simp add: Let_def chunk_def)
    next
      case exceeds: False
      then have d: "d \<noteq> 0" using inv(5) sum by (cases "d = 0") (simp_all add: word_le_nat_alt)
      let ?out1 = "if \<not> handled \<and> dust \<noteq> 0 then out @ [(dust, True)] else out"
      have c0: "chunk \<noteq> 0" using d chunk by auto
      have "part_ok th (chunk, False)"
      proof -
        have "0 < d" "d < 10" using d by (simp_all add: d_def)
        then have "digit_chunk chunk" unfolding digit_chunk_def using chunk by blast
        then show ?thesis by (simp add: part_ok_def)
      qed
      moreover have "part_ok th (dust, True)" if "dust \<noteq> 0"
        using that inv(5) by (simp add: part_ok_def word_gt_0)
      moreover have "unat th < unat dust + 10 ^ Suc k"
        using exceeds [unfolded word_le_nat_alt sum] ten by linarith
      ultimately have "decompose_inv whole th (Suc k) (amount div 10) (order * 10) dust (handled \<or> dust \<noteq> 0) (?out1 @ [(chunk, False)])"
        using inv split order a' chunk by (cases handled; cases "dust = 0") (simp_all add: decompose_inv_def)
      then show ?thesis
        using "1.IH"(2) [OF False chunk_def refl refl exceeds refl refl refl, of "Suc k"] False exceeds c0
        by (subst decompose_loop.simps) (simp add: Let_def chunk_def)
    qed
  qed
qed

lemma decompose_ok:
  "parts_total (decompose_amount_into_digits amount th) = unat amount
    \<and> list_all (part_ok th) (decompose_amount_into_digits amount th)"
proof (cases "amount = 0")
  case True
  then show ?thesis by (simp add: decompose_amount_into_digits_def)
next
  case False
  have "decompose_inv (unat amount) th 0 amount 1 0 False []"
    by (simp add: decompose_inv_def)
  from decompose_loop_inv [OF this] show ?thesis
    using False
    by (auto simp: decompose_amount_into_digits_def part_ok_def word_gt_0 split: prod.splits if_splits)
qed


section \<open>Properties\<close>

theorem tx_fee_exact:
  assumes "check_money_overflow tx"
  shows "get_tx_fee tx = Some fee \<longleftrightarrow> inputs_total tx = outs_total tx + unat fee"
  using assms by (rule get_tx_fee_exact)

theorem tx_fee_exact_witness: "get_tx_fee sample_tx = Some 200"
  using tx_fee_exact [of sample_tx 200]
  by (simp add: sample_tx_def check_money_overflow_def check_inputs_overflow_def check_outs_overflow_def inputs_total_def outs_total_def)

theorem output_offsets_roundtrip:
  "relative_output_offsets_to_absolute (absolute_output_offsets_to_relative off) = sort off"
  by (rule offsets_roundtrip)

theorem get_object_blobsize_exact:
  assumes "transaction_ok tx" and "\<not> is_coinbase tx"
    and "list_all2 (\<lambda>i sigs. length sigs = get_signature_size i) (vin tx) (signatures tx)"
    and "list_all (\<lambda>ss. length ss < 2 ^ 56) (signatures tx)" and "length (vin tx) < 2 ^ 56"
  shows "get_object_blobsize tx = word_of_nat (length (tx_to_blob tx))"
  using assms by (rule get_object_blobsize_ok)

theorem get_object_blobsize_exact_witness: "get_object_blobsize sample_tx = word_of_nat (length (tx_to_blob sample_tx))"
  by (rule get_object_blobsize_exact [OF sample_tx_ok]) (simp_all add: sample_tx_def is_coinbase_def)

theorem decompose_amount_exact:
  "parts_total (decompose_amount_into_digits amount dust_threshold) = unat amount
    \<and> list_all (part_ok dust_threshold) (decompose_amount_into_digits amount dust_threshold)"
  by (rule decompose_ok)

end
