(* ===== verification/TxExtra.thy ===== *)
theory TxExtra
  imports TxFormat
begin

text \<open>
  The extra field of a transaction: \<open>src/currency_core/tx_extra.h\<close> and the functions of
  \<open>src/currency_core/currency_format_utils.cpp\<close> that build and parse it. The parser indexes the vector
  with explicit offsets; a read outside of the vector is the outcome \<open>OutOfBounds\<close>. All offsets before
  such a read are at most the size, so that no subtraction of sizes wraps around and natural numbers
  stand for \<open>size_t\<close>.
\<close>

section \<open>Data\<close>

type_synonym secret_key = bytes

definition null_pkey :: public_key where
  "null_pkey = replicate 32 0"

definition null_skey :: secret_key where
  "null_skey = replicate 32 0"

definition null_sig :: signature where
  "null_sig = replicate 64 0"

record account_public_address =
  m_spend_public_key :: public_key
  m_view_public_key :: public_key

record alias_info_base =
  m_address :: account_public_address
  m_view_key :: secret_key
  m_sign :: signature
  m_text_comment :: bytes

record alias_info = alias_info_base +
  m_alias :: bytes

record tx_extra_info =
  m_tx_pub_key :: public_key
  ei_alias :: alias_info
  m_user_data_blob :: bytes

definition TX_EXTRA_TAG_PUBKEY :: u8 where
  "TX_EXTRA_TAG_PUBKEY = 0x01"

definition TX_EXTRA_TAG_USER_DATA :: u8 where
  "TX_EXTRA_TAG_USER_DATA = 0x02"

definition TX_EXTRA_TAG_ALIAS :: u8 where
  "TX_EXTRA_TAG_ALIAS = 0x03"

definition TX_EXTRA_TAG_ALIAS_FLAGS_OP_UPDATE :: u8 where
  "TX_EXTRA_TAG_ALIAS_FLAGS_OP_UPDATE = 0x01"

definition TX_EXTRA_TAG_ALIAS_FLAGS_ADDR_WITH_TRACK :: u8 where
  "TX_EXTRA_TAG_ALIAS_FLAGS_ADDR_WITH_TRACK = 0x02"

definition TX_USER_DATA_TAG_PAYMENT_ID :: u8 where
  "TX_USER_DATA_TAG_PAYMENT_ID = 0x00"

definition TX_MAX_PAYMENT_ID_SIZE :: nat where
  "TX_MAX_PAYMENT_ID_SIZE = 250"

definition MAX_ALIAS_LEN :: nat where
  "MAX_ALIAS_LEN = 255"

definition COIN :: u64 where
  "COIN = 10000000000"

definition MAKE_ALIAS_MINIMUM_FEE :: u64 where
  "MAKE_ALIAS_MINIMUM_FEE = 100 * COIN"

lemmas extra_tags = TX_EXTRA_TAG_PUBKEY_def TX_EXTRA_TAG_USER_DATA_def TX_EXTRA_TAG_ALIAS_def
  TX_EXTRA_TAG_ALIAS_FLAGS_OP_UPDATE_def TX_EXTRA_TAG_ALIAS_FLAGS_ADDR_WITH_TRACK_def

text \<open>The value-initialized structures.\<close>

definition null_address :: account_public_address where
  "null_address = \<lparr>m_spend_public_key = null_pkey, m_view_public_key = null_pkey\<rparr>"

definition null_alias :: alias_info where
  "null_alias = \<lparr>m_address = null_address, m_view_key = null_skey, m_sign = null_sig, m_text_comment = [],
     m_alias = []\<rparr>"

definition null_extra :: tx_extra_info where
  "null_extra = \<lparr>m_tx_pub_key = null_pkey, ei_alias = null_alias, m_user_data_blob = []\<rparr>"

section \<open>Building\<close>

definition add_tx_pub_key_to_extra :: "bytes \<Rightarrow> public_key \<Rightarrow> bytes" where
  "add_tx_pub_key_to_extra ex tx_pub_key = ex @ TX_EXTRA_TAG_PUBKEY # tx_pub_key"

definition add_tx_extra_nonce :: "bytes \<Rightarrow> bytes \<Rightarrow> bytes option" where
  "add_tx_extra_nonce ex extra_nonce =
    (if length extra_nonce \<le> 255
     then Some (ex @ [TX_EXTRA_TAG_USER_DATA, word_of_nat (length extra_nonce)] @ extra_nonce)
     else None)"

text \<open>The flag byte, written in three places of the source, comes second.\<close>

definition make_tx_extra_alias_entry :: "alias_info \<Rightarrow> bool \<Rightarrow> bytes option" where
  "make_tx_extra_alias_entry alinfo make_buff_to_sign =
    (if \<not> 0 < length (m_alias alinfo) then None
     else if \<not> length (m_alias alinfo) \<le> 255 then None
     else if \<not> length (m_text_comment alinfo) \<le> 255 then None
     else
       let track = m_view_key alinfo \<noteq> null_skey;
           update = \<not> make_buff_to_sign \<and> m_sign alinfo \<noteq> null_sig
       in Some ([TX_EXTRA_TAG_ALIAS,
            (if track then TX_EXTRA_TAG_ALIAS_FLAGS_ADDR_WITH_TRACK else 0)
              OR (if update then TX_EXTRA_TAG_ALIAS_FLAGS_OP_UPDATE else 0),
            word_of_nat (length (m_alias alinfo))]
          @ m_alias alinfo
          @ m_spend_public_key (m_address alinfo) @ m_view_public_key (m_address alinfo)
          @ (if track then m_view_key alinfo else [])
          @ word_of_nat (length (m_text_comment alinfo)) # m_text_comment alinfo
          @ (if update then m_sign alinfo else [])))"

definition add_tx_extra_alias :: "bytes \<Rightarrow> alias_info \<Rightarrow> bytes option" where
  "add_tx_extra_alias ex alinfo =
    (case make_tx_extra_alias_entry alinfo False of None \<Rightarrow> None | Some buff \<Rightarrow> Some (ex @ buff))"

definition set_payment_id_to_tx_extra :: "bytes \<Rightarrow> bytes \<Rightarrow> bytes option" where
  "set_payment_id_to_tx_extra ex payment_id =
    (if length payment_id = 0 \<or> length payment_id \<ge> TX_MAX_PAYMENT_ID_SIZE then None
     else if TX_EXTRA_TAG_USER_DATA \<in> set ex then None
     else Some (ex @ [TX_EXTRA_TAG_USER_DATA, word_of_nat (length payment_id + 2),
        TX_USER_DATA_TAG_PAYMENT_ID, word_of_nat (length payment_id)] @ payment_id))"

text \<open>
  \<open>user_data\<close> is a \<open>std::string\<close>: its second character is a signed \<open>char\<close>, so that a length of 128 and more
  becomes a huge \<open>size_t\<close> and \<open>substr\<close> takes all that is left.
\<close>

definition get_payment_id_from_user_data :: "bytes \<Rightarrow> bytes option" where
  "get_payment_id_from_user_data user_data =
    (if length user_data = 0 then None
     else if user_data ! 0 \<noteq> TX_USER_DATA_TAG_PAYMENT_ID then None
     else if length user_data < 2 then None
     else Some (take (unat (scast (user_data ! 1) :: u64)) (drop 2 user_data)))"

definition validate_alias_name :: "bytes \<Rightarrow> bool" where
  "validate_alias_name al \<longleftrightarrow> length al \<le> MAX_ALIAS_LEN
    \<and> list_all (\<lambda>ch. ch \<in> set ([45, 46] @ map word_of_nat ([48..<58] @ [97..<123]))) al"

section \<open>Parsing\<close>

datatype 'a outcome = Done 'a | Refused 'a | OutOfBounds

fun and_then :: "'a outcome \<Rightarrow> ('a \<Rightarrow> 'a outcome) \<Rightarrow> 'a outcome" where
  "and_then (Done x) f = f x"
| "and_then (Refused x) f = Refused x"
| "and_then OutOfBounds f = OutOfBounds"

definition byte_at :: "bytes \<Rightarrow> nat \<Rightarrow> (u8 \<Rightarrow> 'a outcome) \<Rightarrow> 'a outcome" where
  "byte_at xs i f = (if i < length xs then f (xs ! i) else OutOfBounds)"

definition bytes_at :: "bytes \<Rightarrow> nat \<Rightarrow> nat \<Rightarrow> (bytes \<Rightarrow> 'a outcome) \<Rightarrow> 'a outcome" where
  "bytes_at xs i n f = (if i + n \<le> length xs then f (take n (drop i xs)) else OutOfBounds)"

text \<open>The four parts of \<open>parse_tx_extra_alias_entry\<close>. The state is the structure filled so far and the offset.\<close>

definition alias_address :: "bytes \<Rightarrow> nat \<Rightarrow> alias_info \<Rightarrow> (alias_info \<times> nat) outcome" where
  "alias_address ex i al =
    byte_at ex i (\<lambda>alias_name_len.
      if \<not> length ex - 1 - i \<ge> unat alias_name_len + 32 * 2 then Refused (al, i)
      else bytes_at ex (i + 1) (unat alias_name_len) (\<lambda>name.
        let i = i + (unat alias_name_len + 1)
        in bytes_at ex i 32 (\<lambda>spend. bytes_at ex (i + 32) 32 (\<lambda>view.
          Done (al\<lparr>m_alias := name, m_address := \<lparr>m_spend_public_key = spend, m_view_public_key = view\<rparr>\<rparr>, i + 64)))))"

definition alias_track :: "bytes \<Rightarrow> u8 \<Rightarrow> alias_info \<times> nat \<Rightarrow> (alias_info \<times> nat) outcome" where
  "alias_track ex alias_flags = (\<lambda>(al, i).
    if alias_flags AND TX_EXTRA_TAG_ALIAS_FLAGS_ADDR_WITH_TRACK \<noteq> 0
    then if \<not> length ex - i \<ge> 32 then Refused (al, i)
         else bytes_at ex i 32 (\<lambda>k. Done (al\<lparr>m_view_key := k\<rparr>, i + 32))
    else Done (al, i))"

definition alias_comment :: "bytes \<Rightarrow> alias_info \<times> nat \<Rightarrow> (alias_info \<times> nat) outcome" where
  "alias_comment ex = (\<lambda>(al, i).
    byte_at ex i (\<lambda>comment_len.
      if comment_len \<noteq> 0
      then if \<not> length ex - i \<ge> unat comment_len then Refused (al, i)
           else bytes_at ex (i + 1) (unat comment_len) (\<lambda>c.
             Done (al\<lparr>m_text_comment := c\<rparr>, i + (unat comment_len + 1)))
      else Done (al, i + 1)))"

definition alias_sign :: "bytes \<Rightarrow> u8 \<Rightarrow> alias_info \<times> nat \<Rightarrow> (alias_info \<times> nat) outcome" where
  "alias_sign ex alias_flags = (\<lambda>(al, i).
    if alias_flags AND TX_EXTRA_TAG_ALIAS_FLAGS_OP_UPDATE \<noteq> 0
    then if \<not> length ex - i \<ge> 32 then Refused (al, i)
         else bytes_at ex i 64 (\<lambda>s. Done (al\<lparr>m_sign := s\<rparr>, i + 64))
    else Done (al, i))"

text \<open>The offset in a result \<open>Done (al, i)\<close> is \<open>start + whole_entry_len\<close>.\<close>

definition parse_tx_extra_alias_entry :: "bytes \<Rightarrow> nat \<Rightarrow> alias_info \<Rightarrow> (alias_info \<times> nat) outcome" where
  "parse_tx_extra_alias_entry ex start al =
    (if \<not> length ex - 1 - start \<ge> 32 * 2 + 1 then Refused (al, start)
     else byte_at ex (start + 1) (\<lambda>alias_flags.
       and_then (and_then (and_then (alias_address ex (start + 2) al) (alias_track ex alias_flags))
         (alias_comment ex)) (alias_sign ex alias_flags)))"

record extra_flags =
  padding_started :: bool
  tx_extra_tag_pubkey_found :: bool
  tx_extra_user_data_found :: bool
  tx_alias_found :: bool

lemma alias_address_advances: "alias_address ex i al = Done (al', j) \<Longrightarrow> i < j"
  by (auto simp: alias_address_def byte_at_def bytes_at_def Let_def split: if_splits)

lemma alias_track_advances: "alias_track ex f (al, i) = Done (al', j) \<Longrightarrow> i \<le> j"
  by (auto simp: alias_track_def bytes_at_def split: if_splits)

lemma alias_comment_advances: "alias_comment ex (al, i) = Done (al', j) \<Longrightarrow> i < j"
  by (auto simp: alias_comment_def byte_at_def bytes_at_def split: if_splits)

lemma alias_sign_advances: "alias_sign ex f (al, i) = Done (al', j) \<Longrightarrow> i \<le> j"
  by (auto simp: alias_sign_def bytes_at_def split: if_splits)

lemma and_then_Done: "and_then r f = Done y \<longleftrightarrow> (\<exists>x. r = Done x \<and> f x = Done y)"
  by (cases r) auto

lemma alias_entry_advances:
  assumes "parse_tx_extra_alias_entry ex start al = Done (al', j)"
  shows "start < j"
proof -
  obtain f a1 i1 a2 i2 a3 i3 where "alias_address ex (start + 2) al = Done (a1, i1)"
    "alias_track ex f (a1, i1) = Done (a2, i2)" "alias_comment ex (a2, i2) = Done (a3, i3)"
    "alias_sign ex f (a3, i3) = Done (al', j)"
    using assms by (auto simp: parse_tx_extra_alias_entry_def byte_at_def and_then_Done split: if_splits)
  then show ?thesis
    by (auto dest!: alias_address_advances alias_track_advances alias_comment_advances alias_sign_advances)
qed

function extra_loop :: "bytes \<Rightarrow> nat \<Rightarrow> extra_flags \<Rightarrow> tx_extra_info \<Rightarrow> tx_extra_info outcome" where
  "extra_loop ex i fl e =
    (if i = length ex then Done e
     else if \<not> i < length ex then OutOfBounds
     else if padding_started fl then
       if ex ! i \<noteq> 0 then Refused e else extra_loop ex (i + 1) fl e
     else if ex ! i = TX_EXTRA_TAG_PUBKEY then
       if \<not> 32 \<le> length ex - 1 - i then Refused e
       else if tx_extra_tag_pubkey_found fl then Refused e
       else extra_loop ex (i + 1 + 32) (fl\<lparr>tx_extra_tag_pubkey_found := True\<rparr>)
         (e\<lparr>m_tx_pub_key := take 32 (drop (i + 1) ex)\<rparr>)
     else if ex ! i = TX_EXTRA_TAG_USER_DATA then
       if tx_extra_user_data_found fl then Refused e
       else if \<not> length ex - 1 - i \<ge> 1 then Refused e
       else let i = i + 1
            in if \<not> length ex - 1 - i \<ge> unat (ex ! i) then Refused e
               else extra_loop ex (i + unat (ex ! i) + 1) (fl\<lparr>tx_extra_user_data_found := True\<rparr>)
                 (if ex ! i \<noteq> 0 then e\<lparr>m_user_data_blob := take (unat (ex ! i)) (drop (i + 1) ex)\<rparr> else e)
     else if ex ! i = TX_EXTRA_TAG_ALIAS then
       if tx_alias_found fl then Refused e
       else (case parse_tx_extra_alias_entry ex i (ei_alias e) of
               OutOfBounds \<Rightarrow> OutOfBounds
             | Refused (al, _) \<Rightarrow> Refused (e\<lparr>ei_alias := al\<rparr>)
             | Done (al, j) \<Rightarrow> extra_loop ex j (fl\<lparr>tx_alias_found := True\<rparr>) (e\<lparr>ei_alias := al\<rparr>))
     else if ex ! i = 0 then extra_loop ex i (fl\<lparr>padding_started := True\<rparr>) e
     else extra_loop ex (i + 1) fl e)"
  by pat_completeness auto
termination
proof (relation "measure (\<lambda>(ex, i, fl, e). 2 * (length ex - i) + (if padding_started fl then 0 else 1))", goal_cases)
  case (5 ex i fl e al j p)
  then show ?case using alias_entry_advances [of ex i "ei_alias e"] by (auto split: prod.splits)
qed auto

declare extra_loop.simps [simp del]

definition no_flags :: extra_flags where
  "no_flags = \<lparr>padding_started = False, tx_extra_tag_pubkey_found = False, tx_extra_user_data_found = False,
     tx_alias_found = False\<rparr>"

text \<open>
  \<open>acc\<close> is \<open>None\<close> when the constants of the donation account do not parse, and otherwise \<open>is_out_to_acc\<close> for
  this account. The loop over the outputs keeps the amount of the first one that qualifies.
\<close>

fun donation_loop :: "(txout_to_key \<Rightarrow> public_key \<Rightarrow> nat \<Rightarrow> bool) \<Rightarrow> public_key \<Rightarrow> nat \<Rightarrow> tx_out list \<Rightarrow> u64" where
  "donation_loop is_out_to_acc pk i [] = 0"
| "donation_loop is_out_to_acc pk i (out # outs) =
    (case o_target out of
       TxoutToKey k \<Rightarrow>
         if \<not> is_out_to_acc k pk i then donation_loop is_out_to_acc pk (i + 1) outs
         else if o_amount out < COIN then donation_loop is_out_to_acc pk (i + 1) outs
         else o_amount out
     | _ \<Rightarrow> donation_loop is_out_to_acc pk (i + 1) outs)"

definition check_make_alias_tx ::
  "(txout_to_key \<Rightarrow> public_key \<Rightarrow> nat \<Rightarrow> bool) option \<Rightarrow> transaction \<Rightarrow> tx_extra_info \<Rightarrow> bool" where
  "check_make_alias_tx acc tx e =
    (if is_coinbase tx \<or> length (m_alias (ei_alias e)) = 0 then True
     else if \<not> get_tx_fee_or_0 tx \<ge> MAKE_ALIAS_MINIMUM_FEE then False
     else case acc of
            None \<Rightarrow> False
          | Some is_out_to_acc \<Rightarrow>
              if m_tx_pub_key e = null_pkey then False
              else donation_loop is_out_to_acc (m_tx_pub_key e) 0 (vout tx) \<ge> COIN)"

definition parse_and_validate_tx_extra ::
  "(txout_to_key \<Rightarrow> public_key \<Rightarrow> nat \<Rightarrow> bool) option \<Rightarrow> transaction \<Rightarrow> tx_extra_info \<Rightarrow> tx_extra_info outcome" where
  "parse_and_validate_tx_extra acc tx e =
    and_then (extra_loop (extra tx) 0 no_flags (e\<lparr>m_tx_pub_key := null_pkey\<rparr>))
      (\<lambda>e. if \<not> check_make_alias_tx acc tx e then Refused e else Done e)"

text \<open>The overload that only returns the key of the transaction, with the return value first.\<close>

definition parse_tx_pub_key ::
  "(txout_to_key \<Rightarrow> public_key \<Rightarrow> nat \<Rightarrow> bool) option \<Rightarrow> transaction \<Rightarrow> (bool \<times> public_key) option" where
  "parse_tx_pub_key acc tx =
    (case parse_and_validate_tx_extra acc tx null_extra of
       Done e \<Rightarrow> Some (True, m_tx_pub_key e)
     | Refused e \<Rightarrow> Some (False, m_tx_pub_key e)
     | OutOfBounds \<Rightarrow> None)"

definition get_tx_pub_key_from_extra ::
  "(txout_to_key \<Rightarrow> public_key \<Rightarrow> nat \<Rightarrow> bool) option \<Rightarrow> transaction \<Rightarrow> public_key option" where
  "get_tx_pub_key_from_extra acc tx = map_option snd (parse_tx_pub_key acc tx)"

text \<open>The payment id, if any; \<open>OutOfBounds\<close> as in the parser.\<close>

definition get_payment_id_from_tx_extra ::
  "(txout_to_key \<Rightarrow> public_key \<Rightarrow> nat \<Rightarrow> bool) option \<Rightarrow> transaction \<Rightarrow> bytes option outcome" where
  "get_payment_id_from_tx_extra acc tx =
    (case parse_and_validate_tx_extra acc tx null_extra of
       OutOfBounds \<Rightarrow> OutOfBounds
     | Refused _ \<Rightarrow> Refused None
     | Done tei \<Rightarrow>
         if length (m_user_data_blob tei) = 0 then Refused None
         else case get_payment_id_from_user_data (m_user_data_blob tei) of
                None \<Rightarrow> Refused None
              | Some payment_id \<Rightarrow> Done (Some payment_id))"

section \<open>Round trip\<close>

text \<open>An extra field as a list of entries.\<close>

datatype extra_entry = PubKey public_key | UserData bytes | Alias alias_info

fun put_entry :: "extra_entry \<Rightarrow> bytes" where
  "put_entry (PubKey k) = TX_EXTRA_TAG_PUBKEY # k"
| "put_entry (UserData d) = [TX_EXTRA_TAG_USER_DATA, word_of_nat (length d)] @ d"
| "put_entry (Alias al) = the (make_tx_extra_alias_entry al False)"

fun entry_ok :: "extra_entry \<Rightarrow> bool" where
  "entry_ok (PubKey k) \<longleftrightarrow> length k = 32"
| "entry_ok (UserData d) \<longleftrightarrow> length d \<le> 255"
| "entry_ok (Alias al) \<longleftrightarrow> 0 < length (m_alias al) \<and> length (m_alias al) \<le> 255 \<and> length (m_text_comment al) \<le> 255
     \<and> length (m_spend_public_key (m_address al)) = 32 \<and> length (m_view_public_key (m_address al)) = 32
     \<and> length (m_view_key al) = 32 \<and> length (m_sign al) = 64"

fun entry_kind :: "extra_entry \<Rightarrow> nat" where
  "entry_kind (PubKey _) = 0"
| "entry_kind (UserData _) = 1"
| "entry_kind (Alias _) = 2"

fun read_entry :: "extra_entry \<Rightarrow> tx_extra_info \<Rightarrow> tx_extra_info" where
  "read_entry (PubKey k) e = e\<lparr>m_tx_pub_key := k\<rparr>"
| "read_entry (UserData d) e = e\<lparr>m_user_data_blob := d\<rparr>"
| "read_entry (Alias al) e = e\<lparr>ei_alias := al\<rparr>"

lemma unat_u8_of_nat: "n \<le> 255 \<Longrightarrow> unat (word_of_nat n :: u8) = n"
  by (simp add: unat_of_nat)

lemma byte_at_append: "ex = pre @ b # post \<Longrightarrow> i = length pre \<Longrightarrow> byte_at ex i f = f b"
  by (simp add: byte_at_def)

lemma bytes_at_append: "ex = pre @ m @ post \<Longrightarrow> i = length pre \<Longrightarrow> n = length m \<Longrightarrow> bytes_at ex i n f = f m"
  by (simp add: bytes_at_def)

text \<open>Each part of the alias parser on the bytes that the builder wrote for it.\<close>

lemma alias_address_put:
  assumes ex: "ex = pre @ word_of_nat (length name) # name @ spend @ view @ post" and n: "length name \<le> 255"
    and "length spend = 32" and "length view = 32" and "i = length pre"
  shows "alias_address ex i al = Done (al\<lparr>m_alias := name,
      m_address := \<lparr>m_spend_public_key = spend, m_view_public_key = view\<rparr>\<rparr>, i + 1 + length name + 64)"
proof -
  define b :: u8 where "b = word_of_nat (length name)"
  have b: "unat b = length name" using n by (simp add: b_def unat_u8_of_nat)
  have "byte_at ex i f = f b" for f :: "u8 \<Rightarrow> (alias_info \<times> nat) outcome"
    by (rule byte_at_append [where pre = pre]) (use assms in \<open>simp_all add: b_def\<close>)
  moreover have "bytes_at ex (i + 1) (length name) f = f name" for f :: "bytes \<Rightarrow> (alias_info \<times> nat) outcome"
    by (rule bytes_at_append [where pre = "pre @ [b]"]) (use assms in \<open>simp_all add: b_def\<close>)
  moreover have "bytes_at ex (i + (length name + 1)) 32 f = f spend" for f :: "bytes \<Rightarrow> (alias_info \<times> nat) outcome"
    by (rule bytes_at_append [where pre = "pre @ b # name"]) (use assms in \<open>simp_all add: b_def\<close>)
  moreover have "bytes_at ex (i + (length name + 1) + 32) 32 f = f view" for f :: "bytes \<Rightarrow> (alias_info \<times> nat) outcome"
    by (rule bytes_at_append [where pre = "pre @ b # name @ spend"]) (use assms in \<open>simp_all add: b_def\<close>)
  moreover have "length ex - 1 - i \<ge> length name + 32 * 2" using assms by simp
  ultimately show ?thesis by (simp add: alias_address_def b Let_def)
qed

lemma alias_track_put:
  assumes "ex = pre @ (if track then key else []) @ post" and "length key = 32" and "i = length pre"
    and "fl AND TX_EXTRA_TAG_ALIAS_FLAGS_ADDR_WITH_TRACK \<noteq> 0 \<longleftrightarrow> track"
  shows "alias_track ex fl (al, i) =
    Done (if track then al\<lparr>m_view_key := key\<rparr> else al, i + (if track then 32 else 0))"
  using assms by (simp add: alias_track_def bytes_at_def)

lemma alias_comment_put:
  assumes ex: "ex = pre @ word_of_nat (length c) # c @ post" and n: "length c \<le> 255" and i: "i = length pre"
    and al: "m_text_comment al = []"
  shows "alias_comment ex (al, i) = Done (al\<lparr>m_text_comment := c\<rparr>, i + 1 + length c)"
proof -
  define b :: u8 where "b = word_of_nat (length c)"
  have b: "unat b = length c" using n by (simp add: b_def unat_u8_of_nat)
  have "byte_at ex i f = f b" for f :: "u8 \<Rightarrow> (alias_info \<times> nat) outcome"
    by (rule byte_at_append [where pre = pre]) (use ex i in \<open>simp_all add: b_def\<close>)
  moreover have "bytes_at ex (i + 1) (length c) f = f c" for f :: "bytes \<Rightarrow> (alias_info \<times> nat) outcome"
    by (rule bytes_at_append [where pre = "pre @ [b]"]) (use ex i in \<open>simp_all add: b_def\<close>)
  moreover have "length ex - i \<ge> length c" using ex i by simp
  moreover have "b = 0 \<longleftrightarrow> c = []" using b by (metis length_0_conv unat_eq_zero)
  moreover have "al\<lparr>m_text_comment := []\<rparr> = al" using al by simp
  ultimately show ?thesis by (simp add: alias_comment_def b)
qed

lemma alias_sign_put:
  assumes "ex = pre @ (if upd then sg else []) @ post" and "length sg = 64" and "i = length pre"
    and "fl AND TX_EXTRA_TAG_ALIAS_FLAGS_OP_UPDATE \<noteq> 0 \<longleftrightarrow> upd"
  shows "alias_sign ex fl (al, i) = Done (if upd then al\<lparr>m_sign := sg\<rparr> else al, i + (if upd then 64 else 0))"
  using assms by (simp add: alias_sign_def bytes_at_def)

lemma alias_flags_bits:
  "((if track then TX_EXTRA_TAG_ALIAS_FLAGS_ADDR_WITH_TRACK else 0) OR (if upd then TX_EXTRA_TAG_ALIAS_FLAGS_OP_UPDATE else 0))
     AND TX_EXTRA_TAG_ALIAS_FLAGS_ADDR_WITH_TRACK \<noteq> 0 \<longleftrightarrow> track"
  "((if track then TX_EXTRA_TAG_ALIAS_FLAGS_ADDR_WITH_TRACK else 0) OR (if upd then TX_EXTRA_TAG_ALIAS_FLAGS_OP_UPDATE else 0))
     AND TX_EXTRA_TAG_ALIAS_FLAGS_OP_UPDATE \<noteq> 0 \<longleftrightarrow> upd"
  by (simp_all add: extra_tags)

lemma alias_entry_put:
  assumes ok: "entry_ok (Alias al)" and ex: "ex = pre @ put_entry (Alias al) @ post" and start: "start = length pre"
  shows "parse_tx_extra_alias_entry ex start null_alias = Done (al, start + length (put_entry (Alias al)))"
proof -
  define track where "track = (m_view_key al \<noteq> null_skey)"
  define upd where "upd = (m_sign al \<noteq> null_sig)"
  define fl where "fl = (if track then TX_EXTRA_TAG_ALIAS_FLAGS_ADDR_WITH_TRACK else 0)
    OR (if upd then TX_EXTRA_TAG_ALIAS_FLAGS_OP_UPDATE else 0)"
  note bits = alias_flags_bits [of track upd, folded fl_def]
  let ?name = "m_alias al" and ?spend = "m_spend_public_key (m_address al)" and ?view = "m_view_public_key (m_address al)"
  let ?key = "if track then m_view_key al else []" and ?c = "m_text_comment al" and ?s = "if upd then m_sign al else []"
  have put: "put_entry (Alias al) = [TX_EXTRA_TAG_ALIAS, fl, word_of_nat (length ?name)] @ ?name @ ?spend @ ?view
      @ ?key @ word_of_nat (length ?c) # ?c @ ?s"
    using ok by (simp add: make_tx_extra_alias_entry_def Let_def track_def upd_def fl_def not_le)
  note ex = ex [unfolded put]
  let ?al1 = "null_alias\<lparr>m_alias := ?name, m_address := \<lparr>m_spend_public_key = ?spend, m_view_public_key = ?view\<rparr>\<rparr>"
  let ?al2 = "if track then ?al1\<lparr>m_view_key := m_view_key al\<rparr> else ?al1"
  let ?i1 = "start + 2 + 1 + length ?name + 64"
  let ?i2 = "?i1 + (if track then 32 else 0)"
  let ?i3 = "?i2 + 1 + length ?c"
  let ?a = "pre @ [TX_EXTRA_TAG_ALIAS, fl]"
  let ?b = "?a @ word_of_nat (length ?name) # ?name @ ?spend @ ?view"
  have "alias_address ex (start + 2) null_alias = Done (?al1, ?i1)"
    by (rule alias_address_put [where pre = ?a]) (use ok ex start in \<open>simp_all\<close>)
  moreover have "alias_track ex fl (?al1, ?i1) = Done (?al2, ?i2)"
    by (rule alias_track_put [where pre = ?b, OF _ _ _ bits(1)]) (use ok ex start in \<open>simp_all\<close>)
  moreover have "alias_comment ex (?al2, ?i2) = Done (?al2\<lparr>m_text_comment := ?c\<rparr>, ?i3)"
    by (rule alias_comment_put [where pre = "?b @ ?key"]) (use ok ex start in \<open>simp_all add: null_alias_def\<close>)
  moreover have "alias_sign ex fl (?al2\<lparr>m_text_comment := ?c\<rparr>, ?i3) =
      Done (if upd then ?al2\<lparr>m_text_comment := ?c, m_sign := m_sign al\<rparr> else ?al2\<lparr>m_text_comment := ?c\<rparr>,
        ?i3 + (if upd then 64 else 0))"
    by (rule alias_sign_put [where pre = "?b @ ?key @ word_of_nat (length ?c) # ?c", OF _ _ _ bits(2)])
      (use ok ex start in \<open>simp_all\<close>)
  moreover have "(if upd then ?al2\<lparr>m_text_comment := ?c, m_sign := m_sign al\<rparr> else ?al2\<lparr>m_text_comment := ?c\<rparr>) = al"
    by (simp add: null_alias_def track_def upd_def)
  moreover have "byte_at ex (start + 1) f = f fl" for f :: "u8 \<Rightarrow> (alias_info \<times> nat) outcome"
    by (rule byte_at_append [where pre = "pre @ [TX_EXTRA_TAG_ALIAS]"]) (use ex start in \<open>simp_all\<close>)
  moreover have "length ex - 1 - start \<ge> 32 * 2 + 1" using ok ex start by simp
  ultimately show ?thesis
    using ok unfolding put by (simp add: parse_tx_extra_alias_entry_def)
qed

fun entry_found :: "extra_entry \<Rightarrow> extra_flags \<Rightarrow> bool" where
  "entry_found (PubKey _) fl = tx_extra_tag_pubkey_found fl"
| "entry_found (UserData _) fl = tx_extra_user_data_found fl"
| "entry_found (Alias _) fl = tx_alias_found fl"

fun mark_entry :: "extra_entry \<Rightarrow> extra_flags \<Rightarrow> extra_flags" where
  "mark_entry (PubKey _) fl = fl\<lparr>tx_extra_tag_pubkey_found := True\<rparr>"
| "mark_entry (UserData _) fl = fl\<lparr>tx_extra_user_data_found := True\<rparr>"
| "mark_entry (Alias _) fl = fl\<lparr>tx_alias_found := True\<rparr>"

lemma extra_loop_pub_key:
  assumes "length k = 32" and "ex = pre @ (TX_EXTRA_TAG_PUBKEY # k) @ post" and "i = length pre"
    and "\<not> padding_started fl" and "\<not> tx_extra_tag_pubkey_found fl"
  shows "extra_loop ex i fl e = extra_loop ex (i + 33) (fl\<lparr>tx_extra_tag_pubkey_found := True\<rparr>) (e\<lparr>m_tx_pub_key := k\<rparr>)"
proof -
  have "ex ! i = TX_EXTRA_TAG_PUBKEY" "i < length ex" "32 \<le> length ex - 1 - i" "take 32 (drop (i + 1) ex) = k"
    using assms(1-3) by simp_all
  then show ?thesis using assms(4,5) by (subst extra_loop.simps) (simp add: add.commute)
qed

lemma extra_loop_user_data:
  assumes d: "length d \<le> 255" and ex: "ex = pre @ ([TX_EXTRA_TAG_USER_DATA, word_of_nat (length d)] @ d) @ post"
    and i: "i = length pre" and "\<not> padding_started fl" and "\<not> tx_extra_user_data_found fl" and e: "m_user_data_blob e = []"
  shows "extra_loop ex i fl e =
    extra_loop ex (i + (2 + length d)) (fl\<lparr>tx_extra_user_data_found := True\<rparr>) (e\<lparr>m_user_data_blob := d\<rparr>)"
proof -
  define b :: u8 where "b = word_of_nat (length d)"
  have b: "unat b = length d" using d by (simp add: b_def unat_u8_of_nat)
  then have "b = 0 \<longleftrightarrow> d = []" by (metis length_0_conv unat_eq_zero)
  moreover have "ex ! i = TX_EXTRA_TAG_USER_DATA" "ex ! (i + 1) = b" "i < length ex" "length ex - 1 - i \<ge> 1"
    "length ex - 1 - (i + 1) \<ge> length d" "take (length d) (drop (i + 1 + 1) ex) = d"
    using ex i by (simp_all add: b_def nth_append)
  moreover have "e\<lparr>m_user_data_blob := []\<rparr> = e" using e by simp
  ultimately show ?thesis
    using assms(4,5) by (subst extra_loop.simps) (simp add: Let_def b extra_tags)
qed

lemma extra_loop_alias:
  assumes ok: "entry_ok (Alias al)" and ex: "ex = pre @ put_entry (Alias al) @ post" and i: "i = length pre"
    and "\<not> padding_started fl" and "\<not> tx_alias_found fl" and e: "ei_alias e = null_alias"
  shows "extra_loop ex i fl e =
    extra_loop ex (i + length (put_entry (Alias al))) (fl\<lparr>tx_alias_found := True\<rparr>) (e\<lparr>ei_alias := al\<rparr>)"
proof -
  obtain rest where put: "put_entry (Alias al) = TX_EXTRA_TAG_ALIAS # rest"
    using ok by (simp add: make_tx_extra_alias_entry_def Let_def not_le)
  have "ex ! i = TX_EXTRA_TAG_ALIAS" "i < length ex" using i ex [unfolded put] by simp_all
  moreover have "parse_tx_extra_alias_entry ex i null_alias = Done (al, i + length (put_entry (Alias al)))"
    by (rule alias_entry_put [OF ok ex i])
  ultimately show ?thesis
    using assms(4,5) e by (subst extra_loop.simps) (simp add: extra_tags)
qed

lemma extra_loop_entry:
  assumes "entry_ok en" and "ex = pre @ put_entry en @ post" and "i = length pre"
    and "\<not> padding_started fl" and "\<not> entry_found en fl"
    and "\<not> tx_extra_user_data_found fl \<Longrightarrow> m_user_data_blob e = []" and "\<not> tx_alias_found fl \<Longrightarrow> ei_alias e = null_alias"
  shows "extra_loop ex i fl e = extra_loop ex (i + length (put_entry en)) (mark_entry en fl) (read_entry en e)"
proof (cases en)
  case (PubKey k)
  then show ?thesis using assms extra_loop_pub_key [of k ex pre post i fl e] by simp
next
  case (UserData d)
  then show ?thesis using assms extra_loop_user_data [of d ex pre post i fl e] by simp
next
  case (Alias al)
  then show ?thesis using assms extra_loop_alias [of al ex pre post i fl e] by simp
qed

lemma extra_loop_end: "extra_loop ex (length ex) fl e = Done e"
  by (subst extra_loop.simps) simp

lemma extra_loop_pad_step:
  assumes "padding_started fl" and "i < length ex" and "ex ! i = 0"
  shows "extra_loop ex i fl e = extra_loop ex (Suc i) fl e"
  using assms by (subst extra_loop.simps) simp

lemma extra_loop_padding:
  assumes "padding_started fl" and "\<forall>j. i \<le> j \<and> j < length ex \<longrightarrow> ex ! j = 0" and "i \<le> length ex"
  shows "extra_loop ex i fl e = Done e"
  using assms(3,2)
proof (induction rule: inc_induct)
  case base
  show ?case by (rule extra_loop_end)
next
  case (step j)
  then show ?case using extra_loop_pad_step [OF assms(1), of j ex e] by simp
qed

lemma extra_loop_zeros:
  assumes "ex = pre @ replicate n 0" and "i = length pre"
  shows "extra_loop ex i fl e = Done e"
proof -
  have z: "\<forall>j. i \<le> j \<and> j < length ex \<longrightarrow> ex ! j = 0" "i \<le> length ex" using assms by (auto simp: nth_append)
  show ?thesis
  proof (cases "padding_started fl \<or> i = length ex")
    case True
    then show ?thesis using z extra_loop_padding [of fl i ex e] extra_loop_end [of ex fl e] by auto
  next
    case False
    then have "i < length ex" "ex ! i = 0" using z by auto
    then have "extra_loop ex i fl e = extra_loop ex i (fl\<lparr>padding_started := True\<rparr>) e"
      using False by (subst extra_loop.simps) (simp add: extra_tags)
    also have "\<dots> = Done e" by (rule extra_loop_padding) (use z in simp_all)
    finally show ?thesis .
  qed
qed

lemma entry_found_mark: "entry_kind en' \<noteq> entry_kind en \<Longrightarrow> entry_found en' (mark_entry en fl) \<longleftrightarrow> entry_found en' fl"
  by (cases en; cases en') auto

lemma entry_effects:
  "padding_started (mark_entry en fl) = padding_started fl"
  "\<not> tx_extra_user_data_found (mark_entry en fl) \<Longrightarrow> m_user_data_blob (read_entry en e) = m_user_data_blob e \<and> \<not> tx_extra_user_data_found fl"
  "\<not> tx_alias_found (mark_entry en fl) \<Longrightarrow> ei_alias (read_entry en e) = ei_alias e \<and> \<not> tx_alias_found fl"
  by (cases en; simp)+

lemma extra_loop_entries:
  assumes "list_all entry_ok ens" and "distinct (map entry_kind ens)" and "\<not> padding_started fl"
    and "\<forall>en \<in> set ens. \<not> entry_found en fl"
    and "\<not> tx_extra_user_data_found fl \<Longrightarrow> m_user_data_blob e = []" and "\<not> tx_alias_found fl \<Longrightarrow> ei_alias e = null_alias"
    and "ex = pre @ concat (map put_entry ens) @ replicate n 0" and "i = length pre"
  shows "extra_loop ex i fl e = Done (fold read_entry ens e)"
  using assms
proof (induction ens arbitrary: pre i fl e)
  case Nil
  then show ?case by (simp add: extra_loop_zeros)
next
  case (Cons en ens)
  have "extra_loop ex i fl e = extra_loop ex (i + length (put_entry en)) (mark_entry en fl) (read_entry en e)"
    by (rule extra_loop_entry [where pre = pre]) (use Cons.prems in \<open>simp_all del: put_entry.simps\<close>)
  also have "\<dots> = Done (fold read_entry ens (read_entry en e))"
  proof (rule Cons.IH [where pre = "pre @ put_entry en"])
    show "\<forall>en' \<in> set ens. \<not> entry_found en' (mark_entry en fl)"
    proof
      fix en' assume "en' \<in> set ens"
      then have "entry_kind en' \<in> entry_kind ` set ens" "\<not> entry_found en' fl" using Cons.prems(4) by simp_all
      then have "entry_kind en' \<noteq> entry_kind en" "\<not> entry_found en' fl" using Cons.prems(2) by (simp_all, metis)
      then show "\<not> entry_found en' (mark_entry en fl)" by (simp add: entry_found_mark)
    qed
    show "m_user_data_blob (read_entry en e) = []" if "\<not> tx_extra_user_data_found (mark_entry en fl)"
      using entry_effects(2) [OF that] Cons.prems(5) by simp
    show "ei_alias (read_entry en e) = null_alias" if "\<not> tx_alias_found (mark_entry en fl)"
      using entry_effects(3) [OF that] Cons.prems(6) by simp
  qed (use Cons.prems(1-3,7,8) in \<open>simp_all add: entry_effects(1) del: put_entry.simps\<close>)
  finally show ?case by simp
qed

text \<open>What is built from entries of different kinds is parsed back, whatever the padding.\<close>

lemma parse_built_entries:
  assumes "list_all entry_ok ens" and "distinct (map entry_kind ens)"
    and "extra tx = concat (map put_entry ens) @ replicate n 0"
  shows "parse_and_validate_tx_extra acc tx null_extra =
    (if check_make_alias_tx acc tx (fold read_entry ens null_extra) then Done (fold read_entry ens null_extra)
     else Refused (fold read_entry ens null_extra))"
proof -
  have "extra_loop (extra tx) 0 no_flags null_extra = Done (fold read_entry ens null_extra)"
  proof (rule extra_loop_entries [where pre = "[]"])
    show "\<forall>en \<in> set ens. \<not> entry_found en no_flags" by (auto simp: no_flags_def elim: entry_found.elims)
  qed (use assms in \<open>simp_all add: no_flags_def null_extra_def\<close>)
  moreover have "null_extra\<lparr>m_tx_pub_key := null_pkey\<rparr> = null_extra" by (simp add: null_extra_def)
  ultimately show ?thesis by (simp add: parse_and_validate_tx_extra_def)
qed

lemma parse_built_extra:
  assumes "list_all entry_ok ens" and "distinct (map entry_kind ens)"
    and "extra tx = concat (map put_entry ens) @ replicate n 0"
    and "check_make_alias_tx acc tx (fold read_entry ens null_extra)"
  shows "parse_and_validate_tx_extra acc tx null_extra = Done (fold read_entry ens null_extra)"
  using parse_built_entries [OF assms(1-3)] assms(4) by simp

section \<open>Memory safety\<close>

text \<open>Without an alias entry no read is out of bounds.\<close>

lemma extra_loop_safe:
  "TX_EXTRA_TAG_ALIAS \<notin> set ex \<Longrightarrow> i \<le> length ex \<Longrightarrow> extra_loop ex i fl e \<noteq> OutOfBounds"
proof (induction ex i fl e rule: extra_loop.induct)
  case (1 ex i fl e)
  show ?case
  proof (cases "i = length ex")
    case True
    then show ?thesis by (simp add: extra_loop_end)
  next
    case False
    then have i: "i < length ex" using "1.prems" by simp
    then have tag: "ex ! i \<noteq> TX_EXTRA_TAG_ALIAS" using "1.prems" nth_mem [OF i] by metis
    show ?thesis
      by (subst extra_loop.simps) (use "1.IH" "1.prems" i tag in \<open>auto simp: Let_def\<close>)
  qed
qed

lemma parse_extra_safe:
  assumes "TX_EXTRA_TAG_ALIAS \<notin> set (extra tx)"
  shows "parse_and_validate_tx_extra acc tx e \<noteq> OutOfBounds"
proof -
  have "extra_loop (extra tx) 0 no_flags (e\<lparr>m_tx_pub_key := null_pkey\<rparr>) \<noteq> OutOfBounds"
    using assms by (intro extra_loop_safe) simp_all
  then show ?thesis
    by (cases "extra_loop (extra tx) 0 no_flags (e\<lparr>m_tx_pub_key := null_pkey\<rparr>)") (auto simp: parse_and_validate_tx_extra_def)
qed

text \<open>
  An alias entry that ends with the address, one whose comment lacks its last byte, and one whose
  signature is cut off after 32 bytes.
\<close>

definition alias_cut_comment_len :: bytes where
  "alias_cut_comment_len = [TX_EXTRA_TAG_ALIAS, 0, 1, 97] @ replicate 64 7"

definition alias_cut_comment :: bytes where
  "alias_cut_comment = [TX_EXTRA_TAG_ALIAS, 0, 1, 97] @ replicate 64 7 @ [3, 97, 98]"

definition alias_cut_sign :: bytes where
  "alias_cut_sign = [TX_EXTRA_TAG_ALIAS, TX_EXTRA_TAG_ALIAS_FLAGS_OP_UPDATE, 1, 97] @ replicate 64 7 @ [0] @ replicate 32 7"

lemma alias_out_of_bounds:
  "parse_and_validate_tx_extra acc (sample_tx\<lparr>extra := alias_cut_comment_len\<rparr>) e = OutOfBounds"
  "parse_and_validate_tx_extra acc (sample_tx\<lparr>extra := alias_cut_comment\<rparr>) e = OutOfBounds"
  "parse_and_validate_tx_extra acc (sample_tx\<lparr>extra := alias_cut_sign\<rparr>) e = OutOfBounds"
  by (simp_all add: parse_and_validate_tx_extra_def extra_loop.simps no_flags_def alias_cut_comment_len_def
      alias_cut_comment_def alias_cut_sign_def parse_tx_extra_alias_entry_def alias_address_def alias_track_def
      alias_comment_def alias_sign_def byte_at_def bytes_at_def extra_tags nth_append Let_def)

section \<open>Payment ids\<close>

lemma unat_scast_u8: "unat b \<le> unat (scast b :: u64)" for b :: u8
proof -
  have "b = ucast (scast b :: u64)" by (rule bit_word_eqI) (simp add: bit_unsigned_iff bit_signed_iff)
  moreover have "unat (ucast (scast b :: u64) :: u8) \<le> unat (scast b :: u64)"
    by (simp only: unsigned_ucast_eq take_bit_eq_mod mod_less_eq_dividend)
  ultimately show ?thesis by metis
qed

lemma get_payment_id_built:
  assumes "length pid < 250"
  shows "get_payment_id_from_user_data ([TX_USER_DATA_TAG_PAYMENT_ID, word_of_nat (length pid)] @ pid) = Some pid"
proof -
  define b :: u8 where "b = word_of_nat (length pid)"
  have "unat b = length pid" using assms by (simp add: b_def unat_of_nat)
  then have "length pid \<le> unat (scast b :: u64)" using unat_scast_u8 [of b] by simp
  then show ?thesis by (simp add: get_payment_id_from_user_data_def flip: b_def)
qed

lemma check_make_alias_tx_user_data:
  "check_make_alias_tx acc tx (e\<lparr>m_user_data_blob := d\<rparr>) = check_make_alias_tx acc tx e"
  by (cases acc) (simp_all add: check_make_alias_tx_def)

text \<open>A payment id that was set is the one that is read.\<close>

lemma payment_id_read_back:
  assumes "list_all entry_ok ens" and "distinct (map entry_kind ens)" and "1 \<notin> set (map entry_kind ens)"
    and "set_payment_id_to_tx_extra (concat (map put_entry ens)) pid = Some (extra tx)"
    and "check_make_alias_tx acc tx (fold read_entry ens null_extra)"
  shows "get_payment_id_from_tx_extra acc tx = Done (Some pid)"
proof -
  let ?d = "[TX_USER_DATA_TAG_PAYMENT_ID, word_of_nat (length pid)] @ pid"
  let ?ens = "ens @ [UserData ?d]"
  have pid: "0 < length pid" "length pid < 250"
    and ex: "extra tx = concat (map put_entry ?ens) @ replicate 0 0"
    using assms(4) by (auto simp: set_payment_id_to_tx_extra_def TX_MAX_PAYMENT_ID_SIZE_def split: if_splits)
  let ?e = "fold read_entry ?ens null_extra"
  have "parse_and_validate_tx_extra acc tx null_extra = Done ?e"
  proof (rule parse_built_extra [OF _ _ ex])
    show "check_make_alias_tx acc tx ?e" using assms(5) by (simp add: check_make_alias_tx_user_data)
  qed (use assms(1-3) pid in simp_all)
  then show ?thesis
    using get_payment_id_built [OF pid(2)] by (simp add: get_payment_id_from_tx_extra_def)
qed

text \<open>An alias with all its optional parts: the view key, the comment and the signature.\<close>

definition sample_alias :: alias_info where
  "sample_alias = \<lparr>m_address = \<lparr>m_spend_public_key = replicate 32 1, m_view_public_key = replicate 32 2\<rparr>, m_view_key = replicate 32 3,
     m_sign = replicate 64 4, m_text_comment = [104, 105], m_alias = [97, 98, 99]\<rparr>"

definition sample_entries :: "extra_entry list" where
  "sample_entries = [UserData [8, 9], Alias sample_alias, PubKey (replicate 32 5)]"

text \<open>C32: An extra field built from entries of different kinds (key, user data, alias with its optional parts)
  of lengths that fit their length bytes, in any order and with any padding, is read back to exactly these
  entries; the call then succeeds exactly when \<open>check_make_alias_tx\<close> accepts them for the
  transaction, and is refused with the entries read otherwise.\<close>

theorem tx_extra_roundtrip:
  assumes "list_all entry_ok ens" and "distinct (map entry_kind ens)"
    and "extra tx = concat (map put_entry ens) @ replicate n 0"
  shows "parse_and_validate_tx_extra acc tx null_extra =
    (if check_make_alias_tx acc tx (fold read_entry ens null_extra) then Done (fold read_entry ens null_extra)
     else Refused (fold read_entry ens null_extra))"
  using parse_built_entries [OF assms] .

theorem tx_extra_roundtrip_witness:
  "parse_and_validate_tx_extra None (sample_tx\<lparr>vin := [TxinGen 0], extra := concat (map put_entry sample_entries) @ [0, 0, 0]\<rparr>) null_extra
     = Done \<lparr>m_tx_pub_key = replicate 32 5, ei_alias = sample_alias, m_user_data_blob = [8, 9]\<rparr>
   \<and> parse_and_validate_tx_extra None (sample_tx\<lparr>vin := [], extra := concat (map put_entry sample_entries) @ [0, 0, 0]\<rparr>) null_extra
     = Refused \<lparr>m_tx_pub_key = replicate 32 5, ei_alias = sample_alias, m_user_data_blob = [8, 9]\<rparr>"
proof -
  have ok: "list_all entry_ok sample_entries" "distinct (map entry_kind sample_entries)"
    by (simp_all add: sample_entries_def sample_alias_def)
  have e: "fold read_entry sample_entries null_extra = \<lparr>m_tx_pub_key = replicate 32 5, ei_alias = sample_alias, m_user_data_blob = [8, 9]\<rparr>"
    by (simp add: sample_entries_def null_extra_def)
  have "replicate 3 0 = [0, 0, 0 :: u8]" by (simp add: numeral_3_eq_3)
  then have parse: "parse_and_validate_tx_extra None (sample_tx\<lparr>vin := ins, extra := concat (map put_entry sample_entries) @ [0, 0, 0]\<rparr>) null_extra
      = (if check_make_alias_tx None (sample_tx\<lparr>vin := ins, extra := concat (map put_entry sample_entries) @ [0, 0, 0]\<rparr>) (fold read_entry sample_entries null_extra)
         then Done (fold read_entry sample_entries null_extra) else Refused (fold read_entry sample_entries null_extra))" for ins
    using tx_extra_roundtrip [OF ok, of "sample_tx\<lparr>vin := ins, extra := concat (map put_entry sample_entries) @ [0, 0, 0]\<rparr>" 3 None] by simp
  have "check_make_alias_tx None (sample_tx\<lparr>vin := [TxinGen 0], extra := x\<rparr>) y" for x y by (simp add: check_make_alias_tx_def is_coinbase_def)
  moreover have "\<not> check_make_alias_tx None (sample_tx\<lparr>vin := [], extra := x\<rparr>) \<lparr>m_tx_pub_key = k, ei_alias = sample_alias, m_user_data_blob = d\<rparr>" for x k d
    by (simp add: check_make_alias_tx_def is_coinbase_def sample_alias_def)
  ultimately show ?thesis unfolding parse unfolding e by simp
qed

theorem tx_extra_out_of_bounds:
  "list_all (\<lambda>ex. parse_and_validate_tx_extra acc (sample_tx\<lparr>extra := ex\<rparr>) null_extra = OutOfBounds)
    [alias_cut_comment_len, alias_cut_comment, alias_cut_sign]"
  by (simp add: alias_out_of_bounds)

end
