(* ===== verification/BlockId.thy ===== *)
theory BlockId
  imports TxFormat
begin

text \<open>
  What the identifier of a block determines: \<open>get_block_hash\<close> of \<open>src/currency_core/currency_format_utils.cpp\<close>
  hashes the header, the root of the tree over the transaction identifiers and their number. Two blocks
  with the same identifier agree in all of these, or two of the strings hashed on the way collide.
\<close>

section \<open>What a block id commits to\<close>

fun tree_depth :: "nat \<Rightarrow> nat" where
  "tree_depth n = (if n \<le> 2 then 0 else Suc (tree_depth ((n + 1) div 2)))"

declare tree_depth.simps [simp del]

lemma tree_depth_interval: "2 \<le> n \<Longrightarrow> 2 ^ tree_depth n < n \<and> n \<le> 2 * 2 ^ tree_depth n"
proof (induction n rule: tree_depth.induct)
  case (1 n)
  show ?case
  proof (cases "n = 2")
    case True
    then show ?thesis by (simp add: tree_depth.simps)
  next
    case False
    then have "\<not> n \<le> 2" "2 \<le> (n + 1) div 2" using "1.prems" by presburger+
    with "1.IH" have "2 ^ tree_depth ((n + 1) div 2) < (n + 1) div 2" "(n + 1) div 2 \<le> 2 * 2 ^ tree_depth ((n + 1) div 2)"
      by blast+
    then show ?thesis using \<open>\<not> n \<le> 2\<close> by (subst (1 2) tree_depth.simps) auto
  qed
qed

text \<open>The strings that are hashed in the computation of the id of a block.\<close>

definition block_tx_ids :: "block \<Rightarrow> hash list" where
  "block_tx_ids b = get_transaction_hash (miner_tx b) # tx_hashes b"

definition block_hash_inputs :: "block \<Rightarrow> bytes list" where
  "block_hash_inputs b =
    [write_varint (word_of_nat (length (get_block_hashing_blob b))) @ get_block_hashing_blob b,
     snd (put_transaction_prefix (miner_tx b))]
    @ tree_inputs (tree_depth (length (block_tx_ids b))) (block_tx_ids b)"

lemma hash_or_collision:
  "cn_fast_hash x = cn_fast_hash y \<Longrightarrow> x \<in> S \<Longrightarrow> y \<in> S \<Longrightarrow> x = y \<or> hash_collision S"
  by (auto simp: hash_collision_def)

lemma hash_collision_mono: "hash_collision S \<Longrightarrow> S \<subseteq> U \<Longrightarrow> hash_collision U"
  unfolding hash_collision_def by blast

lemma tree_hash_list_commits:
  assumes "length xs = length ys" and "hashes_ok xs" and "hashes_ok ys" and "xs \<noteq> []" and "length xs < 2 ^ 63"
    and "tree_hash xs = tree_hash ys"
    and "set (tree_inputs (tree_depth (length xs)) xs @ tree_inputs (tree_depth (length ys)) ys) \<subseteq> S"
  shows "xs = ys \<or> hash_collision S"
proof (cases "length xs = 1")
  case True
  then show ?thesis using assms by (cases xs; cases ys) (auto simp: tree_hash_def)
next
  case False
  moreover have "length xs \<noteq> 0" using assms(4) by simp
  ultimately have "2 \<le> length xs" by linarith
  note d = tree_depth_interval [OF this]
  let ?d = "tree_depth (length xs)"
  have "(tree_hash xs = tree_hash ys \<longleftrightarrow> xs = ys) \<or> hash_collision (set (tree_inputs ?d xs @ tree_inputs ?d ys))"
    by (rule tree_hash_commits) (use d assms in simp_all)
  then show ?thesis using assms(1,6,7) hash_collision_mono [of "set (tree_inputs ?d xs @ tree_inputs ?d ys)" S] by metis
qed

lemma get_block_header_prefix:
  assumes "block_ok b"
  shows "get_block_header (snd (put_block_header b) @ rest) = Some (block_header.truncate b, rest)"
  using block_header.get_put [of "block_header.truncate b" rest] assms
  by (simp add: put_block_header_truncate block_ok_def) (simp add: block_header.truncate_def)

lemma length_tree_hash:
  assumes "hashes_ok xs" and "xs \<noteq> []" and "length xs < 2 ^ 63"
  shows "length (tree_hash xs) = 32"
proof (cases "length xs = 1")
  case True
  then show ?thesis using assms by (cases xs) (auto simp: tree_hash_def hashes_ok_def)
next
  case False
  moreover have "length xs \<noteq> 0" using assms(2) by simp
  ultimately have "2 \<le> length xs" by linarith
  note d = tree_depth_interval [OF this]
  let ?d = "tree_depth (length xs)"
  have "length (tree_leaves ?d xs) = 2 ^ ?d" using d by (auto simp: tree_leaves_def Let_def length_pairs)
  moreover have "hashes_ok (tree_leaves ?d xs)"
    using assms(1) by (simp add: tree_leaves_def Let_def hashes_ok_append hashes_ok_take hashes_ok_pairs)
  ultimately show ?thesis using d assms(3) tree_hash_merkle [of ?d xs] length_merkle [of "tree_leaves ?d xs" ?d] by simp
qed

lemma write_varint_append_inject: "write_varint v @ xs = write_varint w @ ys \<longleftrightarrow> v = w \<and> xs = ys"
proof
  assume "write_varint v @ xs = write_varint w @ ys"
  then have "read_varint (write_varint v @ xs) = read_varint (write_varint w @ ys)" by (rule arg_cong)
  then show "v = w \<and> xs = ys" unfolding read_varint_write by simp
qed simp

lemma block_tx_ids_ok:
  "block_ok b \<Longrightarrow> hashes_ok (block_tx_ids b)"
  by (auto simp: block_ok_def hashes_ok_def block_tx_ids_def get_transaction_hash_def get_blob_hash_def list_all_iff)

lemma block_hashing_blob_eq:
  assumes ok: "block_ok b" "block_ok b'" and eq: "get_block_hashing_blob b = get_block_hashing_blob b'"
    and small: "length (block_tx_ids b) < 2 ^ 63" "length (block_tx_ids b') < 2 ^ 63"
  shows "block_header.truncate b = block_header.truncate b'" and "tree_hash (block_tx_ids b) = tree_hash (block_tx_ids b')"
    and "length (block_tx_ids b) = length (block_tx_ids b')"
proof -
  let ?n = "\<lambda>b. word_of_nat (length (tx_hashes b)) + 1 :: u64"
  have rest: "block_header.truncate b = block_header.truncate b'
      \<and> get_tx_tree_hash b @ write_varint (?n b) = get_tx_tree_hash b' @ write_varint (?n b')"
    using eq get_block_header_prefix [OF ok(1)] get_block_header_prefix [OF ok(2)]
    unfolding get_block_hashing_blob_def get_varint_data_def by (metis Pair_inject option.inject)
  have tree: "get_tx_tree_hash c = tree_hash (block_tx_ids c)" for c
    by (simp add: get_tx_tree_hash_def block_tx_ids_def)
  have len: "length (get_tx_tree_hash b) = 32" "length (get_tx_tree_hash b') = 32"
    unfolding tree using length_tree_hash [OF block_tx_ids_ok] ok small by (simp_all add: block_tx_ids_def)
  show "block_header.truncate b = block_header.truncate b'" using rest by blast
  show "tree_hash (block_tx_ids b) = tree_hash (block_tx_ids b')" using rest len by (simp add: tree)
  have "write_varint (?n b) @ [] = write_varint (?n b') @ []" using rest len by simp
  then have "?n b = ?n b'" by (simp only: write_varint_append_inject)
  then have "unat (word_of_nat (length (tx_hashes b)) :: u64) = unat (word_of_nat (length (tx_hashes b')) :: u64)" by simp
  then show "length (block_tx_ids b) = length (block_tx_ids b')"
    using small by (simp add: unat_of_nat_small block_tx_ids_def)
qed

lemma block_hash_commits:
  assumes ok: "block_ok b" "block_ok b'" and eq: "get_block_hash b = get_block_hash b'"
    and small: "length (block_tx_ids b) < 2 ^ 63" "length (block_tx_ids b') < 2 ^ 63"
  shows "(block_header.truncate b = block_header.truncate b' \<and> tx_hashes b = tx_hashes b'
      \<and> transaction_prefix.truncate (miner_tx b) = transaction_prefix.truncate (miner_tx b'))
    \<or> hash_collision (set (block_hash_inputs b @ block_hash_inputs b'))" (is "?goal \<or> hash_collision ?S")
proof (rule disjCI)
  assume no: "\<not> hash_collision ?S"
  let ?str = "\<lambda>b. write_varint (word_of_nat (length (get_block_hashing_blob b))) @ get_block_hashing_blob b"
  have "?str b = ?str b'"
    using hash_or_collision [of "?str b" "?str b'" ?S] eq no
    by (auto simp: get_block_hash_def get_blob_hash_def block_hash_inputs_def Let_def)
  then have "get_block_hashing_blob b = get_block_hashing_blob b'" by (simp only: write_varint_append_inject)
  note blob = block_hashing_blob_eq [OF ok this small]
  have "set (tree_inputs (tree_depth (length (block_tx_ids b))) (block_tx_ids b)
      @ tree_inputs (tree_depth (length (block_tx_ids b'))) (block_tx_ids b')) \<subseteq> ?S"
    by (auto simp: block_hash_inputs_def)
  then have ids: "block_tx_ids b = block_tx_ids b'"
    using tree_hash_list_commits [OF blob(3) block_tx_ids_ok block_tx_ids_ok _ small(1) blob(2)] ok no
    by (auto simp: block_tx_ids_def)
  let ?p = "\<lambda>b. snd (put_transaction_prefix (miner_tx b))"
  have "cn_fast_hash (?p b) = cn_fast_hash (?p b')"
    using ids by (simp add: block_tx_ids_def get_transaction_hash_def get_blob_hash_def)
  then have "?p b = ?p b'" using hash_or_collision [of "?p b" "?p b'" ?S] no by (auto simp: block_hash_inputs_def)
  then have "transaction_prefix.truncate (miner_tx b) = transaction_prefix.truncate (miner_tx b')"
    using get_transaction_prefix_put [of "miner_tx b" "[]"] get_transaction_prefix_put [of "miner_tx b'" "[]"] ok
    by (simp add: block_ok_def transaction_ok_def)
  then show ?goal using blob(1) ids by (simp add: block_tx_ids_def)
qed

section \<open>Property\<close>

text \<open>C29: Two well-formed blocks with the same id have the same header, the same transaction hashes and the
  same miner transaction up to its signatures, unless two of the strings hashed on the way collide.\<close>

theorem block_id_commits:
  assumes "block_ok b" and "block_ok b'" and "get_block_hash b = get_block_hash b'"
    and "length (block_tx_ids b) < 2 ^ 63" and "length (block_tx_ids b') < 2 ^ 63"
  shows "(block_header.truncate b = block_header.truncate b' \<and> tx_hashes b = tx_hashes b'
      \<and> transaction_prefix.truncate (miner_tx b) = transaction_prefix.truncate (miner_tx b'))
    \<or> hash_collision (set (block_hash_inputs b @ block_hash_inputs b'))"
  using assms by (rule block_hash_commits)

theorem block_id_commits_witness:
  "(block_header.truncate sample_block = block_header.truncate (sample_block\<lparr>miner_tx := sample_tx\<lparr>signatures := []\<rparr>\<rparr>)
      \<and> tx_hashes sample_block = tx_hashes (sample_block\<lparr>miner_tx := sample_tx\<lparr>signatures := []\<rparr>\<rparr>)
      \<and> transaction_prefix.truncate (miner_tx sample_block) = transaction_prefix.truncate (sample_tx\<lparr>signatures := []\<rparr>))
    \<or> hash_collision (set (block_hash_inputs sample_block @ block_hash_inputs (sample_block\<lparr>miner_tx := sample_tx\<lparr>signatures := []\<rparr>\<rparr>)))"
proof -
  let ?b = "sample_block\<lparr>miner_tx := sample_tx\<lparr>signatures := []\<rparr>\<rparr>"
  have ok: "block_ok sample_block"
    by (simp add: block_ok_def sample_block_def sample_tx_ok CURRENT_BLOCK_MAJOR_VERSION_def)
  moreover have "block_ok ?b"
    using ok by (simp add: block_ok_def sample_block_def transaction_ok_def prefix_ok_def)
  moreover have "get_block_hash sample_block = get_block_hash ?b"
    by (simp add: get_block_hash_def get_block_hashing_blob_def get_tx_tree_hash_def get_transaction_hash_def
      put_transaction_prefix_def put_block_header_def sample_block_def)
  moreover have "length (block_tx_ids sample_block) < 2 ^ 63" "length (block_tx_ids ?b) < 2 ^ 63"
    by (simp_all add: block_tx_ids_def sample_block_def)
  ultimately show ?thesis using block_id_commits [of sample_block ?b] by simp
qed

end
