(* ===== verification/Scratchpad.thy ===== *)
theory Scratchpad
  imports TxExtra BlockId Hex
begin

text \<open>
  The scratchpad of the proof of work: the functions of \<open>src/currency_core/currency_format_utils.cpp\<close> that
  append the data of a block to the vector of hashes and take it back. Every new entry changes, by exclusive
  or, one older entry that it selects. \<open>None\<close> stands for an access outside of a vector.
\<close>

section \<open>Definitions\<close>

text \<open>\<open>xor_pod\<close> works on words of 64 bits, which is the same as on bytes.\<close>

definition xor_pod :: "hash \<Rightarrow> hash \<Rightarrow> hash" where
  "xor_pod a b = map2 (XOR) a b"

definition hash_together :: "bytes \<Rightarrow> bytes \<Rightarrow> hash" where
  "hash_together a b = cn_fast_hash (a @ b)"

text \<open>A \<open>std::map\<close> as the list of its entries in the order of the keys.\<close>

type_synonym patch = "(u64 \<times> hash) list"

definition patch_at :: "patch \<Rightarrow> u64 \<Rightarrow> hash" where
  "patch_at p k = (case map_of p k of None \<Rightarrow> null_hash | Some h \<Rightarrow> h)"

fun patch_update :: "u64 \<Rightarrow> hash \<Rightarrow> patch \<Rightarrow> patch" where
  "patch_update k v [] = [(k, v)]"
| "patch_update k v ((k', v') # p) =
    (if k < k' then (k, v) # (k', v') # p
     else if k = k' then (k, v) # p
     else (k', v') # patch_update k v p)"

text \<open>The entries from \<open>local_start_entry\<close> to \<open>local_end_entry\<close> are given as a list.\<close>

definition get_scratchpad_patch :: "u64 \<Rightarrow> hash list \<Rightarrow> patch \<Rightarrow> patch" where
  "get_scratchpad_patch global_start_entry entries patch =
    (if global_start_entry = 0 then patch
     else foldl (\<lambda>patch h. let rnd_upd_ind = load_word (take 8 h) mod global_start_entry
            in patch_update rnd_upd_ind (xor_pod (patch_at patch rnd_upd_ind) h) patch) patch entries)"

fun apply_scratchpad_patch :: "hash list \<Rightarrow> patch \<Rightarrow> hash list option" where
  "apply_scratchpad_patch scratchpd [] = Some scratchpd"
| "apply_scratchpad_patch scratchpd ((k, h) # p) =
    (if unat k < length scratchpd
     then apply_scratchpad_patch (scratchpd[unat k := xor_pod (scratchpd ! unat k) h]) p
     else None)"

fun addendum_outs :: "hash \<Rightarrow> tx_out list \<Rightarrow> hash list \<Rightarrow> bool \<times> hash list" where
  "addendum_outs prev [] res = (True, res)"
| "addendum_outs prev (out # outs) res =
    (case o_target out of
       TxoutToKey k \<Rightarrow> addendum_outs prev outs (res @ [hash_together prev (tk_key k)])
     | _ \<Rightarrow> (False, res))"

text \<open>The entries are appended to \<open>res\<close>, also when the result is \<open>False\<close>.\<close>

definition get_block_scratchpad_addendum ::
  "(txout_to_key \<Rightarrow> public_key \<Rightarrow> nat \<Rightarrow> bool) option \<Rightarrow> block \<Rightarrow> hash list \<Rightarrow> (bool \<times> hash list) option" where
  "get_block_scratchpad_addendum acc b res =
    (let res = (if get_block_height b \<noteq> 0 then res @ [prev_id b] else res)
     in case parse_tx_pub_key acc (miner_tx b) of
          None \<Rightarrow> None
        | Some (r, tx_pub) \<Rightarrow>
            if \<not> r then Some (False, res)
            else Some (addendum_outs (prev_id b) (vout (miner_tx b)) (res @ [tx_pub, get_tx_tree_hash b])))"

text \<open>The result of \<open>get_block_scratchpad_addendum\<close> is ignored; the return value is always \<open>true\<close>.\<close>

definition push_block_scratchpad_patch ::
  "(txout_to_key \<Rightarrow> public_key \<Rightarrow> nat \<Rightarrow> bool) option \<Rightarrow> u64 \<Rightarrow> block \<Rightarrow> hash list \<Rightarrow> patch
    \<Rightarrow> (bool \<times> hash list \<times> patch) option" where
  "push_block_scratchpad_patch acc global_start_entry b scratchpd patch =
    (let start_offset = length scratchpd
     in case get_block_scratchpad_addendum acc b scratchpd of
          None \<Rightarrow> None
        | Some (_, scratchpd) \<Rightarrow>
            Some (True, scratchpd, get_scratchpad_patch global_start_entry (drop start_offset scratchpd) patch))"

definition push_block_scratchpad_data ::
  "(txout_to_key \<Rightarrow> public_key \<Rightarrow> nat \<Rightarrow> bool) option \<Rightarrow> block \<Rightarrow> hash list \<Rightarrow> (bool \<times> hash list) option" where
  "push_block_scratchpad_data acc b scratchpd =
    (let inital_sz = length scratchpd
     in case push_block_scratchpad_patch acc (word_of_nat (length scratchpd)) b scratchpd [] of
          None \<Rightarrow> None
        | Some (r, scratchpd, patch) \<Rightarrow>
            if \<not> r then Some (False, take inital_sz scratchpd)
            else map_option (Pair True) (apply_scratchpad_patch scratchpd patch))"

text \<open>The last \<open>resize\<close> throws when the size wraps around.\<close>

definition pop_block_scratchpad_data ::
  "(txout_to_key \<Rightarrow> public_key \<Rightarrow> nat \<Rightarrow> bool) option \<Rightarrow> block \<Rightarrow> hash list \<Rightarrow> (bool \<times> hash list) option" where
  "pop_block_scratchpad_data acc b scratchpd =
    (case get_block_scratchpad_addendum acc b [] of
       None \<Rightarrow> None
     | Some (r, addendum) \<Rightarrow>
         if \<not> r then Some (False, scratchpd)
         else let patch = get_scratchpad_patch (word_of_nat (length scratchpd) - word_of_nat (length addendum)) addendum []
              in case apply_scratchpad_patch scratchpd patch of
                   None \<Rightarrow> None
                 | Some scratchpd \<Rightarrow>
                     if length addendum \<le> length scratchpd
                     then Some (True, take (length scratchpd - length addendum) scratchpd) else None)"

definition addendum_to_hexstr :: "hash list \<Rightarrow> bytes" where
  "addendum_to_hexstr add = concat (map buff_to_hex_nodelimer add)"

section \<open>Exclusive or\<close>

abbreviation hash_ok :: "hash \<Rightarrow> bool" where
  "hash_ok h \<equiv> length h = 32"

lemma length_xor_pod [simp]: "hash_ok a \<Longrightarrow> hash_ok b \<Longrightarrow> hash_ok (xor_pod a b)"
  by (simp add: xor_pod_def)

lemma xor_pod_cancel [simp]: "length a = length b \<Longrightarrow> xor_pod (xor_pod a b) b = a"
  by (rule nth_equalityI) (simp_all add: xor_pod_def xor.assoc)

section \<open>Patches\<close>

lemma patch_keys_update: "fst ` set (patch_update k v p) = insert k (fst ` set p)"
  by (induction k v p rule: patch_update.induct) (simp_all add: insert_commute)

lemma patch_update_entries: "(a, h) \<in> set (patch_update k v p) \<Longrightarrow> (a, h) = (k, v) \<or> (a, h) \<in> set p"
  by (induction p) (auto split: if_splits)

lemma sorted_patch_update: "sorted_wrt (<) (map fst p) \<Longrightarrow> sorted_wrt (<) (map fst (patch_update k v p))"
proof (induction p)
  case (Cons a p)
  have "x \<in> fst ` set (patch_update k v p) \<Longrightarrow> x = k \<or> x \<in> fst ` set p" for x
    using patch_keys_update [of k v p] by auto
  with Cons show ?case by (cases a) fastforce
qed simp

text \<open>A patch below \<open>n\<close>: distinct keys below \<open>n\<close>, entries of the size of a hash.\<close>

definition patch_ok :: "nat \<Rightarrow> patch \<Rightarrow> bool" where
  "patch_ok n p \<longleftrightarrow> sorted_wrt (<) (map fst p) \<and> list_all (\<lambda>(k, h). unat k < n \<and> hash_ok h) p"

lemma patch_at_ok: "patch_ok n p \<Longrightarrow> hash_ok (patch_at p k)"
  by (auto simp: patch_ok_def patch_at_def list_all_iff null_hash_def split: option.splits dest!: map_of_SomeD)

lemma patch_update_ok: "patch_ok n p \<Longrightarrow> unat k < n \<Longrightarrow> hash_ok v \<Longrightarrow> patch_ok n (patch_update k v p)"
  unfolding patch_ok_def list_all_iff by (auto simp: sorted_patch_update dest!: patch_update_entries)

lemma get_scratchpad_patch_ok:
  assumes "patch_ok (unat g) p" and "list_all hash_ok entries"
  shows "patch_ok (unat g) (get_scratchpad_patch g entries p)"
proof (cases "g = 0")
  case True
  then show ?thesis using assms by (simp add: get_scratchpad_patch_def)
next
  case False
  then have "unat (x mod g) < unat g" for x by (simp add: unat_mod_word unat_gt_0)
  then have "list_all hash_ok entries \<Longrightarrow> patch_ok (unat g) p \<Longrightarrow>
      patch_ok (unat g) (foldl (\<lambda>patch h. let rnd_upd_ind = load_word (take 8 h) mod g
        in patch_update rnd_upd_ind (xor_pod (patch_at patch rnd_upd_ind) h) patch) p entries)" for p
    by (induction entries arbitrary: p) (simp_all add: Let_def patch_update_ok patch_at_ok)
  then show ?thesis using assms False by (simp add: get_scratchpad_patch_def)
qed

lemma apply_patch_append:
  "list_all (\<lambda>(k, h). unat k < length s) p \<Longrightarrow>
    apply_scratchpad_patch (s @ t) p = map_option (\<lambda>s'. s' @ t) (apply_scratchpad_patch s p)"
  by (induction p arbitrary: s) (auto simp: list_update_append nth_append)

lemma apply_patch_total:
  "list_all (\<lambda>(k, h). unat k < length s) p \<Longrightarrow> \<exists>s'. apply_scratchpad_patch s p = Some s' \<and> length s' = length s"
proof (induction p arbitrary: s)
  case (Cons a p)
  obtain k h where "a = (k, h)" by (cases a)
  then show ?case using Cons.IH [of "s[unat k := xor_pod (s ! unat k) h]"] Cons.prems by simp
qed simp

lemma apply_patch_nth:
  assumes "apply_scratchpad_patch s p = Some s'" and "distinct (map fst p)" and "i < length s" and "length s < 2 ^ 64"
  shows "s' ! i = (case map_of p (word_of_nat i) of None \<Rightarrow> s ! i | Some h \<Rightarrow> xor_pod (s ! i) h)"
  using assms
proof (induction p arbitrary: s)
  case (Cons a p)
  obtain k h where a: "a = (k, h)" by (cases a)
  have i: "unat (word_of_nat i :: u64) = i" using Cons.prems by (intro unat_of_nat_small) simp
  have "s' ! i = (case map_of p (word_of_nat i) of None \<Rightarrow> s[unat k := xor_pod (s ! unat k) h] ! i
      | Some h' \<Rightarrow> xor_pod (s[unat k := xor_pod (s ! unat k) h] ! i) h')"
    using Cons.prems a by (intro Cons.IH) (auto split: if_splits)
  moreover have "word_of_nat i = k \<Longrightarrow> map_of p (word_of_nat i) = None"
    using Cons.prems(2) a by (auto simp: map_of_eq_None_iff)
  moreover have "unat k = i \<longleftrightarrow> word_of_nat i = k" using i by auto
  ultimately show ?case
    using Cons.prems(3) a by (cases "word_of_nat i = k") (auto split: option.splits)
qed simp

text \<open>Applying a patch is an involution.\<close>

lemma apply_patch_twice:
  assumes ok: "patch_ok (length s) p" and s: "list_all hash_ok s" "length s < 2 ^ 64" and s': "apply_scratchpad_patch s p = Some s'"
  shows "apply_scratchpad_patch s' p = Some s"
proof -
  have d: "distinct (map fst p)" using ok by (simp add: patch_ok_def strict_sorted_iff)
  have "list_all (\<lambda>(k, h). unat k < length s) p" using ok by (auto simp: patch_ok_def list_all_iff)
  then have len: "length s' = length s" and "\<exists>s''. apply_scratchpad_patch s' p = Some s'' \<and> length s'' = length s"
    using apply_patch_total [of s p] apply_patch_total [of s' p] s' by auto
  then obtain s'' where s'': "apply_scratchpad_patch s' p = Some s''" "length s'' = length s" by blast
  have "s'' ! i = s ! i" if "i < length s" for i
  proof -
    have "hash_ok h" if "map_of p (word_of_nat i) = Some h" for h
      using map_of_SomeD [OF that] ok by (auto simp: patch_ok_def list_all_iff)
    moreover have "hash_ok (s ! i)" using that s(1) by (simp add: list_all_length)
    ultimately show ?thesis
      using apply_patch_nth [OF s' d that s(2)] apply_patch_nth [OF s''(1) d] that len s(2)
      by (auto split: option.splits)
  qed
  then have "s'' = s" using s''(2) by (intro nth_equalityI) auto
  with s''(1) show ?thesis by simp
qed

section \<open>Adding and removing a block\<close>

lemma addendum_outs_append: "addendum_outs prev outs (a @ b) = (fst (addendum_outs prev outs b), a @ snd (addendum_outs prev outs b))"
proof (induction outs arbitrary: b)
  case (Cons out outs)
  then show ?case by (simp split: txout_target_v.splits)
qed simp

text \<open>The addendum does not depend on what is in the vector.\<close>

lemma addendum_append:
  "get_block_scratchpad_addendum acc b s = map_option (\<lambda>(r, add). (r, s @ add)) (get_block_scratchpad_addendum acc b [])"
  using addendum_outs_append [of "prev_id b" "vout (miner_tx b)" s]
  by (auto simp: get_block_scratchpad_addendum_def Let_def split: option.splits prod.splits)

lemma push_block_scratchpad_eq:
  "push_block_scratchpad_data acc b s =
    (case get_block_scratchpad_addendum acc b [] of
       None \<Rightarrow> None
     | Some (_, add) \<Rightarrow>
         map_option (Pair True) (apply_scratchpad_patch (s @ add) (get_scratchpad_patch (word_of_nat (length s)) add [])))"
  by (simp add: push_block_scratchpad_data_def push_block_scratchpad_patch_def addendum_append [of acc b s] Let_def
      split: option.splits prod.splits)

lemma pop_push:
  assumes add: "get_block_scratchpad_addendum acc b [] = Some (True, add)" "list_all hash_ok add"
    and s: "list_all hash_ok s" "length s + length add < 2 ^ 64"
  shows "\<exists>s'. push_block_scratchpad_data acc b s = Some (True, s') \<and> length s' = length s + length add
    \<and> pop_block_scratchpad_data acc b s' = Some (True, s)"
proof -
  let ?p = "get_scratchpad_patch (word_of_nat (length s)) add []"
  have n: "unat (word_of_nat (length s) :: u64) = length s" using s(2) by (intro unat_of_nat_small) simp
  have ok: "patch_ok (length s) ?p"
    using get_scratchpad_patch_ok [of "word_of_nat (length s)" "[]" add] add(2) n by (simp add: patch_ok_def)
  then have range: "list_all (\<lambda>(k, h). unat k < length s) ?p" by (auto simp: patch_ok_def list_all_iff)
  obtain s1 where s1: "apply_scratchpad_patch s ?p = Some s1" "length s1 = length s" using apply_patch_total [OF range] by blast
  have "push_block_scratchpad_data acc b s = Some (True, s1 @ add)"
    using add s1 by (simp add: push_block_scratchpad_eq apply_patch_append [OF range])
  moreover have "apply_scratchpad_patch (s1 @ add) ?p = Some (s @ add)"
    using apply_patch_append [of s1 ?p add] range s1 apply_patch_twice [OF ok s(1) _ s1(1)] s(2) by simp
  then have "pop_block_scratchpad_data acc b (s1 @ add) = Some (True, s)"
    using add s1(2) by (simp add: pop_block_scratchpad_data_def Let_def)
  ultimately show ?thesis using s1(2) by auto
qed

text \<open>Every entry of the addendum of a block has the size of a hash.\<close>

lemma extra_loop_pub_key_length:
  "length (m_tx_pub_key e) = 32 \<Longrightarrow> extra_loop ex i fl e = Done e' \<Longrightarrow> length (m_tx_pub_key e') = 32"
proof (induction ex i fl e rule: extra_loop.induct)
  case (1 ex i fl e)
  show ?case
    using "1.prems"(2)
    by (subst (asm) extra_loop.simps) (use "1.IH" "1.prems"(1) in \<open>auto simp: Let_def split: if_splits outcome.splits\<close>)
qed

lemma tx_pub_key_length: "parse_tx_pub_key acc tx = Some (True, pk) \<Longrightarrow> length pk = 32"
  by (auto simp: parse_tx_pub_key_def parse_and_validate_tx_extra_def and_then_Done null_extra_def null_pkey_def
      split: outcome.splits if_splits dest!: extra_loop_pub_key_length [rotated])

lemma addendum_outs_ok: "list_all hash_ok res \<Longrightarrow> list_all hash_ok (snd (addendum_outs prev outs res))"
  by (induction prev outs res rule: addendum_outs.induct) (auto simp: hash_together_def split: txout_target_v.splits)

lemma addendum_ok:
  assumes "block_ok b" and "length (block_tx_ids b) < 2 ^ 63" and "get_block_scratchpad_addendum acc b [] = Some (True, add)"
  shows "list_all hash_ok add"
proof -
  obtain pk where pk: "parse_tx_pub_key acc (miner_tx b) = Some (True, pk)"
    using assms(3) by (auto simp: get_block_scratchpad_addendum_def Let_def split: option.splits if_splits)
  define res where "res = (if get_block_height b \<noteq> 0 then [prev_id b] else []) @ [pk, get_tx_tree_hash b]"
  have "add = snd (addendum_outs (prev_id b) (vout (miner_tx b)) res)"
    using assms(3) pk by (auto simp: get_block_scratchpad_addendum_def Let_def res_def split: if_splits)
  moreover have "hash_ok (get_tx_tree_hash b)"
    using length_tree_hash [OF block_tx_ids_ok [OF assms(1)] _ assms(2)] by (simp add: get_tx_tree_hash_def block_tx_ids_def)
  then have "list_all hash_ok res" using assms(1) tx_pub_key_length [OF pk] by (simp add: res_def block_ok_def)
  ultimately show ?thesis by (simp add: addendum_outs_ok)
qed

text \<open>C33: Removing the scratchpad data of a block after adding it restores every entry of the scratchpad, the
  ones that the new entries patched included.\<close>

theorem scratchpad_pop_undoes_push:
  assumes "block_ok b" and "length (block_tx_ids b) < 2 ^ 63"
    and "get_block_scratchpad_addendum acc b [] = Some (True, add)"
    and "list_all hash_ok s" and "length s + length add < 2 ^ 64"
  shows "\<exists>s'. push_block_scratchpad_data acc b s = Some (True, s') \<and> length s' = length s + length add
    \<and> pop_block_scratchpad_data acc b s' = Some (True, s)"
  using pop_push [OF assms(3) addendum_ok [OF assms(1-3)] assms(4,5)] .

definition keyed_block :: block where
  "keyed_block = sample_block\<lparr>miner_tx := sample_tx\<lparr>extra := TX_EXTRA_TAG_PUBKEY # replicate 32 5\<rparr>\<rparr>"

lemma keyed_block_pub_key: "parse_tx_pub_key None (miner_tx keyed_block) = Some (True, replicate 32 5)"
  using parse_built_extra [where ens = "[PubKey (replicate 32 5)]" and n = 0 and acc = None and tx = "miner_tx keyed_block"]
  by (simp add: parse_tx_pub_key_def keyed_block_def check_make_alias_tx_def null_extra_def null_alias_def)

theorem scratchpad_pop_undoes_push_witness:
  "\<exists>s'. push_block_scratchpad_data None keyed_block [replicate 32 1, replicate 32 2] = Some (True, s') \<and> length s' = 5
    \<and> pop_block_scratchpad_data None keyed_block s' = Some (True, [replicate 32 1, replicate 32 2])"
proof -
  let ?add = "[replicate 32 5, get_tx_tree_hash keyed_block, hash_together (replicate 32 1) (replicate 32 9)]"
  have "block_ok keyed_block"
    using sample_tx_ok by (simp add: keyed_block_def block_ok_def sample_block_def CURRENT_BLOCK_MAJOR_VERSION_def
        transaction_ok_def prefix_ok_def)
  moreover have "length (block_tx_ids keyed_block) < 2 ^ 63"
    by (simp add: block_tx_ids_def keyed_block_def sample_block_def)
  moreover have "get_block_scratchpad_addendum None keyed_block [] = Some (True, ?add)"
    using keyed_block_pub_key
    by (simp add: get_block_scratchpad_addendum_def Let_def get_block_height_def)
      (simp add: keyed_block_def sample_block_def sample_tx_def)
  moreover have five: "Suc (Suc (Suc (Suc (Suc 0)))) = 5" by simp
  ultimately show ?thesis
    using scratchpad_pop_undoes_push [where b = keyed_block and acc = None and add = ?add and s = "[replicate 32 1, replicate 32 2]"]
    by (simp add: five)
qed

end
