(* ===== verification/TxPool.thy ===== *)
theory TxPool
  imports TxExtra Reward "HOL-Library.AList"
begin

text \<open>
  The memory pool of \<open>src/currency_core/tx_pool.cpp\<close> and \<open>.h\<close>. The pool is passed and returned; output
  parameters are results. What the pool asks of the blockchain is the record \<open>blockchain_view\<close>, the clock is
  the argument \<open>now\<close>, and the order in which an unordered container enumerates its keys is an argument.
\<close>

section \<open>State\<close>

record tx_verification_context =
  m_should_be_relayed :: bool
  m_verifivation_failed :: bool
  m_verifivation_impossible :: bool
  m_added_to_pool :: bool

record tx_details =
  td_tx :: transaction
  blob_size :: u64
  fee :: u64
  max_used_block_id :: hash
  max_used_block_height :: u64
  kept_by_block :: bool
  last_failed_height :: u64
  last_failed_id :: hash
  receive_time :: u64

text \<open>The map from aliases to transactions is the list of its entries in the order they are enumerated.\<close>

record tx_memory_pool =
  m_transactions :: "hash \<rightharpoonup> tx_details"
  m_spent_key_images :: "key_image \<rightharpoonup> hash set"
  m_aliases_to_txid :: "(bytes \<times> hash) list"

text \<open>\<open>check_tx_inputs\<close> overwrites the height and, when it succeeds, the id that it is given.\<close>

record blockchain_view =
  current_blockchain_height :: u64
  block_id_by_height :: "u64 \<Rightarrow> hash"
  view_check_tx_inputs :: "transaction \<Rightarrow> u64 \<Rightarrow> hash \<Rightarrow> bool \<times> u64 \<times> hash"
  view_have_tx_keyimges_as_spent :: "transaction \<Rightarrow> bool"
  view_have_tx :: "hash \<Rightarrow> bool"
  comulative_blocksize_limit :: u64

definition TX_POOL_MINIMUM_FEE :: u64 where
  "TX_POOL_MINIMUM_FEE = 10000000"

definition CURRENCY_MEMPOOL_TX_LIVETIME :: u64 where
  "CURRENCY_MEMPOOL_TX_LIVETIME = 86400"

definition CURRENCY_MEMPOOL_TX_FROM_ALT_BLOCK_LIVETIME :: u64 where
  "CURRENCY_MEMPOOL_TX_FROM_ALT_BLOCK_LIVETIME = 720 * 7 * 60"

definition no_details :: tx_details where
  "no_details = \<lparr>td_tx = set_null, blob_size = 0, fee = 0, max_used_block_id = null_hash, max_used_block_height = 0,
     kept_by_block = False, last_failed_height = 0, last_failed_id = null_hash, receive_time = 0\<rparr>"

section \<open>Operations\<close>

text \<open>The first entry with the id is erased.\<close>

fun erase_alias :: "hash \<Rightarrow> (bytes \<times> hash) list \<Rightarrow> bool \<times> (bytes \<times> hash) list" where
  "erase_alias i [] = (False, [])"
| "erase_alias i ((a, h) # al) = (if h = i then (True, al) else apsnd (Cons (a, h)) (erase_alias i al))"

definition remove_alias_tx_pair :: "hash \<Rightarrow> tx_memory_pool \<Rightarrow> bool \<times> tx_memory_pool" where
  "remove_alias_tx_pair i p = apsnd (\<lambda>al. p\<lparr>m_aliases_to_txid := al\<rparr>) (erase_alias i (m_aliases_to_txid p))"

definition clear :: "tx_memory_pool \<Rightarrow> tx_memory_pool" where
  "clear p = p\<lparr>m_transactions := Map.empty, m_spent_key_images := Map.empty, m_aliases_to_txid := []\<rparr>"

definition find_alias :: "bytes \<Rightarrow> tx_memory_pool \<Rightarrow> hash" where
  "find_alias al p =
    (if length al \<noteq> 0 then case map_of (m_aliases_to_txid p) al of Some h \<Rightarrow> h | None \<Rightarrow> null_hash else null_hash)"

definition add_alias_tx_pair :: "bytes \<Rightarrow> hash \<Rightarrow> tx_memory_pool \<Rightarrow> bool \<times> tx_memory_pool" where
  "add_alias_tx_pair al i p =
    (if length al \<noteq> 0
     then if find_alias al p \<noteq> null_hash then (False, p)
          else (True, p\<lparr>m_aliases_to_txid := AList.update al i (m_aliases_to_txid p)\<rparr>)
     else (True, p))"

fun remove_keyimages_loop :: "hash \<Rightarrow> txin_v list \<Rightarrow> (key_image \<rightharpoonup> hash set) \<Rightarrow> bool \<times> (key_image \<rightharpoonup> hash set)" where
  "remove_keyimages_loop i [] im = (True, im)"
| "remove_keyimages_loop i (TxinToKey k # ins) im =
    (case im (ki_k_image k) of
       None \<Rightarrow> (False, im)
     | Some key_image_set \<Rightarrow>
         if key_image_set = {} then (False, im)
         else if i \<notin> key_image_set then (False, im)
         else let key_image_set = key_image_set - {i}
              in remove_keyimages_loop i ins
                   (if key_image_set = {} then im(ki_k_image k := None) else im(ki_k_image k \<mapsto> key_image_set)))"
| "remove_keyimages_loop i (_ # ins) im = (False, im)"

definition remove_transaction_keyimages :: "transaction \<Rightarrow> tx_memory_pool \<Rightarrow> bool \<times> tx_memory_pool" where
  "remove_transaction_keyimages tx p =
    apsnd (\<lambda>im. p\<lparr>m_spent_key_images := im\<rparr>) (remove_keyimages_loop (get_transaction_hash tx) (vin tx) (m_spent_key_images p))"

definition take_tx :: "hash \<Rightarrow> tx_memory_pool \<Rightarrow> (transaction \<times> u64 \<times> u64) option \<times> tx_memory_pool" where
  "take_tx i p =
    (case m_transactions p i of
       None \<Rightarrow> (None, p)
     | Some td \<Rightarrow>
         let p = snd (remove_transaction_keyimages (td_tx td) p);
             p = p\<lparr>m_transactions := (m_transactions p)(i := None)\<rparr>;
             p = snd (remove_alias_tx_pair i p)
         in (Some (td_tx td, blob_size td, fee td), p))"

definition have_tx :: "hash \<Rightarrow> tx_memory_pool \<Rightarrow> bool" where
  "have_tx i p \<longleftrightarrow> m_transactions p i \<noteq> None"

definition have_tx_keyimg_as_spent :: "key_image \<Rightarrow> tx_memory_pool \<Rightarrow> bool" where
  "have_tx_keyimg_as_spent key_im p \<longleftrightarrow> m_spent_key_images p key_im \<noteq> None"

fun keyimges_as_spent_loop :: "tx_memory_pool \<Rightarrow> txin_v list \<Rightarrow> bool" where
  "keyimges_as_spent_loop p [] = False"
| "keyimges_as_spent_loop p (TxinToKey k # ins) = (if have_tx_keyimg_as_spent (ki_k_image k) p then True else keyimges_as_spent_loop p ins)"
| "keyimges_as_spent_loop p (_ # ins) = True"

definition have_tx_keyimges_as_spent :: "transaction \<Rightarrow> tx_memory_pool \<Rightarrow> bool" where
  "have_tx_keyimges_as_spent tx p = keyimges_as_spent_loop p (vin tx)"

text \<open>\<open>m_spent_key_images[...]\<close> creates an empty set for a new image.\<close>

fun add_keyimages_loop :: "hash \<Rightarrow> bool \<Rightarrow> txin_v list \<Rightarrow> (key_image \<rightharpoonup> hash set) \<Rightarrow> bool \<times> (key_image \<rightharpoonup> hash set)" where
  "add_keyimages_loop i kept [] im = (True, im)"
| "add_keyimages_loop i kept (TxinToKey k # ins) im =
    (let kei_image_set = (case im (ki_k_image k) of None \<Rightarrow> {} | Some s \<Rightarrow> s);
         im = im(ki_k_image k \<mapsto> kei_image_set)
     in if \<not> (kept \<or> kei_image_set = {}) then (False, im)
        else if i \<in> kei_image_set then (False, im)
        else add_keyimages_loop i kept ins (im(ki_k_image k \<mapsto> insert i kei_image_set)))"
| "add_keyimages_loop i kept (_ # ins) im = (False, im)"

text \<open>
  The two branches of \<open>add_tx\<close> after the inputs were checked, up to the update of the key images: \<open>None\<close> when
  the function returns \<open>false\<close> there.
\<close>

definition insert_unchecked ::
  "u64 \<Rightarrow> transaction \<Rightarrow> hash \<Rightarrow> bytes \<Rightarrow> u64 \<Rightarrow> u64 \<Rightarrow> tx_verification_context \<Rightarrow> tx_memory_pool
    \<Rightarrow> bool \<times> tx_verification_context \<times> tx_memory_pool" where
  "insert_unchecked now tx i al sz tx_fee tvc p =
    (let h = find_alias al p;
         p = (if length al \<noteq> 0 \<and> h \<noteq> null_hash then snd (take_tx h p) else p)
     in if m_transactions p i \<noteq> None then (False, tvc, p)
        else (True, tvc\<lparr>m_verifivation_impossible := True, m_added_to_pool := True\<rparr>,
          p\<lparr>m_transactions := (m_transactions p)(i \<mapsto> no_details\<lparr>blob_size := sz, td_tx := tx, fee := tx_fee,
            max_used_block_id := null_hash, max_used_block_height := 0, kept_by_block := True, receive_time := now\<rparr>)\<rparr>))"

definition insert_checked ::
  "u64 \<Rightarrow> transaction \<Rightarrow> hash \<Rightarrow> bytes \<Rightarrow> u64 \<Rightarrow> u64 \<Rightarrow> bool \<Rightarrow> u64 \<Rightarrow> hash \<Rightarrow> tx_verification_context \<Rightarrow> tx_memory_pool
    \<Rightarrow> bool \<times> tx_verification_context \<times> tx_memory_pool" where
  "insert_checked now tx i al sz tx_fee kept max_height max_id tvc p =
    (case add_alias_tx_pair al i p of
       (False, p) \<Rightarrow> (False, tvc\<lparr>m_verifivation_failed := True, m_added_to_pool := False\<rparr>, p)
     | (True, p) \<Rightarrow>
         if m_transactions p i \<noteq> None then (False, tvc, p)
         else (True, tvc\<lparr>m_added_to_pool := True, m_should_be_relayed := (if tx_fee > 0 then True else m_should_be_relayed tvc)\<rparr>,
           p\<lparr>m_transactions := (m_transactions p)(i \<mapsto> no_details\<lparr>blob_size := sz, td_tx := tx, kept_by_block := kept,
             fee := tx_fee, max_used_block_id := max_id, max_used_block_height := max_height, last_failed_height := 0,
             last_failed_id := null_hash, receive_time := now\<rparr>)\<rparr>))"

definition add_tx ::
  "blockchain_view \<Rightarrow> u64 \<Rightarrow> transaction \<Rightarrow> hash \<Rightarrow> tx_verification_context \<Rightarrow> bool \<Rightarrow> bytes \<Rightarrow> tx_memory_pool
    \<Rightarrow> bool \<times> tx_verification_context \<times> tx_memory_pool" where
  "add_tx bc now tx i tvc kept al p =
    (let sz = get_object_blobsize tx;
         failed = (False, tvc\<lparr>m_verifivation_failed := True\<rparr>, p)
     in if \<not> kept \<and> sz > get_max_transaction_blob_size (current_blockchain_height bc) then failed
        else if \<not> check_inputs_types_supported tx then failed
        else case get_inputs_money_amount tx of
               None \<Rightarrow> failed
             | Some inputs_amount \<Rightarrow>
                 let outputs_amount = get_outs_money_amount tx
                 in if outputs_amount \<ge> inputs_amount then failed
                    else if \<not> kept \<and> have_tx_keyimges_as_spent tx p then failed
                    else if \<not> kept \<and> inputs_amount - outputs_amount < TX_POOL_MINIMUM_FEE then failed
                    else case view_check_tx_inputs bc tx 0 null_hash of
                           (ch_inp_res, max_used_height, max_used_id) \<Rightarrow>
                      if \<not> ch_inp_res \<and> \<not> kept then failed
                      else case (if \<not> ch_inp_res
                                 then insert_unchecked now tx i al sz (inputs_amount - outputs_amount) tvc p
                                 else insert_checked now tx i al sz (inputs_amount - outputs_amount) kept
                                        max_used_height max_used_id tvc p) of
                             (False, tvc, p) \<Rightarrow> (False, tvc, p)
                           | (True, tvc, p) \<Rightarrow>
                               (case add_keyimages_loop i kept (vin tx) (m_spent_key_images p) of
                                  (r, im) \<Rightarrow> (r, tvc\<lparr>m_verifivation_failed := \<not> r\<rparr>, p\<lparr>m_spent_key_images := im\<rparr>)))"

definition add_tx_computed ::
  "blockchain_view \<Rightarrow> u64 \<Rightarrow> transaction \<Rightarrow> tx_verification_context \<Rightarrow> bool \<Rightarrow> bytes \<Rightarrow> tx_memory_pool
    \<Rightarrow> bool \<times> tx_verification_context \<times> tx_memory_pool" where
  "add_tx_computed bc now tx tvc kept al p = add_tx bc now tx (get_transaction_hash tx) tvc kept al p"

definition stuck :: "u64 \<Rightarrow> tx_details \<Rightarrow> bool" where
  "stuck now td \<longleftrightarrow>
    (let tx_age = now - receive_time td
     in tx_age > CURRENCY_MEMPOOL_TX_LIVETIME \<and> \<not> kept_by_block td
       \<or> tx_age > CURRENCY_MEMPOOL_TX_FROM_ALT_BLOCK_LIVETIME \<and> kept_by_block td)"

fun remove_stuck_loop :: "u64 \<Rightarrow> hash list \<Rightarrow> tx_memory_pool \<Rightarrow> tx_memory_pool" where
  "remove_stuck_loop now [] p = p"
| "remove_stuck_loop now (i # order) p =
    (case m_transactions p i of
       None \<Rightarrow> remove_stuck_loop now order p
     | Some td \<Rightarrow>
         if stuck now td
         then let p = snd (remove_alias_tx_pair i p);
                  p = snd (remove_transaction_keyimages (td_tx td) p)
              in remove_stuck_loop now order (p\<lparr>m_transactions := (m_transactions p)(i := None)\<rparr>)
         else remove_stuck_loop now order p)"

definition remove_stuck_transactions :: "u64 \<Rightarrow> hash list \<Rightarrow> tx_memory_pool \<Rightarrow> tx_memory_pool" where
  "remove_stuck_transactions now order p = remove_stuck_loop now order p"

definition get_transaction_from_pool :: "hash \<Rightarrow> tx_memory_pool \<Rightarrow> transaction option" where
  "get_transaction_from_pool i p = map_option td_tx (m_transactions p i)"

definition get_transactions :: "hash list \<Rightarrow> tx_memory_pool \<Rightarrow> transaction list" where
  "get_transactions order p = map td_tx (List.map_filter (m_transactions p) order)"

section \<open>Block templates\<close>

text \<open>The check of the ring signatures that \<open>is_transaction_ready_to_go\<close> performs in two places.\<close>

definition recheck_inputs :: "blockchain_view \<Rightarrow> tx_details \<Rightarrow> bool \<times> tx_details" where
  "recheck_inputs bc txd =
    (case view_check_tx_inputs bc (td_tx txd) (max_used_block_height txd) (max_used_block_id txd) of
       (r, h, i) \<Rightarrow>
         let txd = txd\<lparr>max_used_block_height := h, max_used_block_id := i\<rparr>;
             failed = current_blockchain_height bc - 1
         in if r then (True, txd)
            else (False, txd\<lparr>last_failed_height := failed, last_failed_id := block_id_by_height bc failed\<rparr>))"

definition is_transaction_ready_to_go :: "blockchain_view \<Rightarrow> tx_details \<Rightarrow> bool \<times> tx_details" where
  "is_transaction_ready_to_go bc txd =
    (case (if max_used_block_id txd = null_hash
           then if last_failed_id txd \<noteq> null_hash \<and> current_blockchain_height bc > last_failed_height txd
                   \<and> last_failed_id txd = block_id_by_height bc (last_failed_height txd)
                then (False, txd)
                else recheck_inputs bc txd
           else if max_used_block_height txd \<ge> current_blockchain_height bc then (False, txd)
           else if block_id_by_height bc (max_used_block_height txd) \<noteq> max_used_block_id txd
           then if last_failed_id txd = block_id_by_height bc (last_failed_height txd) then (False, txd)
                else recheck_inputs bc txd
           else (True, txd)) of
       (False, txd) \<Rightarrow> (False, txd)
     | (True, txd) \<Rightarrow> if view_have_tx_keyimges_as_spent bc (td_tx txd) then (False, txd) else (True, txd))"

fun have_key_images_loop :: "key_image set \<Rightarrow> txin_v list \<Rightarrow> bool" where
  "have_key_images_loop k_images [] = False"
| "have_key_images_loop k_images (TxinToKey k # ins) =
    (if ki_k_image k \<in> k_images then True else have_key_images_loop k_images ins)"
| "have_key_images_loop k_images (_ # ins) = False"

definition have_key_images :: "key_image set \<Rightarrow> transaction \<Rightarrow> bool" where
  "have_key_images k_images tx = have_key_images_loop k_images (vin tx)"

fun append_key_images_loop :: "txin_v list \<Rightarrow> key_image set \<Rightarrow> bool \<times> key_image set" where
  "append_key_images_loop [] k_images = (True, k_images)"
| "append_key_images_loop (TxinToKey k # ins) k_images =
    (if ki_k_image k \<in> k_images then (False, k_images) else append_key_images_loop ins (insert (ki_k_image k) k_images))"
| "append_key_images_loop (_ # ins) k_images = (False, k_images)"

definition append_key_images :: "key_image set \<Rightarrow> transaction \<Rightarrow> bool \<times> key_image set" where
  "append_key_images k_images tx = append_key_images_loop (vin tx) k_images"

text \<open>
  \<open>std::sort\<close> with the comparison of fees per byte: an insertion sort of the enumerated transactions. Every
  result that the standard allows is reached from some order of enumeration.
\<close>

definition better_fee :: "tx_details \<Rightarrow> tx_details \<Rightarrow> bool" where
  "better_fee a b =
    (let (a_lo, a_hi) = mul128 (fee a) (blob_size b);
         (b_lo, b_hi) = mul128 (fee b) (blob_size a)
     in a_hi > b_hi \<or> (a_hi = b_hi \<and> a_lo > b_lo))"

fun insert_by_fee :: "hash \<times> tx_details \<Rightarrow> (hash \<times> tx_details) list \<Rightarrow> (hash \<times> tx_details) list" where
  "insert_by_fee a [] = [a]"
| "insert_by_fee a (b # txs) = (if better_fee (snd b) (snd a) then b # insert_by_fee a txs else a # b # txs)"

definition sort_by_fee :: "(hash \<times> tx_details) list \<Rightarrow> (hash \<times> tx_details) list" where
  "sort_by_fee txs = foldr insert_by_fee txs []"

text \<open>
  The variables of the loop. \<open>entries\<close> holds what the loop left of the vector \<open>txs\<close> so far: an element is
  \<open>None\<close> where it was set to \<open>NULL\<close>.
\<close>

record template_loop =
  entries :: "hash option list"
  k_images :: "key_image set"
  current_size :: u64
  current_fee :: u64
  best_money :: u64
  best_position :: nat
  total_size :: u64
  total_fee :: u64
  tl_transactions :: "hash \<rightharpoonup> tx_details"

fun template_step :: "blockchain_view \<Rightarrow> u64 \<Rightarrow> u64 \<Rightarrow> u64 \<Rightarrow> (hash \<times> tx_details) list \<Rightarrow> template_loop \<Rightarrow> template_loop" where
  "template_step bc median_size coins height [] l = l"
| "template_step bc median_size coins height ((i, txd) # txs) l =
    (case is_transaction_ready_to_go bc txd of
       (ready, txd) \<Rightarrow>
         let l = l\<lparr>tl_transactions := (tl_transactions l)(i \<mapsto> txd)\<rparr>
         in if \<not> ready \<or> have_key_images (k_images l) (td_tx txd)
            then template_step bc median_size coins height txs (l\<lparr>entries := entries l @ [None]\<rparr>)
            else let l = l\<lparr>entries := entries l @ [Some i], k_images := snd (append_key_images (k_images l) (td_tx txd)),
                           current_size := current_size l + blob_size txd, current_fee := current_fee l + fee txd\<rparr>
                 in case get_block_reward median_size (current_size l + CURRENCY_COINBASE_BLOB_RESERVED_SIZE) coins height of
                      None \<Rightarrow> l
                    | Some current_reward \<Rightarrow>
                        template_step bc median_size coins height txs
                          (if best_money l < current_reward + current_fee l
                           then l\<lparr>best_money := current_reward + current_fee l, best_position := length (entries l),
                             total_size := current_size l, total_fee := current_fee l\<rparr>
                           else l))"

definition template_init :: "u64 \<Rightarrow> tx_memory_pool \<Rightarrow> template_loop" where
  "template_init reward p = \<lparr>entries = [], k_images = {}, current_size = 0, current_fee = 0, best_money = reward,
     best_position = 0, total_size = 0, total_fee = 0, tl_transactions = m_transactions p\<rparr>"

text \<open>
  \<open>None\<close> is the return value \<open>false\<close>; otherwise the block with the hashes appended, the size, the fee and the pool.
\<close>

definition fill_block_template ::
  "blockchain_view \<Rightarrow> hash list \<Rightarrow> block \<Rightarrow> u64 \<Rightarrow> u64 \<Rightarrow> u64 \<Rightarrow> tx_memory_pool \<Rightarrow> (block \<times> u64 \<times> u64 \<times> tx_memory_pool) option" where
  "fill_block_template bc order bl median_size already_generated_coins height p =
    (let txs = sort_by_fee (List.map_filter (\<lambda>i. map_option (Pair i) (m_transactions p i)) order)
     in case get_block_reward median_size CURRENCY_COINBASE_BLOB_RESERVED_SIZE already_generated_coins height of
          None \<Rightarrow> None
        | Some reward \<Rightarrow>
            let l = template_step bc median_size already_generated_coins height txs (template_init reward p)
            in Some (bl\<lparr>tx_hashes := tx_hashes bl @ List.map_filter id (take (best_position l) (entries l))\<rparr>,
                 total_size l, total_fee l, p\<lparr>m_transactions := tl_transactions l\<rparr>))"

end
