(* ===== verification/PoolInvariant.thy ===== *)
theory PoolInvariant
  imports TxPool
begin

text \<open>
  The invariant of the memory pool: the index of key images is the one computed from the transactions, no
  two transactions that did not come with a block spend the same output, and the aliases belong to transactions
  of the pool. Insertion and removal keep it; insertion is all or nothing.
\<close>

section \<open>The index of key images\<close>

fun input_images :: "txin_v list \<Rightarrow> key_image list" where
  "input_images [] = []"
| "input_images (TxinToKey k # ins) = ki_k_image k # input_images ins"
| "input_images (_ # ins) = input_images ins"

abbreviation tx_images :: "transaction \<Rightarrow> key_image list" where
  "tx_images tx \<equiv> input_images (vin tx)"

text \<open>What the core checks of a transaction before it reaches the pool.\<close>

definition inputs_ok :: "transaction \<Rightarrow> bool" where
  "inputs_ok tx \<longleftrightarrow> check_inputs_types_supported tx \<and> distinct (tx_images tx)"

definition spenders :: "(hash \<rightharpoonup> tx_details) \<Rightarrow> key_image \<Rightarrow> hash set" where
  "spenders txs k = {i. \<exists>td. txs i = Some td \<and> k \<in> set (tx_images (td_tx td))}"

definition image_index :: "(hash \<rightharpoonup> tx_details) \<Rightarrow> key_image \<rightharpoonup> hash set" where
  "image_index txs k = (if spenders txs k = {} then None else Some (spenders txs k))"

abbreviation all_to_key :: "txin_v list \<Rightarrow> bool" where
  "all_to_key ins \<equiv> list_all (\<lambda>i. case i of TxinToKey _ \<Rightarrow> True | _ \<Rightarrow> False) ins"

lemma all_to_key_Cons: "all_to_key (x # ins) \<Longrightarrow> (\<And>k. x = TxinToKey k \<Longrightarrow> all_to_key ins \<Longrightarrow> thesis) \<Longrightarrow> thesis"
  by (cases x) auto

definition without :: "hash \<Rightarrow> hash set option \<Rightarrow> hash set option" where
  "without i s = (if the s = {i} then None else Some (the s - {i}))"

lemma remove_loop:
  assumes "all_to_key ins" and "distinct (input_images ins)" and "\<forall>k \<in> set (input_images ins). \<exists>s. im k = Some s \<and> i \<in> s"
  shows "remove_keyimages_loop i ins im = (True, \<lambda>k. if k \<in> set (input_images ins) then without i (im k) else im k)"
  using assms
proof (induction ins arbitrary: im)
  case (Cons x ins)
  from Cons.prems(1) obtain k where x: "x = TxinToKey k" and ins: "all_to_key ins" by (rule all_to_key_Cons)
  obtain s where s: "im (ki_k_image k) = Some s" "i \<in> s" using Cons.prems(3) x by auto
  let ?im = "im(ki_k_image k := without i (Some s))"
  have "remove_keyimages_loop i ins ?im = (True, \<lambda>k. if k \<in> set (input_images ins) then without i (?im k) else ?im k)"
    using Cons.prems x by (intro Cons.IH ins) auto
  moreover have "remove_keyimages_loop i (x # ins) im = remove_keyimages_loop i ins ?im"
  proof -
    have "s - {i} = {} \<longleftrightarrow> s = {i}" using s(2) by auto
    moreover have "s \<noteq> {}" using s(2) by auto
    ultimately show ?thesis using s x by (simp add: without_def Let_def)
  qed
  ultimately show ?case using s x Cons.prems(2) by (auto intro!: ext)
qed simp

abbreviation members :: "hash set option \<Rightarrow> hash set" where
  "members s \<equiv> (case s of None \<Rightarrow> {} | Some s \<Rightarrow> s)"

lemma add_loop:
  assumes "all_to_key ins" and "distinct (input_images ins)"
    and "\<forall>k \<in> set (input_images ins). i \<notin> members (im k) \<and> (kept \<or> members (im k) = {})"
  shows "add_keyimages_loop i kept ins im =
    (True, \<lambda>k. if k \<in> set (input_images ins) then Some (insert i (members (im k))) else im k)"
  using assms
proof (induction ins arbitrary: im)
  case (Cons x ins)
  from Cons.prems(1) obtain k where x: "x = TxinToKey k" and ins: "all_to_key ins" by (rule all_to_key_Cons)
  let ?im = "im(ki_k_image k \<mapsto> insert i (members (im (ki_k_image k))))"
  have "add_keyimages_loop i kept ins ?im =
      (True, \<lambda>k. if k \<in> set (input_images ins) then Some (insert i (members (?im k))) else ?im k)"
    using Cons.prems x by (intro Cons.IH ins) auto
  moreover have "add_keyimages_loop i kept (x # ins) im = add_keyimages_loop i kept ins ?im"
    using Cons.prems(3) x by (auto simp: Let_def)
  ultimately show ?case using x Cons.prems(2) by (auto intro!: ext)
qed simp

lemma index_remove:
  assumes "txs i = Some td" and "inputs_ok (td_tx td)"
  shows "remove_keyimages_loop i (vin (td_tx td)) (image_index txs) = (True, image_index (txs(i := None)))"
proof -
  have sp: "spenders (txs(i := None)) k = spenders txs k - {i}" for k by (auto simp: spenders_def)
  have mem: "i \<in> spenders txs k \<longleftrightarrow> k \<in> set (tx_images (td_tx td))" for k using assms(1) by (simp add: spenders_def)
  have "remove_keyimages_loop i (vin (td_tx td)) (image_index txs) =
      (True, \<lambda>k. if k \<in> set (tx_images (td_tx td)) then without i (image_index txs k) else image_index txs k)"
    using assms(2) mem by (intro remove_loop) (auto simp: inputs_ok_def check_inputs_types_supported_def image_index_def)
  also have "(\<lambda>k. if k \<in> set (tx_images (td_tx td)) then without i (image_index txs k) else image_index txs k)
      = image_index (txs(i := None))"
    using mem by (intro ext) (auto simp: image_index_def sp without_def)
  finally show ?thesis .
qed

lemma index_add:
  assumes "txs i = None" and "inputs_ok (td_tx td)" and "kept \<or> (\<forall>k \<in> set (tx_images (td_tx td)). image_index txs k = None)"
  shows "add_keyimages_loop i kept (vin (td_tx td)) (image_index txs) = (True, image_index (txs(i \<mapsto> td)))"
proof -
  have sp: "spenders (txs(i \<mapsto> td)) k = (if k \<in> set (tx_images (td_tx td)) then insert i (spenders txs k) else spenders txs k)" for k
    using assms(1) by (auto simp: spenders_def)
  have new: "i \<notin> spenders txs k" for k using assms(1) by (simp add: spenders_def)
  have val: "members (image_index txs k) = spenders txs k" for k by (simp add: image_index_def)
  have "add_keyimages_loop i kept (vin (td_tx td)) (image_index txs) =
      (True, \<lambda>k. if k \<in> set (tx_images (td_tx td)) then Some (insert i (spenders txs k)) else image_index txs k)"
    using assms(2,3) new add_loop [of "vin (td_tx td)" i "image_index txs" kept]
    by (auto simp: inputs_ok_def check_inputs_types_supported_def val image_index_def split: if_splits)
  also have "(\<lambda>k. if k \<in> set (tx_images (td_tx td)) then Some (insert i (spenders txs k)) else image_index txs k)
      = image_index (txs(i \<mapsto> td))"
    by (rule ext) (simp add: image_index_def sp)
  finally show ?thesis .
qed

section \<open>The invariant\<close>

definition transactions_ok :: "(hash \<rightharpoonup> tx_details) \<Rightarrow> bool" where
  "transactions_ok txs \<longleftrightarrow> (\<forall>i td. txs i = Some td \<longrightarrow> i = get_transaction_hash (td_tx td) \<and> inputs_ok (td_tx td))"

text \<open>Two transactions that did not come with a block do not spend the same output.\<close>

definition no_conflicts :: "(hash \<rightharpoonup> tx_details) \<Rightarrow> bool" where
  "no_conflicts txs \<longleftrightarrow> (\<forall>i j td td'. txs i = Some td \<and> txs j = Some td' \<and> i \<noteq> j \<and> \<not> kept_by_block td \<and> \<not> kept_by_block td'
     \<longrightarrow> (\<forall>k \<in> set (tx_images (td_tx td)). k \<notin> set (tx_images (td_tx td'))))"

definition aliases_ok :: "(hash \<rightharpoonup> tx_details) \<Rightarrow> (bytes \<times> hash) list \<Rightarrow> bool" where
  "aliases_ok txs al \<longleftrightarrow> distinct (map fst al) \<and> distinct (map snd al) \<and> snd ` set al \<subseteq> dom txs"

definition pool_ok :: "tx_memory_pool \<Rightarrow> bool" where
  "pool_ok p \<longleftrightarrow> transactions_ok (m_transactions p) \<and> m_spent_key_images p = image_index (m_transactions p)
     \<and> no_conflicts (m_transactions p) \<and> aliases_ok (m_transactions p) (m_aliases_to_txid p)"

lemma pool_ok_empty: "pool_ok (clear p)"
  by (auto simp: pool_ok_def clear_def transactions_ok_def no_conflicts_def aliases_ok_def image_index_def spenders_def)

subsection \<open>Removal\<close>

lemma erase_alias_filter: "distinct (map snd al) \<Longrightarrow> snd (erase_alias i al) = filter (\<lambda>e. snd e \<noteq> i) al"
proof (induction i al rule: erase_alias.induct)
  case (2 i a h al)
  have "filter (\<lambda>e. snd e \<noteq> i) al = al" if "h = i"
    using "2.prems" that by (auto simp: filter_id_conv)
  with 2 show ?case by auto
qed simp

text \<open>The pool without a transaction.\<close>

definition without_tx :: "hash \<Rightarrow> tx_memory_pool \<Rightarrow> tx_memory_pool" where
  "without_tx i p = p\<lparr>m_transactions := (m_transactions p)(i := None),
     m_spent_key_images := image_index ((m_transactions p)(i := None)),
     m_aliases_to_txid := filter (\<lambda>e. snd e \<noteq> i) (m_aliases_to_txid p)\<rparr>"

lemma distinct_map_filter_conv: "distinct (map f xs) \<Longrightarrow> distinct (map f (filter P xs))"
  by (induction xs) auto

lemma no_conflicts_remove: "no_conflicts txs \<Longrightarrow> no_conflicts (txs(i := None))"
  unfolding no_conflicts_def by (metis fun_upd_apply option.distinct(1))

lemma without_tx_ok: "pool_ok p \<Longrightarrow> pool_ok (without_tx i p)"
  by (auto simp: pool_ok_def without_tx_def transactions_ok_def no_conflicts_remove aliases_ok_def distinct_map_filter_conv)

lemma pool_okD:
  assumes "pool_ok p" and "m_transactions p i = Some td"
  shows "get_transaction_hash (td_tx td) = i" and "inputs_ok (td_tx td)"
  using assms by (auto simp: pool_ok_def transactions_ok_def)

lemma remove_parts:
  assumes ok: "pool_ok p" and i: "m_transactions p i = Some td"
  shows "snd (erase_alias i (m_aliases_to_txid p)) = filter (\<lambda>e. snd e \<noteq> i) (m_aliases_to_txid p)"
    and "remove_keyimages_loop (get_transaction_hash (td_tx td)) (vin (td_tx td)) (m_spent_key_images p)
      = (True, image_index ((m_transactions p)(i := None)))"
  using ok index_remove [of "m_transactions p", OF i] pool_okD [OF ok i] by (simp_all add: pool_ok_def aliases_ok_def erase_alias_filter)

lemma take_tx_eq:
  assumes "pool_ok p" and "m_transactions p i = Some td"
  shows "take_tx i p = (Some (td_tx td, blob_size td, fee td), without_tx i p)"
  using assms(2) remove_parts [OF assms]
  by (simp add: take_tx_def Let_def remove_transaction_keyimages_def remove_alias_tx_pair_def without_tx_def)

lemma take_tx_ok: "pool_ok p \<Longrightarrow> pool_ok (snd (take_tx i p))"
proof (cases "m_transactions p i")
  case None
  then show "pool_ok p \<Longrightarrow> ?thesis" by (simp add: take_tx_def)
qed (simp add: take_tx_eq without_tx_ok)

lemma remove_stuck_step:
  assumes "pool_ok p" and "m_transactions p i = Some td"
  shows "remove_stuck_loop now (i # order) p = remove_stuck_loop now order (if stuck now td then without_tx i p else p)"
  using assms(2) remove_parts [OF assms]
  by (cases p) (simp add: Let_def remove_transaction_keyimages_def remove_alias_tx_pair_def without_tx_def)

lemma remove_stuck_ok: "pool_ok p \<Longrightarrow> pool_ok (remove_stuck_loop now order p)"
proof (induction order arbitrary: p)
  case (Cons i order)
  show ?case
  proof (cases "m_transactions p i")
    case None
    with Cons show ?thesis by simp
  next
    case (Some td)
    then show ?thesis unfolding remove_stuck_step [OF Cons.prems Some] using Cons by (simp add: without_tx_ok)
  qed
qed simp

subsection \<open>Insertion\<close>

definition with_tx :: "hash \<Rightarrow> tx_details \<Rightarrow> (bytes \<times> hash) list \<Rightarrow> tx_memory_pool \<Rightarrow> tx_memory_pool" where
  "with_tx i td al p = p\<lparr>m_transactions := (m_transactions p)(i \<mapsto> td),
     m_spent_key_images := image_index ((m_transactions p)(i \<mapsto> td)), m_aliases_to_txid := al\<rparr>"

text \<open>A new transaction either came with a block or spends outputs that no transaction of the pool spends.\<close>

definition may_insert :: "tx_memory_pool \<Rightarrow> tx_details \<Rightarrow> bool" where
  "may_insert p td \<longleftrightarrow> kept_by_block td \<or> (\<forall>k \<in> set (tx_images (td_tx td)). m_spent_key_images p k = None)"

lemma image_index_None: "image_index txs k = None \<longleftrightarrow> (\<forall>i td. txs i = Some td \<longrightarrow> k \<notin> set (tx_images (td_tx td)))"
  by (auto simp: image_index_def spenders_def)

lemma no_conflicts_insert:
  assumes "no_conflicts txs" and "kept_by_block td \<or> (\<forall>k \<in> set (tx_images (td_tx td)). image_index txs k = None)"
  shows "no_conflicts (txs(i \<mapsto> td))"
  using assms unfolding no_conflicts_def image_index_None by (auto split: if_splits)

lemma with_tx_ok:
  assumes "pool_ok p" and "m_transactions p i = None" and "may_insert p td" and "i = get_transaction_hash (td_tx td)"
    and "inputs_ok (td_tx td)" and "aliases_ok ((m_transactions p)(i \<mapsto> td)) al"
  shows "pool_ok (with_tx i td al p)"
  using assms no_conflicts_insert [of "m_transactions p" td i]
  by (auto simp: pool_ok_def with_tx_def transactions_ok_def may_insert_def)

lemma aliases_ok_mono: "aliases_ok txs al \<Longrightarrow> aliases_ok (txs(i \<mapsto> td)) al"
  by (auto simp: aliases_ok_def)

lemma update_new: "map_of al a = None \<Longrightarrow> AList.update a i al = al @ [(a, i)]"
  by (induction al) (auto split: if_splits)

lemma aliases_ok_add:
  assumes "aliases_ok txs al" and "txs i = None"
  shows "aliases_ok (txs(i \<mapsto> td)) (AList.update a i al)"
proof -
  have "snd ` set (AList.update a i al) \<subseteq> insert i (snd ` set al)" by (induction al) auto
  moreover have "distinct (map snd (AList.update a i al))"
  proof -
    have "i \<notin> snd ` set al" using assms by (auto simp: aliases_ok_def)
    moreover have "distinct (map snd al)" using assms by (simp add: aliases_ok_def)
    ultimately show ?thesis
    proof (induction al)
      case (Cons e al)
      have "snd ` set (AList.update a i al) \<subseteq> insert i (snd ` set al)" by (induction al) auto
      with Cons show ?case by (cases e) auto
    qed simp
  qed
  ultimately show ?thesis using assms(1) by (auto simp: aliases_ok_def distinct_update)
qed

lemma keyimges_as_spent_iff:
  "all_to_key ins \<Longrightarrow> keyimges_as_spent_loop p ins \<longleftrightarrow> (\<exists>k \<in> set (input_images ins). m_spent_key_images p k \<noteq> None)"
proof (induction ins)
  case (Cons x ins)
  from Cons.prems obtain k where "x = TxinToKey k" "all_to_key ins" by (rule all_to_key_Cons)
  with Cons.IH show ?case by (auto simp: have_tx_keyimg_as_spent_def)
qed simp

text \<open>Both branches of the insertion, and the update of the key images that follows.\<close>

lemma insert_then_index:
  assumes ok: "pool_ok p" and new: "m_transactions p i = None" and td: "inputs_ok (td_tx td)" "may_insert p td"
    and p': "p' = p\<lparr>m_transactions := (m_transactions p)(i \<mapsto> td), m_aliases_to_txid := al\<rparr>"
    and kept: "kept_by_block td = kept"
  shows "add_keyimages_loop i kept (vin (td_tx td)) (m_spent_key_images p') = (True, image_index ((m_transactions p)(i \<mapsto> td)))"
  using index_add [of "m_transactions p" i td kept, OF new td(1)] ok td(2) kept by (simp add: p' pool_ok_def may_insert_def)

lemma insert_checked_ok:
  assumes ok: "pool_ok p" and new: "m_transactions p i = None"
    and eq: "insert_checked now tx i al sz f kept h b tvc p = (r, tvc', p')"
  shows "if r then \<exists>td al'. p' = p\<lparr>m_transactions := (m_transactions p)(i \<mapsto> td), m_aliases_to_txid := al'\<rparr>
      \<and> td_tx td = tx \<and> kept_by_block td = kept \<and> blob_size td = sz \<and> fee td = f
      \<and> aliases_ok ((m_transactions p)(i \<mapsto> td)) al'
    else p' = p"
proof -
  define td where "td = no_details\<lparr>blob_size := sz, td_tx := tx, kept_by_block := kept, fee := f, max_used_block_id := b,
    max_used_block_height := h, last_failed_height := 0, last_failed_id := null_hash, receive_time := now\<rparr>"
  define al' where "al' = (if length al \<noteq> 0 then AList.update al i (m_aliases_to_txid p) else m_aliases_to_txid p)"
  have "aliases_ok ((m_transactions p)(i \<mapsto> td)) al'"
    using ok new aliases_ok_add [of "m_transactions p" "m_aliases_to_txid p" i] aliases_ok_mono [of "m_transactions p" "m_aliases_to_txid p"]
    by (simp add: al'_def pool_ok_def)
  moreover have "r \<Longrightarrow> p' = p\<lparr>m_transactions := (m_transactions p)(i \<mapsto> td), m_aliases_to_txid := al'\<rparr>" "\<not> r \<Longrightarrow> p' = p"
    using eq new by (cases p; auto simp: insert_checked_def add_alias_tx_pair_def al'_def td_def split: if_splits)+
  moreover have "td_tx td = tx \<and> kept_by_block td = kept \<and> blob_size td = sz \<and> fee td = f" by (simp add: td_def)
  ultimately show ?thesis by (cases r) auto
qed

text \<open>The pool from which the transaction with the same alias was removed.\<close>

lemma insert_unchecked_ok:
  assumes ok: "pool_ok p" and new: "m_transactions p i = None"
    and eq: "insert_unchecked now tx i al sz f tvc p = (r, tvc', p')"
  shows "\<exists>q td. r \<and> pool_ok q \<and> m_transactions q i = None \<and> (q = p \<or> (\<exists>j. q = without_tx j p))
    \<and> p' = q\<lparr>m_transactions := (m_transactions q)(i \<mapsto> td)\<rparr>
    \<and> td_tx td = tx \<and> kept_by_block td \<and> blob_size td = sz \<and> fee td = f"
proof -
  define q where "q = (if length al \<noteq> 0 \<and> find_alias al p \<noteq> null_hash then snd (take_tx (find_alias al p) p) else p)"
  define td where "td = no_details\<lparr>blob_size := sz, td_tx := tx, fee := f, max_used_block_id := null_hash,
    max_used_block_height := 0, kept_by_block := True, receive_time := now\<rparr>"
  have q: "q = p \<or> (\<exists>j. q = without_tx j p)"
  proof (cases "m_transactions p (find_alias al p)")
    case None
    then show ?thesis by (simp add: q_def take_tx_def)
  next
    case (Some td)
    then show ?thesis using take_tx_eq [OF ok Some] by (auto simp: q_def)
  qed
  then have q': "pool_ok q" "m_transactions q i = None"
    using ok new without_tx_ok by (auto simp: without_tx_def)
  have "insert_unchecked now tx i al sz f tvc p =
     (if m_transactions q i \<noteq> None then (False, tvc, q)
      else (True, tvc\<lparr>m_verifivation_impossible := True, m_added_to_pool := True\<rparr>, q\<lparr>m_transactions := (m_transactions q)(i \<mapsto> td)\<rparr>))"
    by (simp add: insert_unchecked_def q_def td_def Let_def)
  then have "r" "p' = q\<lparr>m_transactions := (m_transactions q)(i \<mapsto> td)\<rparr>" using eq q'(2) by simp_all
  then show ?thesis using q q' by (intro exI [of _ q] exI [of _ td]) (simp add: td_def)
qed

text \<open>Both insertions in one form: a transaction with its details is added to the pool \<open>q\<close>.\<close>

lemma insert_ok:
  assumes ok: "pool_ok p" and new: "m_transactions p i = None" and kept: "\<not> res \<Longrightarrow> kept"
    and eq: "(if \<not> res then insert_unchecked now tx i al sz f tvc p else insert_checked now tx i al sz f kept h b tvc p) = (r, tvc', p')"
  shows "if r then \<exists>q td al'. p' = q\<lparr>m_transactions := (m_transactions q)(i \<mapsto> td), m_aliases_to_txid := al'\<rparr>
      \<and> pool_ok q \<and> m_transactions q i = None \<and> (q = p \<or> kept \<and> (\<exists>j. q = without_tx j p))
      \<and> td_tx td = tx \<and> kept_by_block td = kept \<and> blob_size td = sz \<and> fee td = f
      \<and> aliases_ok ((m_transactions q)(i \<mapsto> td)) al'
    else p' = p"
proof (cases res)
  case True
  then have "insert_checked now tx i al sz f kept h b tvc p = (r, tvc', p')" using eq by simp
  from insert_checked_ok [OF ok new this] show ?thesis using ok new by (cases r) auto
next
  case False
  then have "insert_unchecked now tx i al sz f tvc p = (r, tvc', p')" using eq by simp
  from insert_unchecked_ok [OF ok new this] obtain q td where q: "r" "pool_ok q" "m_transactions q i = None"
    "q = p \<or> (\<exists>j. q = without_tx j p)" "p' = q\<lparr>m_transactions := (m_transactions q)(i \<mapsto> td)\<rparr>"
    "td_tx td = tx" "kept_by_block td" "blob_size td = sz" "fee td = f" by blast
  have "p' = q\<lparr>m_transactions := (m_transactions q)(i \<mapsto> td), m_aliases_to_txid := m_aliases_to_txid q\<rparr>"
    unfolding q(5) by (cases q) simp
  moreover have "aliases_ok ((m_transactions q)(i \<mapsto> td)) (m_aliases_to_txid q)"
    using q(2) by (simp add: pool_ok_def aliases_ok_mono)
  moreover have "q = p \<or> kept \<and> (\<exists>j. q = without_tx j p)" using q(4) kept False by blast
  ultimately show ?thesis
    using q(1-3,6-9) kept [OF False]
    by (simp only: if_True, intro exI [of _ q] exI [of _ td] exI [of _ "m_aliases_to_txid q"]) simp
qed

text \<open>A transaction that is not in the pool is added completely, or the pool stays as it is.\<close>

lemma add_tx_new:
  assumes ok: "pool_ok p" and new: "m_transactions p i = None" and i: "i = get_transaction_hash tx" and tx: "inputs_ok tx"
    and eq: "add_tx bc now tx i tvc kept al p = (r, tvc', p')"
  shows "if r then \<exists>td q al'. (q = p \<or> (\<exists>j. q = without_tx j p)) \<and> p' = with_tx i td al' q \<and> pool_ok p'
      \<and> td_tx td = tx \<and> kept_by_block td = kept \<and> blob_size td = get_object_blobsize tx \<and> Some (fee td) = get_tx_fee tx
      \<and> may_insert q td \<and> (kept \<or> q = p)
    else p' = p"
proof -
  have types: "check_inputs_types_supported tx" "all_to_key (vin tx)" using tx by (simp_all add: inputs_ok_def check_inputs_types_supported_def)
  show ?thesis
  proof (cases "r \<or> p' \<noteq> p")
    case True
    obtain ins where ins: "get_inputs_money_amount tx = Some ins" using True eq by (auto simp: add_tx_def Let_def split: option.splits if_splits)
    let ?f = "ins - get_outs_money_amount tx"
    have more: "get_outs_money_amount tx < ins" using True eq ins by (auto simp: add_tx_def Let_def split: if_splits)
    have fee: "get_tx_fee tx = Some ?f"
      using ins more by (simp add: get_tx_fee_def get_inputs_money_amount_def get_outs_money_amount_def Let_def)
    have free: "kept \<or> (\<forall>k \<in> set (tx_images tx). m_spent_key_images p k = None)"
      using True eq ins types by (auto simp: add_tx_def Let_def have_tx_keyimges_as_spent_def keyimges_as_spent_iff split: if_splits)
    obtain res h b where chk: "view_check_tx_inputs bc tx 0 null_hash = (res, h, b)" by (cases "view_check_tx_inputs bc tx 0 null_hash")
    obtain r1 tvc1 p1 where p1: "(if \<not> res then insert_unchecked now tx i al (get_object_blobsize tx) ?f tvc p
        else insert_checked now tx i al (get_object_blobsize tx) ?f kept h b tvc p) = (r1, tvc1, p1)" by (metis prod_cases3)
    have kept: "\<not> res \<Longrightarrow> kept" and step: "(r, tvc', p') = (if r1 then (case add_keyimages_loop i kept (vin tx) (m_spent_key_images p1) of
        (r, im) \<Rightarrow> (r, tvc1\<lparr>m_verifivation_failed := \<not> r\<rparr>, p1\<lparr>m_spent_key_images := im\<rparr>)) else (False, tvc1, p1))"
      using True eq ins more types chk p1 by (auto simp: add_tx_def Let_def split: if_splits)
    have ins_ok: "if r1 then \<exists>q td al'. p1 = q\<lparr>m_transactions := (m_transactions q)(i \<mapsto> td), m_aliases_to_txid := al'\<rparr>
        \<and> pool_ok q \<and> m_transactions q i = None \<and> (q = p \<or> kept \<and> (\<exists>j. q = without_tx j p))
        \<and> td_tx td = tx \<and> kept_by_block td = kept \<and> blob_size td = get_object_blobsize tx \<and> fee td = ?f
        \<and> aliases_ok ((m_transactions q)(i \<mapsto> td)) al' else p1 = p"
      by (rule insert_ok [OF ok new kept p1])
    then have r1: r1 using True step by (cases r1) auto
    then obtain q td al' where q: "p1 = q\<lparr>m_transactions := (m_transactions q)(i \<mapsto> td), m_aliases_to_txid := al'\<rparr>"
      "pool_ok q" "m_transactions q i = None" "q = p \<or> kept \<and> (\<exists>j. q = without_tx j p)"
      and td: "td_tx td = tx" "kept_by_block td = kept" "blob_size td = get_object_blobsize tx" "fee td = ?f"
      and al': "aliases_ok ((m_transactions q)(i \<mapsto> td)) al'"
      using ins_ok by auto
    have may: "may_insert q td" using free q(4) td by (auto simp: may_insert_def)
    have "add_keyimages_loop i kept (vin (td_tx td)) (m_spent_key_images p1) = (True, image_index ((m_transactions q)(i \<mapsto> td)))"
      using tx td by (intro insert_then_index [OF q(2,3) _ may q(1) td(2)]) simp
    then have "r" "p' = with_tx i td al' q" using step r1 q(1) td(1) by (cases q; simp add: with_tx_def)+
    moreover have "pool_ok (with_tx i td al' q)" using i tx td by (intro with_tx_ok [OF q(2,3) may _ _ al']) simp_all
    moreover have "q = p \<or> (\<exists>j. q = without_tx j p)" "kept \<or> q = p" using q(4) by auto
    ultimately show ?thesis
      using td may fee by (simp only: if_True, intro exI [of _ td] exI [of _ q] exI [of _ al']) simp
  next
    case False
    then show ?thesis by simp
  qed
qed

lemma add_tx_present:
  assumes "m_transactions p i \<noteq> None"
  shows "fst (add_tx bc now tx i tvc kept [] p) = False \<and> snd (snd (add_tx bc now tx i tvc kept [] p)) = p"
  using assms by (auto simp: add_tx_def Let_def insert_unchecked_def insert_checked_def add_alias_tx_pair_def
      split: option.splits prod.splits)

end
