(* ===== verification/BlockTemplate.thy ===== *)
theory BlockTemplate
  imports PoolInvariant "HOL-Library.Multiset"
begin

text \<open>
  The choice of transactions for a block template: the loop of \<open>fill_block_template\<close> keeps a set of transactions
  that a block can hold together, with their size and fee, and the best prefix found so far.
\<close>

section \<open>Block templates\<close>

text \<open>Two versions of the details that differ only in what \<open>is_transaction_ready_to_go\<close> remembers.\<close>

definition same_details :: "tx_details \<Rightarrow> tx_details \<Rightarrow> bool" where
  "same_details a b \<longleftrightarrow> td_tx a = td_tx b \<and> blob_size a = blob_size b \<and> fee a = fee b \<and> kept_by_block a = kept_by_block b"

definition same_txs :: "(hash \<rightharpoonup> tx_details) \<Rightarrow> (hash \<rightharpoonup> tx_details) \<Rightarrow> bool" where
  "same_txs txs txs' \<longleftrightarrow> (\<forall>i. rel_option same_details (txs i) (txs' i))"

lemma same_txs_dom: "same_txs txs txs' \<Longrightarrow> dom txs' = dom txs"
  unfolding same_txs_def by (auto simp: option_rel_Some1 option_rel_Some2 dom_def) (metis option_rel_Some1 option_rel_Some2)+

lemma same_txs_Some: "same_txs txs txs' \<Longrightarrow> txs' i = Some td' \<Longrightarrow> \<exists>td. txs i = Some td \<and> same_details td td'"
  unfolding same_txs_def by (metis option_rel_Some2)

lemma same_txs_Some': "same_txs txs txs' \<Longrightarrow> txs i = Some td \<Longrightarrow> \<exists>td'. txs' i = Some td' \<and> same_details td td'"
  unfolding same_txs_def by (metis option_rel_Some1)

lemma same_txs_index: "same_txs txs txs' \<Longrightarrow> image_index txs' = image_index txs"
proof -
  assume s: "same_txs txs txs'"
  have "spenders txs' k = spenders txs k" for k
    unfolding spenders_def using same_txs_Some [OF s] same_txs_Some' [OF s] by (auto simp: same_details_def) metis+
  then show ?thesis by (auto simp: image_index_def)
qed

lemma same_txs_ok:
  assumes "pool_ok p" and s: "same_txs (m_transactions p) txs'"
  shows "pool_ok (p\<lparr>m_transactions := txs'\<rparr>)"
proof -
  have "transactions_ok txs'" using assms same_txs_Some [OF s] by (fastforce simp: pool_ok_def transactions_ok_def same_details_def)
  moreover have "no_conflicts txs'"
    unfolding no_conflicts_def
  proof (intro allI impI, elim conjE)
    fix i j td td' assume a: "txs' i = Some td" "txs' j = Some td'" "i \<noteq> j" "\<not> kept_by_block td" "\<not> kept_by_block td'"
    obtain ti tj where "m_transactions p i = Some ti" "same_details ti td" "m_transactions p j = Some tj" "same_details tj td'"
      using same_txs_Some [OF s a(1)] same_txs_Some [OF s a(2)] by blast
    then show "\<forall>k \<in> set (tx_images (td_tx td)). k \<notin> set (tx_images (td_tx td'))"
      using assms(1) a(3-5) unfolding pool_ok_def no_conflicts_def same_details_def by metis
  qed
  ultimately show ?thesis
    using assms same_txs_index [OF s] same_txs_dom [OF s] by (simp add: pool_ok_def aliases_ok_def)
qed

lemma ready_same: "is_transaction_ready_to_go bc txd = (r, txd') \<Longrightarrow> same_details txd txd' \<and> (r \<longrightarrow> \<not> view_have_tx_keyimges_as_spent bc (td_tx txd))"
  by (auto simp: is_transaction_ready_to_go_def recheck_inputs_def same_details_def Let_def split: if_splits prod.splits)

lemma have_key_images_iff: "all_to_key (vin tx) \<Longrightarrow> have_key_images s tx \<longleftrightarrow> s \<inter> set (tx_images tx) \<noteq> {}"
  unfolding have_key_images_def
proof (induction "vin tx" arbitrary: tx)
  case (Cons x ins)
  from Cons.prems [folded Cons.hyps(2)] obtain k where k: "x = TxinToKey k" "all_to_key ins" by (rule all_to_key_Cons)
  then show ?case using Cons.hyps(1) [of "tx\<lparr>vin := ins\<rparr>"] by (simp flip: Cons.hyps(2))
qed simp

lemma append_loop: "all_to_key ins \<Longrightarrow> distinct (input_images ins) \<Longrightarrow> s \<inter> set (input_images ins) = {} \<Longrightarrow>
  append_key_images_loop ins s = (True, s \<union> set (input_images ins))"
proof (induction ins arbitrary: s)
  case (Cons x ins)
  from Cons.prems(1) obtain k where k: "x = TxinToKey k" "all_to_key ins" by (rule all_to_key_Cons)
  have "append_key_images_loop ins (insert (ki_k_image k) s) = (True, insert (ki_k_image k) s \<union> set (input_images ins))"
    using Cons.prems k by (intro Cons.IH) auto
  then show ?case using Cons.prems(3) k by auto
qed simp

text \<open>The transactions that are in the template so far, and those of the best position.\<close>

definition so_far :: "template_loop \<Rightarrow> hash list" where
  "so_far l = List.map_filter id (entries l)"

definition chosen :: "template_loop \<Rightarrow> hash list" where
  "chosen l = List.map_filter id (take (best_position l) (entries l))"

definition images_of :: "(hash \<rightharpoonup> tx_details) \<Rightarrow> hash \<Rightarrow> key_image set" where
  "images_of txs i = set (tx_images (td_tx (the (txs i))))"

text \<open>A set of transactions that a block can hold together.\<close>

definition compatible :: "blockchain_view \<Rightarrow> (hash \<rightharpoonup> tx_details) \<Rightarrow> hash list \<Rightarrow> bool" where
  "compatible bc txs is \<longleftrightarrow> distinct is \<and> set is \<subseteq> dom txs
     \<and> (\<forall>i \<in> set is. \<not> view_have_tx_keyimges_as_spent bc (td_tx (the (txs i))))
     \<and> (\<forall>i \<in> set is. \<forall>j \<in> set is. i \<noteq> j \<longrightarrow> images_of txs i \<inter> images_of txs j = {})"

definition size_of_txs :: "(hash \<rightharpoonup> tx_details) \<Rightarrow> hash list \<Rightarrow> u64" where
  "size_of_txs txs is = sum_list (map (\<lambda>i. blob_size (the (txs i))) is)"

definition fee_of_txs :: "(hash \<rightharpoonup> tx_details) \<Rightarrow> hash list \<Rightarrow> u64" where
  "fee_of_txs txs is = sum_list (map (\<lambda>i. fee (the (txs i))) is)"

definition current_ok :: "blockchain_view \<Rightarrow> (hash \<rightharpoonup> tx_details) \<Rightarrow> template_loop \<Rightarrow> bool" where
  "current_ok bc txs l \<longleftrightarrow> same_txs txs (tl_transactions l) \<and> compatible bc txs (so_far l)
     \<and> k_images l = (\<Union>i \<in> set (so_far l). images_of txs i)
     \<and> current_size l = size_of_txs txs (so_far l) \<and> current_fee l = fee_of_txs txs (so_far l)"

definition best_ok :: "(hash \<rightharpoonup> tx_details) \<Rightarrow> (u64 \<Rightarrow> u64 option) \<Rightarrow> u64 \<Rightarrow> template_loop \<Rightarrow> bool" where
  "best_ok txs reward_of reward l \<longleftrightarrow> best_position l \<le> length (entries l)
     \<and> total_size l = size_of_txs txs (chosen l) \<and> total_fee l = fee_of_txs txs (chosen l)
     \<and> (\<exists>r. reward_of (total_size l + CURRENCY_COINBASE_BLOB_RESERVED_SIZE) = Some r \<and> best_money l = r + total_fee l)
     \<and> reward \<le> best_money l"

lemma chosen_prefix: "\<exists>rest. so_far l = chosen l @ rest"
proof -
  have "so_far l = List.map_filter id (take (best_position l) (entries l) @ drop (best_position l) (entries l))"
    by (simp add: so_far_def)
  then show ?thesis by (simp add: chosen_def List.map_filter_def del: append_take_drop_id)
qed

lemma compatible_prefix: "compatible bc txs (xs @ ys) \<Longrightarrow> compatible bc txs xs"
  by (simp add: compatible_def)

lemma so_far_append: "entries l = es @ [e] \<Longrightarrow> so_far l = List.map_filter id es @ (case e of None \<Rightarrow> [] | Some i \<Rightarrow> [i])"
  by (cases e) (simp_all add: so_far_def List.map_filter_def)

lemma same_txs_update:
  "same_txs txs txs' \<Longrightarrow> txs i = Some td \<Longrightarrow> same_details td td' \<Longrightarrow> same_txs txs (txs'(i \<mapsto> td'))"
  by (simp add: same_txs_def)

text \<open>One transaction that joins the template.\<close>

lemma current_ok_add:
  assumes ok: "current_ok bc txs l" and i: "txs i = Some txd" "i \<notin> set (so_far l)" and tx: "inputs_ok (td_tx txd)"
    and same: "same_details txd txd'" and ready: "\<not> view_have_tx_keyimges_as_spent bc (td_tx txd)"
    and free: "\<not> have_key_images (k_images l) (td_tx txd')"
    and l': "l' = l\<lparr>tl_transactions := (tl_transactions l)(i \<mapsto> txd'), entries := entries l @ [Some i],
      k_images := snd (append_key_images (k_images l) (td_tx txd')),
      current_size := current_size l + blob_size txd', current_fee := current_fee l + fee txd'\<rparr>"
  shows "current_ok bc txs l'"
proof -
  have so: "so_far l' = so_far l @ [i]" by (simp add: l' so_far_def List.map_filter_def)
  have det: "td_tx txd' = td_tx txd" "blob_size txd' = blob_size txd" "fee txd' = fee txd" using same by (simp_all add: same_details_def)
  have key: "all_to_key (vin (td_tx txd))" using tx by (simp add: inputs_ok_def check_inputs_types_supported_def)
  have im: "images_of txs i = set (tx_images (td_tx txd))" using i(1) by (simp add: images_of_def)
  have disj: "k_images l \<inter> images_of txs i = {}" using free key det im by (simp add: have_key_images_iff)
  then have "snd (append_key_images (k_images l) (td_tx txd')) = k_images l \<union> images_of txs i"
    using append_loop [OF key, of "k_images l"] tx det im by (simp add: append_key_images_def inputs_ok_def)
  moreover have "compatible bc txs (so_far l @ [i])"
    using ok i ready disj by (auto simp: current_ok_def compatible_def)
  moreover have "same_txs txs (tl_transactions l')"
    using ok i(1) same by (simp add: l' current_ok_def same_txs_update)
  ultimately show ?thesis
    using ok i(1) det so by (auto simp: current_ok_def l' size_of_txs_def fee_of_txs_def)
qed

lemma current_ok_skip:
  assumes "current_ok bc txs l" and "txs i = Some txd" and "same_details txd txd'"
  shows "current_ok bc txs (l\<lparr>tl_transactions := (tl_transactions l)(i \<mapsto> txd'), entries := entries l @ [None]\<rparr>)"
  using assms by (simp add: current_ok_def so_far_def List.map_filter_def same_txs_update)

lemma best_ok_extend: "best_ok txs rw r0 l \<Longrightarrow> best_ok txs rw r0 (l\<lparr>tl_transactions := t, entries := entries l @ es, k_images := k,
    current_size := cs, current_fee := cf\<rparr>)"
  by (auto simp: best_ok_def chosen_def)

lemma best_ok_improve:
  assumes "current_ok bc txs l" and "rw (current_size l + CURRENCY_COINBASE_BLOB_RESERVED_SIZE) = Some r"
    and "best_money l < r + current_fee l" and "best_ok txs rw r0 l"
  shows "best_ok txs rw r0 (l\<lparr>best_money := r + current_fee l, best_position := length (entries l),
    total_size := current_size l, total_fee := current_fee l\<rparr>)"
  using assms by (auto simp: best_ok_def current_ok_def chosen_def so_far_def)

lemma best_ok_skip: "best_ok txs rw r0 l \<Longrightarrow> best_ok txs rw r0 (l\<lparr>tl_transactions := t, entries := entries l @ es\<rparr>)"
  by (auto simp: best_ok_def chosen_def)

lemma current_ok_best: "current_ok bc txs (l\<lparr>best_money := a, best_position := b, total_size := c, total_fee := d\<rparr>) = current_ok bc txs l"
  by (simp add: current_ok_def so_far_def)

lemma template_step_ok:
  assumes "current_ok bc txs l" and "best_ok txs (\<lambda>s. get_block_reward m s c h) r0 l"
    and "\<forall>(i, txd) \<in> set todo. txs i = Some txd \<and> inputs_ok (td_tx txd)"
    and "distinct (map fst todo)" and "set (so_far l) \<inter> fst ` set todo = {}"
  shows "current_ok bc txs (template_step bc m c h todo l) \<and> best_ok txs (\<lambda>s. get_block_reward m s c h) r0 (template_step bc m c h todo l)"
  using assms
proof (induction todo arbitrary: l)
  case (Cons e todo)
  obtain i txd where e: "e = (i, txd)" by (cases e)
  obtain ready txd' where r: "is_transaction_ready_to_go bc txd = (ready, txd')" by (cases "is_transaction_ready_to_go bc txd")
  note same = ready_same [OF r]
  have i: "txs i = Some txd" "inputs_ok (td_tx txd)" "i \<notin> set (so_far l)" "i \<notin> fst ` set todo" using Cons.prems e by auto
  have todo: "\<forall>(i, txd) \<in> set todo. txs i = Some txd \<and> inputs_ok (td_tx txd)" "distinct (map fst todo)" using Cons.prems by auto
  show ?case
  proof (cases "\<not> ready \<or> have_key_images (k_images l) (td_tx txd')")
    case True
    let ?l = "l\<lparr>tl_transactions := (tl_transactions l)(i \<mapsto> txd'), entries := entries l @ [None]\<rparr>"
    have "template_step bc m c h (e # todo) l = template_step bc m c h todo ?l" using True e r by (simp add: Let_def)
    moreover have "so_far ?l = so_far l" by (simp add: so_far_def List.map_filter_def)
    ultimately show ?thesis
      using Cons.IH [of ?l] todo Cons.prems(1,2,5) i same by (auto simp: current_ok_skip best_ok_skip)
  next
    case False
    define l1 where "l1 = l\<lparr>tl_transactions := (tl_transactions l)(i \<mapsto> txd'), entries := entries l @ [Some i],
      k_images := snd (append_key_images (k_images l) (td_tx txd')),
      current_size := current_size l + blob_size txd', current_fee := current_fee l + fee txd'\<rparr>"
    have cur: "current_ok bc txs l1"
      using False i same by (intro current_ok_add [OF Cons.prems(1) i(1,3,2) _ _ _ l1_def]) auto
    have best: "best_ok txs (\<lambda>s. get_block_reward m s c h) r0 l1" using Cons.prems(2) by (simp add: l1_def best_ok_extend)
    have so: "so_far l1 = so_far l @ [i]" by (simp add: l1_def so_far_def List.map_filter_def)
    show ?thesis
    proof (cases "get_block_reward m (current_size l1 + CURRENCY_COINBASE_BLOB_RESERVED_SIZE) c h")
      case None
      then have "template_step bc m c h (e # todo) l = l1" using False e r by (simp add: Let_def l1_def)
      then show ?thesis using cur best by simp
    next
      case (Some rw)
      define l2 where "l2 = (if best_money l1 < rw + current_fee l1 then l1\<lparr>best_money := rw + current_fee l1,
        best_position := length (entries l1), total_size := current_size l1, total_fee := current_fee l1\<rparr> else l1)"
      have "template_step bc m c h (e # todo) l = template_step bc m c h todo l2"
        using False e r Some by (simp add: Let_def l1_def l2_def)
      moreover have "current_ok bc txs l2" using cur by (simp add: l2_def current_ok_best)
      moreover have "best_ok txs (\<lambda>s. get_block_reward m s c h) r0 l2"
        using best best_ok_improve [OF cur, where rw = "\<lambda>s. get_block_reward m s c h", OF Some _ best] by (simp add: l2_def)
      moreover have "so_far l2 = so_far l @ [i]" using so by (simp add: l2_def so_far_def)
      ultimately show ?thesis using Cons.IH [of l2] todo Cons.prems(5) i(4) by auto
    qed
  qed
qed simp

lemma sort_by_fee_mset: "mset (sort_by_fee txs) = mset txs"
proof -
  have "mset (insert_by_fee a ys) = add_mset a (mset ys)" for a ys by (induction ys) auto
  then show ?thesis by (induction txs) (simp_all add: sort_by_fee_def)
qed

lemma fill_block_template_ok:
  assumes ok: "pool_ok p" and order: "distinct order"
    and eq: "fill_block_template bc order bl m c h p = Some (bl', sz, f, p')"
  shows "\<exists>is r r0. tx_hashes bl' = tx_hashes bl @ is \<and> compatible bc (m_transactions p) is
    \<and> sz = size_of_txs (m_transactions p) is \<and> f = fee_of_txs (m_transactions p) is
    \<and> get_block_reward m (sz + CURRENCY_COINBASE_BLOB_RESERVED_SIZE) c h = Some r
    \<and> get_block_reward m CURRENCY_COINBASE_BLOB_RESERVED_SIZE c h = Some r0 \<and> r0 \<le> r + f
    \<and> pool_ok p'"
proof -
  define todo where "todo = sort_by_fee (List.map_filter (\<lambda>i. map_option (Pair i) (m_transactions p i)) order)"
  obtain r0 where r0: "get_block_reward m CURRENCY_COINBASE_BLOB_RESERVED_SIZE c h = Some r0"
    using eq by (auto simp: fill_block_template_def Let_def split: option.splits)
  define l where "l = template_step bc m c h todo (template_init r0 p)"
  have res: "bl' = bl\<lparr>tx_hashes := tx_hashes bl @ chosen l\<rparr>" "sz = total_size l" "f = total_fee l" "p' = p\<lparr>m_transactions := tl_transactions l\<rparr>"
    using eq r0 by (auto simp: fill_block_template_def Let_def l_def todo_def chosen_def)
  have mem: "mset todo = mset (List.map_filter (\<lambda>i. map_option (Pair i) (m_transactions p i)) order)"
    by (simp add: todo_def sort_by_fee_mset)
  have enum: "map fst (List.map_filter (\<lambda>i. map_option (Pair i) (m_transactions p i)) order) = filter (\<lambda>i. m_transactions p i \<noteq> None) order"
    by (induction order) (auto simp: List.map_filter_def)
  have "\<forall>(i, txd) \<in> set todo. m_transactions p i = Some txd \<and> inputs_ok (td_tx txd)"
    unfolding mset_eq_setD [OF mem] using pool_okD(2) [OF ok] by (auto simp: List.map_filter_def)
  moreover have "mset (map fst todo) = mset (filter (\<lambda>i. m_transactions p i \<noteq> None) order)"
    unfolding enum [symmetric] mset_map mem ..
  then have "distinct (map fst todo)"
    using order distinct_filter [OF order] by (metis mset_eq_imp_distinct_iff)
  moreover have "current_ok bc (m_transactions p) (template_init r0 p)"
    by (simp add: current_ok_def template_init_def so_far_def List.map_filter_def compatible_def size_of_txs_def fee_of_txs_def
        same_txs_def option.rel_refl same_details_def)
  moreover have "best_ok (m_transactions p) (\<lambda>s. get_block_reward m s c h) r0 (template_init r0 p)"
    using r0 by (simp add: best_ok_def template_init_def chosen_def List.map_filter_def size_of_txs_def fee_of_txs_def)
  moreover have "so_far (template_init r0 p) = []" by (simp add: so_far_def template_init_def List.map_filter_def)
  ultimately have fin: "current_ok bc (m_transactions p) l" "best_ok (m_transactions p) (\<lambda>s. get_block_reward m s c h) r0 l"
    using template_step_ok [of bc "m_transactions p" "template_init r0 p" m c h r0 todo] by (simp_all add: l_def)
  obtain rest where rest: "so_far l = chosen l @ rest" using chosen_prefix by blast
  have comp: "compatible bc (m_transactions p) (chosen l)"
    using fin(1) compatible_prefix [of bc "m_transactions p" "chosen l" rest] by (simp add: current_ok_def flip: rest)
  have "pool_ok p'" using fin(1) by (simp add: res(4) current_ok_def same_txs_ok [OF ok])
  then show ?thesis using comp fin(2) r0 res by (intro exI [of _ "chosen l"]) (auto simp: best_ok_def)
qed

end
