(* ===== verification/CoreTx.thy ===== *)
theory CoreTx
  imports BlockTemplate Transitions
begin

text \<open>
  How a transaction enters the node: \<open>handle_incoming_tx\<close> of \<open>src/currency_core/currency_core.cpp\<close> and the checks
  it makes before the pool is asked. These checks are what the pool relies on. The states the pool can reach are
  those after any sequence of the operations that the core and the blockchain call.
\<close>

section \<open>Definitions\<close>

definition CURRENCY_MAX_TX_SIZE :: nat where
  "CURRENCY_MAX_TX_SIZE = 1000000000"

fun keyimages_diff_loop :: "txin_v list \<Rightarrow> key_image set \<Rightarrow> bool" where
  "keyimages_diff_loop [] ki = True"
| "keyimages_diff_loop (TxinToKey k # ins) ki =
    (if ki_k_image k \<in> ki then False else keyimages_diff_loop ins (insert (ki_k_image k) ki))"
| "keyimages_diff_loop (_ # ins) ki = False"

definition check_tx_inputs_keyimages_diff :: "transaction \<Rightarrow> bool" where
  "check_tx_inputs_keyimages_diff tx = keyimages_diff_loop (vin tx) {}"

definition check_tx_semantic :: "(public_key \<Rightarrow> bool) \<Rightarrow> blockchain_view \<Rightarrow> transaction \<Rightarrow> bool \<Rightarrow> bool" where
  "check_tx_semantic check_key bc tx keeped_by_block =
    (if length (vin tx) = 0 then False
     else if \<not> check_inputs_types_supported tx then False
     else if \<not> check_outs_valid check_key tx then False
     else if \<not> check_money_overflow tx then False
     else let amount_in = (case get_inputs_money_amount tx of None \<Rightarrow> 0 | Some a \<Rightarrow> a);
              amount_out = get_outs_money_amount tx
          in if amount_in \<le> amount_out then False
             else if \<not> keeped_by_block
                 \<and> get_object_blobsize tx \<ge> comulative_blocksize_limit bc - CURRENCY_COINBASE_BLOB_RESERVED_SIZE then False
             else if \<not> check_tx_inputs_keyimages_diff tx then False
             else True)"

text \<open>The result and the alias; \<open>None\<close> when the parser reads out of bounds.\<close>

definition check_tx_extra ::
  "(txout_to_key \<Rightarrow> public_key \<Rightarrow> nat \<Rightarrow> bool) option \<Rightarrow> transaction \<Rightarrow> bytes \<Rightarrow> (bool \<times> bytes) option" where
  "check_tx_extra acc tx al =
    (let alias_of = (\<lambda>ei. if length (m_alias (ei_alias ei)) \<noteq> 0 then m_alias (ei_alias ei) else al)
     in case parse_and_validate_tx_extra acc tx null_extra of
          OutOfBounds \<Rightarrow> None
        | Refused ei \<Rightarrow> Some (False, alias_of ei)
        | Done ei \<Rightarrow> Some (True, alias_of ei))"

definition add_new_tx ::
  "blockchain_view \<Rightarrow> u64 \<Rightarrow> transaction \<Rightarrow> hash \<Rightarrow> tx_verification_context \<Rightarrow> bool \<Rightarrow> bytes \<Rightarrow> tx_memory_pool
    \<Rightarrow> bool \<times> tx_verification_context \<times> tx_memory_pool" where
  "add_new_tx bc now tx tx_hash tvc keeped_by_block al p =
    (if have_tx tx_hash p then (True, tvc, p)
     else if view_have_tx bc tx_hash then (True, tvc, p)
     else add_tx bc now tx tx_hash tvc keeped_by_block al p)"

definition no_verification :: tx_verification_context where
  "no_verification = \<lparr>m_should_be_relayed = False, m_verifivation_failed = False, m_verifivation_impossible = False,
     m_added_to_pool = False\<rparr>"

definition handle_incoming_tx ::
  "(public_key \<Rightarrow> bool) \<Rightarrow> (txout_to_key \<Rightarrow> public_key \<Rightarrow> nat \<Rightarrow> bool) option \<Rightarrow> blockchain_view \<Rightarrow> u64 \<Rightarrow> bytes \<Rightarrow> bool
    \<Rightarrow> tx_memory_pool \<Rightarrow> (bool \<times> tx_verification_context \<times> tx_memory_pool) option" where
  "handle_incoming_tx check_key acc bc now tx_blob keeped_by_block p =
    (let tvc = no_verification;
         failed = Some (False, tvc\<lparr>m_verifivation_failed := True\<rparr>, p)
     in if length tx_blob > CURRENCY_MAX_TX_SIZE then failed
        else case parse_and_validate_tx_from_blob tx_blob of
               None \<Rightarrow> failed
             | Some tx \<Rightarrow>
                 if \<not> check_tx_semantic check_key bc tx keeped_by_block then failed
                 else case check_tx_extra acc tx [] of
                        None \<Rightarrow> None
                      | Some (r, al) \<Rightarrow>
                          if \<not> r then failed
                          else Some (add_new_tx bc now tx (get_transaction_hash tx) tvc keeped_by_block al p))"

section \<open>The checks supply what the pool relies on\<close>

lemma keyimages_diff_iff:
  "keyimages_diff_loop ins ki \<longleftrightarrow> all_to_key ins \<and> distinct (input_images ins) \<and> ki \<inter> set (input_images ins) = {}"
proof (induction ins arbitrary: ki)
  case (Cons x ins)
  then show ?case by (cases x) auto
qed simp

lemma check_tx_semantic_ok:
  "check_tx_semantic check_key bc tx kept \<Longrightarrow> inputs_ok tx \<and> check_money_overflow tx \<and> vin tx \<noteq> []"
  by (auto simp: check_tx_semantic_def Let_def check_tx_inputs_keyimages_diff_def keyimages_diff_iff inputs_ok_def split: if_splits)

text \<open>The outcome of an incoming transaction: nothing changes, or the transaction is in the pool.\<close>

lemma handle_incoming_cases:
  assumes ok: "pool_ok p" and eq: "handle_incoming_tx check_key acc bc now blob kept p = Some (r, tvc, p')"
  shows "pool_ok p' \<and> (p' = p \<or> (\<exists>tx td q al. parse_and_validate_tx_from_blob blob = Some tx \<and> r \<and> m_transactions p (get_transaction_hash tx) = None
      \<and> (q = p \<or> kept \<and> (\<exists>j. q = without_tx j p)) \<and> p' = with_tx (get_transaction_hash tx) td al q
      \<and> td_tx td = tx \<and> Some (fee td) = get_tx_fee tx \<and> kept_by_block td = kept \<and> may_insert q td))"
proof (cases "p' = p")
  case False
  obtain tx al where tx: "parse_and_validate_tx_from_blob blob = Some tx" "check_tx_semantic check_key bc tx kept"
    and add: "add_new_tx bc now tx (get_transaction_hash tx) no_verification kept al p = (r, tvc, p')"
    using eq False by (auto simp: handle_incoming_tx_def Let_def split: if_splits option.splits)
  have new: "m_transactions p (get_transaction_hash tx) = None"
    and "add_tx bc now tx (get_transaction_hash tx) no_verification kept al p = (r, tvc, p')"
    using add False by (auto simp: add_new_tx_def have_tx_def split: if_splits)
  from add_tx_new [OF ok new refl _ this(2)] check_tx_semantic_ok [OF tx(2)] False show ?thesis
    using tx(1) new by (cases r) auto
qed (simp add: ok)

section \<open>Reachable pools\<close>

definition pool_init :: "tx_memory_pool \<Rightarrow> bool" where
  "pool_init p \<longleftrightarrow> m_transactions p = Map.empty \<and> m_spent_key_images p = Map.empty \<and> m_aliases_to_txid p = []"

text \<open>
  The steps of a pool. The blockchain puts a transaction back with \<open>Readd\<close>: it was in the pool or in a block before,
  so that its inputs have been checked.
\<close>

inductive pool_step :: "tx_memory_pool \<Rightarrow> tx_memory_pool \<Rightarrow> bool" where
  Incoming: "handle_incoming_tx check_key acc bc now blob kept p = Some (r, tvc, p') \<Longrightarrow> pool_step p p'"
| Readd: "inputs_ok tx \<Longrightarrow> add_tx_computed bc now tx tvc True [] p = (r, tvc', p') \<Longrightarrow> pool_step p p'"
| Take: "take_tx i p = (res, p') \<Longrightarrow> pool_step p p'"
| RemoveStuck: "pool_step p (remove_stuck_transactions now order p)"
| Template: "distinct order \<Longrightarrow> fill_block_template bc order bl m c h p = Some (bl', sz, f, p') \<Longrightarrow> pool_step p p'"
| Clear: "pool_step p (clear p)"

inductive_cases pool_stepE: "pool_step p p'"

lemma readd_ok:
  assumes "pool_ok p" and "inputs_ok tx" and "add_tx_computed bc now tx tvc True [] p = (r, tvc', p')"
  shows "pool_ok p'"
proof (cases "m_transactions p (get_transaction_hash tx)")
  case None
  have "add_tx bc now tx (get_transaction_hash tx) tvc True [] p = (r, tvc', p')" using assms(3) by (simp add: add_tx_computed_def)
  from add_tx_new [OF assms(1) None refl assms(2) this] show ?thesis using assms(1) by (auto split: if_splits)
next
  case (Some td)
  then have "p' = p"
    using assms(3) add_tx_present [of p "get_transaction_hash tx" bc now tx tvc True] by (simp add: add_tx_computed_def)
  then show ?thesis using assms(1) by simp
qed

lemma pool_step_ok: "pool_ok p \<Longrightarrow> pool_step p p' \<Longrightarrow> pool_ok p'"
proof (erule pool_stepE, goal_cases)
  case (1 check_key acc bc now blob kept r tvc)
  then show ?case using handle_incoming_cases by blast
next
  case (2 tx bc now tvc r tvc')
  then show ?case using readd_ok by blast
next
  case (3 i res)
  then show ?case using take_tx_ok [of p i] by simp
next
  case (4 now order)
  then show ?case by (simp add: remove_stuck_transactions_def remove_stuck_ok)
next
  case (5 order bc bl m c h bl' sz f)
  then show ?case using fill_block_template_ok by blast
next
  case 6
  then show ?case by (simp add: pool_ok_empty)
qed

interpretation pool: invariant_system pool_init pool_step pool_ok
proof
  show "pool_init p \<Longrightarrow> pool_ok p" for p
    using pool_ok_empty [of p] by (cases p) (simp add: pool_init_def clear_def)
qed (rule pool_step_ok)

section \<open>A transaction enters an empty pool\<close>

definition pool_tx :: transaction where
  "pool_tx = sample_tx\<lparr>vin := [TxinToKey \<lparr>ki_amount = 20000300, ki_key_offsets = [3, 200], ki_k_image = replicate 32 7\<rparr>], extra := []\<rparr>"

definition open_view :: blockchain_view where
  "open_view = \<lparr>current_blockchain_height = 10, block_id_by_height = (\<lambda>_. replicate 32 4),
     view_check_tx_inputs = (\<lambda>_ _ _. (True, 3, replicate 32 4)), view_have_tx_keyimges_as_spent = (\<lambda>_. False),
     view_have_tx = (\<lambda>_. False), comulative_blocksize_limit = 60000\<rparr>"

definition empty_pool :: tx_memory_pool where
  "empty_pool = \<lparr>m_transactions = Map.empty, m_spent_key_images = Map.empty, m_aliases_to_txid = []\<rparr>"

lemma pool_tx_blob: "length (tx_to_blob pool_tx) = 212" "parse_and_validate_tx_from_blob (tx_to_blob pool_tx) = Some pool_tx"
  by code_simp+

lemma pool_tx_size: "get_object_blobsize pool_tx \<le> get_max_transaction_blob_size (current_blockchain_height open_view)"
  by code_simp

lemma pool_tx_semantic: "check_tx_semantic (\<lambda>_. True) open_view pool_tx False"
proof -
  have "get_object_blobsize pool_tx < comulative_blocksize_limit open_view - CURRENCY_COINBASE_BLOB_RESERVED_SIZE"
    by code_simp
  then show ?thesis
    by (simp add: check_tx_semantic_def check_inputs_types_supported_def check_outs_valid_def check_money_overflow_def
        check_inputs_overflow_def check_outs_overflow_def get_inputs_money_amount_def get_outs_money_amount_def
        check_tx_inputs_keyimages_diff_def pool_tx_def sample_tx_def not_le)
qed

lemma pool_tx_extra: "check_tx_extra None pool_tx [] = Some (True, [])"
  by (simp add: check_tx_extra_def Let_def parse_and_validate_tx_extra_def extra_loop.simps pool_tx_def null_extra_def
      check_make_alias_tx_def null_alias_def)

definition pool_tx_details :: tx_details where
  "pool_tx_details = no_details\<lparr>blob_size := get_object_blobsize pool_tx, td_tx := pool_tx, fee := 20000000,
     max_used_block_id := replicate 32 4, max_used_block_height := 3, receive_time := 5\<rparr>"

definition one_tx_pool :: tx_memory_pool where
  "one_tx_pool = \<lparr>m_transactions = [get_transaction_hash pool_tx \<mapsto> pool_tx_details],
     m_spent_key_images = [replicate 32 7 \<mapsto> {get_transaction_hash pool_tx}], m_aliases_to_txid = []\<rparr>"

lemma pool_tx_added:
  "handle_incoming_tx (\<lambda>_. True) None open_view 5 (tx_to_blob pool_tx) False empty_pool =
    Some (True, no_verification\<lparr>m_added_to_pool := True, m_should_be_relayed := True\<rparr>, one_tx_pool)"
proof -
  have vin: "vin pool_tx = [TxinToKey \<lparr>ki_amount = 20000300, ki_key_offsets = [3, 200], ki_k_image = replicate 32 7\<rparr>]"
    by (simp add: pool_tx_def)
  have "get_inputs_money_amount pool_tx = Some 20000300" "get_outs_money_amount pool_tx = 300" "check_inputs_types_supported pool_tx"
    by (simp_all add: get_inputs_money_amount_def get_outs_money_amount_def check_inputs_types_supported_def vin)
      (simp add: pool_tx_def sample_tx_def)
  moreover have "\<not> have_tx_keyimges_as_spent pool_tx empty_pool"
    by (simp add: have_tx_keyimges_as_spent_def have_tx_keyimg_as_spent_def empty_pool_def vin)
  moreover have "view_check_tx_inputs open_view pool_tx 0 null_hash = (True, 3, replicate 32 4)" by (simp add: open_view_def)
  moreover have "insert_checked 5 pool_tx (get_transaction_hash pool_tx) [] (get_object_blobsize pool_tx) 20000000 False 3 (replicate 32 4)
      no_verification empty_pool = (True, no_verification\<lparr>m_added_to_pool := True, m_should_be_relayed := True\<rparr>,
        empty_pool\<lparr>m_transactions := [get_transaction_hash pool_tx \<mapsto> pool_tx_details]\<rparr>)"
    by (simp add: insert_checked_def add_alias_tx_pair_def empty_pool_def pool_tx_details_def no_details_def)
  moreover have "\<not> get_object_blobsize pool_tx > get_max_transaction_blob_size (current_blockchain_height open_view)"
    using pool_tx_size by simp
  ultimately have "add_tx open_view 5 pool_tx (get_transaction_hash pool_tx) no_verification False [] empty_pool =
    (True, no_verification\<lparr>m_added_to_pool := True, m_should_be_relayed := True\<rparr>, one_tx_pool)"
    by (simp add: add_tx_def vin TX_POOL_MINIMUM_FEE_def empty_pool_def one_tx_pool_def no_verification_def)
  then show ?thesis
    using pool_tx_blob pool_tx_semantic pool_tx_extra
    by (simp add: CURRENCY_MAX_TX_SIZE_def handle_incoming_tx_def add_new_tx_def have_tx_def empty_pool_def open_view_def)
qed

lemma empty_pool_reachable: "reach pool_init pool_step empty_pool"
  by (rule reach_init) (simp add: pool_init_def empty_pool_def)

lemma one_tx_pool_reachable: "reach pool_init pool_step one_tx_pool"
  by (rule reach_step [OF empty_pool_reachable Incoming [OF pool_tx_added]])

lemma one_tx_pool_images: "set (tx_images (td_tx pool_tx_details)) = {replicate 32 7}"
  by (simp add: pool_tx_details_def pool_tx_def)

section \<open>Properties\<close>

text \<open>C22: After any sequence of incoming transactions, removals, time-outs, templates and transactions put
  back by the blockchain, the index of key images of the pool lists exactly the transactions that spend an
  image, every transaction is stored under its hash with distinct images, and every alias belongs to a
  transaction of the pool.\<close>

theorem reachable_pool_consistent:
  assumes "reach pool_init pool_step p"
  shows "(\<forall>k i. i \<in> members (m_spent_key_images p k) \<longleftrightarrow> (\<exists>td. m_transactions p i = Some td \<and> k \<in> set (tx_images (td_tx td))))
    \<and> (\<forall>i td. m_transactions p i = Some td \<longrightarrow> i = get_transaction_hash (td_tx td) \<and> distinct (tx_images (td_tx td)))
    \<and> (\<forall>a i. (a, i) \<in> set (m_aliases_to_txid p) \<longrightarrow> have_tx i p)"
proof (intro conjI)
  have ok: "pool_ok p" using assms by (rule pool.reach_inv)
  show "\<forall>k i. i \<in> members (m_spent_key_images p k) \<longleftrightarrow> (\<exists>td. m_transactions p i = Some td \<and> k \<in> set (tx_images (td_tx td)))"
    using ok by (auto simp: pool_ok_def image_index_def spenders_def)
  show "\<forall>i td. m_transactions p i = Some td \<longrightarrow> i = get_transaction_hash (td_tx td) \<and> distinct (tx_images (td_tx td))"
    using ok by (auto simp: pool_ok_def transactions_ok_def inputs_ok_def)
  show "\<forall>a i. (a, i) \<in> set (m_aliases_to_txid p) \<longrightarrow> have_tx i p"
    using ok by (force simp: pool_ok_def aliases_ok_def have_tx_def)
qed

theorem reachable_pool_consistent_witness:
  "get_transaction_hash pool_tx \<in> members (m_spent_key_images one_tx_pool (replicate 32 7))
    \<and> (\<exists>td. m_transactions one_tx_pool (get_transaction_hash pool_tx) = Some td \<and> replicate 32 7 \<in> set (tx_images (td_tx td)))"
  using reachable_pool_consistent [OF one_tx_pool_reachable] one_tx_pool_images by (auto simp: one_tx_pool_def)

text \<open>C23: In a reachable pool no two transactions that did not come with a block spend the same key image.\<close>

theorem pool_no_double_spend:
  assumes "reach pool_init pool_step p" and "m_transactions p i = Some td" and "m_transactions p j = Some td'"
    and "\<not> kept_by_block td" and "\<not> kept_by_block td'"
    and "k \<in> set (tx_images (td_tx td))" and "k \<in> set (tx_images (td_tx td'))"
  shows "i = j"
proof -
  have "no_conflicts (m_transactions p)" using pool.reach_inv [OF assms(1)] by (simp add: pool_ok_def)
  then show ?thesis using assms(2-7) unfolding no_conflicts_def by blast
qed

theorem pool_no_double_spend_witness:
  "m_transactions one_tx_pool (get_transaction_hash pool_tx) = Some pool_tx_details \<and> \<not> kept_by_block pool_tx_details
    \<and> get_transaction_hash pool_tx = get_transaction_hash pool_tx"
  using pool_no_double_spend [OF one_tx_pool_reachable, of "get_transaction_hash pool_tx" pool_tx_details "get_transaction_hash pool_tx"
      pool_tx_details "replicate 32 7"] one_tx_pool_images
  by (simp add: one_tx_pool_def pool_tx_details_def no_details_def)

text \<open>C24: An incoming transaction that changes the pool was absent, is stored under its hash with its fee and
  is indexed by all its key images, and the call returns true; every failure leaves the pool as it was.\<close>

theorem incoming_tx_all_or_nothing:
  assumes "reach pool_init pool_step p" and "handle_incoming_tx check_key acc bc now blob kept p = Some (r, tvc, p')" and "p' \<noteq> p"
  shows "\<exists>tx td. parse_and_validate_tx_from_blob blob = Some tx \<and> m_transactions p (get_transaction_hash tx) = None
    \<and> m_transactions p' (get_transaction_hash tx) = Some td \<and> td_tx td = tx \<and> get_tx_fee tx = Some (fee td) \<and> kept_by_block td = kept
    \<and> (\<forall>k \<in> set (tx_images tx). get_transaction_hash tx \<in> members (m_spent_key_images p' k))
    \<and> (kept \<or> m_transactions p' = (m_transactions p)(get_transaction_hash tx \<mapsto> td)) \<and> r"
proof -
  have "pool_ok p" using assms(1) by (rule pool.reach_inv)
  from handle_incoming_cases [OF this assms(2)] assms(3) obtain tx td q al where
    tx: "parse_and_validate_tx_from_blob blob = Some tx" "r" "m_transactions p (get_transaction_hash tx) = None"
    and q: "q = p \<or> kept \<and> (\<exists>j. q = without_tx j p)" "p' = with_tx (get_transaction_hash tx) td al q"
    and td: "td_tx td = tx" "Some (fee td) = get_tx_fee tx" "kept_by_block td = kept" by blast
  have "\<forall>k \<in> set (tx_images tx). get_transaction_hash tx \<in> members (m_spent_key_images p' k)"
    using td(1) by (auto simp: q(2) with_tx_def image_index_def spenders_def)
  moreover have "m_transactions p' (get_transaction_hash tx) = Some td" "kept \<or> m_transactions p' = (m_transactions p)(get_transaction_hash tx \<mapsto> td)"
    using q by (auto simp: with_tx_def)
  ultimately show ?thesis using tx td by (intro exI [of _ tx] exI [of _ td]) simp
qed

theorem incoming_tx_all_or_nothing_witness:
  "\<exists>tx td. parse_and_validate_tx_from_blob (tx_to_blob pool_tx) = Some tx \<and> m_transactions one_tx_pool (get_transaction_hash tx) = Some td
    \<and> td_tx td = tx \<and> get_tx_fee tx = Some (fee td)"
proof -
  have "one_tx_pool \<noteq> empty_pool" by (simp add: empty_pool_def one_tx_pool_def)
  then show ?thesis using incoming_tx_all_or_nothing [OF empty_pool_reachable pool_tx_added] by blast
qed

text \<open>C25: A block template holds distinct transactions of the pool with disjoint key images, none spent in the
  chain; its size and fee are their sums, a reward exists for the size, and the reward with the fees is at
  least the one of the empty block.\<close>

theorem block_template_sound:
  assumes "reach pool_init pool_step p" and "distinct order"
    and "fill_block_template bc order bl m c h p = Some (bl', sz, f, p')"
  shows "\<exists>is r r0. tx_hashes bl' = tx_hashes bl @ is \<and> compatible bc (m_transactions p) is
    \<and> sz = size_of_txs (m_transactions p) is \<and> f = fee_of_txs (m_transactions p) is
    \<and> get_block_reward m (sz + CURRENCY_COINBASE_BLOB_RESERVED_SIZE) c h = Some r
    \<and> get_block_reward m CURRENCY_COINBASE_BLOB_RESERVED_SIZE c h = Some r0 \<and> r0 \<le> r + f"
  using fill_block_template_ok [OF pool.reach_inv [OF assms(1)] assms(2,3)] by blast

lemma sample_template:
  "\<exists>bl' sz f p'. fill_block_template open_view [get_transaction_hash pool_tx] sample_block 0 0 10 one_tx_pool = Some (bl', sz, f, p')"
proof -
  have "get_block_reward 0 CURRENCY_COINBASE_BLOB_RESERVED_SIZE 0 10 \<noteq> None" by code_simp
  then show ?thesis by (auto simp: fill_block_template_def Let_def)
qed

theorem block_template_sound_witness:
  "\<exists>bl' sz f p' is. fill_block_template open_view [get_transaction_hash pool_tx] sample_block 0 0 10 one_tx_pool = Some (bl', sz, f, p')
    \<and> tx_hashes bl' = tx_hashes sample_block @ is \<and> compatible open_view (m_transactions one_tx_pool) is"
  using sample_template block_template_sound [OF one_tx_pool_reachable, of "[get_transaction_hash pool_tx]" open_view sample_block 0 0 10]
  by simp blast

end
