(* ===== verification/ChainState.thy ===== *)
theory ChainState
  imports CoreTx BlockIndex Checkpoints Difficulty Scratchpad
begin

text \<open>
  The state of \<open>blockchain_storage\<close> (\<open>src/currency_core/blockchain_storage.h\<close>) and the functions of
  \<open>blockchain_storage.cpp\<close> that read it: queries, the checks of inputs, timestamps and miner transactions. The
  vector of blocks is the list that \<open>SwappedVector\<close> implements; a reference into it stays valid, as it does while
  the block is in the cache. An exception and an access outside of a container are values of the error type. The
  clock, the signature checks, the proof-of-work hash and the tests for outputs of the donation and royalty accounts
  are the record \<open>chain_env\<close>.
\<close>

section \<open>State\<close>

text \<open>
  \<open>CounterWraps\<close> is reported where a loop with a 16-bit counter meets a vector of 65536 or more elements, so that the
  counter never reaches the size; what the loop does then is not modelled. \<open>Diverges\<close> is reported where a loop or a nest
  of calls exceeds the bound that the model gives it.
\<close>

datatype exn = Exception | OutOfRange | CounterWraps | Diverges

text \<open>A transaction is found by the height of its block and its position there.\<close>

type_synonym transaction_index = "u32 \<times> 16 word"

record transaction_chain_entry =
  ce_tx :: transaction
  m_keeper_block_height :: u64
  m_global_output_indexes :: "u64 list"
  m_spent_flags :: "bool list"

record block_extended_info =
  be_bl :: block
  be_height :: u64
  block_cumulative_size :: u64
  cumulative_difficulty :: u128
  already_generated_coins :: u64
  already_donated_coins :: u64
  scratch_offset :: u64

record block_entry = block_extended_info +
  transactions :: "transaction_chain_entry list"

record blockchain_storage =
  m_tx_pool :: tx_memory_pool
  m_blocks :: "block_entry list"
  m_blocks_index :: block_index
  m_transaction_map :: "hash \<rightharpoonup> transaction_index"
  m_spent_keys :: "key_image set"
  m_current_block_cumul_sz_limit :: u64
  m_alternative_chains :: "hash \<rightharpoonup> block_entry"
  m_invalid_blocks :: "hash \<rightharpoonup> block_entry"
  m_outputs :: "u64 \<rightharpoonup> (transaction_index \<times> 16 word) list"
  m_aliases :: "bytes \<rightharpoonup> alias_info_base list"
  m_addr_to_alias :: "account_public_address \<rightharpoonup> bytes"
  m_scratchpad :: "hash list"
  m_checkpoints :: checkpoints
  m_is_in_checkpoint_zone :: bool

record chain_env =
  now :: u64
  donation_account :: "(txout_to_key \<Rightarrow> public_key \<Rightarrow> nat \<Rightarrow> bool) option"
  out_to_donations :: "txout_to_key \<Rightarrow> public_key \<Rightarrow> nat \<Rightarrow> bool"
  out_to_royalty :: "txout_to_key \<Rightarrow> public_key \<Rightarrow> nat \<Rightarrow> bool"
  check_ring_signature :: "hash \<Rightarrow> key_image \<Rightarrow> public_key list \<Rightarrow> signature list \<Rightarrow> bool"
  check_signature :: "hash \<Rightarrow> public_key \<Rightarrow> signature \<Rightarrow> bool"
  block_longhash :: "block \<Rightarrow> u64 \<Rightarrow> hash list \<Rightarrow> hash"

definition CURRENCY_MAX_BLOCK_NUMBER :: u64 where
  "CURRENCY_MAX_BLOCK_NUMBER = 500000000"

definition CURRENCY_MINED_MONEY_UNLOCK_WINDOW :: u64 where
  "CURRENCY_MINED_MONEY_UNLOCK_WINDOW = 60"

definition CURRENCY_BLOCK_FUTURE_TIME_LIMIT :: u64 where
  "CURRENCY_BLOCK_FUTURE_TIME_LIMIT = 60 * 60 * 2"

definition BLOCKCHAIN_TIMESTAMP_CHECK_WINDOW :: nat where
  "BLOCKCHAIN_TIMESTAMP_CHECK_WINDOW = 60"

definition CURRENCY_TO_KEY_OUT_FORCED_NO_MIX :: u8 where
  "CURRENCY_TO_KEY_OUT_FORCED_NO_MIX = 1"

definition CURRENCY_REWARD_BLOCKS_WINDOW :: nat where
  "CURRENCY_REWARD_BLOCKS_WINDOW = 400"

definition CURRENCY_LOCKED_TX_ALLOWED_DELTA_BLOCKS :: u64 where
  "CURRENCY_LOCKED_TX_ALLOWED_DELTA_BLOCKS = 1"

definition CURRENCY_LOCKED_TX_ALLOWED_DELTA_SECONDS :: u64 where
  "CURRENCY_LOCKED_TX_ALLOWED_DELTA_SECONDS = 60 * CURRENCY_LOCKED_TX_ALLOWED_DELTA_BLOCKS"

definition CURRENCY_DONATIONS_START_BLOCKNO :: u64 where
  "CURRENCY_DONATIONS_START_BLOCKNO = 4550"

section \<open>Queries\<close>

definition blocks_size :: "blockchain_storage \<Rightarrow> u64" where
  "blocks_size c = word_of_nat (length (m_blocks c))"

definition transactionByIndex :: "blockchain_storage \<Rightarrow> transaction_index \<Rightarrow> exn + transaction_chain_entry" where
  "transactionByIndex c = (\<lambda>(b, t).
    if length (m_blocks c) \<le> unat b then Inl Exception
    else if length (transactions (m_blocks c ! unat b)) \<le> unat t then Inl OutOfRange
    else Inr (transactions (m_blocks c ! unat b) ! unat t))"

definition bs_have_tx :: "hash \<Rightarrow> blockchain_storage \<Rightarrow> bool" where
  "bs_have_tx i c \<longleftrightarrow> m_transaction_map c i \<noteq> None"

definition bs_have_tx_keyimg_as_spent :: "key_image \<Rightarrow> blockchain_storage \<Rightarrow> bool" where
  "bs_have_tx_keyimg_as_spent key_im c \<longleftrightarrow> key_im \<in> m_spent_keys c"

fun bs_keyimges_as_spent_loop :: "blockchain_storage \<Rightarrow> txin_v list \<Rightarrow> bool" where
  "bs_keyimges_as_spent_loop c [] = False"
| "bs_keyimges_as_spent_loop c (TxinToKey k # ins) =
    (if bs_have_tx_keyimg_as_spent (ki_k_image k) c then True else bs_keyimges_as_spent_loop c ins)"
| "bs_keyimges_as_spent_loop c (_ # ins) = True"

definition bs_have_tx_keyimges_as_spent :: "transaction \<Rightarrow> blockchain_storage \<Rightarrow> bool" where
  "bs_have_tx_keyimges_as_spent tx c = bs_keyimges_as_spent_loop c (vin tx)"

text \<open>\<open>None\<close> is the null pointer.\<close>

definition get_tx :: "hash \<Rightarrow> blockchain_storage \<Rightarrow> exn + transaction option" where
  "get_tx i c =
    (case m_transaction_map c i of
       None \<Rightarrow> Inr None
     | Some idx \<Rightarrow> (case transactionByIndex c idx of Inl e \<Rightarrow> Inl e | Inr txe \<Rightarrow> Inr (Some (ce_tx txe))))"

definition get_top_block_id :: "blockchain_storage \<Rightarrow> hash" where
  "get_top_block_id c = (if m_blocks c = [] then null_hash else get_block_hash (be_bl (last (m_blocks c))))"

definition get_top_block :: "blockchain_storage \<Rightarrow> block option" where
  "get_top_block c = (if m_blocks c = [] then None else Some (be_bl (last (m_blocks c))))"

definition get_block_id_by_height :: "u64 \<Rightarrow> blockchain_storage \<Rightarrow> hash" where
  "get_block_id_by_height height c =
    (if length (m_blocks c) \<le> unat height then null_hash else get_block_hash (be_bl (m_blocks c ! unat height)))"

definition get_block_by_height :: "u64 \<Rightarrow> blockchain_storage \<Rightarrow> block option" where
  "get_block_by_height h c = (if length (m_blocks c) \<le> unat h then None else Some (be_bl (m_blocks c ! unat h)))"

definition get_block_by_hash :: "hash \<Rightarrow> blockchain_storage \<Rightarrow> exn + block option" where
  "get_block_by_hash h c =
    (if hasBlock (m_blocks_index c) h
     then let nHeight = (case getBlockHeight (m_blocks_index c) h of None \<Rightarrow> - 1 | Some n \<Rightarrow> n)
          in if length (m_blocks c) \<le> unat nHeight then Inl Exception else Inr (Some (be_bl (m_blocks c ! unat nHeight)))
     else Inr (map_option be_bl (m_alternative_chains c h)))"

definition have_block :: "hash \<Rightarrow> blockchain_storage \<Rightarrow> bool" where
  "have_block i c \<longleftrightarrow> hasBlock (m_blocks_index c) i \<or> m_alternative_chains c i \<noteq> None \<or> m_invalid_blocks c i \<noteq> None"

text \<open>The offset is skipped over the first block.\<close>

definition get_difficulty_for_next_block :: "blockchain_storage \<Rightarrow> u128" where
  "get_difficulty_for_next_block c =
    (let offset = length (m_blocks c) - min (length (m_blocks c)) (DIFFICULTY_WINDOW + 15);
         offset = (if offset = 0 then offset + 1 else offset)
     in next_difficulty_default (map (\<lambda>b. timestamp (be_bl b)) (drop offset (m_blocks c)))
          (map cumulative_difficulty (drop offset (m_blocks c))))"

definition get_backward_blocks_sizes :: "nat \<Rightarrow> nat \<Rightarrow> blockchain_storage \<Rightarrow> u64 list option" where
  "get_backward_blocks_sizes from_height cnt c =
    (if \<not> from_height < length (m_blocks c) then None
     else let start_offset = (from_height + 1) - min (from_height + 1) cnt
          in Some (map block_cumulative_size (take (from_height + 1 - start_offset) (drop start_offset (m_blocks c)))))"

definition get_last_n_blocks_sizes :: "nat \<Rightarrow> blockchain_storage \<Rightarrow> u64 list" where
  "get_last_n_blocks_sizes cnt c =
    (if length (m_blocks c) = 0 then []
     else case get_backward_blocks_sizes (length (m_blocks c) - 1) cnt c of None \<Rightarrow> [] | Some sz \<Rightarrow> sz)"

definition median :: "u64 list \<Rightarrow> u64" where
  "median v =
    (if v = [] then 0
     else if length v = 1 then v ! 0
     else let n = length v div 2; v = sort v
          in if length v mod 2 \<noteq> 0 then v ! n else (v ! (n - 1) + v ! n) div 2)"

definition get_alias_info :: "bytes \<Rightarrow> blockchain_storage \<Rightarrow> alias_info_base option" where
  "get_alias_info al c =
    (case m_aliases c al of None \<Rightarrow> None | Some hist \<Rightarrow> if hist = [] then None else Some (last hist))"

definition get_alias_by_address :: "account_public_address \<Rightarrow> blockchain_storage \<Rightarrow> bytes" where
  "get_alias_by_address addr c = (case m_addr_to_alias c addr of None \<Rightarrow> [] | Some al \<Rightarrow> al)"

definition get_tx_outputs_gindexs :: "hash \<Rightarrow> blockchain_storage \<Rightarrow> exn + u64 list option" where
  "get_tx_outputs_gindexs tx_id c =
    (case m_transaction_map c tx_id of
       None \<Rightarrow> Inr None
     | Some idx \<Rightarrow> (case transactionByIndex c idx of
           Inl e \<Rightarrow> Inl e
         | Inr txe \<Rightarrow> Inr (if m_global_output_indexes txe = [] then None else Some (m_global_output_indexes txe))))"

section \<open>Checks of inputs\<close>

definition is_tx_spendtime_unlocked :: "chain_env \<Rightarrow> u64 \<Rightarrow> blockchain_storage \<Rightarrow> bool" where
  "is_tx_spendtime_unlocked env ut c =
    (if ut < CURRENCY_MAX_BLOCK_NUMBER
     then blocks_size c - 1 + CURRENCY_LOCKED_TX_ALLOWED_DELTA_BLOCKS \<ge> ut
     else now env + CURRENCY_LOCKED_TX_ALLOWED_DELTA_SECONDS \<ge> ut)"

text \<open>\<open>handle_output\<close> of the visitor: the key of the output, if it may be spent.\<close>

definition handle_output :: "chain_env \<Rightarrow> blockchain_storage \<Rightarrow> transaction \<Rightarrow> tx_out \<Rightarrow> public_key option" where
  "handle_output env c tx out =
    (if \<not> is_tx_spendtime_unlocked env (unlock_time tx) c then None
     else case o_target out of TxoutToKey k \<Rightarrow> Some (tk_key k) | _ \<Rightarrow> None)"

text \<open>
  The loop of \<open>scan_outputkeys_for_indexes\<close> over the absolute offsets, with the keys collected so far and the
  highest block height. The height is raised after the last output.
\<close>

fun scan_loop ::
  "chain_env \<Rightarrow> blockchain_storage \<Rightarrow> nat \<Rightarrow> (transaction_index \<times> 16 word) list \<Rightarrow> u64 list \<Rightarrow> u64 \<Rightarrow> public_key list
    \<Rightarrow> exn + (bool \<times> u64 \<times> public_key list)" where
  "scan_loop env c n_offsets amount_outs_vec [] max_height keys = Inr (True, max_height, keys)"
| "scan_loop env c n_offsets amount_outs_vec (i # offsets) max_height keys =
    (if length amount_outs_vec \<le> unat i then Inr (False, max_height, keys)
     else let (idx, out_i) = amount_outs_vec ! unat i
          in case transactionByIndex c idx of
               Inl e \<Rightarrow> Inl e
             | Inr txe \<Rightarrow>
                 if m_transaction_map c (get_transaction_hash (ce_tx txe)) = None then Inr (False, max_height, keys)
                 else if \<not> unat out_i < length (vout (ce_tx txe)) then Inr (False, max_height, keys)
                 else let out = vout (ce_tx txe) ! unat out_i
                      in case o_target out of
                           TxoutToKey outtk \<Rightarrow>
                             if tk_mix_attr outtk > 1 \<and> \<not> n_offsets \<ge> unat (tk_mix_attr outtk) then Inr (False, max_height, keys)
                             else if \<not> tk_mix_attr outtk > 1 \<and> tk_mix_attr outtk = CURRENCY_TO_KEY_OUT_FORCED_NO_MIX
                                 \<and> n_offsets \<noteq> 1 then Inr (False, max_height, keys)
                             else (case handle_output env c (ce_tx txe) out of
                                 None \<Rightarrow> Inr (False, max_height, keys)
                               | Some k \<Rightarrow>
                                   scan_loop env c n_offsets amount_outs_vec offsets
                                     (if offsets = [] \<and> max_height < m_keeper_block_height txe
                                      then m_keeper_block_height txe else max_height) (keys @ [k]))
                         | _ \<Rightarrow> Inr (False, max_height, keys))"

definition scan_outputkeys_for_indexes ::
  "chain_env \<Rightarrow> blockchain_storage \<Rightarrow> txin_to_key \<Rightarrow> u64 \<Rightarrow> exn + (bool \<times> u64 \<times> public_key list)" where
  "scan_outputkeys_for_indexes env c txin max_height =
    (case m_outputs c (ki_amount txin) of
       None \<Rightarrow> Inr (False, max_height, [])
     | Some amount_outs_vec \<Rightarrow>
         if ki_key_offsets txin = [] then Inr (False, max_height, [])
         else scan_loop env c (length (ki_key_offsets txin)) amount_outs_vec
                (relative_output_offsets_to_absolute (ki_key_offsets txin)) max_height [])"

definition check_tx_input ::
  "chain_env \<Rightarrow> blockchain_storage \<Rightarrow> txin_to_key \<Rightarrow> hash \<Rightarrow> signature list \<Rightarrow> u64 \<Rightarrow> exn + (bool \<times> u64)" where
  "check_tx_input env c txin tx_prefix_hash sig max_height =
    (case scan_outputkeys_for_indexes env c txin max_height of
       Inl e \<Rightarrow> Inl e
     | Inr (r, max_height, output_keys) \<Rightarrow>
         Inr (if \<not> r then False
              else if length (ki_key_offsets txin) \<noteq> length output_keys then False
              else if m_is_in_checkpoint_zone c then True
              else if length sig \<noteq> length output_keys then False
              else check_ring_signature env tx_prefix_hash (ki_k_image txin) output_keys sig, max_height))"

text \<open>The result and the highest block height; \<open>sig_index\<close> counts the inputs.\<close>

fun check_tx_inputs_loop ::
  "chain_env \<Rightarrow> blockchain_storage \<Rightarrow> hash \<Rightarrow> signature list list \<Rightarrow> txin_v list \<Rightarrow> nat \<Rightarrow> u64 \<Rightarrow> exn + (bool \<times> u64)" where
  "check_tx_inputs_loop env c tx_prefix_hash sigs [] sig_index max_height =
    Inr (if \<not> m_is_in_checkpoint_zone c then length sigs = sig_index else True, max_height)"
| "check_tx_inputs_loop env c tx_prefix_hash sigs (TxinToKey k # ins) sig_index max_height =
    (if ki_key_offsets k = [] then Inr (False, max_height)
     else if bs_have_tx_keyimg_as_spent (ki_k_image k) c then Inr (False, max_height)
     else if \<not> m_is_in_checkpoint_zone c \<and> \<not> sig_index < length sigs then Inr (False, max_height)
     else case check_tx_input env c k tx_prefix_hash (if m_is_in_checkpoint_zone c then [] else sigs ! sig_index) max_height of
            Inl e \<Rightarrow> Inl e
          | Inr (r, max_height) \<Rightarrow>
              if \<not> r then Inr (False, max_height)
              else check_tx_inputs_loop env c tx_prefix_hash sigs ins (sig_index + 1) max_height)"
| "check_tx_inputs_loop env c tx_prefix_hash sigs (_ # ins) sig_index max_height = Inr (False, max_height)"

definition check_tx_inputs :: "chain_env \<Rightarrow> blockchain_storage \<Rightarrow> transaction \<Rightarrow> exn + (bool \<times> u64)" where
  "check_tx_inputs env c tx = check_tx_inputs_loop env c (get_transaction_hash tx) (signatures tx) (vin tx) 0 0"

text \<open>The overload that also returns the id of the highest block, in place of the one given.\<close>

definition check_tx_inputs_id :: "chain_env \<Rightarrow> blockchain_storage \<Rightarrow> transaction \<Rightarrow> hash \<Rightarrow> exn + (bool \<times> u64 \<times> hash)" where
  "check_tx_inputs_id env c tx i =
    (case check_tx_inputs env c tx of
       Inl e \<Rightarrow> Inl e
     | Inr (r, max_height) \<Rightarrow>
         Inr (if \<not> r then (False, max_height, i)
              else if \<not> unat max_height < length (m_blocks c) then (False, max_height, i)
              else (True, max_height, get_block_hash (be_bl (m_blocks c ! unat max_height)))))"

section \<open>Checks of a block\<close>

definition check_block_timestamp :: "u64 list \<Rightarrow> block \<Rightarrow> bool" where
  "check_block_timestamp timestamps b =
    (if length timestamps < BLOCKCHAIN_TIMESTAMP_CHECK_WINDOW then True else \<not> timestamp b < median timestamps)"

definition check_block_timestamp_main :: "chain_env \<Rightarrow> block \<Rightarrow> blockchain_storage \<Rightarrow> bool" where
  "check_block_timestamp_main env b c =
    (if timestamp b > now env + CURRENCY_BLOCK_FUTURE_TIME_LIMIT then False
     else let offset = (if length (m_blocks c) \<le> BLOCKCHAIN_TIMESTAMP_CHECK_WINDOW then 0
                        else length (m_blocks c) - BLOCKCHAIN_TIMESTAMP_CHECK_WINDOW)
          in check_block_timestamp (map (\<lambda>be. timestamp (be_bl be)) (drop offset (m_blocks c))) b)"

definition prevalidate_miner_transaction :: "block \<Rightarrow> u64 \<Rightarrow> bool" where
  "prevalidate_miner_transaction b height =
    (if length (vin (miner_tx b)) \<noteq> 1 then False
     else case vin (miner_tx b) ! 0 of
            TxinGen h \<Rightarrow>
              if h \<noteq> height then False
              else if unlock_time (miner_tx b) \<noteq> height + CURRENCY_MINED_MONEY_UNLOCK_WINDOW then False
              else check_outs_overflow (miner_tx b)
          | _ \<Rightarrow> False)"

text \<open>The donation and the royalty found in the last two outputs; \<open>Inr None\<close> is the return value \<open>false\<close>.\<close>

definition lookfor_donation :: "chain_env \<Rightarrow> transaction \<Rightarrow> exn + (u64 \<times> u64) option" where
  "lookfor_donation env tx =
    (case parse_tx_pub_key (donation_account env) tx of
       None \<Rightarrow> Inl OutOfRange
     | Some (False, _) \<Rightarrow> Inr None
     | Some (True, pk) \<Rightarrow>
         let n = length (vout tx);
             key = (\<lambda>i. case o_target (vout tx ! i) of TxoutToKey k \<Rightarrow> Some k | _ \<Rightarrow> None);
             first = (if n \<ge> 2
                      then case key (n - 2) of
                             None \<Rightarrow> None
                           | Some k \<Rightarrow> Some (if out_to_donations env k pk (n - 2) then o_amount (vout tx ! (n - 2)) else 0)
                      else Some 0)
         in Inr (case first of
              None \<Rightarrow> None
            | Some donation \<Rightarrow>
                if n \<ge> 1
                then case key (n - 1) of
                       None \<Rightarrow> None
                     | Some k \<Rightarrow>
                         Some (if donation \<noteq> 0
                           then (donation, if out_to_royalty env k pk (n - 1) then o_amount (vout tx ! (n - 1)) else 0)
                           else (if out_to_donations env k pk (n - 1) then o_amount (vout tx ! (n - 1)) else donation, 0))
                else Some (donation, 0)))"

text \<open>The base reward and the total of the donations.\<close>

definition validate_miner_transaction ::
  "chain_env \<Rightarrow> block \<Rightarrow> u64 \<Rightarrow> u64 \<Rightarrow> u64 \<Rightarrow> blockchain_storage \<Rightarrow> exn + (u64 \<times> u64) option" where
  "validate_miner_transaction env b cumulative_block_size tx_fee generated_coins c =
    (let money_in_use = foldl (\<lambda>money out. money + o_amount out) 0 (vout (miner_tx b));
         h = get_block_height b
     in case (if h \<ge> CURRENCY_DONATIONS_START_BLOCKNO then lookfor_donation env (miner_tx b) else Inr (Some (0, 0))) of
          Inl e \<Rightarrow> Inl e
        | Inr None \<Rightarrow> Inr None
        | Inr (Some (donation, royalty)) \<Rightarrow>
            Inr (case get_block_reward (median (get_last_n_blocks_sizes CURRENCY_REWARD_BLOCKS_WINDOW c)) cumulative_block_size
                   generated_coins h of
               None \<Rightarrow> None
             | Some base_reward \<Rightarrow>
                 if h \<ge> CURRENCY_DONATIONS_START_BLOCKNO \<and> base_reward \<noteq> 10 * (donation + royalty) then None
                 else if base_reward + tx_fee < money_in_use then None
                 else if base_reward + tx_fee \<noteq> money_in_use then None
                 else Some (base_reward, royalty + donation)))"

definition update_next_comulative_size_limit :: "blockchain_storage \<Rightarrow> blockchain_storage" where
  "update_next_comulative_size_limit c =
    (let m = median (get_last_n_blocks_sizes CURRENCY_REWARD_BLOCKS_WINDOW c);
         m = (if m \<le> get_block_granted_full_reward_zone (blocks_size c)
              then get_block_granted_full_reward_zone (blocks_size c) else m)
     in c\<lparr>m_current_block_cumul_sz_limit := m * 2\<rparr>)"

text \<open>
  What the pool sees of the blockchain. An exception in \<open>check_tx_inputs\<close> would leave the pool's function too; it
  does not occur while the index of outputs refers to stored transactions only.
\<close>

definition chain_view :: "chain_env \<Rightarrow> blockchain_storage \<Rightarrow> blockchain_view" where
  "chain_view env c = \<lparr>current_blockchain_height = blocks_size c, block_id_by_height = (\<lambda>h. get_block_id_by_height h c),
     view_check_tx_inputs = (\<lambda>tx h i. case check_tx_inputs_id env c tx i of Inl e \<Rightarrow> (False, h, i) | Inr r \<Rightarrow> r),
     view_have_tx_keyimges_as_spent = (\<lambda>tx. bs_have_tx_keyimges_as_spent tx c), view_have_tx = (\<lambda>i. bs_have_tx i c),
     comulative_blocksize_limit = m_current_block_cumul_sz_limit c\<rparr>"

end
