(* ===== verification/ChainUpdate.thy ===== *)
theory ChainUpdate
  imports ChainState
begin

text \<open>
  The functions of \<open>src/currency_core/blockchain_storage.cpp\<close> that change the main chain: adding and removing a
  block with its transactions, and the rebuilding of all indexes from the blocks. A function returns its result or
  an error, with the state at that moment.
\<close>

section \<open>Sequencing\<close>

type_synonym 'a effect = "(exn + 'a) \<times> blockchain_storage"

definition and_next :: "'a effect \<Rightarrow> ('a \<Rightarrow> blockchain_storage \<Rightarrow> 'b effect) \<Rightarrow> 'b effect" where
  "and_next m f = (case m of (Inl e, c) \<Rightarrow> (Inl e, c) | (Inr a, c) \<Rightarrow> f a c)"

lemma and_next_simps [simp]: "and_next (Inr a, c) f = f a c" "and_next (Inl e, c) f = (Inl e, c)"
  by (simp_all add: and_next_def)

lemma and_next_Inr: "and_next m f = (Inr b, c') \<longleftrightarrow> (\<exists>a c. m = (Inr a, c) \<and> f a c = (Inr b, c'))"
  by (auto simp: and_next_def split: prod.splits sum.splits)

section \<open>Transactions\<close>

definition set_entry :: "blockchain_storage \<Rightarrow> transaction_index \<Rightarrow> transaction_chain_entry \<Rightarrow> blockchain_storage" where
  "set_entry c = (\<lambda>(b, t) txe. c\<lparr>m_blocks := (m_blocks c)[unat b := (m_blocks c ! unat b)
     \<lparr>transactions := (transactions (m_blocks c ! unat b))[unat t := txe]\<rparr>]\<rparr>)"

definition update_spent_tx_flags_for_input :: "u64 \<Rightarrow> u64 \<Rightarrow> bool \<Rightarrow> blockchain_storage \<Rightarrow> bool effect" where
  "update_spent_tx_flags_for_input amount global_index spent c =
    (case m_outputs c amount of
       None \<Rightarrow> (Inr False, c)
     | Some outs \<Rightarrow>
         if \<not> unat global_index < length outs then (Inr False, c)
         else let (idx, out_i) = outs ! unat global_index
              in case transactionByIndex c idx of
                   Inl e \<Rightarrow> (Inl e, c)
                 | Inr txe \<Rightarrow>
                     if m_transaction_map c (get_transaction_hash (ce_tx txe)) = None then (Inr False, c)
                     else if \<not> unat out_i < length (m_spent_flags txe) then (Inr False, c)
                     else (Inr True, set_entry c idx (txe\<lparr>m_spent_flags := (m_spent_flags txe)[unat out_i := spent]\<rparr>)))"

text \<open>The visitor for an input, and the loop over the inputs.\<close>

fun purge_input :: "bool \<Rightarrow> txin_v \<Rightarrow> blockchain_storage \<Rightarrow> bool effect" where
  "purge_input strict_check (TxinToKey k) c =
    (if ki_k_image k \<notin> m_spent_keys c \<and> strict_check then (Inr False, c)
     else let c = c\<lparr>m_spent_keys := m_spent_keys c - {ki_k_image k}\<rparr>
          in if length (ki_key_offsets k) = 1
             then update_spent_tx_flags_for_input (ki_amount k) (ki_key_offsets k ! 0) False c
             else (Inr True, c))"
| "purge_input strict_check (TxinGen _) c = (Inr True, c)"
| "purge_input strict_check _ c = (Inr False, c)"

fun purge_keyimages_loop :: "bool \<Rightarrow> txin_v list \<Rightarrow> blockchain_storage \<Rightarrow> bool effect" where
  "purge_keyimages_loop strict_check [] c = (Inr True, c)"
| "purge_keyimages_loop strict_check (i # ins) c =
    and_next (purge_input strict_check i c) (\<lambda>r c.
      if strict_check \<and> \<not> r then (Inr False, c) else purge_keyimages_loop strict_check ins c)"

definition purge_transaction_keyimages_from_blockchain :: "transaction \<Rightarrow> bool \<Rightarrow> blockchain_storage \<Rightarrow> bool effect" where
  "purge_transaction_keyimages_from_blockchain tx strict_check c = purge_keyimages_loop strict_check (vin tx) c"

fun push_outs_loop ::
  "hash \<Rightarrow> tx_out list \<Rightarrow> nat \<Rightarrow> u64 list \<Rightarrow> blockchain_storage \<Rightarrow> (bool \<times> u64 list) \<times> blockchain_storage" where
  "push_outs_loop tx_id [] i global_indexes c = ((True, global_indexes), c)"
| "push_outs_loop tx_id (ot # outs) i global_indexes c =
    (case m_transaction_map c tx_id of
       None \<Rightarrow> ((False, global_indexes), c)
     | Some idx \<Rightarrow>
         let amount_index = (case m_outputs c (o_amount ot) of None \<Rightarrow> [] | Some v \<Rightarrow> v) @ [(idx, word_of_nat i)]
         in push_outs_loop tx_id outs (i + 1) (global_indexes @ [word_of_nat (length amount_index) - 1])
              (c\<lparr>m_outputs := (m_outputs c)(o_amount ot \<mapsto> amount_index)\<rparr>))"

definition push_transaction_to_global_outs_index ::
  "transaction \<Rightarrow> hash \<Rightarrow> u64 list \<Rightarrow> blockchain_storage \<Rightarrow> (bool \<times> u64 list) \<times> blockchain_storage" where
  "push_transaction_to_global_outs_index tx tx_id global_indexes c = push_outs_loop tx_id (vout tx) 0 global_indexes c"

text \<open>The loop over the outputs from the last to the first; \<open>back()\<close> of an empty vector is undefined.\<close>

fun pop_outs_loop :: "hash \<Rightarrow> tx_out list \<Rightarrow> nat \<Rightarrow> blockchain_storage \<Rightarrow> bool effect" where
  "pop_outs_loop tx_id [] i c = (Inr True, c)"
| "pop_outs_loop tx_id (ot # outs) i c =
    (case m_outputs c (o_amount ot) of
       None \<Rightarrow> (Inr False, c)
     | Some v \<Rightarrow>
         if v = [] then (Inl OutOfRange, c)
         else case transactionByIndex c (fst (last v)) of
                Inl e \<Rightarrow> (Inl e, c)
              | Inr txe \<Rightarrow>
                  if get_transaction_hash (ce_tx txe) \<noteq> tx_id then (Inr False, c)
                  else if unat (snd (last v)) \<noteq> i then (Inr False, c)
                  else pop_outs_loop tx_id outs (i - 1)
                         (c\<lparr>m_outputs := (m_outputs c)(o_amount ot := (if butlast v = [] then None else Some (butlast v)))\<rparr>))"

definition pop_transaction_from_global_index :: "transaction \<Rightarrow> hash \<Rightarrow> blockchain_storage \<Rightarrow> bool effect" where
  "pop_transaction_from_global_index tx tx_id c = pop_outs_loop tx_id (rev (vout tx)) (length (vout tx) - 1) c"

section \<open>Aliases\<close>

text \<open>\<open>m_aliases[...]\<close> creates an empty history for a new alias.\<close>

definition alias_history :: "bytes \<Rightarrow> blockchain_storage \<Rightarrow> alias_info_base list" where
  "alias_history al c = (case m_aliases c al of None \<Rightarrow> [] | Some hist \<Rightarrow> hist)"

definition pop_alias_info :: "alias_info \<Rightarrow> blockchain_storage \<Rightarrow> bool \<times> blockchain_storage" where
  "pop_alias_info ai c =
    (if length (m_alias ai) = 0 then (False, c)
     else let hist = alias_history (m_alias ai) c;
              c = c\<lparr>m_aliases := (m_aliases c)(m_alias ai \<mapsto> hist)\<rparr>
          in if hist = [] then (False, c)
             else let c = c\<lparr>m_addr_to_alias := (m_addr_to_alias c)(m_address (last hist) := None),
                         m_aliases := (m_aliases c)(m_alias ai \<mapsto> butlast hist)\<rparr>
                  in (True, if butlast hist \<noteq> []
                            then c\<lparr>m_addr_to_alias := (m_addr_to_alias c)(m_address (last (butlast hist)) \<mapsto> m_alias ai)\<rparr>
                            else c))"

definition put_alias_info :: "chain_env \<Rightarrow> alias_info \<Rightarrow> blockchain_storage \<Rightarrow> bool \<times> blockchain_storage" where
  "put_alias_info env ai c =
    (if length (m_alias ai) = 0 then (False, c)
     else let hist = alias_history (m_alias ai) c;
              c = c\<lparr>m_aliases := (m_aliases c)(m_alias ai \<mapsto> hist)\<rparr>;
              added = c\<lparr>m_aliases := (m_aliases c)(m_alias ai \<mapsto> hist @ [alias_info_base.truncate ai])\<rparr>
          in if m_sign ai = null_sig
             then if hist \<noteq> [] then (False, c)
                  else (True, added\<lparr>m_addr_to_alias := (m_addr_to_alias c)(m_address ai \<mapsto> m_alias ai)\<rparr>)
             else if hist = [] then (False, c)
             else let signed_buff = (case make_tx_extra_alias_entry ai True of None \<Rightarrow> [] | Some b \<Rightarrow> b)
                  in if \<not> check_signature env (get_blob_hash signed_buff) (m_spend_public_key (m_address (last hist))) (m_sign ai)
                     then (False, c)
                     else (True, added\<lparr>m_addr_to_alias :=
                       (m_addr_to_alias c)(m_address (last hist) := None, m_address ai \<mapsto> m_alias ai)\<rparr>))"

definition process_blockchain_tx_extra :: "chain_env \<Rightarrow> transaction \<Rightarrow> blockchain_storage \<Rightarrow> bool effect" where
  "process_blockchain_tx_extra env tx c =
    (case parse_and_validate_tx_extra (donation_account env) tx null_extra of
       OutOfBounds \<Rightarrow> (Inl OutOfRange, c)
     | Refused _ \<Rightarrow> (Inr False, c)
     | Done ei \<Rightarrow>
         if length (m_alias (ei_alias ei)) \<noteq> 0
         then apfst Inr (put_alias_info env (ei_alias ei) c)
         else (Inr True, c))"

definition unprocess_blockchain_tx_extra :: "chain_env \<Rightarrow> transaction \<Rightarrow> blockchain_storage \<Rightarrow> bool effect" where
  "unprocess_blockchain_tx_extra env tx c =
    (if is_coinbase tx
     then case parse_and_validate_tx_extra (donation_account env) tx null_extra of
            OutOfBounds \<Rightarrow> (Inl OutOfRange, c)
          | Refused _ \<Rightarrow> (Inr False, c)
          | Done ei \<Rightarrow>
              if length (m_alias (ei_alias ei)) \<noteq> 0
              then apfst Inr (pop_alias_info (ei_alias ei) c)
              else (Inr True, c)
     else (Inr True, c))"

section \<open>Adding a transaction\<close>

fun spend_input :: "txin_v \<Rightarrow> blockchain_storage \<Rightarrow> bool effect" where
  "spend_input (TxinToKey k) c =
    (if ki_k_image k \<in> m_spent_keys c then (Inr False, c)
     else let c = c\<lparr>m_spent_keys := insert (ki_k_image k) (m_spent_keys c)\<rparr>
          in if length (ki_key_offsets k) = 1
             then update_spent_tx_flags_for_input (ki_amount k) (ki_key_offsets k ! 0) True c
             else (Inr True, c))"
| "spend_input (TxinGen _) c = (Inr True, c)"
| "spend_input _ c = (Inr False, c)"

fun spend_inputs_loop :: "txin_v list \<Rightarrow> blockchain_storage \<Rightarrow> bool effect" where
  "spend_inputs_loop [] c = (Inr True, c)"
| "spend_inputs_loop (i # ins) c =
    and_next (spend_input i c) (\<lambda>r c. if \<not> r then (Inr False, c) else spend_inputs_loop ins c)"

text \<open>The three error branches undo what was done for the inputs and the alias and return \<open>false\<close>.\<close>

definition undo_transaction :: "chain_env \<Rightarrow> transaction \<Rightarrow> bool \<Rightarrow> blockchain_storage \<Rightarrow> transaction_chain_entry option effect" where
  "undo_transaction env tx strict_check c =
    and_next (purge_transaction_keyimages_from_blockchain tx strict_check c) (\<lambda>_ c.
      and_next (unprocess_blockchain_tx_extra env tx c) (\<lambda>_ c. (Inr None, c)))"

text \<open>\<open>None\<close> is the return value \<open>false\<close>; otherwise the completed entry.\<close>

definition add_transaction_from_block ::
  "chain_env \<Rightarrow> transaction_chain_entry \<Rightarrow> hash \<Rightarrow> u64 \<Rightarrow> nat \<Rightarrow> blockchain_storage \<Rightarrow> transaction_chain_entry option effect" where
  "add_transaction_from_block env txe tx_id bl_height tx_i c =
    (let tx = ce_tx txe
     in and_next (process_blockchain_tx_extra env tx c) (\<lambda>r c.
       if \<not> r then (Inr None, c)
       else and_next (spend_inputs_loop (vin tx) c) (\<lambda>r c.
         if \<not> r then undo_transaction env tx False c
         else let txe = txe\<lparr>m_keeper_block_height := bl_height,
                    m_spent_flags := take (length (vout tx)) (m_spent_flags txe)
                      @ replicate (length (vout tx) - length (m_spent_flags txe)) False\<rparr>
              in if m_transaction_map c tx_id \<noteq> None then undo_transaction env tx True c
                 else let c = c\<lparr>m_transaction_map := (m_transaction_map c)(tx_id \<mapsto> (ucast bl_height, word_of_nat tx_i))\<rparr>
                      in case push_transaction_to_global_outs_index tx tx_id (m_global_output_indexes txe) c of
                           ((r, gi), c) \<Rightarrow>
                             if \<not> r then (Inr None, c)
                             else (Inr (Some (txe\<lparr>m_global_output_indexes := gi\<rparr>)), c))))"

section \<open>Removing a block\<close>

definition purge_transaction_from_blockchain :: "chain_env \<Rightarrow> hash \<Rightarrow> blockchain_storage \<Rightarrow> bool effect" where
  "purge_transaction_from_blockchain env tx_id c =
    (case m_transaction_map c tx_id of
       None \<Rightarrow> (Inr False, c)
     | Some idx \<Rightarrow>
         (case transactionByIndex c idx of
            Inl e \<Rightarrow> (Inl e, c)
          | Inr txe \<Rightarrow>
              let tx = ce_tx txe
              in and_next (purge_transaction_keyimages_from_blockchain tx True c) (\<lambda>_ c.
                and_next (unprocess_blockchain_tx_extra env tx c) (\<lambda>r c.
                  if \<not> r then (Inr False, c)
                  else let c = (if \<not> is_coinbase tx
                                then c\<lparr>m_tx_pool := snd (snd (add_tx_computed (chain_view env c) (now env) tx no_verification
                                       True [] (m_tx_pool c)))\<rparr>
                                else c)
                       in and_next (pop_transaction_from_global_index tx tx_id c) (\<lambda>res c.
                            (Inr res, c\<lparr>m_transaction_map := (m_transaction_map c)(tx_id := None)\<rparr>))))))"

fun purge_txs_loop :: "chain_env \<Rightarrow> hash list \<Rightarrow> bool \<Rightarrow> blockchain_storage \<Rightarrow> bool effect" where
  "purge_txs_loop env [] res c = (Inr res, c)"
| "purge_txs_loop env (h # hs) res c =
    and_next (purge_transaction_from_blockchain env h c) (\<lambda>r c. purge_txs_loop env hs (r \<and> res) c)"

definition purge_block_data_from_blockchain :: "chain_env \<Rightarrow> block \<Rightarrow> nat \<Rightarrow> blockchain_storage \<Rightarrow> bool effect" where
  "purge_block_data_from_blockchain env b processed_tx_count c =
    (if \<not> processed_tx_count \<le> length (tx_hashes b) then (Inr False, c)
     else and_next (purge_txs_loop env (rev (take processed_tx_count (tx_hashes b))) True c) (\<lambda>res c.
       and_next (purge_transaction_from_blockchain env (get_transaction_hash (miner_tx b)) c) (\<lambda>r c. (Inr (r \<and> res), c))))"

text \<open>The result of \<open>pop_block_scratchpad_data\<close> is ignored.\<close>

definition pop_block_from_blockchain :: "chain_env \<Rightarrow> blockchain_storage \<Rightarrow> bool effect" where
  "pop_block_from_blockchain env c =
    (if \<not> length (m_blocks c) > 1 then (Inr False, c)
     else let b = be_bl (last (m_blocks c))
          in case pop_block_scratchpad_data (donation_account env) b (m_scratchpad c) of
               None \<Rightarrow> (Inl OutOfRange, c)
             | Some (_, scr) \<Rightarrow>
                 and_next (purge_block_data_from_blockchain env b (length (tx_hashes b)) (c\<lparr>m_scratchpad := scr\<rparr>)) (\<lambda>r c.
                   if \<not> r then (Inr False, c)
                   else if getTailId (m_blocks_index c) \<noteq> get_block_hash b then (Inr False, c)
                   else (Inr True, c\<lparr>m_blocks_index := bi_pop (m_blocks_index c), m_blocks := butlast (m_blocks c)\<rparr>)))"

end
