(* ===== verification/ChainMain.thy ===== *)
theory ChainMain
  imports ChainUpdate
begin

text \<open>
  The main functions of \<open>src/currency_core/blockchain_storage.cpp\<close>: \<open>handle_block_to_main_chain\<close>, and
  \<open>rebuildcache\<close>, which computes all indexes from the stored blocks when the node starts.
\<close>

section \<open>Rebuilding the indexes\<close>

definition clear_all_cache_data :: "blockchain_storage \<Rightarrow> blockchain_storage" where
  "clear_all_cache_data c = c\<lparr>m_transaction_map := Map.empty, m_spent_keys := {}, m_blocks_index := bi_clear (m_blocks_index c),
     m_alternative_chains := Map.empty, m_outputs := Map.empty, m_scratchpad := [], m_aliases := Map.empty,
     m_addr_to_alias := Map.empty\<rparr>"

fun rebuild_keys :: "txin_v list \<Rightarrow> key_image set \<Rightarrow> key_image set" where
  "rebuild_keys [] keys = keys"
| "rebuild_keys (TxinToKey k # ins) keys = rebuild_keys ins (insert (ki_k_image k) keys)"
| "rebuild_keys (_ # ins) keys = rebuild_keys ins keys"

fun rebuild_outs ::
  "transaction_index \<Rightarrow> tx_out list \<Rightarrow> nat \<Rightarrow> (u64 \<rightharpoonup> (transaction_index \<times> 16 word) list) \<Rightarrow> u64 \<rightharpoonup> (transaction_index \<times> 16 word) list" where
  "rebuild_outs idx [] i outs = outs"
| "rebuild_outs idx (ot # ots) i outs =
    rebuild_outs idx ots (i + 1)
      (outs(o_amount ot \<mapsto> (case outs (o_amount ot) of None \<Rightarrow> [] | Some v \<Rightarrow> v) @ [(idx, word_of_nat i)]))"

text \<open>The loop over the transactions of a block stops when the extra field of one is refused.\<close>

fun rebuild_txs :: "chain_env \<Rightarrow> u64 \<Rightarrow> transaction_chain_entry list \<Rightarrow> nat \<Rightarrow> blockchain_storage \<Rightarrow> unit effect" where
  "rebuild_txs env b [] t c = (Inr (), c)"
| "rebuild_txs env b (txe # txes) t c =
    and_next (process_blockchain_tx_extra env (ce_tx txe) c) (\<lambda>r c.
      if \<not> r then (Inr (), c)
      else let idx = (ucast b, word_of_nat t);
               h = get_transaction_hash (ce_tx txe);
               c = c\<lparr>m_transaction_map := (if m_transaction_map c h = None then (m_transaction_map c)(h \<mapsto> idx) else m_transaction_map c),
                     m_spent_keys := rebuild_keys (vin (ce_tx txe)) (m_spent_keys c),
                     m_outputs := rebuild_outs idx (vout (ce_tx txe)) 0 (m_outputs c)\<rparr>
           in if length (vout (ce_tx txe)) \<ge> 2 ^ 16 then (Inl CounterWraps, c) else rebuild_txs env b txes (t + 1) c)"

text \<open>\<open>push_block_scratchpad_data\<close> always returns \<open>true\<close>; the branch for \<open>false\<close> leaves the outer loop.\<close>

fun rebuild_blocks :: "chain_env \<Rightarrow> block_entry list \<Rightarrow> u64 \<Rightarrow> blockchain_storage \<Rightarrow> unit effect" where
  "rebuild_blocks env [] b c = (Inr (), c)"
| "rebuild_blocks env (be # bes) b c =
    (let c = c\<lparr>m_blocks_index := snd (bi_push (get_block_hash (be_bl be)) (m_blocks_index c))\<rparr>
     in if length (transactions be) \<ge> 2 ^ 16 then (Inl CounterWraps, c)
        else and_next (rebuild_txs env b (transactions be) 0 c) (\<lambda>_ c.
          case push_block_scratchpad_data (donation_account env) (be_bl be) (m_scratchpad c) of
            None \<Rightarrow> (Inl OutOfRange, c)
          | Some (r, scr) \<Rightarrow>
              let c = c\<lparr>m_scratchpad := scr\<rparr>
              in if \<not> r then (Inr (), c) else rebuild_blocks env bes (b + 1) c))"

definition rebuildcache :: "chain_env \<Rightarrow> nat \<Rightarrow> blockchain_storage \<Rightarrow> bool effect" where
  "rebuildcache env start_height c =
    and_next (rebuild_blocks env (drop start_height (m_blocks c)) (word_of_nat start_height) c) (\<lambda>_ c. (Inr True, c))"

text \<open>The loop that pushes the missing ids, and the one that pops those in excess.\<close>

fun push_ids :: "block_entry list \<Rightarrow> block_index \<Rightarrow> block_index" where
  "push_ids [] bi = bi"
| "push_ids (be # bes) bi = push_ids bes (snd (bi_push (get_block_hash (be_bl be)) bi))"

definition fix_blocks_index :: "chain_env \<Rightarrow> blockchain_storage \<Rightarrow> bool effect" where
  "fix_blocks_index env c =
    (let n = length (m_container (m_blocks_index c))
     in if n = length (m_blocks c) then (Inr True, c)
        else if n > length (m_blocks c)
        then (Inr True, c\<lparr>m_blocks_index := (bi_pop ^^ (n - length (m_blocks c))) (m_blocks_index c)\<rparr>)
        else let c = c\<lparr>m_blocks_index := push_ids (drop n (m_blocks c)) (m_blocks_index c)\<rparr>
             in if length (m_container (m_blocks_index c)) \<noteq> length (m_blocks c)
                then rebuildcache env 0 (clear_all_cache_data c)
                else (Inr True, c))"

section \<open>Adding a block\<close>

record block_verification_context =
  m_added_to_main_chain :: bool
  m_bvc_verifivation_failed :: bool
  m_marked_as_orphaned :: bool
  m_already_exists :: bool

definition no_block_verification :: block_verification_context where
  "no_block_verification = \<lparr>m_added_to_main_chain = False, m_bvc_verifivation_failed = False, m_marked_as_orphaned = False,
     m_already_exists = False\<rparr>"

definition empty_entry :: "transaction \<Rightarrow> transaction_chain_entry" where
  "empty_entry tx = \<lparr>ce_tx = tx, m_keeper_block_height = 0, m_global_output_indexes = [], m_spent_flags = []\<rparr>"

definition empty_block_entry :: "block \<Rightarrow> block_entry" where
  "empty_block_entry b = \<lparr>be_bl = b, be_height = 0, block_cumulative_size = 0, cumulative_difficulty = 0,
     already_generated_coins = 0, already_donated_coins = 0, scratch_offset = 0, transactions = []\<rparr>"

definition add_block_as_invalid :: "block_entry \<Rightarrow> hash \<Rightarrow> blockchain_storage \<Rightarrow> bool \<times> blockchain_storage" where
  "add_block_as_invalid bei h c =
    (if m_invalid_blocks c h \<noteq> None then (False, c) else (True, c\<lparr>m_invalid_blocks := (m_invalid_blocks c)(h \<mapsto> bei)\<rparr>))"

text \<open>
  The loop over the transactions of the block. It carries the entries completed so far, the sum of the fees and the
  size; the number of processed transactions is that of the completed entries less the miner transaction. The result
  \<open>None\<close> is the return value \<open>false\<close>.
\<close>

definition put_back :: "chain_env \<Rightarrow> transaction \<Rightarrow> blockchain_storage \<Rightarrow> blockchain_storage" where
  "put_back env tx c =
    c\<lparr>m_tx_pool := snd (snd (add_tx_computed (chain_view env c) (now env) tx no_verification True [] (m_tx_pool c)))\<rparr>"

fun block_txs_loop ::
  "chain_env \<Rightarrow> block \<Rightarrow> hash \<Rightarrow> hash list \<Rightarrow> nat \<Rightarrow> transaction_chain_entry list \<Rightarrow> u64 \<Rightarrow> u64 \<Rightarrow> blockchain_storage
    \<Rightarrow> (transaction_chain_entry list \<times> u64 \<times> u64) option effect" where
  "block_txs_loop env b i [] n txes fee_summary size_summary c = (Inr (Some (txes, fee_summary, size_summary)), c)"
| "block_txs_loop env b i (tx_id # hs) n txes fee_summary size_summary c =
    (case take_tx tx_id (m_tx_pool c) of
       (None, p) \<Rightarrow>
         and_next (purge_block_data_from_blockchain env b n (c\<lparr>m_tx_pool := p\<rparr>)) (\<lambda>_ c. (Inr None, c))
     | (Some (tx, sz, tx_fee), p) \<Rightarrow>
         let c = c\<lparr>m_tx_pool := p\<rparr>;
             tx = (if m_is_in_checkpoint_zone c then tx\<lparr>signatures := []\<rparr> else tx)
         in case check_tx_inputs env c tx of
              Inl e \<Rightarrow> (Inl e, c)
            | Inr (r, _) \<Rightarrow>
                if \<not> r
                then and_next (purge_block_data_from_blockchain env b n (put_back env tx c)) (\<lambda>_ c.
                       (Inr None, snd (add_block_as_invalid (empty_block_entry b) i c)))
                else and_next (add_transaction_from_block env (empty_entry tx) tx_id (blocks_size c) (n + 1) c) (\<lambda>res c.
                  case res of
                    None \<Rightarrow> and_next (purge_block_data_from_blockchain env b n (put_back env tx c)) (\<lambda>_ c. (Inr None, c))
                  | Some txe \<Rightarrow>
                      block_txs_loop env b i hs (n + 1) (txes @ [txe]) (fee_summary + tx_fee) (size_summary + sz) c))"

text \<open>The part after the transactions were added.\<close>

definition finish_block ::
  "chain_env \<Rightarrow> block \<Rightarrow> hash \<Rightarrow> u128 \<Rightarrow> transaction_chain_entry list \<Rightarrow> u64 \<Rightarrow> u64 \<Rightarrow> block_verification_context
    \<Rightarrow> blockchain_storage \<Rightarrow> (bool \<times> block_verification_context) effect" where
  "finish_block env b i current_diffic txes fee_summary cumulative_block_size bvc c =
    (let failed = bvc\<lparr>m_bvc_verifivation_failed := True\<rparr>;
         n = length (tx_hashes b);
         generated = (if m_blocks c \<noteq> [] then already_generated_coins (last (m_blocks c)) else 0);
         donated = (if m_blocks c \<noteq> [] then already_donated_coins (last (m_blocks c)) else 0)
     in case validate_miner_transaction env b cumulative_block_size fee_summary generated c of
          Inl e \<Rightarrow> (Inl e, c)
        | Inr None \<Rightarrow> and_next (purge_block_data_from_blockchain env b n c) (\<lambda>_ c. (Inr (False, failed), c))
        | Inr (Some (base_reward, donation_total)) \<Rightarrow>
            let bei = \<lparr>be_bl = b, be_height = blocks_size c, block_cumulative_size = cumulative_block_size,
                  cumulative_difficulty = current_diffic + (if m_blocks c \<noteq> [] then cumulative_difficulty (last (m_blocks c)) else 0),
                  already_generated_coins = generated + base_reward, already_donated_coins = donated + donation_total,
                  scratch_offset = word_of_nat (length (m_scratchpad c)), transactions = txes\<rparr>
            in case bi_push i (m_blocks_index c) of
                 (False, _) \<Rightarrow> and_next (purge_block_data_from_blockchain env b n c) (\<lambda>_ c. (Inr (False, failed), c))
               | (True, bi) \<Rightarrow>
                   let c = c\<lparr>m_blocks_index := bi\<rparr>
                   in case push_block_scratchpad_data (donation_account env) b (m_scratchpad c) of
                        None \<Rightarrow> (Inl OutOfRange, c)
                      | Some (False, scr) \<Rightarrow>
                          and_next (purge_block_data_from_blockchain env b n (c\<lparr>m_scratchpad := scr\<rparr>)) (\<lambda>_ c.
                            (Inr (False, failed), c\<lparr>m_blocks_index := bi_pop (m_blocks_index c)\<rparr>))
                      | Some (True, scr) \<Rightarrow>
                          and_next (fix_blocks_index env (c\<lparr>m_scratchpad := scr, m_blocks := m_blocks c @ [bei]\<rparr>)) (\<lambda>_ c.
                            (Inr (True, bvc\<lparr>m_added_to_main_chain := True\<rparr>), update_next_comulative_size_limit c)))"

definition hash_words :: "hash \<Rightarrow> u64 list" where
  "hash_words h = map (\<lambda>i. load_word (take 8 (drop (8 * i) h))) [0..<4]"

definition handle_block_to_main_chain ::
  "chain_env \<Rightarrow> block \<Rightarrow> hash \<Rightarrow> block_verification_context \<Rightarrow> blockchain_storage \<Rightarrow> (bool \<times> block_verification_context) effect" where
  "handle_block_to_main_chain env b i bvc c =
    (let failed = bvc\<lparr>m_bvc_verifivation_failed := True\<rparr>
     in if prev_id b \<noteq> get_top_block_id c then (Inr (False, bvc), c)
        else if \<not> check_block_timestamp_main env b c then (Inr (False, failed), c)
        else let current_diffic = get_difficulty_for_next_block c
             in if current_diffic = 0 then (Inr (False, bvc), c)
                else let proof_of_work = block_longhash env b (blocks_size c) (m_scratchpad c)
                     in if \<not> check_hash (hash_words proof_of_work) current_diffic then (Inr (False, failed), c)
                        else let c = c\<lparr>m_is_in_checkpoint_zone := is_in_checkpoint_zone (m_checkpoints c) (blocks_size c)\<rparr>
                             in if m_is_in_checkpoint_zone c \<and> \<not> check_block (m_checkpoints c) (blocks_size c) i
                                then (Inr (False, failed), c)
                                else if \<not> prevalidate_miner_transaction b (blocks_size c) then (Inr (False, failed), c)
                                else and_next (add_transaction_from_block env (empty_entry (miner_tx b))
                                    (get_transaction_hash (miner_tx b)) (blocks_size c) 0 c) (\<lambda>res c.
                                  case res of
                                    None \<Rightarrow> (Inr (False, failed), c)
                                  | Some txe \<Rightarrow>
                                      and_next (block_txs_loop env b i (tx_hashes b) 0 [txe] 0 (get_object_blobsize (miner_tx b)) c)
                                        (\<lambda>res c. case res of
                                           None \<Rightarrow> (Inr (False, failed), c)
                                         | Some (txes, fee_summary, sz) \<Rightarrow>
                                             finish_block env b i current_diffic txes fee_summary sz bvc c)))"

text \<open>The overload that computes the id of the block.\<close>

definition handle_block_to_main_chain_computed ::
  "chain_env \<Rightarrow> block \<Rightarrow> block_verification_context \<Rightarrow> blockchain_storage \<Rightarrow> (bool \<times> block_verification_context) effect" where
  "handle_block_to_main_chain_computed env b bvc c = handle_block_to_main_chain env b (get_block_hash b) bvc c"

end
