(* ===== verification/ChainInvariant.thy ===== *)
theory ChainInvariant
  imports ChainMain
begin

text \<open>
  What the functions of \<open>ChainUpdate\<close> and the rebuilding of the indexes keep of the state: flags of spent outputs,
  spending of inputs, outputs and aliases, and a transaction that is added to the indexes.
\<close>

section \<open>The indexes as a part of the state\<close>

definition same_tx_caches :: "blockchain_storage \<Rightarrow> blockchain_storage \<Rightarrow> bool" where
  "same_tx_caches c d \<longleftrightarrow> m_transaction_map c = m_transaction_map d \<and> m_spent_keys c = m_spent_keys d
     \<and> m_outputs c = m_outputs d \<and> m_aliases c = m_aliases d \<and> m_addr_to_alias c = m_addr_to_alias d"

definition same_caches :: "blockchain_storage \<Rightarrow> blockchain_storage \<Rightarrow> bool" where
  "same_caches c d \<longleftrightarrow> same_tx_caches c d \<and> m_blocks_index c = m_blocks_index d \<and> m_scratchpad c = m_scratchpad d"

text \<open>What no function on transactions changes.\<close>

definition same_rest :: "blockchain_storage \<Rightarrow> blockchain_storage \<Rightarrow> bool" where
  "same_rest c d \<longleftrightarrow> m_blocks_index c = m_blocks_index d \<and> m_scratchpad c = m_scratchpad d \<and> m_checkpoints c = m_checkpoints d
     \<and> m_is_in_checkpoint_zone c = m_is_in_checkpoint_zone d \<and> m_alternative_chains c = m_alternative_chains d
     \<and> m_invalid_blocks c = m_invalid_blocks d"

text \<open>Blocks with the same contents: only the flags of spent outputs may differ.\<close>

definition same_entry :: "transaction_chain_entry \<Rightarrow> transaction_chain_entry \<Rightarrow> bool" where
  "same_entry a b \<longleftrightarrow> ce_tx a = ce_tx b \<and> m_keeper_block_height a = m_keeper_block_height b
     \<and> m_global_output_indexes a = m_global_output_indexes b \<and> length (m_spent_flags a) = length (m_spent_flags b)"

definition same_block :: "block_entry \<Rightarrow> block_entry \<Rightarrow> bool" where
  "same_block a b \<longleftrightarrow> block_extended_info.truncate a = block_extended_info.truncate b \<and> list_all2 same_entry (transactions a) (transactions b)"

abbreviation same_blocks :: "blockchain_storage \<Rightarrow> blockchain_storage \<Rightarrow> bool" where
  "same_blocks c d \<equiv> list_all2 same_block (m_blocks c) (m_blocks d)"

lemma same_entry_refl [simp]: "same_entry a a"
  by (simp add: same_entry_def)

lemma same_block_refl [simp]: "same_block a a"
  by (simp add: same_block_def list.rel_refl)

lemma same_blocks_refl [simp]: "list_all2 same_block bs bs"
  by (simp add: list.rel_refl)

lemma same_block_bl: "same_block a b \<Longrightarrow> be_bl a = be_bl b"
  by (simp add: same_block_def block_extended_info.truncate_def)

lemma same_entry_trans: "same_entry a b \<Longrightarrow> same_entry b d \<Longrightarrow> same_entry a d"
  by (simp add: same_entry_def)

lemma same_block_trans: "same_block a b \<Longrightarrow> same_block b d \<Longrightarrow> same_block a d"
  unfolding same_block_def using list_all2_trans [OF same_entry_trans] by auto

lemma same_blocks_trans: "list_all2 same_block as bs \<Longrightarrow> list_all2 same_block bs cs \<Longrightarrow> list_all2 same_block as cs"
  by (rule list_all2_trans [OF same_block_trans])

lemma same_refl [simp]: "same_tx_caches c c" "same_caches c c" "same_rest c c"
  by (simp_all add: same_tx_caches_def same_caches_def same_rest_def)

lemma same_rest_trans: "same_rest a b \<Longrightarrow> same_rest b c \<Longrightarrow> same_rest a c"
  by (simp add: same_rest_def)

lemma same_blocks_bl: "list_all2 same_block bs bs' \<Longrightarrow> map be_bl bs = map be_bl bs'"
  by (simp add: list_all2_conv_all_nth same_block_bl list_eq_iff_nth_eq)

section \<open>Flags of spent outputs\<close>

lemma update_flags:
  assumes "update_spent_tx_flags_for_input a g s c = (r, c')"
  shows "same_tx_caches c' c" and "same_rest c' c" and "m_tx_pool c' = m_tx_pool c" and "same_blocks c c'"
proof -
  have cases: "c' = c \<or> (\<exists>b t txe f. transactionByIndex c (b, t) = Inr txe \<and> length f = length (m_spent_flags txe)
      \<and> c' = set_entry c (b, t) (txe\<lparr>m_spent_flags := f\<rparr>))"
    using assms
    by (auto simp: update_spent_tx_flags_for_input_def Let_def split: option.splits if_splits prod.splits sum.splits)
      (metis length_list_update)
  then show "same_tx_caches c' c" "same_rest c' c" "m_tx_pool c' = m_tx_pool c"
    by (auto simp: same_tx_caches_def same_rest_def set_entry_def)
  show "same_blocks c c'"
  proof (cases "c' = c")
    case False
    with cases obtain b t txe f where *: "transactionByIndex c (b, t) = Inr txe" "length f = length (m_spent_flags txe)"
      "c' = set_entry c (b, t) (txe\<lparr>m_spent_flags := f\<rparr>)" by blast
    let ?be = "m_blocks c ! unat b"
    have bt: "unat b < length (m_blocks c)" "unat t < length (transactions ?be)" "txe = transactions ?be ! unat t"
      using *(1) by (auto simp: transactionByIndex_def split: if_splits)
    have "same_block ?be (?be\<lparr>transactions := (transactions ?be)[unat t := txe\<lparr>m_spent_flags := f\<rparr>]\<rparr>)"
      using bt *(2) by (auto simp: same_block_def block_extended_info.truncate_def list_all2_conv_all_nth nth_list_update same_entry_def)
    then show ?thesis
      using bt(1) by (auto simp: *(3) set_entry_def list_all2_conv_all_nth nth_list_update)
  qed simp
qed

section \<open>Spending inputs\<close>

lemma spend_input_ok:
  assumes "spend_input i c = (Inr True, c')"
  shows "same_tx_caches c' (c\<lparr>m_spent_keys := rebuild_keys [i] (m_spent_keys c)\<rparr>)" and "same_rest c' c"
    and "m_tx_pool c' = m_tx_pool c" and "same_blocks c c'" and "m_spent_keys c \<inter> set (input_images [i]) = {}"
proof -
  have "same_tx_caches c' (c\<lparr>m_spent_keys := rebuild_keys [i] (m_spent_keys c)\<rparr>) \<and> same_rest c' c \<and> m_tx_pool c' = m_tx_pool c
      \<and> same_blocks c c' \<and> m_spent_keys c \<inter> set (input_images [i]) = {}"
  proof (cases i)
    case (TxinToKey k)
    let ?c = "c\<lparr>m_spent_keys := insert (ki_k_image k) (m_spent_keys c)\<rparr>"
    have new: "ki_k_image k \<notin> m_spent_keys c" using assms TxinToKey by (auto split: if_splits)
    show ?thesis
    proof (cases "length (ki_key_offsets k) = 1")
      case True
      then have "update_spent_tx_flags_for_input (ki_amount k) (ki_key_offsets k ! 0) True ?c = (Inr True, c')"
        using assms TxinToKey new by (simp add: Let_def)
      from update_flags [OF this] show ?thesis using new TxinToKey by (simp add: same_rest_def)
    next
      case False
      then have "c' = ?c" using assms TxinToKey new by (simp add: Let_def)
      then show ?thesis using new TxinToKey by (simp add: same_rest_def)
    qed
  qed (use assms in \<open>simp_all add: same_tx_caches_def\<close>)
  then show "same_tx_caches c' (c\<lparr>m_spent_keys := rebuild_keys [i] (m_spent_keys c)\<rparr>)" "same_rest c' c"
    "m_tx_pool c' = m_tx_pool c" "same_blocks c c'" "m_spent_keys c \<inter> set (input_images [i]) = {}" by blast+
qed

lemma rebuild_keys_eq: "rebuild_keys ins keys = keys \<union> set (input_images ins)"
  by (induction ins keys rule: rebuild_keys.induct) auto

lemma input_images_Cons: "input_images (i # ins) = input_images [i] @ input_images ins"
  by (cases i) simp_all

lemma spend_inputs_ok:
  assumes "spend_inputs_loop ins c = (Inr True, c')"
  shows "same_tx_caches c' (c\<lparr>m_spent_keys := rebuild_keys ins (m_spent_keys c)\<rparr>) \<and> same_rest c' c
    \<and> m_tx_pool c' = m_tx_pool c \<and> same_blocks c c' \<and> m_spent_keys c \<inter> set (input_images ins) = {} \<and> distinct (input_images ins)"
  using assms
proof (induction ins arbitrary: c)
  case Nil
  then show ?case by (simp add: same_tx_caches_def)
next
  case (Cons i ins)
  obtain c1 where i: "spend_input i c = (Inr True, c1)" and ins: "spend_inputs_loop ins c1 = (Inr True, c')"
    using Cons.prems by (auto simp: and_next_Inr split: if_splits)
  note step = spend_input_ok [OF i] and rest = Cons.IH [OF ins]
  have keys: "m_spent_keys c1 = m_spent_keys c \<union> set (input_images [i])"
    using step(1) by (simp add: same_tx_caches_def rebuild_keys_eq)
  have one: "distinct (input_images [i])" by (cases i) simp_all
  have "same_blocks c c'" using step(4) rest by (blast intro: same_blocks_trans)
  then show ?case
    using step rest keys one
    by (auto simp: same_tx_caches_def same_rest_def rebuild_keys_eq input_images_Cons [of i ins])
qed

section \<open>Outputs and aliases\<close>

lemma push_outs_ok:
  "m_transaction_map c tx_id = Some idx \<Longrightarrow>
    \<exists>gi'. push_outs_loop tx_id outs i gi c = ((True, gi'), c\<lparr>m_outputs := rebuild_outs idx outs i (m_outputs c)\<rparr>)"
proof (induction outs arbitrary: i gi c)
  case (Cons ot outs)
  define v where "v = (case m_outputs c (o_amount ot) of None \<Rightarrow> [] | Some v \<Rightarrow> v) @ [(idx, word_of_nat i)]"
  define f where "f = (m_outputs c)(o_amount ot \<mapsto> v)"
  obtain gi' where "push_outs_loop tx_id outs (i + 1) (gi @ [word_of_nat (length v) - 1]) (c\<lparr>m_outputs := f\<rparr>)
      = ((True, gi'), c\<lparr>m_outputs := f\<rparr>\<lparr>m_outputs := rebuild_outs idx outs (i + 1) (m_outputs (c\<lparr>m_outputs := f\<rparr>))\<rparr>)"
    using Cons.IH [of "c\<lparr>m_outputs := f\<rparr>"] Cons.prems by auto
  then show ?case using Cons.prems by (simp add: Let_def f_def v_def)
qed simp

text \<open>The effect of an extra field depends on the aliases only.\<close>

lemma put_alias_info_cong:
  assumes "m_aliases c = m_aliases d" and "m_addr_to_alias c = m_addr_to_alias d"
  shows "fst (put_alias_info env ai c) = fst (put_alias_info env ai d)
    \<and> snd (put_alias_info env ai c) = c\<lparr>m_aliases := m_aliases (snd (put_alias_info env ai d)),
        m_addr_to_alias := m_addr_to_alias (snd (put_alias_info env ai d))\<rparr>"
  using assms by (cases c; cases d) (simp add: put_alias_info_def alias_history_def Let_def)

lemma process_extra_cong:
  assumes "m_aliases c = m_aliases d" and "m_addr_to_alias c = m_addr_to_alias d"
  shows "\<exists>r al ad. process_blockchain_tx_extra env tx c = (r, c\<lparr>m_aliases := al, m_addr_to_alias := ad\<rparr>)
    \<and> process_blockchain_tx_extra env tx d = (r, d\<lparr>m_aliases := al, m_addr_to_alias := ad\<rparr>)"
proof -
  have id: "x = x\<lparr>m_aliases := m_aliases x, m_addr_to_alias := m_addr_to_alias x\<rparr>" for x :: blockchain_storage by simp
  have "\<exists>r al ad. apfst Inr (put_alias_info env ai c) = (r, c\<lparr>m_aliases := al, m_addr_to_alias := ad\<rparr>)
      \<and> apfst Inr (put_alias_info env ai d) = (r, d\<lparr>m_aliases := al, m_addr_to_alias := ad\<rparr>)" for ai
    using put_alias_info_cong [OF assms, of env ai] put_alias_info_cong [of d d env ai] by (auto simp: prod_eq_iff)
  moreover have "\<exists>al ad. c = c\<lparr>m_aliases := al, m_addr_to_alias := ad\<rparr> \<and> d = d\<lparr>m_aliases := al, m_addr_to_alias := ad\<rparr>"
    using id [of c] id [of d] assms by metis
  ultimately show ?thesis
    by (auto simp: process_blockchain_tx_extra_def split: outcome.splits)
qed

section \<open>Adding a transaction\<close>

text \<open>One step of the rebuilding, written as a change of the five indexes.\<close>

definition indexed :: "transaction \<Rightarrow> transaction_index \<Rightarrow> blockchain_storage \<Rightarrow> blockchain_storage" where
  "indexed tx idx c = c\<lparr>m_transaction_map := (m_transaction_map c)(get_transaction_hash tx \<mapsto> idx),
     m_spent_keys := rebuild_keys (vin tx) (m_spent_keys c), m_outputs := rebuild_outs idx (vout tx) 0 (m_outputs c)\<rparr>"

lemma same_tx_caches_indexed: "same_tx_caches c d \<Longrightarrow> same_tx_caches (indexed tx idx c) (indexed tx idx d)"
  by (simp add: same_tx_caches_def indexed_def)

lemma add_transaction_ok:
  assumes add: "add_transaction_from_block env txe (get_transaction_hash (ce_tx txe)) h n c = (Inr (Some txe'), c')"
  shows "\<exists>al ad. process_blockchain_tx_extra env (ce_tx txe) c = (Inr True, c\<lparr>m_aliases := al, m_addr_to_alias := ad\<rparr>)
      \<and> same_tx_caches c' (indexed (ce_tx txe) (ucast h, word_of_nat n) (c\<lparr>m_aliases := al, m_addr_to_alias := ad\<rparr>))"
    and "same_rest c' c" and "m_tx_pool c' = m_tx_pool c" and "same_blocks c c'" and "ce_tx txe' = ce_tx txe"
    and "m_transaction_map c (get_transaction_hash (ce_tx txe)) = None"
    and "m_spent_keys c \<inter> set (tx_images (ce_tx txe)) = {}" and "distinct (tx_images (ce_tx txe))"
proof -
  let ?tx = "ce_tx txe" and ?i = "get_transaction_hash (ce_tx txe)" and ?idx = "(ucast h, word_of_nat n)"
  obtain al ad where c1: "process_blockchain_tx_extra env ?tx c = (Inr True, c\<lparr>m_aliases := al, m_addr_to_alias := ad\<rparr>)"
    using add process_extra_cong [OF refl refl, of env ?tx c]
    by (auto simp: add_transaction_from_block_def Let_def and_next_Inr split: if_splits)
  let ?c1 = "c\<lparr>m_aliases := al, m_addr_to_alias := ad\<rparr>"
  obtain c2 where c2: "spend_inputs_loop (vin ?tx) ?c1 = (Inr True, c2)" and new: "m_transaction_map c2 ?i = None"
  proof -
    obtain r c2 where s: "spend_inputs_loop (vin ?tx) ?c1 = (Inr r, c2)"
      using add c1 by (auto simp: add_transaction_from_block_def Let_def and_next_Inr)
    have "\<not> (and_next (purge_transaction_keyimages_from_blockchain ?tx b c2) (\<lambda>_ c.
        and_next (unprocess_blockchain_tx_extra env ?tx c) (\<lambda>_ c. (Inr None, c))) = (Inr (Some txe'), c'))" for b
      by (auto simp: and_next_Inr)
    then show ?thesis
      using that s add c1 by (cases r; cases "m_transaction_map c2 ?i") (auto simp: add_transaction_from_block_def Let_def undo_transaction_def)
  qed
  let ?c3 = "c2\<lparr>m_transaction_map := (m_transaction_map c2)(?i \<mapsto> ?idx)\<rparr>"
  obtain gi where "push_outs_loop ?i (vout ?tx) 0 (m_global_output_indexes txe) ?c3
      = ((True, gi), ?c3\<lparr>m_outputs := rebuild_outs ?idx (vout ?tx) 0 (m_outputs ?c3)\<rparr>)"
    using push_outs_ok [of ?c3 ?i ?idx] by fastforce
  then have c': "c' = ?c3\<lparr>m_outputs := rebuild_outs ?idx (vout ?tx) 0 (m_outputs ?c3)\<rparr>" and "ce_tx txe' = ?tx"
    using add c1 c2 new by (auto simp: add_transaction_from_block_def Let_def push_transaction_to_global_outs_index_def)
  then show "ce_tx txe' = ?tx" by simp
  note sp = spend_inputs_ok [OF c2]
  have "same_tx_caches c' (indexed ?tx ?idx ?c1)" using sp by (simp add: c' same_tx_caches_def indexed_def)
  then show "\<exists>al ad. process_blockchain_tx_extra env (ce_tx txe) c = (Inr True, c\<lparr>m_aliases := al, m_addr_to_alias := ad\<rparr>)
      \<and> same_tx_caches c' (indexed (ce_tx txe) ?idx (c\<lparr>m_aliases := al, m_addr_to_alias := ad\<rparr>))" using c1 by blast
  show "same_rest c' c" "m_tx_pool c' = m_tx_pool c" "same_blocks c c'" "m_spent_keys c \<inter> set (tx_images ?tx) = {}"
    "distinct (tx_images ?tx)" "m_transaction_map c ?i = None"
    using sp new by (simp_all add: c' same_rest_def same_tx_caches_def)
qed

section \<open>The rebuilding\<close>

lemma process_extra_fields:
  assumes "process_blockchain_tx_extra env tx c = (r, c')"
  shows "\<exists>al ad. c' = c\<lparr>m_aliases := al, m_addr_to_alias := ad\<rparr>"
  using process_extra_cong [OF refl refl, of env tx c] assms by auto

text \<open>One step of the rebuilding.\<close>

definition rebuilt_tx :: "transaction \<Rightarrow> transaction_index \<Rightarrow> blockchain_storage \<Rightarrow> blockchain_storage" where
  "rebuilt_tx tx idx c = c\<lparr>m_transaction_map := (if m_transaction_map c (get_transaction_hash tx) = None
        then (m_transaction_map c)(get_transaction_hash tx \<mapsto> idx) else m_transaction_map c),
     m_spent_keys := rebuild_keys (vin tx) (m_spent_keys c), m_outputs := rebuild_outs idx (vout tx) 0 (m_outputs c)\<rparr>"

lemma rebuild_txs_Cons:
  "rebuild_txs env b (txe # txes) t c =
    and_next (process_blockchain_tx_extra env (ce_tx txe) c) (\<lambda>r c.
      if \<not> r then (Inr (), c)
      else if length (vout (ce_tx txe)) \<ge> 2 ^ 16 then (Inl CounterWraps, rebuilt_tx (ce_tx txe) (ucast b, word_of_nat t) c)
      else rebuild_txs env b txes (t + 1) (rebuilt_tx (ce_tx txe) (ucast b, word_of_nat t) c))"
  unfolding rebuild_txs.simps rebuilt_tx_def Let_def ..

lemma rebuilt_tx_same_rest: "same_rest (rebuilt_tx tx idx c) c" "m_blocks (rebuilt_tx tx idx c) = m_blocks c"
  by (simp_all add: rebuilt_tx_def same_rest_def)

lemma rebuilt_tx_cong: "same_tx_caches c d \<Longrightarrow> same_tx_caches (rebuilt_tx tx idx c) (rebuilt_tx tx idx d)"
  by (simp add: same_tx_caches_def rebuilt_tx_def)

text \<open>The rebuilding reads and writes the indexes of transactions only.\<close>

lemma rebuild_txs_same_rest: "same_rest (snd (rebuild_txs env b txes t c)) c \<and> m_blocks (snd (rebuild_txs env b txes t c)) = m_blocks c"
proof (induction txes arbitrary: t c)
  case (Cons txe txes)
  obtain r1 c1 where c1: "process_blockchain_tx_extra env (ce_tx txe) c = (r1, c1)" by fastforce
  from process_extra_fields [OF c1] have "same_rest c1 c" "m_blocks c1 = m_blocks c" by (auto simp: same_rest_def)
  moreover have "same_rest (snd (rebuild_txs env b txes (t + 1) (rebuilt_tx (ce_tx txe) (ucast b, word_of_nat t) c1))) c1"
    using Cons.IH rebuilt_tx_same_rest(1) by (blast intro: same_rest_trans)
  moreover have "m_blocks (snd (rebuild_txs env b txes (t + 1) (rebuilt_tx (ce_tx txe) (ucast b, word_of_nat t) c1))) = m_blocks c1"
    using Cons.IH rebuilt_tx_same_rest(2) by metis
  ultimately show ?case
    unfolding rebuild_txs_Cons c1 using rebuilt_tx_same_rest [of "ce_tx txe" "(ucast b, word_of_nat t)" c1]
    by (cases r1) (auto simp del: rebuild_txs.simps intro: same_rest_trans)
qed simp

lemma rebuild_txs_cong:
  assumes "same_tx_caches c d" and "map ce_tx txes = map ce_tx txes'"
  shows "fst (rebuild_txs env b txes t c) = fst (rebuild_txs env b txes' t d)
    \<and> same_tx_caches (snd (rebuild_txs env b txes t c)) (snd (rebuild_txs env b txes' t d))"
  using assms
proof (induction txes arbitrary: txes' t c d)
  case (Cons txe txes)
  from Cons.prems(2) obtain txe' txes'' where txes': "txes' = txe' # txes''" "ce_tx txe' = ce_tx txe" "map ce_tx txes = map ce_tx txes''"
    by (cases txes') auto
  obtain r al ad where p: "process_blockchain_tx_extra env (ce_tx txe) c = (r, c\<lparr>m_aliases := al, m_addr_to_alias := ad\<rparr>)"
    "process_blockchain_tx_extra env (ce_tx txe) d = (r, d\<lparr>m_aliases := al, m_addr_to_alias := ad\<rparr>)"
    using process_extra_cong [of c d env "ce_tx txe"] Cons.prems(1) by (auto simp: same_tx_caches_def)
  have st: "same_tx_caches (c\<lparr>m_aliases := al, m_addr_to_alias := ad\<rparr>) (d\<lparr>m_aliases := al, m_addr_to_alias := ad\<rparr>)"
    using Cons.prems(1) by (simp add: same_tx_caches_def)
  show ?case
    unfolding txes'(1) rebuild_txs_Cons txes'(2) p using Cons.IH [OF rebuilt_tx_cong [OF st] txes'(3)] rebuilt_tx_cong [OF st] st
    by (cases r) (auto simp del: rebuild_txs.simps)
qed simp

end
