(* ===== verification/ChainRebuild.thy ===== *)
theory ChainRebuild
  imports ChainInvariant
begin

text \<open>
  The transactions of an accepted block as a rebuilding of the indexes, the rebuilding of a whole chain as a
  composition of blocks, and the invariant of the chain.
\<close>

section \<open>The transactions of a block\<close>

abbreviation entries_images :: "transaction_chain_entry list \<Rightarrow> key_image list" where
  "entries_images txes \<equiv> concat (map (\<lambda>txe. tx_images (ce_tx txe)) txes)"

lemma hash_without_signatures [simp]: "get_transaction_hash (tx\<lparr>signatures := s\<rparr>) = get_transaction_hash tx"
  by (cases tx) (simp add: get_transaction_hash_def put_transaction_prefix_def)

lemma rebuilt_tx_new:
  "m_transaction_map c (get_transaction_hash tx) = None \<Longrightarrow> rebuilt_tx tx idx c = indexed tx idx c"
  by (simp add: rebuilt_tx_def indexed_def)

lemma same_tx_caches_sym: "same_tx_caches c d \<Longrightarrow> same_tx_caches d c"
  by (simp add: same_tx_caches_def)

lemma same_tx_caches_trans: "same_tx_caches a b \<Longrightarrow> same_tx_caches b c \<Longrightarrow> same_tx_caches a c"
  by (simp add: same_tx_caches_def)

lemma same_blocks_size: "same_blocks c c' \<Longrightarrow> blocks_size c' = blocks_size c"
  using list_all2_lengthD by (fastforce simp: blocks_size_def)

lemma process_extra_transfer:
  assumes p: "process_blockchain_tx_extra env tx c = (r, c\<lparr>m_aliases := al, m_addr_to_alias := ad\<rparr>)"
    and "m_aliases c = m_aliases d" and "m_addr_to_alias c = m_addr_to_alias d"
  shows "process_blockchain_tx_extra env tx d = (r, d\<lparr>m_aliases := al, m_addr_to_alias := ad\<rparr>)"
proof -
  obtain r' al' ad' where q: "process_blockchain_tx_extra env tx c = (r', c\<lparr>m_aliases := al', m_addr_to_alias := ad'\<rparr>)"
    "process_blockchain_tx_extra env tx d = (r', d\<lparr>m_aliases := al', m_addr_to_alias := ad'\<rparr>)"
    using process_extra_cong [OF assms(2,3)] by blast
  from p q(1) have "r = r'" and eq: "c\<lparr>m_aliases := al, m_addr_to_alias := ad\<rparr> = c\<lparr>m_aliases := al', m_addr_to_alias := ad'\<rparr>" by simp_all
  moreover have "al = al'" "ad = ad'" using arg_cong [OF eq, of m_aliases] arg_cong [OF eq, of m_addr_to_alias] by simp_all
  ultimately show ?thesis using q(2) by simp
qed

text \<open>A transaction that was added is the first one of a rebuilding that goes on from the new state.\<close>

lemma rebuild_after_add:
  assumes add: "add_transaction_from_block env txe (get_transaction_hash (ce_tx txe)) h n c = (Inr (Some txe'), c')"
    and d: "same_tx_caches c d" and outs: "length (vout (ce_tx txe')) < 2 ^ 16"
  shows "\<exists>d'. rebuild_txs env h (txe' # txes) n d = rebuild_txs env h txes (n + 1) d' \<and> same_tx_caches c' d'"
proof -
  let ?tx = "ce_tx txe" and ?idx = "(ucast h, word_of_nat n) :: transaction_index"
  note ok = add_transaction_ok [OF add]
  obtain al ad where p: "process_blockchain_tx_extra env ?tx c = (Inr True, c\<lparr>m_aliases := al, m_addr_to_alias := ad\<rparr>)"
    and c': "same_tx_caches c' (indexed ?tx ?idx (c\<lparr>m_aliases := al, m_addr_to_alias := ad\<rparr>))"
    using ok(1) by blast
  have d': "process_blockchain_tx_extra env ?tx d = (Inr True, d\<lparr>m_aliases := al, m_addr_to_alias := ad\<rparr>)"
    using process_extra_transfer [OF p] d by (simp add: same_tx_caches_def)
  let ?d = "d\<lparr>m_aliases := al, m_addr_to_alias := ad\<rparr>"
  have "m_transaction_map ?d (get_transaction_hash ?tx) = None" using ok(6) d by (simp add: same_tx_caches_def)
  from rebuilt_tx_new [OF this] have "rebuild_txs env h (txe' # txes) n d = rebuild_txs env h txes (n + 1) (indexed ?tx ?idx ?d)"
    unfolding rebuild_txs_Cons ok(5) d' using outs ok(5) by simp
  moreover have "same_tx_caches (c\<lparr>m_aliases := al, m_addr_to_alias := ad\<rparr>) ?d" using d by (simp add: same_tx_caches_def)
  ultimately show ?thesis using same_tx_caches_trans [OF c' same_tx_caches_indexed] by blast
qed

text \<open>What adding transactions to the block at height \<open>h\<close>, from position \<open>n\<close> on, does to the state.\<close>

definition adds_txs :: "u64 \<Rightarrow> nat \<Rightarrow> transaction_chain_entry list \<Rightarrow> blockchain_storage \<Rightarrow> blockchain_storage \<Rightarrow> bool" where
  "adds_txs h n new c c' \<longleftrightarrow> same_rest c' c \<and> same_blocks c c' \<and> distinct (entries_images new)
     \<and> m_spent_keys c \<inter> set (entries_images new) = {} \<and> m_spent_keys c' = m_spent_keys c \<union> set (entries_images new)
     \<and> m_transaction_map c \<subseteq>\<^sub>m m_transaction_map c'
     \<and> (\<forall>k < length new. m_transaction_map c' (get_transaction_hash (ce_tx (new ! k))) = Some (ucast h, word_of_nat (n + k)))"

lemma adds_txs_Nil: "adds_txs h n [] c c"
  by (simp add: adds_txs_def)

lemma adds_txs_Cons:
  assumes one: "adds_txs h n [x] c c1" and rest: "adds_txs h (n + 1) ys c1 c2"
  shows "adds_txs h n (x # ys) c c2"
proof -
  have "same_blocks c c2" using assms same_blocks_trans by (auto simp: adds_txs_def)
  moreover have "m_transaction_map c \<subseteq>\<^sub>m m_transaction_map c2" using assms map_le_trans by (auto simp: adds_txs_def)
  moreover have "m_transaction_map c2 (get_transaction_hash (ce_tx ((x # ys) ! k))) = Some (ucast h, word_of_nat (n + k))"
    if "k < length (x # ys)" for k
  proof (cases k)
    case 0
    have "m_transaction_map c1 (get_transaction_hash (ce_tx x)) = Some (ucast h, word_of_nat n)" using one by (simp add: adds_txs_def)
    then show ?thesis using rest 0 unfolding adds_txs_def map_le_def by (metis add_0_right domI nth_Cons_0)
  next
    case (Suc j)
    then show ?thesis using rest that by (simp add: adds_txs_def)
  qed
  ultimately show ?thesis using assms by (auto simp: adds_txs_def same_rest_def)
qed

lemma add_transaction_adds:
  assumes "add_transaction_from_block env txe (get_transaction_hash (ce_tx txe)) h n c = (Inr (Some txe'), c')"
  shows "adds_txs h n [txe'] c c'"
  using add_transaction_ok [OF assms]
  by (auto simp: adds_txs_def same_tx_caches_def indexed_def rebuild_keys_eq map_le_def)

lemma take_tx_Some:
  assumes "pool_ok p" and "take_tx i p = (Some (tx, sz, f), p')"
  shows "i = get_transaction_hash tx" and "pool_ok p'"
proof -
  obtain td where "m_transactions p i = Some td" using assms(2) by (auto simp: take_tx_def split: option.splits)
  then show "i = get_transaction_hash tx"
    using take_tx_eq [OF assms(1)] assms by (auto simp: pool_ok_def transactions_ok_def)
  show "pool_ok p'" using take_tx_ok [OF assms(1), of i] assms(2) by simp
qed

lemma block_txs_ok:
  assumes "block_txs_loop env b i hs n txes f s c = (Inr (Some (txes', f', s')), c')" and "pool_ok (m_tx_pool c)"
  shows "\<exists>new. txes' = txes @ new \<and> map (\<lambda>txe. get_transaction_hash (ce_tx txe)) new = hs \<and> pool_ok (m_tx_pool c')
    \<and> adds_txs (blocks_size c) (n + 1) new c c'
    \<and> (\<forall>d. same_tx_caches c d \<longrightarrow> (\<forall>txe \<in> set new. length (vout (ce_tx txe)) < 2 ^ 16)
         \<longrightarrow> (\<exists>d'. rebuild_txs env (blocks_size c) new (n + 1) d = (Inr (), d') \<and> same_tx_caches c' d'))"
  using assms
proof (induction hs arbitrary: n txes f s c)
  case Nil
  then show ?case by (simp add: adds_txs_Nil)
next
  case (Cons h hs)
  obtain tx sz fe p where take: "take_tx h (m_tx_pool c) = (Some (tx, sz, fe), p)"
    using Cons.prems(1) by (auto simp: and_next_Inr split: option.splits prod.splits)
  note pool = take_tx_Some [OF Cons.prems(2) take]
  let ?c = "c\<lparr>m_tx_pool := p\<rparr>" and ?tx = "if m_is_in_checkpoint_zone c then tx\<lparr>signatures := []\<rparr> else tx"
  have h: "get_transaction_hash ?tx = h" using pool(1) by simp
  obtain txe c1 where add: "add_transaction_from_block env (empty_entry ?tx) h (blocks_size ?c) (n + 1) ?c = (Inr (Some txe), c1)"
    and rest: "block_txs_loop env b i hs (n + 1) (txes @ [txe]) (f + fe) (s + sz) c1 = (Inr (Some (txes', f', s')), c')"
    using Cons.prems(1) take
    by (simp add: Let_def and_next_Inr split: sum.splits prod.splits if_splits option.splits) (auto split: option.splits)
  have ce: "ce_tx (empty_entry ?tx) = ?tx" by (simp add: empty_entry_def)
  have add': "add_transaction_from_block env (empty_entry ?tx) (get_transaction_hash (ce_tx (empty_entry ?tx))) (blocks_size ?c) (n + 1) ?c
    = (Inr (Some txe), c1)" using add unfolding ce h .
  note ok = add_transaction_ok [OF add'] and img = add_transaction_adds [OF add']
  have pool1: "pool_ok (m_tx_pool c1)" using ok(3) pool(2) by simp
  have size1: "blocks_size c1 = blocks_size c" using same_blocks_size [OF ok(4)] by (simp add: blocks_size_def)
  from Cons.IH [OF rest pool1] obtain new where new: "txes' = txes @ txe # new"
    "map (\<lambda>txe. get_transaction_hash (ce_tx txe)) new = hs" "pool_ok (m_tx_pool c')" "adds_txs (blocks_size c) (n + 1 + 1) new c1 c'"
    "\<And>d. same_tx_caches c1 d \<Longrightarrow> \<forall>txe \<in> set new. length (vout (ce_tx txe)) < 2 ^ 16
      \<Longrightarrow> \<exists>d'. rebuild_txs env (blocks_size c) new (n + 1 + 1) d = (Inr (), d') \<and> same_tx_caches c' d'"
    unfolding size1 by auto
  have "blocks_size ?c = blocks_size c" by (simp add: blocks_size_def)
  then have "adds_txs (blocks_size c) (n + 1) (txe # new) ?c c'" using adds_txs_Cons [OF img] new(4) by simp
  then have "adds_txs (blocks_size c) (n + 1) (txe # new) c c'" by (simp add: adds_txs_def same_rest_def)
  moreover have "\<exists>d'. rebuild_txs env (blocks_size c) (txe # new) (n + 1) d = (Inr (), d') \<and> same_tx_caches c' d'"
    if d: "same_tx_caches c d" and outs: "\<forall>txe \<in> set (txe # new). length (vout (ce_tx txe)) < 2 ^ 16" for d
  proof -
    have "same_tx_caches ?c d" using d by (simp add: same_tx_caches_def)
    moreover have "blocks_size ?c = blocks_size c" by (simp add: blocks_size_def)
    ultimately show ?thesis using rebuild_after_add [OF add', of d new] new(5) outs by (metis list.set_intros)
  qed
  ultimately show ?case using new(1-3) ok(5) h by (intro exI [of _ "txe # new"]) (simp add: empty_entry_def)
qed

section \<open>The rebuilding of a chain\<close>

lemma same_caches_sym: "same_caches c d \<Longrightarrow> same_caches d c"
  by (auto simp: same_caches_def same_tx_caches_def)

lemma same_caches_trans: "same_caches a b \<Longrightarrow> same_caches b c \<Longrightarrow> same_caches a c"
  by (auto simp: same_caches_def same_tx_caches_def)

text \<open>Blocks that the rebuilding does not tell apart.\<close>

definition same_contents :: "block_entry \<Rightarrow> block_entry \<Rightarrow> bool" where
  "same_contents a b \<longleftrightarrow> be_bl a = be_bl b \<and> map ce_tx (transactions a) = map ce_tx (transactions b)"

lemma same_block_contents: "same_block a b \<Longrightarrow> same_contents a b"
  by (auto simp: same_contents_def same_block_bl) (auto simp: same_block_def same_entry_def list_all2_conv_all_nth list_eq_iff_nth_eq)

lemma push_scratchpad_True: "push_block_scratchpad_data acc b s = Some (r, s') \<Longrightarrow> r"
  by (auto simp: push_block_scratchpad_eq split: option.splits)

text \<open>One block, for a scratchpad that can be extended.\<close>

definition rebuild_block :: "chain_env \<Rightarrow> block_entry \<Rightarrow> u64 \<Rightarrow> blockchain_storage \<Rightarrow> unit effect" where
  "rebuild_block env be b c =
    (if length (transactions be) \<ge> 2 ^ 16
     then (Inl CounterWraps, c\<lparr>m_blocks_index := snd (bi_push (get_block_hash (be_bl be)) (m_blocks_index c))\<rparr>)
     else and_next (rebuild_txs env b (transactions be) 0
        (c\<lparr>m_blocks_index := snd (bi_push (get_block_hash (be_bl be)) (m_blocks_index c))\<rparr>)) (\<lambda>_ c.
      case push_block_scratchpad_data (donation_account env) (be_bl be) (m_scratchpad c) of
        None \<Rightarrow> (Inl OutOfRange, c)
      | Some (_, scr) \<Rightarrow> (Inr (), c\<lparr>m_scratchpad := scr\<rparr>)))"

definition counters_fit :: "block_entry \<Rightarrow> bool" where
  "counters_fit be \<longleftrightarrow> length (transactions be) < 2 ^ 16 \<and> (\<forall>txe \<in> set (transactions be). length (vout (ce_tx txe)) < 2 ^ 16)"

lemma and_next_assoc: "and_next (and_next m f) g = and_next m (\<lambda>a c. and_next (f a c) g)"
  by (cases m) (auto simp: and_next_def split: sum.splits)

lemma and_next_cong: "(\<And>a c. m = (Inr a, c) \<Longrightarrow> f a c = g a c) \<Longrightarrow> and_next m f = and_next m g"
  by (cases m) (auto simp: and_next_def split: sum.splits)

lemma rebuild_blocks_Cons:
  "rebuild_blocks env (be # bes) b c = and_next (rebuild_block env be b c) (\<lambda>_. rebuild_blocks env bes (b + 1))"
  unfolding rebuild_block_def
  by (auto simp: Let_def and_next_assoc intro!: and_next_cong split: option.splits dest: push_scratchpad_True)

declare rebuild_blocks.simps(2) [simp del]

lemma rebuild_blocks_append:
  "rebuild_blocks env (xs @ ys) b c = and_next (rebuild_blocks env xs b c) (\<lambda>_. rebuild_blocks env ys (b + word_of_nat (length xs)))"
proof (induction xs arbitrary: b c)
  case (Cons x xs)
  show ?case by (auto simp: rebuild_blocks_Cons and_next_assoc Cons.IH add.assoc intro: and_next_cong)
qed (simp add: and_next_def)

lemma rebuild_block_cong:
  assumes cd: "same_caches c d" and xy: "same_contents x y"
  shows "fst (rebuild_block env x b c) = fst (rebuild_block env y b d)
    \<and> same_caches (snd (rebuild_block env x b c)) (snd (rebuild_block env y b d))"
proof -
  let ?i = "\<lambda>c. c\<lparr>m_blocks_index := snd (bi_push (get_block_hash (be_bl x)) (m_blocks_index c))\<rparr>"
  have bl: "be_bl y = be_bl x" and txs: "map ce_tx (transactions x) = map ce_tx (transactions y)" using xy by (simp_all add: same_contents_def)
  note len = txs
  have "same_tx_caches (?i c) (?i d)" using cd by (simp add: same_caches_def same_tx_caches_def)
  note txs = rebuild_txs_cong [OF this txs, of env b 0]
  obtain r c1 where c1: "rebuild_txs env b (transactions x) 0 (?i c) = (r, c1)" by fastforce
  obtain d1 where d1: "rebuild_txs env b (transactions y) 0 (?i d) = (r, d1)" using txs c1 by (metis fst_conv prod.exhaust)
  have same: "same_tx_caches c1 d1" using txs c1 d1 by simp
  have "same_rest c1 (?i c)" "same_rest d1 (?i d)"
    using rebuild_txs_same_rest [of env b "transactions x" 0 "?i c"] rebuild_txs_same_rest [of env b "transactions y" 0 "?i d"] c1 d1
    by simp_all
  then have "same_caches c1 d1" using same cd by (simp add: same_caches_def same_rest_def)
  moreover have "length (transactions y) = length (transactions x)" using map_eq_imp_length_eq [OF len] by simp
  ultimately show ?thesis
    unfolding rebuild_block_def bl c1 d1 using cd
    by (cases r) (auto simp: same_caches_def same_tx_caches_def split: option.splits)
qed

lemma rebuild_blocks_cong:
  assumes "same_caches c d" and "list_all2 same_contents xs ys"
  shows "fst (rebuild_blocks env xs b c) = fst (rebuild_blocks env ys b d)
    \<and> same_caches (snd (rebuild_blocks env xs b c)) (snd (rebuild_blocks env ys b d))"
  using assms(2,1)
proof (induction xs ys arbitrary: b c d rule: list_all2_induct)
  case (Cons x xs y ys)
  note one = rebuild_block_cong [OF Cons.prems Cons.hyps(1), of env b]
  obtain r c1 where c1: "rebuild_block env x b c = (r, c1)" by fastforce
  obtain d1 where d1: "rebuild_block env y b d = (r, d1)" using one c1 by (metis fst_conv prod.exhaust)
  have "same_caches c1 d1" using one c1 d1 by simp
  then show ?case unfolding rebuild_blocks_Cons c1 d1 using Cons.IH by (cases r) simp_all
qed simp

section \<open>The invariant\<close>

abbreviation chain_images :: "blockchain_storage \<Rightarrow> key_image list" where
  "chain_images c \<equiv> concat (map (\<lambda>be. entries_images (transactions be)) (m_blocks c))"

text \<open>The indexes are those that \<open>rebuildcache\<close> computes from the stored blocks.\<close>

definition indexes_rebuilt :: "chain_env \<Rightarrow> blockchain_storage \<Rightarrow> bool" where
  "indexes_rebuilt env c = (case rebuildcache env 0 (clear_all_cache_data c) of
     (Inl _, _) \<Rightarrow> False
   | (Inr r, d) \<Rightarrow> r \<and> same_caches c d)"

text \<open>The block at every height names its predecessor and the transactions stored with it.\<close>

definition linked :: "block_entry list \<Rightarrow> bool" where
  "linked bs \<longleftrightarrow> (\<forall>n < length bs. prev_id (be_bl (bs ! n)) = (if n = 0 then null_hash else get_block_hash (be_bl (bs ! (n - 1))))
     \<and> map (\<lambda>txe. get_transaction_hash (ce_tx txe)) (transactions (bs ! n)) = block_tx_ids (be_bl (bs ! n)))"

text \<open>The map finds every stored transaction at its height and position.\<close>

definition located :: "(hash \<rightharpoonup> transaction_index) \<Rightarrow> block_entry list \<Rightarrow> bool" where
  "located m bs \<longleftrightarrow> (\<forall>n < length bs. \<forall>t < length (transactions (bs ! n)).
     m (get_transaction_hash (ce_tx (transactions (bs ! n) ! t))) = Some (ucast (word_of_nat n :: u64), word_of_nat t))"

definition chain_ok :: "blockchain_storage \<Rightarrow> bool" where
  "chain_ok c \<longleftrightarrow> pool_ok (m_tx_pool c) \<and> m_container (m_blocks_index c) = map (\<lambda>be. get_block_hash (be_bl be)) (m_blocks c)
     \<and> distinct (m_container (m_blocks_index c)) \<and> linked (m_blocks c) \<and> located (m_transaction_map c) (m_blocks c)
     \<and> distinct (chain_images c) \<and> m_spent_keys c = set (chain_images c)"

lemma chain_okD:
  assumes "chain_ok c"
  shows "pool_ok (m_tx_pool c)" and "m_container (m_blocks_index c) = map (\<lambda>be. get_block_hash (be_bl be)) (m_blocks c)"
    and "distinct (m_container (m_blocks_index c))" and "linked (m_blocks c)" and "located (m_transaction_map c) (m_blocks c)"
    and "distinct (chain_images c)" and "m_spent_keys c = set (chain_images c)"
  using assms unfolding chain_ok_def by blast+

lemma indexes_rebuilt_iff:
  "indexes_rebuilt env c \<longleftrightarrow> (\<exists>d. rebuild_blocks env (m_blocks c) 0 (clear_all_cache_data c) = (Inr (), d) \<and> same_caches c d)"
  by (auto simp: indexes_rebuilt_def rebuildcache_def clear_all_cache_data_def and_next_def split: prod.splits sum.splits)

lemma clear_all_same: "same_caches (clear_all_cache_data c) (clear_all_cache_data d)"
  by (cases "m_blocks_index c"; cases "m_blocks_index d") (simp add: same_caches_def same_tx_caches_def clear_all_cache_data_def bi_clear_def)

text \<open>What the state after an accepted block looks like.\<close>

lemma indexes_rebuilt_append:
  assumes "indexes_rebuilt env c" and bs: "list_all2 same_contents (m_blocks c) bs" and c': "m_blocks c' = bs @ [bei]"
    and new: "\<And>d. same_caches c d \<Longrightarrow> \<exists>d'. rebuild_block env bei (blocks_size c) d = (Inr (), d') \<and> same_caches c' d'"
  shows "indexes_rebuilt env c'"
proof -
  obtain d where d: "rebuild_blocks env (m_blocks c) 0 (clear_all_cache_data c) = (Inr (), d)" "same_caches c d"
    using assms(1) by (auto simp: indexes_rebuilt_iff)
  obtain d1 where d1: "rebuild_blocks env bs 0 (clear_all_cache_data c') = (Inr (), d1)" "same_caches c d1"
    using rebuild_blocks_cong [OF clear_all_same bs, of env 0 c c'] d same_caches_trans
    by (cases "rebuild_blocks env bs 0 (clear_all_cache_data c')") auto
  have "length bs = length (m_blocks c)" using bs by (simp add: list_all2_lengthD)
  then show ?thesis
    unfolding indexes_rebuilt_iff c' rebuild_blocks_append d1
    using new [OF d1(2)] by (auto simp: rebuild_blocks_Cons blocks_size_def)
qed

end
