(* ===== verification/ChainAccept.thy ===== *)
theory ChainAccept
  imports ChainRebuild
begin

text \<open>
  A block that \<open>handle_block_to_main_chain\<close> accepts keeps the invariant of the chain, and the indexes equal to those
  that \<open>rebuildcache\<close> computes from the blocks.
\<close>

section \<open>An accepted block\<close>

lemma finish_block_ok:
  assumes fin: "finish_block env b i dif txes f s bvc c = (Inr (True, bvc'), c')"
    and len: "length (m_container (m_blocks_index c)) = length (m_blocks c)"
  shows "\<exists>bei scr lim. be_bl bei = b \<and> transactions bei = txes \<and> i \<notin> set (m_container (m_blocks_index c))
    \<and> push_block_scratchpad_data (donation_account env) b (m_scratchpad c) = Some (True, scr)
    \<and> c' = c\<lparr>m_blocks_index := snd (bi_push i (m_blocks_index c)), m_scratchpad := scr, m_blocks := m_blocks c @ [bei],
        m_current_block_cumul_sz_limit := lim\<rparr>"
proof -
  have no: "and_next m (\<lambda>_ c. (Inr (False, bvc1), g c)) \<noteq> (Inr (True, bvc'), c')" for m :: "bool effect" and bvc1 g
    by (auto simp: and_next_Inr)
  obtain rew don where val: "validate_miner_transaction env b s f
      (if m_blocks c \<noteq> [] then already_generated_coins (last (m_blocks c)) else 0) c = Inr (Some (rew, don))"
    using fin no [of _ _ "\<lambda>c. c"] by (auto simp: finish_block_def Let_def split: sum.splits option.splits)
  obtain bi where bi: "bi_push i (m_blocks_index c) = (True, bi)"
    using fin val no [of _ _ "\<lambda>c. c"]
    by (cases "bi_push i (m_blocks_index c)"; cases "fst (bi_push i (m_blocks_index c))") (auto simp: finish_block_def Let_def)
  obtain scr where scr: "push_block_scratchpad_data (donation_account env) b (m_scratchpad c) = Some (True, scr)"
    using fin val bi push_scratchpad_True [of "donation_account env" b "m_scratchpad c"]
    by (cases "push_block_scratchpad_data (donation_account env) b (m_scratchpad c)") (auto simp: finish_block_def Let_def)
  have "i \<notin> set (m_container (m_blocks_index c))" "bi = snd (bi_push i (m_blocks_index c))"
    "length (m_container bi) = Suc (length (m_blocks c))"
    using bi len by (auto simp: bi_push_def split: if_splits)
  moreover have "\<exists>bei. be_bl bei = b \<and> transactions bei = txes
      \<and> c' = update_next_comulative_size_limit (c\<lparr>m_blocks_index := bi, m_scratchpad := scr, m_blocks := m_blocks c @ [bei]\<rparr>)"
    using fin val bi scr calculation(3)
    by (intro exI [of _ "\<lparr>be_bl = b, be_height = blocks_size c, block_cumulative_size = s,
        cumulative_difficulty = dif + (if m_blocks c \<noteq> [] then cumulative_difficulty (last (m_blocks c)) else 0),
        already_generated_coins = (if m_blocks c \<noteq> [] then already_generated_coins (last (m_blocks c)) else 0) + rew,
        already_donated_coins = (if m_blocks c \<noteq> [] then already_donated_coins (last (m_blocks c)) else 0) + don,
        scratch_offset = word_of_nat (length (m_scratchpad c)), transactions = txes\<rparr>"])
      (simp add: finish_block_def Let_def fix_blocks_index_def blocks_size_def)
  ultimately show ?thesis using scr by (auto simp: update_next_comulative_size_limit_def Let_def)
qed

lemma handle_block_parts:
  assumes "handle_block_to_main_chain env b i bvc c = (Inr (True, bvc'), c')"
  shows "prev_id b = get_top_block_id c \<and> (\<exists>z txe c1 txes f s c2.
    add_transaction_from_block env (empty_entry (miner_tx b)) (get_transaction_hash (miner_tx b)) (blocks_size c) 0
      (c\<lparr>m_is_in_checkpoint_zone := z\<rparr>) = (Inr (Some txe), c1)
    \<and> block_txs_loop env b i (tx_hashes b) 0 [txe] 0 (get_object_blobsize (miner_tx b)) c1 = (Inr (Some (txes, f, s)), c2)
    \<and> finish_block env b i (get_difficulty_for_next_block c) txes f s bvc c2 = (Inr (True, bvc'), c'))"
proof -
  let ?z = "is_in_checkpoint_zone (m_checkpoints c) (blocks_size c)"
  let ?c = "c\<lparr>m_is_in_checkpoint_zone := ?z\<rparr>"
  have size: "blocks_size ?c = blocks_size c" by (simp add: blocks_size_def)
  obtain res c1 where prev: "prev_id b = get_top_block_id c"
    and miner: "add_transaction_from_block env (empty_entry (miner_tx b)) (get_transaction_hash (miner_tx b)) (blocks_size c) 0 ?c = (Inr res, c1)"
    and rest: "(case res of None \<Rightarrow> (Inr (False, bvc\<lparr>m_bvc_verifivation_failed := True\<rparr>), c1)
      | Some txe \<Rightarrow> and_next (block_txs_loop env b i (tx_hashes b) 0 [txe] 0 (get_object_blobsize (miner_tx b)) c1)
          (\<lambda>res c'. case res of None \<Rightarrow> (Inr (False, bvc\<lparr>m_bvc_verifivation_failed := True\<rparr>), c')
           | Some (txes, f, s) \<Rightarrow> finish_block env b i (get_difficulty_for_next_block c) txes f s bvc c')) = (Inr (True, bvc'), c')"
    using assms by (auto simp: handle_block_to_main_chain_def Let_def and_next_Inr size split: if_splits)
  obtain txe where txe: "res = Some txe" using rest by (cases res) auto
  then obtain res2 c2 where loop: "block_txs_loop env b i (tx_hashes b) 0 [txe] 0 (get_object_blobsize (miner_tx b)) c1 = (Inr res2, c2)"
    and fin: "(case res2 of None \<Rightarrow> (Inr (False, bvc\<lparr>m_bvc_verifivation_failed := True\<rparr>), c2)
       | Some (txes, f, s) \<Rightarrow> finish_block env b i (get_difficulty_for_next_block c) txes f s bvc c2) = (Inr (True, bvc'), c')"
    using rest by (auto simp: and_next_Inr)
  obtain txes f s where res2: "res2 = Some (txes, f, s)" using fin by (cases res2) auto
  have "finish_block env b i (get_difficulty_for_next_block c) txes f s bvc c2 = (Inr (True, bvc'), c')" using fin by (simp add: res2)
  then show ?thesis using prev miner [unfolded txe] loop [unfolded res2] by blast
qed

lemma same_blocks_images:
  "list_all2 same_block bs bs' \<Longrightarrow> map (\<lambda>be. entries_images (transactions be)) bs' = map (\<lambda>be. entries_images (transactions be)) bs"
proof (induction rule: list_all2_induct)
  case (Cons x xs y ys)
  have "map ce_tx (transactions x) = map ce_tx (transactions y)" using same_block_contents [OF Cons.hyps(1)] by (simp add: same_contents_def)
  then have "map (tx_images \<circ> ce_tx) (transactions x) = map (tx_images \<circ> ce_tx) (transactions y)" by (metis map_map)
  then show ?case using Cons.IH by (simp add: comp_def)
qed simp

lemma linked_append:
  assumes "linked bs" and same: "list_all2 same_contents bs bs'"
    and prev: "prev_id (be_bl bei) = (if bs = [] then null_hash else get_block_hash (be_bl (last bs)))"
    and ids: "map (\<lambda>txe. get_transaction_hash (ce_tx txe)) (transactions bei) = block_tx_ids (be_bl bei)"
  shows "linked (bs' @ [bei])"
proof -
  have len: "length bs' = length bs" using same by (simp add: list_all2_lengthD)
  have bl: "be_bl (bs' ! n) = be_bl (bs ! n)" "map ce_tx (transactions (bs' ! n)) = map ce_tx (transactions (bs ! n))" if "n < length bs" for n
    using list_all2_nthD [OF same that] by (simp_all add: same_contents_def)
  have "map (get_transaction_hash \<circ> ce_tx) (transactions (bs' ! n)) = map (get_transaction_hash \<circ> ce_tx) (transactions (bs ! n))"
    if "n < length bs" for n using bl(2) [OF that] by (metis map_map)
  then show ?thesis
    using assms(1) prev ids bl(1)
    by (auto simp: linked_def nth_append len less_Suc_eq last_conv_nth comp_def)
qed

lemma located_append:
  assumes "located m bs" and same: "list_all2 same_contents bs bs'" and "m \<subseteq>\<^sub>m m'"
    and new: "\<forall>t < length (transactions bei). m' (get_transaction_hash (ce_tx (transactions bei ! t)))
      = Some (ucast (word_of_nat (length bs) :: u64), word_of_nat t)"
  shows "located m' (bs' @ [bei])"
proof -
  have len: "length bs' = length bs" using same by (simp add: list_all2_lengthD)
  have txs: "map ce_tx (transactions (bs' ! n)) = map ce_tx (transactions (bs ! n))" if "n < length bs" for n
    using list_all2_nthD [OF same that] by (simp add: same_contents_def)
  have "m' (get_transaction_hash (ce_tx (transactions (bs' ! n) ! t))) = Some (ucast (word_of_nat n :: u64), word_of_nat t)"
    if n: "n < length bs" and t: "t < length (transactions (bs' ! n))" for n t
  proof -
    have "t < length (transactions (bs ! n))" "ce_tx (transactions (bs' ! n) ! t) = ce_tx (transactions (bs ! n) ! t)"
      using t txs [OF n] map_eq_imp_length_eq [OF txs [OF n]] by (metis nth_map)+
    then show ?thesis using assms(1,3) n unfolding located_def map_le_def by (metis domI)
  qed
  then show ?thesis using new by (auto simp: located_def nth_append len less_Suc_eq)
qed

text \<open>The state after an accepted block.\<close>

lemma accepted_block:
  assumes pool: "pool_ok (m_tx_pool c)" and len: "length (m_container (m_blocks_index c)) = length (m_blocks c)"
    and hb: "handle_block_to_main_chain env b (get_block_hash b) bvc c = (Inr (True, bvc'), c')"
  shows "\<exists>bs bei. m_blocks c' = bs @ [bei] \<and> list_all2 same_block (m_blocks c) bs \<and> be_bl bei = b \<and> prev_id b = get_top_block_id c
    \<and> map (\<lambda>txe. get_transaction_hash (ce_tx txe)) (transactions bei) = block_tx_ids b \<and> pool_ok (m_tx_pool c')
    \<and> m_container (m_blocks_index c') = m_container (m_blocks_index c) @ [get_block_hash b]
    \<and> get_block_hash b \<notin> set (m_container (m_blocks_index c)) \<and> distinct (entries_images (transactions bei))
    \<and> m_spent_keys c \<inter> set (entries_images (transactions bei)) = {}
    \<and> m_spent_keys c' = m_spent_keys c \<union> set (entries_images (transactions bei)) \<and> m_transaction_map c \<subseteq>\<^sub>m m_transaction_map c'
    \<and> (\<forall>t < length (transactions bei). m_transaction_map c' (get_transaction_hash (ce_tx (transactions bei ! t)))
         = Some (ucast (blocks_size c), word_of_nat t))
    \<and> (\<forall>d. same_caches c d \<longrightarrow> counters_fit bei \<longrightarrow> (\<exists>d'. rebuild_block env bei (blocks_size c) d = (Inr (), d') \<and> same_caches c' d'))"
proof -
  obtain z txe c1 txes f s c2 where prev: "prev_id b = get_top_block_id c"
    and miner: "add_transaction_from_block env (empty_entry (miner_tx b)) (get_transaction_hash (miner_tx b)) (blocks_size c) 0
      (c\<lparr>m_is_in_checkpoint_zone := z\<rparr>) = (Inr (Some txe), c1)"
    and loop: "block_txs_loop env b (get_block_hash b) (tx_hashes b) 0 [txe] 0 (get_object_blobsize (miner_tx b)) c1
      = (Inr (Some (txes, f, s)), c2)"
    and fin: "finish_block env b (get_block_hash b) (get_difficulty_for_next_block c) txes f s bvc c2 = (Inr (True, bvc'), c')"
    using handle_block_parts [OF hb] by blast
  let ?c0 = "c\<lparr>m_is_in_checkpoint_zone := z\<rparr>"
  have ce: "ce_tx (empty_entry (miner_tx b)) = miner_tx b" by (simp add: empty_entry_def)
  have miner: "add_transaction_from_block env (empty_entry (miner_tx b)) (get_transaction_hash (ce_tx (empty_entry (miner_tx b))))
      (blocks_size c) 0 ?c0 = (Inr (Some txe), c1)" using miner unfolding ce .
  note m = add_transaction_ok [OF miner]
  have size: "blocks_size c1 = blocks_size c" using same_blocks_size [OF m(4)] by (simp add: blocks_size_def)
  have "pool_ok (m_tx_pool c1)" using m(3) pool by simp
  from block_txs_ok [OF loop this] obtain new where new: "txes = txe # new" "map (\<lambda>txe. get_transaction_hash (ce_tx txe)) new = tx_hashes b"
    and pool': "pool_ok (m_tx_pool c2)" and adds: "adds_txs (blocks_size c) (0 + 1) new c1 c2"
    and reb: "\<And>d. same_tx_caches c1 d \<Longrightarrow> \<forall>txe \<in> set new. length (vout (ce_tx txe)) < 2 ^ 16 \<Longrightarrow> \<exists>d'. rebuild_txs env (blocks_size c) new (0 + 1) d = (Inr (), d') \<and> same_tx_caches c2 d'"
    unfolding size by auto
  have adds: "adds_txs (blocks_size c) 0 txes ?c0 c2" unfolding new(1) by (rule adds_txs_Cons [OF add_transaction_adds [OF miner] adds])
  have rest: "m_blocks_index c2 = m_blocks_index c" "m_scratchpad c2 = m_scratchpad c" and same: "list_all2 same_block (m_blocks c) (m_blocks c2)"
    using adds by (auto simp: adds_txs_def same_rest_def)
  obtain bei scr lim where bei: "be_bl bei = b" "transactions bei = txes" and new_id: "get_block_hash b \<notin> set (m_container (m_blocks_index c2))"
    and scr: "push_block_scratchpad_data (donation_account env) b (m_scratchpad c2) = Some (True, scr)"
    and c': "c' = c2\<lparr>m_blocks_index := snd (bi_push (get_block_hash b) (m_blocks_index c2)), m_scratchpad := scr,
      m_blocks := m_blocks c2 @ [bei], m_current_block_cumul_sz_limit := lim\<rparr>"
    using finish_block_ok [OF fin] len same by (auto simp: rest list_all2_lengthD)
  have "\<exists>d'. rebuild_block env bei (blocks_size c) d = (Inr (), d') \<and> same_caches c' d'" if d: "same_caches c d" and fit: "counters_fit bei" for d
  proof -
    have outs: "length (vout (ce_tx txe)) < 2 ^ 16" "\<forall>txe \<in> set new. length (vout (ce_tx txe)) < 2 ^ 16"
      using fit by (auto simp: counters_fit_def bei new(1))
    let ?d = "d\<lparr>m_blocks_index := snd (bi_push (get_block_hash (be_bl bei)) (m_blocks_index d))\<rparr>"
    have "same_tx_caches ?c0 ?d" using d by (simp add: same_caches_def same_tx_caches_def)
    from rebuild_after_add [OF miner this outs(1), of new] obtain d2 where d2: "rebuild_txs env (blocks_size c) txes 0 ?d = (Inr (), d2)" "same_tx_caches c2 d2"
      using reb [OF _ outs(2)] by (metis new(1))
    have "same_rest d2 ?d" using rebuild_txs_same_rest [of env "blocks_size c" txes 0 ?d] by (simp add: d2)
    then show ?thesis
      using d2 d scr rest fit by (auto simp: rebuild_block_def counters_fit_def bei same_rest_def same_caches_def same_tx_caches_def c')
  qed
  then show ?thesis
    using adds prev same new_id pool' new(2) m(5)
    by (intro exI [of _ "m_blocks c2"] exI [of _ bei])
      (simp add: c' bei rest bi_push_def adds_txs_def block_tx_ids_def new(1) ce)
qed

lemma accepted_block_ok:
  assumes "chain_ok c" and hb: "handle_block_to_main_chain env b (get_block_hash b) bvc c = (Inr (True, bvc'), c')"
  shows "chain_ok c'" and "indexes_rebuilt env c \<Longrightarrow> counters_fit (last (m_blocks c')) \<Longrightarrow> indexes_rebuilt env c'" and "map be_bl (m_blocks c') = map be_bl (m_blocks c) @ [b]"
proof -
  note ok = chain_okD [OF assms(1)]
  have len: "length (m_container (m_blocks_index c)) = length (m_blocks c)" using ok(2) by simp
  obtain bs bei where acc: "m_blocks c' = bs @ [bei]" "list_all2 same_block (m_blocks c) bs" "be_bl bei = b" "prev_id b = get_top_block_id c"
    "map (\<lambda>txe. get_transaction_hash (ce_tx txe)) (transactions bei) = block_tx_ids b" "pool_ok (m_tx_pool c')"
    "m_container (m_blocks_index c') = m_container (m_blocks_index c) @ [get_block_hash b]"
    "get_block_hash b \<notin> set (m_container (m_blocks_index c))" "distinct (entries_images (transactions bei))"
    "m_spent_keys c \<inter> set (entries_images (transactions bei)) = {}"
    "m_spent_keys c' = m_spent_keys c \<union> set (entries_images (transactions bei))" "m_transaction_map c \<subseteq>\<^sub>m m_transaction_map c'"
    "\<forall>t < length (transactions bei). m_transaction_map c' (get_transaction_hash (ce_tx (transactions bei ! t)))
         = Some (ucast (blocks_size c), word_of_nat t)"
    "\<And>d. same_caches c d \<Longrightarrow> counters_fit bei \<Longrightarrow> \<exists>d'. rebuild_block env bei (blocks_size c) d = (Inr (), d') \<and> same_caches c' d'"
    using accepted_block [OF ok(1) len hb] by blast
  have same: "list_all2 same_contents (m_blocks c) bs" using acc(2) same_block_contents by (rule list_all2_mono)
  have bls: "map be_bl bs = map be_bl (m_blocks c)" using same_blocks_bl [OF acc(2)] by simp
  show "map be_bl (m_blocks c') = map be_bl (m_blocks c) @ [b]" by (simp add: acc(1,3) bls)
  show "indexes_rebuilt env c'" if "indexes_rebuilt env c" "counters_fit (last (m_blocks c'))"
    using indexes_rebuilt_append [OF that(1) same acc(1)] acc(14) that(2) by (simp add: acc(1))
  have "map (\<lambda>be. get_block_hash (be_bl be)) bs = map (\<lambda>be. get_block_hash (be_bl be)) (m_blocks c)"
    using arg_cong [OF bls, of "map get_block_hash"] by (simp add: comp_def)
  moreover have "linked (m_blocks c')"
    unfolding acc(1) using ok(4) same acc(3-5) by (intro linked_append) (simp_all add: get_top_block_id_def)
  moreover have "located (m_transaction_map c') (m_blocks c')"
    unfolding acc(1) using acc(13) by (intro located_append [OF ok(5) same acc(12)]) (simp add: blocks_size_def)
  moreover have "chain_images c' = chain_images c @ entries_images (transactions bei)"
    using same_blocks_images [OF acc(2)] by (simp add: acc(1))
  ultimately show "chain_ok c'"
    unfolding chain_ok_def using ok acc(3,6-11) by (simp add: acc(1))
qed

end
