(* ===== verification/ChainRefuse.thy ===== *)
theory ChainRefuse
  imports ChainAccept
begin

text \<open>
  A block that is refused. A refusal that returns changes at most the aliases; once the miner transaction was added
  every failure throws, because the removal looks for the transactions in a block that is not stored.
\<close>

section \<open>Functions that keep the map of transactions\<close>

definition keeps_map :: "blockchain_storage \<Rightarrow> blockchain_storage \<Rightarrow> bool" where
  "keeps_map c c' \<longleftrightarrow> m_transaction_map c' = m_transaction_map c \<and> length (m_blocks c') = length (m_blocks c)"

lemma keeps_map_refl [simp]: "keeps_map c c"
  by (simp add: keeps_map_def)

lemma keeps_map_trans: "keeps_map a b \<Longrightarrow> keeps_map b c \<Longrightarrow> keeps_map a c"
  by (simp add: keeps_map_def)

lemma keeps_map_and_next:
  "keeps_map c (snd m) \<Longrightarrow> (\<And>a c'. m = (Inr a, c') \<Longrightarrow> keeps_map c' (snd (f a c'))) \<Longrightarrow> keeps_map c (snd (and_next m f))"
  by (cases m; cases "fst m") (auto simp: and_next_def intro: keeps_map_trans split: sum.splits)

lemma keeps_map_flags: "keeps_map c (snd (update_spent_tx_flags_for_input a g s c))"
  using update_flags(1,4) [of a g s c] list_all2_lengthD
  by (cases "update_spent_tx_flags_for_input a g s c") (fastforce simp: keeps_map_def same_tx_caches_def)

lemma keeps_map_keys: "keeps_map (c\<lparr>m_spent_keys := k\<rparr>) c' \<longleftrightarrow> keeps_map c c'" "keeps_map c (c\<lparr>m_spent_keys := k\<rparr>)"
  by (simp_all add: keeps_map_def)

lemma keeps_map_spend_input: "keeps_map c (snd (spend_input i c))"
  using keeps_map_flags [of "c\<lparr>m_spent_keys := k\<rparr>" for k] by (cases i) (auto simp: Let_def keeps_map_keys)

lemma keeps_map_spend_inputs: "keeps_map c (snd (spend_inputs_loop ins c))"
  by (induction ins arbitrary: c) (auto intro!: keeps_map_and_next keeps_map_spend_input)

lemma keeps_map_purge_input: "keeps_map c (snd (purge_input s i c))"
  using keeps_map_flags [of "c\<lparr>m_spent_keys := k\<rparr>" for k] by (cases i) (auto simp: Let_def keeps_map_keys)

lemma keeps_map_purge_keyimages: "keeps_map c (snd (purge_keyimages_loop s ins c))"
  by (induction ins arbitrary: c) (auto intro!: keeps_map_and_next keeps_map_purge_input)

text \<open>The extra fields change the aliases only.\<close>

lemma unprocess_extra_fields: "\<exists>al ad. snd (unprocess_blockchain_tx_extra env tx c) = c\<lparr>m_aliases := al, m_addr_to_alias := ad\<rparr>"
proof -
  have id: "c = c\<lparr>m_aliases := m_aliases c, m_addr_to_alias := m_addr_to_alias c\<rparr>" by simp
  have "\<exists>al ad. snd (pop_alias_info ai c) = c\<lparr>m_aliases := al, m_addr_to_alias := ad\<rparr>" for ai
    by (cases c) (auto simp: pop_alias_info_def Let_def)
  moreover have "\<exists>al ad. c = c\<lparr>m_aliases := al, m_addr_to_alias := ad\<rparr>" using id by blast
  ultimately show ?thesis by (auto simp: unprocess_blockchain_tx_extra_def split: outcome.splits)
qed

lemma keeps_map_extra: "keeps_map c (snd (process_blockchain_tx_extra env tx c))" "keeps_map c (snd (unprocess_blockchain_tx_extra env tx c))"
proof -
  obtain al ad where "snd (process_blockchain_tx_extra env tx c) = c\<lparr>m_aliases := al, m_addr_to_alias := ad\<rparr>"
    using process_extra_fields [of env tx c] by (metis prod.collapse)
  then show "keeps_map c (snd (process_blockchain_tx_extra env tx c))" by (simp add: keeps_map_def)
  show "keeps_map c (snd (unprocess_blockchain_tx_extra env tx c))"
    using unprocess_extra_fields [of env tx c] by (auto simp: keeps_map_def)
qed

lemma keeps_map_undo: "keeps_map c (snd (undo_transaction env tx s c))"
  unfolding undo_transaction_def purge_transaction_keyimages_from_blockchain_def
  by (intro keeps_map_and_next keeps_map_purge_keyimages keeps_map_extra) simp

lemma add_transaction_None:
  assumes "add_transaction_from_block env txe i h n c = (Inr None, c')"
  shows "keeps_map c c'"
proof -
  obtain r c1 where c1: "process_blockchain_tx_extra env (ce_tx txe) c = (Inr r, c1)"
    using assms by (auto simp: add_transaction_from_block_def Let_def and_next_Inr)
  have k1: "keeps_map c c1" using keeps_map_extra(1) [of c env "ce_tx txe"] by (simp add: c1)
  show ?thesis
  proof (cases r)
    case True
    obtain r2 c2 where c2: "spend_inputs_loop (vin (ce_tx txe)) c1 = (Inr r2, c2)"
      using assms c1 True by (auto simp: add_transaction_from_block_def Let_def and_next_Inr)
    have k2: "keeps_map c c2" using keeps_map_spend_inputs [of c1 "vin (ce_tx txe)"] k1 by (auto simp: c2 intro: keeps_map_trans)
    show ?thesis
    proof (cases "r2 \<and> m_transaction_map c2 i = None")
      case True
      let ?c3 = "c2\<lparr>m_transaction_map := (m_transaction_map c2)(i \<mapsto> (ucast h, word_of_nat n))\<rparr>"
      obtain gi where "push_outs_loop i (vout (ce_tx txe)) 0 (m_global_output_indexes txe) ?c3
          = ((True, gi), ?c3\<lparr>m_outputs := rebuild_outs (ucast h, word_of_nat n) (vout (ce_tx txe)) 0 (m_outputs ?c3)\<rparr>)"
        using push_outs_ok [of ?c3 i "(ucast h, word_of_nat n)"] by fastforce
      then show ?thesis
        using assms c1 c2 \<open>r\<close> True by (simp add: add_transaction_from_block_def Let_def push_transaction_to_global_outs_index_def)
    next
      case False
      then have "\<exists>s. undo_transaction env (ce_tx txe) s c2 = (Inr None, c')"
        using assms c1 c2 \<open>r\<close> by (auto simp: add_transaction_from_block_def Let_def split: if_splits)
      then show ?thesis using keeps_map_undo [of c2 env "ce_tx txe"] k2 by (metis keeps_map_trans snd_conv)
    qed
  qed (use assms c1 k1 in \<open>simp add: add_transaction_from_block_def\<close>)
qed

section \<open>A block that is not complete\<close>

text \<open>The miner transaction and the first \<open>n\<close> transactions are in the map, at the height that the block would have.\<close>

definition pending :: "block \<Rightarrow> nat \<Rightarrow> blockchain_storage \<Rightarrow> bool" where
  "pending b n c \<longleftrightarrow> length (m_blocks c) < 2 ^ 32
     \<and> (\<forall>h \<in> insert (get_transaction_hash (miner_tx b)) (set (take n (tx_hashes b))). \<exists>t. m_transaction_map c h = Some (ucast (blocks_size c), t))"

lemma pending_keeps: "pending b n c \<Longrightarrow> keeps_map c c' \<Longrightarrow> pending b n c'"
  by (simp add: pending_def keeps_map_def blocks_size_def)

text \<open>Such a transaction cannot be removed: its block is not stored yet.\<close>

lemma purge_pending:
  assumes "length (m_blocks c) < 2 ^ 32" and "m_transaction_map c h = Some (ucast (blocks_size c), t)"
  shows "purge_transaction_from_blockchain env h c = (Inl Exception, c)"
proof -
  have "unat (ucast (blocks_size c) :: u32) = length (m_blocks c)"
    using assms(1) by (simp add: blocks_size_def unat_ucast_mod unat_of_nat_small)
  then have "transactionByIndex c (ucast (blocks_size c), t) = Inl Exception" by (simp add: transactionByIndex_def)
  then show ?thesis using assms(2) by (simp add: purge_transaction_from_blockchain_def)
qed

lemma purge_block_pending:
  assumes p: "pending b n c" and n: "n \<le> length (tx_hashes b)"
  shows "purge_block_data_from_blockchain env b n c = (Inl Exception, c)"
proof (cases "rev (take n (tx_hashes b))")
  case Nil
  have "purge_transaction_from_blockchain env (get_transaction_hash (miner_tx b)) c = (Inl Exception, c)"
    using p purge_pending by (auto simp: pending_def)
  then show ?thesis using n by (simp only: purge_block_data_from_blockchain_def Nil) simp
next
  case (Cons h hs)
  then have "h \<in> set (take n (tx_hashes b))" by (metis list.set_intros(1) set_rev)
  then have "purge_transaction_from_blockchain env h c = (Inl Exception, c)" using p purge_pending by (auto simp: pending_def)
  then show ?thesis using n by (simp only: purge_block_data_from_blockchain_def Cons) simp
qed

lemma pending_add:
  assumes p: "pending b n c" and n: "n < length (tx_hashes b)" and adds: "adds_txs (blocks_size c) m [txe] c c1"
    and h: "get_transaction_hash (ce_tx txe) = tx_hashes b ! n"
  shows "pending b (n + 1) c1"
proof -
  have "length (m_blocks c1) = length (m_blocks c)" using adds list_all2_lengthD by (fastforce simp: adds_txs_def)
  moreover have "m_transaction_map c1 (tx_hashes b ! n) = Some (ucast (blocks_size c), word_of_nat m)" using adds h by (simp add: adds_txs_def)
  moreover have "m_transaction_map c1 x = m_transaction_map c x" if "m_transaction_map c x \<noteq> None" for x
    using adds that by (auto simp: adds_txs_def map_le_def dom_def)
  ultimately show ?thesis using p n by (auto simp: pending_def blocks_size_def take_Suc_conv_app_nth)
qed

lemma sum_cases_bool: "(\<exists>e. r = Inl e) \<or> (\<exists>a. r = Inr (False, a)) \<or> (\<exists>a. r = Inr (True, a))"
  by (cases r) auto

lemma sum_cases_option: "(\<exists>e. r = Inl e) \<or> r = Inr None \<or> (\<exists>a. r = Inr (Some a))"
  by (cases r) auto

text \<open>A step of the loop over the transactions throws, or goes on with one more transaction pending.\<close>

lemma block_txs_step:
  assumes p: "pending b n c" and n: "n < length (tx_hashes b)" "tx_hashes b ! n = h" and pool: "pool_ok (m_tx_pool c)"
  shows "(\<exists>e. fst (block_txs_loop env b i (h # hs) n txes f s c) = Inl e) \<or>
    (\<exists>txe c1 f' s'. block_txs_loop env b i (h # hs) n txes f s c = block_txs_loop env b i hs (n + 1) (txes @ [txe]) f' s' c1
       \<and> pending b (n + 1) c1 \<and> pool_ok (m_tx_pool c1))"
proof -
  have purge: "purge_block_data_from_blockchain env b n c' = (Inl Exception, c')" if "keeps_map c c'" for c'
    using purge_block_pending [OF pending_keeps [OF p that]] n by simp
  obtain res q where take: "take_tx h (m_tx_pool c) = (res, q)" by fastforce
  show ?thesis
  proof (cases res)
    case None
    then show ?thesis using take purge [of "c\<lparr>m_tx_pool := q\<rparr>"] by (simp add: keeps_map_def)
  next
    case (Some a)
    obtain tx sz fe where a: "a = (tx, sz, fe)" by (cases a) auto
    note take = take [unfolded Some a]
    note pool = take_tx_Some [OF pool take]
    let ?c = "c\<lparr>m_tx_pool := q\<rparr>" and ?tx = "if m_is_in_checkpoint_zone c then tx\<lparr>signatures := []\<rparr> else tx"
    have ce: "ce_tx (empty_entry ?tx) = ?tx" "get_transaction_hash ?tx = h" using pool(1) by (simp_all add: empty_entry_def)
    have returned: "keeps_map c c' \<Longrightarrow> keeps_map c (put_back env ?tx c')" for c' by (simp add: put_back_def keeps_map_def)
    have keep: "keeps_map c ?c" by (simp add: keeps_map_def)
    obtain res1 c1 where c1: "add_transaction_from_block env (empty_entry ?tx) h (blocks_size ?c) (n + 1) ?c = (res1, c1)" by fastforce
    consider e where "check_tx_inputs env ?c ?tx = Inl e" | mh where "check_tx_inputs env ?c ?tx = Inr (False, mh)"
      | mh where "check_tx_inputs env ?c ?tx = Inr (True, mh)" using sum_cases_bool [of "check_tx_inputs env ?c ?tx"] by blast
    then show ?thesis
    proof cases
      case 3
      consider e where "res1 = Inl e" | "res1 = Inr None" | txe where "res1 = Inr (Some txe)" using sum_cases_option [of res1] by blast
      then show ?thesis
      proof cases
        case 2
        then have "keeps_map c c1" using add_transaction_None c1 by (fastforce simp: keeps_map_def)
        then show ?thesis using 2 3 take c1 purge [OF returned] by (simp add: Let_def)
      next
        case (3 txe)
        have add: "add_transaction_from_block env (empty_entry ?tx) (get_transaction_hash (ce_tx (empty_entry ?tx))) (blocks_size ?c) (n + 1) ?c
          = (Inr (Some txe), c1)" using c1 unfolding 3 ce .
        have "pending b (n + 1) c1"
          using pending_add [OF pending_keeps [OF p keep] n(1) add_transaction_adds [OF add]] add_transaction_ok(5) [OF add] ce n(2) by simp
        moreover have "pool_ok (m_tx_pool c1)" using add_transaction_ok(3) [OF add] pool(2) by simp
        ultimately show ?thesis
          using 3 \<open>check_tx_inputs env ?c ?tx = Inr (True, mh)\<close> take c1
          by (intro disjI2 exI [of _ txe] exI [of _ c1] exI [of _ "f + fe"] exI [of _ "s + sz"]) (simp add: Let_def)
      qed (use 3 take c1 in \<open>simp add: Let_def\<close>)
    qed (use take purge [OF returned [OF keep]] in \<open>simp_all add: Let_def\<close>)
  qed
qed

lemma block_txs_returns:
  assumes "pending b n c" and "drop n (tx_hashes b) = hs" and "pool_ok (m_tx_pool c)"
  shows "fst (block_txs_loop env b i hs n txes f s c) \<noteq> Inr None
    \<and> (\<forall>res c'. block_txs_loop env b i hs n txes f s c = (Inr (Some res), c') \<longrightarrow> pending b (length (tx_hashes b)) c')"
  using assms
proof (induction hs arbitrary: n txes f s c)
  case Nil
  then show ?case by (simp add: pending_def)
next
  case (Cons h hs)
  have n: "n < length (tx_hashes b)" "tx_hashes b ! n = h" and hs: "drop (n + 1) (tx_hashes b) = hs"
    using Cons.prems(2) by (auto simp: drop_Suc nth_via_drop tl_drop [symmetric]) (metis drop_all list.distinct(1) not_le)
  from block_txs_step [OF Cons.prems(1) n Cons.prems(3), of env i hs txes f s] show ?case
  proof (elim disjE exE conjE)
    fix txe c1 f' s'
    assume "block_txs_loop env b i (h # hs) n txes f s c = block_txs_loop env b i hs (n + 1) (txes @ [txe]) f' s' c1"
      and "pending b (n + 1) c1" and "pool_ok (m_tx_pool c1)"
    then show ?case using Cons.IH [OF _ hs] by metis
  qed (auto simp del: block_txs_loop.simps)
qed

section \<open>A refused block\<close>

text \<open>What a refusal that returns may change.\<close>

definition same_but_aliases :: "blockchain_storage \<Rightarrow> blockchain_storage \<Rightarrow> bool" where
  "same_but_aliases c c' \<longleftrightarrow> (\<exists>z al ad. c' = c\<lparr>m_is_in_checkpoint_zone := z, m_aliases := al, m_addr_to_alias := ad\<rparr>)"

lemma same_but_aliases_refl: "same_but_aliases c c"
  unfolding same_but_aliases_def
  by (intro exI [of _ "m_is_in_checkpoint_zone c"] exI [of _ "m_aliases c"] exI [of _ "m_addr_to_alias c"]) simp

lemma same_but_aliases_extra:
  "same_but_aliases c (snd (process_blockchain_tx_extra env tx c))" "same_but_aliases c (snd (unprocess_blockchain_tx_extra env tx c))"
proof -
  have "same_but_aliases c (c\<lparr>m_aliases := al, m_addr_to_alias := ad\<rparr>)" for al ad
    unfolding same_but_aliases_def by (intro exI [of _ "m_is_in_checkpoint_zone c"] exI [of _ al] exI [of _ ad]) simp
  then show "same_but_aliases c (snd (process_blockchain_tx_extra env tx c))" "same_but_aliases c (snd (unprocess_blockchain_tx_extra env tx c))"
    using process_extra_fields [of env tx c] unprocess_extra_fields [of env tx c] by (metis prod.collapse)+
qed

lemma same_but_aliases_trans: "same_but_aliases a b \<Longrightarrow> same_but_aliases b c \<Longrightarrow> same_but_aliases a c"
  by (cases a) (auto simp: same_but_aliases_def)

text \<open>A coinbase transaction has no key images, so that its refusal undoes everything but the aliases.\<close>

lemma refused_coinbase:
  assumes vin: "vin (ce_tx txe) = [TxinGen h]" and add: "add_transaction_from_block env txe i hh n c = (Inr None, c')"
  shows "same_but_aliases c c'"
proof -
  obtain r c1 where c1: "process_blockchain_tx_extra env (ce_tx txe) c = (Inr r, c1)"
    using add by (auto simp: add_transaction_from_block_def Let_def and_next_Inr)
  have k1: "same_but_aliases c c1" using same_but_aliases_extra(1) [of c env "ce_tx txe"] by (simp add: c1)
  have undo: "same_but_aliases c1 c'" if u: "undo_transaction env (ce_tx txe) True c1 = (Inr None, c')"
    using u same_but_aliases_extra(2) [of c1 env "ce_tx txe"]
    by (auto simp: undo_transaction_def purge_transaction_keyimages_from_blockchain_def vin and_next_Inr)
  show ?thesis
  proof (cases "r \<and> m_transaction_map c1 i = None")
    case True
    let ?c3 = "c1\<lparr>m_transaction_map := (m_transaction_map c1)(i \<mapsto> (ucast hh, word_of_nat n))\<rparr>"
    obtain gi where "push_outs_loop i (vout (ce_tx txe)) 0 (m_global_output_indexes txe) ?c3
        = ((True, gi), ?c3\<lparr>m_outputs := rebuild_outs (ucast hh, word_of_nat n) (vout (ce_tx txe)) 0 (m_outputs ?c3)\<rparr>)"
      using push_outs_ok [of ?c3 i "(ucast hh, word_of_nat n)"] by fastforce
    then show ?thesis
      using add c1 True by (simp add: add_transaction_from_block_def Let_def push_transaction_to_global_outs_index_def vin)
  next
    case False
    then show ?thesis
      using add c1 k1 undo by (cases r) (auto simp: add_transaction_from_block_def Let_def vin intro: same_but_aliases_trans)
  qed
qed

lemma finish_block_pending:
  assumes "pending b (length (tx_hashes b)) c"
  shows "fst (finish_block env b i dif txes f s bvc c) \<noteq> Inr (False, bvc')"
proof -
  have purge: "purge_block_data_from_blockchain env b (length (tx_hashes b)) c' = (Inl Exception, c')" if "keeps_map c c'" for c'
    using purge_block_pending [OF pending_keeps [OF assms that]] by simp
  have scr: "keeps_map c (c\<lparr>m_blocks_index := bi, m_scratchpad := scr\<rparr>)" for bi scr by (simp add: keeps_map_def)
  show ?thesis
    using purge [OF keeps_map_refl] purge [OF scr]
    by (auto simp: finish_block_def Let_def and_next_def split: sum.splits option.splits prod.splits bool.splits)
qed

lemma prevalidate_coinbase: "prevalidate_miner_transaction b h \<Longrightarrow> vin (miner_tx b) = [TxinGen h]"
  by (cases "vin (miner_tx b)") (auto simp: prevalidate_miner_transaction_def split: txin_v.splits if_splits)

lemma refused_block:
  assumes hb: "handle_block_to_main_chain env b i bvc c = (Inr (False, bvc'), c')"
    and len: "length (m_blocks c) < 2 ^ 32" and pool: "pool_ok (m_tx_pool c)"
  shows "same_but_aliases c c'"
proof -
  let ?c = "c\<lparr>m_is_in_checkpoint_zone := is_in_checkpoint_zone (m_checkpoints c) (blocks_size c)\<rparr>"
  have size: "blocks_size ?c = blocks_size c" by (simp add: blocks_size_def)
  have zone: "same_but_aliases c ?c"
    unfolding same_but_aliases_def by (intro exI [of _ "is_in_checkpoint_zone (m_checkpoints c) (blocks_size c)"] exI [of _ "m_aliases c"] exI [of _ "m_addr_to_alias c"]) simp
  obtain res c1 where add: "add_transaction_from_block env (empty_entry (miner_tx b)) (get_transaction_hash (miner_tx b)) (blocks_size c) 0 ?c = (res, c1)"
    by fastforce
  consider "c' = c \<or> c' = ?c" | "prevalidate_miner_transaction b (blocks_size c)" "res = Inr None" "c' = c1" | txe where
    "res = Inr (Some txe)" "and_next (block_txs_loop env b i (tx_hashes b) 0 [txe] 0 (get_object_blobsize (miner_tx b)) c1)
          (\<lambda>res c'. case res of None \<Rightarrow> (Inr (False, bvc\<lparr>m_bvc_verifivation_failed := True\<rparr>), c')
           | Some (txes, f, s) \<Rightarrow> finish_block env b i (get_difficulty_for_next_block c) txes f s bvc c') = (Inr (False, bvc'), c')"
    using hb add sum_cases_option [of res] by (auto simp: handle_block_to_main_chain_def Let_def size split: if_splits)
  then show ?thesis
  proof cases
    case 1
    then show ?thesis using zone same_but_aliases_refl by blast
  next
    case 2
    have "vin (ce_tx (empty_entry (miner_tx b))) = [TxinGen (blocks_size c)]" using prevalidate_coinbase [OF 2(1)] by (simp add: empty_entry_def)
    from refused_coinbase [OF this add [unfolded 2(2)]] show ?thesis using zone 2(3) same_but_aliases_trans by blast
  next
    case (3 txe)
    have ce: "ce_tx (empty_entry (miner_tx b)) = miner_tx b" by (simp add: empty_entry_def)
    have add: "add_transaction_from_block env (empty_entry (miner_tx b)) (get_transaction_hash (ce_tx (empty_entry (miner_tx b))))
      (blocks_size c) 0 ?c = (Inr (Some txe), c1)" using add unfolding ce 3(1) .
    note ok = add_transaction_ok [OF add] and adds = add_transaction_adds [OF add]
    have "pending b 0 c1"
      using adds ok(5) len same_blocks_size [OF ok(4)] list_all2_lengthD [OF ok(4)] by (simp add: pending_def adds_txs_def ce size)
    moreover have "pool_ok (m_tx_pool c1)" using ok(3) pool by simp
    ultimately have ret: "fst (block_txs_loop env b i (tx_hashes b) 0 [txe] 0 s c1) \<noteq> Inr None
        \<and> (\<forall>res c'. block_txs_loop env b i (tx_hashes b) 0 [txe] 0 s c1 = (Inr (Some res), c') \<longrightarrow> pending b (length (tx_hashes b)) c')" for s
      using block_txs_returns [of b 0 c1] by simp
    obtain res2 c2 where "block_txs_loop env b i (tx_hashes b) 0 [txe] 0 (get_object_blobsize (miner_tx b)) c1 = (Inr res2, c2)"
      and fin: "(case res2 of None \<Rightarrow> (Inr (False, bvc\<lparr>m_bvc_verifivation_failed := True\<rparr>), c2)
        | Some (txes, f, s) \<Rightarrow> finish_block env b i (get_difficulty_for_next_block c) txes f s bvc c2) = (Inr (False, bvc'), c')"
      using 3(2) by (auto simp: and_next_Inr)
    then have "res2 \<noteq> None" "pending b (length (tx_hashes b)) c2" using ret [of "get_object_blobsize (miner_tx b)"] by (cases res2; fastforce)+
    then show ?thesis using fin finish_block_pending by (cases res2) (auto, metis fst_conv)
  qed
qed

lemma refused_block_ok:
  assumes "chain_ok c" and "same_but_aliases c c'"
  shows "chain_ok c'"
  using assms by (auto simp: same_but_aliases_def chain_ok_def)

end
