(* ===== verification/Chain.thy ===== *)
theory Chain
  imports ChainRefuse
begin

text \<open>
  The chain as a transition system: its reachable states, the invariant, the first block and the properties of
  \<open>blockchain_storage\<close>.
\<close>

section \<open>Reachable chains\<close>

text \<open>
  A step handles a block, with the clock, the accounts and the checks of \<open>env\<close>, or changes the pool. A call that throws
  is not a step.
\<close>

definition chain_init :: "blockchain_storage \<Rightarrow> bool" where
  "chain_init c \<longleftrightarrow> pool_init (m_tx_pool c) \<and> m_blocks c = [] \<and> m_container (m_blocks_index c) = [] \<and> m_transaction_map c = Map.empty
     \<and> m_spent_keys c = {} \<and> m_outputs c = Map.empty \<and> m_aliases c = Map.empty \<and> m_addr_to_alias c = Map.empty \<and> m_scratchpad c = []"

inductive chain_step :: "blockchain_storage \<Rightarrow> blockchain_storage \<Rightarrow> bool" where
  Block: "handle_block_to_main_chain_computed env b bvc c = (Inr (r, bvc'), c') \<Longrightarrow> length (m_blocks c) < 2 ^ 32 \<Longrightarrow> chain_step c c'"
| Pool: "pool_step (m_tx_pool c) p \<Longrightarrow> chain_step c (c\<lparr>m_tx_pool := p\<rparr>)"

lemma handle_block_ok:
  assumes "chain_ok c" and "length (m_blocks c) < 2 ^ 32" and "handle_block_to_main_chain_computed env b bvc c = (Inr (r, bvc'), c')"
  shows "chain_ok c'"
proof (cases r)
  case True
  then show ?thesis using accepted_block_ok(1) [OF assms(1)] assms(3) by (simp add: handle_block_to_main_chain_computed_def)
next
  case False
  then show ?thesis
    using refused_block_ok [OF assms(1) refused_block] assms(2,3) chain_okD(1) [OF assms(1)]
    by (auto simp: handle_block_to_main_chain_computed_def)
qed

interpretation chain: invariant_system chain_init chain_step chain_ok
proof
  show "chain_init c \<Longrightarrow> chain_ok c" for c
    using pool.init_inv by (auto simp: chain_init_def chain_ok_def linked_def located_def)
  show "chain_ok c'" if ok: "chain_ok c" and step: "chain_step c c'" for c c'
    using step
  proof (cases rule: chain_step.cases)
    case (Pool p)
    then show ?thesis using ok pool.step_inv by (auto simp: chain_ok_def)
  qed (use ok handle_block_ok in blast)
qed

section \<open>Chains whose caches agree with the stored blocks\<close>

text \<open>
  The clock and the accounts may differ from block to block, but not the two parts of the environment that
  \<open>rebuildcache\<close> uses. A refused block may leave an empty list of aliases behind, see \<open>put_alias_info\<close>, so that a
  refusal is a step here only when the aliases stay as they were.
\<close>

definition same_rules :: "chain_env \<Rightarrow> chain_env \<Rightarrow> bool" where
  "same_rules env env' \<longleftrightarrow> donation_account env' = donation_account env \<and> check_signature env' = check_signature env"

inductive kept_step :: "chain_env \<Rightarrow> blockchain_storage \<Rightarrow> blockchain_storage \<Rightarrow> bool" for env where
  Accepted: "handle_block_to_main_chain_computed env' b bvc c = (Inr (True, bvc'), c') \<Longrightarrow> same_rules env env'
    \<Longrightarrow> counters_fit (last (m_blocks c')) \<Longrightarrow> kept_step env c c'"
| Refused: "handle_block_to_main_chain_computed env' b bvc c = (Inr (False, bvc'), c') \<Longrightarrow> length (m_blocks c) < 2 ^ 32
    \<Longrightarrow> m_aliases c' = m_aliases c \<Longrightarrow> m_addr_to_alias c' = m_addr_to_alias c \<Longrightarrow> kept_step env c c'"
| PoolStep: "pool_step (m_tx_pool c) p \<Longrightarrow> kept_step env c (c\<lparr>m_tx_pool := p\<rparr>)"

lemma rebuild_same_rules:
  assumes "same_rules env env'"
  shows "rebuild_txs env' b txes t c = rebuild_txs env b txes t c" and "rebuild_blocks env' bes b c = rebuild_blocks env bes b c"
proof -
  have "put_alias_info env' = put_alias_info env"
    using assms by (intro ext) (simp add: put_alias_info_def same_rules_def Let_def)
  then have "process_blockchain_tx_extra env' tx c = process_blockchain_tx_extra env tx c" for tx c
    using assms by (simp add: process_blockchain_tx_extra_def same_rules_def split: outcome.splits)
  then show txs: "rebuild_txs env' b txes t c = rebuild_txs env b txes t c" for b txes t c
    by (induction txes arbitrary: t c) (auto simp: Let_def intro!: and_next_cong)
  show "rebuild_blocks env' bes b c = rebuild_blocks env bes b c"
    using assms by (induction bes arbitrary: b c) (auto simp: rebuild_blocks_Cons rebuild_block_def txs same_rules_def intro!: and_next_cong)
qed

lemma indexes_same_rules: "same_rules env env' \<Longrightarrow> indexes_rebuilt env' c \<longleftrightarrow> indexes_rebuilt env c"
  by (simp add: indexes_rebuilt_iff rebuild_same_rules)

lemma indexes_rebuilt_cong:
  assumes "m_blocks c' = m_blocks c" and "same_caches c' c" and "indexes_rebuilt env c"
  shows "indexes_rebuilt env c'"
proof -
  obtain d where d: "rebuild_blocks env (m_blocks c) 0 (clear_all_cache_data c) = (Inr (), d)" "same_caches c d"
    using assms(3) by (auto simp: indexes_rebuilt_iff)
  have "list_all2 same_contents (m_blocks c) (m_blocks c)" by (simp add: list_all2_same same_contents_def)
  from rebuild_blocks_cong [OF clear_all_same this, of env 0 c c'] d
  obtain d' where "rebuild_blocks env (m_blocks c') 0 (clear_all_cache_data c') = (Inr (), d')" "same_caches d d'"
    unfolding assms(1) by (metis fst_conv prod.collapse snd_conv)
  then show ?thesis using assms(2) d(2) same_caches_trans unfolding indexes_rebuilt_iff by blast
qed

lemma init_indexes: "chain_init c \<Longrightarrow> indexes_rebuilt env c"
  by (cases "m_blocks_index c")
    (simp add: indexes_rebuilt_iff chain_init_def clear_all_cache_data_def same_caches_def same_tx_caches_def bi_clear_def)

interpretation kept: invariant_system chain_init "kept_step env" "\<lambda>c. chain_ok c \<and> indexes_rebuilt env c" for env
proof
  show "chain_init c \<Longrightarrow> chain_ok c \<and> indexes_rebuilt env c" for c using chain.init_inv init_indexes by blast
  fix c c' assume inv: "chain_ok c \<and> indexes_rebuilt env c" and "kept_step env c c'"
  from this(2) show "chain_ok c' \<and> indexes_rebuilt env c'"
  proof cases
    case (Accepted env' b bvc bvc')
    have "handle_block_to_main_chain env' b (get_block_hash b) bvc c = (Inr (True, bvc'), c')"
      using Accepted(1) by (simp add: handle_block_to_main_chain_computed_def)
    from accepted_block_ok(1,2) [OF _ this] inv Accepted(3) show ?thesis by (simp add: indexes_same_rules [OF Accepted(2)])
  next
    case (Refused env' b bvc bvc')
    have "same_but_aliases c c'"
      using refused_block [OF _ Refused(2)] Refused(1) inv chain_okD(1) by (auto simp: handle_block_to_main_chain_computed_def)
    then have "m_blocks c' = m_blocks c" "same_caches c' c"
      using Refused(3,4) by (auto simp: same_but_aliases_def same_caches_def same_tx_caches_def)
    then show ?thesis using indexes_rebuilt_cong inv handle_block_ok [OF _ Refused(2,1)] by blast
  next
    case (PoolStep p)
    have "same_caches c' c" "m_blocks c' = m_blocks c" by (simp_all add: PoolStep(1) same_caches_def same_tx_caches_def)
    then show ?thesis using inv indexes_rebuilt_cong chain.step_inv [OF _ Pool [OF PoolStep(2)]] PoolStep(1) by blast
  qed
qed

section \<open>The first block\<close>

definition empty_chain :: blockchain_storage where
  "empty_chain = \<lparr>m_tx_pool = empty_pool, m_blocks = [], m_blocks_index = \<lparr>m_container = []\<rparr>, m_transaction_map = Map.empty,
     m_spent_keys = {}, m_current_block_cumul_sz_limit = 60000, m_alternative_chains = Map.empty, m_invalid_blocks = Map.empty,
     m_outputs = Map.empty, m_aliases = Map.empty, m_addr_to_alias = Map.empty, m_scratchpad = [],
     m_checkpoints = \<lparr>m_points = []\<rparr>, m_is_in_checkpoint_zone = False\<rparr>"

definition open_env :: chain_env where
  "open_env = \<lparr>now = 5, donation_account = None, out_to_donations = (\<lambda>_ _ _. False), out_to_royalty = (\<lambda>_ _ _. False),
     check_ring_signature = (\<lambda>_ _ _ _. True), check_signature = (\<lambda>_ _ _. True), block_longhash = (\<lambda>_ _ _. replicate 32 0)\<rparr>"

definition first_miner_tx :: transaction where
  "first_miner_tx = sample_tx\<lparr>unlock_time := 60, vin := [TxinGen 0],
     vout := [\<lparr>o_amount = 140737488000000, o_target = TxoutToKey \<lparr>tk_key = replicate 32 9, tk_mix_attr = 0\<rparr>\<rparr>], extra := [], signatures := []\<rparr>"

definition first_block :: block where
  "first_block = sample_block\<lparr>timestamp := 5, prev_id := null_hash, miner_tx := first_miner_tx, tx_hashes := []\<rparr>"

text \<open>The checks that precede the transactions.\<close>

definition header_accepted :: "chain_env \<Rightarrow> block \<Rightarrow> hash \<Rightarrow> blockchain_storage \<Rightarrow> bool" where
  "header_accepted env b i c \<longleftrightarrow> prev_id b = get_top_block_id c \<and> check_block_timestamp_main env b c \<and> get_difficulty_for_next_block c \<noteq> 0
     \<and> check_hash (hash_words (block_longhash env b (blocks_size c) (m_scratchpad c))) (get_difficulty_for_next_block c)
     \<and> (is_in_checkpoint_zone (m_checkpoints c) (blocks_size c) \<longrightarrow> check_block (m_checkpoints c) (blocks_size c) i)
     \<and> prevalidate_miner_transaction b (blocks_size c)"

lemma handle_accepted_header:
  assumes "header_accepted env b i c"
  shows "handle_block_to_main_chain env b i bvc c =
    and_next (add_transaction_from_block env (empty_entry (miner_tx b)) (get_transaction_hash (miner_tx b)) (blocks_size c) 0
        (c\<lparr>m_is_in_checkpoint_zone := is_in_checkpoint_zone (m_checkpoints c) (blocks_size c)\<rparr>)) (\<lambda>res c'.
      case res of
        None \<Rightarrow> (Inr (False, bvc\<lparr>m_bvc_verifivation_failed := True\<rparr>), c')
      | Some txe \<Rightarrow> and_next (block_txs_loop env b i (tx_hashes b) 0 [txe] 0 (get_object_blobsize (miner_tx b)) c') (\<lambda>res c'.
          case res of
            None \<Rightarrow> (Inr (False, bvc\<lparr>m_bvc_verifivation_failed := True\<rparr>), c')
          | Some (txes, fee_summary, sz) \<Rightarrow> finish_block env b i (get_difficulty_for_next_block c) txes fee_summary sz bvc c'))"
proof -
  have "blocks_size (c\<lparr>m_is_in_checkpoint_zone := z\<rparr>) = blocks_size c" for z by (simp add: blocks_size_def)
  then show ?thesis using assms by (auto simp: handle_block_to_main_chain_def header_accepted_def Let_def)
qed

lemma first_difficulty: "get_difficulty_for_next_block empty_chain = 1"
  by (simp add: get_difficulty_for_next_block_def empty_chain_def) code_simp

lemma first_header: "header_accepted open_env (first_block\<lparr>tx_hashes := hs\<rparr>) i empty_chain"
proof -
  have "check_hash (hash_words (replicate 32 0)) 1" by code_simp
  then have "check_hash (hash_words (block_longhash open_env b h s)) 1" for b h s by (simp add: open_env_def)
  moreover have "prevalidate_miner_transaction (first_block\<lparr>tx_hashes := hs\<rparr>) 0"
    by (simp add: prevalidate_miner_transaction_def first_block_def first_miner_tx_def CURRENCY_MINED_MONEY_UNLOCK_WINDOW_def check_outs_overflow_def)
  moreover have "blocks_size empty_chain = 0" by (simp add: blocks_size_def empty_chain_def)
  moreover have "check_block_timestamp_main open_env (first_block\<lparr>tx_hashes := hs\<rparr>) empty_chain"
    by (simp add: check_block_timestamp_main_def check_block_timestamp_def open_env_def first_block_def empty_chain_def
        CURRENCY_BLOCK_FUTURE_TIME_LIMIT_def BLOCKCHAIN_TIMESTAMP_CHECK_WINDOW_def)
  moreover have "prev_id (first_block\<lparr>tx_hashes := hs\<rparr>) = get_top_block_id empty_chain"
    by (simp add: get_top_block_id_def first_block_def empty_chain_def)
  moreover have "\<not> is_in_checkpoint_zone (m_checkpoints empty_chain) 0" by (simp add: is_in_checkpoint_zone_def empty_chain_def)
  ultimately show ?thesis unfolding header_accepted_def first_difficulty by simp
qed

lemma first_extra: "process_blockchain_tx_extra open_env first_miner_tx c = (Inr True, c)"
  by (simp add: process_blockchain_tx_extra_def open_env_def parse_and_validate_tx_extra_def extra_loop.simps first_miner_tx_def
      null_extra_def check_make_alias_tx_def null_alias_def)

text \<open>The state after the miner transaction of the first block was added.\<close>

definition first_entry :: transaction_chain_entry where
  "first_entry = \<lparr>ce_tx = first_miner_tx, m_keeper_block_height = 0, m_global_output_indexes = [0], m_spent_flags = [False]\<rparr>"

definition first_tx_chain :: blockchain_storage where
  "first_tx_chain = empty_chain\<lparr>m_transaction_map := [get_transaction_hash first_miner_tx \<mapsto> (0, 0)],
     m_outputs := [140737488000000 \<mapsto> [((0, 0), 0)]]\<rparr>"

lemma first_tx_added:
  "add_transaction_from_block open_env (empty_entry first_miner_tx) (get_transaction_hash first_miner_tx) 0 0 empty_chain
    = (Inr (Some first_entry), first_tx_chain)"
proof -
  have "vin first_miner_tx = [TxinGen 0]"
    "vout first_miner_tx = [\<lparr>o_amount = 140737488000000, o_target = TxoutToKey \<lparr>tk_key = replicate 32 9, tk_mix_attr = 0\<rparr>\<rparr>]"
    by (simp_all add: first_miner_tx_def)
  then show ?thesis
    by (simp add: add_transaction_from_block_def empty_entry_def first_extra first_entry_def first_tx_chain_def
        push_transaction_to_global_outs_index_def Let_def) (simp add: empty_chain_def)
qed

definition first_be :: block_entry where
  "first_be = \<lparr>be_bl = first_block, be_height = 0, block_cumulative_size = get_object_blobsize first_miner_tx, cumulative_difficulty = 1,
     already_generated_coins = 140737488000000, already_donated_coins = 0, scratch_offset = 0, transactions = [first_entry]\<rparr>"

definition first_chain :: "hash list \<Rightarrow> u64 \<Rightarrow> blockchain_storage" where
  "first_chain scr lim = first_tx_chain\<lparr>m_blocks_index := \<lparr>m_container = [get_block_hash first_block]\<rparr>, m_scratchpad := scr,
     m_blocks := [first_be], m_current_block_cumul_sz_limit := lim\<rparr>"

lemma first_size: "get_object_blobsize first_miner_tx = 48" "get_block_reward 0 48 0 0 = Some 140737488000000"
  by code_simp+

lemma first_reward: "validate_miner_transaction open_env first_block (get_object_blobsize first_miner_tx) 0 0 first_tx_chain
    = Inr (Some (140737488000000, 0))"
proof -
  have "get_block_height first_block = 0" by (simp add: get_block_height_def first_block_def first_miner_tx_def)
  moreover have "median (get_last_n_blocks_sizes n first_tx_chain) = 0" for n
    by (simp add: get_last_n_blocks_sizes_def median_def first_tx_chain_def empty_chain_def)
  ultimately show ?thesis
    unfolding first_size(1)
    by (simp add: validate_miner_transaction_def CURRENCY_DONATIONS_START_BLOCKNO_def first_size(2)) (simp add: first_block_def first_miner_tx_def)
qed

lemma first_block_accepted:
  "\<exists>scr lim. handle_block_to_main_chain_computed open_env first_block no_block_verification empty_chain =
    (Inr (True, no_block_verification\<lparr>m_added_to_main_chain := True\<rparr>), first_chain scr lim)"
proof -
  have b: "first_block\<lparr>tx_hashes := []\<rparr> = first_block" "miner_tx first_block = first_miner_tx" "tx_hashes first_block = []"
    by (simp_all add: first_block_def)
  have size: "blocks_size empty_chain = 0" and zone: "empty_chain\<lparr>m_is_in_checkpoint_zone := is_in_checkpoint_zone (m_checkpoints empty_chain) 0\<rparr> = empty_chain"
    by (simp_all add: blocks_size_def empty_chain_def is_in_checkpoint_zone_def)
  obtain scr where scr: "push_block_scratchpad_data (donation_account open_env) first_block [] = Some (True, scr)"
    by (simp add: push_block_scratchpad_eq get_block_scratchpad_addendum_def get_block_height_def first_block_def first_miner_tx_def
        parse_tx_pub_key_def parse_and_validate_tx_extra_def extra_loop.simps null_extra_def check_make_alias_tx_def null_alias_def
        open_env_def get_scratchpad_patch_def Let_def)
  have fields: "m_blocks first_tx_chain = []" "m_blocks_index first_tx_chain = \<lparr>m_container = []\<rparr>" "m_scratchpad first_tx_chain = []"
    "blocks_size first_tx_chain = 0"
    by (simp_all add: first_tx_chain_def empty_chain_def blocks_size_def)
  have "handle_block_to_main_chain_computed open_env first_block no_block_verification empty_chain =
    finish_block open_env first_block (get_block_hash first_block) 1 [first_entry] 0 (get_object_blobsize first_miner_tx) no_block_verification first_tx_chain"
    using handle_accepted_header [OF first_header [of "[]"]] first_tx_added first_difficulty
    by (simp add: handle_block_to_main_chain_computed_def b size zone)
  moreover have "\<exists>lim. finish_block open_env first_block (get_block_hash first_block) 1 [first_entry] 0 (get_object_blobsize first_miner_tx)
      no_block_verification first_tx_chain
      = (Inr (True, no_block_verification\<lparr>m_added_to_main_chain := True\<rparr>), first_chain scr lim)"
  proof -
    have "\<exists>lim. update_next_comulative_size_limit c = c\<lparr>m_current_block_cumul_sz_limit := lim\<rparr>" for c
      by (auto simp: update_next_comulative_size_limit_def Let_def)
    then show ?thesis
      using first_reward scr by (simp add: finish_block_def fields bi_push_def fix_blocks_index_def Let_def first_chain_def first_be_def)
  qed
  ultimately show ?thesis by metis
qed

lemma empty_chain_reachable: "reach chain_init chain_step empty_chain"
  by (rule reach_init) (simp add: chain_init_def empty_chain_def pool_init_def empty_pool_def)

lemma first_chain_reachable:
  "\<exists>scr lim. reach chain_init chain_step (first_chain scr lim)
    \<and> handle_block_to_main_chain_computed open_env first_block no_block_verification empty_chain =
        (Inr (True, no_block_verification\<lparr>m_added_to_main_chain := True\<rparr>), first_chain scr lim)"
proof -
  obtain scr lim where acc: "handle_block_to_main_chain_computed open_env first_block no_block_verification empty_chain =
      (Inr (True, no_block_verification\<lparr>m_added_to_main_chain := True\<rparr>), first_chain scr lim)"
    using first_block_accepted by blast
  have "chain_step empty_chain (first_chain scr lim)" by (rule Block [OF acc]) (simp add: empty_chain_def)
  then show ?thesis using acc reach_step [OF empty_chain_reachable] by blast
qed

lemma first_chain_fields: "m_blocks (first_chain scr lim) = [first_be]" "transactions first_be = [first_entry]"
  "ce_tx first_entry = first_miner_tx" "be_bl first_be = first_block"
  by (simp_all add: first_chain_def first_be_def first_entry_def)

section \<open>A block that lacks a transaction\<close>

text \<open>What an added transaction leaves of the state, whatever id it is stored under.\<close>

lemma add_transaction_map:
  assumes add: "add_transaction_from_block env txe i h n c = (Inr (Some txe'), c')"
  shows "m_transaction_map c' = (m_transaction_map c)(i \<mapsto> (ucast h, word_of_nat n))" and "m_transaction_map c i = None"
    and "same_blocks c c'" and "m_tx_pool c' = m_tx_pool c" and "m_blocks_index c' = m_blocks_index c"
proof -
  let ?idx = "(ucast h, word_of_nat n)"
  obtain al ad where c1: "process_blockchain_tx_extra env (ce_tx txe) c = (Inr True, c\<lparr>m_aliases := al, m_addr_to_alias := ad\<rparr>)"
    using add process_extra_cong [OF refl refl, of env "ce_tx txe" c]
    by (auto simp: add_transaction_from_block_def Let_def and_next_Inr split: if_splits)
  let ?c1 = "c\<lparr>m_aliases := al, m_addr_to_alias := ad\<rparr>"
  obtain r c2 where s: "spend_inputs_loop (vin (ce_tx txe)) ?c1 = (Inr r, c2)"
    using add c1 by (auto simp: add_transaction_from_block_def Let_def and_next_Inr)
  have "undo_transaction env (ce_tx txe) b c2 \<noteq> (Inr (Some txe'), c')" for b by (auto simp: undo_transaction_def and_next_Inr)
  then have r: "r" and new: "m_transaction_map c2 i = None"
    using s add c1 by (cases r; cases "m_transaction_map c2 i"; auto simp: add_transaction_from_block_def Let_def)+
  let ?c3 = "c2\<lparr>m_transaction_map := (m_transaction_map c2)(i \<mapsto> ?idx)\<rparr>"
  obtain gi where "push_outs_loop i (vout (ce_tx txe)) 0 (m_global_output_indexes txe) ?c3
      = ((True, gi), ?c3\<lparr>m_outputs := rebuild_outs ?idx (vout (ce_tx txe)) 0 (m_outputs ?c3)\<rparr>)"
    using push_outs_ok [of ?c3 i ?idx] by fastforce
  then have c': "c' = ?c3\<lparr>m_outputs := rebuild_outs ?idx (vout (ce_tx txe)) 0 (m_outputs ?c3)\<rparr>"
    using add c1 s r new by (auto simp: add_transaction_from_block_def Let_def push_transaction_to_global_outs_index_def)
  note sp = spend_inputs_ok [OF s [unfolded eqTrueI [OF r]]]
  show "m_transaction_map c' = (m_transaction_map c)(i \<mapsto> ?idx)" "m_transaction_map c i = None" "same_blocks c c'"
    "m_tx_pool c' = m_tx_pool c" "m_blocks_index c' = m_blocks_index c"
    using sp new by (simp_all add: c' same_rest_def same_tx_caches_def)
qed

lemma block_txs_Some:
  assumes "block_txs_loop env b i (h # hs) n txes f s c = (Inr (Some res), c')"
  obtains tx sz fe p txe c1 where "take_tx h (m_tx_pool c) = (Some (tx, sz, fe), p)"
    and "add_transaction_from_block env (empty_entry (if m_is_in_checkpoint_zone c then tx\<lparr>signatures := []\<rparr> else tx)) h
      (blocks_size c) (n + 1) (c\<lparr>m_tx_pool := p\<rparr>) = (Inr (Some txe), c1)"
    and "block_txs_loop env b i hs (n + 1) (txes @ [txe]) (f + fe) (s + sz) c1 = (Inr (Some res), c')"
  using assms
  by (auto simp: Let_def and_next_Inr blocks_size_def split: prod.splits option.splits sum.splits if_splits)

text \<open>The transactions that were added before are pending, and nothing else about the stored blocks has changed.\<close>

definition extends_pool_only :: "blockchain_storage \<Rightarrow> blockchain_storage \<Rightarrow> bool" where
  "extends_pool_only c c' \<longleftrightarrow> same_blocks c c' \<and> m_blocks_index c' = m_blocks_index c \<and> (pool_ok (m_tx_pool c) \<longrightarrow> pool_ok (m_tx_pool c'))"

lemma block_txs_prefix:
  assumes "pending b n c" and "take (length pre) (drop n (tx_hashes b)) = pre"
    and "block_txs_loop env b i pre n txes f s c = (Inr (Some res), c')"
  shows "pending b (n + length pre) c' \<and> extends_pool_only c c'"
  using assms
proof (induction pre arbitrary: n txes f s c)
  case Nil
  then show ?case by (simp add: extends_pool_only_def)
next
  case (Cons h pre)
  obtain tx sz fe p txe c1 where t: "take_tx h (m_tx_pool c) = (Some (tx, sz, fe), p)"
    and add: "add_transaction_from_block env (empty_entry (if m_is_in_checkpoint_zone c then tx\<lparr>signatures := []\<rparr> else tx)) h
      (blocks_size c) (n + 1) (c\<lparr>m_tx_pool := p\<rparr>) = (Inr (Some txe), c1)"
    and loop: "block_txs_loop env b i pre (n + 1) (txes @ [txe]) (f + fe) (s + sz) c1 = (Inr (Some res), c')"
    by (rule block_txs_Some [OF Cons.prems(3)])
  note m = add_transaction_map [OF add]
  have drop: "drop n (tx_hashes b) = h # drop (n + 1) (tx_hashes b)" and pre: "take (length pre) (drop (n + 1) (tx_hashes b)) = pre"
    using Cons.prems(2) by (cases "drop n (tx_hashes b)"; simp add: drop_Suc drop_tl [symmetric]; metis drop_Suc drop_tl list.sel(3))+
  have n: "n < length (tx_hashes b)" "tx_hashes b ! n = h" using drop by (metis drop_eq_Nil list.distinct(1) not_le, metis nth_via_drop)
  have len: "length (m_blocks c1) = length (m_blocks c)" using list_all2_lengthD [OF m(3)] by simp
  have "pending b (n + 1) c1"
    using Cons.prems(1) m(1,2) n len by (auto simp: pending_def blocks_size_def take_Suc_conv_app_nth)
  from Cons.IH [OF this pre loop] have rest: "pending b (n + length (h # pre)) c'" "extends_pool_only c1 c'" by simp_all
  have "pool_ok (m_tx_pool c1)" if "pool_ok (m_tx_pool c)" using take_tx_ok [OF that, of h] m(4) by (simp add: t)
  then have "extends_pool_only c c1" using m(3,5) by (simp add: extends_pool_only_def)
  then show ?case using rest same_blocks_trans by (auto simp: extends_pool_only_def)
qed

lemma block_txs_append:
  "block_txs_loop env b i (pre @ hs) n txes f s c = and_next (block_txs_loop env b i pre n txes f s c) (\<lambda>res c.
    case res of None \<Rightarrow> (Inr None, c) | Some (txes, f, s) \<Rightarrow> block_txs_loop env b i hs (n + length pre) txes f s c)"
proof (induction pre arbitrary: n txes f s c)
  case (Cons h pre)
  then show ?case
    by (auto simp: Let_def and_next_assoc intro!: and_next_cong split: prod.splits option.splits sum.splits)
qed simp

text \<open>
  The header and the miner transaction are accepted, the transactions of \<open>pre\<close> are added, and the next one is not in the pool.
\<close>

definition lacks_tx :: "chain_env \<Rightarrow> block \<Rightarrow> hash \<Rightarrow> blockchain_storage \<Rightarrow> blockchain_storage \<Rightarrow> bool" where
  "lacks_tx env b i c c2 \<longleftrightarrow> header_accepted env b i c \<and> (\<exists>txe c1 pre h hs res.
     add_transaction_from_block env (empty_entry (miner_tx b)) (get_transaction_hash (miner_tx b)) (blocks_size c) 0
        (c\<lparr>m_is_in_checkpoint_zone := is_in_checkpoint_zone (m_checkpoints c) (blocks_size c)\<rparr>) = (Inr (Some txe), c1)
     \<and> tx_hashes b = pre @ h # hs \<and> block_txs_loop env b i pre 0 [txe] 0 (get_object_blobsize (miner_tx b)) c1 = (Inr (Some res), c2)
     \<and> m_transactions (m_tx_pool c2) h = None)"

lemma incomplete_block:
  assumes len: "length (m_blocks c) < 2 ^ 32" and "lacks_tx env b i c c2"
  shows "handle_block_to_main_chain env b i bvc c = (Inl Exception, c2)" and "extends_pool_only c c2"
    and "bs_have_tx (get_transaction_hash (miner_tx b)) c2"
proof -
  let ?c = "c\<lparr>m_is_in_checkpoint_zone := is_in_checkpoint_zone (m_checkpoints c) (blocks_size c)\<rparr>"
  obtain txe c1 pre h hs res where header: "header_accepted env b i c"
    and miner: "add_transaction_from_block env (empty_entry (miner_tx b)) (get_transaction_hash (miner_tx b)) (blocks_size c) 0 ?c = (Inr (Some txe), c1)"
    and txs: "tx_hashes b = pre @ h # hs" and loop: "block_txs_loop env b i pre 0 [txe] 0 (get_object_blobsize (miner_tx b)) c1 = (Inr (Some res), c2)"
    and none: "m_transactions (m_tx_pool c2) h = None" using assms(2) unfolding lacks_tx_def by blast
  note m = add_transaction_map [OF miner]
  have "length (m_blocks c1) = length (m_blocks c)" using list_all2_lengthD [OF m(3)] by simp
  then have "pending b 0 c1" using m(1) len by (simp add: pending_def blocks_size_def)
  from block_txs_prefix [OF this _ loop] txs have p: "pending b (length pre) c2" "extends_pool_only c1 c2" by simp_all
  show "extends_pool_only c c2" using p(2) m(3-5) same_blocks_trans by (auto simp: extends_pool_only_def)
  show "bs_have_tx (get_transaction_hash (miner_tx b)) c2" using p(1) by (auto simp: pending_def bs_have_tx_def)
  have "purge_block_data_from_blockchain env b (length pre) c2 = (Inl Exception, c2)" using purge_block_pending [OF p(1)] txs by simp
  moreover have "take_tx h (m_tx_pool c2) = (None, m_tx_pool c2)" using none by (simp add: take_tx_def)
  ultimately have "block_txs_loop env b i (tx_hashes b) 0 [txe] 0 (get_object_blobsize (miner_tx b)) c1 = (Inl Exception, c2)"
    unfolding txs block_txs_append loop by (cases res) simp
  then show "handle_block_to_main_chain env b i bvc c = (Inl Exception, c2)"
    unfolding handle_accepted_header [OF header] miner by simp
qed

lemma first_lacks_tx: "lacks_tx open_env (first_block\<lparr>tx_hashes := [replicate 32 2]\<rparr>) i empty_chain first_tx_chain"
proof -
  let ?b = "first_block\<lparr>tx_hashes := [replicate 32 2]\<rparr>"
  have "miner_tx ?b = first_miner_tx" "blocks_size empty_chain = 0"
    "empty_chain\<lparr>m_is_in_checkpoint_zone := is_in_checkpoint_zone (m_checkpoints empty_chain) 0\<rparr> = empty_chain"
    by (simp_all add: first_block_def blocks_size_def empty_chain_def is_in_checkpoint_zone_def)
  moreover have "m_transactions (m_tx_pool first_tx_chain) (replicate 32 2) = None"
    by (simp add: first_tx_chain_def empty_chain_def empty_pool_def)
  ultimately show ?thesis
    unfolding lacks_tx_def using first_header first_tx_added
    by (intro conjI exI [of _ first_entry] exI [of _ first_tx_chain] exI [of _ "[]"] exI [of _ "replicate 32 2"]) simp_all
qed

text \<open>No later block or pool operation takes a transaction out of the map again.\<close>

definition holds_tx :: "hash \<Rightarrow> blockchain_storage \<Rightarrow> bool" where
  "holds_tx h c \<longleftrightarrow> pool_ok (m_tx_pool c) \<and> length (m_container (m_blocks_index c)) = length (m_blocks c) \<and> bs_have_tx h c"

lemma step_holds_tx:
  assumes "holds_tx h c" and "chain_step c c'"
  shows "holds_tx h c'"
proof -
  have pool: "pool_ok (m_tx_pool c)" and len: "length (m_container (m_blocks_index c)) = length (m_blocks c)" and h: "m_transaction_map c h \<noteq> None"
    using assms(1) by (simp_all add: holds_tx_def bs_have_tx_def)
  show ?thesis using assms(2)
  proof cases
    case (Block env b bvc r bvc')
    note hb = Block(1) [unfolded handle_block_to_main_chain_computed_def]
    show ?thesis
    proof (cases r)
      case True
      obtain bs bei where "m_blocks c' = bs @ [bei]" "list_all2 same_block (m_blocks c) bs" "pool_ok (m_tx_pool c')"
        "m_container (m_blocks_index c') = m_container (m_blocks_index c) @ [get_block_hash b]" "m_transaction_map c \<subseteq>\<^sub>m m_transaction_map c'"
        using accepted_block [OF pool len hb [unfolded eqTrueI [OF True]]] by blast
      then show ?thesis using len h list_all2_lengthD by (fastforce simp: holds_tx_def bs_have_tx_def map_le_def dom_def)
    next
      case False
      then have "same_but_aliases c c'" using refused_block [OF _ Block(2) pool] hb by auto
      then show ?thesis using assms(1) by (auto simp: same_but_aliases_def holds_tx_def bs_have_tx_def)
    qed
  next
    case (Pool p)
    then show ?thesis using assms(1) pool.step_inv by (auto simp: holds_tx_def bs_have_tx_def)
  qed
qed

interpretation holding: invariant_system "holds_tx h" chain_step "holds_tx h" for h
  by unfold_locales (auto intro: step_holds_tx)

lemma known_miner_tx:
  assumes "bs_have_tx (get_transaction_hash (miner_tx b)) c"
  shows "handle_block_to_main_chain env b i bvc c \<noteq> (Inr (True, bvc'), c')"
proof
  assume hb: "handle_block_to_main_chain env b i bvc c = (Inr (True, bvc'), c')"
  obtain z txe c4 where "add_transaction_from_block env (empty_entry (miner_tx b)) (get_transaction_hash (miner_tx b))
      (blocks_size c) 0 (c\<lparr>m_is_in_checkpoint_zone := z\<rparr>) = (Inr (Some txe), c4)"
    using handle_block_parts [OF hb] by blast
  from add_transaction_map(2) [OF this] show False using assms by (simp add: bs_have_tx_def)
qed

section \<open>Emission\<close>

text \<open>Every stored block records the coins generated before it, and its reward for its size, its height and some median.\<close>

definition generated_before :: "block_entry list \<Rightarrow> nat \<Rightarrow> u64" where
  "generated_before bs n = (if n = 0 then 0 else already_generated_coins (bs ! (n - 1)))"

definition grants :: "block_entry \<Rightarrow> u64 \<Rightarrow> bool" where
  "grants be g \<longleftrightarrow> (\<exists>median r. get_block_reward median (block_cumulative_size be) g (get_block_height (be_bl be)) = Some r
     \<and> already_generated_coins be = g + r)"

definition emits :: "block_entry list \<Rightarrow> bool" where
  "emits bs \<longleftrightarrow> (\<forall>n < length bs. grants (bs ! n) (generated_before bs n))"

lemma emits_same:
  assumes "list_all2 same_block bs bs'" and "emits bs"
  shows "emits bs'"
proof -
  have same: "block_cumulative_size (bs' ! n) = block_cumulative_size (bs ! n) \<and> be_bl (bs' ! n) = be_bl (bs ! n)
      \<and> already_generated_coins (bs' ! n) = already_generated_coins (bs ! n)" if "n < length bs" for n
    using list_all2_nthD [OF assms(1) that] by (simp add: same_block_def block_extended_info.truncate_def)
  then have "generated_before bs' n = generated_before bs n" if "n < length bs" for n using that by (simp add: generated_before_def)
  then show ?thesis using assms(2) same list_all2_lengthD [OF assms(1)] by (simp add: emits_def grants_def)
qed

lemma emits_append:
  assumes "emits bs" and "grants be (if bs \<noteq> [] then already_generated_coins (last bs) else 0)"
  shows "emits (bs @ [be])"
proof -
  have "generated_before (bs @ [be]) n = generated_before bs n" if "n < length bs" for n
    using that by (cases n) (simp_all add: generated_before_def nth_append)
  moreover have "generated_before (bs @ [be]) (length bs) = (if bs \<noteq> [] then already_generated_coins (last bs) else 0)"
    by (simp add: generated_before_def nth_append last_conv_nth)
  ultimately show ?thesis using assms by (auto simp: emits_def nth_append less_Suc_eq)
qed

lemma finish_block_grants:
  assumes fin: "finish_block env b i dif txes f s bvc c = (Inr (True, bvc'), c')"
    and len: "length (m_container (m_blocks_index c)) = length (m_blocks c)"
  shows "\<exists>be. m_blocks c' = m_blocks c @ [be] \<and> grants be (if m_blocks c \<noteq> [] then already_generated_coins (last (m_blocks c)) else 0)"
proof -
  let ?g = "if m_blocks c \<noteq> [] then already_generated_coins (last (m_blocks c)) else 0"
  obtain rew don where val: "validate_miner_transaction env b s f ?g c = Inr (Some (rew, don))"
    using fin by (auto simp: finish_block_def Let_def and_next_Inr split: sum.splits option.splits)
  then obtain median where rew: "get_block_reward median s ?g (get_block_height b) = Some rew"
    by (auto simp: validate_miner_transaction_def Let_def split: if_splits sum.splits option.splits)
  have "bi_push i (m_blocks_index c) = (False, bi) \<Longrightarrow> False" for bi using fin val by (auto simp: finish_block_def Let_def and_next_Inr)
  then obtain bi where bi: "bi_push i (m_blocks_index c) = (True, bi)" by (metis (full_types) surj_pair)
  obtain scr where scr: "push_block_scratchpad_data (donation_account env) b (m_scratchpad c) = Some (True, scr)"
    using fin val bi push_scratchpad_True [of "donation_account env" b "m_scratchpad c"]
    by (cases "push_block_scratchpad_data (donation_account env) b (m_scratchpad c)") (auto simp: finish_block_def Let_def)
  have "length (m_container bi) = Suc (length (m_blocks c))" using bi len by (auto simp: bi_push_def split: if_splits)
  then show ?thesis
    using fin val bi scr rew
    by (auto simp: finish_block_def Let_def fix_blocks_index_def update_next_comulative_size_limit_def grants_def)
qed

lemma block_txs_blocks:
  assumes "block_txs_loop env b i hs n txes f s c = (Inr (Some res), c')"
  shows "same_blocks c c' \<and> m_blocks_index c' = m_blocks_index c"
  using assms
proof (induction hs arbitrary: n txes f s c)
  case (Cons h hs)
  obtain tx sz fe p txe c1 where
    add: "add_transaction_from_block env (empty_entry (if m_is_in_checkpoint_zone c then tx\<lparr>signatures := []\<rparr> else tx)) h
      (blocks_size c) (n + 1) (c\<lparr>m_tx_pool := p\<rparr>) = (Inr (Some txe), c1)"
    and loop: "block_txs_loop env b i hs (n + 1) (txes @ [txe]) (f + fe) (s + sz) c1 = (Inr (Some res), c')"
    by (rule block_txs_Some [OF Cons.prems])
  then show ?case using add_transaction_map(3,5) [OF add] Cons.IH [OF loop] same_blocks_trans by auto
qed simp

lemma accepted_block_emits:
  assumes "chain_ok c" and "emits (m_blocks c)" and hb: "handle_block_to_main_chain env b i bvc c = (Inr (True, bvc'), c')"
  shows "emits (m_blocks c')"
proof -
  obtain z txe c1 txes f s c2 where miner: "add_transaction_from_block env (empty_entry (miner_tx b)) (get_transaction_hash (miner_tx b)) (blocks_size c) 0
      (c\<lparr>m_is_in_checkpoint_zone := z\<rparr>) = (Inr (Some txe), c1)"
    and loop: "block_txs_loop env b i (tx_hashes b) 0 [txe] 0 (get_object_blobsize (miner_tx b)) c1 = (Inr (Some (txes, f, s)), c2)"
    and fin: "finish_block env b i (get_difficulty_for_next_block c) txes f s bvc c2 = (Inr (True, bvc'), c')"
    using handle_block_parts [OF hb] by blast
  have same: "same_blocks c c2" and index: "m_blocks_index c2 = m_blocks_index c"
    using add_transaction_map(3,5) [OF miner] block_txs_blocks [OF loop] same_blocks_trans by auto
  have "length (m_container (m_blocks_index c2)) = length (m_blocks c2)"
    using chain_okD(2) [OF assms(1)] list_all2_lengthD [OF same] by (simp add: index)
  from finish_block_grants [OF fin this] show ?thesis using emits_append [OF emits_same [OF same assms(2)]] by auto
qed

interpretation emission: invariant_system chain_init chain_step "\<lambda>c. chain_ok c \<and> emits (m_blocks c)"
proof
  show "chain_init c \<Longrightarrow> chain_ok c \<and> emits (m_blocks c)" for c using chain.init_inv by (auto simp: chain_init_def emits_def)
  fix c c' assume inv: "chain_ok c \<and> emits (m_blocks c)" and step: "chain_step c c'"
  from step have "emits (m_blocks c')"
  proof cases
    case (Block env b bvc r bvc')
    note hb = Block(1) [unfolded handle_block_to_main_chain_computed_def]
    show ?thesis
    proof (cases r)
      case True
      then show ?thesis using accepted_block_emits [of c env b "get_block_hash b" bvc bvc' c'] inv hb by simp
    next
      case False
      then have "same_but_aliases c c'" using refused_block [OF _ Block(2) chain_okD(1)] hb inv by auto
      then show ?thesis using inv by (auto simp: same_but_aliases_def)
    qed
  qed (use inv in simp)
  then show "chain_ok c' \<and> emits (m_blocks c')" using chain.step_inv step inv by blast
qed

text \<open>The coins recorded with a block are the sum of the rewards, as numbers.\<close>

lemma emits_sum:
  assumes "emits bs"
  shows "\<exists>rs. length rs = length bs \<and> (\<forall>n < length bs. (\<exists>median. get_block_reward median (block_cumulative_size (bs ! n))
        (generated_before bs n) (get_block_height (be_bl (bs ! n))) = Some (rs ! n))
      \<and> unat (already_generated_coins (bs ! n)) = sum_list (map unat (take (Suc n) rs)))"
proof -
  define r where "r n = already_generated_coins (bs ! n) - generated_before bs n" for n
  let ?rs = "map r [0..<length bs]"
  have grant: "\<exists>median. get_block_reward median (block_cumulative_size (bs ! n)) (generated_before bs n) (get_block_height (be_bl (bs ! n))) = Some (r n)"
    if n: "n < length bs" for n
  proof -
    obtain median x where "get_block_reward median (block_cumulative_size (bs ! n)) (generated_before bs n) (get_block_height (be_bl (bs ! n))) = Some x"
      and "already_generated_coins (bs ! n) = generated_before bs n + x" using assms n unfolding emits_def grants_def by blast
    then show ?thesis by (auto simp: r_def)
  qed
  then have step: "unat (already_generated_coins (bs ! n)) = unat (generated_before bs n) + unat (r n)" if "n < length bs" for n
  proof -
    obtain median where "get_block_reward median (block_cumulative_size (bs ! n)) (generated_before bs n) (get_block_height (be_bl (bs ! n))) = Some (r n)"
      using grant \<open>n < length bs\<close> by blast
    from reward_bounded [OF this] have "unat (generated_before bs n) + unat (r n) < 2 ^ 64" by simp
    moreover have "already_generated_coins (bs ! n) = generated_before bs n + r n" by (simp add: r_def)
    ultimately show ?thesis by (simp add: unat_add_no_wrap)
  qed
  have "unat (already_generated_coins (bs ! n)) = sum_list (map unat (take (Suc n) ?rs))" if "n < length bs" for n
    using that
  proof (induction n)
    case 0
    then show ?case using step [of 0] by (simp add: generated_before_def take_map) (simp add: take_Suc_conv_app_nth)
  next
    case (Suc n)
    then show ?case using step [of "Suc n"] by (simp add: generated_before_def take_Suc_conv_app_nth [of "Suc n"])
  qed
  then show ?thesis using grant by (intro exI [of _ ?rs]) simp
qed

section \<open>Properties\<close>

text \<open>C1: In every chain that accepted and refused blocks lead to, no key image is spent twice, and
  \<open>have_tx_keyimg_as_spent\<close> tells exactly the images spent in the stored blocks.\<close>

theorem chain_no_double_spend:
  assumes "reach chain_init chain_step c"
  shows "distinct (chain_images c) \<and> (\<forall>k. bs_have_tx_keyimg_as_spent k c \<longleftrightarrow> k \<in> set (chain_images c))"
  using chain_okD(6,7) [OF chain.reach_inv [OF assms]] by (simp add: bs_have_tx_keyimg_as_spent_def)

theorem chain_no_double_spend_witness:
  "\<exists>scr lim. reach chain_init chain_step (first_chain scr lim) \<and> \<not> bs_have_tx_keyimg_as_spent (replicate 32 7) (first_chain scr lim)"
proof -
  obtain scr lim where r: "reach chain_init chain_step (first_chain scr lim)" using first_chain_reachable by blast
  have "chain_images (first_chain scr lim) = []" by (simp add: first_chain_fields first_miner_tx_def)
  then show ?thesis using chain_no_double_spend [OF r] r by (metis empty_iff empty_set)
qed

text \<open>C27: In every reachable chain the rewards of the blocks, each the \<open>get_block_reward\<close> for the
  size of its block and the coins generated before it, add up to less than 2^64 without wrap-around, and
  \<open>already_generated_coins\<close> of every block is the sum of the rewards up to it.\<close>

theorem chain_emission_bounded:
  assumes "reach chain_init chain_step c"
  shows "\<exists>rs. length rs = length (m_blocks c) \<and> sum_list (map unat rs) < 2 ^ 64
    \<and> (\<forall>n < length (m_blocks c). (\<exists>median. get_block_reward median (block_cumulative_size (m_blocks c ! n))
        (generated_before (m_blocks c) n) (get_block_height (be_bl (m_blocks c ! n))) = Some (rs ! n))
      \<and> unat (already_generated_coins (m_blocks c ! n)) = sum_list (map unat (take (Suc n) rs)))"
proof -
  obtain rs where rs: "length rs = length (m_blocks c)" "\<forall>n < length (m_blocks c). (\<exists>median. get_block_reward median (block_cumulative_size (m_blocks c ! n))
        (generated_before (m_blocks c) n) (get_block_height (be_bl (m_blocks c ! n))) = Some (rs ! n))
      \<and> unat (already_generated_coins (m_blocks c ! n)) = sum_list (map unat (take (Suc n) rs))"
    using emits_sum emission.reach_inv [OF assms] by blast
  have "sum_list (map unat rs) < 2 ^ 64"
  proof (cases "m_blocks c")
    case (Cons be bs)
    then have "unat (already_generated_coins (m_blocks c ! (length (m_blocks c) - 1))) = sum_list (map unat rs)" using rs by simp
    then show ?thesis using unat_u64_bound [of "already_generated_coins (m_blocks c ! (length (m_blocks c) - 1))"] by simp
  qed (use rs in simp)
  then show ?thesis using rs by blast
qed

theorem chain_emission_bounded_witness:
  "\<exists>scr lim. \<exists>rs :: u64 list. reach chain_init chain_step (first_chain scr lim) \<and> length rs = 1 \<and> unat (already_generated_coins first_be) = sum_list (map unat rs)"
proof -
  obtain scr lim where r: "reach chain_init chain_step (first_chain scr lim)" using first_chain_reachable by blast
  from chain_emission_bounded [OF r] obtain rs :: "u64 list" where rs: "length rs = length [first_be]"
    "\<forall>n < length [first_be]. unat (already_generated_coins ([first_be] ! n)) = sum_list (map unat (take (Suc n) rs))"
    unfolding first_chain_fields by blast
  then show ?thesis using r by (intro exI [of _ scr] exI [of _ lim] exI [of _ rs]) simp
qed

text \<open>C3: In a reachable chain every block names its predecessor, is stored with exactly the transactions it
  lists, and is found by the block index at its height.\<close>

theorem chain_linked:
  assumes "reach chain_init chain_step c" and "n < length (m_blocks c)"
  shows "prev_id (be_bl (m_blocks c ! n)) = (if n = 0 then null_hash else get_block_hash (be_bl (m_blocks c ! (n - 1))))
    \<and> map (\<lambda>txe. get_transaction_hash (ce_tx txe)) (transactions (m_blocks c ! n)) = block_tx_ids (be_bl (m_blocks c ! n))
    \<and> getBlockHeight (m_blocks_index c) (get_block_hash (be_bl (m_blocks c ! n))) = Some (word_of_nat n)"
proof -
  note ok = chain_okD [OF chain.reach_inv [OF assms(1)]]
  have "position (get_block_hash (be_bl (m_blocks c ! n))) (m_container (m_blocks_index c)) = Some n"
    using ok(2,3) assms(2) by (auto simp: position_Some_iff nth_eq_iff_index_eq)
  then show ?thesis using ok(4) assms(2) by (simp add: linked_def getBlockHeight_def)
qed

theorem chain_linked_witness:
  "\<exists>scr lim. getBlockHeight (m_blocks_index (first_chain scr lim)) (get_block_hash first_block) = Some 0 \<and> prev_id first_block = null_hash"
proof -
  obtain scr lim where r: "reach chain_init chain_step (first_chain scr lim)" using first_chain_reachable by blast
  show ?thesis using chain_linked [OF r, of 0] by (auto simp: first_chain_fields)
qed

text \<open>C2: In a chain grown by accepted blocks, pool changes and refused blocks that left the aliases alone, a
  further accepted block is appended and leaves the transaction map, the key images, the outputs, the
  aliases, the block index and the scratchpad equal to those that rebuildcache computes from the stored
  blocks, as long as the 16-bit counters of rebuildcache suffice for every block.\<close>

theorem accepted_block_equals_rebuild:
  assumes "reach chain_init (kept_step env) c" and "same_rules env env'"
    and "handle_block_to_main_chain_computed env' b bvc c = (Inr (True, bvc'), c')" and "counters_fit (last (m_blocks c'))"
  shows "indexes_rebuilt env c \<and> indexes_rebuilt env c' \<and> map be_bl (m_blocks c') = map be_bl (m_blocks c) @ [b]"
proof -
  have "reach chain_init (kept_step env) c'" by (rule reach_step [OF assms(1) Accepted [OF assms(3,2,4)]])
  then show ?thesis
    using kept.reach_inv [OF assms(1)] kept.reach_inv accepted_block_ok(3) [of c env' b] assms(3)
    by (simp add: handle_block_to_main_chain_computed_def)
qed

theorem accepted_block_equals_rebuild_witness:
  "\<exists>scr lim. indexes_rebuilt open_env (first_chain scr lim) \<and> map be_bl (m_blocks (first_chain scr lim)) = [first_block]"
proof -
  obtain scr lim where acc: "handle_block_to_main_chain_computed open_env first_block no_block_verification empty_chain =
      (Inr (True, no_block_verification\<lparr>m_added_to_main_chain := True\<rparr>), first_chain scr lim)"
    using first_chain_reachable by blast
  have "reach chain_init (kept_step open_env) empty_chain"
    by (rule reach_init) (simp add: chain_init_def empty_chain_def pool_init_def empty_pool_def)
  moreover have "counters_fit (last (m_blocks (first_chain scr lim)))" by (simp add: counters_fit_def first_chain_fields first_miner_tx_def)
  ultimately have "indexes_rebuilt open_env (first_chain scr lim)"
    "map be_bl (m_blocks (first_chain scr lim)) = map be_bl (m_blocks empty_chain) @ [first_block]"
    using accepted_block_equals_rebuild [OF _ _ acc, of open_env] by (simp_all add: same_rules_def)
  then show ?thesis by (intro exI [of _ scr] exI [of _ lim]) (simp add: empty_chain_def)
qed

text \<open>C4: In a reachable chain \<open>get_tx\<close> finds every stored transaction by its hash, as long as
  height and position fit the index.\<close>

theorem get_tx_finds_stored:
  assumes "reach chain_init chain_step c" and "n < length (m_blocks c)" and "n < 2 ^ 32"
    and "t < length (transactions (m_blocks c ! n))" and "t < 2 ^ 16"
  shows "get_tx (get_transaction_hash (ce_tx (transactions (m_blocks c ! n) ! t))) c = Inr (Some (ce_tx (transactions (m_blocks c ! n) ! t)))"
proof -
  have "m_transaction_map c (get_transaction_hash (ce_tx (transactions (m_blocks c ! n) ! t))) = Some (ucast (word_of_nat n :: u64), word_of_nat t)"
    using chain_okD(5) [OF chain.reach_inv [OF assms(1)]] assms(2,4) by (simp add: located_def)
  moreover have "unat (ucast (word_of_nat n :: u64) :: u32) = n" "unat (word_of_nat t :: 16 word) = t"
    using assms(3,5) by (simp_all add: unat_ucast_mod unat_of_nat_small)
  ultimately show ?thesis using assms(2,4) by (simp add: get_tx_def transactionByIndex_def)
qed

theorem get_tx_finds_stored_witness:
  "\<exists>scr lim. get_tx (get_transaction_hash first_miner_tx) (first_chain scr lim) = Inr (Some first_miner_tx)"
proof -
  obtain scr lim where r: "reach chain_init chain_step (first_chain scr lim)" using first_chain_reachable by blast
  show ?thesis using get_tx_finds_stored [OF r, of 0 0] by (auto simp: first_chain_fields)
qed

text \<open>C5: In a reachable chain of fewer than 2^32 blocks, a block that
  \<open>handle_block_to_main_chain\<close> refuses, without an exception, leaves blocks, transaction map,
  key images, outputs, scratchpad and pool as they were.\<close>

theorem refused_block_changes_nothing:
  assumes "reach chain_init chain_step c" and "length (m_blocks c) < 2 ^ 32"
    and "handle_block_to_main_chain_computed env b bvc c = (Inr (False, bvc'), c')"
  shows "m_blocks c' = m_blocks c \<and> m_blocks_index c' = m_blocks_index c \<and> m_transaction_map c' = m_transaction_map c
    \<and> m_spent_keys c' = m_spent_keys c \<and> m_outputs c' = m_outputs c \<and> m_scratchpad c' = m_scratchpad c \<and> m_tx_pool c' = m_tx_pool c"
  using refused_block [OF assms(3) [unfolded handle_block_to_main_chain_computed_def] assms(2) chain_okD(1) [OF chain.reach_inv [OF assms(1)]]]
  by (auto simp: same_but_aliases_def)

theorem refused_block_changes_nothing_witness:
  "\<exists>c'. handle_block_to_main_chain_computed open_env sample_block no_block_verification empty_chain = (Inr (False, no_block_verification), c')
    \<and> m_blocks c' = [] \<and> m_transaction_map c' = Map.empty"
proof -
  have ref: "handle_block_to_main_chain_computed open_env sample_block no_block_verification empty_chain
      = (Inr (False, no_block_verification), empty_chain)"
    by (simp add: handle_block_to_main_chain_computed_def handle_block_to_main_chain_def get_top_block_id_def empty_chain_def
        sample_block_def null_hash_def)
  show ?thesis
    using ref refused_block_changes_nothing [OF empty_chain_reachable _ ref] by (simp add: empty_chain_def)
qed

text \<open>C6: A block whose header and miner transaction are accepted and one of whose transactions, after any
  number of added ones, is not in the pool throws while it is undone; its miner transaction stays in the
  map, and after no further sequence of blocks and pool changes is the block ever accepted.\<close>

theorem incomplete_block_throws:
  assumes "reach chain_init chain_step c" and "length (m_blocks c) < 2 ^ 32" and "lacks_tx env b i c c2"
  shows "handle_block_to_main_chain env b i bvc c = (Inl Exception, c2) \<and> length (m_blocks c2) = length (m_blocks c)
    \<and> bs_have_tx (get_transaction_hash (miner_tx b)) c2
    \<and> (\<forall>c3. chain_step\<^sup>*\<^sup>* c2 c3 \<longrightarrow> (\<forall>env' i' bvc1 bvc2 c4. handle_block_to_main_chain env' b i' bvc1 c3 \<noteq> (Inr (True, bvc2), c4)))"
proof -
  note inc = incomplete_block [OF assms(2,3)] and ok = chain_okD [OF chain.reach_inv [OF assms(1)]]
  have len: "length (m_blocks c2) = length (m_blocks c)" using list_all2_lengthD inc(2) by (fastforce simp: extends_pool_only_def)
  have "holds_tx (get_transaction_hash (miner_tx b)) c2"
    using inc(2,3) ok(1,2) len by (simp add: holds_tx_def extends_pool_only_def)
  then have "holds_tx (get_transaction_hash (miner_tx b)) c3" if "chain_step\<^sup>*\<^sup>* c2 c3" for c3 using holding.steps_inv [OF that] by blast
  then show ?thesis using inc(1,3) len known_miner_tx by (auto simp: holds_tx_def)
qed

theorem incomplete_block_throws_witness:
  "handle_block_to_main_chain open_env (first_block\<lparr>tx_hashes := [replicate 32 2]\<rparr>) (replicate 32 1) no_block_verification empty_chain
      = (Inl Exception, first_tx_chain) \<and> bs_have_tx (get_transaction_hash first_miner_tx) first_tx_chain"
proof -
  have "miner_tx (first_block\<lparr>tx_hashes := [replicate 32 2]\<rparr>) = first_miner_tx" by (simp add: first_block_def)
  moreover have "length (m_blocks empty_chain) < 2 ^ 32" by (simp add: empty_chain_def)
  ultimately show ?thesis
    using incomplete_block_throws [OF empty_chain_reachable _ first_lacks_tx [of "replicate 32 1"], of no_block_verification] by simp
qed

end
