(* ===== verification/ChainAlt.thy ===== *)
theory ChainAlt
  imports Chain
begin

text \<open>
  Alternative chains: the functions of \<open>src/currency_core/blockchain_storage.cpp\<close> that receive a block on another branch,
  switch to a branch with more work and roll back a failed switch, and \<open>core::handle_incoming_block\<close>. The handler of
  alternative blocks and the switch call each other; the handler carries a bound on the depth of these calls. A loop that
  would not end within its bound is reported as \<open>Diverges\<close>. The handler of alternative blocks catches exceptions.
\<close>

definition DIFFICULTY_BLOCKS_COUNT :: nat where
  "DIFFICULTY_BLOCKS_COUNT = DIFFICULTY_WINDOW + 15"

definition CURRENCY_ALT_BLOCK_LIVETIME_COUNT :: u64 where
  "CURRENCY_ALT_BLOCK_LIVETIME_COUNT = 720 * 7"

section \<open>Rolling back\<close>

text \<open>The loops count down with a 64-bit index; \<open>n\<close> bounds their number of rounds.\<close>

fun rollback_loop :: "chain_env \<Rightarrow> nat \<Rightarrow> u64 \<Rightarrow> u64 \<Rightarrow> blockchain_storage \<Rightarrow> bool effect" where
  "rollback_loop env 0 i rollback_height c = (Inl Diverges, c)"
| "rollback_loop env (Suc n) i rollback_height c =
    (if \<not> i \<ge> rollback_height then (Inr True, c)
     else and_next (pop_block_from_blockchain env c) (\<lambda>r c.
       if \<not> r then (Inr False, c) else rollback_loop env n (i - 1) rollback_height c))"

fun reconnect_loop :: "chain_env \<Rightarrow> block list \<Rightarrow> blockchain_storage \<Rightarrow> bool effect" where
  "reconnect_loop env [] c = (Inr True, c)"
| "reconnect_loop env (bl # bls) c =
    and_next (handle_block_to_main_chain_computed env bl no_block_verification c) (\<lambda>(r, bvc) c.
      if \<not> (r \<and> m_added_to_main_chain bvc) then (Inr False, c) else reconnect_loop env bls c)"

definition rollback_blockchain_switching :: "chain_env \<Rightarrow> block list \<Rightarrow> u64 \<Rightarrow> blockchain_storage \<Rightarrow> bool effect" where
  "rollback_blockchain_switching env original_chain rollback_height c =
    and_next (rollback_loop env (length (m_blocks c) + 1) (blocks_size c - 1) rollback_height c) (\<lambda>r c.
      if \<not> r then (Inr False, c) else reconnect_loop env original_chain c)"

definition rollback_blockchain :: "chain_env \<Rightarrow> u64 \<Rightarrow> blockchain_storage \<Rightarrow> bool effect" where
  "rollback_blockchain env rollback_height c = rollback_blockchain_switching env [] rollback_height c"

section \<open>Switching\<close>

type_synonym alt_entry = "hash \<times> block_entry"

text \<open>The disconnected blocks, the first one in front.\<close>

fun disconnect_loop :: "chain_env \<Rightarrow> nat \<Rightarrow> u64 \<Rightarrow> u64 \<Rightarrow> block list \<Rightarrow> blockchain_storage \<Rightarrow> block list option effect" where
  "disconnect_loop env 0 i split_height bls c = (Inl Diverges, c)"
| "disconnect_loop env (Suc n) i split_height bls c =
    (if \<not> i \<ge> split_height then (Inr (Some bls), c)
     else if length (m_blocks c) \<le> unat i then (Inl Exception, c)
     else let b = be_bl (m_blocks c ! unat i)
          in and_next (pop_block_from_blockchain env c) (\<lambda>r c.
            if \<not> r then (Inr None, c) else disconnect_loop env n (i - 1) split_height (b # bls) c))"

definition erase_alt :: "hash \<Rightarrow> blockchain_storage \<Rightarrow> blockchain_storage" where
  "erase_alt h c = c\<lparr>m_alternative_chains := (m_alternative_chains c)(h := None)\<rparr>"

text \<open>
  The loop over the rest of a failed chain names its first block in every round. From the second round on it reads an
  erased element.
\<close>

fun orphan_rest :: "alt_entry list \<Rightarrow> blockchain_storage \<Rightarrow> unit effect" where
  "orphan_rest [] c = (Inr (), c)"
| "orphan_rest [(h, be)] c = (Inr (), erase_alt h (snd (add_block_as_invalid be h c)))"
| "orphan_rest ((h, be) # _) c = (Inl OutOfRange, erase_alt h (snd (add_block_as_invalid be h c)))"

fun connect_loop :: "chain_env \<Rightarrow> u64 \<Rightarrow> block list \<Rightarrow> alt_entry list \<Rightarrow> blockchain_storage \<Rightarrow> bool effect" where
  "connect_loop env split_height disconnected [] c = (Inr True, c)"
| "connect_loop env split_height disconnected ((h, be) # alt_chain) c =
    and_next (handle_block_to_main_chain_computed env (be_bl be) no_block_verification c) (\<lambda>(r, bvc) c.
      if \<not> r \<or> \<not> m_added_to_main_chain bvc
      then and_next (rollback_blockchain_switching env disconnected split_height c) (\<lambda>_ c.
             and_next (orphan_rest alt_chain (erase_alt h (snd (add_block_as_invalid be (get_block_hash (be_bl be)) c)))) (\<lambda>_ c.
               (Inr False, c)))
      else connect_loop env split_height disconnected alt_chain c)"

text \<open>The old blocks are given to the handler of alternative blocks, which is an argument here.\<close>

fun push_old_loop ::
  "(block \<Rightarrow> hash \<Rightarrow> block_verification_context \<Rightarrow> blockchain_storage \<Rightarrow> (bool \<times> block_verification_context) effect)
    \<Rightarrow> block list \<Rightarrow> blockchain_storage \<Rightarrow> bool effect" where
  "push_old_loop handler [] c = (Inr True, c)"
| "push_old_loop handler (b # bls) c =
    and_next (handler b (get_block_hash b) no_block_verification c) (\<lambda>(r, _) c.
      if \<not> r then (Inr False, c) else push_old_loop handler bls c)"

definition switch_to_alternative_blockchain ::
  "chain_env \<Rightarrow> (block \<Rightarrow> hash \<Rightarrow> block_verification_context \<Rightarrow> blockchain_storage \<Rightarrow> (bool \<times> block_verification_context) effect)
    \<Rightarrow> alt_entry list \<Rightarrow> blockchain_storage \<Rightarrow> bool effect" where
  "switch_to_alternative_blockchain env handler alt_chain c =
    (if alt_chain = [] then (Inr False, c)
     else let split_height = be_height (snd (hd alt_chain))
          in if \<not> blocks_size c > split_height then (Inr False, c)
             else and_next (disconnect_loop env (length (m_blocks c) + 1) (blocks_size c - 1) split_height [] c) (\<lambda>res c.
               case res of
                 None \<Rightarrow> (Inr False, c)
               | Some disconnected \<Rightarrow>
                   and_next (connect_loop env split_height disconnected alt_chain c) (\<lambda>r c.
                     if \<not> r then (Inr False, c)
                     else and_next (push_old_loop handler disconnected c) (\<lambda>r c.
                       if \<not> r
                       then and_next (rollback_blockchain_switching env disconnected split_height c) (\<lambda>_ c. (Inr False, c))
                       else (Inr True, foldl (\<lambda>c e. erase_alt (fst e) c) c alt_chain)))))"

section \<open>An alternative block\<close>

text \<open>The branch that ends with the block \<open>h\<close>, from the main chain on; \<open>None\<close> if the loop does not end.\<close>

partial_function (option) collect_alt :: "(hash \<rightharpoonup> block_entry) \<Rightarrow> hash \<Rightarrow> alt_entry list \<Rightarrow> alt_entry list option" where
  "collect_alt m h alt_chain =
    (case m h of
       None \<Rightarrow> Some alt_chain
     | Some be \<Rightarrow> collect_alt m (prev_id (be_bl be)) ((h, be) # alt_chain))"

fun timestamps_loop :: "block_entry list \<Rightarrow> nat \<Rightarrow> nat \<Rightarrow> u64 list \<Rightarrow> u64 list" where
  "timestamps_loop bs stop_offset 0 ts = ts @ [timestamp (be_bl (bs ! 0))]"
| "timestamps_loop bs stop_offset (Suc start) ts =
    (let ts = ts @ [timestamp (be_bl (bs ! Suc start))]
     in if start = stop_offset then ts else timestamps_loop bs stop_offset start ts)"

text \<open>The result of \<open>complete_timestamps_vector\<close> is ignored.\<close>

definition complete_timestamps_vector :: "u64 \<Rightarrow> u64 list \<Rightarrow> blockchain_storage \<Rightarrow> u64 list" where
  "complete_timestamps_vector start_top_height ts c =
    (if length ts \<ge> BLOCKCHAIN_TIMESTAMP_CHECK_WINDOW then ts
     else let need_elements = BLOCKCHAIN_TIMESTAMP_CHECK_WINDOW - length ts; start = unat start_top_height
          in if \<not> start < length (m_blocks c) then ts
             else timestamps_loop (m_blocks c) (if start > need_elements then start - need_elements else 0) start ts)"

definition get_next_difficulty_for_alternative_chain :: "alt_entry list \<Rightarrow> u64 \<Rightarrow> blockchain_storage \<Rightarrow> exn + u128" where
  "get_next_difficulty_for_alternative_chain alt_chain height c =
    (let alt = map snd alt_chain; N = DIFFICULTY_BLOCKS_COUNT;
         diff = (\<lambda>bs. next_difficulty_default (map (\<lambda>be. timestamp (be_bl be)) bs) (map cumulative_difficulty bs))
     in if length alt < N
        then let stop_offset = unat (if alt \<noteq> [] then be_height (hd alt) else height);
                 cnt = min (N - min N (length alt)) stop_offset;
                 start_offset = stop_offset - cnt;
                 start_offset = (if start_offset = 0 then start_offset + 1 else start_offset)
             in if start_offset < stop_offset \<and> length (m_blocks c) < stop_offset then Inl Exception
                else let main = take (stop_offset - start_offset) (drop start_offset (m_blocks c))
                     in if \<not> length alt + length main \<le> N then Inr 0 else Inr (diff (main @ alt))
        else Inr (diff (drop (length alt - N) alt)))"

text \<open>The additions of the alternative blocks to the scratchpad, with their patch.\<close>

fun alt_addenda :: "chain_env \<Rightarrow> alt_entry list \<Rightarrow> hash list \<Rightarrow> patch \<Rightarrow> (hash list \<times> patch) option" where
  "alt_addenda env [] pad patch = Some (pad, patch)"
| "alt_addenda env ((h, be) # alt_chain) pad patch =
    (case push_block_scratchpad_patch (donation_account env) (scratch_offset be) (be_bl be) pad patch of
       None \<Rightarrow> None
     | Some (_, pad, patch) \<Rightarrow> alt_addenda env alt_chain pad patch)"

text \<open>The patches of the main chain above the connection; \<open>Inr None\<close> is the return value \<open>false\<close>.\<close>

fun main_line_patches :: "chain_env \<Rightarrow> block_entry list \<Rightarrow> patch \<Rightarrow> exn + patch option" where
  "main_line_patches env [] patch = Inr (Some patch)"
| "main_line_patches env (be # bes) patch =
    (case get_block_scratchpad_addendum (donation_account env) (be_bl be) [] of
       None \<Rightarrow> Inl OutOfRange
     | Some (res, addendum) \<Rightarrow>
         if \<not> res then Inr None
         else main_line_patches env bes (get_scratchpad_patch (scratch_offset be) addendum patch))"

definition merge_patches :: "u64 \<Rightarrow> patch \<Rightarrow> patch \<Rightarrow> patch" where
  "merge_patches offset main alt =
    foldl (\<lambda>alt (k, h). if k < offset then patch_update k (xor_pod (patch_at alt k) h) alt else alt) alt main"

text \<open>
  The scratchpad that the accessor of the proof-of-work hash presents. An entry that neither scratchpad has is reported
  whether or not the hash asks for it.
\<close>

definition alt_scratchpad :: "u64 \<Rightarrow> u64 \<Rightarrow> hash list \<Rightarrow> patch \<Rightarrow> blockchain_storage \<Rightarrow> hash list option" where
  "alt_scratchpad connection_offset offset pad patch c =
    (if unat offset \<le> unat connection_offset + length pad \<and> min (unat offset) (unat connection_offset) \<le> length (m_scratchpad c)
     then Some (map (\<lambda>i. let res = (if i \<ge> unat connection_offset then pad ! (i - unat connection_offset) else m_scratchpad c ! i)
                         in case map_of patch (word_of_nat i) of None \<Rightarrow> res | Some p \<Rightarrow> xor_pod res p)
                 [0..<unat offset])
     else None)"

text \<open>The last part: checkpoints, miner transaction, insertion and the decision to switch.\<close>

definition alt_block_insert ::
  "chain_env \<Rightarrow> (block \<Rightarrow> hash \<Rightarrow> block_verification_context \<Rightarrow> blockchain_storage \<Rightarrow> (bool \<times> block_verification_context) effect)
    \<Rightarrow> alt_entry list \<Rightarrow> block_entry \<Rightarrow> u64 \<Rightarrow> u128 \<Rightarrow> hash \<Rightarrow> block_verification_context \<Rightarrow> blockchain_storage
    \<Rightarrow> (bool \<times> block_verification_context) effect" where
  "alt_block_insert env handler alt_chain bei nHeight current_diff i bvc c =
    (let failed = bvc\<lparr>m_bvc_verifivation_failed := True\<rparr>;
         c = c\<lparr>m_is_in_checkpoint_zone := is_in_checkpoint_zone (m_checkpoints c) (be_height bei)\<rparr>
     in if m_is_in_checkpoint_zone c \<and> \<not> check_block (m_checkpoints c) (be_height bei) i then (Inr (False, failed), c)
        else if \<not> prevalidate_miner_transaction (be_bl bei) (be_height bei) then (Inr (False, failed), c)
        else if alt_chain = [] \<and> length (m_blocks c) \<le> unat nHeight then (Inl Exception, c)
        else let bei = bei\<lparr>cumulative_difficulty :=
                   (if alt_chain \<noteq> [] then cumulative_difficulty (snd (last alt_chain)) else cumulative_difficulty (m_blocks c ! unat nHeight))
                   + current_diff\<rparr>
             in if m_alternative_chains c i \<noteq> None then (Inr (False, bvc), c)
                else let c = c\<lparr>m_alternative_chains := (m_alternative_chains c)(i \<mapsto> bei)\<rparr>
                     in if m_blocks c = [] then (Inl Exception, c)
                        else if cumulative_difficulty (last (m_blocks c)) < cumulative_difficulty bei
                        then and_next (switch_to_alternative_blockchain env handler (alt_chain @ [(i, bei)]) c) (\<lambda>r c.
                               (Inr (r, if r then bvc\<lparr>m_added_to_main_chain := True\<rparr> else failed), c))
                        else (Inr (True, bvc), c))"

definition alt_block_body ::
  "chain_env \<Rightarrow> (block \<Rightarrow> hash \<Rightarrow> block_verification_context \<Rightarrow> blockchain_storage \<Rightarrow> (bool \<times> block_verification_context) effect)
    \<Rightarrow> block \<Rightarrow> hash \<Rightarrow> block_verification_context \<Rightarrow> blockchain_storage \<Rightarrow> (bool \<times> block_verification_context) effect" where
  "alt_block_body env handler b i bvc c =
    (let failed = bvc\<lparr>m_bvc_verifivation_failed := True\<rparr>;
         nHeight = (case getBlockHeight (m_blocks_index c) (prev_id b) of None \<Rightarrow> - 1 | Some h \<Rightarrow> h)
     in if m_alternative_chains c (prev_id b) = None \<and> nHeight = - 1 then (Inr (True, bvc\<lparr>m_marked_as_orphaned := True\<rparr>), c)
        else case collect_alt (m_alternative_chains c) (prev_id b) [] of
               None \<Rightarrow> (Inl Diverges, c)
             | Some alt_chain \<Rightarrow>
                 let front = be_height (snd (hd alt_chain));
                     alt_times = map (\<lambda>e. timestamp (be_bl (snd e))) (rev alt_chain)
                 in if alt_chain \<noteq> [] \<and> \<not> blocks_size c > front then (Inr (False, bvc), c)
                    else if alt_chain \<noteq> [] \<and> length (m_blocks c) \<le> unat (front - 1) then (Inl Exception, c)
                    else if alt_chain \<noteq> [] \<and> get_block_hash (be_bl (m_blocks c ! unat (front - 1))) \<noteq> prev_id (be_bl (snd (hd alt_chain)))
                    then (Inr (False, bvc), c)
                    else case (if alt_chain \<noteq> [] then alt_addenda env alt_chain [] [] else Some ([], [])) of
                           None \<Rightarrow> (Inl OutOfRange, c)
                         | Some (alt_pad, alt_patch) \<Rightarrow>
                             if alt_chain = [] \<and> nHeight = HEIGHT_NOT_FOUND then (Inr (False, bvc), c)
                             else if \<not> check_block_timestamp
                                 (complete_timestamps_vector (if alt_chain \<noteq> [] then front - 1 else nHeight) alt_times c) b
                             then (Inr (False, failed), c)
                             else let height = (if alt_chain \<noteq> [] then be_height (snd (last alt_chain)) + 1 else nHeight + 1);
                                      connection_height = (if alt_chain \<noteq> [] then front else height)
                                  in if connection_height = 0 then (Inr (False, bvc), c)
                                     else if length (m_blocks c) \<le> unat connection_height then (Inl Exception, c)
                                     else let offset = scratch_offset (m_blocks c ! unat connection_height);
                                              bei = (empty_block_entry b)\<lparr>be_height := height, scratch_offset := offset + word_of_nat (length alt_pad)\<rparr>
                                          in if scratch_offset bei = 0 then (Inr (False, bvc), c)
                                             else case main_line_patches env (drop (unat connection_height) (m_blocks c)) [] of
                                                    Inl e \<Rightarrow> (Inl e, c)
                                                  | Inr None \<Rightarrow> (Inr (False, bvc), c)
                                                  | Inr (Some main) \<Rightarrow>
                                                      (case get_next_difficulty_for_alternative_chain alt_chain height c of
                                                         Inl e \<Rightarrow> (Inl e, c)
                                                       | Inr current_diff \<Rightarrow>
                                                           if current_diff = 0 then (Inr (False, bvc), c)
                                                           else case alt_scratchpad offset (scratch_offset bei) alt_pad (merge_patches offset main alt_patch) c of
                                                                  None \<Rightarrow> (Inl OutOfRange, c)
                                                                | Some pad \<Rightarrow>
                                                                    if \<not> check_hash (hash_words (block_longhash env b height pad)) current_diff
                                                                    then (Inr (False, failed), c)
                                                                    else alt_block_insert env handler alt_chain bei nHeight current_diff i bvc c))"

fun handle_alternative_block ::
  "chain_env \<Rightarrow> nat \<Rightarrow> block \<Rightarrow> hash \<Rightarrow> block_verification_context \<Rightarrow> blockchain_storage \<Rightarrow> (bool \<times> block_verification_context) effect" where
  "handle_alternative_block env 0 b i bvc c = (Inl Diverges, c)"
| "handle_alternative_block env (Suc n) b i bvc c =
    (if is_height_passed_zone (m_checkpoints c) (get_block_height b) (blocks_size c - 1)
     then (Inr (False, bvc\<lparr>m_bvc_verifivation_failed := True\<rparr>), c)
     else case alt_block_body env (handle_alternative_block env n) b i bvc c of
            (Inl Exception, c) \<Rightarrow> (Inr (False, bvc), c)
          | res \<Rightarrow> res)"

definition prune_aged_alt_blocks :: "blockchain_storage \<Rightarrow> blockchain_storage" where
  "prune_aged_alt_blocks c = c\<lparr>m_alternative_chains := (\<lambda>h.
     case m_alternative_chains c h of
       None \<Rightarrow> None
     | Some be \<Rightarrow>
         if blocks_size c > be_height be \<and> blocks_size c - be_height be > CURRENCY_ALT_BLOCK_LIVETIME_COUNT then None else Some be)\<rparr>"

section \<open>Any new block\<close>

definition add_new_block ::
  "chain_env \<Rightarrow> nat \<Rightarrow> block \<Rightarrow> block_verification_context \<Rightarrow> blockchain_storage \<Rightarrow> (bool \<times> block_verification_context) effect" where
  "add_new_block env n bl bvc c =
    (let i = get_block_hash bl
     in if have_block i c then (Inr (False, bvc\<lparr>m_already_exists := True\<rparr>), c)
        else if \<not> prev_id bl = get_top_block_id c
        then handle_alternative_block env n bl i (bvc\<lparr>m_added_to_main_chain := False\<rparr>) c
        else handle_block_to_main_chain env bl i bvc c)"

definition CURRENCY_MAX_BLOCK_SIZE :: nat where
  "CURRENCY_MAX_BLOCK_SIZE = 500000000"

definition get_max_block_size :: nat where
  "get_max_block_size = CURRENCY_MAX_BLOCK_SIZE"

text \<open>The update of the miner's block template is left out.\<close>

definition handle_incoming_block ::
  "chain_env \<Rightarrow> nat \<Rightarrow> bytes \<Rightarrow> blockchain_storage \<Rightarrow> (bool \<times> block_verification_context) effect" where
  "handle_incoming_block env n block_blob c =
    (let failed = no_block_verification\<lparr>m_bvc_verifivation_failed := True\<rparr>
     in if length block_blob > get_max_block_size then (Inr (False, failed), c)
        else case parse_and_validate_block_from_blob block_blob of
               None \<Rightarrow> (Inr (False, failed), c)
             | Some b \<Rightarrow> and_next (add_new_block env n b no_block_verification c) (\<lambda>(_, bvc) c. (Inr (True, bvc), c)))"

end
