(* ===== verification/ChainReorg.thy ===== *)
theory ChainReorg
  imports ChainAlt
begin

text \<open>
  Removing blocks and switching to another branch: what the loops over \<open>pop_block_from_blockchain\<close> leave of the main
  chain, that they end, and what an alternative block may change.
\<close>

section \<open>What the removal of a transaction does not touch\<close>

text \<open>
  A part of the state that does not depend on spent flags, key images, aliases, outputs, the map of transactions and the
  pool is the same after the data of a block were removed.
\<close>

locale untouched_view =
  fixes view :: "blockchain_storage \<Rightarrow> 'a"
  assumes view_flags: "view (snd (update_spent_tx_flags_for_input a g s c)) = view c"
    and view_keys: "view (c\<lparr>m_spent_keys := keys\<rparr>) = view c"
    and view_aliases: "view (c\<lparr>m_aliases := al, m_addr_to_alias := ad\<rparr>) = view c"
    and view_pool: "view (c\<lparr>m_tx_pool := p\<rparr>) = view c"
    and view_outputs: "view (c\<lparr>m_outputs := outs\<rparr>) = view c"
    and view_map: "view (c\<lparr>m_transaction_map := tm\<rparr>) = view c"
begin

lemma view_and_next:
  "view (snd m) = view c \<Longrightarrow> (\<And>a c'. m = (Inr a, c') \<Longrightarrow> view (snd (f a c')) = view c') \<Longrightarrow> view (snd (and_next m f)) = view c"
  by (cases m; cases "fst m") auto

lemma view_purge_input: "view (snd (purge_input s i c)) = view c"
  by (cases i) (auto simp: Let_def view_flags view_keys)

lemma view_purge_keyimages: "view (snd (purge_keyimages_loop s ins c)) = view c"
  by (induction ins arbitrary: c) (auto intro!: view_and_next simp: view_purge_input)

lemma view_unprocess: "view (snd (unprocess_blockchain_tx_extra env tx c)) = view c"
  using unprocess_extra_fields [of env tx c] by (auto simp: view_aliases)

lemma view_pop_outs: "view (snd (pop_outs_loop tx_id outs i c)) = view c"
  by (induction outs arbitrary: i c) (auto simp: view_outputs split: option.splits sum.splits)

lemma view_purge_tx: "view (snd (purge_transaction_from_blockchain env h c)) = view c"
  unfolding purge_transaction_from_blockchain_def purge_transaction_keyimages_from_blockchain_def pop_transaction_from_global_index_def Let_def
  by (auto simp: view_purge_keyimages view_unprocess view_pop_outs view_map view_pool intro!: view_and_next split: option.splits sum.splits)

lemma view_purge_txs: "view (snd (purge_txs_loop env hs r c)) = view c"
  by (induction hs arbitrary: r c) (auto intro!: view_and_next simp: view_purge_tx)

lemma view_purge_block: "view (snd (purge_block_data_from_blockchain env b n c)) = view c"
  by (auto simp: purge_block_data_from_blockchain_def view_purge_txs view_purge_tx intro!: view_and_next)

end

interpretation stored: untouched_view "\<lambda>c. map be_bl (m_blocks c)"
proof
  show "map be_bl (m_blocks (snd (update_spent_tx_flags_for_input a g s c))) = map be_bl (m_blocks c)" for a g s c
    using update_flags(4) [of a g s c] same_blocks_bl by (metis prod.collapse)
qed simp_all

interpretation branches: untouched_view "\<lambda>c. (m_blocks_index c, m_alternative_chains c, m_invalid_blocks c, m_checkpoints c, m_scratchpad c)"
proof
  show "(\<lambda>c. (m_blocks_index c, m_alternative_chains c, m_invalid_blocks c, m_checkpoints c, m_scratchpad c)) (snd (update_spent_tx_flags_for_input a g s c))
      = (\<lambda>c. (m_blocks_index c, m_alternative_chains c, m_invalid_blocks c, m_checkpoints c, m_scratchpad c)) c" for a g s c
    by (auto simp: update_spent_tx_flags_for_input_def set_entry_def Let_def split: option.splits sum.splits prod.splits)
qed simp_all

section \<open>Removing a block\<close>

lemma pop_block_ok:
  assumes "pop_block_from_blockchain env c = (Inr True, c')"
  shows "1 < length (m_blocks c)" and "map be_bl (m_blocks c') = butlast (map be_bl (m_blocks c))"
    and "m_alternative_chains c' = m_alternative_chains c"
proof -
  obtain scr r c1 where p: "purge_block_data_from_blockchain env (be_bl (last (m_blocks c))) (length (tx_hashes (be_bl (last (m_blocks c)))))
      (c\<lparr>m_scratchpad := scr\<rparr>) = (Inr r, c1)"
    and c': "c' = c1\<lparr>m_blocks_index := bi_pop (m_blocks_index c1), m_blocks := butlast (m_blocks c1)\<rparr>" and len: "1 < length (m_blocks c)"
    using assms by (auto simp: pop_block_from_blockchain_def Let_def and_next_Inr split: if_splits option.splits)
  show "1 < length (m_blocks c)" by (rule len)
  show "map be_bl (m_blocks c') = butlast (map be_bl (m_blocks c))"
    using stored.view_purge_block [of env _ _ "c\<lparr>m_scratchpad := scr\<rparr>"] by (simp add: c' map_butlast) (metis p snd_conv)
  show "m_alternative_chains c' = m_alternative_chains c"
    using branches.view_purge_block [of env _ _ "c\<lparr>m_scratchpad := scr\<rparr>"] by (simp add: c') (metis p snd_conv)
qed

text \<open>No function called by the removal has a loop that may not end.\<close>

definition ends :: "'a effect \<Rightarrow> bool" where
  "ends m \<longleftrightarrow> fst m \<noteq> Inl Diverges"

lemma ends_simps [simp]: "ends (Inr a, c)" "ends (Inl e, c) \<longleftrightarrow> e \<noteq> Diverges"
  by (simp_all add: ends_def)

lemma ends_and_next: "ends m \<Longrightarrow> (\<And>a c. m = (Inr a, c) \<Longrightarrow> ends (f a c)) \<Longrightarrow> ends (and_next m f)"
  by (cases m; cases "fst m") auto

lemma transactionByIndex_ends [simp]: "transactionByIndex c idx = Inl Diverges \<longleftrightarrow> False"
  by (auto simp: transactionByIndex_def split: prod.splits)

lemma ends_flags: "ends (update_spent_tx_flags_for_input a g s c)"
  by (auto simp: update_spent_tx_flags_for_input_def Let_def split: option.splits sum.splits prod.splits)

lemma ends_purge_keyimages: "ends (purge_keyimages_loop s ins c)"
proof (induction ins arbitrary: c)
  case (Cons i ins)
  have "ends (purge_input s i c)" by (cases i) (auto simp: Let_def ends_flags)
  then show ?case using Cons by (auto intro!: ends_and_next)
qed simp

lemma ends_unprocess: "ends (unprocess_blockchain_tx_extra env tx c)"
  by (auto simp: unprocess_blockchain_tx_extra_def apfst_def map_prod_def split: outcome.splits prod.splits)

lemma ends_pop_outs: "ends (pop_outs_loop tx_id outs i c)"
  by (induction outs arbitrary: i c) (auto split: option.splits sum.splits)

lemma ends_purge_tx: "ends (purge_transaction_from_blockchain env h c)"
  unfolding purge_transaction_from_blockchain_def purge_transaction_keyimages_from_blockchain_def pop_transaction_from_global_index_def Let_def
  by (auto simp: ends_purge_keyimages ends_unprocess ends_pop_outs intro!: ends_and_next split: option.splits sum.splits)

lemma ends_purge_txs: "ends (purge_txs_loop env hs r c)"
  by (induction hs arbitrary: r c) (auto intro!: ends_and_next simp: ends_purge_tx)

lemma ends_pop_block: "ends (pop_block_from_blockchain env c)"
  by (auto simp: pop_block_from_blockchain_def purge_block_data_from_blockchain_def ends_purge_txs ends_purge_tx Let_def
      intro!: ends_and_next split: option.splits)

section \<open>The loops\<close>


lemma word_of_nat_pred: "n \<noteq> 0 \<Longrightarrow> (word_of_nat n - 1 :: 'a::len word) = word_of_nat (n - 1)"
  by (cases n) auto

lemma pop_block_index:
  assumes "pop_block_from_blockchain env c = (Inr True, c')" and "length (m_blocks c) < 2 ^ 64"
  shows "length (m_blocks c') = length (m_blocks c) - 1" and "blocks_size c - 1 - 1 = blocks_size c' - 1"
    and "unat (blocks_size c - 1) = length (m_blocks c) - 1"
proof -
  note p = pop_block_ok [OF assms(1)]
  show len: "length (m_blocks c') = length (m_blocks c) - 1" using arg_cong [OF p(2), of length] by simp
  have "(word_of_nat (length (m_blocks c)) - 1 :: u64) = word_of_nat (length (m_blocks c) - 1)" using p(1) by (intro word_of_nat_pred) auto
  then show "blocks_size c - 1 - 1 = blocks_size c' - 1" "unat (blocks_size c - 1) = length (m_blocks c) - 1"
    using assms(2) by (simp_all add: blocks_size_def len unat_of_nat_small)
qed

lemma loop_stops:
  assumes "\<not> blocks_size c - 1 \<ge> h" and "length (m_blocks c) < 2 ^ 64"
  shows "length (m_blocks c) \<le> unat h"
proof (cases "length (m_blocks c) = 0")
  case False
  then have "(word_of_nat (length (m_blocks c)) - 1 :: u64) = word_of_nat (length (m_blocks c) - 1)" by (rule word_of_nat_pred)
  then have "unat (blocks_size c - 1) = length (m_blocks c) - 1" using assms(2) by (simp add: blocks_size_def unat_of_nat_small)
  then show ?thesis using assms(1) by (simp add: word_le_nat_alt)
qed simp

lemma rollback_loop_ok:
  assumes "rollback_loop env n (blocks_size c - 1) h c = (Inr True, c')" and "length (m_blocks c) < 2 ^ 64"
  shows "map be_bl (m_blocks c') = take (unat h) (map be_bl (m_blocks c)) \<and> m_alternative_chains c' = m_alternative_chains c"
  using assms
proof (induction n arbitrary: c)
  case (Suc n)
  show ?case
  proof (cases "blocks_size c - 1 \<ge> h")
    case True
    then obtain c1 where pop: "pop_block_from_blockchain env c = (Inr True, c1)" and rest: "rollback_loop env n (blocks_size c - 1 - 1) h c1 = (Inr True, c')"
      using Suc.prems(1) by (auto simp: and_next_Inr split: if_splits)
    note p = pop_block_ok [OF pop] and i = pop_block_index [OF pop Suc.prems(2)]
    have "map be_bl (m_blocks c') = take (unat h) (butlast (map be_bl (m_blocks c))) \<and> m_alternative_chains c' = m_alternative_chains c"
      using Suc.IH [of c1] rest Suc.prems(2) p(2,3) i(1,2) by simp
    moreover have "unat h \<le> length (m_blocks c) - 1" using True i(3) by (simp add: word_le_nat_alt)
    ultimately show ?thesis by (simp add: butlast_conv_take min_absorb1)
  next
    case False
    then show ?thesis using Suc.prems loop_stops [OF False] by simp
  qed
qed simp

lemma rollback_loop_ends:
  assumes "length (m_blocks c) < n" and "length (m_blocks c) < 2 ^ 64"
  shows "ends (rollback_loop env n (blocks_size c - 1) h c)"
  using assms
proof (induction n arbitrary: c)
  case (Suc n)
  have "ends (rollback_loop env n (blocks_size c - 1 - 1) h c1)" if pop: "pop_block_from_blockchain env c = (Inr True, c1)" for c1
    using Suc.IH [of c1] Suc.prems pop_block_ok(1) [OF pop] pop_block_index [OF pop] by simp
  then show ?case by (auto intro!: ends_and_next ends_pop_block)
qed simp

lemma disconnect_loop_ok:
  assumes "disconnect_loop env n (blocks_size c - 1) h bls c = (Inr (Some dis), c')" and "length (m_blocks c) < 2 ^ 64"
  shows "map be_bl (m_blocks c') = take (unat h) (map be_bl (m_blocks c)) \<and> dis = drop (unat h) (map be_bl (m_blocks c)) @ bls
    \<and> m_alternative_chains c' = m_alternative_chains c"
  using assms
proof (induction n arbitrary: c bls)
  case (Suc n)
  show ?case
  proof (cases "blocks_size c - 1 \<ge> h")
    case True
    let ?b = "be_bl (m_blocks c ! unat (blocks_size c - 1))"
    obtain c1 where pop: "pop_block_from_blockchain env c = (Inr True, c1)"
      and rest: "disconnect_loop env n (blocks_size c - 1 - 1) h (?b # bls) c1 = (Inr (Some dis), c')"
      using Suc.prems(1) True by (auto simp: and_next_Inr Let_def split: if_splits)
    note p = pop_block_ok [OF pop] and i = pop_block_index [OF pop Suc.prems(2)]
    have h: "unat h \<le> length (m_blocks c) - 1" using True i(3) by (simp add: word_le_nat_alt)
    have ne: "m_blocks c \<noteq> []" using p(1) by auto
    then have "?b = last (map be_bl (m_blocks c))" "map be_bl (m_blocks c) \<noteq> []" using i(3) by (simp_all add: last_conv_nth)
    then have b: "map be_bl (m_blocks c) = butlast (map be_bl (m_blocks c)) @ [?b]" by (metis append_butlast_last_id)
    have IH: "map be_bl (m_blocks c') = take (unat h) (butlast (map be_bl (m_blocks c)))"
      "dis = drop (unat h) (butlast (map be_bl (m_blocks c))) @ ?b # bls" "m_alternative_chains c' = m_alternative_chains c"
      using Suc.IH [of c1 "?b # bls"] rest Suc.prems(2) p(2,3) i(1,2) by simp_all
    have "take (unat h) (map be_bl (m_blocks c)) = take (unat h) (butlast (map be_bl (m_blocks c)))" using h by (simp add: butlast_conv_take min_absorb1)
    moreover have "drop (unat h) (map be_bl (m_blocks c)) = drop (unat h) (butlast (map be_bl (m_blocks c))) @ [?b]"
      using h by (subst b) (simp del: map_butlast)
    ultimately show ?thesis using IH by simp
  next
    case False
    then show ?thesis using Suc.prems loop_stops [OF False] by simp
  qed
qed simp

section \<open>A branch of alternative blocks\<close>

text \<open>The heights of the alternative blocks count up from a block to its successor.\<close>

definition heights_ascend :: "(hash \<rightharpoonup> block_entry) \<Rightarrow> bool" where
  "heights_ascend m \<longleftrightarrow> (\<forall>h be be'. m h = Some be \<longrightarrow> m (prev_id (be_bl be)) = Some be' \<longrightarrow> be_height be' < be_height be)"

text \<open>Each entry precedes the next one, and the last one precedes a block with the predecessor \<open>h\<close>.\<close>

fun branch_to :: "(hash \<rightharpoonup> block_entry) \<Rightarrow> alt_entry list \<Rightarrow> hash \<Rightarrow> bool" where
  "branch_to m [] h \<longleftrightarrow> True"
| "branch_to m ((h1, be) # es) h \<longleftrightarrow> m h1 = Some be \<and> branch_to m es h \<and> (case es of [] \<Rightarrow> h = h1 | (_, be') # _ \<Rightarrow> prev_id (be_bl be') = h1)"

definition branch_root :: "alt_entry list \<Rightarrow> hash \<Rightarrow> hash" where
  "branch_root es h = (case es of [] \<Rightarrow> h | (_, be) # _ \<Rightarrow> prev_id (be_bl be))"

lemma branch_to_Cons: "branch_to m ((h1, be) # es) h \<longleftrightarrow> m h1 = Some be \<and> branch_to m es h \<and> branch_root es h = h1"
  by (auto simp: branch_root_def split: list.splits)

lemma collect_alt_ends:
  assumes "heights_ascend m" and "branch_to m acc h" and "branch_root acc h = r"
  shows "\<exists>es. collect_alt m r acc = Some es \<and> branch_to m es h \<and> m (branch_root es h) = None"
  using assms(2,3)
proof (induction "case m r of None \<Rightarrow> 0 | Some be \<Rightarrow> Suc (unat (be_height be))" arbitrary: r acc rule: less_induct)
  case less
  show ?case
  proof (cases "m r")
    case None
    then show ?thesis using less.prems by (subst collect_alt.simps) simp
  next
    case (Some be)
    let ?r = "prev_id (be_bl be)"
    have "(case m ?r of None \<Rightarrow> 0 | Some be' \<Rightarrow> Suc (unat (be_height be'))) < (case m r of None \<Rightarrow> 0 | Some be \<Rightarrow> Suc (unat (be_height be)))"
      using Some assms(1) by (auto simp: heights_ascend_def word_less_nat_alt split: option.splits)
    moreover have "branch_to m ((r, be) # acc) h" using Some less.prems unfolding branch_to_Cons by blast
    moreover have "branch_root ((r, be) # acc) h = ?r" by (simp add: branch_root_def)
    ultimately obtain es where "collect_alt m ?r ((r, be) # acc) = Some es \<and> branch_to m es h \<and> m (branch_root es h) = None"
      using less.hyps by blast
    then show ?thesis using Some by (subst collect_alt.simps) auto
  qed
qed

section \<open>What an alternative block may change\<close>

text \<open>
  The block \<open>b\<close> ends the branch of the alternative blocks \<open>alt_chain\<close>, which leaves the main chain at the height \<open>split\<close>.
  The proof of work of \<open>b\<close> is valid on the scratchpad of that branch and for the difficulty of that branch, and \<open>bei\<close> is
  the entry of \<open>b\<close>, with the height and the work at the end of the branch.
\<close>

definition valid_branch :: "chain_env \<Rightarrow> block \<Rightarrow> hash \<Rightarrow> blockchain_storage \<Rightarrow> block_entry \<Rightarrow> bool" where
  "valid_branch env b i c bei \<longleftrightarrow> (\<exists>alt_chain split alt_pad alt_patch main pad diff.
     collect_alt (m_alternative_chains c) (prev_id b) [] = Some alt_chain
     \<and> (if alt_chain = [] then getBlockHeight (m_blocks_index c) (prev_id b) = Some split
        else split = be_height (snd (hd alt_chain)) - 1
          \<and> get_block_hash (be_bl (m_blocks c ! unat split)) = prev_id (be_bl (snd (hd alt_chain))))
     \<and> unat (split + 1) < length (m_blocks c)
     \<and> alt_addenda env alt_chain [] [] = Some (alt_pad, alt_patch)
     \<and> main_line_patches env (drop (unat (split + 1)) (m_blocks c)) [] = Inr (Some main)
     \<and> bei = (empty_block_entry b)\<lparr>be_height := (if alt_chain = [] then split else be_height (snd (last alt_chain))) + 1,
         scratch_offset := scratch_offset (m_blocks c ! unat (split + 1)) + word_of_nat (length alt_pad),
         cumulative_difficulty := (if alt_chain = [] then cumulative_difficulty (m_blocks c ! unat split)
           else cumulative_difficulty (snd (last alt_chain))) + diff\<rparr>
     \<and> alt_scratchpad (scratch_offset (m_blocks c ! unat (split + 1))) (scratch_offset bei) alt_pad
         (merge_patches (scratch_offset (m_blocks c ! unat (split + 1))) main alt_patch) c = Some pad
     \<and> get_next_difficulty_for_alternative_chain alt_chain (be_height bei) c = Inr diff \<and> diff \<noteq> 0
     \<and> check_hash (hash_words (block_longhash env b (be_height bei) pad)) diff
     \<and> prevalidate_miner_transaction b (be_height bei)
     \<and> (is_in_checkpoint_zone (m_checkpoints c) (be_height bei) \<longrightarrow> check_block (m_checkpoints c) (be_height bei) i))"

text \<open>Nothing but the flag of the checkpoint zone changes, or a valid block is added as an alternative one, or its branch has more work.\<close>

definition alternative_outcome :: "chain_env \<Rightarrow> block \<Rightarrow> hash \<Rightarrow> blockchain_storage \<Rightarrow> blockchain_storage \<Rightarrow> bool" where
  "alternative_outcome env b i c c' \<longleftrightarrow> (\<exists>z. c' = c\<lparr>m_is_in_checkpoint_zone := z\<rparr>) \<or>
     (\<exists>bei. valid_branch env b i c bei \<and> m_alternative_chains c i = None \<and>
       (if cumulative_difficulty bei \<le> cumulative_difficulty (last (m_blocks c))
        then c' = c\<lparr>m_is_in_checkpoint_zone := is_in_checkpoint_zone (m_checkpoints c) (be_height bei),
          m_alternative_chains := (m_alternative_chains c)(i \<mapsto> bei)\<rparr>
        else True))"

lemma same_outcome [simp]: "alternative_outcome env b i c c"
  unfolding alternative_outcome_def by (intro disjI1 exI [of _ "m_is_in_checkpoint_zone c"]) simp

lemma zone_outcome [simp]: "alternative_outcome env b i c (c\<lparr>m_is_in_checkpoint_zone := z\<rparr>)"
  unfolding alternative_outcome_def by blast

lemma alt_block_insert_outcome:
  assumes "alt_block_insert env handler alt_chain bei nHeight diff i bvc c = (res, c')" and "m_blocks c \<noteq> []"
    and valid: "prevalidate_miner_transaction (be_bl bei) (be_height bei) \<Longrightarrow>
      is_in_checkpoint_zone (m_checkpoints c) (be_height bei) \<longrightarrow> check_block (m_checkpoints c) (be_height bei) i \<Longrightarrow>
      valid_branch env b i c (bei\<lparr>cumulative_difficulty := (if alt_chain = [] then cumulative_difficulty (m_blocks c ! unat nHeight)
        else cumulative_difficulty (snd (last alt_chain))) + diff\<rparr>)"
  shows "alternative_outcome env b i c c'"
proof (cases "prevalidate_miner_transaction (be_bl bei) (be_height bei)
    \<and> (is_in_checkpoint_zone (m_checkpoints c) (be_height bei) \<longrightarrow> check_block (m_checkpoints c) (be_height bei) i)
    \<and> \<not> (alt_chain = [] \<and> length (m_blocks c) \<le> unat nHeight) \<and> m_alternative_chains c i = None")
  case True
  let ?bei = "bei\<lparr>cumulative_difficulty := (if alt_chain = [] then cumulative_difficulty (m_blocks c ! unat nHeight)
        else cumulative_difficulty (snd (last alt_chain))) + diff\<rparr>"
  have "valid_branch env b i c ?bei" using True valid by blast
  then show ?thesis
    unfolding alternative_outcome_def using assms(1,2) True
    by (intro disjI2 exI [of _ ?bei]) (auto simp: alt_block_insert_def Let_def split: if_splits)
next
  case False
  then have "\<exists>z. c' = c\<lparr>m_is_in_checkpoint_zone := z\<rparr>"
    using assms(1) by (auto simp: alt_block_insert_def Let_def split: if_splits)
  then show ?thesis by auto
qed

lemma alt_block_body_outcome:
  assumes "alt_block_body env handler b i bvc c = (res, c')"
  shows "alternative_outcome env b i c c'"
proof -
  let ?n = "case getBlockHeight (m_blocks_index c) (prev_id b) of None \<Rightarrow> - 1 | Some h \<Rightarrow> h"
  have ins: "alternative_outcome env b i c c'"
    if ins: "alt_block_insert env handler alt_chain ((empty_block_entry b)\<lparr>be_height := h, scratch_offset := offset + word_of_nat (length alt_pad)\<rparr>)
        nHeight diff i bvc c = (res, c')"
      and branch: "collect_alt (m_alternative_chains c) (prev_id b) [] = Some alt_chain"
      and split: "if alt_chain = [] then getBlockHeight (m_blocks_index c) (prev_id b) = Some split \<and> split = nHeight \<and> h = split + 1
        else split = be_height (snd (hd alt_chain)) - 1 \<and> get_block_hash (be_bl (m_blocks c ! unat split)) = prev_id (be_bl (snd (hd alt_chain)))
          \<and> h = be_height (snd (last alt_chain)) + 1"
      and len: "unat (split + 1) < length (m_blocks c)" and offset: "offset = scratch_offset (m_blocks c ! unat (split + 1))"
      and pads: "alt_addenda env alt_chain [] [] = Some (alt_pad, alt_patch)"
        "main_line_patches env (drop (unat (split + 1)) (m_blocks c)) [] = Inr (Some main)"
        "alt_scratchpad offset (offset + word_of_nat (length alt_pad)) alt_pad (merge_patches offset main alt_patch) c = Some pad"
      and diff: "get_next_difficulty_for_alternative_chain alt_chain h c = Inr diff" "diff \<noteq> 0"
        "check_hash (hash_words (block_longhash env b h pad)) diff"
    for alt_chain h offset alt_pad nHeight diff split alt_patch main pad
  proof (rule alt_block_insert_outcome [OF ins])
    show "m_blocks c \<noteq> []" using len by auto
    have bl: "be_bl (empty_block_entry b) = b" by (simp add: empty_block_entry_def)
    assume ok: "prevalidate_miner_transaction (be_bl ((empty_block_entry b)\<lparr>be_height := h, scratch_offset := offset + word_of_nat (length alt_pad)\<rparr>))
        (be_height ((empty_block_entry b)\<lparr>be_height := h, scratch_offset := offset + word_of_nat (length alt_pad)\<rparr>))"
      "is_in_checkpoint_zone (m_checkpoints c) (be_height ((empty_block_entry b)\<lparr>be_height := h, scratch_offset := offset + word_of_nat (length alt_pad)\<rparr>))
        \<longrightarrow> check_block (m_checkpoints c) (be_height ((empty_block_entry b)\<lparr>be_height := h, scratch_offset := offset + word_of_nat (length alt_pad)\<rparr>)) i"
    show "valid_branch env b i c ((empty_block_entry b)\<lparr>be_height := h, scratch_offset := offset + word_of_nat (length alt_pad),
        cumulative_difficulty := (if alt_chain = [] then cumulative_difficulty (m_blocks c ! unat nHeight)
          else cumulative_difficulty (snd (last alt_chain))) + diff\<rparr>)"
      unfolding valid_branch_def
      using branch split len pads diff ok bl
      by (intro exI [of _ alt_chain] exI [of _ split] exI [of _ alt_pad] exI [of _ alt_patch] exI [of _ main] exI [of _ pad] exI [of _ diff] conjI)
        (auto simp: offset split: if_splits)
  qed
  have root: "alternative_outcome env b i c c'"
    if "alt_block_insert env handler [] ((empty_block_entry b)\<lparr>be_height := x + 1, scratch_offset := offset\<rparr>) x diff i bvc c = (res, c')"
      "collect_alt (m_alternative_chains c) (prev_id b) [] = Some []" "getBlockHeight (m_blocks_index c) (prev_id b) = Some x"
      "\<not> length (m_blocks c) \<le> unat (x + 1)" "offset = scratch_offset (m_blocks c ! unat (x + 1))"
      "main_line_patches env (drop (unat (x + 1)) (m_blocks c)) [] = Inr (Some main)"
      "alt_scratchpad offset offset [] (merge_patches offset main []) c = Some pad"
      "get_next_difficulty_for_alternative_chain [] (x + 1) c = Inr diff" "diff \<noteq> 0"
      "check_hash (hash_words (block_longhash env b (x + 1) pad)) diff" for x offset main pad diff
    by (rule ins [where alt_chain = "[]" and h = "x + 1" and offset = offset and alt_pad = "[]" and nHeight = x and diff = diff and split = x
          and alt_patch = "[]" and main = main and pad = pad]) (use that in auto)
  show ?thesis
    using assms
    by (auto simp: alt_block_body_def Let_def split: if_splits option.splits sum.splits prod.splits)
      (((erule root; (assumption | simp)) | (erule ins, assumption, auto simp: HEIGHT_NOT_FOUND_def)); fail)+
qed

lemma handle_alternative_outcome:
  assumes "handle_alternative_block env n b i bvc c = (res, c')"
  shows "alternative_outcome env b i c c'"
proof (cases n)
  case (Suc m)
  obtain r c1 where body: "alt_block_body env (handle_alternative_block env m) b i bvc c = (r, c1)" by fastforce
  have "c' = c \<or> c' = c1"
    using assms body by (auto simp: Suc split: if_splits sum.splits exn.splits)
  then show ?thesis using alt_block_body_outcome [OF body] by auto
qed (use assms in simp)

section \<open>A chain of two blocks\<close>

definition second_miner_tx :: transaction where
  "second_miner_tx = first_miner_tx\<lparr>unlock_time := 61, vin := [TxinGen 1]\<rparr>"

definition second_block :: block where
  "second_block = first_block\<lparr>prev_id := get_block_hash first_block, miner_tx := second_miner_tx\<rparr>"

definition second_entry :: transaction_chain_entry where
  "second_entry = first_entry\<lparr>ce_tx := second_miner_tx, m_keeper_block_height := 1\<rparr>"

definition second_be :: block_entry where
  "second_be = first_be\<lparr>be_bl := second_block, be_height := 1, transactions := [second_entry]\<rparr>"

definition one_block_chain :: "hash list \<Rightarrow> blockchain_storage" where
  "one_block_chain scr = empty_chain\<lparr>m_blocks := [first_be], m_blocks_index := \<lparr>m_container = [get_block_hash first_block]\<rparr>, m_scratchpad := scr\<rparr>"

definition two_block_chain :: blockchain_storage where
  "two_block_chain = empty_chain\<lparr>m_blocks := [first_be, second_be],
     m_blocks_index := \<lparr>m_container = [get_block_hash first_block, get_block_hash second_block]\<rparr>,
     m_transaction_map := [get_transaction_hash second_miner_tx \<mapsto> (1, 0)], m_outputs := [140737488000000 \<mapsto> [((1, 0), 0)]],
     m_scratchpad := replicate 4 null_hash\<rparr>"

lemma second_fields: "vin second_miner_tx = [TxinGen 1]" "vout second_miner_tx = vout first_miner_tx" "extra second_miner_tx = []"
  "length (vout first_miner_tx) = 1" "o_amount (hd (vout first_miner_tx)) = 140737488000000" "is_coinbase second_miner_tx"
  "be_bl second_be = second_block" "transactions second_be = [second_entry]" "ce_tx second_entry = second_miner_tx"
  "miner_tx second_block = second_miner_tx" "tx_hashes second_block = []"
  by (simp_all add: second_miner_tx_def second_be_def second_entry_def second_block_def first_block_def first_miner_tx_def is_coinbase_def)

lemma second_unprocess: "unprocess_blockchain_tx_extra open_env second_miner_tx c = (Inr True, c)"
  by (simp add: unprocess_blockchain_tx_extra_def open_env_def parse_and_validate_tx_extra_def extra_loop.simps second_fields
      null_extra_def check_make_alias_tx_def null_alias_def)

lemma second_pop_scratchpad: "\<exists>scr. pop_block_scratchpad_data (donation_account open_env) second_block (replicate 4 null_hash) = Some (True, scr)"
  by (simp add: pop_block_scratchpad_data_def get_block_scratchpad_addendum_def get_block_height_def second_fields
        parse_tx_pub_key_def parse_and_validate_tx_extra_def extra_loop.simps null_extra_def check_make_alias_tx_def null_alias_def
        open_env_def get_scratchpad_patch_def Let_def first_miner_tx_def)

lemma second_purged:
  "purge_transaction_from_blockchain open_env (get_transaction_hash second_miner_tx) (two_block_chain\<lparr>m_scratchpad := scr\<rparr>)
    = (Inr True, (one_block_chain scr)\<lparr>m_blocks := [first_be, second_be],
        m_blocks_index := \<lparr>m_container = [get_block_hash first_block, get_block_hash second_block]\<rparr>\<rparr>)"
proof -
  let ?c = "two_block_chain\<lparr>m_scratchpad := scr\<rparr>"
  have blocks: "m_blocks ?c = [first_be, second_be]" by (simp add: two_block_chain_def)
  have at: "transactionByIndex ?c (1, 0) = Inr second_entry" unfolding transactionByIndex_def blocks by (simp add: second_fields)
  obtain out where out: "vout first_miner_tx = [out]" "o_amount out = 140737488000000" by (simp add: first_miner_tx_def)
  have map: "m_transaction_map ?c (get_transaction_hash second_miner_tx) = Some (1, 0)" by (simp add: two_block_chain_def)
  have outs: "m_outputs ?c 140737488000000 = Some [((1, 0), 0)]" by (simp add: two_block_chain_def)
  have "purge_transaction_from_blockchain open_env (get_transaction_hash second_miner_tx) ?c
    = (Inr True, ?c\<lparr>m_outputs := (m_outputs ?c)(140737488000000 := None),
        m_transaction_map := (m_transaction_map ?c)(get_transaction_hash second_miner_tx := None)\<rparr>)"
    using map outs at
    by (simp add: purge_transaction_from_blockchain_def second_fields purge_transaction_keyimages_from_blockchain_def second_unprocess
        pop_transaction_from_global_index_def out del: fun_upd_apply)
  then show ?thesis by (simp add: two_block_chain_def one_block_chain_def empty_chain_def)
qed

lemma second_popped: "\<exists>scr. pop_block_from_blockchain open_env two_block_chain = (Inr True, one_block_chain scr)"
proof -
  obtain scr where scr: "pop_block_scratchpad_data (donation_account open_env) second_block (m_scratchpad two_block_chain) = Some (True, scr)"
    using second_pop_scratchpad by (auto simp: two_block_chain_def)
  have f: "m_blocks two_block_chain = [first_be, second_be]" by (simp add: two_block_chain_def)
  show ?thesis
    by (intro exI [of _ scr])
      (simp add: pop_block_from_blockchain_def f second_fields scr purge_block_data_from_blockchain_def second_purged getTailId_def,
        simp add: one_block_chain_def bi_pop_def)
qed


definition lacking_block :: block where
  "lacking_block = second_block\<lparr>tx_hashes := [replicate 32 2]\<rparr>"

definition lacking_be :: block_entry where
  "lacking_be = (empty_block_entry lacking_block)\<lparr>be_height := 1\<rparr>"

definition lacking_chain :: "hash list \<Rightarrow> blockchain_storage" where
  "lacking_chain scr = (one_block_chain scr)\<lparr>m_transaction_map := [get_transaction_hash second_miner_tx \<mapsto> (1, 0)],
     m_outputs := [140737488000000 \<mapsto> [((1, 0), 0)]]\<rparr>"

lemma one_block_difficulty: "get_difficulty_for_next_block (one_block_chain scr) = 1"
  by (simp add: get_difficulty_for_next_block_def one_block_chain_def) code_simp

lemma lacking_header: "header_accepted open_env lacking_block i (one_block_chain scr)"
proof -
  have "check_hash (hash_words (replicate 32 0)) 1" by code_simp
  then have "check_hash (hash_words (block_longhash open_env b h s)) 1" for b h s by (simp add: open_env_def)
  moreover have "prevalidate_miner_transaction lacking_block 1"
    by (simp add: prevalidate_miner_transaction_def lacking_block_def second_fields)
      (simp add: second_miner_tx_def first_miner_tx_def CURRENCY_MINED_MONEY_UNLOCK_WINDOW_def check_outs_overflow_def)
  moreover have "blocks_size (one_block_chain scr) = 1" by (simp add: blocks_size_def one_block_chain_def)
  moreover have "check_block_timestamp_main open_env lacking_block (one_block_chain scr)"
    by (simp add: check_block_timestamp_main_def check_block_timestamp_def open_env_def lacking_block_def second_block_def first_block_def one_block_chain_def
        CURRENCY_BLOCK_FUTURE_TIME_LIMIT_def BLOCKCHAIN_TIMESTAMP_CHECK_WINDOW_def)
  moreover have "prev_id lacking_block = get_top_block_id (one_block_chain scr)"
    by (simp add: get_top_block_id_def lacking_block_def second_block_def one_block_chain_def first_be_def)
  moreover have "\<not> is_in_checkpoint_zone (m_checkpoints (one_block_chain scr)) 1" by (simp add: is_in_checkpoint_zone_def one_block_chain_def empty_chain_def)
  ultimately show ?thesis unfolding header_accepted_def one_block_difficulty by simp
qed

lemma second_extra: "process_blockchain_tx_extra open_env second_miner_tx c = (Inr True, c)"
  by (simp add: process_blockchain_tx_extra_def open_env_def parse_and_validate_tx_extra_def extra_loop.simps second_fields
      null_extra_def check_make_alias_tx_def null_alias_def)

lemma lacking_tx_added:
  "\<exists>txe. add_transaction_from_block open_env (empty_entry second_miner_tx) (get_transaction_hash second_miner_tx) 1 0 (one_block_chain scr)
    = (Inr (Some txe), lacking_chain scr)"
proof -
  obtain out where "vout first_miner_tx = [out]" "o_amount out = 140737488000000" by (simp add: first_miner_tx_def)
  then show ?thesis
    by (simp add: add_transaction_from_block_def empty_entry_def second_extra second_fields lacking_chain_def
        push_transaction_to_global_outs_index_def Let_def) (simp add: one_block_chain_def empty_chain_def)
qed

lemma lacking_block_lacks: "lacks_tx open_env lacking_block i (one_block_chain scr) (lacking_chain scr)"
proof -
  obtain txe where "add_transaction_from_block open_env (empty_entry second_miner_tx) (get_transaction_hash second_miner_tx) 1 0 (one_block_chain scr)
    = (Inr (Some txe), lacking_chain scr)" using lacking_tx_added by blast
  moreover have "(one_block_chain scr)\<lparr>m_is_in_checkpoint_zone := is_in_checkpoint_zone (m_checkpoints (one_block_chain scr)) 1\<rparr> = one_block_chain scr"
    "blocks_size (one_block_chain scr) = 1"
    by (simp_all add: one_block_chain_def empty_chain_def is_in_checkpoint_zone_def blocks_size_def)
  moreover have "m_transactions (m_tx_pool (lacking_chain scr)) (replicate 32 2) = None"
    by (simp add: lacking_chain_def one_block_chain_def empty_chain_def empty_pool_def)
  moreover have "miner_tx lacking_block = second_miner_tx" "tx_hashes lacking_block = [replicate 32 2]"
    by (simp_all add: lacking_block_def second_fields)
  ultimately show ?thesis
    unfolding lacks_tx_def using lacking_header
    by (intro conjI exI [of _ txe] exI [of _ "lacking_chain scr"] exI [of _ "[]"] exI [of _ "replicate 32 2"]) simp_all
qed

text \<open>A main chain of two blocks, and a block beside the second one.\<close>

definition heavy_be :: block_entry where
  "heavy_be = second_be\<lparr>cumulative_difficulty := 2, scratch_offset := 1\<rparr>"

definition heavy_chain :: blockchain_storage where
  "heavy_chain = two_block_chain\<lparr>m_blocks := [first_be, heavy_be]\<rparr>"

definition other_block :: block where
  "other_block = second_block\<lparr>timestamp := 6\<rparr>"

definition other_be :: block_entry where
  "other_be = (empty_block_entry other_block)\<lparr>be_height := 1, scratch_offset := 1, cumulative_difficulty := 2\<rparr>"

lemma heavy_fields: "m_blocks heavy_chain = [first_be, heavy_be]" "m_alternative_chains heavy_chain = Map.empty" "m_checkpoints heavy_chain = \<lparr>m_points = []\<rparr>"
  "m_is_in_checkpoint_zone heavy_chain = False" "length (m_scratchpad heavy_chain) = 4" "getBlockHeight (m_blocks_index heavy_chain) (prev_id other_block) = Some 0"
  "scratch_offset heavy_be = 1" "be_bl heavy_be = second_block" "cumulative_difficulty heavy_be = 2" "cumulative_difficulty first_be = 1"
  by (simp_all add: heavy_chain_def two_block_chain_def empty_chain_def heavy_be_def second_fields first_be_def other_block_def second_block_def
      getBlockHeight_def)

lemma other_difficulty: "get_next_difficulty_for_alternative_chain [] 1 heavy_chain = Inr 1"
proof -
  have "next_difficulty_default [] [] = 1" by code_simp
  then show ?thesis by (simp add: get_next_difficulty_for_alternative_chain_def DIFFICULTY_BLOCKS_COUNT_def heavy_fields Let_def)
qed

lemma other_addendum: "\<exists>addendum. get_block_scratchpad_addendum (donation_account open_env) second_block [] = Some (True, addendum)"
  by (simp add: get_block_scratchpad_addendum_def get_block_height_def second_fields
        parse_tx_pub_key_def parse_and_validate_tx_extra_def extra_loop.simps null_extra_def check_make_alias_tx_def null_alias_def
        open_env_def first_miner_tx_def)

lemma other_block_handled:
  "handle_alternative_block open_env 1 other_block (get_block_hash other_block) no_block_verification heavy_chain
    = (Inr (True, no_block_verification), heavy_chain\<lparr>m_alternative_chains := [get_block_hash other_block \<mapsto> other_be]\<rparr>)"
proof -
  obtain main where main: "main_line_patches open_env [heavy_be] [] = Inr (Some main)" using other_addendum by (auto simp: heavy_fields)
  obtain pad where pad: "alt_scratchpad 1 1 [] (merge_patches 1 main []) heavy_chain = Some pad" by (simp add: alt_scratchpad_def heavy_fields)
  have branch: "collect_alt Map.empty h [] = Some []" for h by (subst collect_alt.simps) simp
  have "check_hash (hash_words (replicate 32 0)) 1" by code_simp
  then have work: "check_hash (hash_words (block_longhash open_env b h s)) 1" for b h s by (simp add: open_env_def)
  have pre: "prevalidate_miner_transaction other_block 1"
    by (simp add: prevalidate_miner_transaction_def other_block_def second_fields)
      (simp add: second_miner_tx_def first_miner_tx_def CURRENCY_MINED_MONEY_UNLOCK_WINDOW_def check_outs_overflow_def)
  have time: "check_block_timestamp (complete_timestamps_vector 0 [] heavy_chain) other_block"
    by (simp add: complete_timestamps_vector_def check_block_timestamp_def BLOCKCHAIN_TIMESTAMP_CHECK_WINDOW_def heavy_fields)
  have zone: "heavy_chain\<lparr>m_is_in_checkpoint_zone := False, m_alternative_chains := m\<rparr> = heavy_chain\<lparr>m_alternative_chains := m\<rparr>" for m
    by (simp add: heavy_chain_def two_block_chain_def empty_chain_def)
  have "alt_block_body open_env (handle_alternative_block open_env 0) other_block (get_block_hash other_block) no_block_verification heavy_chain
    = alt_block_insert open_env (handle_alternative_block open_env 0) [] ((empty_block_entry other_block)\<lparr>be_height := 1, scratch_offset := 1\<rparr>) 0 1
        (get_block_hash other_block) no_block_verification heavy_chain"
    using main pad time work other_difficulty
    by (simp add: alt_block_body_def branch heavy_fields Let_def HEIGHT_NOT_FOUND_def empty_block_entry_def del: main_line_patches.simps)
  also have "\<dots> = (Inr (True, no_block_verification), heavy_chain\<lparr>m_alternative_chains := [get_block_hash other_block \<mapsto> other_be]\<rparr>)"
    using pre by (simp add: alt_block_insert_def Let_def is_in_checkpoint_zone_def heavy_fields empty_block_entry_def zone other_be_def)
  finally show ?thesis by (simp add: is_height_passed_zone_def heavy_fields)
qed

section \<open>Properties\<close>

text \<open>C7: \<open>handle_alternative_block\<close> changes nothing but the flag of the checkpoint zone, unless
  the block is new and valid on its branch: its proof of work, over the scratchpad of the branch at the
  height of the block, meets the difficulty of the branch. Then, if the work of its branch does not exceed
  that of the main chain, all that changes beside the flag is that the block is added to the alternative
  ones, with that height and work.\<close>

theorem alternative_block_outweighs:
  assumes "handle_alternative_block env n b i bvc c = (res, c')"
  shows "alternative_outcome env b i c c'"
  by (rule handle_alternative_outcome [OF assms])

theorem alternative_block_outweighs_witness:
  "\<exists>c'. handle_alternative_block open_env 1 other_block (get_block_hash other_block) no_block_verification heavy_chain = (Inr (True, no_block_verification), c')
    \<and> m_alternative_chains c' (get_block_hash other_block) \<noteq> None
    \<and> alternative_outcome open_env other_block (get_block_hash other_block) heavy_chain c'"
  using other_block_handled alternative_block_outweighs [OF other_block_handled]
  by (intro exI [of _ "heavy_chain\<lparr>m_alternative_chains := [get_block_hash other_block \<mapsto> other_be]\<rparr>"]) simp

lemma add_new_alternative_block:
  assumes "prev_id b \<noteq> get_top_block_id c" and "add_new_block env n b bvc c = (res, c')"
  shows "alternative_outcome env b (get_block_hash b) c c'"
  using assms handle_alternative_outcome [of env n b "get_block_hash b" _ c res c']
  by (auto simp: add_new_block_def Let_def split: if_splits)

text \<open>C8: \<open>rollback_blockchain\<close> returns: its loop over a 64-bit counter never runs past the stored
  blocks, and when it succeeds exactly the blocks below the given height are left.\<close>

theorem rollback_blockchain_exact:
  assumes "length (m_blocks c) < 2 ^ 64"
  shows "fst (rollback_blockchain env h c) \<noteq> Inl Diverges \<and>
    (\<forall>c'. rollback_blockchain env h c = (Inr True, c') \<longrightarrow> map be_bl (m_blocks c') = take (unat h) (map be_bl (m_blocks c)))"
proof -
  have eq: "rollback_blockchain env h c = rollback_loop env (length (m_blocks c) + 1) (blocks_size c - 1) h c"
    by (cases "rollback_loop env (length (m_blocks c) + 1) (blocks_size c - 1) h c"; cases "fst (rollback_loop env (length (m_blocks c) + 1) (blocks_size c - 1) h c)")
      (auto simp: rollback_blockchain_def rollback_blockchain_switching_def)
  have "ends (rollback_blockchain env h c)" unfolding eq by (rule rollback_loop_ends) (use assms in simp_all)
  then show ?thesis using rollback_loop_ok [OF _ assms] unfolding eq ends_def by blast
qed

theorem rollback_blockchain_exact_witness:
  "\<exists>scr. rollback_blockchain open_env 1 two_block_chain = (Inr True, one_block_chain scr) \<and> map be_bl (m_blocks (one_block_chain scr)) = [first_block]"
proof -
  obtain scr where pop: "pop_block_from_blockchain open_env two_block_chain = (Inr True, one_block_chain scr)" using second_popped by blast
  have r: "rollback_blockchain open_env 1 two_block_chain = (Inr True, one_block_chain scr)"
    using pop by (simp add: rollback_blockchain_def rollback_blockchain_switching_def blocks_size_def two_block_chain_def)
  then show ?thesis using rollback_blockchain_exact [of two_block_chain open_env 1] by (auto simp: two_block_chain_def first_be_def)
qed

theorem collect_alt_returns:
  assumes "heights_ascend m"
  shows "\<exists>es. collect_alt m h [] = Some es \<and> branch_to m es h \<and> m (branch_root es h) = None"
  by (rule collect_alt_ends [OF assms]) (simp_all add: branch_root_def)

theorem collect_alt_returns_witness:
  "\<exists>es. collect_alt [replicate 32 7 \<mapsto> empty_block_entry sample_block] (replicate 32 7) [] = Some es
    \<and> branch_to [replicate 32 7 \<mapsto> empty_block_entry sample_block] es (replicate 32 7)"
proof -
  have "heights_ascend [replicate 32 7 \<mapsto> empty_block_entry sample_block]"
    by (simp add: heights_ascend_def empty_block_entry_def sample_block_def)
  from collect_alt_returns [OF this] show ?thesis by blast
qed

text \<open>C9: When the first block of a branch is at a height of the main chain, the blocks from that height on
  were disconnected successfully, and the first block of the branch is then accepted up to a listed
  transaction that is not in the pool (header, miner transaction and the transactions listed before it are
  accepted), the switch throws: no rollback happens and the main chain ends at the split.\<close>

theorem failed_switch_truncates:
  assumes "length (m_blocks c) < 2 ^ 32" and "be_height be < blocks_size c"
    and dis: "disconnect_loop env (length (m_blocks c) + 1) (blocks_size c - 1) (be_height be) [] c = (Inr (Some disconnected), c1)"
    and lacks: "lacks_tx env (be_bl be) (get_block_hash (be_bl be)) c1 c2"
  shows "switch_to_alternative_blockchain env handler ((i, be) # rest) c = (Inl Exception, c2)
    \<and> map be_bl (m_blocks c2) = take (unat (be_height be)) (map be_bl (m_blocks c))"
proof -
  have blocks: "map be_bl (m_blocks c1) = take (unat (be_height be)) (map be_bl (m_blocks c))"
    using disconnect_loop_ok [OF dis] assms(1) by simp
  then have "length (m_blocks c1) \<le> length (m_blocks c)" by (metis length_map length_take min.cobounded1)
  then have "length (m_blocks c1) < 2 ^ 32" using assms(1) by simp
  note inc = incomplete_block [OF this lacks]
  have "connect_loop env (be_height be) disconnected ((i, be) # rest) c1 = (Inl Exception, c2)"
    using inc(1) by (simp add: handle_block_to_main_chain_computed_def)
  moreover have "map be_bl (m_blocks c2) = map be_bl (m_blocks c1)" using inc(2) same_blocks_bl by (auto simp: extends_pool_only_def)
  ultimately show ?thesis using assms(2) dis blocks by (simp add: switch_to_alternative_blockchain_def)
qed

theorem failed_switch_truncates_witness:
  "\<exists>c2. switch_to_alternative_blockchain open_env (\<lambda>b i bvc c. (Inr (False, bvc), c)) [(get_block_hash lacking_block, lacking_be)] two_block_chain
      = (Inl Exception, c2) \<and> map be_bl (m_blocks c2) = [first_block] \<and> map be_bl (m_blocks two_block_chain) = [first_block, second_block]"
proof -
  obtain scr where pop: "pop_block_from_blockchain open_env two_block_chain = (Inr True, one_block_chain scr)" using second_popped by blast
  have blocks: "m_blocks two_block_chain = [first_be, second_be]" by (simp add: two_block_chain_def)
  have be: "be_bl lacking_be = lacking_block" "be_height lacking_be = 1"
    by (simp_all add: lacking_be_def lacking_block_def empty_block_entry_def second_fields)
  have dis: "disconnect_loop open_env (length (m_blocks two_block_chain) + 1) (blocks_size two_block_chain - 1) (be_height lacking_be) [] two_block_chain
      = (Inr (Some [second_block]), one_block_chain scr)"
    using pop by (simp add: blocks_size_def blocks be second_fields)
  have "map be_bl (m_blocks two_block_chain) = [first_block, second_block]" by (simp add: blocks second_fields first_be_def)
  then show ?thesis
    using failed_switch_truncates [OF _ _ dis, of "lacking_chain scr" "\<lambda>b i bvc c. (Inr (False, bvc), c)"
        "get_block_hash lacking_block" "[]"] lacking_block_lacks [of "get_block_hash lacking_block" scr]
    by (auto simp: be blocks blocks_size_def)
qed

end
