(* ===== verification/ProtocolHandler.thy ===== *)
theory ProtocolHandler
  imports Chain
begin

text \<open>
  The synchronization protocol of the node: \<open>src/currency_protocol/currency_protocol_handler.inl\<close> with the messages of
  \<open>currency_protocol_defs.h\<close> and the state of a connection from \<open>currency_core/connection_context.h\<close>. The class is a
  template over the core; its calls are the record \<open>core_ops\<close> over a state of any type. One connection is modelled;
  what a handler asks of the network layer, the miner and the wallet is appended to a list of actions. A function
  returns \<open>None\<close> when the core threw an exception, with the state at that point.
\<close>

section \<open>Messages and state\<close>

datatype connection_state = state_befor_handshake | state_synchronizing | state_idle | state_normal

record currency_connection_context =
  m_state :: connection_state
  m_needed_objects :: "hash list"
  m_requested_objects :: "hash set"
  m_remote_blockchain_height :: u64
  m_last_response_height :: u64
  m_callback_request_count :: u32

record block_complete_entry =
  bce_block :: bytes
  bce_txs :: "bytes list"

record notify_new_block =
  nb_b :: block_complete_entry
  nb_current_blockchain_height :: u64
  nb_hop :: u32

record request_get_objects =
  rq_txs :: "hash list"
  rq_blocks :: "hash list"

record response_get_objects =
  rs_txs :: "bytes list"
  rs_blocks :: "block_complete_entry list"
  rs_missed_ids :: "hash list"
  rs_current_blockchain_height :: u64

record response_chain_entry =
  ce_start_height :: u64
  ce_total_height :: u64
  ce_block_ids :: "hash list"

record core_sync_data =
  sd_current_height :: u64
  sd_top_id :: hash
  sd_last_checkpoint_height :: u64

datatype action =
    PostRequestChain "hash list"
  | PostRequestGetObjects request_get_objects
  | PostResponseGetObjects response_get_objects
  | PostResponseChainEntry response_chain_entry
  | RelayBlock notify_new_block
  | RelayTransactions "bytes list"
  | DropConnection
  | AddIpFail
  | RequestCallback
  | PauseMine
  | ResumeMine
  | CoreSynchronized
  | WalletCallback notify_new_block

record 'c core_ops =
  core_have_block :: "hash \<Rightarrow> 'c \<Rightarrow> bool"
  core_height :: "'c \<Rightarrow> u64"
  core_top :: "'c \<Rightarrow> u64 \<times> hash"
  core_top_checkpoint_height :: "'c \<Rightarrow> u64"
  core_short_chain_history :: "'c \<Rightarrow> hash list"
  core_incoming_tx :: "bytes \<Rightarrow> bool \<Rightarrow> 'c \<Rightarrow> tx_verification_context option \<times> 'c"
  core_incoming_block :: "bytes \<Rightarrow> bool \<Rightarrow> 'c \<Rightarrow> block_verification_context option \<times> 'c"
  core_get_objects :: "request_get_objects \<Rightarrow> 'c \<Rightarrow> (bool \<times> response_get_objects) option"
  core_find_supplement :: "hash list \<Rightarrow> 'c \<Rightarrow> response_chain_entry option option"

record 'c protocol_handler =
  m_core :: 'c
  m_synchronized :: bool
  m_max_height_seen :: u64
  m_core_inital_height :: u64
  has_wallet_callback :: bool
  conn :: currency_connection_context
  sent :: "action list"

definition BLOCKS_SYNCHRONIZING_DEFAULT_COUNT :: nat where
  "BLOCKS_SYNCHRONIZING_DEFAULT_COUNT = 200"

definition send :: "action list \<Rightarrow> 'c protocol_handler \<Rightarrow> 'c protocol_handler" where
  "send acts s = s\<lparr>sent := sent s @ acts\<rparr>"

definition set_context ::
  "(currency_connection_context \<Rightarrow> currency_connection_context) \<Rightarrow> 'c protocol_handler \<Rightarrow> 'c protocol_handler" where
  "set_context f s = s\<lparr>conn := f (conn s)\<rparr>"

section \<open>Synchronization\<close>

definition on_connection_synchronized :: "'c protocol_handler \<Rightarrow> 'c protocol_handler" where
  "on_connection_synchronized s =
    (if \<not> m_synchronized s then send [CoreSynchronized] (s\<lparr>m_synchronized := True\<rparr>) else s)"

definition on_callback :: "'c core_ops \<Rightarrow> 'c protocol_handler \<Rightarrow> bool \<times> 'c protocol_handler" where
  "on_callback ops s =
    (if \<not> m_callback_request_count (conn s) > 0 then (False, s)
     else let s = set_context (\<lambda>x. x\<lparr>m_callback_request_count := m_callback_request_count x - 1\<rparr>) s
          in (True, if m_state (conn s) = state_synchronizing
                    then send [PostRequestChain (core_short_chain_history ops (m_core s))] s else s))"

text \<open>The difference of the heights is taken in 64-bit signed arithmetic.\<close>

definition process_payload_sync_data ::
  "'c core_ops \<Rightarrow> core_sync_data \<Rightarrow> bool \<Rightarrow> 'c protocol_handler \<Rightarrow> bool \<times> 'c protocol_handler" where
  "process_payload_sync_data ops hshd is_inital s =
    (let height = core_height ops (m_core s); top_checkpoint = core_top_checkpoint_height ops (m_core s)
     in if m_state (conn s) = state_befor_handshake \<and> \<not> is_inital then (True, s)
        else if m_state (conn s) = state_synchronizing then (True, s)
        else if core_have_block ops (sd_top_id hshd) (m_core s)
        then let s = set_context (\<lambda>x. x\<lparr>m_state := state_normal\<rparr>) s
             in (True, if is_inital then on_connection_synchronized s else s)
        else if sint (sd_current_height hshd - height) < 0 then (True, s)
        else if sd_last_checkpoint_height hshd \<noteq> 0 \<and> top_checkpoint < sd_last_checkpoint_height hshd
            \<and> height < sd_last_checkpoint_height hshd then (False, s)
        else let s = set_context (\<lambda>x. x\<lparr>m_state := state_synchronizing, m_remote_blockchain_height := sd_current_height hshd,
                   m_callback_request_count := m_callback_request_count x + 1\<rparr>) s;
                 s = send [RequestCallback] s;
                 s = (if m_max_height_seen s < sd_current_height hshd then s\<lparr>m_max_height_seen := sd_current_height hshd\<rparr> else s)
             in (True, if m_core_inital_height s = 0 then s\<lparr>m_core_inital_height := height\<rparr> else s))"

definition get_payload_sync_data :: "'c core_ops \<Rightarrow> 'c protocol_handler \<Rightarrow> core_sync_data" where
  "get_payload_sync_data ops s =
    (let (h, top) = core_top ops (m_core s)
     in \<lparr>sd_current_height = h + 1, sd_top_id = top, sd_last_checkpoint_height = core_top_checkpoint_height ops (m_core s)\<rparr>)"

text \<open>The loop of \<open>request_missing_objects\<close>: the objects still needed and those to request.\<close>

fun needed_loop :: "(hash \<Rightarrow> bool) \<Rightarrow> nat \<Rightarrow> hash list \<Rightarrow> hash list \<Rightarrow> hash list \<times> hash list" where
  "needed_loop skip cnt [] blocks = ([], blocks)"
| "needed_loop skip cnt (h # hs) blocks =
    (if \<not> cnt < BLOCKS_SYNCHRONIZING_DEFAULT_COUNT then (h # hs, blocks)
     else if \<not> skip h then needed_loop skip (cnt + 1) hs (blocks @ [h])
     else needed_loop skip cnt hs blocks)"

definition request_missing_objects :: "'c core_ops \<Rightarrow> bool \<Rightarrow> 'c protocol_handler \<Rightarrow> bool \<times> 'c protocol_handler" where
  "request_missing_objects ops check_having_blocks s =
    (if m_needed_objects (conn s) \<noteq> []
     then let (needed, blocks) = needed_loop (\<lambda>h. check_having_blocks \<and> core_have_block ops h (m_core s)) 0 (m_needed_objects (conn s)) [];
              s = set_context (\<lambda>x. x\<lparr>m_needed_objects := needed, m_requested_objects := m_requested_objects x \<union> set blocks\<rparr>) s
          in (True, send [PostRequestGetObjects \<lparr>rq_txs = [], rq_blocks = blocks\<rparr>] s)
     else if m_last_response_height (conn s) < m_remote_blockchain_height (conn s) - 1
     then (True, send [PostRequestChain (core_short_chain_history ops (m_core s))] s)
     else if \<not> (m_last_response_height (conn s) = m_remote_blockchain_height (conn s) - 1 \<and> m_requested_objects (conn s) = {})
     then (False, s)
     else (True, on_connection_synchronized (set_context (\<lambda>x. x\<lparr>m_state := state_normal\<rparr>) s)))"

section \<open>Notifications\<close>

text \<open>The transactions of a block: whether all were accepted.\<close>

fun incoming_txs :: "'c core_ops \<Rightarrow> bytes list \<Rightarrow> 'c protocol_handler \<Rightarrow> bool option \<times> 'c protocol_handler" where
  "incoming_txs ops [] s = (Some True, s)"
| "incoming_txs ops (tx_blob # txs) s =
    (case core_incoming_tx ops tx_blob True (m_core s) of
       (None, c) \<Rightarrow> (None, s\<lparr>m_core := c\<rparr>)
     | (Some tvc, c) \<Rightarrow>
         let s = s\<lparr>m_core := c\<rparr>
         in if m_verifivation_failed tvc then (Some False, s) else incoming_txs ops txs s)"

definition handle_notify_new_block ::
  "'c core_ops \<Rightarrow> notify_new_block \<Rightarrow> 'c protocol_handler \<Rightarrow> unit option \<times> 'c protocol_handler" where
  "handle_notify_new_block ops arg s =
    (if m_state (conn s) \<noteq> state_normal then (Some (), s)
     else case incoming_txs ops (bce_txs (nb_b arg)) s of
            (None, s) \<Rightarrow> (None, s)
          | (Some False, s) \<Rightarrow> (Some (), send [DropConnection] s)
          | (Some True, s) \<Rightarrow>
              let s = send [PauseMine] s
              in case core_incoming_block ops (bce_block (nb_b arg)) True (m_core s) of
                   (None, c) \<Rightarrow> (None, s\<lparr>m_core := c\<rparr>)
                 | (Some bvc, c) \<Rightarrow>
                     let s = send [ResumeMine] (s\<lparr>m_core := c\<rparr>)
                     in if m_bvc_verifivation_failed bvc then (Some (), send [DropConnection] s)
                        else if m_added_to_main_chain bvc
                        then let arg = arg\<lparr>nb_hop := nb_hop arg + 1\<rparr>
                             in (Some (), send (RelayBlock arg # (if has_wallet_callback s then [WalletCallback arg] else [])) s)
                        else if m_marked_as_orphaned bvc
                        then (Some (), send [PostRequestChain (core_short_chain_history ops (m_core s))]
                               (set_context (\<lambda>x. x\<lparr>m_state := state_synchronizing\<rparr>) s))
                        else (Some (), s))"

text \<open>The loop over the transactions keeps those to be relayed; the result is \<open>None\<close> after a failed verification.\<close>

fun new_txs_loop ::
  "'c core_ops \<Rightarrow> bytes list \<Rightarrow> bytes list \<Rightarrow> 'c protocol_handler \<Rightarrow> bytes list option option \<times> 'c protocol_handler" where
  "new_txs_loop ops [] kept s = (Some (Some kept), s)"
| "new_txs_loop ops (tx_blob # txs) kept s =
    (case core_incoming_tx ops tx_blob False (m_core s) of
       (None, c) \<Rightarrow> (None, s\<lparr>m_core := c\<rparr>)
     | (Some tvc, c) \<Rightarrow>
         let s = s\<lparr>m_core := c\<rparr>
         in if m_verifivation_failed tvc then (Some None, s)
            else new_txs_loop ops txs (if m_should_be_relayed tvc then kept @ [tx_blob] else kept) s)"

definition handle_notify_new_transactions ::
  "'c core_ops \<Rightarrow> bytes list \<Rightarrow> 'c protocol_handler \<Rightarrow> unit option \<times> 'c protocol_handler" where
  "handle_notify_new_transactions ops txs s =
    (if m_state (conn s) \<noteq> state_normal then (Some (), s)
     else case new_txs_loop ops txs [] s of
            (None, s) \<Rightarrow> (None, s)
          | (Some None, s) \<Rightarrow> (Some (), send [DropConnection] s)
          | (Some (Some kept), s) \<Rightarrow> (Some (), if kept \<noteq> [] then send [RelayTransactions kept] s else s))"

definition handle_request_get_objects ::
  "'c core_ops \<Rightarrow> request_get_objects \<Rightarrow> 'c protocol_handler \<Rightarrow> unit option \<times> 'c protocol_handler" where
  "handle_request_get_objects ops arg s =
    (case core_get_objects ops arg (m_core s) of
       None \<Rightarrow> (None, s)
     | Some (r, rsp) \<Rightarrow> (Some (), send [PostResponseGetObjects rsp] (if \<not> r then send [DropConnection] s else s)))"

definition handle_request_chain :: "'c core_ops \<Rightarrow> hash list \<Rightarrow> 'c protocol_handler \<Rightarrow> unit option \<times> 'c protocol_handler" where
  "handle_request_chain ops block_ids s =
    (case core_find_supplement ops block_ids (m_core s) of
       None \<Rightarrow> (None, s)
     | Some None \<Rightarrow> (Some (), s)
     | Some (Some r) \<Rightarrow> (Some (), send [PostResponseChainEntry r] s))"

section \<open>Responses\<close>

text \<open>After a total height below the last id the connection is dropped and the handler goes on.\<close>

definition handle_response_chain_entry :: "'c core_ops \<Rightarrow> response_chain_entry \<Rightarrow> 'c protocol_handler \<Rightarrow> 'c protocol_handler" where
  "handle_response_chain_entry ops arg s =
    (if ce_block_ids arg = [] then send [DropConnection, AddIpFail] s
     else if \<not> core_have_block ops (hd (ce_block_ids arg)) (m_core s) then send [DropConnection, AddIpFail] s
     else let s = set_context (\<lambda>x. x\<lparr>m_remote_blockchain_height := ce_total_height arg,
                m_last_response_height := ce_start_height arg + word_of_nat (length (ce_block_ids arg)) - 1\<rparr>) s;
              s = (if m_last_response_height (conn s) > m_remote_blockchain_height (conn s) then send [DropConnection] s else s);
              s = set_context (\<lambda>x. x\<lparr>m_needed_objects :=
                m_needed_objects x @ filter (\<lambda>h. \<not> core_have_block ops h (m_core s)) (ce_block_ids arg)\<rparr>) s
          in snd (request_missing_objects ops False s))"

text \<open>
  The first loop over the blocks of a response: it removes their ids from the requested ones. The second block decides
  whether the connection becomes idle.
\<close>

datatype response_check = Complete "hash set" | Idle "hash set" | Wrong "hash set" "action list"

fun check_blocks :: "'c core_ops \<Rightarrow> 'c \<Rightarrow> nat \<Rightarrow> block_complete_entry list \<Rightarrow> hash set \<Rightarrow> response_check" where
  "check_blocks ops c cnt [] requested = Complete requested"
| "check_blocks ops c cnt (e # es) requested =
    (let cnt = cnt + 1
     in case parse_and_validate_block_from_blob (bce_block e) of
          None \<Rightarrow> Wrong requested [DropConnection, AddIpFail]
        | Some b \<Rightarrow>
            if cnt = 2 \<and> core_have_block ops (get_block_hash b) c then Idle requested
            else if get_block_hash b \<notin> requested then Wrong requested [DropConnection]
            else if length (tx_hashes b) \<noteq> length (bce_txs e) then Wrong requested [DropConnection]
            else check_blocks ops c cnt es (requested - {get_block_hash b}))"

text \<open>The second loop: whether all blocks were processed.\<close>

fun process_blocks :: "'c core_ops \<Rightarrow> block_complete_entry list \<Rightarrow> 'c protocol_handler \<Rightarrow> bool option \<times> 'c protocol_handler" where
  "process_blocks ops [] s = (Some True, s)"
| "process_blocks ops (e # es) s =
    (case incoming_txs ops (bce_txs e) s of
       (None, s) \<Rightarrow> (None, s)
     | (Some False, s) \<Rightarrow> (Some False, send [DropConnection] s)
     | (Some True, s) \<Rightarrow>
         (case core_incoming_block ops (bce_block e) False (m_core s) of
            (None, c) \<Rightarrow> (None, s\<lparr>m_core := c\<rparr>)
          | (Some bvc, c) \<Rightarrow>
              let s = s\<lparr>m_core := c\<rparr>
              in if m_bvc_verifivation_failed bvc then (Some False, send [DropConnection, AddIpFail] s)
                 else if m_marked_as_orphaned bvc then (Some False, send [DropConnection, AddIpFail] s)
                 else process_blocks ops es s))"

text \<open>The scope guard resumes mining on every path.\<close>

definition handle_response_get_objects ::
  "'c core_ops \<Rightarrow> response_get_objects \<Rightarrow> 'c protocol_handler \<Rightarrow> unit option \<times> 'c protocol_handler" where
  "handle_response_get_objects ops arg s =
    (if m_last_response_height (conn s) > rs_current_blockchain_height arg then (Some (), send [DropConnection] s)
     else let s = set_context (\<lambda>x. x\<lparr>m_remote_blockchain_height := rs_current_blockchain_height arg\<rparr>) s;
              requested = (\<lambda>r. set_context (\<lambda>x. x\<lparr>m_requested_objects := r\<rparr>))
          in case check_blocks ops (m_core s) 0 (rs_blocks arg) (m_requested_objects (conn s)) of
               Wrong r acts \<Rightarrow> (Some (), send acts (requested r s))
             | Idle r \<Rightarrow>
                 (Some (), set_context (\<lambda>x. x\<lparr>m_state := state_idle, m_needed_objects := [], m_requested_objects := {}\<rparr>) s)
             | Complete r \<Rightarrow>
                 let s = requested r s
                 in if r \<noteq> {} then (Some (), send [DropConnection] s)
                    else case process_blocks ops (rs_blocks arg) (send [PauseMine] s) of
                           (None, s) \<Rightarrow> (None, send [ResumeMine] s)
                         | (Some False, s) \<Rightarrow> (Some (), send [ResumeMine] s)
                         | (Some True, s) \<Rightarrow> (Some (), snd (request_missing_objects ops True (send [ResumeMine] s))))"

section \<open>Batches of requested blocks\<close>

lemma needed_loop_batch:
  assumes "cnt \<le> BLOCKS_SYNCHRONIZING_DEFAULT_COUNT"
  shows "\<exists>k. needed_loop skip cnt hs bl = (drop k hs, bl @ filter (\<lambda>h. \<not> skip h) (take k hs))
    \<and> cnt + length (filter (\<lambda>h. \<not> skip h) (take k hs)) \<le> BLOCKS_SYNCHRONIZING_DEFAULT_COUNT
    \<and> (drop k hs \<noteq> [] \<longrightarrow> cnt + length (filter (\<lambda>h. \<not> skip h) (take k hs)) = BLOCKS_SYNCHRONIZING_DEFAULT_COUNT)
    \<and> (hs \<noteq> [] \<and> cnt < BLOCKS_SYNCHRONIZING_DEFAULT_COUNT \<longrightarrow> 0 < k)"
  using assms
proof (induction hs arbitrary: cnt bl)
  case (Cons h hs)
  show ?case
  proof (cases "cnt < BLOCKS_SYNCHRONIZING_DEFAULT_COUNT")
    case True
    let ?c = "if skip h then cnt else cnt + 1"
    let ?b = "if skip h then bl else bl @ [h]"
    have eq: "needed_loop skip cnt (h # hs) bl = needed_loop skip ?c hs ?b" using True by simp
    obtain k where k: "needed_loop skip ?c hs ?b = (drop k hs, ?b @ filter (\<lambda>h. \<not> skip h) (take k hs))"
      "?c + length (filter (\<lambda>h. \<not> skip h) (take k hs)) \<le> BLOCKS_SYNCHRONIZING_DEFAULT_COUNT"
      "drop k hs \<noteq> [] \<longrightarrow> ?c + length (filter (\<lambda>h. \<not> skip h) (take k hs)) = BLOCKS_SYNCHRONIZING_DEFAULT_COUNT"
      using Cons.IH [of ?c ?b] True Cons.prems by (cases "skip h") auto
    show ?thesis unfolding eq k(1) using k(2,3) by (intro exI [of _ "Suc k"]) auto
  next
    case False
    then show ?thesis using Cons.prems by (intro exI [of _ 0]) simp
  qed
qed simp

section \<open>Only requested blocks\<close>

lemma check_blocks_Complete:
  assumes "check_blocks ops c n es req = Complete r"
  shows "\<exists>bs. map (\<lambda>e. parse_and_validate_block_from_blob (bce_block e)) es = map Some bs \<and> distinct (map get_block_hash bs)
    \<and> set (map get_block_hash bs) \<subseteq> req \<and> r = req - set (map get_block_hash bs)
    \<and> map (\<lambda>b. length (tx_hashes b)) bs = map (\<lambda>e. length (bce_txs e)) es"
  using assms
proof (induction es arbitrary: n req)
  case (Cons e es)
  obtain b where b: "parse_and_validate_block_from_blob (bce_block e) = Some b" "get_block_hash b \<in> req"
    "length (tx_hashes b) = length (bce_txs e)" "check_blocks ops c (n + 1) es (req - {get_block_hash b}) = Complete r"
    using Cons.prems by (auto simp: Let_def split: option.splits if_splits)
  from Cons.IH [OF b(4)] obtain bs where bs: "map (\<lambda>e. parse_and_validate_block_from_blob (bce_block e)) es = map Some bs"
    "distinct (map get_block_hash bs)" "set (map get_block_hash bs) \<subseteq> req - {get_block_hash b}"
    "r = req - {get_block_hash b} - set (map get_block_hash bs)" "map (\<lambda>b. length (tx_hashes b)) bs = map (\<lambda>e. length (bce_txs e)) es" by blast
  then show ?case using b by (intro exI [of _ "b # bs"]) auto
qed auto

lemma handler_fields [simp]:
  "m_core (send a s) = m_core s" "m_core (set_context f s) = m_core s" "conn (send a s) = conn s" "conn (set_context f s) = f (conn s)"
  "sent (send a s) = sent s @ a" "sent (set_context f s) = sent s" "m_synchronized (send a s) = m_synchronized s"
  "m_synchronized (set_context f s) = m_synchronized s"
  by (simp_all add: send_def set_context_def)

lemma request_missing_core [simp]: "m_core (snd (request_missing_objects ops chk s)) = m_core s"
  by (simp add: request_missing_objects_def on_connection_synchronized_def split: prod.splits)

section \<open>The miner and the core\<close>

text \<open>Mining is resumed as often as it is paused, and the core is told once that the node is synchronized.\<close>

definition balanced :: "'c protocol_handler \<Rightarrow> bool" where
  "balanced s \<longleftrightarrow> count_list (sent s) PauseMine = count_list (sent s) ResumeMine
     \<and> count_list (sent s) CoreSynchronized = of_bool (m_synchronized s)"

lemma count_list_quiet: "x \<notin> set acts \<Longrightarrow> count_list (xs @ acts) x = count_list xs x"
  by (simp add: count_list_append count_list_0_iff)

lemma balanced_quiet:
  assumes "balanced s" and "sent s' = sent s @ acts" and "set acts \<inter> {PauseMine, ResumeMine, CoreSynchronized} = {}"
    and "m_synchronized s' = m_synchronized s"
  shows "balanced s'"
  using assms by (auto simp: balanced_def count_list_quiet)

lemma balanced_same: "balanced s \<Longrightarrow> sent s' = sent s \<Longrightarrow> m_synchronized s' = m_synchronized s \<Longrightarrow> balanced s'"
  by (rule balanced_quiet [where acts = "[]"]) simp_all

lemma balanced_synchronized: "balanced s \<Longrightarrow> balanced (on_connection_synchronized s)"
  by (auto simp: on_connection_synchronized_def balanced_def send_def)

lemma balanced_set_context [simp]: "balanced (set_context f s) = balanced s"
  by (simp add: balanced_def)

lemma balanced_send: "balanced s \<Longrightarrow> set acts \<inter> {PauseMine, ResumeMine, CoreSynchronized} = {} \<Longrightarrow> balanced (send acts s)"
  by (rule balanced_quiet) simp_all

lemma balanced_request_missing: "balanced s \<Longrightarrow> balanced (snd (request_missing_objects ops chk s))"
  by (auto simp: request_missing_objects_def balanced_synchronized intro!: balanced_send split: prod.splits)

lemma incoming_txs_keeps:
  "sent (snd (incoming_txs ops txs s)) = sent s \<and> m_synchronized (snd (incoming_txs ops txs s)) = m_synchronized s"
  by (induction txs arbitrary: s) (auto simp: Let_def split: prod.splits option.splits)

lemma new_txs_keeps:
  "sent (snd (new_txs_loop ops txs kept s)) = sent s \<and> m_synchronized (snd (new_txs_loop ops txs kept s)) = m_synchronized s"
  by (induction txs arbitrary: kept s) (auto simp: Let_def split: prod.splits option.splits)

lemma process_blocks_sent:
  "\<exists>acts. sent (snd (process_blocks ops es s)) = sent s @ acts \<and> set acts \<subseteq> {DropConnection, AddIpFail}
    \<and> m_synchronized (snd (process_blocks ops es s)) = m_synchronized s"
proof (induction es arbitrary: s)
  case (Cons e es)
  obtain r s1 where s1: "incoming_txs ops (bce_txs e) s = (r, s1)" by fastforce
  have keep: "sent s1 = sent s" "m_synchronized s1 = m_synchronized s" using incoming_txs_keeps [of ops "bce_txs e" s] by (simp_all add: s1)
  obtain rb c where rb: "core_incoming_block ops (bce_block e) False (m_core s1) = (rb, c)" by fastforce
  show ?case
    using Cons.IH [of "s1\<lparr>m_core := c\<rparr>"] keep
    by (auto simp: s1 rb Let_def split: option.splits bool.splits)
qed simp

section \<open>Transitions\<close>

definition handler_init :: "'c protocol_handler \<Rightarrow> bool" where
  "handler_init s \<longleftrightarrow> sent s = [] \<and> \<not> m_synchronized s"

text \<open>A step handles one message or callback; calls during which the core throws are not steps.\<close>

inductive handler_step :: "'c core_ops \<Rightarrow> 'c protocol_handler \<Rightarrow> 'c protocol_handler \<Rightarrow> bool" for ops where
  Callback: "handler_step ops s (snd (on_callback ops s))"
| SyncData: "handler_step ops s (snd (process_payload_sync_data ops d i s))"
| NewBlock: "handle_notify_new_block ops arg s = (Some (), s') \<Longrightarrow> handler_step ops s s'"
| NewTxs: "handle_notify_new_transactions ops txs s = (Some (), s') \<Longrightarrow> handler_step ops s s'"
| RequestObjects: "handler_step ops s (snd (handle_request_get_objects ops rq s))"
| RequestChain: "handler_step ops s (snd (handle_request_chain ops ids s))"
| ChainEntry: "handler_step ops s (handle_response_chain_entry ops ce s)"
| Objects: "handle_response_get_objects ops rs s = (Some (), s') \<Longrightarrow> handler_step ops s s'"

lemma balanced_new_block:
  assumes "balanced s" and "handle_notify_new_block ops arg s = (Some (), s')"
  shows "balanced s'"
proof -
  obtain r s1 where s1: "incoming_txs ops (bce_txs (nb_b arg)) s = (r, s1)" by fastforce
  have b1: "balanced s1" using incoming_txs_keeps [of ops "bce_txs (nb_b arg)" s] assms(1) by (auto simp: s1 intro: balanced_same)
  obtain rb c where rb: "core_incoming_block ops (bce_block (nb_b arg)) True (m_core s1) = (rb, c)" by fastforce
  have b2: "balanced (send [ResumeMine] (send [PauseMine] s1\<lparr>m_core := c\<rparr>))"
    using b1 by (simp add: balanced_def send_def)
  show ?thesis
    using assms b1 b2 by (auto simp: handle_notify_new_block_def s1 rb Let_def intro!: balanced_send split: if_splits option.splits bool.splits)
qed

lemma balanced_objects:
  assumes "balanced s" and "handle_response_get_objects ops rs s = (Some (), s')"
  shows "balanced s'"
proof (cases "m_last_response_height (conn s) > rs_current_blockchain_height rs")
  case False
  let ?s = "set_context (\<lambda>x. x\<lparr>m_remote_blockchain_height := rs_current_blockchain_height rs\<rparr>) s"
  show ?thesis
  proof (cases "check_blocks ops (m_core ?s) 0 (rs_blocks rs) (m_requested_objects (conn ?s))")
    case (Complete r)
    let ?s1 = "set_context (\<lambda>x. x\<lparr>m_requested_objects := r\<rparr>) ?s"
    obtain res s2 where s2: "process_blocks ops (rs_blocks rs) (send [PauseMine] ?s1) = (res, s2)" by fastforce
    obtain acts where acts: "sent s2 = sent s @ PauseMine # acts" "set acts \<subseteq> {DropConnection, AddIpFail}" "m_synchronized s2 = m_synchronized s"
      using process_blocks_sent [of ops "rs_blocks rs" "send [PauseMine] ?s1"] by (auto simp: s2)
    have "count_list acts PauseMine = 0" "count_list acts ResumeMine = 0" "count_list acts CoreSynchronized = 0"
      using acts(2) by (auto simp: count_list_0_iff)
    then have "balanced (send [ResumeMine] s2)" using assms(1) acts by (simp add: balanced_def)
    then show ?thesis
      using assms False Complete s2
      by (auto simp: handle_response_get_objects_def Let_def balanced_request_missing intro!: balanced_send split: if_splits option.splits bool.splits)
  next
    case (Wrong r acts)
    have "check_blocks ops c n es q = Wrong r acts \<Longrightarrow> set acts \<subseteq> {DropConnection, AddIpFail}" for c n es q
      by (induction es arbitrary: n q) (auto simp: Let_def split: option.splits if_splits)
    from this [OF Wrong] show ?thesis
      using assms False Wrong by (auto simp: handle_response_get_objects_def Let_def intro!: balanced_send)
  qed (use assms False in \<open>auto simp: handle_response_get_objects_def Let_def\<close>)
qed (use assms in \<open>auto simp: handle_response_get_objects_def intro: balanced_send\<close>)

lemma balanced_sync_data: "balanced s \<Longrightarrow> balanced (snd (process_payload_sync_data ops d i s))"
  by (auto simp: process_payload_sync_data_def Let_def balanced_synchronized intro: balanced_send)
    (auto simp: balanced_def)

lemma balanced_chain_entry: "balanced s \<Longrightarrow> balanced (handle_response_chain_entry ops ce s)"
  by (auto simp: handle_response_chain_entry_def Let_def intro!: balanced_send balanced_request_missing)

lemma balanced_new_txs:
  assumes "balanced s" and "handle_notify_new_transactions ops txs s = (Some (), s')"
  shows "balanced s'"
proof -
  obtain r s1 where s1: "new_txs_loop ops txs [] s = (r, s1)" by fastforce
  have "balanced s1" using new_txs_keeps [of ops txs "[]" s] assms(1) by (auto simp: s1 intro: balanced_same)
  then show ?thesis
    using assms by (auto simp: handle_notify_new_transactions_def s1 intro!: balanced_send split: if_splits option.splits)
qed

lemma balanced_requests:
  "balanced s \<Longrightarrow> balanced (snd (on_callback ops s))" "balanced s \<Longrightarrow> balanced (snd (handle_request_get_objects ops rq s))"
  "balanced s \<Longrightarrow> balanced (snd (handle_request_chain ops ids s))"
  by (auto simp: on_callback_def handle_request_get_objects_def handle_request_chain_def Let_def intro!: balanced_send split: prod.splits option.splits)

lemmas balanced_intros = balanced_requests balanced_sync_data balanced_chain_entry balanced_new_block balanced_new_txs balanced_objects

interpretation handler: invariant_system handler_init "handler_step ops" balanced for ops :: "'c core_ops"
proof
  show "handler_init s \<Longrightarrow> balanced s" for s :: "'c protocol_handler" by (simp add: handler_init_def balanced_def)
  show "balanced s \<Longrightarrow> handler_step ops s s' \<Longrightarrow> balanced s'" for s s' :: "'c protocol_handler"
    by (erule handler_step.cases) (blast intro: balanced_intros)+
qed

end
