(* ===== verification/ChainQuery.thy ===== *)
theory ChainQuery
  imports ChainReorg ProtocolHandler
begin

text \<open>
  The queries of \<open>src/currency_core/blockchain_storage.cpp\<close> that answer other nodes and the wallet: histories,
  supplements, blocks and transactions by id, outputs, donations; and the functions that drop the signatures of old
  transactions and start a new chain. An exception is a value of the error type. The results of the functions that fill
  a container and return a flag are pairs or options.
\<close>

definition BLOCKS_IDS_SYNCHRONIZING_DEFAULT_COUNT :: nat where
  "BLOCKS_IDS_SYNCHRONIZING_DEFAULT_COUNT = 10000"

definition CURRENCY_BLOCK_PER_DAY :: nat where
  "CURRENCY_BLOCK_PER_DAY = (60 * 60 * 24) div unat (DIFFICULTY_TARGET :: u64)"

definition BLOCK_FLAGS_SUPPRESS_DONATION :: u8 where
  "BLOCK_FLAGS_SUPPRESS_DONATION = 1"

section \<open>The history of the chain\<close>

definition get_top_block_id_height :: "blockchain_storage \<Rightarrow> u64 \<times> hash" where
  "get_top_block_id_height c = (blocks_size c - 1, get_top_block_id c)"

definition block_ids :: "blockchain_storage \<Rightarrow> hash list" where
  "block_ids c = map (\<lambda>be. get_block_hash (be_bl be)) (m_blocks c)"

text \<open>The loop is the one of \<open>getShortChainHistory\<close>, over the blocks instead of the index.\<close>

definition get_short_chain_history :: "blockchain_storage \<Rightarrow> hash list option" where
  "get_short_chain_history c =
    (let sz = blocks_size c
     in if sz = 0 then Some []
        else case history_loop (block_ids c) sz 0 1 1 False [] of
               None \<Rightarrow> None
             | Some (genesis_included, ids) \<Rightarrow> Some (if genesis_included then ids else ids @ [block_ids c ! 0]))"

text \<open>\<open>Inr None\<close> is the return value \<open>false\<close>.\<close>

definition find_supplement_offset :: "hash list \<Rightarrow> blockchain_storage \<Rightarrow> exn + u64 option" where
  "find_supplement_offset qblock_ids c =
    (if qblock_ids = [] then Inr None
     else if m_blocks c = [] then Inl Exception
     else if last qblock_ids \<noteq> get_block_hash (be_bl (m_blocks c ! 0)) then Inr None
     else Inr (map_option (getBlockHeight_or_not_found (m_blocks_index c))
       (find (\<lambda>h. getBlockHeight_or_not_found (m_blocks_index c) h \<noteq> HEIGHT_NOT_FOUND) qblock_ids)))"

definition find_blockchain_supplement :: "hash list \<Rightarrow> blockchain_storage \<Rightarrow> exn + response_chain_entry option" where
  "find_blockchain_supplement qblock_ids c =
    (case find_supplement_offset qblock_ids c of
       Inl e \<Rightarrow> Inl e
     | Inr None \<Rightarrow> Inr None
     | Inr (Some start_height) \<Rightarrow>
         if length (m_blocks c) < unat start_height then Inl Exception
         else Inr (Some \<lparr>ce_start_height = start_height, ce_total_height = blocks_size c,
           ce_block_ids = map (\<lambda>be. get_block_hash (be_bl be))
             (take BLOCKS_IDS_SYNCHRONIZING_DEFAULT_COUNT (drop (unat start_height) (m_blocks c)))\<rparr>))"

section \<open>Blocks and transactions by id\<close>

fun get_blocks_by_id :: "hash list \<Rightarrow> block list \<Rightarrow> hash list \<Rightarrow> blockchain_storage \<Rightarrow> bool \<times> block list \<times> hash list" where
  "get_blocks_by_id [] blocks missed_bs c = (True, blocks, missed_bs)"
| "get_blocks_by_id (bl_id # ids) blocks missed_bs c =
    (let nHeight = getBlockHeight_or_not_found (m_blocks_index c) bl_id
     in if HEIGHT_NOT_FOUND = nHeight then get_blocks_by_id ids blocks (missed_bs @ [bl_id]) c
        else if \<not> unat nHeight < length (m_blocks c) then (False, blocks, missed_bs)
        else get_blocks_by_id ids (blocks @ [be_bl (m_blocks c ! unat nHeight)]) missed_bs c)"

fun get_transactions_by_id ::
  "hash list \<Rightarrow> transaction list \<Rightarrow> hash list \<Rightarrow> blockchain_storage \<Rightarrow> exn + (transaction list \<times> hash list)" where
  "get_transactions_by_id [] txs missed_txs c = Inr (txs, missed_txs)"
| "get_transactions_by_id (tx_id # ids) txs missed_txs c =
    (case m_transaction_map c tx_id of
       None \<Rightarrow>
         (case get_transaction_from_pool tx_id (m_tx_pool c) of
            None \<Rightarrow> get_transactions_by_id ids txs (missed_txs @ [tx_id]) c
          | Some tx \<Rightarrow> get_transactions_by_id ids (txs @ [tx]) missed_txs c)
     | Some idx \<Rightarrow>
         (case transactionByIndex c idx of
            Inl e \<Rightarrow> Inl e
          | Inr txe \<Rightarrow> get_transactions_by_id ids (txs @ [ce_tx txe]) missed_txs c))"

text \<open>The loop over the found blocks: their entries and the missed ids. The check for missed transactions looks at another list, which stays empty.\<close>

fun objects_loop ::
  "block list \<Rightarrow> block_complete_entry list \<Rightarrow> hash list \<Rightarrow> blockchain_storage \<Rightarrow> exn + (block_complete_entry list \<times> hash list)" where
  "objects_loop [] es missed_ids c = Inr (es, missed_ids)"
| "objects_loop (bl # bls) es missed_ids c =
    (case get_transactions_by_id (tx_hashes bl) [] missed_ids c of
       Inl e \<Rightarrow> Inl e
     | Inr (txs, missed_ids) \<Rightarrow>
         objects_loop bls (es @ [\<lparr>bce_block = block_to_blob bl, bce_txs = map tx_to_blob txs\<rparr>]) missed_ids c)"

text \<open>The result of \<open>get_blocks\<close> is ignored.\<close>

definition handle_get_objects :: "request_get_objects \<Rightarrow> blockchain_storage \<Rightarrow> exn + (bool \<times> response_get_objects)" where
  "handle_get_objects arg c =
    (let (_, blocks, missed_ids) = get_blocks_by_id (rq_blocks arg) [] [] c
     in case objects_loop blocks [] missed_ids c of
          Inl e \<Rightarrow> Inl e
        | Inr (es, missed_ids) \<Rightarrow>
            (case get_transactions_by_id (rq_txs arg) [] missed_ids c of
               Inl e \<Rightarrow> Inl e
             | Inr (txs, missed_ids) \<Rightarrow>
                 Inr (True, \<lparr>rs_txs = map tx_to_blob txs, rs_blocks = es, rs_missed_ids = missed_ids, rs_current_blockchain_height = blocks_size c\<rparr>)))"

text \<open>The upper bound of the loop wraps around.\<close>

definition get_blocks_range :: "u64 \<Rightarrow> u64 \<Rightarrow> blockchain_storage \<Rightarrow> block list option" where
  "get_blocks_range start_offset cnt c =
    (if length (m_blocks c) \<le> unat start_offset then None
     else Some (map be_bl (take (unat (start_offset + cnt) - unat start_offset) (drop (unat start_offset) (m_blocks c)))))"

text \<open>Both loops that collect blocks with their transactions; \<open>Inr None\<close> if a transaction is missing.\<close>

fun blocks_with_txs :: "block_entry list \<Rightarrow> blockchain_storage \<Rightarrow> exn + (block \<times> transaction list) list option" where
  "blocks_with_txs [] c = Inr (Some [])"
| "blocks_with_txs (be # bes) c =
    (case get_transactions_by_id (tx_hashes (be_bl be)) [] [] c of
       Inl e \<Rightarrow> Inl e
     | Inr (txs, missed) \<Rightarrow>
         if missed \<noteq> [] then Inr None
         else case blocks_with_txs bes c of
                Inr (Some r) \<Rightarrow> Inr (Some ((be_bl be, txs) # r))
              | r \<Rightarrow> r)"

definition get_blocks_range_txs :: "u64 \<Rightarrow> u64 \<Rightarrow> blockchain_storage \<Rightarrow> exn + (block \<times> transaction list) list option" where
  "get_blocks_range_txs start_offset cnt c =
    (if length (m_blocks c) \<le> unat start_offset then Inr None
     else blocks_with_txs (take (unat (start_offset + cnt) - unat start_offset) (drop (unat start_offset) (m_blocks c))) c)"

text \<open>Result: the total height, the start height and the blocks with their transactions.\<close>

definition find_blockchain_supplement_full ::
  "hash list \<Rightarrow> nat \<Rightarrow> blockchain_storage \<Rightarrow> exn + (u64 \<times> u64 \<times> (block \<times> transaction list) list) option" where
  "find_blockchain_supplement_full qblock_ids max_count c =
    (case find_supplement_offset qblock_ids c of
       Inl e \<Rightarrow> Inl e
     | Inr None \<Rightarrow> Inr None
     | Inr (Some start_height) \<Rightarrow>
         if length (m_blocks c) < unat start_height then Inl Exception
         else (case blocks_with_txs (take max_count (drop (unat start_height) (m_blocks c))) c of
                 Inl e \<Rightarrow> Inl e
               | Inr None \<Rightarrow> Inr None
               | Inr (Some bs) \<Rightarrow> Inr (Some (blocks_size c, start_height, bs))))"

section \<open>Other queries\<close>

fun outs_loop :: "(transaction_index \<times> 16 word) list \<Rightarrow> public_key list \<Rightarrow> blockchain_storage \<Rightarrow> exn + (bool \<times> public_key list)" where
  "outs_loop [] pkeys c = Inr (True, pkeys)"
| "outs_loop ((idx, out_i) # outs) pkeys c =
    (case transactionByIndex c idx of
       Inl e \<Rightarrow> Inl e
     | Inr txe \<Rightarrow>
         let tx = ce_tx txe
         in if m_transaction_map c (get_transaction_hash tx) = None then Inr (False, pkeys)
            else if \<not> length (vout tx) > unat out_i then Inr (False, pkeys)
            else case o_target (vout tx ! unat out_i) of
                   TxoutToKey k \<Rightarrow> outs_loop outs (pkeys @ [tk_key k]) c
                 | _ \<Rightarrow> Inr (False, pkeys))"

definition get_outs :: "u64 \<Rightarrow> blockchain_storage \<Rightarrow> exn + (bool \<times> public_key list)" where
  "get_outs amount c = (case m_outputs c amount of None \<Rightarrow> Inr (True, []) | Some outs \<Rightarrow> outs_loop outs [] c)"

definition block_difficulty :: "u64 \<Rightarrow> blockchain_storage \<Rightarrow> u128" where
  "block_difficulty i c =
    (if \<not> unat i < length (m_blocks c) then 0
     else if i = 0 then cumulative_difficulty (m_blocks c ! unat i)
     else cumulative_difficulty (m_blocks c ! unat i) - cumulative_difficulty (m_blocks c ! unat (i - 1)))"

text \<open>Exceptions are caught; \<open>None\<close> is the return value \<open>false\<close>.\<close>

definition get_required_donations_value_for_next_block :: "blockchain_storage \<Rightarrow> u64 option" where
  "get_required_donations_value_for_next_block c =
    (let sz = length (m_blocks c)
     in if sz < CURRENCY_DONATIONS_INTERVAL \<or> sz mod CURRENCY_DONATIONS_INTERVAL \<noteq> 0 then None
        else let donation_votes = map (\<lambda>be. and (flags (be_bl be)) BLOCK_FLAGS_SUPPRESS_DONATION = 0) (drop (sz - CURRENCY_DONATIONS_INTERVAL) (m_blocks c))
             in get_donations_anount_for_day (already_donated_coins (last (m_blocks c))) donation_votes)"

definition validate_donations_value :: "u64 \<Rightarrow> u64 \<Rightarrow> blockchain_storage \<Rightarrow> bool" where
  "validate_donations_value donation royalty c =
    (case get_required_donations_value_for_next_block c of
       None \<Rightarrow> False
     | Some expected_don_total \<Rightarrow>
         if donation + royalty \<noteq> expected_don_total then False
         else let (expected_royalty, expected_donation) = get_donation_parts expected_don_total
              in expected_royalty = royalty \<and> expected_donation = donation)"

fun daily_loop :: "hash list \<Rightarrow> u64 \<Rightarrow> u64 \<Rightarrow> blockchain_storage \<Rightarrow> exn + (bool \<times> u64 \<times> u64)" where
  "daily_loop [] daily_cnt daily_volume c = Inr (True, daily_cnt, daily_volume)"
| "daily_loop (h # hs) daily_cnt daily_volume c =
    (let daily_cnt = daily_cnt + 1
     in case m_transaction_map c h of
          None \<Rightarrow> Inr (False, daily_cnt, daily_volume)
        | Some idx \<Rightarrow>
            (case transactionByIndex c idx of
               Inl e \<Rightarrow> Inl e
             | Inr txe \<Rightarrow>
                 (case get_inputs_money_amount (ce_tx txe) of
                    None \<Rightarrow> Inr (False, daily_cnt, daily_volume)
                  | Some am \<Rightarrow> daily_loop hs daily_cnt (daily_volume + am) c)))"

definition get_transactions_daily_stat :: "blockchain_storage \<Rightarrow> exn + (bool \<times> u64 \<times> u64)" where
  "get_transactions_daily_stat c =
    daily_loop (concat (map (\<lambda>be. tx_hashes (be_bl be)) (drop (length (m_blocks c) - CURRENCY_BLOCK_PER_DAY) (m_blocks c)))) 0 0 c"

definition copy_scratchpad :: "bytes \<Rightarrow> blockchain_storage \<Rightarrow> bytes" where
  "copy_scratchpad dst c = dst @ concat (m_scratchpad c)"

text \<open>The block at a height of the branch; \<open>Inr None\<close> is the return value \<open>false\<close>.\<close>

definition get_block_for_scratchpad_alt :: "u64 \<Rightarrow> u64 \<Rightarrow> alt_entry list \<Rightarrow> blockchain_storage \<Rightarrow> exn + block option" where
  "get_block_for_scratchpad_alt connection_height block_index alt_chain c =
    (if block_index \<ge> connection_height
     then Inr (map_option (\<lambda>e. be_bl (snd e)) (find (\<lambda>e. be_height (snd e) = block_index) alt_chain))
     else if length (m_blocks c) \<le> unat block_index then Inl Exception
     else Inr (Some (be_bl (m_blocks c ! unat block_index))))"

section \<open>Pruning and resetting\<close>

text \<open>Result: the return value and the numbers of pruned transactions and signatures.\<close>

fun prune_loop :: "u64 \<Rightarrow> hash list \<Rightarrow> u64 \<Rightarrow> u64 \<Rightarrow> blockchain_storage \<Rightarrow> (bool \<times> u64 \<times> u64) effect" where
  "prune_loop height [] transactions_pruned signatures_pruned c = (Inr (True, transactions_pruned, signatures_pruned), c)"
| "prune_loop height (h # hs) transactions_pruned signatures_pruned c =
    (case m_transaction_map c h of
       None \<Rightarrow> (Inr (False, transactions_pruned, signatures_pruned), c)
     | Some idx \<Rightarrow>
         (case transactionByIndex c idx of
            Inl e \<Rightarrow> (Inl e, c)
          | Inr txe \<Rightarrow>
              if m_keeper_block_height txe \<noteq> height then (Inr (False, transactions_pruned, signatures_pruned), c)
              else prune_loop height hs (transactions_pruned + 1) (signatures_pruned + word_of_nat (length (signatures (ce_tx txe))))
                     (set_entry c idx (txe\<lparr>ce_tx := (ce_tx txe)\<lparr>signatures := []\<rparr>\<rparr>))))"

definition prune_ring_signatures :: "u64 \<Rightarrow> u64 \<Rightarrow> u64 \<Rightarrow> blockchain_storage \<Rightarrow> (bool \<times> u64 \<times> u64) effect" where
  "prune_ring_signatures height transactions_pruned signatures_pruned c =
    (if \<not> unat height < length (m_blocks c) then (Inr (False, transactions_pruned, signatures_pruned), c)
     else prune_loop height (tx_hashes (be_bl (m_blocks c ! unat height))) transactions_pruned signatures_pruned c)"

definition reset_and_set_genesis_block :: "chain_env \<Rightarrow> nat \<Rightarrow> block \<Rightarrow> blockchain_storage \<Rightarrow> bool effect" where
  "reset_and_set_genesis_block env n b c =
    and_next (add_new_block env n b no_block_verification ((clear_all_cache_data c)\<lparr>m_blocks := []\<rparr>)) (\<lambda>(_, bvc) c.
      (Inr (m_added_to_main_chain bvc \<and> \<not> m_bvc_verifivation_failed bvc), c))"

section \<open>A consistent chain serves its blocks\<close>

lemma find_SomeD: "find P xs = Some x \<Longrightarrow> x \<in> set xs \<and> P x"
  by (metis find_Some_iff nth_mem)

lemma chain_index_inv:
  assumes "chain_ok c" and "length (m_blocks c) < 2 ^ 32"
  shows "bi_inv (m_blocks_index c)" and "m_container (m_blocks_index c) = block_ids c" and "length (block_ids c) = length (m_blocks c)"
  using assms chain_okD(2,3) [OF assms(1)] by (simp_all add: bi_inv_def block_ids_def)

lemma height_found:
  assumes "chain_ok c" and "length (m_blocks c) < 2 ^ 32" and "h \<in> set (block_ids c)"
  obtains n where "n < length (m_blocks c)" and "get_block_hash (be_bl (m_blocks c ! n)) = h"
    and "getBlockHeight_or_not_found (m_blocks_index c) h = word_of_nat n" and "word_of_nat n \<noteq> HEIGHT_NOT_FOUND"
    and "unat (word_of_nat n :: u64) = n"
proof -
  note ix = chain_index_inv [OF assms(1,2)]
  obtain n where n: "n < length (m_blocks c)" "block_ids c ! n = h" using assms(3) ix(3) by (metis in_set_conv_nth)
  have u: "unat (word_of_nat n :: u64) = n" using n(1) assms(2) by (simp add: unat_of_nat_small)
  have "getBlockHeight (m_blocks_index c) h = Some (word_of_nat n)" using getBlockHeight_iff [OF ix(1)] n ix(2,3) u by simp
  moreover have "(word_of_nat n :: u64) \<noteq> HEIGHT_NOT_FOUND"
  proof
    assume "(word_of_nat n :: u64) = HEIGHT_NOT_FOUND"
    moreover have "unat (HEIGHT_NOT_FOUND :: u64) = 2 ^ 64 - 1"
      by (simp add: HEIGHT_NOT_FOUND_def unsigned_minus_1_eq_mask mask_eq_exp_minus_1)
    ultimately show False using n(1) assms(2) u by simp
  qed
  ultimately show thesis using that n u by (simp add: getBlockHeight_or_not_found_def block_ids_def)
qed

lemma get_blocks_by_id_found:
  assumes "chain_ok c" and "length (m_blocks c) < 2 ^ 32" and "set ids \<subseteq> set (block_ids c)"
  shows "\<exists>bs. get_blocks_by_id ids bl ms c = (True, bl @ bs, ms) \<and> map get_block_hash bs = ids \<and> set bs \<subseteq> be_bl ` set (m_blocks c)"
  using assms(3)
proof (induction ids arbitrary: bl)
  case (Cons h ids)
  obtain n where n: "n < length (m_blocks c)" "get_block_hash (be_bl (m_blocks c ! n)) = h"
    "getBlockHeight_or_not_found (m_blocks_index c) h = word_of_nat n" "word_of_nat n \<noteq> HEIGHT_NOT_FOUND" "unat (word_of_nat n :: u64) = n"
    using height_found [OF assms(1,2)] Cons.prems by (metis list.set_intros(1) subsetD)
  obtain bs where "get_blocks_by_id ids (bl @ [be_bl (m_blocks c ! n)]) ms c = (True, (bl @ [be_bl (m_blocks c ! n)]) @ bs, ms)"
    "map get_block_hash bs = ids" "set bs \<subseteq> be_bl ` set (m_blocks c)"
    using Cons by (metis (no_types, lifting) set_subset_Cons subset_trans)
  then show ?case using n by (intro exI [of _ "be_bl (m_blocks c ! n) # bs"]) (auto simp: Let_def)
qed simp

definition stored_tx :: "blockchain_storage \<Rightarrow> hash \<Rightarrow> bool" where
  "stored_tx c h \<longleftrightarrow> (\<exists>idx txe. m_transaction_map c h = Some idx \<and> transactionByIndex c idx = Inr txe)"

lemma get_transactions_stored:
  "list_all (stored_tx c) hs \<Longrightarrow> \<exists>txs. get_transactions_by_id hs acc ms c = Inr (acc @ txs, ms) \<and> length txs = length hs"
proof (induction hs arbitrary: acc)
  case (Cons h hs)
  obtain idx txe where h: "m_transaction_map c h = Some idx" "transactionByIndex c idx = Inr txe" using Cons.prems by (auto simp: stored_tx_def)
  obtain txs where "get_transactions_by_id hs (acc @ [ce_tx txe]) ms c = Inr ((acc @ [ce_tx txe]) @ txs, ms)" "length txs = length hs"
    using Cons by (metis list.pred_inject(2))
  then show ?case using h by (intro exI [of _ "ce_tx txe # txs"]) simp
qed simp

text \<open>The number of transactions of a block fits the 16-bit position.\<close>

definition positions_fit :: "blockchain_storage \<Rightarrow> bool" where
  "positions_fit c \<longleftrightarrow> (\<forall>be \<in> set (m_blocks c). length (transactions be) < 2 ^ 16)"

lemma block_txs_stored:
  assumes "chain_ok c" and "length (m_blocks c) < 2 ^ 32" and "positions_fit c" and "b \<in> be_bl ` set (m_blocks c)"
  shows "list_all (stored_tx c) (tx_hashes b)"
proof -
  obtain n where n: "n < length (m_blocks c)" "b = be_bl (m_blocks c ! n)" using assms(4) by (auto simp: in_set_conv_nth)
  let ?be = "m_blocks c ! n"
  have ids: "map (\<lambda>txe. get_transaction_hash (ce_tx txe)) (transactions ?be) = block_tx_ids b"
    using chain_okD(4) [OF assms(1)] n by (simp add: linked_def)
  have fit: "length (transactions ?be) < 2 ^ 16" using assms(3) n(1) by (simp add: positions_fit_def)
  have "stored_tx c h" if "h \<in> set (tx_hashes b)" for h
  proof -
    have "h \<in> set (map (\<lambda>txe. get_transaction_hash (ce_tx txe)) (transactions ?be))" using that ids by (simp add: block_tx_ids_def)
    then obtain t where t: "t < length (transactions ?be)" "get_transaction_hash (ce_tx (transactions ?be ! t)) = h"
      by (auto simp: in_set_conv_nth)
    have "m_transaction_map c h = Some (ucast (word_of_nat n :: u64), word_of_nat t)"
      using chain_okD(5) [OF assms(1)] n(1) t by (auto simp: located_def)
    moreover have "unat (ucast (word_of_nat n :: u64) :: u32) = n" "unat (word_of_nat t :: 16 word) = t"
      using n(1) assms(2) t(1) fit by (simp_all add: unat_ucast_mod unat_of_nat_small)
    ultimately show ?thesis using n(1) t(1) by (simp add: stored_tx_def transactionByIndex_def)
  qed
  then show ?thesis by (simp add: list_all_iff)
qed

lemma objects_loop_stored:
  assumes "list_all (\<lambda>b. list_all (stored_tx c) (tx_hashes b)) bs"
  shows "\<exists>es'. objects_loop bs es ms c = Inr (es @ es', ms) \<and> map bce_block es' = map block_to_blob bs
    \<and> map (\<lambda>e. length (bce_txs e)) es' = map (\<lambda>b. length (tx_hashes b)) bs"
  using assms
proof (induction bs arbitrary: es)
  case (Cons b bs)
  obtain txs where txs: "get_transactions_by_id (tx_hashes b) [] ms c = Inr (txs, ms)" "length txs = length (tx_hashes b)"
    using get_transactions_stored [of c "tx_hashes b" "[]" ms] Cons.prems by auto
  let ?e = "\<lparr>bce_block = block_to_blob b, bce_txs = map tx_to_blob txs\<rparr>"
  obtain es' where "objects_loop bs (es @ [?e]) ms c = Inr ((es @ [?e]) @ es', ms)" "map bce_block es' = map block_to_blob bs"
    "map (\<lambda>e. length (bce_txs e)) es' = map (\<lambda>b. length (tx_hashes b)) bs"
    using Cons by (metis (no_types, lifting) list.pred_inject(2))
  then show ?case using txs by (intro exI [of _ "?e # es'"]) simp
qed simp

lemma check_blocks_served:
  assumes "map bce_block es = map block_to_blob bs" and "map (\<lambda>e. length (bce_txs e)) es = map (\<lambda>b. length (tx_hashes b)) bs"
    and "list_all block_ok bs" and "distinct (map get_block_hash bs)" and "set (map get_block_hash bs) \<subseteq> req"
    and "\<forall>h \<in> req. \<not> core_have_block ops h d"
  shows "check_blocks ops d k es req = Complete (req - set (map get_block_hash bs))"
  using assms
proof (induction es arbitrary: k bs req)
  case (Cons e es)
  then obtain b bs' where bs: "bs = b # bs'" by (cases bs) auto
  have b: "parse_and_validate_block_from_blob (bce_block e) = Some b" "get_block_hash b \<in> req" "length (tx_hashes b) = length (bce_txs e)"
    using Cons.prems block.parse_put [of b] by (auto simp: bs parse_and_validate_block_from_blob_def)
  have "set (map get_block_hash bs') \<subseteq> req - {get_block_hash b}" using Cons.prems(4,5) by (auto simp: bs dest: sym [of _ "get_block_hash b"])
  then have "check_blocks ops d (k + 1) es (req - {get_block_hash b}) = Complete (req - {get_block_hash b} - set (map get_block_hash bs'))"
    using Cons.IH [of bs' "req - {get_block_hash b}"] Cons.prems by (auto simp: bs)
  then show ?case using b Cons.prems(6) by (auto simp: bs Let_def)
qed simp

text \<open>A core that has nothing.\<close>

definition empty_core :: "unit core_ops" where
  "empty_core = \<lparr>core_have_block = (\<lambda>_ _. False), core_height = (\<lambda>_. 0), core_top = (\<lambda>_. (0, null_hash)),
     core_top_checkpoint_height = (\<lambda>_. 0), core_short_chain_history = (\<lambda>_. []), core_incoming_tx = (\<lambda>_ _ c. (None, c)),
     core_incoming_block = (\<lambda>_ _ c. (None, c)), core_get_objects = (\<lambda>_ _. None), core_find_supplement = (\<lambda>_ _. None)\<rparr>"

section \<open>Properties\<close>

text \<open>C11: The answer of \<open>handle_get_objects\<close> of a reachable chain to a request for its blocks
  misses nothing, and every node that requested exactly these blocks and has none of them accepts it in its
  checking loop.\<close>

theorem served_objects_accepted:
  assumes "reach chain_init chain_step c" and "length (m_blocks c) < 2 ^ 32" and "positions_fit c"
    and "list_all (\<lambda>be. block_ok (be_bl be)) (m_blocks c)"
    and "distinct ids" and "set ids \<subseteq> set (block_ids c)" and "\<forall>h \<in> set ids. \<not> core_have_block ops h d"
  shows "\<exists>rsp. handle_get_objects \<lparr>rq_txs = [], rq_blocks = ids\<rparr> c = Inr (True, rsp) \<and> rs_missed_ids rsp = []
    \<and> check_blocks ops d 0 (rs_blocks rsp) (set ids) = Complete {}"
proof -
  have ok: "chain_ok c" by (rule chain.reach_inv [OF assms(1)])
  obtain bs where bs: "get_blocks_by_id ids [] [] c = (True, bs, [])" "map get_block_hash bs = ids" "set bs \<subseteq> be_bl ` set (m_blocks c)"
    using get_blocks_by_id_found [OF ok assms(2,6), of "[]" "[]"] by auto
  have "list_all (\<lambda>b. list_all (stored_tx c) (tx_hashes b)) bs"
    using block_txs_stored [OF ok assms(2,3)] bs(3) unfolding list_all_iff by blast
  then obtain es where es: "objects_loop bs [] [] c = Inr (es, [])" "map bce_block es = map block_to_blob bs"
    "map (\<lambda>e. length (bce_txs e)) es = map (\<lambda>b. length (tx_hashes b)) bs"
    using objects_loop_stored [of c bs "[]" "[]"] by auto
  have "list_all block_ok bs" using bs(3) assms(4) by (auto simp: list_all_iff)
  then have "check_blocks ops d 0 es (set ids) = Complete {}"
    using check_blocks_served [OF es(2,3), of "set ids" ops d 0] assms(5,7) bs(2) by simp
  then show ?thesis using bs(1) es(1) by (simp add: handle_get_objects_def)
qed

theorem served_objects_accepted_witness:
  "\<exists>scr lim rsp. handle_get_objects \<lparr>rq_txs = [], rq_blocks = [get_block_hash first_block]\<rparr> (first_chain scr lim) = Inr (True, rsp)
    \<and> rs_missed_ids rsp = [] \<and> check_blocks empty_core () 0 (rs_blocks rsp) {get_block_hash first_block} = Complete {}"
proof -
  obtain scr lim where r: "reach chain_init chain_step (first_chain scr lim)" using first_chain_reachable by blast
  have "block_ok first_block"
    using sample_tx_ok by (simp add: block_ok_def first_block_def sample_block_def null_hash_def CURRENT_BLOCK_MAJOR_VERSION_def
        transaction_ok_def prefix_ok_def first_miner_tx_def)
  then show ?thesis
    using served_objects_accepted [OF r, of "[get_block_hash first_block]" empty_core "()"]
    by (auto simp: first_chain_fields positions_fit_def block_ids_def empty_core_def)
qed

theorem short_chain_history_eq:
  assumes "reach chain_init chain_step c"
  shows "get_short_chain_history c = getShortChainHistory (m_blocks_index c)"
proof -
  have "m_container (m_blocks_index c) = block_ids c" using chain_okD(2) [OF chain.reach_inv [OF assms]] by (simp add: block_ids_def)
  moreover have "length (block_ids c) = length (m_blocks c)" by (simp add: block_ids_def)
  ultimately show ?thesis by (simp add: get_short_chain_history_def getShortChainHistory_def bi_size_def blocks_size_def Let_def)
qed

theorem short_chain_history_eq_witness:
  "\<exists>scr lim. get_short_chain_history (first_chain scr lim) = getShortChainHistory \<lparr>m_container = [get_block_hash first_block]\<rparr>"
proof -
  obtain scr lim where "reach chain_init chain_step (first_chain scr lim)" using first_chain_reachable by blast
  from short_chain_history_eq [OF this] show ?thesis by (auto simp: first_chain_def)
qed

text \<open>C10: A node answers the short history of a peer with the same genesis block:
  \<open>find_blockchain_supplement\<close> returns consecutive ids of its own chain that start with a
  block of the peer, so that the peer can connect them.\<close>

theorem supplement_continues_history:
  assumes "reach chain_init chain_step mine" and "reach chain_init chain_step theirs"
    and "length (m_blocks mine) < 2 ^ 32" and "length (m_blocks theirs) < 2 ^ 32"
    and "m_blocks mine \<noteq> []" and "m_blocks theirs \<noteq> []" and "be_bl (m_blocks mine ! 0) = be_bl (m_blocks theirs ! 0)"
  shows "\<exists>ids resp n. get_short_chain_history theirs = Some ids \<and> find_blockchain_supplement ids mine = Inr (Some resp)
    \<and> n < length (m_blocks mine) \<and> ce_start_height resp = word_of_nat n \<and> ce_total_height resp = blocks_size mine
    \<and> ce_block_ids resp = take BLOCKS_IDS_SYNCHRONIZING_DEFAULT_COUNT (drop n (block_ids mine))
    \<and> hd (ce_block_ids resp) \<in> set (block_ids theirs)"
proof -
  note mok = chain.reach_inv [OF assms(1)] and tok = chain.reach_inv [OF assms(2)]
  note mx = chain_index_inv [OF mok assms(3)] and tx = chain_index_inv [OF tok assms(4)]
  have tne: "block_ids theirs \<noteq> []" and mne: "block_ids mine \<noteq> []" using assms(5,6) by (simp_all add: block_ids_def)
  obtain offs where hist: "getShortChainHistory (m_blocks_index theirs)
      = Some (map (\<lambda>k. block_ids theirs ! (length (block_ids theirs) - k)) offs @ [block_ids theirs ! 0])"
      and offs: "\<forall>k \<in> set offs. 1 \<le> k \<and> k < length (block_ids theirs)"
    using getShortChainHistory_offsets [of "m_blocks_index theirs"] tx tne assms(4,6) by auto
  let ?ids = "map (\<lambda>k. block_ids theirs ! (length (block_ids theirs) - k)) offs @ [block_ids theirs ! 0]"
  have ids: "get_short_chain_history theirs = Some ?ids"
    using hist tx(2) by (simp add: get_short_chain_history_def getShortChainHistory_def bi_size_def blocks_size_def tx(3) Let_def)
  have sub: "set ?ids \<subseteq> set (block_ids theirs)" using offs tne by auto
  have gen: "block_ids theirs ! 0 = get_block_hash (be_bl (m_blocks mine ! 0))" "block_ids theirs ! 0 \<in> set (block_ids mine)"
    using assms(5,6) nth_mem [of 0 "m_blocks mine"] by (simp_all add: block_ids_def flip: assms(7))
  let ?f = "getBlockHeight_or_not_found (m_blocks_index mine)"
  obtain n0 where "?f (block_ids theirs ! 0) = word_of_nat n0" "word_of_nat n0 \<noteq> HEIGHT_NOT_FOUND"
    using height_found [OF mok assms(3) gen(2)] by metis
  then obtain h where h: "find (\<lambda>h. ?f h \<noteq> HEIGHT_NOT_FOUND) ?ids = Some h"
    by (cases "find (\<lambda>h. ?f h \<noteq> HEIGHT_NOT_FOUND) ?ids") (auto simp: find_None_iff)
  from find_SomeD [OF h] have hin: "h \<in> set ?ids" "?f h \<noteq> HEIGHT_NOT_FOUND" by blast+
  have "getBlockHeight (m_blocks_index mine) h \<noteq> None" using hin(2) by (auto simp: getBlockHeight_or_not_found_def split: option.splits)
  then have "h \<in> set (block_ids mine)" using getBlockHeight_None_iff mx(2) by (simp add: hasBlock_def)
  from height_found [OF mok assms(3) this] obtain n where n: "n < length (m_blocks mine)" "get_block_hash (be_bl (m_blocks mine ! n)) = h"
    "?f h = word_of_nat n" "unat (word_of_nat n :: u64) = n" by metis
  have off: "find_supplement_offset ?ids mine = Inr (Some (word_of_nat n))"
    using h n(3) assms(5) gen(1) by (simp add: find_supplement_offset_def)
  have hd: "hd (take BLOCKS_IDS_SYNCHRONIZING_DEFAULT_COUNT (drop n (block_ids mine))) = h"
    using n(1,2) mx(3) by (simp add: BLOCKS_IDS_SYNCHRONIZING_DEFAULT_COUNT_def hd_take hd_drop_conv_nth) (simp add: block_ids_def)
  show ?thesis
    using ids off n hd hin(1) sub
    by (intro exI [of _ ?ids] exI [of _ "\<lparr>ce_start_height = word_of_nat n, ce_total_height = blocks_size mine,
        ce_block_ids = take BLOCKS_IDS_SYNCHRONIZING_DEFAULT_COUNT (drop n (block_ids mine))\<rparr>"] exI [of _ n])
      (auto simp: find_blockchain_supplement_def block_ids_def take_map drop_map)
qed


theorem supplement_continues_history_witness:
  "\<exists>scr lim ids resp. get_short_chain_history (first_chain scr lim) = Some ids
    \<and> find_blockchain_supplement ids (first_chain scr lim) = Inr (Some resp) \<and> hd (ce_block_ids resp) = get_block_hash first_block"
proof -
  obtain scr lim where r: "reach chain_init chain_step (first_chain scr lim)" using first_chain_reachable by blast
  show ?thesis
    using supplement_continues_history [OF r r] by (auto simp: first_chain_fields block_ids_def)
qed

end
