(* ===== verification/Node.thy ===== *)
theory Node
  imports ChainQuery
begin

text \<open>
  The node: the protocol handler on top of the core. The template argument of the handler is instantiated with the calls
  that \<open>core\<close> (\<open>src/currency_core/currency_core.cpp\<close>) forwards to the chain and the pool. The theorems on the handler
  hold for every core; their witnesses run it on the chain.
\<close>

text \<open>
  A call that throws, or that leaves the bounds of a container, ends with \<open>None\<close>. For fewer than \<open>2 ^ 62\<close> blocks the
  loop of the short history ends.
\<close>

definition node_core :: "(public_key \<Rightarrow> bool) \<Rightarrow> chain_env \<Rightarrow> nat \<Rightarrow> blockchain_storage core_ops" where
  "node_core check_key env n = \<lparr>core_have_block = have_block,
     core_height = blocks_size,
     core_top = get_top_block_id_height,
     core_top_checkpoint_height = (\<lambda>c. get_top_checkpoint_height (m_checkpoints c)),
     core_short_chain_history = (\<lambda>c. case get_short_chain_history c of None \<Rightarrow> [] | Some ids \<Rightarrow> ids),
     core_incoming_tx = (\<lambda>tx_blob keeped_by_block c.
       case handle_incoming_tx check_key (donation_account env) (chain_view env c) (now env) tx_blob keeped_by_block (m_tx_pool c) of
         None \<Rightarrow> (None, c)
       | Some (_, tvc, p) \<Rightarrow> (Some tvc, c\<lparr>m_tx_pool := p\<rparr>)),
     core_incoming_block = (\<lambda>block_blob update_miner_blocktemplate c.
       case handle_incoming_block env n block_blob c of
         (Inl _, c) \<Rightarrow> (None, c)
       | (Inr (_, bvc), c) \<Rightarrow> (Some bvc, c)),
     core_get_objects = (\<lambda>arg c. case handle_get_objects arg c of Inl _ \<Rightarrow> None | Inr r \<Rightarrow> Some r),
     core_find_supplement = (\<lambda>ids c. case find_blockchain_supplement ids c of Inl _ \<Rightarrow> None | Inr r \<Rightarrow> Some r)\<rparr>"

section \<open>A node without blocks\<close>

definition quiet_context :: currency_connection_context where
  "quiet_context = \<lparr>m_state = state_normal, m_needed_objects = [], m_requested_objects = {}, m_remote_blockchain_height = 1,
     m_last_response_height = 0, m_callback_request_count = 0\<rparr>"

definition new_node :: "blockchain_storage protocol_handler" where
  "new_node = \<lparr>m_core = empty_chain, m_synchronized = False, m_max_height_seen = 0, m_core_inital_height = 0, has_wallet_callback = False,
     conn = quiet_context, sent = []\<rparr>"

abbreviation open_core :: "blockchain_storage core_ops" where
  "open_core \<equiv> node_core (\<lambda>_. True) open_env 1"

lemma first_miner_tx_ok: "transaction_ok first_miner_tx"
  using sample_tx_ok by (simp add: transaction_ok_def prefix_ok_def first_miner_tx_def)

lemma first_block_ok: "list_all (\<lambda>h. length h = 32) hs \<Longrightarrow> fits hs \<Longrightarrow> block_ok (first_block\<lparr>tx_hashes := hs\<rparr>)"
  using first_miner_tx_ok by (simp add: block_ok_def first_block_def sample_block_def null_hash_def CURRENT_BLOCK_MAJOR_VERSION_def)

lemma first_blob_length: "length (block_to_blob (first_block\<lparr>tx_hashes := []\<rparr>)) < 200"
  "length (block_to_blob (first_block\<lparr>tx_hashes := [replicate 32 2]\<rparr>)) < 200"
  by code_simp+

lemma empty_chain_lacks: "\<not> have_block h empty_chain" "get_top_block_id empty_chain = null_hash"
  by (simp_all add: empty_chain_def have_block_def hasBlock_def get_top_block_id_def)

lemma incoming_first_block:
  assumes "list_all (\<lambda>h. length h = 32) hs" and "fits hs" and "length (block_to_blob (first_block\<lparr>tx_hashes := hs\<rparr>)) < 200"
  shows "handle_incoming_block open_env n (block_to_blob (first_block\<lparr>tx_hashes := hs\<rparr>)) empty_chain =
    and_next (handle_block_to_main_chain_computed open_env (first_block\<lparr>tx_hashes := hs\<rparr>) no_block_verification empty_chain)
      (\<lambda>(_, bvc) c. (Inr (True, bvc), c))"
proof -
  let ?b = "first_block\<lparr>tx_hashes := hs\<rparr>"
  have "parse_and_validate_block_from_blob (block_to_blob ?b) = Some ?b"
    using block.parse_put [OF first_block_ok [OF assms(1,2)]] by (simp add: parse_and_validate_block_from_blob_def)
  moreover have "prev_id ?b = null_hash" by (simp add: first_block_def)
  ultimately show ?thesis
    using assms(3) by (simp add: handle_incoming_block_def add_new_block_def empty_chain_lacks get_max_block_size_def CURRENCY_MAX_BLOCK_SIZE_def
        handle_block_to_main_chain_computed_def)
qed

lemma node_takes_first_block:
  "\<exists>scr lim. core_incoming_block open_core (block_to_blob first_block) u empty_chain
    = (Some (no_block_verification\<lparr>m_added_to_main_chain := True\<rparr>), first_chain scr lim)"
proof -
  have b: "first_block\<lparr>tx_hashes := []\<rparr> = first_block" by (simp add: first_block_def)
  obtain scr lim where "handle_block_to_main_chain_computed open_env first_block no_block_verification empty_chain =
      (Inr (True, no_block_verification\<lparr>m_added_to_main_chain := True\<rparr>), first_chain scr lim)"
    using first_block_accepted by blast
  then show ?thesis using incoming_first_block [of "[]" 1] first_blob_length(1) by (auto simp: node_core_def b)
qed

section \<open>Properties\<close>

text \<open>C12: A response changes the core only if all its entries parse, their blocks are distinct, are exactly
  the requested ones and come with as many transactions as they name.\<close>

theorem sync_takes_requested_blocks_only:
  assumes "handle_response_get_objects ops arg s = (r, s')" and "m_core s' \<noteq> m_core s"
  shows "\<exists>bs. map (\<lambda>e. parse_and_validate_block_from_blob (bce_block e)) (rs_blocks arg) = map Some bs \<and> distinct (map get_block_hash bs)
    \<and> set (map get_block_hash bs) = m_requested_objects (conn s) \<and> map (\<lambda>b. length (tx_hashes b)) bs = map (\<lambda>e. length (bce_txs e)) (rs_blocks arg)"
proof -
  have "check_blocks ops (m_core s) 0 (rs_blocks arg) (m_requested_objects (conn s)) = Complete {}"
    using assms by (auto simp: handle_response_get_objects_def Let_def split: if_splits response_check.splits)
  from check_blocks_Complete [OF this] show ?thesis by blast
qed

theorem sync_takes_requested_blocks_only_witness:
  "\<exists>bs. map (\<lambda>e. parse_and_validate_block_from_blob (bce_block e)) [\<lparr>bce_block = block_to_blob first_block, bce_txs = []\<rparr>] = map Some bs
    \<and> set (map get_block_hash bs) = {get_block_hash first_block}"
proof -
  let ?rsp = "\<lparr>rs_txs = [], rs_blocks = [\<lparr>bce_block = block_to_blob first_block, bce_txs = []\<rparr>], rs_missed_ids = [], rs_current_blockchain_height = 1\<rparr>"
  let ?s = "set_context (\<lambda>x. x\<lparr>m_requested_objects := {get_block_hash first_block}\<rparr>) new_node"
  obtain scr lim where inc: "core_incoming_block open_core (block_to_blob first_block) False empty_chain
      = (Some (no_block_verification\<lparr>m_added_to_main_chain := True\<rparr>), first_chain scr lim)" using node_takes_first_block by blast
  have b: "first_block\<lparr>tx_hashes := []\<rparr> = first_block" "tx_hashes first_block = []" by (simp_all add: first_block_def)
  have parse: "parse_and_validate_block_from_blob (block_to_blob first_block) = Some first_block"
    using block.parse_put [OF first_block_ok [of "[]"]] by (simp add: parse_and_validate_block_from_blob_def b)
  have "m_core (snd (handle_response_get_objects open_core ?rsp ?s)) = first_chain scr lim"
    using inc parse by (simp add: handle_response_get_objects_def new_node_def quiet_context_def set_context_def send_def no_block_verification_def b)
  moreover have "m_core ?s = empty_chain" by (simp add: new_node_def)
  moreover have "first_chain scr lim \<noteq> empty_chain" using first_chain_fields(1) [of scr lim] by (auto simp: empty_chain_def)
  ultimately have "m_core (snd (handle_response_get_objects open_core ?rsp ?s)) \<noteq> m_core ?s" by simp
  from sync_takes_requested_blocks_only [OF prod.collapse [symmetric] this] obtain bs where
    "map (\<lambda>e. parse_and_validate_block_from_blob (bce_block e)) (rs_blocks ?rsp) = map Some bs"
    "set (map get_block_hash bs) = m_requested_objects (conn ?s)" by blast
  then show ?thesis by (intro exI [of _ bs]) simp
qed

theorem request_missing_batches:
  assumes "m_needed_objects (conn s) \<noteq> []"
  shows "\<exists>k blocks. 0 < k \<and> m_needed_objects (conn (snd (request_missing_objects ops chk s))) = drop k (m_needed_objects (conn s))
    \<and> blocks = filter (\<lambda>h. \<not> (chk \<and> core_have_block ops h (m_core s))) (take k (m_needed_objects (conn s)))
    \<and> sent (snd (request_missing_objects ops chk s)) = sent s @ [PostRequestGetObjects \<lparr>rq_txs = [], rq_blocks = blocks\<rparr>]
    \<and> m_requested_objects (conn (snd (request_missing_objects ops chk s))) = m_requested_objects (conn s) \<union> set blocks
    \<and> length blocks \<le> BLOCKS_SYNCHRONIZING_DEFAULT_COUNT
    \<and> (drop k (m_needed_objects (conn s)) \<noteq> [] \<longrightarrow> length blocks = BLOCKS_SYNCHRONIZING_DEFAULT_COUNT)"
proof -
  let ?skip = "\<lambda>h. chk \<and> core_have_block ops h (m_core s)"
  obtain k where k: "needed_loop ?skip 0 (m_needed_objects (conn s)) [] = (drop k (m_needed_objects (conn s)),
      filter (\<lambda>h. \<not> ?skip h) (take k (m_needed_objects (conn s))))" "0 < k"
    "length (filter (\<lambda>h. \<not> ?skip h) (take k (m_needed_objects (conn s)))) \<le> BLOCKS_SYNCHRONIZING_DEFAULT_COUNT"
    "drop k (m_needed_objects (conn s)) \<noteq> [] \<longrightarrow>
      length (filter (\<lambda>h. \<not> ?skip h) (take k (m_needed_objects (conn s)))) = BLOCKS_SYNCHRONIZING_DEFAULT_COUNT"
    using needed_loop_batch [of 0 ?skip "m_needed_objects (conn s)" "[]"] assms by (auto simp: BLOCKS_SYNCHRONIZING_DEFAULT_COUNT_def)
  then show ?thesis using assms by (intro exI [of _ k] exI conjI refl) (auto simp: request_missing_objects_def)
qed

theorem request_missing_batches_witness:
  "\<exists>k. 0 < k \<and> m_needed_objects (conn (snd (request_missing_objects open_core True
      (set_context (\<lambda>x. x\<lparr>m_needed_objects := [replicate 32 1]\<rparr>) new_node)))) = drop k [replicate 32 1]"
  using request_missing_batches [of "set_context (\<lambda>x. x\<lparr>m_needed_objects := [replicate 32 1]\<rparr>) new_node" open_core True]
  by (auto simp: set_context_def)

text \<open>C13: After any sequence of messages whose handling does not throw, mining was resumed as often as it was
  paused and the core was told at most once that the node is synchronized.\<close>

theorem miner_resumed:
  assumes "reach handler_init (handler_step ops) s"
  shows "count_list (sent s) PauseMine = count_list (sent s) ResumeMine
    \<and> count_list (sent s) CoreSynchronized = (if m_synchronized s then 1 else 0)"
  using handler.reach_inv [OF assms] by (auto simp: balanced_def)

theorem miner_resumed_witness:
  "\<exists>s. handle_notify_new_block open_core
      \<lparr>nb_b = \<lparr>bce_block = block_to_blob first_block, bce_txs = []\<rparr>, nb_current_blockchain_height = 0, nb_hop = 0\<rparr> new_node = (Some (), s)
    \<and> PauseMine \<in> set (sent s) \<and> count_list (sent s) PauseMine = count_list (sent s) ResumeMine"
proof -
  let ?arg = "\<lparr>nb_b = \<lparr>bce_block = block_to_blob first_block, bce_txs = []\<rparr>, nb_current_blockchain_height = 0, nb_hop = 0\<rparr>"
  obtain scr lim where inc: "core_incoming_block open_core (block_to_blob first_block) True empty_chain
      = (Some (no_block_verification\<lparr>m_added_to_main_chain := True\<rparr>), first_chain scr lim)" using node_takes_first_block by blast
  obtain s where s: "handle_notify_new_block open_core ?arg new_node = (Some (), s)" "PauseMine \<in> set (sent s)"
    using inc by (simp add: handle_notify_new_block_def new_node_def quiet_context_def send_def no_block_verification_def)
  have "reach handler_init (handler_step open_core) new_node" by (rule reach_init) (simp add: handler_init_def new_node_def)
  from reach_step [OF this NewBlock [OF s(1)]] have "reach handler_init (handler_step open_core) s" .
  from miner_resumed [OF this] show ?thesis using s by (intro exI [of _ s]) simp
qed

theorem incomplete_block_pauses_miner:
  assumes "m_state (conn s) = state_normal" and "length (m_blocks (m_core s)) < 2 ^ 32"
    and "block_ok b" and "length (block_to_blob b) \<le> CURRENCY_MAX_BLOCK_SIZE" and "\<not> have_block (get_block_hash b) (m_core s)"
    and lacks: "lacks_tx env b (get_block_hash b) (m_core s) c"
    and "nb_b arg = \<lparr>bce_block = block_to_blob b, bce_txs = []\<rparr>"
  shows "handle_notify_new_block (node_core check_key env n) arg s = (None, s\<lparr>m_core := c, sent := sent s @ [PauseMine]\<rparr>)"
proof -
  have "parse_and_validate_block_from_blob (block_to_blob b) = Some b"
    using block.parse_put [OF assms(3)] by (simp add: parse_and_validate_block_from_blob_def)
  moreover have "prev_id b = get_top_block_id (m_core s)" using lacks by (simp add: lacks_tx_def header_accepted_def)
  moreover note incomplete_block(1) [OF assms(2) lacks]
  ultimately have "handle_incoming_block env n (block_to_blob b) (m_core s) = (Inl Exception, c)"
    using assms(4,5) by (simp add: handle_incoming_block_def add_new_block_def get_max_block_size_def)
  then show ?thesis using assms(1,7) by (simp add: handle_notify_new_block_def send_def node_core_def)
qed

theorem incomplete_block_pauses_miner_witness:
  "handle_notify_new_block open_core \<lparr>nb_b = \<lparr>bce_block = block_to_blob (first_block\<lparr>tx_hashes := [replicate 32 2]\<rparr>), bce_txs = []\<rparr>,
      nb_current_blockchain_height = 0, nb_hop = 0\<rparr> new_node = (None, new_node\<lparr>m_core := first_tx_chain, sent := sent new_node @ [PauseMine]\<rparr>)"
proof (rule incomplete_block_pauses_miner)
  let ?b = "first_block\<lparr>tx_hashes := [replicate 32 2]\<rparr>"
  have core: "m_core new_node = empty_chain" by (simp add: new_node_def)
  show "m_state (conn new_node) = state_normal" by (simp add: new_node_def quiet_context_def)
  show "length (m_blocks (m_core new_node)) < 2 ^ 32" by (simp add: core empty_chain_def)
  show "block_ok ?b" by (rule first_block_ok) simp_all
  show "length (block_to_blob ?b) \<le> CURRENCY_MAX_BLOCK_SIZE" using first_blob_length(2) by (simp add: CURRENCY_MAX_BLOCK_SIZE_def)
  show "\<not> have_block (get_block_hash ?b) (m_core new_node)" by (simp add: core empty_chain_lacks)
  show "lacks_tx open_env ?b (get_block_hash ?b) (m_core new_node) first_tx_chain" unfolding core by (rule first_lacks_tx)
qed simp_all

end
