(* ===== verification/Peerlist.thy ===== *)
theory Peerlist
  imports Prelude Transitions "HOL-Library.Multiset"
begin

text \<open>
  The lists of known peers: \<open>src/p2p/net_peerlist.h\<close>, with the address tests of
  \<open>contrib/epee/include/net/local_ip.h\<close>. A \<open>peers_indexed\<close> container is the list of its entries in the order of the
  index \<open>by_time\<close>; the index \<open>by_addr\<close> is unique. How the container places an entry among others of the same time
  is left to the container library: its two operations are the record \<open>peers_ops\<close>, and what the manager relies on is the
  locale \<open>peers_container\<close>.
\<close>

unbundle bit_operations_syntax

section \<open>Addresses\<close>

text \<open>An address is stored in network order: the first number is the lowest byte.\<close>

definition is_ip_local :: "u32 \<Rightarrow> bool" where
  "is_ip_local ip =
    (if ip OR 0xffffff00 = 0xffffff0a then True
     else if ip OR 0xffff0000 = 0xffffa8c0 then True
     else if ip OR 0xffffff00 = 0xffffffac
     then let second_num = push_bit 8 ip AND 0xff000000
          in if second_num \<ge> 16 \<and> second_num \<le> 31 then True else False
     else False)"

definition is_ip_loopback :: "u32 \<Rightarrow> bool" where
  "is_ip_loopback ip = (if ip OR 0xffffff00 = 0xffffff7f then True else False)"

record net_address =
  ip :: u32
  port :: u32

record peerlist_entry =
  adr :: net_address
  peer_id :: u64
  last_seen :: int

section \<open>The manager\<close>

record peerlist_manager =
  m_allow_local_ip :: bool
  m_peers_gray :: "peerlist_entry list"
  m_peers_white :: "peerlist_entry list"

record peers_ops =
  pi_insert :: "peerlist_entry \<Rightarrow> peerlist_entry list \<Rightarrow> peerlist_entry list"
  pi_replace :: "peerlist_entry \<Rightarrow> peerlist_entry list \<Rightarrow> peerlist_entry list"

definition P2P_LOCAL_WHITE_PEERLIST_LIMIT :: nat where
  "P2P_LOCAL_WHITE_PEERLIST_LIMIT = 1000"

definition P2P_LOCAL_GRAY_PEERLIST_LIMIT :: nat where
  "P2P_LOCAL_GRAY_PEERLIST_LIMIT = 5000"

definition P2P_DEFAULT_PEERS_IN_HANDSHAKE :: u32 where
  "P2P_DEFAULT_PEERS_IN_HANDSHAKE = 250"

definition pl_clear :: "peerlist_manager \<Rightarrow> peerlist_manager" where
  "pl_clear p = p\<lparr>m_peers_white := [], m_peers_gray := []\<rparr>"

definition pl_init :: "bool \<Rightarrow> peerlist_manager \<Rightarrow> peerlist_manager" where
  "pl_init allow_local_ip p = p\<lparr>m_allow_local_ip := allow_local_ip\<rparr>"

definition get_white_peers_count :: "peerlist_manager \<Rightarrow> nat" where
  "get_white_peers_count p = length (m_peers_white p)"

definition get_gray_peers_count :: "peerlist_manager \<Rightarrow> nat" where
  "get_gray_peers_count p = length (m_peers_gray p)"

definition has_addr :: "net_address \<Rightarrow> peerlist_entry list \<Rightarrow> bool" where
  "has_addr a es \<longleftrightarrow> a \<in> adr ` set es"

definition erase_addr :: "net_address \<Rightarrow> peerlist_entry list \<Rightarrow> peerlist_entry list" where
  "erase_addr a es = filter (\<lambda>e. adr e \<noteq> a) es"

fun peers_indexed_from_old :: "peers_ops \<Rightarrow> peerlist_entry list \<Rightarrow> peerlist_entry list \<Rightarrow> peerlist_entry list" where
  "peers_indexed_from_old ops [] es = es"
| "peers_indexed_from_old ops (x # pio) es =
    peers_indexed_from_old ops pio (if \<not> has_addr (adr x) es then pi_insert ops x es else es)"

text \<open>The loop erases the first entry by time while there are too many.\<close>

fun trim_loop :: "nat \<Rightarrow> peerlist_entry list \<Rightarrow> peerlist_entry list" where
  "trim_loop limit [] = []"
| "trim_loop limit (e # es) = (if length (e # es) > limit then trim_loop limit es else e # es)"

text \<open>As in the source, each of the two functions trims the other list.\<close>

definition trim_white_peerlist :: "peerlist_manager \<Rightarrow> peerlist_manager" where
  "trim_white_peerlist p = p\<lparr>m_peers_gray := trim_loop P2P_LOCAL_GRAY_PEERLIST_LIMIT (m_peers_gray p)\<rparr>"

definition trim_gray_peerlist :: "peerlist_manager \<Rightarrow> peerlist_manager" where
  "trim_gray_peerlist p = p\<lparr>m_peers_white := trim_loop P2P_LOCAL_WHITE_PEERLIST_LIMIT (m_peers_white p)\<rparr>"

definition is_ip_allowed :: "u32 \<Rightarrow> peerlist_manager \<Rightarrow> bool" where
  "is_ip_allowed a p =
    (if is_ip_loopback a then False
     else if \<not> m_allow_local_ip p \<and> is_ip_local a then False
     else True)"

definition append_with_peer_white :: "peers_ops \<Rightarrow> peerlist_entry \<Rightarrow> peerlist_manager \<Rightarrow> bool \<times> peerlist_manager" where
  "append_with_peer_white ops ple p =
    (if \<not> is_ip_allowed (ip (adr ple)) p then (True, p)
     else let p = (if \<not> has_addr (adr ple) (m_peers_white p)
                   then trim_white_peerlist (p\<lparr>m_peers_white := pi_insert ops ple (m_peers_white p)\<rparr>)
                   else p\<lparr>m_peers_white := pi_replace ops ple (m_peers_white p)\<rparr>)
          in (True, if has_addr (adr ple) (m_peers_gray p)
                    then p\<lparr>m_peers_gray := erase_addr (adr ple) (m_peers_gray p)\<rparr> else p))"

definition append_with_peer_gray :: "peers_ops \<Rightarrow> peerlist_entry \<Rightarrow> peerlist_manager \<Rightarrow> bool \<times> peerlist_manager" where
  "append_with_peer_gray ops ple p =
    (if \<not> is_ip_allowed (ip (adr ple)) p then (True, p)
     else if has_addr (adr ple) (m_peers_white p) then (True, p)
     else (True, if \<not> has_addr (adr ple) (m_peers_gray p)
                 then trim_gray_peerlist (p\<lparr>m_peers_gray := pi_insert ops ple (m_peers_gray p)\<rparr>)
                 else p\<lparr>m_peers_gray := pi_replace ops ple (m_peers_gray p)\<rparr>))"

fun merge_loop :: "peers_ops \<Rightarrow> peerlist_entry list \<Rightarrow> peerlist_manager \<Rightarrow> peerlist_manager" where
  "merge_loop ops [] p = p"
| "merge_loop ops (be # bs) p = merge_loop ops bs (snd (append_with_peer_gray ops be p))"

definition merge_peerlist :: "peers_ops \<Rightarrow> peerlist_entry list \<Rightarrow> peerlist_manager \<Rightarrow> bool \<times> peerlist_manager" where
  "merge_peerlist ops outer_bs p = (True, trim_gray_peerlist (merge_loop ops outer_bs p))"

definition set_peer_just_seen :: "peers_ops \<Rightarrow> int \<Rightarrow> u64 \<Rightarrow> net_address \<Rightarrow> peerlist_manager \<Rightarrow> bool \<times> peerlist_manager" where
  "set_peer_just_seen ops time peer addr p =
    append_with_peer_white ops \<lparr>adr = addr, peer_id = peer, last_seen = time\<rparr> p"

definition set_peer_just_seen_ip :: "peers_ops \<Rightarrow> int \<Rightarrow> u64 \<Rightarrow> u32 \<Rightarrow> u32 \<Rightarrow> peerlist_manager \<Rightarrow> bool \<times> peerlist_manager" where
  "set_peer_just_seen_ip ops time peer i prt p = set_peer_just_seen ops time peer \<lparr>ip = i, port = prt\<rparr> p"

text \<open>\<open>move_it_backward\<close> from the last entry by time.\<close>

definition get_white_peer_by_index :: "nat \<Rightarrow> peerlist_manager \<Rightarrow> peerlist_entry option" where
  "get_white_peer_by_index i p =
    (if i \<ge> length (m_peers_white p) then None else Some (m_peers_white p ! (length (m_peers_white p) - 1 - i)))"

definition get_gray_peer_by_index :: "nat \<Rightarrow> peerlist_manager \<Rightarrow> peerlist_entry option" where
  "get_gray_peer_by_index i p =
    (if i \<ge> length (m_peers_gray p) then None else Some (m_peers_gray p ! (length (m_peers_gray p) - 1 - i)))"

fun head_loop :: "u32 \<Rightarrow> u32 \<Rightarrow> peerlist_entry list \<Rightarrow> peerlist_entry list \<Rightarrow> peerlist_entry list" where
  "head_loop depth cnt [] bs_head = bs_head"
| "head_loop depth cnt (vl # vs) bs_head =
    (if last_seen vl = 0 then head_loop depth cnt vs bs_head
     else let bs_head = bs_head @ [vl]
          in if cnt > depth then bs_head else head_loop depth (cnt + 1) vs bs_head)"

definition get_peerlist_head :: "u32 \<Rightarrow> peerlist_manager \<Rightarrow> peerlist_entry list" where
  "get_peerlist_head depth p = head_loop depth 0 (rev (m_peers_white p)) []"

definition get_peerlist_full :: "peerlist_manager \<Rightarrow> peerlist_entry list \<times> peerlist_entry list" where
  "get_peerlist_full p = (rev (m_peers_gray p), rev (m_peers_white p))"

section \<open>The container\<close>

text \<open>
  The documented behaviour of a container with a unique index on the address and a non-unique one on the time: an
  insertion adds the entry unless the address is present, a replacement exchanges the entry of the same address, and the
  order by time is kept.
\<close>

locale peers_container =
  fixes ops :: peers_ops
  assumes insert_contents: "mset (pi_insert ops e es) = (if has_addr (adr e) es then mset es else add_mset e (mset es))"
    and insert_sorted: "sorted (map last_seen es) \<Longrightarrow> sorted (map last_seen (pi_insert ops e es))"
    and replace_contents: "has_addr (adr e) es \<Longrightarrow> distinct (map adr es) \<Longrightarrow>
      mset (pi_replace ops e es) = add_mset e (mset (erase_addr (adr e) es))"
    and replace_sorted: "sorted (map last_seen es) \<Longrightarrow> sorted (map last_seen (pi_replace ops e es))"

definition entries_ok :: "peerlist_entry list \<Rightarrow> bool" where
  "entries_ok es \<longleftrightarrow> sorted (map last_seen es) \<and> distinct (map adr es)"

definition peers_ok :: "peerlist_manager \<Rightarrow> bool" where
  "peers_ok p \<longleftrightarrow> entries_ok (m_peers_white p) \<and> entries_ok (m_peers_gray p)
     \<and> adr ` set (m_peers_white p) \<inter> adr ` set (m_peers_gray p) = {}
     \<and> (\<forall>e \<in> set (m_peers_white p) \<union> set (m_peers_gray p). \<not> is_ip_loopback (ip (adr e)))"

text \<open>
  The manager as a transition system. A restart is the step \<open>Init\<close>: the lists are those that the last run stored, and the
  command line gives the flag for local addresses anew.
\<close>

definition peers_init :: "peerlist_manager \<Rightarrow> bool" where
  "peers_init p \<longleftrightarrow> m_peers_white p = [] \<and> m_peers_gray p = []"

inductive peers_step :: "peers_ops \<Rightarrow> peerlist_manager \<Rightarrow> peerlist_manager \<Rightarrow> bool" for ops where
  White: "peers_step ops p (snd (append_with_peer_white ops e p))"
| Gray: "peers_step ops p (snd (append_with_peer_gray ops e p))"
| Merge: "peers_step ops p (snd (merge_peerlist ops es p))"
| Seen: "peers_step ops p (snd (set_peer_just_seen ops t i a p))"
| Clear: "peers_step ops p (pl_clear p)"
| Init: "peers_step ops p (pl_init allow_local_ip p)"
| Trim: "p' = trim_white_peerlist p \<or> p' = trim_gray_peerlist p \<Longrightarrow> peers_step ops p p'"

lemma trim_loop_drop: "trim_loop limit es = drop (length es - limit) es"
  by (induction es) (auto simp: Suc_diff_le)

lemma entries_ok_drop: "entries_ok es \<Longrightarrow> entries_ok (drop n es)"
  by (simp add: entries_ok_def sorted_wrt_drop flip: drop_map)

lemma entries_ok_erase: "entries_ok es \<Longrightarrow> entries_ok (erase_addr a es)"
  by (simp add: entries_ok_def erase_addr_def sorted_filter distinct_map inj_on_def)

lemma allowed_update [simp]:
  "is_ip_allowed a (p\<lparr>m_peers_white := w\<rparr>) = is_ip_allowed a p" "is_ip_allowed a (p\<lparr>m_peers_gray := g\<rparr>) = is_ip_allowed a p"
  by (simp_all add: is_ip_allowed_def)

lemma trim_ok: "peers_ok p \<Longrightarrow> peers_ok (trim_white_peerlist p)" "peers_ok p \<Longrightarrow> peers_ok (trim_gray_peerlist p)"
  by (auto simp: peers_ok_def trim_white_peerlist_def trim_gray_peerlist_def trim_loop_drop entries_ok_drop dest: in_set_dropD)

text \<open>A change that brings in at most the entry \<open>e\<close>, on one list.\<close>

lemma peers_ok_change:
  assumes "peers_ok p" and e: "is_ip_allowed (ip (adr e)) p"
    and w: "set (m_peers_white p') \<subseteq> insert e (set (m_peers_white p))" and g: "set (m_peers_gray p') \<subseteq> insert e (set (m_peers_gray p))"
    and "entries_ok (m_peers_white p')" "entries_ok (m_peers_gray p')"
    and one: "adr e \<notin> adr ` set (m_peers_white p') \<or> adr e \<notin> adr ` set (m_peers_gray p')"
  shows "peers_ok p'"
proof -
  have "\<not> is_ip_loopback (ip (adr e))" using e by (auto simp: is_ip_allowed_def)
  then have "\<forall>x \<in> set (m_peers_white p') \<union> set (m_peers_gray p'). \<not> is_ip_loopback (ip (adr x))"
    using assms(1) w g unfolding peers_ok_def by blast
  moreover have "adr x \<noteq> adr y" if x: "x \<in> set (m_peers_white p')" and y: "y \<in> set (m_peers_gray p')" for x y
  proof
    assume "adr x = adr y"
    then have "adr x \<noteq> adr e" using one x y by (metis imageI)
    then have "x \<in> set (m_peers_white p)" "y \<in> set (m_peers_gray p)" using x y w g \<open>adr x = adr y\<close> by auto
    then show False using assms(1) \<open>adr x = adr y\<close> unfolding peers_ok_def by blast
  qed
  then have "adr ` set (m_peers_white p') \<inter> adr ` set (m_peers_gray p') = {}" by blast
  ultimately show ?thesis using assms(5,6) unfolding peers_ok_def by blast
qed

context peers_container
begin

lemma set_insert: "\<not> has_addr (adr e) es \<Longrightarrow> set (pi_insert ops e es) = insert e (set es)"
  using arg_cong [OF insert_contents, of set_mset] by simp

lemma set_replace: "has_addr (adr e) es \<Longrightarrow> distinct (map adr es) \<Longrightarrow> set (pi_replace ops e es) = insert e (set (erase_addr (adr e) es))"
  using arg_cong [OF replace_contents, of e es set_mset] by simp

lemma distinct_adr_iff: "mset es' = add_mset e (mset es) \<Longrightarrow> distinct (map adr es') \<longleftrightarrow> adr e \<notin> adr ` set es \<and> distinct (map adr es)"
proof -
  assume "mset es' = add_mset e (mset es)"
  then have "mset (map adr es') = mset (map adr (e # es))" by simp
  from mset_eq_imp_distinct_iff [OF this] show ?thesis by simp
qed

lemma entries_ok_insert: "entries_ok es \<Longrightarrow> \<not> has_addr (adr e) es \<Longrightarrow> entries_ok (pi_insert ops e es)"
  using distinct_adr_iff [of "pi_insert ops e es" e es] by (simp add: entries_ok_def insert_sorted insert_contents) (simp add: has_addr_def)

lemma entries_ok_replace: "entries_ok es \<Longrightarrow> has_addr (adr e) es \<Longrightarrow> entries_ok (pi_replace ops e es)"
  using distinct_adr_iff [OF replace_contents, of e es] entries_ok_erase [of es "adr e"]
  by (auto simp: entries_ok_def replace_sorted erase_addr_def)

lemma update_entries:
  assumes "entries_ok es"
  shows "set ((if has_addr (adr e) es then pi_replace ops e else pi_insert ops e) es) \<subseteq> insert e (set es)"
    and "entries_ok ((if has_addr (adr e) es then pi_replace ops e else pi_insert ops e) es)"
  using assms by (auto simp: set_insert set_replace entries_ok_insert entries_ok_replace erase_addr_def entries_ok_def [THEN iffD1])

lemma white_inserted:
  assumes ok: "peers_ok p" and allowed: "is_ip_allowed (ip (adr e)) p" and g: "m_peers_gray p' = erase_addr (adr e) (drop n (m_peers_gray p))"
    and w: "m_peers_white p' = (if has_addr (adr e) (m_peers_white p) then pi_replace ops e else pi_insert ops e) (m_peers_white p)"
  shows "peers_ok p'"
proof (rule peers_ok_change [OF ok allowed])
  show "set (m_peers_white p') \<subseteq> insert e (set (m_peers_white p))" "entries_ok (m_peers_white p')"
    using update_entries [of "m_peers_white p" e] ok by (simp_all add: w peers_ok_def)
  show "set (m_peers_gray p') \<subseteq> insert e (set (m_peers_gray p))" by (auto simp: g erase_addr_def dest: in_set_dropD)
  show "entries_ok (m_peers_gray p')" using ok by (simp add: g peers_ok_def entries_ok_drop entries_ok_erase)
  show "adr e \<notin> adr ` set (m_peers_white p') \<or> adr e \<notin> adr ` set (m_peers_gray p')" by (auto simp: g erase_addr_def)
qed

lemma append_white_ok:
  assumes "peers_ok p"
  shows "peers_ok (snd (append_with_peer_white ops e p))"
proof (cases "is_ip_allowed (ip (adr e)) p")
  case True
  have absent: "\<not> has_addr a es \<Longrightarrow> erase_addr a es = es" for a es by (auto simp: has_addr_def erase_addr_def filter_id_conv)
  let ?n = "if has_addr (adr e) (m_peers_white p) then 0 else length (m_peers_gray p) - P2P_LOCAL_GRAY_PEERLIST_LIMIT"
  show ?thesis
    by (rule white_inserted [OF assms True, where n = ?n])
      (use True absent in \<open>auto simp: append_with_peer_white_def trim_white_peerlist_def trim_loop_drop Let_def\<close>)
qed (simp add: append_with_peer_white_def assms)

lemma append_gray_ok:
  assumes ok: "peers_ok p"
  shows "peers_ok (snd (append_with_peer_gray ops e p))"
proof (cases "is_ip_allowed (ip (adr e)) p \<and> \<not> has_addr (adr e) (m_peers_white p)")
  case True
  let ?p = "p\<lparr>m_peers_gray := (if has_addr (adr e) (m_peers_gray p) then pi_replace ops e else pi_insert ops e) (m_peers_gray p)\<rparr>"
  have gray: "entries_ok (m_peers_gray p)" using ok by (simp add: peers_ok_def)
  have "peers_ok ?p"
    by (rule peers_ok_change [OF ok, where e = e]) (use True ok update_entries [OF gray] in \<open>auto simp: peers_ok_def has_addr_def\<close>)
  then show ?thesis using True trim_ok(2) by (cases "has_addr (adr e) (m_peers_gray p)") (simp_all add: append_with_peer_gray_def)
qed (use ok in \<open>auto simp: append_with_peer_gray_def\<close>)

lemma merge_loop_ok: "peers_ok p \<Longrightarrow> peers_ok (merge_loop ops es p)"
  by (induction es arbitrary: p) (simp_all add: append_gray_ok)

lemma peers_step_ok: "peers_ok p \<Longrightarrow> peers_step ops p p' \<Longrightarrow> peers_ok p'"
  by (erule peers_step.cases)
    (auto simp: append_white_ok append_gray_ok merge_peerlist_def merge_loop_ok trim_ok set_peer_just_seen_def,
     simp_all add: pl_clear_def pl_init_def peers_ok_def entries_ok_def)

end

sublocale peers_container \<subseteq> peers: invariant_system peers_init "peers_step ops" peers_ok
proof
  show "peers_init p \<Longrightarrow> peers_ok p" for p by (simp add: peers_init_def peers_ok_def entries_ok_def)
qed (rule peers_step_ok)

context peers_container
begin

lemma reach_ok: "reach peers_init (peers_step ops) p \<Longrightarrow> peers_ok p"
  by (rule peers.reach_inv)

text \<open>Fresh addresses all enter the gray list.\<close>

lemma merge_fresh:
  assumes "distinct (map adr bs)" and "m_peers_white p = []" and "\<forall>e \<in> set bs. is_ip_allowed (ip (adr e)) p \<and> \<not> has_addr (adr e) (m_peers_gray p)"
  shows "mset (m_peers_gray (merge_loop ops bs p)) = mset bs + mset (m_peers_gray p) \<and> m_peers_white (merge_loop ops bs p) = []"
  using assms
proof (induction bs arbitrary: p)
  case (Cons b bs)
  let ?p = "snd (append_with_peer_gray ops b p)"
  have p: "?p = p\<lparr>m_peers_gray := pi_insert ops b (m_peers_gray p)\<rparr>"
    using Cons.prems by (cases p) (simp add: append_with_peer_gray_def trim_gray_peerlist_def has_addr_def trim_loop_drop)
  have "\<forall>e \<in> set bs. is_ip_allowed (ip (adr e)) ?p \<and> \<not> has_addr (adr e) (m_peers_gray ?p)"
    using Cons.prems set_insert [of b "m_peers_gray p"] by (auto simp: p has_addr_def) (metis imageI)
  with Cons.IH [of ?p] Cons.prems show ?case by (simp add: p insert_contents)
qed simp

end

text \<open>A container that puts an entry behind all others of the same time.\<close>

fun insert_upper :: "peerlist_entry \<Rightarrow> peerlist_entry list \<Rightarrow> peerlist_entry list" where
  "insert_upper e [] = [e]"
| "insert_upper e (x # xs) = (if last_seen e < last_seen x then e # x # xs else x # insert_upper e xs)"

definition upper_ops :: peers_ops where
  "upper_ops = \<lparr>pi_insert = (\<lambda>e es. if has_addr (adr e) es then es else insert_upper e es), pi_replace = (\<lambda>e es. insert_upper e (erase_addr (adr e) es))\<rparr>"

lemma set_insert_upper: "set (insert_upper e es) = insert e (set es)"
  by (induction es) auto

lemma sorted_insert_upper: "sorted (map last_seen es) \<Longrightarrow> sorted (map last_seen (insert_upper e es))"
  by (induction es) (auto simp: set_insert_upper)

lemma mset_insert_upper: "mset (insert_upper e es) = add_mset e (mset es)"
  by (induction es) auto

interpretation upper: peers_container upper_ops
  by unfold_locales
    (simp_all add: upper_ops_def mset_insert_upper sorted_insert_upper erase_addr_def sorted_filter)

section \<open>Properties\<close>

text \<open>C36: After any sequence of additions, merges, sightings, trims, clears and initialisations that starts
  with empty lists, no address is in both peer lists or twice in one, the lists are ordered by time, and
  none is a loopback address.\<close>

theorem peer_lists_consistent:
  assumes "peers_container ops" and "reach peers_init (peers_step ops) p"
  shows "distinct (map adr (m_peers_white p @ m_peers_gray p)) \<and> sorted (map last_seen (m_peers_white p)) \<and> sorted (map last_seen (m_peers_gray p))
    \<and> (\<forall>e \<in> set (m_peers_white p @ m_peers_gray p). \<not> is_ip_loopback (ip (adr e)))"
  using peers_container.reach_ok [OF assms] by (auto simp: peers_ok_def entries_ok_def)

definition sample_peer :: "u32 \<Rightarrow> int \<Rightarrow> peerlist_entry" where
  "sample_peer i t = \<lparr>adr = \<lparr>ip = i, port = 7777\<rparr>, peer_id = 1, last_seen = t\<rparr>"

definition no_peers :: peerlist_manager where
  "no_peers = \<lparr>m_allow_local_ip = False, m_peers_gray = [], m_peers_white = []\<rparr>"

text \<open>A local peer stays in the lists when the next run does not allow local addresses.\<close>

theorem stored_local_peer_kept:
  "\<exists>p e. reach peers_init (peers_step upper_ops) p \<and> e \<in> set (m_peers_white p) \<and> \<not> is_ip_allowed (ip (adr e)) p"
proof -
  let ?e = "sample_peer 0x0100000a 9"
  let ?p0 = "no_peers\<lparr>m_allow_local_ip := True\<rparr>"
  let ?p1 = "snd (append_with_peer_white upper_ops ?e ?p0)"
  let ?p2 = "pl_init False ?p1"
  have "reach peers_init (peers_step upper_ops) ?p0" by (rule reach_init) (simp add: peers_init_def no_peers_def)
  then have "reach peers_init (peers_step upper_ops) ?p1" by (rule reach_step) (rule White)
  then have "reach peers_init (peers_step upper_ops) ?p2" by (rule reach_step) (rule Init)
  moreover have "is_ip_allowed 0x0100000a ?p0" by (simp add: is_ip_allowed_def is_ip_loopback_def)
  then have "?p1 = ?p0\<lparr>m_peers_white := [?e]\<rparr>"
    by (simp add: append_with_peer_white_def trim_white_peerlist_def has_addr_def upper_ops_def no_peers_def sample_peer_def)
  then have "?e \<in> set (m_peers_white ?p2)" "\<not> is_ip_allowed (ip (adr ?e)) ?p2"
    by (simp_all add: pl_init_def is_ip_allowed_def is_ip_local_def sample_peer_def)
  ultimately show ?thesis by blast
qed

lemma sample_allowed: "is_ip_allowed 0x01020304 p" "is_ip_allowed 0x05060708 p"
  by (simp_all add: is_ip_allowed_def is_ip_loopback_def is_ip_local_def)

theorem peer_lists_consistent_witness:
  "\<exists>p. reach peers_init (peers_step upper_ops) p \<and> map (ip \<circ> adr) (m_peers_white p) = [0x01020304] \<and> map (ip \<circ> adr) (m_peers_gray p) = [0x05060708]
    \<and> distinct (map adr (m_peers_white p @ m_peers_gray p))"
proof -
  let ?p1 = "snd (append_with_peer_white upper_ops (sample_peer 0x01020304 9) no_peers)"
  let ?p2 = "snd (merge_peerlist upper_ops [sample_peer 0x01020304 3, sample_peer 0x05060708 4] ?p1)"
  have "reach peers_init (peers_step upper_ops) no_peers" by (rule reach_init) (simp add: peers_init_def no_peers_def)
  then have "reach peers_init (peers_step upper_ops) ?p1" by (rule reach_step) (rule White)
  then have r: "reach peers_init (peers_step upper_ops) ?p2" by (rule reach_step) (rule Merge)
  have p1: "?p1 = no_peers\<lparr>m_peers_white := [sample_peer 0x01020304 9]\<rparr>"
    using sample_allowed [of no_peers]
    by (simp add: append_with_peer_white_def trim_white_peerlist_def has_addr_def upper_ops_def no_peers_def sample_peer_def)
  have "?p2 = no_peers\<lparr>m_peers_white := [sample_peer 0x01020304 9], m_peers_gray := [sample_peer 0x05060708 4]\<rparr>"
    unfolding p1 using sample_allowed
    by (simp add: append_with_peer_gray_def merge_peerlist_def trim_gray_peerlist_def has_addr_def upper_ops_def no_peers_def sample_peer_def
        P2P_LOCAL_WHITE_PEERLIST_LIMIT_def)
  then have "map (ip \<circ> adr) (m_peers_white ?p2) = [0x01020304] \<and> map (ip \<circ> adr) (m_peers_gray ?p2) = [0x05060708]"
    by (simp add: sample_peer_def)
  then show ?thesis using r peer_lists_consistent [OF upper.peers_container_axioms r] by (intro exI [of _ ?p2] conjI) (rule conjunct1, assumption | blast)+
qed

theorem gray_list_unbounded:
  assumes "peers_container ops" and "peers_init p" and "distinct (map adr bs)" and "\<forall>e \<in> set bs. is_ip_allowed (ip (adr e)) p"
  shows "get_gray_peers_count (snd (merge_peerlist ops bs p)) = length bs"
proof -
  have "mset (m_peers_gray (merge_loop ops bs p)) = mset bs"
    using peers_container.merge_fresh [OF assms(1,3)] assms(2,4) by (simp add: peers_init_def has_addr_def)
  then have "length (m_peers_gray (merge_loop ops bs p)) = length bs" by (metis size_mset)
  then show ?thesis by (simp add: get_gray_peers_count_def merge_peerlist_def trim_gray_peerlist_def)
qed

theorem gray_list_unbounded_witness:
  "\<exists>bs. length bs > P2P_LOCAL_GRAY_PEERLIST_LIMIT \<and> get_gray_peers_count (snd (merge_peerlist upper_ops bs no_peers)) = length bs"
proof -
  define N :: nat where "N = 5001"
  define bs where "bs = map (\<lambda>n. sample_peer 0x01020304 1\<lparr>adr := \<lparr>ip = 0x01020304, port = word_of_nat n\<rparr>\<rparr>) [0..<N]"
  have "inj_on (\<lambda>n. word_of_nat n :: u32) {0..<N}"
  proof (rule inj_onI)
    fix x y assume xy: "x \<in> {0..<N}" "y \<in> {0..<N}" "(word_of_nat x :: u32) = word_of_nat y"
    have "unat (word_of_nat x :: u32) = x" "unat (word_of_nat y :: u32) = y"
      using xy(1,2) by (simp_all add: unat_of_nat_small N_def)
    then show "x = y" using xy(3) by metis
  qed
  then have d: "distinct (map adr bs)" by (simp add: bs_def distinct_map inj_on_def)
  have len: "length bs = N" by (simp add: bs_def)
  have "\<forall>e \<in> set bs. is_ip_allowed (ip (adr e)) no_peers" using sample_allowed(1) by (auto simp: bs_def)
  moreover have "peers_init no_peers" by (simp add: peers_init_def no_peers_def)
  ultimately have "get_gray_peers_count (snd (merge_peerlist upper_ops bs no_peers)) = length bs"
    using gray_list_unbounded [OF upper.peers_container_axioms _ d] by blast
  then show ?thesis by (intro exI [of _ bs]) (simp add: len P2P_LOCAL_GRAY_PEERLIST_LIMIT_def N_def)
qed

lemma head_loop_eq:
  assumes "unat cnt + length vs < 2 ^ 32 - 1"
  shows "head_loop depth cnt vs bs = bs @ take (if unat cnt > unat depth then 1 else unat depth + 2 - unat cnt) (filter (\<lambda>e. last_seen e \<noteq> 0) vs)"
  using assms
proof (induction vs arbitrary: cnt bs)
  case (Cons v vs)
  have "unat (cnt + 1) = unat cnt + 1" using Cons.prems by (subst unat_add_no_wrap) simp_all
  then show ?case using Cons.IH [of "cnt + 1"] Cons.IH [of cnt] Cons.prems
    by (auto simp: Let_def word_less_nat_alt take_Suc Suc_diff_le)
qed simp

theorem peerlist_head_recent:
  assumes "get_white_peers_count p < 2 ^ 32 - 1"
  shows "get_peerlist_head depth p = take (unat depth + 2) (filter (\<lambda>e. last_seen e \<noteq> 0) (rev (m_peers_white p)))"
  using head_loop_eq [of 0 "rev (m_peers_white p)" depth "[]"] assms by (simp add: get_peerlist_head_def get_white_peers_count_def)

theorem peerlist_head_recent_witness:
  "length (get_peerlist_head 0 (no_peers\<lparr>m_peers_white := [sample_peer 1 1, sample_peer 2 2, sample_peer 3 3]\<rparr>)) = 2"
  using peerlist_head_recent [of "no_peers\<lparr>m_peers_white := [sample_peer 1 1, sample_peer 2 2, sample_peer 3 3]\<rparr>" 0]
  by (simp add: get_white_peers_count_def sample_peer_def take_Cons')

theorem local_addresses:
  "is_ip_local a \<longleftrightarrow> a AND 0xff = 10 \<or> a AND 0xffff = 0xa8c0"
proof -
  have mask: "x OR NOT m = v OR NOT m \<longleftrightarrow> x AND m = v AND m" for x v m :: u32
    by (auto simp: bit_eq_iff bit_simps)
  have "(0xffffff00 :: u32) = NOT 0xff" "(0xffffff0a :: u32) = 10 OR NOT 0xff" "(0xffff0000 :: u32) = NOT 0xffff" "(0xffffa8c0 :: u32) = 0xa8c0 OR NOT 0xffff"
    by simp_all
  then have "a OR 0xffffff00 = 0xffffff0a \<longleftrightarrow> a AND 0xff = 10 AND 0xff" "a OR 0xffff0000 = 0xffffa8c0 \<longleftrightarrow> a AND 0xffff = 0xa8c0 AND 0xffff"
    using mask by metis+
  then have "a OR 0xffffff00 = 0xffffff0a \<longleftrightarrow> a AND 0xff = 10" "a OR 0xffff0000 = 0xffffa8c0 \<longleftrightarrow> a AND 0xffff = 0xa8c0"
    by simp_all
  moreover have "\<not> (push_bit 8 a AND 0xff000000 \<ge> 16 \<and> push_bit 8 a AND 0xff000000 \<le> 31)"
  proof
    let ?s = "push_bit 8 a AND 0xff000000"
    assume s: "?s \<ge> 16 \<and> ?s \<le> 31"
    have "take_bit 24 ?s = 0" by (rule bit_eqI) (auto simp: bit_simps bit_numeral_iff)
    then have "unat ?s mod 2 ^ 24 = 0" by (metis take_bit_eq_mod unat_0 unsigned_take_bit_eq)
    then show False using s by (auto simp: word_le_nat_alt)
  qed
  ultimately show ?thesis by (auto simp: is_ip_local_def Let_def)
qed

end
