(* ===== verification/Wallet.thy ===== *)
theory Wallet
  imports ProtocolHandler Base58 "HOL-Library.AList"
begin

text \<open>
  The wallet: \<open>src/wallet/wallet2.cpp\<close> and \<open>wallet2.h\<close>. Modelled are the state kept in memory, the processing of blocks
  and transactions, reorganizations, balances, the selection of outputs and the sending of a transaction. The keys of
  the account, the construction of transactions, the clock and the answers of the daemon are the record \<open>wallet_env\<close>;
  a request that fails for any reason has no answer. Files, callbacks and the log are left out. A function returns its
  result or the exception, with the state at that moment.
\<close>

section \<open>State\<close>

record transfer_details =
  td_block_height :: u64
  td_tx :: transaction
  td_internal_output_index :: nat
  td_global_output_index :: u64
  td_spent :: bool
  td_key_image :: key_image

definition td_amount :: "transfer_details \<Rightarrow> u64" where
  "td_amount td = o_amount (vout (td_tx td) ! td_internal_output_index td)"

record unconfirmed_transfer_details =
  ut_tx :: transaction
  ut_change :: u64
  ut_sent_time :: u64
  ut_recipient :: bytes
  ut_recipient_alias :: bytes

record payment_details =
  pd_tx_hash :: hash
  pd_amount :: u64
  pd_block_height :: u64
  pd_unlock_time :: u64

record wallet_transfer_info =
  wti_amount :: u64
  wti_timestamp :: u64
  wti_tx_hash :: bytes
  wti_height :: u64
  wti_unlock_time :: u64
  wti_tx_blob_size :: u32
  wti_payment_id :: bytes
  wti_recipient :: bytes
  wti_recipient_alias :: bytes
  wti_is_income :: bool
  wti_fee :: u64
  wti_rcv :: "u64 list"
  wti_spn :: "u64 list"
  wti_tx :: transaction

record wallet2 =
  m_blockchain :: "hash list"
  m_local_bc_height :: u64
  m_unconfirmed_txs :: "(hash \<times> unconfirmed_transfer_details) list"
  m_transfers :: "transfer_details list"
  m_payments :: "(hash \<times> payment_details) list"
  m_key_images :: "key_image \<rightharpoonup> nat"
  m_upper_transaction_size_limit :: u64
  m_transfer_history :: "wallet_transfer_info list"
  m_unconfirmed_in_transfers :: "hash \<rightharpoonup> transaction"

record tx_destination_entry =
  de_amount :: u64
  de_addr :: account_public_address

record tx_source_entry =
  se_outputs :: "(u64 \<times> public_key) list"
  se_real_output :: nat
  se_real_out_tx_key :: public_key
  se_real_output_in_tx_index :: nat
  se_amount :: u64

record tx_dust_policy =
  dust_threshold :: u64
  add_to_fee :: bool
  addr_for_dust :: account_public_address

datatype wallet_error = tx_extra_parse_error | acc_outs_lookup_error | no_connection_to_daemon | wallet_internal_error
  | block_parse_error | tx_parse_error | get_blocks_error | zero_destination | tx_sum_overflow | not_enough_money
  | not_enough_outs_to_mix | tx_not_constructed | tx_too_big | unexpected_txin_type | tx_rejected
  | file_exists | file_not_found | file_read_error | file_save_error | invalid_password | wallet_files_doesnt_correspond | filesystem_error
  | bad_get | undefined_access

record wallet_env =
  we_now :: u64
  we_createtime :: u64
  we_address :: account_public_address
  we_donation_account :: "(txout_to_key \<Rightarrow> public_key \<Rightarrow> nat \<Rightarrow> bool) option"
  is_out_to_acc :: "txout_to_key \<Rightarrow> public_key \<Rightarrow> nat \<Rightarrow> bool"
  generate_key_image_helper :: "public_key \<Rightarrow> nat \<Rightarrow> public_key \<times> key_image"
  construct_tx :: "tx_source_entry list \<Rightarrow> tx_destination_entry list \<Rightarrow> bytes \<Rightarrow> u64 \<Rightarrow> transaction option"
  get_o_indexes :: "hash \<Rightarrow> u64 list option"
  get_random_outs :: "u64 list \<Rightarrow> u64 \<Rightarrow> (u64 \<times> public_key) list list option"
  get_blocks_median :: "u64 option"
  check_connection :: bool
  send_raw_tx :: "transaction \<Rightarrow> wallet_error option"
  get_alias_for_address :: "bytes \<Rightarrow> bytes"

type_synonym 'a wallet_effect = "(wallet_error + 'a) \<times> wallet2"

definition w_next :: "'a wallet_effect \<Rightarrow> ('a \<Rightarrow> wallet2 \<Rightarrow> 'b wallet_effect) \<Rightarrow> 'b wallet_effect" where
  "w_next m f = (case m of (Inl e, w) \<Rightarrow> (Inl e, w) | (Inr a, w) \<Rightarrow> f a w)"

definition DEFAULT_TX_SPENDABLE_AGE :: u64 where
  "DEFAULT_TX_SPENDABLE_AGE = 10"

definition CURRENCY_PUBLIC_ADDRESS_BASE58_PREFIX :: u64 where
  "CURRENCY_PUBLIC_ADDRESS_BASE58_PREFIX = 72"

text \<open>An address in \<open>base58\<close>; the encoder of the library is total, so that the default does not occur.\<close>

definition get_account_address_as_str :: "account_public_address \<Rightarrow> bytes" where
  "get_account_address_as_str adr =
    (case encode_addr cn_fast_hash CURRENCY_PUBLIC_ADDRESS_BASE58_PREFIX (m_spend_public_key adr @ m_view_public_key adr) of None \<Rightarrow> [] | Some s \<Rightarrow> s)"

section \<open>Incoming transactions\<close>

fun fill_spent :: "transaction \<Rightarrow> nat list \<Rightarrow> wallet_transfer_info \<Rightarrow> (wallet_error option \<times> bool) \<times> wallet_transfer_info" where
  "fill_spent tx [] wti = ((None, True), wti)"
| "fill_spent tx (si # sis) wti =
    (if \<not> si < length (vin tx) then ((None, False), wti)
     else case vin tx ! si of
            TxinToKey k \<Rightarrow> fill_spent tx sis (wti\<lparr>wti_spn := wti_spn wti @ [ki_amount k]\<rparr>)
          | _ \<Rightarrow> ((Some bad_get, False), wti))"

fun fill_received :: "transaction \<Rightarrow> nat list \<Rightarrow> wallet_transfer_info \<Rightarrow> wallet_transfer_info" where
  "fill_received tx [] wti = wti"
| "fill_received tx (ri # ris) wti =
    (if \<not> ri < length (vout tx) then wti
     else fill_received tx ris (wti\<lparr>wti_rcv := wti_rcv wti @ [o_amount (vout tx ! ri)]\<rparr>))"

definition fill_transfer_details ::
  "transaction \<Rightarrow> nat list \<Rightarrow> nat list \<Rightarrow> wallet_transfer_info \<Rightarrow> wallet_error option \<times> wallet_transfer_info" where
  "fill_transfer_details tx receive_indices spent_indices wti =
    (case fill_spent tx spent_indices wti of
       ((e, ok), wti) \<Rightarrow> (e, if ok then fill_received tx receive_indices wti else wti))"

definition empty_wti :: wallet_transfer_info where
  "empty_wti = \<lparr>wti_amount = 0, wti_timestamp = 0, wti_tx_hash = [], wti_height = 0, wti_unlock_time = 0, wti_tx_blob_size = 0,
     wti_payment_id = [], wti_recipient = [], wti_recipient_alias = [], wti_is_income = False, wti_fee = 0, wti_rcv = [], wti_spn = [],
     wti_tx = \<lparr>version = 0, unlock_time = 0, vin = [], vout = [], extra = [], signatures = []\<rparr>\<rparr>"

text \<open>The payment id has the size of a hash; a read outside of the extra field is reported.\<close>

definition payment_id_of :: "wallet_env \<Rightarrow> transaction \<Rightarrow> wallet_error + hash option" where
  "payment_id_of env tx =
    (case get_payment_id_from_tx_extra (we_donation_account env) tx of
       OutOfBounds \<Rightarrow> Inl undefined_access
     | Refused _ \<Rightarrow> Inr None
     | Done None \<Rightarrow> Inr None
     | Done (Some pid) \<Rightarrow> Inr (if length pid = 32 then Some pid else None))"

definition prepare_wti ::
  "wallet_env \<Rightarrow> u64 \<Rightarrow> u64 \<Rightarrow> transaction \<Rightarrow> u64 \<Rightarrow> nat list \<Rightarrow> nat list \<Rightarrow> wallet_transfer_info
    \<Rightarrow> wallet_error option \<times> wallet_transfer_info" where
  "prepare_wti env height tstamp tx amount receive_indices spent_indices wti =
    (let wti = wti\<lparr>wti_tx := tx, wti_amount := amount, wti_height := height\<rparr>
     in case payment_id_of env tx of
          Inl e \<Rightarrow> (Some e, wti)
        | Inr pid \<Rightarrow>
            let wti = (case pid of None \<Rightarrow> wti | Some p \<Rightarrow> wti\<lparr>wti_payment_id := buff_to_hex_nodelimer p\<rparr>)
            in case fill_transfer_details tx receive_indices spent_indices wti of
                 (Some e, wti) \<Rightarrow> (Some e, wti)
               | (None, wti) \<Rightarrow>
                   (None, wti\<lparr>wti_timestamp := tstamp, wti_fee := (if is_coinbase tx then 0 else get_tx_fee_or_0 tx),
                     wti_unlock_time := unlock_time tx, wti_tx_blob_size := ucast (get_object_blobsize tx),
                     wti_tx_hash := buff_to_hex_nodelimer (get_transaction_hash tx)\<rparr>))"

text \<open>An exception in \<open>prepare_wti\<close> leaves the new entry of the history behind, with the fields set so far.\<close>

definition handle_money_received2 :: "wallet_env \<Rightarrow> block \<Rightarrow> transaction \<Rightarrow> u64 \<Rightarrow> nat list \<Rightarrow> nat list \<Rightarrow> wallet2 \<Rightarrow> unit wallet_effect" where
  "handle_money_received2 env b tx amount rcv spn w =
    (case prepare_wti env (get_block_height b) (timestamp b) tx amount rcv spn empty_wti of
       (Some e, wti) \<Rightarrow> (Inl e, w\<lparr>m_transfer_history := m_transfer_history w @ [wti]\<rparr>)
     | (None, wti) \<Rightarrow> (Inr (), w\<lparr>m_transfer_history := m_transfer_history w @ [wti\<lparr>wti_is_income := True\<rparr>]\<rparr>))"

definition handle_money_spent2 ::
  "wallet_env \<Rightarrow> block \<Rightarrow> transaction \<Rightarrow> u64 \<Rightarrow> nat list \<Rightarrow> nat list \<Rightarrow> bytes \<Rightarrow> bytes \<Rightarrow> wallet2 \<Rightarrow> unit wallet_effect" where
  "handle_money_spent2 env b in_tx amount rcv spn recipient recipient_alias w =
    (case prepare_wti env (get_block_height b) (timestamp b) in_tx amount rcv spn empty_wti of
       (Some e, wti) \<Rightarrow> (Inl e, w\<lparr>m_transfer_history := m_transfer_history w @ [wti]\<rparr>)
     | (None, wti) \<Rightarrow> (Inr (), w\<lparr>m_transfer_history := m_transfer_history w
          @ [wti\<lparr>wti_is_income := False, wti_recipient := recipient, wti_recipient_alias := recipient_alias\<rparr>]\<rparr>))"

definition process_unconfirmed :: "transaction \<Rightarrow> wallet2 \<Rightarrow> (bytes \<times> bytes) \<times> wallet2" where
  "process_unconfirmed tx w =
    (case map_of (m_unconfirmed_txs w) (get_transaction_hash tx) of
       None \<Rightarrow> (([], []), w)
     | Some u \<Rightarrow> ((ut_recipient u, ut_recipient_alias u),
         w\<lparr>m_unconfirmed_txs := AList.delete (get_transaction_hash tx) (m_unconfirmed_txs w)\<rparr>))"

fun lookup_outs_loop :: "wallet_env \<Rightarrow> public_key \<Rightarrow> nat \<Rightarrow> tx_out list \<Rightarrow> nat list \<Rightarrow> u64 \<Rightarrow> (nat list \<times> u64) option" where
  "lookup_outs_loop env tx_pub_key i [] outs money = Some (outs, money)"
| "lookup_outs_loop env tx_pub_key i (out # os) outs money =
    (case o_target out of
       TxoutToKey k \<Rightarrow>
         if is_out_to_acc env k tx_pub_key i
         then lookup_outs_loop env tx_pub_key (i + 1) os (outs @ [i]) (money + o_amount out)
         else lookup_outs_loop env tx_pub_key (i + 1) os outs money
     | _ \<Rightarrow> None)"

definition lookup_acc_outs :: "wallet_env \<Rightarrow> transaction \<Rightarrow> public_key \<Rightarrow> (nat list \<times> u64) option" where
  "lookup_acc_outs env tx tx_pub_key = lookup_outs_loop env tx_pub_key 0 (vout tx) [] 0"

text \<open>The loop over the received outputs. The result is the list of their indices.\<close>

fun receive_loop :: "wallet_env \<Rightarrow> transaction \<Rightarrow> public_key \<Rightarrow> u64 \<Rightarrow> u64 list \<Rightarrow> nat list \<Rightarrow> nat list \<Rightarrow> wallet2 \<Rightarrow> nat list wallet_effect" where
  "receive_loop env tx tx_pub_key height o_indexes [] rcv w = (Inr rcv, w)"
| "receive_loop env tx tx_pub_key height o_indexes (out_i # outs) rcv w =
    (if length (vout tx) \<le> out_i then (Inl wallet_internal_error, w)
     else let (pub, ki) = generate_key_image_helper env tx_pub_key out_i;
              td = \<lparr>td_block_height = height, td_tx = tx, td_internal_output_index = out_i, td_global_output_index = o_indexes ! out_i,
                td_spent = False, td_key_image = ki\<rparr>;
              w = w\<lparr>m_transfers := m_transfers w @ [td]\<rparr>
          in case o_target (vout tx ! out_i) of
               TxoutToKey k \<Rightarrow>
                 if pub \<noteq> tk_key k then (Inl wallet_internal_error, w)
                 else receive_loop env tx tx_pub_key height o_indexes outs (rcv @ [out_i])
                        (w\<lparr>m_key_images := (m_key_images w)(ki \<mapsto> length (m_transfers w) - 1)\<rparr>)
             | _ \<Rightarrow> (Inl bad_get, w))"

text \<open>The loop over the inputs: the spent amount and the indices of the own inputs among those with a key image.\<close>

fun spend_loop :: "nat \<Rightarrow> txin_v list \<Rightarrow> u64 \<Rightarrow> nat list \<Rightarrow> wallet2 \<Rightarrow> (u64 \<times> nat list) wallet_effect" where
  "spend_loop i [] money spn w = (Inr (money, spn), w)"
| "spend_loop i (TxinToKey k # ins) money spn w =
    (case m_key_images w (ki_k_image k) of
       None \<Rightarrow> spend_loop (i + 1) ins money spn w
     | Some t \<Rightarrow>
         if length (m_transfers w) \<le> t then (Inl undefined_access, w)
         else spend_loop (i + 1) ins (money + ki_amount k) (spn @ [i])
                (w\<lparr>m_transfers := (m_transfers w)[t := (m_transfers w ! t)\<lparr>td_spent := True\<rparr>]\<rparr>))"
| "spend_loop i (_ # ins) money spn w = spend_loop i ins money spn w"

definition add_payment :: "hash \<Rightarrow> payment_details \<Rightarrow> wallet2 \<Rightarrow> wallet2" where
  "add_payment payment_id payment w = w\<lparr>m_payments := m_payments w @ [(payment_id, payment)]\<rparr>"

text \<open>The part after the loops: the payment and the history.\<close>

definition record_transfer ::
  "wallet_env \<Rightarrow> transaction \<Rightarrow> u64 \<Rightarrow> block \<Rightarrow> u64 \<Rightarrow> u64 \<Rightarrow> nat list \<Rightarrow> nat list \<Rightarrow> bytes \<Rightarrow> bytes \<Rightarrow> wallet2 \<Rightarrow> unit wallet_effect" where
  "record_transfer env tx height b got spent rcv spn recipient recipient_alias w =
    (case (if got \<noteq> 0 then payment_id_of env tx else Inr None) of
       Inl e \<Rightarrow> (Inl e, w)
     | Inr pid \<Rightarrow>
         let received = (if spent < got then got - spent else 0);
             w = (case pid of
                    None \<Rightarrow> w
                  | Some p \<Rightarrow>
                      if 0 < received \<and> null_hash \<noteq> p
                      then add_payment p \<lparr>pd_tx_hash = get_transaction_hash tx, pd_amount = received, pd_block_height = height,
                        pd_unlock_time = unlock_time tx\<rparr> w
                      else w)
         in if spent \<noteq> 0
            then if spent > got then handle_money_spent2 env b tx (spent - got) rcv spn recipient recipient_alias w
                 else w_next (handle_money_spent2 env b tx spent rcv spn recipient recipient_alias w) (\<lambda>_ w.
                        handle_money_received2 env b tx got rcv spn w)
            else if got \<noteq> 0 then handle_money_received2 env b tx got rcv spn w
            else (Inr (), w))"

text \<open>The returned amount of coins only goes to the log.\<close>

definition process_new_transaction :: "wallet_env \<Rightarrow> transaction \<Rightarrow> u64 \<Rightarrow> block \<Rightarrow> wallet2 \<Rightarrow> unit wallet_effect" where
  "process_new_transaction env tx height b w =
    (let ((recipient, recipient_alias), w) = process_unconfirmed tx w
     in case parse_tx_pub_key (we_donation_account env) tx of
          None \<Rightarrow> (Inl undefined_access, w)
        | Some (r, tx_pub_key) \<Rightarrow>
            if \<not> r then (Inl tx_extra_parse_error, w)
            else case lookup_acc_outs env tx tx_pub_key of
                   None \<Rightarrow> (Inl acc_outs_lookup_error, w)
                 | Some (outs, got) \<Rightarrow>
                     w_next (if outs \<noteq> [] \<and> got \<noteq> 0
                             then case get_o_indexes env (get_transaction_hash tx) of
                                    None \<Rightarrow> (Inl no_connection_to_daemon, w)
                                  | Some o_indexes \<Rightarrow>
                                      if length o_indexes \<noteq> length (vout tx) then (Inl wallet_internal_error, w)
                                      else receive_loop env tx tx_pub_key height o_indexes outs [] w
                             else (Inr [], w)) (\<lambda>rcv w.
                       w_next (spend_loop 0 (vin tx) 0 [] w) (\<lambda>(spent, spn) w.
                         record_transfer env tx height b got spent rcv spn recipient recipient_alias w)))"

section \<open>Blocks\<close>

fun process_txs :: "wallet_env \<Rightarrow> bytes list \<Rightarrow> u64 \<Rightarrow> block \<Rightarrow> wallet2 \<Rightarrow> unit wallet_effect" where
  "process_txs env [] height b w = (Inr (), w)"
| "process_txs env (txblob # txs) height b w =
    (case parse_and_validate_tx_from_blob txblob of
       None \<Rightarrow> (Inl tx_parse_error, w)
     | Some tx \<Rightarrow> w_next (process_new_transaction env tx height b w) (\<lambda>_ w. process_txs env txs height b w))"

definition process_new_blockchain_entry :: "wallet_env \<Rightarrow> block \<Rightarrow> block_complete_entry \<Rightarrow> hash \<Rightarrow> u64 \<Rightarrow> wallet2 \<Rightarrow> unit wallet_effect" where
  "process_new_blockchain_entry env b bche bl_id height w =
    (if unat height \<noteq> length (m_blockchain w) then (Inl wallet_internal_error, w)
     else w_next (if timestamp b + 60 * 60 * 24 > we_createtime env
                  then w_next (process_new_transaction env (miner_tx b) height b w) (\<lambda>_ w. process_txs env (bce_txs bche) height b w)
                  else (Inr (), w)) (\<lambda>_ w.
       (Inr (), w\<lparr>m_blockchain := m_blockchain w @ [bl_id], m_local_bc_height := m_local_bc_height w + 1\<rparr>)))"

text \<open>The key images of the detached transfers are erased one by one.\<close>

fun erase_images :: "transfer_details list \<Rightarrow> wallet2 \<Rightarrow> unit wallet_effect" where
  "erase_images [] w = (Inr (), w)"
| "erase_images (td # tds) w =
    (if m_key_images w (td_key_image td) = None then (Inl wallet_internal_error, w)
     else erase_images tds (w\<lparr>m_key_images := (m_key_images w)(td_key_image td := None)\<rparr>))"

definition detach_blockchain :: "u64 \<Rightarrow> wallet2 \<Rightarrow> unit wallet_effect" where
  "detach_blockchain height w =
    (let kept = takeWhile (\<lambda>td. \<not> td_block_height td \<ge> height) (m_transfers w)
     in w_next (erase_images (drop (length kept) (m_transfers w)) w) (\<lambda>_ w.
       if length (m_blockchain w) < unat height then (Inl undefined_access, w\<lparr>m_transfers := kept\<rparr>)
       else (Inr (), w\<lparr>m_transfers := kept, m_blockchain := take (unat height) (m_blockchain w),
         m_local_bc_height := m_local_bc_height w - word_of_nat (length (m_blockchain w) - unat height),
         m_payments := filter (\<lambda>(_, p). \<not> height \<le> pd_block_height p) (m_payments w),
         m_transfer_history := takeWhile (\<lambda>wti. \<not> wti_height wti \<ge> height) (m_transfer_history w),
         m_unconfirmed_in_transfers := Map.empty\<rparr>)))"

definition process_new_block :: "wallet_env \<Rightarrow> notify_new_block \<Rightarrow> wallet2 \<Rightarrow> unit wallet_effect" where
  "process_new_block env req w =
    (let h = nb_current_blockchain_height req
     in case parse_and_validate_block_from_blob (bce_block (nb_b req)) of
          None \<Rightarrow> (Inl block_parse_error, w)
        | Some bl \<Rightarrow>
            let bl_id = get_block_hash bl
            in if unat h \<ge> length (m_blockchain w) then process_new_blockchain_entry env bl (nb_b req) bl_id h w
               else if bl_id \<noteq> m_blockchain w ! unat h
               then w_next (detach_blockchain h w) (\<lambda>_ w. process_new_blockchain_entry env bl (nb_b req) bl_id h w)
               else (Inr (), w))"

text \<open>The loop over the blocks of an answer; \<open>blocks_added\<close> is a reference, so that it keeps its value when an exception is thrown.\<close>

fun pull_loop :: "wallet_env \<Rightarrow> u64 \<Rightarrow> u64 \<Rightarrow> block_complete_entry list \<Rightarrow> nat \<Rightarrow> wallet2 \<Rightarrow> nat \<times> unit wallet_effect" where
  "pull_loop env start_height current_index [] blocks_added w = (blocks_added, Inr (), w)"
| "pull_loop env start_height current_index (e # es) blocks_added w =
    (case parse_and_validate_block_from_blob (bce_block e) of
       None \<Rightarrow> (blocks_added, Inl block_parse_error, w)
     | Some bl \<Rightarrow>
         let bl_id = get_block_hash bl
         in if unat current_index \<ge> length (m_blockchain w)
            then case process_new_blockchain_entry env bl e bl_id current_index w of
                   (Inl x, w) \<Rightarrow> (blocks_added, Inl x, w)
                 | (Inr _, w) \<Rightarrow> pull_loop env start_height (current_index + 1) es (blocks_added + 1) w
            else if bl_id \<noteq> m_blockchain w ! unat current_index
            then if current_index = start_height then (blocks_added, Inl wallet_internal_error, w)
                 else case w_next (detach_blockchain current_index w) (\<lambda>_ w. process_new_blockchain_entry env bl e bl_id current_index w) of
                        (Inl x, w) \<Rightarrow> (blocks_added, Inl x, w)
                      | (Inr _, w) \<Rightarrow> pull_loop env start_height (current_index + 1) es blocks_added w
            else pull_loop env start_height (current_index + 1) es blocks_added w)"

text \<open>The answer of the daemon to the short history: a start height and blocks.\<close>

type_synonym blocks_answer = "(u64 \<times> block_complete_entry list) option"

definition pull_blocks :: "wallet_env \<Rightarrow> blocks_answer \<Rightarrow> wallet2 \<Rightarrow> nat \<times> unit wallet_effect" where
  "pull_blocks env res w =
    (case res of
       None \<Rightarrow> (0, Inl no_connection_to_daemon, w)
     | Some (start_height, blocks) \<Rightarrow>
         if length (m_blockchain w) \<le> unat start_height then (0, Inl wallet_internal_error, w)
         else pull_loop env start_height start_height blocks 0 w)"

text \<open>
  The loop of \<open>refresh\<close>. \<open>m_run\<close> is an atomic flag that another thread clears: \<open>ress\<close> are the answers of the daemon for the
  passes that begin before that. An exception of \<open>pull_blocks\<close> is caught; the result has the fetched blocks and the answers
  that were not needed.
\<close>

fun refresh_loop :: "wallet_env \<Rightarrow> blocks_answer list \<Rightarrow> nat \<Rightarrow> nat \<Rightarrow> wallet2 \<Rightarrow> (nat \<times> blocks_answer list) \<times> wallet2" where
  "refresh_loop env [] blocks_fetched try_count w = ((blocks_fetched, []), w)"
| "refresh_loop env (res # ress) blocks_fetched try_count w =
    (case pull_blocks env res w of
       (added_blocks, Inr _, w) \<Rightarrow>
         let blocks_fetched = blocks_fetched + added_blocks
         in if added_blocks = 0 then ((blocks_fetched, ress), w) else refresh_loop env ress blocks_fetched try_count w
     | (added_blocks, Inl _, w) \<Rightarrow>
         let blocks_fetched = blocks_fetched + added_blocks
         in if try_count < 3 then refresh_loop env ress blocks_fetched (try_count + 1) w else refresh_loop env ress blocks_fetched try_count w)"

definition last_tx_hash_id :: "wallet2 \<Rightarrow> hash" where
  "last_tx_hash_id w = (if m_transfers w \<noteq> [] then get_transaction_hash (td_tx (last (m_transfers w))) else null_hash)"

definition refresh :: "wallet_env \<Rightarrow> blocks_answer list \<Rightarrow> wallet2 \<Rightarrow> (nat \<times> bool) \<times> wallet2" where
  "refresh env ress w =
    (case refresh_loop env ress 0 0 w of
       ((blocks_fetched, _), w') \<Rightarrow> ((blocks_fetched, last_tx_hash_id w \<noteq> last_tx_hash_id w'), w'))"

text \<open>The history is the loop of \<open>getShortChainHistory\<close> over the ids of the wallet.\<close>

definition wallet_short_chain_history :: "wallet2 \<Rightarrow> hash list option" where
  "wallet_short_chain_history w =
    (let sz = word_of_nat (length (m_blockchain w))
     in if sz = 0 then Some []
        else case history_loop (m_blockchain w) sz 0 1 1 False [] of
               None \<Rightarrow> None
             | Some (genesis_included, ids) \<Rightarrow> Some (if genesis_included then ids else ids @ [m_blockchain w ! 0]))"

definition wallet_clear :: "hash \<Rightarrow> wallet2 \<Rightarrow> wallet2" where
  "wallet_clear genesis_id w = w\<lparr>m_transfers := [], m_blockchain := [genesis_id], m_local_bc_height := 1\<rparr>"

section \<open>Unconfirmed transactions\<close>

fun recharge_loop :: "txin_v list \<Rightarrow> wallet2 \<Rightarrow> unit wallet_effect" where
  "recharge_loop [] w = (Inr (), w)"
| "recharge_loop (TxinToKey k # ins) w =
    (case m_key_images w (ki_k_image k) of
       None \<Rightarrow> recharge_loop ins w
     | Some t \<Rightarrow>
         if length (m_transfers w) \<le> t then (Inl undefined_access, w)
         else recharge_loop ins (w\<lparr>m_transfers := (m_transfers w)[t := (m_transfers w ! t)\<lparr>td_spent := False\<rparr>]\<rparr>))"
| "recharge_loop (_ # ins) w = recharge_loop ins w"

definition recharge_transfers :: "transaction \<Rightarrow> wallet2 \<Rightarrow> unit wallet_effect" where
  "recharge_transfers tx w = recharge_loop (vin tx) w"

text \<open>Deleting all unconfirmed transactions, and a single one.\<close>

fun delete_all_loop :: "(hash \<times> unconfirmed_transfer_details) list \<Rightarrow> wallet2 \<Rightarrow> unit wallet_effect" where
  "delete_all_loop [] w = (Inr (), w)"
| "delete_all_loop ((h, u) # us) w =
    w_next (recharge_transfers (ut_tx u) w) (\<lambda>_ w. delete_all_loop us (w\<lparr>m_unconfirmed_txs := us\<rparr>))"

definition delete_unconfirmed_tx :: "bytes \<Rightarrow> wallet2 \<Rightarrow> bool wallet_effect" where
  "delete_unconfirmed_tx txid w =
    (let tolower = (\<lambda>c. if 65 \<le> c \<and> c \<le> 90 then c + 32 else c); tx_hash = map tolower txid
     in if tx_hash = [97, 108, 108] then w_next (delete_all_loop (m_unconfirmed_txs w) w) (\<lambda>_ w. (Inr True, w))
        else case parse_hexstr_to_binbuff tx_hash of
               None \<Rightarrow> (Inr False, w)
             | Some i \<Rightarrow>
                 if length i \<noteq> 32 then (Inr False, w)
                 else case map_of (m_unconfirmed_txs w) i of
                        None \<Rightarrow> (Inr False, w)
                      | Some u \<Rightarrow> w_next (recharge_transfers (ut_tx u) w) (\<lambda>_ w.
                          (Inr True, w\<lparr>m_unconfirmed_txs := AList.delete i (m_unconfirmed_txs w)\<rparr>)))"

definition add_sent_unconfirmed_tx :: "wallet_env \<Rightarrow> transaction \<Rightarrow> u64 \<Rightarrow> bytes \<Rightarrow> wallet2 \<Rightarrow> wallet2" where
  "add_sent_unconfirmed_tx env tx change_amount recipient w =
    w\<lparr>m_unconfirmed_txs := AList.update (get_transaction_hash tx) \<lparr>ut_tx = tx, ut_change = change_amount, ut_sent_time = we_now env,
       ut_recipient = recipient, ut_recipient_alias = get_alias_for_address env recipient\<rparr> (m_unconfirmed_txs w)\<rparr>"

text \<open>The transactions of the pool that pay to the wallet; \<open>old\<close> are those known before.\<close>

fun pool_loop :: "wallet_env \<Rightarrow> (hash \<rightharpoonup> transaction) \<Rightarrow> bytes list \<Rightarrow> wallet2 \<Rightarrow> unit wallet_effect" where
  "pool_loop env old [] w = (Inr (), w)"
| "pool_loop env old (tx_blob # txs) w =
    (case parse_and_validate_tx_from_blob tx_blob of
       None \<Rightarrow> (Inl tx_parse_error, w)
     | Some tx \<Rightarrow>
         let tx_hash = get_transaction_hash tx
         in case old tx_hash of
              Some t \<Rightarrow> pool_loop env old txs (w\<lparr>m_unconfirmed_in_transfers :=
                (if m_unconfirmed_in_transfers w tx_hash = None then (m_unconfirmed_in_transfers w)(tx_hash \<mapsto> t) else m_unconfirmed_in_transfers w)\<rparr>)
            | None \<Rightarrow>
                (case parse_tx_pub_key (we_donation_account env) tx of
                   None \<Rightarrow> (Inl undefined_access, w)
                 | Some (r, tx_pub_key) \<Rightarrow>
                     if \<not> r then (Inl tx_extra_parse_error, w)
                     else case lookup_acc_outs env tx tx_pub_key of
                            None \<Rightarrow> (Inl acc_outs_lookup_error, w)
                          | Some (outs, got) \<Rightarrow>
                              let spent = foldl (\<lambda>m i. case i of
                                    TxinToKey k \<Rightarrow> if m_key_images w (ki_k_image k) \<noteq> None then m + ki_amount k else m | _ \<Rightarrow> m) 0 (vin tx)
                              in if spent = 0 \<and> got \<noteq> 0
                                 then let w = w\<lparr>m_unconfirmed_in_transfers := (m_unconfirmed_in_transfers w)(tx_hash \<mapsto> tx)\<rparr>
                                      in case fst (prepare_wti env 0 0 tx got [] [] (empty_wti\<lparr>wti_timestamp := we_now env, wti_is_income := True\<rparr>)) of
                                           Some e \<Rightarrow> (Inl e, w)
                                         | None \<Rightarrow> pool_loop env old txs w
                                 else pool_loop env old txs w))"

definition scan_tx_pool :: "wallet_env \<Rightarrow> bytes list option \<Rightarrow> wallet2 \<Rightarrow> unit wallet_effect" where
  "scan_tx_pool env res w =
    (case res of
       None \<Rightarrow> (Inl no_connection_to_daemon, w)
     | Some txs \<Rightarrow> pool_loop env (m_unconfirmed_in_transfers w) txs (w\<lparr>m_unconfirmed_in_transfers := Map.empty\<rparr>))"

end
