(* ===== verification/WalletSync.thy ===== *)
theory WalletSync
  imports Wallet "HOL-Library.Sublist"
begin

text \<open>
  What the wallet knows after it has processed blocks. The specification is a list of received outputs, each of them spent or
  not; the wallet reaches it with an index from key images to positions. Processing a block refines the specification as long as
  the key images are new, a reorganization takes the received outputs away again but not the marks, and a block that was
  interrupted is counted twice.
\<close>

section \<open>The ledger of an account\<close>

definition received :: "wallet_env \<Rightarrow> u64 \<Rightarrow> transaction \<Rightarrow> transfer_details list" where
  "received env height tx =
    (case parse_tx_pub_key (we_donation_account env) tx of
       Some (True, tx_pub_key) \<Rightarrow>
         (case (lookup_acc_outs env tx tx_pub_key, get_o_indexes env (get_transaction_hash tx)) of
            (Some (outs, got), Some o_indexes) \<Rightarrow>
              if got \<noteq> 0
              then map (\<lambda>i. \<lparr>td_block_height = height, td_tx = tx, td_internal_output_index = i, td_global_output_index = o_indexes ! i,
                     td_spent = False, td_key_image = snd (generate_key_image_helper env tx_pub_key i)\<rparr>) outs
              else []
          | _ \<Rightarrow> [])
     | _ \<Rightarrow> [])"

definition spent_images :: "transaction \<Rightarrow> key_image list" where
  "spent_images tx = concat (map (\<lambda>i. case i of TxinToKey k \<Rightarrow> [ki_k_image k] | _ \<Rightarrow> []) (vin tx))"

definition mark_images :: "key_image list \<Rightarrow> transfer_details list \<Rightarrow> transfer_details list" where
  "mark_images kis tds = map (\<lambda>td. if td_key_image td \<in> set kis then td\<lparr>td_spent := True\<rparr> else td) tds"

definition ledger_step :: "wallet_env \<Rightarrow> u64 \<Rightarrow> transfer_details list \<Rightarrow> transaction \<Rightarrow> transfer_details list" where
  "ledger_step env height tds tx = mark_images (spent_images tx) (tds @ received env height tx)"

text \<open>The index is exact: it has each key image of the list, and only these. The key images are then distinct.\<close>

definition index_ok :: "wallet2 \<Rightarrow> bool" where
  "index_ok w \<longleftrightarrow> (\<forall>ki t. m_key_images w ki = Some t \<longleftrightarrow> t < length (m_transfers w) \<and> td_key_image (m_transfers w ! t) = ki)"

lemma index_okD: "index_ok w \<Longrightarrow> m_key_images w ki = Some t \<longleftrightarrow> t < length (m_transfers w) \<and> td_key_image (m_transfers w ! t) = ki"
  by (simp add: index_ok_def)

lemma index_ok_distinct: "index_ok w \<Longrightarrow> distinct (map td_key_image (m_transfers w))"
  unfolding distinct_conv_nth length_map
  by (metis index_okD nth_map option.inject)

lemma mark_images_nth: "i < length tds \<Longrightarrow> td_key_image (mark_images kis tds ! i) = td_key_image (tds ! i)"
  by (simp add: mark_images_def)

lemma mark_images_simps [simp]:
  "mark_images kis [] = []" "length (mark_images kis tds) = length tds" "mark_images [] tds = tds"
  "mark_images kis (tds @ tds') = mark_images kis tds @ mark_images kis tds'"
  "map td_key_image (mark_images kis tds) = map td_key_image tds" "map td_block_height (mark_images kis tds) = map td_block_height tds"
  by (auto simp: mark_images_def)

lemma mark_images_append [simp]: "mark_images kis (mark_images kis' tds) = mark_images (kis' @ kis) tds"
  by (auto simp: mark_images_def)

lemma index_ok_mark: "index_ok w \<Longrightarrow> index_ok (w\<lparr>m_transfers := mark_images kis (m_transfers w)\<rparr>)"
  unfolding index_ok_def by (auto simp: mark_images_nth)

section \<open>A transaction\<close>

lemma spend_loop_marks:
  assumes "index_ok w" and "spend_loop i ins money spn w = (r, w')"
  shows "(\<exists>x. r = Inr x) \<and> w' = w\<lparr>m_transfers := mark_images (concat (map (\<lambda>i. case i of TxinToKey k \<Rightarrow> [ki_k_image k] | _ \<Rightarrow> []) ins)) (m_transfers w)\<rparr>"
  using assms
proof (induction i ins money spn w rule: spend_loop.induct)
  case (2 i k ins money spn w)
  show ?case
  proof (cases "m_key_images w (ki_k_image k)")
    case None
    then have "ki_k_image k \<noteq> td_key_image td" if "td \<in> set (m_transfers w)" for td
      using that index_okD [OF "2.prems"(1)] by (metis in_set_conv_nth option.distinct(1))
    then have "mark_images [ki_k_image k] (m_transfers w) = m_transfers w" unfolding mark_images_def by (intro map_idI) fastforce
    then have "mark_images (ki_k_image k # kis) (m_transfers w) = mark_images kis (m_transfers w)" for kis
      using mark_images_append [of kis "[ki_k_image k]" "m_transfers w"] by simp
    then show ?thesis using "2.IH"(1) [OF None] "2.prems" None by simp
  next
    case (Some t)
    let ?w = "w\<lparr>m_transfers := (m_transfers w)[t := (m_transfers w ! t)\<lparr>td_spent := True\<rparr>]\<rparr>"
    have t: "t < length (m_transfers w)" "td_key_image (m_transfers w ! t) = ki_k_image k" using index_okD [OF "2.prems"(1)] Some by auto
    have upd: "m_transfers ?w = mark_images [ki_k_image k] (m_transfers w)"
    proof (rule nth_equalityI)
      fix j assume "j < length (m_transfers ?w)"
      moreover have "td_key_image (m_transfers w ! j) = ki_k_image k \<longleftrightarrow> j = t" if "j < length (m_transfers w)"
        using index_okD [OF "2.prems"(1), of "ki_k_image k" j] that Some t by auto
      ultimately show "m_transfers ?w ! j = mark_images [ki_k_image k] (m_transfers w) ! j" using t by (auto simp: mark_images_def nth_list_update)
    qed simp
    have eq: "?w = w\<lparr>m_transfers := mark_images [ki_k_image k] (m_transfers w)\<rparr>" using upd by simp
    then have "index_ok ?w" using index_ok_mark [OF "2.prems"(1)] by metis
    moreover have "spend_loop (i + 1) ins (money + ki_amount k) (spn @ [i]) ?w = (r, w')" using "2.prems"(2) Some t by simp
    ultimately have "(\<exists>x. r = Inr x) \<and> w' = ?w\<lparr>m_transfers := mark_images (concat (map (\<lambda>i. case i of TxinToKey k \<Rightarrow> [ki_k_image k] | _ \<Rightarrow> []) ins)) (m_transfers ?w)\<rparr>"
      using "2.IH"(2) [OF Some] t by simp
    then show ?thesis unfolding upd by simp
  qed
qed auto

lemma index_ok_push:
  assumes "index_ok w" and "td_key_image td \<notin> td_key_image ` set (m_transfers w)"
  shows "index_ok (w\<lparr>m_transfers := m_transfers w @ [td], m_key_images := (m_key_images w)(td_key_image td \<mapsto> length (m_transfers w))\<rparr>)"
proof -
  have "td_key_image (m_transfers w ! t) \<noteq> td_key_image td" if "t < length (m_transfers w)" for t using assms(2) that by (metis image_eqI nth_mem)
  then show ?thesis using assms(1) unfolding index_ok_def by (auto simp: nth_append less_Suc_eq split: if_splits)
qed

definition new_transfer :: "wallet_env \<Rightarrow> u64 \<Rightarrow> transaction \<Rightarrow> public_key \<Rightarrow> u64 list \<Rightarrow> nat \<Rightarrow> transfer_details" where
  "new_transfer env height tx tx_pub_key o_indexes i = \<lparr>td_block_height = height, td_tx = tx, td_internal_output_index = i,
     td_global_output_index = o_indexes ! i, td_spent = False, td_key_image = snd (generate_key_image_helper env tx_pub_key i)\<rparr>"

lemma receive_loop_appends:
  assumes "receive_loop env tx pk height ois outs rcv w = (Inr rcv', w')"
  shows "\<exists>kis. w' = w\<lparr>m_transfers := m_transfers w @ map (new_transfer env height tx pk ois) outs, m_key_images := kis\<rparr>
    \<and> (index_ok w \<and> distinct (map td_key_image (m_transfers w @ map (new_transfer env height tx pk ois) outs)) \<longrightarrow> index_ok w')"
  using assms
proof (induction outs arbitrary: rcv w)
  case Nil
  then show ?case by (intro exI [of _ "m_key_images w"]) simp
next
  case (Cons i outs)
  define td where "td = new_transfer env height tx pk ois i"
  let ?w = "w\<lparr>m_transfers := m_transfers w @ [td], m_key_images := (m_key_images w)(td_key_image td \<mapsto> length (m_transfers w))\<rparr>"
  have step: "receive_loop env tx pk height ois outs (rcv @ [i]) ?w = (Inr rcv', w')"
    using Cons.prems unfolding td_def new_transfer_def
    by (cases "generate_key_image_helper env pk i") (auto simp: Let_def split: if_splits txout_target_v.splits)
  obtain kis where w': "w' = ?w\<lparr>m_transfers := m_transfers ?w @ map (new_transfer env height tx pk ois) outs, m_key_images := kis\<rparr>"
    and ok: "index_ok ?w \<and> distinct (map td_key_image (m_transfers ?w @ map (new_transfer env height tx pk ois) outs)) \<longrightarrow> index_ok w'"
    using Cons.IH [OF step] by blast
  have "index_ok w'" if "index_ok w" "distinct (map td_key_image (m_transfers w @ map (new_transfer env height tx pk ois) (i # outs)))"
    using ok index_ok_push [OF that(1), of td] that(2) by (simp add: td_def)
  then show ?case using w' by (intro exI [of _ kis]) (simp add: td_def)
qed

text \<open>The payments, the history and the unconfirmed transactions are apart from what the ledger is about.\<close>

definition ledger_fields :: "wallet2 \<Rightarrow> transfer_details list \<times> (key_image \<rightharpoonup> nat) \<times> hash list \<times> u64" where
  "ledger_fields w = (m_transfers w, m_key_images w, m_blockchain w, m_local_bc_height w)"

lemma ledger_fields_index: "ledger_fields w = ledger_fields w' \<Longrightarrow> index_ok w = index_ok w'"
  by (simp add: ledger_fields_def index_ok_def)

lemma ledger_fields_history [simp]:
  "ledger_fields (w\<lparr>m_transfer_history := hs\<rparr>) = ledger_fields w" "ledger_fields (w\<lparr>m_payments := ps\<rparr>) = ledger_fields w"
  "ledger_fields (w\<lparr>m_unconfirmed_txs := us\<rparr>) = ledger_fields w"
  by (simp_all add: ledger_fields_def)

lemma handle_money_fields [simp]:
  "ledger_fields (snd (handle_money_spent2 env b tx a rcv spn recipient recipient_alias w)) = ledger_fields w"
  "ledger_fields (snd (handle_money_received2 env b tx a rcv spn w)) = ledger_fields w"
  by (auto simp: handle_money_spent2_def handle_money_received2_def split: prod.splits option.splits)

lemma w_next_fields:
  assumes "ledger_fields (snd m) = l" and "\<And>a w. ledger_fields w = l \<Longrightarrow> ledger_fields (snd (f a w)) = l"
  shows "ledger_fields (snd (w_next m f)) = l"
  using assms by (cases m) (auto simp: w_next_def split: sum.splits)

lemma record_transfer_fields: "ledger_fields (snd (record_transfer env tx height b got spent rcv spn recipient recipient_alias w)) = ledger_fields w"
proof -
  have "ledger_fields (snd (w_next (handle_money_spent2 env b tx spent rcv spn recipient recipient_alias v) (\<lambda>_ w. handle_money_received2 env b tx got rcv spn w)))
      = ledger_fields v" for v
    by (rule w_next_fields) simp_all
  then show ?thesis by (auto simp: record_transfer_def add_payment_def Let_def split: sum.splits option.splits)
qed

lemma w_next_Inr: "w_next m f = (Inr y, w') \<longleftrightarrow> (\<exists>a w. m = (Inr a, w) \<and> f a w = (Inr y, w'))"
  by (auto simp: w_next_def split: prod.splits sum.splits)

text \<open>The steps of a processed transaction: the received outputs are appended, then the inputs are looked at.\<close>

lemma process_transactionD:
  assumes "process_new_transaction env tx height b w = (Inr u, w')"
  shows "\<exists>w1 r w2. m_transfers w1 = m_transfers w @ received env height tx
    \<and> (index_ok w \<and> distinct (map td_key_image (m_transfers w @ received env height tx)) \<longrightarrow> index_ok w1)
    \<and> m_blockchain w1 = m_blockchain w \<and> m_local_bc_height w1 = m_local_bc_height w
    \<and> spend_loop 0 (vin tx) 0 [] w1 = (Inr r, w2) \<and> ledger_fields w' = ledger_fields w2"
proof -
  obtain rc ra w0 where pu: "process_unconfirmed tx w = ((rc, ra), w0)" by (metis prod.collapse)
  have f0: "ledger_fields w0 = ledger_fields w" using pu by (auto simp: process_unconfirmed_def split: option.splits)
  obtain pk outs got where pk: "parse_tx_pub_key (we_donation_account env) tx = Some (True, pk)" and look: "lookup_acc_outs env tx pk = Some (outs, got)"
    using assms(1) by (auto simp: process_new_transaction_def pu split: option.splits if_splits)
  obtain rcv w1 spent spn w2 where
    r: "(if outs \<noteq> [] \<and> got \<noteq> 0
         then case get_o_indexes env (get_transaction_hash tx) of
                None \<Rightarrow> (Inl no_connection_to_daemon, w0)
              | Some o_indexes \<Rightarrow>
                  if length o_indexes \<noteq> length (vout tx) then (Inl wallet_internal_error, w0)
                  else receive_loop env tx pk height o_indexes outs [] w0
         else (Inr [], w0)) = (Inr rcv, w1)"
    and sp: "spend_loop 0 (vin tx) 0 [] w1 = (Inr (spent, spn), w2)"
    and rec: "record_transfer env tx height b got spent rcv spn rc ra w2 = (Inr u, w')"
    using assms(1) by (simp add: process_new_transaction_def pu pk look w_next_Inr) blast
  have idx0: "index_ok w0 = index_ok w" "m_transfers w0 = m_transfers w" "m_blockchain w0 = m_blockchain w" "m_local_bc_height w0 = m_local_bc_height w"
    using f0 by (simp_all add: ledger_fields_def index_ok_def)
  have "m_transfers w1 = m_transfers w @ received env height tx
    \<and> (index_ok w \<and> distinct (map td_key_image (m_transfers w @ received env height tx)) \<longrightarrow> index_ok w1)
    \<and> m_blockchain w1 = m_blockchain w \<and> m_local_bc_height w1 = m_local_bc_height w"
  proof (cases "outs \<noteq> [] \<and> got \<noteq> 0")
    case True
    then obtain ois where o: "get_o_indexes env (get_transaction_hash tx) = Some ois" and rl: "receive_loop env tx pk height ois outs [] w0 = (Inr rcv, w1)"
      using r by (auto split: option.splits if_splits)
    have "received env height tx = map (new_transfer env height tx pk ois) outs" using True by (simp add: received_def pk look o new_transfer_def)
    then show ?thesis using receive_loop_appends [OF rl] idx0 by auto
  next
    case False
    then have "received env height tx = []" by (auto simp: received_def pk look split: option.splits)
    then show ?thesis using r False idx0 by auto
  qed
  moreover have "ledger_fields w' = ledger_fields w2" using record_transfer_fields [of env tx height b got spent rcv spn rc ra w2] rec by simp
  ultimately show ?thesis using sp by blast
qed

lemma process_transaction_exact:
  assumes "process_new_transaction env tx height b w = (Inr u, w')" and "index_ok w"
    and "distinct (map td_key_image (m_transfers w @ received env height tx))"
  shows "m_transfers w' = ledger_step env height (m_transfers w) tx \<and> index_ok w' \<and> m_blockchain w' = m_blockchain w \<and> m_local_bc_height w' = m_local_bc_height w"
proof -
  obtain w1 r w2 where w1: "m_transfers w1 = m_transfers w @ received env height tx" "index_ok w1" "m_blockchain w1 = m_blockchain w"
    "m_local_bc_height w1 = m_local_bc_height w" and sp: "spend_loop 0 (vin tx) 0 [] w1 = (Inr r, w2)" and w': "ledger_fields w' = ledger_fields w2"
    using process_transactionD [OF assms(1)] assms(2,3) by blast
  have w2: "w2 = w1\<lparr>m_transfers := mark_images (spent_images tx) (m_transfers w1)\<rparr>"
    using spend_loop_marks [OF w1(2) sp] by (simp add: spent_images_def)
  then have "index_ok w2" using w1(2) index_ok_mark by metis
  then show ?thesis using w1 w2 w' by (auto simp: ledger_fields_def ledger_step_def index_ok_def)
qed

section \<open>A block\<close>

text \<open>The transactions the wallet looks at: none when the block is older than the account.\<close>

definition block_txs :: "wallet_env \<Rightarrow> block \<Rightarrow> block_complete_entry \<Rightarrow> transaction list" where
  "block_txs env b bche =
    (if timestamp b + 60 * 60 * 24 > we_createtime env then miner_tx b # map (\<lambda>blob. the (parse_and_validate_tx_from_blob blob)) (bce_txs bche) else [])"

definition ledger_block :: "wallet_env \<Rightarrow> u64 \<Rightarrow> transaction list \<Rightarrow> transfer_details list \<Rightarrow> transfer_details list" where
  "ledger_block env height txs tds = foldl (ledger_step env height) tds txs"

definition fresh_images :: "wallet_env \<Rightarrow> u64 \<Rightarrow> transaction list \<Rightarrow> transfer_details list \<Rightarrow> bool" where
  "fresh_images env height txs tds \<longleftrightarrow> distinct (map td_key_image (tds @ concat (map (received env height) txs)))"

lemma fresh_images_step:
  "fresh_images env height (tx # txs) tds \<Longrightarrow>
    distinct (map td_key_image (tds @ received env height tx)) \<and> fresh_images env height txs (ledger_step env height tds tx)"
proof -
  have "map td_key_image (ledger_step env height tds tx) = map td_key_image (tds @ received env height tx)"
    unfolding ledger_step_def by (rule mark_images_simps(5))
  moreover assume "fresh_images env height (tx # txs) tds"
  ultimately show ?thesis by (simp add: fresh_images_def distinct_append) (simp only: set_map [symmetric], auto)
qed

lemma process_txs_exact:
  assumes "process_txs env blobs height b w = (Inr u, w')" and "index_ok w"
    and "fresh_images env height (map (\<lambda>blob. the (parse_and_validate_tx_from_blob blob)) blobs) (m_transfers w)"
  shows "m_transfers w' = ledger_block env height (map (\<lambda>blob. the (parse_and_validate_tx_from_blob blob)) blobs) (m_transfers w)
    \<and> index_ok w' \<and> m_blockchain w' = m_blockchain w \<and> m_local_bc_height w' = m_local_bc_height w"
  using assms
proof (induction blobs arbitrary: w)
  case (Cons blob blobs)
  obtain tx v w1 where tx: "parse_and_validate_tx_from_blob blob = Some tx" and p: "process_new_transaction env tx height b w = (Inr v, w1)"
    and rest: "process_txs env blobs height b w1 = (Inr u, w')"
    using Cons.prems(1) by (auto simp: w_next_Inr split: option.splits)
  have "distinct (map td_key_image (m_transfers w @ received env height tx))"
    "fresh_images env height (map (\<lambda>blob. the (parse_and_validate_tx_from_blob blob)) blobs) (ledger_step env height (m_transfers w) tx)"
    using fresh_images_step [of env height tx] Cons.prems(3) tx by auto
  with process_transaction_exact [OF p Cons.prems(2)] Cons.IH [OF rest] show ?case by (auto simp: ledger_block_def tx)
qed (simp add: ledger_block_def)

lemma process_block_exact:
  assumes "process_new_blockchain_entry env b bche bl_id height w = (Inr u, w')" and "index_ok w"
    and "fresh_images env height (block_txs env b bche) (m_transfers w)"
  shows "m_transfers w' = ledger_block env height (block_txs env b bche) (m_transfers w) \<and> index_ok w'
    \<and> unat height = length (m_blockchain w) \<and> m_blockchain w' = m_blockchain w @ [bl_id] \<and> m_local_bc_height w' = m_local_bc_height w + 1"
proof -
  have h: "unat height = length (m_blockchain w)" using assms(1) by (auto simp: process_new_blockchain_entry_def split: if_splits)
  obtain w1 where run: "(if timestamp b + 60 * 60 * 24 > we_createtime env
        then w_next (process_new_transaction env (miner_tx b) height b w) (\<lambda>_ w. process_txs env (bce_txs bche) height b w) else (Inr (), w)) = (Inr (), w1)"
    and w': "w' = w1\<lparr>m_blockchain := m_blockchain w1 @ [bl_id], m_local_bc_height := m_local_bc_height w1 + 1\<rparr>"
    using assms(1) h by (auto simp: process_new_blockchain_entry_def w_next_Inr)
  have "m_transfers w1 = ledger_block env height (block_txs env b bche) (m_transfers w) \<and> index_ok w1
    \<and> m_blockchain w1 = m_blockchain w \<and> m_local_bc_height w1 = m_local_bc_height w"
  proof (cases "timestamp b + 60 * 60 * 24 > we_createtime env")
    case True
    obtain v w2 where p: "process_new_transaction env (miner_tx b) height b w = (Inr v, w2)" and rest: "process_txs env (bce_txs bche) height b w2 = (Inr (), w1)"
      using run True by (auto simp: w_next_Inr)
    have "distinct (map td_key_image (m_transfers w @ received env height (miner_tx b)))"
      "fresh_images env height (map (\<lambda>blob. the (parse_and_validate_tx_from_blob blob)) (bce_txs bche)) (ledger_step env height (m_transfers w) (miner_tx b))"
      using fresh_images_step [of env height "miner_tx b"] assms(3) True by (auto simp: block_txs_def)
    with process_transaction_exact [OF p assms(2)] process_txs_exact [OF rest] show ?thesis using True by (auto simp: ledger_block_def block_txs_def)
  qed (use run assms(2) in \<open>simp add: ledger_block_def block_txs_def\<close>)
  then show ?thesis using h w' by (auto simp: index_ok_def)
qed

text \<open>The list after a block: the old outputs, marked, and the new ones with the height of the block.\<close>

lemma ledger_block_append:
  "\<exists>new. ledger_block env height txs tds = mark_images (concat (map spent_images txs)) tds @ new
     \<and> map td_key_image new = map td_key_image (concat (map (received env height) txs)) \<and> (\<forall>td \<in> set new. td_block_height td = height)"
proof (induction txs arbitrary: tds rule: rev_induct)
  case Nil
  then show ?case by (simp add: ledger_block_def)
next
  case (snoc tx txs)
  obtain new where new: "ledger_block env height txs tds = mark_images (concat (map spent_images txs)) tds @ new"
    "map td_key_image new = map td_key_image (concat (map (received env height) txs))" "\<forall>td \<in> set new. td_block_height td = height"
    using snoc.IH by blast
  let ?new = "mark_images (spent_images tx) (new @ received env height tx)"
  have "td_block_height td = height" if "td \<in> set (received env height tx)" for td
    using that by (auto simp: received_def split: option.splits bool.splits if_splits prod.splits)
  then have "\<forall>td \<in> set ?new. td_block_height td = height" using new(3) by (auto simp: mark_images_def)
  moreover have "ledger_block env height (txs @ [tx]) tds = mark_images (concat (map spent_images (txs @ [tx]))) tds @ ?new"
    using new(1) by (simp add: ledger_block_def ledger_step_def)
  moreover have "map td_key_image ?new = map td_key_image (concat (map (received env height) (txs @ [tx])))"
    unfolding mark_images_simps(5) using new(2) by simp
  ultimately show ?case by blast
qed

section \<open>Reorganizations\<close>

lemma erase_images_exact:
  "distinct (map td_key_image tds) \<Longrightarrow> \<forall>td \<in> set tds. m_key_images w (td_key_image td) \<noteq> None
    \<Longrightarrow> erase_images tds w = (Inr (), w\<lparr>m_key_images := m_key_images w |` (- td_key_image ` set tds)\<rparr>)"
proof (induction tds arbitrary: w)
  case (Cons td tds)
  let ?w = "w\<lparr>m_key_images := (m_key_images w)(td_key_image td := None)\<rparr>"
  have "\<forall>t \<in> set tds. m_key_images ?w (td_key_image t) \<noteq> None" using Cons.prems by simp (metis image_eqI)
  then have "erase_images tds ?w = (Inr (), ?w\<lparr>m_key_images := m_key_images ?w |` (- td_key_image ` set tds)\<rparr>)"
    using Cons.prems(1) by (intro Cons.IH) simp_all
  moreover have "m_key_images ?w |` (- td_key_image ` set tds) = m_key_images w |` (- td_key_image ` set (td # tds))"
    by (auto simp: restrict_map_def)
  ultimately show ?case using Cons.prems by auto
qed (simp add: restrict_map_def)

lemma detach_exact:
  assumes "index_ok w" and "unat height \<le> length (m_blockchain w)"
  shows "\<exists>w'. detach_blockchain height w = (Inr (), w') \<and> m_transfers w' = takeWhile (\<lambda>td. td_block_height td < height) (m_transfers w) \<and> index_ok w'
    \<and> m_blockchain w' = take (unat height) (m_blockchain w)
    \<and> m_local_bc_height w' = m_local_bc_height w - word_of_nat (length (m_blockchain w) - unat height)"
proof -
  let ?kept = "takeWhile (\<lambda>td. td_block_height td < height) (m_transfers w)"
  let ?gone = "drop (length ?kept) (m_transfers w)"
  have kept: "takeWhile (\<lambda>td. \<not> td_block_height td \<ge> height) (m_transfers w) = ?kept" by (simp add: not_le)
  have whole: "m_transfers w = ?kept @ ?gone" by (metis dropWhile_eq_drop takeWhile_dropWhile_id)
  have d: "distinct (map td_key_image ?kept @ map td_key_image ?gone)" using index_ok_distinct [OF assms(1)] whole by (metis map_append)
  have "m_key_images w (td_key_image td) \<noteq> None" if "td \<in> set ?gone" for td
    using that index_okD [OF assms(1)] by (metis in_set_conv_nth in_set_dropD option.distinct(1))
  then have e: "erase_images ?gone w = (Inr (), w\<lparr>m_key_images := m_key_images w |` (- td_key_image ` set ?gone)\<rparr>)"
    using d by (intro erase_images_exact) auto
  have len: "length ?kept \<le> length (m_transfers w)" by (rule length_takeWhile_le)
  have idx: "(m_key_images w |` (- td_key_image ` set ?gone)) ki = Some t \<longleftrightarrow> t < length ?kept \<and> td_key_image (?kept ! t) = ki" for ki t
  proof
    assume a: "(m_key_images w |` (- td_key_image ` set ?gone)) ki = Some t"
    then have t: "t < length (m_transfers w)" "td_key_image (m_transfers w ! t) = ki" and notin: "ki \<notin> td_key_image ` set ?gone"
      using index_okD [OF assms(1), of ki t] by (auto simp: restrict_map_def split: if_splits)
    have "t < length ?kept"
    proof (rule ccontr)
      assume "\<not> t < length ?kept"
      then have "?gone ! (t - length ?kept) = m_transfers w ! t" "t - length ?kept < length ?gone" using t(1) by auto
      then have "m_transfers w ! t \<in> set ?gone" by (metis nth_mem)
      then show False using notin t(2) by blast
    qed
    then show "t < length ?kept \<and> td_key_image (?kept ! t) = ki" using t(2) by (simp add: takeWhile_nth)
  next
    assume a: "t < length ?kept \<and> td_key_image (?kept ! t) = ki"
    then have "td_key_image (m_transfers w ! t) = ki" using takeWhile_nth by metis
    then have "m_key_images w ki = Some t" using index_okD [OF assms(1), of ki t] len a by simp
    moreover have "ki \<in> td_key_image ` set ?kept" using a by (elim conjE) (erule subst, rule imageI, rule nth_mem)
    then have "ki \<notin> td_key_image ` set ?gone" using d by (auto simp: distinct_append)
    ultimately show "(m_key_images w |` (- td_key_image ` set ?gone)) ki = Some t" by simp
  qed
  show ?thesis using assms(2) idx unfolding detach_blockchain_def kept Let_def e by (simp add: w_next_def index_ok_def)
qed

text \<open>A block is processed and then detached again.\<close>

lemma detach_after_block:
  assumes "process_new_blockchain_entry env b bche bl_id height w = (Inr u, w1)" and "index_ok w"
    and "fresh_images env height (block_txs env b bche) (m_transfers w)" and "\<forall>td \<in> set (m_transfers w). td_block_height td < height"
  shows "\<exists>w'. detach_blockchain height w1 = (Inr (), w') \<and> m_blockchain w' = m_blockchain w \<and> m_local_bc_height w' = m_local_bc_height w \<and> index_ok w'
    \<and> m_transfers w' = mark_images (concat (map spent_images (block_txs env b bche))) (m_transfers w)"
proof -
  have p: "m_transfers w1 = ledger_block env height (block_txs env b bche) (m_transfers w)" "index_ok w1" "unat height = length (m_blockchain w)"
    "m_blockchain w1 = m_blockchain w @ [bl_id]" "m_local_bc_height w1 = m_local_bc_height w + 1"
    using process_block_exact [OF assms(1-3)] by auto
  obtain new where l: "m_transfers w1 = mark_images (concat (map spent_images (block_txs env b bche))) (m_transfers w) @ new"
    and n: "\<forall>td \<in> set new. td_block_height td = height"
    using ledger_block_append [of env height "block_txs env b bche" "m_transfers w"] p(1) by auto
  let ?old = "mark_images (concat (map spent_images (block_txs env b bche))) (m_transfers w)"
  have old: "\<forall>td \<in> set ?old. td_block_height td < height" using assms(4) by (auto simp: mark_images_def)
  have "takeWhile (\<lambda>td. td_block_height td < height) new = []" using n by (cases new) auto
  then have "takeWhile (\<lambda>td. td_block_height td < height) (m_transfers w1) = ?old" using old by (simp add: l takeWhile_append2)
  then show ?thesis using detach_exact [OF p(2), of height] p(3-5) by auto
qed

section \<open>Pulled blocks\<close>

lemma receive_loop_chain [simp]: "m_blockchain (snd (receive_loop env tx pk height ois outs rcv w)) = m_blockchain w"
  by (induction outs arbitrary: rcv w) (auto simp: Let_def split: prod.splits txout_target_v.splits)

lemma spend_loop_chain [simp]: "m_blockchain (snd (spend_loop i ins money spn w)) = m_blockchain w"
  by (induction i ins money spn w rule: spend_loop.induct) (auto split: option.splits)

lemma w_next_chain:
  assumes "m_blockchain (snd m) = c" and "\<And>a w. m_blockchain w = c \<Longrightarrow> m_blockchain (snd (f a w)) = c"
  shows "m_blockchain (snd (w_next m f)) = c"
  using assms by (cases m) (auto simp: w_next_def split: sum.splits)

lemma process_transaction_chain [simp]: "m_blockchain (snd (process_new_transaction env tx height b w)) = m_blockchain w"
proof -
  obtain rc ra w0 where pu: "process_unconfirmed tx w = ((rc, ra), w0)" by (metis prod.collapse)
  have "m_blockchain w0 = m_blockchain w" using pu by (auto simp: process_unconfirmed_def split: option.splits)
  moreover have rec: "m_blockchain (snd (record_transfer env tx height b got spent rcv spn rc ra v)) = m_blockchain v" for got spent rcv spn v
    using record_transfer_fields [of env tx height b got spent rcv spn rc ra v] by (simp add: ledger_fields_def)
  ultimately show ?thesis
    by (auto simp: process_new_transaction_def pu rec split: option.splits intro!: w_next_chain)
qed

lemma process_txs_chain [simp]: "m_blockchain (snd (process_txs env blobs height b w)) = m_blockchain w"
  by (induction blobs arbitrary: w) (auto split: option.splits intro!: w_next_chain)

lemma process_block_chain:
  assumes "process_new_blockchain_entry env b bche bl_id height w = (Inr u, w')"
  shows "unat height = length (m_blockchain w) \<and> m_blockchain w' = m_blockchain w @ [bl_id]"
proof -
  have h: "unat height = length (m_blockchain w)" using assms by (auto simp: process_new_blockchain_entry_def split: if_splits)
  let ?m = "if timestamp b + 60 * 60 * 24 > we_createtime env
    then w_next (process_new_transaction env (miner_tx b) height b w) (\<lambda>_ w. process_txs env (bce_txs bche) height b w) else (Inr (), w)"
  have chain: "m_blockchain (snd ?m) = m_blockchain w" by (auto intro!: w_next_chain)
  obtain w1 where run: "?m = (Inr (), w1)" and w': "w' = w1\<lparr>m_blockchain := m_blockchain w1 @ [bl_id], m_local_bc_height := m_local_bc_height w1 + 1\<rparr>"
    using assms h by (auto simp: process_new_blockchain_entry_def w_next_Inr)
  have "m_blockchain w1 = m_blockchain w" using chain unfolding run by simp
  then show ?thesis using h w' by simp
qed

lemma erase_images_chain: "m_blockchain (snd (erase_images tds w)) = m_blockchain w"
  by (induction tds arbitrary: w) auto

lemma detach_chain:
  assumes "detach_blockchain height w = (Inr u, w')"
  shows "m_blockchain w' = take (unat height) (m_blockchain w)"
  using assms erase_images_chain [of _ w]
  by (auto simp: detach_blockchain_def Let_def w_next_Inr split: if_splits) (metis snd_conv)

abbreviation entry_id :: "block_complete_entry \<Rightarrow> hash" where
  "entry_id e \<equiv> get_block_hash (the (parse_and_validate_block_from_blob (bce_block e)))"

lemma pull_loop_adopts:
  assumes "pull_loop env start idx es n w = (n', Inr u, w')" and "unat idx \<le> length (m_blockchain w)" and "unat idx + length es < 2 ^ 64"
  shows "take (unat idx + length es) (m_blockchain w') = take (unat idx) (m_blockchain w) @ map entry_id es \<and> unat idx + length es \<le> length (m_blockchain w')"
  using assms
proof (induction es arbitrary: idx n w)
  case (Cons e es)
  obtain bl where bl: "parse_and_validate_block_from_blob (bce_block e) = Some bl" using Cons.prems(1) by (auto split: option.splits)
  obtain m w1 where rest: "pull_loop env start (idx + 1) es m w1 = (n', Inr u, w')"
    and w1: "take (Suc (unat idx)) (m_blockchain w1) = take (unat idx) (m_blockchain w) @ [get_block_hash bl]" "Suc (unat idx) \<le> length (m_blockchain w1)"
  proof (cases "unat idx \<ge> length (m_blockchain w)")
    case True
    then obtain v where "process_new_blockchain_entry env bl e (get_block_hash bl) idx w = (Inr (), v)" "pull_loop env start (idx + 1) es (n + 1) v = (n', Inr u, w')"
      using Cons.prems(1) bl by (auto simp: Let_def split: prod.splits sum.splits)
    then show ?thesis using process_block_chain [of env bl e "get_block_hash bl" idx w] that by auto
  next
    case False
    show ?thesis
    proof (cases "get_block_hash bl = m_blockchain w ! unat idx")
      case True
      then show ?thesis using that [of n w] Cons.prems(1) bl False by (simp add: Let_def take_Suc_conv_app_nth)
    next
      case ne: False
      then obtain v x where "detach_blockchain idx w = (Inr (), x)" "process_new_blockchain_entry env bl e (get_block_hash bl) idx x = (Inr (), v)"
        "pull_loop env start (idx + 1) es n v = (n', Inr u, w')"
        using Cons.prems(1) bl False by (auto simp: Let_def w_next_def split: prod.splits sum.splits if_splits)
      then show ?thesis using process_block_chain [of env bl e "get_block_hash bl" idx x] detach_chain [of idx w "()" x] that [of n v] False by auto
    qed
  qed
  have "unat (idx + 1) = Suc (unat idx)" using Cons.prems(3) by (subst unat_add_no_wrap) simp_all
  then show ?case using Cons.IH [OF rest] w1 Cons.prems(3) bl by simp
qed simp

section \<open>Interrupted blocks and an absent daemon\<close>

lemma refresh_loop_offline: "list_all (\<lambda>r. r = None) ress \<Longrightarrow> refresh_loop env ress n tries w = ((n, []), w)"
  by (induction ress arbitrary: tries) (auto simp: pull_blocks_def)

definition unmark :: "transfer_details list \<Rightarrow> transfer_details list" where
  "unmark tds = map (\<lambda>td. td\<lparr>td_spent := False\<rparr>) tds"

lemma unmark_simps [simp]: "unmark [] = []" "unmark (xs @ ys) = unmark xs @ unmark ys" "unmark (td # tds) = td\<lparr>td_spent := False\<rparr> # unmark tds"
  by (simp_all add: unmark_def)

lemma unmark_set [simp]: "unmark (tds[t := (tds ! t)\<lparr>td_spent := s\<rparr>]) = unmark tds"
  by (cases "t < length tds") (auto simp: unmark_def map_update intro!: nth_equalityI simp: nth_list_update)

lemma unmark_received [simp]: "unmark (received env height tx) = received env height tx"
  by (auto simp: received_def unmark_def split: option.splits bool.splits prod.splits)

lemma spend_loop_unmark [simp]: "unmark (m_transfers (snd (spend_loop i ins money spn w))) = unmark (m_transfers w)"
  by (induction i ins money spn w rule: spend_loop.induct) (auto split: option.splits)

abbreviation grown :: "wallet2 \<Rightarrow> wallet2 \<Rightarrow> bool" where
  "grown w w' \<equiv> prefix (unmark (m_transfers w)) (unmark (m_transfers w'))"

lemma w_next_grown:
  assumes "grown w (snd m)" and "\<And>a v. grown v (snd (f a v))"
  shows "grown w (snd (w_next m f))"
  using assms by (cases m) (auto simp: w_next_def split: sum.splits intro: prefix_order.trans)

lemma receive_loop_grown: "grown w (snd (receive_loop env tx pk height ois outs rcv w))"
proof (induction outs arbitrary: rcv w)
  case (Cons i outs)
  obtain pub ki where g: "generate_key_image_helper env pk i = (pub, ki)" by fastforce
  define w1 where "w1 = w\<lparr>m_transfers := m_transfers w @ [\<lparr>td_block_height = height, td_tx = tx, td_internal_output_index = i,
    td_global_output_index = ois ! i, td_spent = False, td_key_image = ki\<rparr>]\<rparr>"
  have "grown w w1" by (simp add: w1_def)
  moreover have "grown w1 (snd (receive_loop env tx pk height ois outs (rcv @ [i]) (w1\<lparr>m_key_images := kis\<rparr>)))" for kis
    using Cons.IH [of "w1\<lparr>m_key_images := kis\<rparr>"] by simp
  ultimately show ?case
    by (auto simp: Let_def g w1_def [symmetric] split: txout_target_v.splits intro: prefix_order.trans)
qed simp

lemma record_transfer_transfers: "m_transfers (snd (record_transfer env tx height b got spent rcv spn rc ra v)) = m_transfers v"
  using record_transfer_fields [of env tx height b got spent rcv spn rc ra v] by (simp add: ledger_fields_def)

lemma process_transaction_grown: "grown w (snd (process_new_transaction env tx height b w))"
proof -
  obtain rc ra w0 where pu: "process_unconfirmed tx w = ((rc, ra), w0)" by (metis prod.collapse)
  have w0: "m_transfers w = m_transfers w0" using pu by (auto simp: process_unconfirmed_def split: option.splits)
  show ?thesis unfolding w0
    by (auto simp: process_new_transaction_def pu record_transfer_transfers receive_loop_grown split: option.splits intro!: w_next_grown)
qed

lemma process_txs_grown: "grown w (snd (process_txs env blobs height b w))"
  by (induction blobs arbitrary: w) (auto simp: process_transaction_grown split: option.splits intro!: w_next_grown)

lemma process_transaction_received:
  assumes "process_new_transaction env tx height b w = (Inr u, w')"
  shows "unmark (m_transfers w') = unmark (m_transfers w) @ received env height tx"
proof -
  obtain w1 r w2 where w1: "m_transfers w1 = m_transfers w @ received env height tx" and sp: "spend_loop 0 (vin tx) 0 [] w1 = (Inr r, w2)"
    and w': "ledger_fields w' = ledger_fields w2"
    using process_transactionD [OF assms(1)] by blast
  have "unmark (m_transfers w2) = unmark (m_transfers w1)" using spend_loop_unmark [of 0 "vin tx" 0 "[]" w1] sp by simp
  then show ?thesis using w1 w' by (simp add: ledger_fields_def)
qed

text \<open>A block that fails after its first transaction, and is then processed again.\<close>

lemma block_received_again:
  assumes "process_new_transaction env (miner_tx b) height b w = (Inr u, wm)" and "timestamp b + 60 * 60 * 24 > we_createtime env"
    and "process_new_blockchain_entry env b bche bl_id height w = (Inl x, w1)"
    and "process_new_blockchain_entry env b bche' bl_id height w1 = (Inr v, w2)"
  shows "\<exists>xs ys. unmark (m_transfers w2) = unmark (m_transfers w) @ received env height (miner_tx b) @ xs @ received env height (miner_tx b) @ ys"
proof -
  have "unat height = length (m_blockchain w1)" using process_block_chain [OF assms(4)] by blast
  then obtain wn v' where n: "process_new_transaction env (miner_tx b) height b w1 = (Inr v', wn)" and m_transfers_w2: "\<exists>wr. process_txs env (bce_txs bche') height b wn = (Inr (), wr) \<and> m_transfers w2 = m_transfers wr"
    using assms(2,4) by (auto simp: process_new_blockchain_entry_def w_next_Inr)
  have "unat height = length (m_blockchain w)"
    using assms(3) \<open>unat height = length (m_blockchain w1)\<close> by (auto simp: process_new_blockchain_entry_def split: if_splits)
  then have "process_txs env (bce_txs bche) height b wm = (Inl x, w1)"
    using assms(1-3) by (auto simp: process_new_blockchain_entry_def w_next_def split: prod.splits sum.splits)
  then have "grown wm w1" using process_txs_grown [of wm env "bce_txs bche" height b] by simp
  moreover have "grown wn w2" using m_transfers_w2 process_txs_grown [of wn env "bce_txs bche'" height b] by auto
  ultimately show ?thesis using process_transaction_received [OF assms(1)] process_transaction_received [OF n] by (auto simp: prefix_def) blast
qed

section \<open>A wallet that receives and spends\<close>

definition mined_tx :: transaction where
  "mined_tx = \<lparr>version = 1, unlock_time = 0, vin = [TxinGen 1],
     vout = [\<lparr>o_amount = 1000, o_target = TxoutToKey \<lparr>tk_key = replicate 32 9, tk_mix_attr = 0\<rparr>\<rparr>], extra = [], signatures = []\<rparr>"

definition spending_tx :: transaction where
  "spending_tx = \<lparr>version = 1, unlock_time = 0, vin = [TxinToKey \<lparr>ki_amount = 1000, ki_key_offsets = [3], ki_k_image = replicate 32 7\<rparr>],
     vout = [\<lparr>o_amount = 300, o_target = TxoutToKey \<lparr>tk_key = replicate 32 8, tk_mix_attr = 0\<rparr>\<rparr>], extra = [], signatures = [[replicate 64 5]]\<rparr>"

definition mined_block :: block where
  "mined_block = sample_block\<lparr>miner_tx := mined_tx\<rparr>"

definition receiving_env :: wallet_env where
  "receiving_env = \<lparr>we_now = 0, we_createtime = 0, we_address = \<lparr>m_spend_public_key = replicate 32 1, m_view_public_key = replicate 32 2\<rparr>,
     we_donation_account = None, is_out_to_acc = (\<lambda>k _ _. tk_key k = replicate 32 9), generate_key_image_helper = (\<lambda>_ _. (replicate 32 9, replicate 32 4)),
     construct_tx = (\<lambda>_ _ _ _. None), get_o_indexes = (\<lambda>_. Some [5]), get_random_outs = (\<lambda>_ _. None), get_blocks_median = None,
     check_connection = True, send_raw_tx = (\<lambda>_. None), get_alias_for_address = (\<lambda>_. [])\<rparr>"

definition owning_wallet :: wallet2 where
  "owning_wallet = \<lparr>m_blockchain = [replicate 32 0], m_local_bc_height = 1, m_unconfirmed_txs = [],
     m_transfers = [\<lparr>td_block_height = 0, td_tx = mined_tx, td_internal_output_index = 0, td_global_output_index = 3, td_spent = False, td_key_image = replicate 32 7\<rparr>],
     m_payments = [], m_key_images = [replicate 32 7 \<mapsto> 0], m_upper_transaction_size_limit = 0, m_transfer_history = [],
     m_unconfirmed_in_transfers = Map.empty\<rparr>"

lemma empty_extra:
  assumes "extra tx = []"
  shows "parse_tx_pub_key None tx = Some (True, null_pkey)" "get_payment_id_from_tx_extra None tx = Refused None"
  using assms
  by (simp_all add: parse_tx_pub_key_def get_payment_id_from_tx_extra_def parse_and_validate_tx_extra_def extra_loop.simps null_extra_def check_make_alias_tx_def null_alias_def)

lemma owning_wallet_ok: "index_ok owning_wallet" "td \<in> set (m_transfers owning_wallet) \<Longrightarrow> td_block_height td < 1"
  by (auto simp: owning_wallet_def index_ok_def split: if_splits)

lemma mined_received: "received receiving_env 1 mined_tx = [\<lparr>td_block_height = 1, td_tx = mined_tx, td_internal_output_index = 0, td_global_output_index = 5, td_spent = False, td_key_image = replicate 32 4\<rparr>]"
  using empty_extra [of mined_tx] by (simp add: received_def lookup_acc_outs_def mined_tx_def receiving_env_def)

lemma spending_received: "received receiving_env 1 spending_tx = []"
  using empty_extra [of spending_tx] by (simp add: received_def lookup_acc_outs_def spending_tx_def receiving_env_def)

lemma mined_processed: "\<exists>w'. process_new_transaction receiving_env mined_tx height mined_block w = (Inr (), w')"
proof -
  obtain rc ra w0 where pu: "process_unconfirmed mined_tx w = ((rc, ra), w0)" by (metis prod.collapse)
  have e: "we_donation_account receiving_env = None" "get_o_indexes receiving_env h = Some [5]" for h by (simp_all add: receiving_env_def)
  have l: "lookup_acc_outs receiving_env mined_tx null_pkey = Some ([0], 1000)" by (simp add: lookup_acc_outs_def mined_tx_def receiving_env_def)
  have r: "\<exists>w1. receive_loop receiving_env mined_tx null_pkey height [5] [0] [] w0 = (Inr [0], w1)"
    by (simp add: mined_tx_def receiving_env_def Let_def)
  have s: "spend_loop 0 (vin mined_tx) 0 [] w1 = (Inr (0, []), w1)" for w1 by (simp add: mined_tx_def)
  have p: "payment_id_of receiving_env mined_tx = Inr None" using empty_extra(2) [of mined_tx] by (simp add: payment_id_of_def e mined_tx_def)
  have "\<exists>w'. record_transfer receiving_env mined_tx height mined_block 1000 0 [0] [] rc ra w1 = (Inr (), w')" for w1
    by (simp add: record_transfer_def p handle_money_received2_def prepare_wti_def fill_transfer_details_def Let_def)
  moreover have "parse_tx_pub_key None mined_tx = Some (True, null_pkey)" "length (vout mined_tx) = 1"
    using empty_extra(1) [of mined_tx] by (simp_all add: mined_tx_def)
  ultimately show ?thesis using r by (auto simp: process_new_transaction_def pu e l s w_next_def)
qed

lemma spending_processed:
  assumes "index_ok w"
  shows "\<exists>w'. process_new_transaction receiving_env spending_tx height mined_block w = (Inr (), w')"
proof -
  obtain rc ra w0 where pu: "process_unconfirmed spending_tx w = ((rc, ra), w0)" by (metis prod.collapse)
  have "ledger_fields w0 = ledger_fields w" using pu by (auto simp: process_unconfirmed_def split: option.splits)
  then have i: "index_ok w0" using assms ledger_fields_index by blast
  have e: "we_donation_account receiving_env = None" by (simp add: receiving_env_def)
  have l: "lookup_acc_outs receiving_env spending_tx null_pkey = Some ([], 0)" by (simp add: lookup_acc_outs_def spending_tx_def receiving_env_def)
  have p: "payment_id_of receiving_env spending_tx = Inr None" using empty_extra(2) [of spending_tx] by (simp add: payment_id_of_def e spending_tx_def)
  have vin: "vin spending_tx = [TxinToKey \<lparr>ki_amount = 1000, ki_key_offsets = [3], ki_k_image = replicate 32 7\<rparr>]" by (simp add: spending_tx_def)
  have "\<exists>spent spn w1. spend_loop 0 (vin spending_tx) 0 [] w0 = (Inr (spent, spn), w1) \<and> (spn = [] \<or> spn = [0])"
  proof (cases "m_key_images w0 (replicate 32 7)")
    case (Some t)
    then have "t < length (m_transfers w0)" using index_okD [OF i] by blast
    then show ?thesis using Some by (simp add: vin not_le)
  qed (simp add: vin)
  then obtain spent spn w1 where s: "spend_loop 0 (vin spending_tx) 0 [] w0 = (Inr (spent, spn), w1)" and spn: "spn = [] \<or> spn = [0]" by blast
  have "\<exists>w'. handle_money_spent2 receiving_env mined_block spending_tx a [] spn rc ra v = (Inr (), w')" for v a
    using spn by (auto simp: p handle_money_spent2_def prepare_wti_def fill_transfer_details_def vin Let_def)
  then have "\<exists>w'. record_transfer receiving_env spending_tx height mined_block 0 spent [] spn rc ra v = (Inr (), w')" for v
    by (simp add: record_transfer_def Let_def word_gt_0)
  moreover have "parse_tx_pub_key None spending_tx = Some (True, null_pkey)" using empty_extra(1) [of spending_tx] by (simp add: spending_tx_def)
  ultimately show ?thesis using s by (auto simp: process_new_transaction_def pu e l w_next_def)
qed

definition spending_entry :: block_complete_entry where
  "spending_entry = \<lparr>bce_block = [], bce_txs = [tx_to_blob spending_tx]\<rparr>"

lemma spending_block:
  "fresh_images receiving_env 1 (block_txs receiving_env mined_block spending_entry) (m_transfers owning_wallet)"
  "\<exists>w'. process_new_blockchain_entry receiving_env mined_block spending_entry bl_id 1 owning_wallet = (Inr (), w')"
  "block_txs receiving_env mined_block spending_entry = [mined_tx, spending_tx]"
proof -
  have parse: "parse_and_validate_tx_from_blob (tx_to_blob spending_tx) = Some spending_tx" by code_simp
  have new: "timestamp mined_block + 60 * 60 * 24 > we_createtime receiving_env" by (simp add: mined_block_def sample_block_def receiving_env_def)
  have m: "miner_tx mined_block = mined_tx" by (simp add: mined_block_def)
  show txs: "block_txs receiving_env mined_block spending_entry = [mined_tx, spending_tx]"
    using new by (simp add: block_txs_def m parse spending_entry_def)
  show "fresh_images receiving_env 1 (block_txs receiving_env mined_block spending_entry) (m_transfers owning_wallet)"
    unfolding txs fresh_images_def by (simp add: mined_received spending_received owning_wallet_def)
  obtain w1 where w1: "process_new_transaction receiving_env mined_tx 1 mined_block owning_wallet = (Inr (), w1)" using mined_processed by blast
  have "index_ok w1" using process_transaction_exact [OF w1 owning_wallet_ok(1)] by (simp add: mined_received owning_wallet_def)
  then obtain w2 where "process_new_transaction receiving_env spending_tx 1 mined_block w1 = (Inr (), w2)" using spending_processed by blast
  then show "\<exists>w'. process_new_blockchain_entry receiving_env mined_block spending_entry bl_id 1 owning_wallet = (Inr (), w')"
    using new w1 by (simp add: process_new_blockchain_entry_def m parse spending_entry_def w_next_def) (simp add: owning_wallet_def)
qed

section \<open>Properties\<close>

text \<open>C15: In a wallet whose index of key images is exact, a processed block whose received outputs have new,
  different key images refines the ledger of the account: transaction by transaction the outputs to the
  account are appended, unspent, and every output whose key image is spent is marked, although the wallet
  finds them through the index; the index stays exact and the chain of the wallet grows by the block.\<close>

theorem wallet_block_refines_ledger:
  assumes "process_new_blockchain_entry env b bche bl_id height w = (Inr u, w')" and "index_ok w"
    and "fresh_images env height (block_txs env b bche) (m_transfers w)"
  shows "m_transfers w' = ledger_block env height (block_txs env b bche) (m_transfers w) \<and> index_ok w'
    \<and> unat height = length (m_blockchain w) \<and> m_blockchain w' = m_blockchain w @ [bl_id] \<and> m_local_bc_height w' = m_local_bc_height w + 1"
  using assms by (rule process_block_exact)

theorem wallet_block_refines_ledger_witness:
  "\<exists>w'. process_new_blockchain_entry receiving_env mined_block spending_entry (replicate 32 1) 1 owning_wallet = (Inr (), w')
    \<and> m_transfers w' = ledger_block receiving_env 1 [mined_tx, spending_tx] (m_transfers owning_wallet) \<and> m_blockchain w' = [replicate 32 0, replicate 32 1]"
proof -
  obtain w' where w': "process_new_blockchain_entry receiving_env mined_block spending_entry (replicate 32 1) 1 owning_wallet = (Inr (), w')"
    using spending_block(2) by blast
  with wallet_block_refines_ledger [OF w' owning_wallet_ok(1) spending_block(1)] show ?thesis by (simp add: spending_block(3) owning_wallet_def)
qed

text \<open>C16: In a wallet whose index of key images is exact and whose outputs are from lower blocks, processing a
  block whose received outputs have new, different key images and detaching it again restores the chain and
  takes away the outputs received in it, but every output spent in that block stays marked as spent,
  although the transaction is gone.\<close>

theorem detached_block_leaves_marks:
  assumes "process_new_blockchain_entry env b bche bl_id height w = (Inr u, w1)" and "index_ok w"
    and "fresh_images env height (block_txs env b bche) (m_transfers w)" and "\<forall>td \<in> set (m_transfers w). td_block_height td < height"
  shows "\<exists>w'. detach_blockchain height w1 = (Inr (), w') \<and> m_blockchain w' = m_blockchain w \<and> m_local_bc_height w' = m_local_bc_height w \<and> index_ok w'
    \<and> m_transfers w' = mark_images (concat (map spent_images (block_txs env b bche))) (m_transfers w)"
  using assms by (rule detach_after_block)

theorem detached_block_leaves_marks_witness:
  "\<exists>w1 w'. process_new_blockchain_entry receiving_env mined_block spending_entry (replicate 32 1) 1 owning_wallet = (Inr (), w1)
    \<and> detach_blockchain 1 w1 = (Inr (), w') \<and> m_blockchain w' = m_blockchain owning_wallet
    \<and> map td_spent (m_transfers owning_wallet) = [False] \<and> map td_spent (m_transfers w') = [True]"
proof -
  obtain w1 where w1: "process_new_blockchain_entry receiving_env mined_block spending_entry (replicate 32 1) 1 owning_wallet = (Inr (), w1)"
    using spending_block(2) by blast
  have "\<forall>td \<in> set (m_transfers owning_wallet). td_block_height td < 1" using owning_wallet_ok(2) by blast
  from detached_block_leaves_marks [OF w1 owning_wallet_ok(1) spending_block(1) this] w1 show ?thesis
    by (auto simp: spending_block(3) owning_wallet_def mark_images_def spent_images_def spending_tx_def mined_tx_def)
qed

text \<open>C17: When a block fails after its coinbase transaction was processed and is processed again later, the
  outputs of the coinbase transaction are in the wallet twice.\<close>

theorem interrupted_block_received_twice:
  assumes "process_new_transaction env (miner_tx b) height b w = (Inr u, wm)" and "timestamp b + 60 * 60 * 24 > we_createtime env"
    and "process_new_blockchain_entry env b bche bl_id height w = (Inl x, w1)"
    and "process_new_blockchain_entry env b bche' bl_id height w1 = (Inr v, w2)"
  shows "\<exists>xs ys. unmark (m_transfers w2) = unmark (m_transfers w) @ received env height (miner_tx b) @ xs @ received env height (miner_tx b) @ ys"
  using assms by (rule block_received_again)

theorem interrupted_block_received_twice_witness:
  "\<exists>w1 w2 xs ys. process_new_blockchain_entry receiving_env mined_block \<lparr>bce_block = [], bce_txs = [[1, 0, 1]]\<rparr> (replicate 32 1) 1 owning_wallet = (Inl tx_parse_error, w1)
    \<and> process_new_blockchain_entry receiving_env mined_block \<lparr>bce_block = [], bce_txs = []\<rparr> (replicate 32 1) 1 w1 = (Inr (), w2)
    \<and> length (received receiving_env 1 mined_tx) = 1
    \<and> unmark (m_transfers w2) = unmark (m_transfers owning_wallet) @ received receiving_env 1 mined_tx @ xs @ received receiving_env 1 mined_tx @ ys"
proof -
  have parse: "parse_and_validate_tx_from_blob [1, 0, 1] = None" by code_simp
  have new: "timestamp mined_block + 60 * 60 * 24 > we_createtime receiving_env" by (simp add: mined_block_def sample_block_def receiving_env_def)
  have m: "miner_tx mined_block = mined_tx" by (simp add: mined_block_def)
  obtain w1 where w1: "process_new_transaction receiving_env mined_tx 1 mined_block owning_wallet = (Inr (), w1)" using mined_processed by blast
  have "m_blockchain w1 = m_blockchain owning_wallet"
    using process_transaction_chain [of receiving_env mined_tx 1 mined_block owning_wallet] unfolding w1 by simp
  then have chain: "length (m_blockchain owning_wallet) = 1" "length (m_blockchain w1) = 1" by (simp_all add: owning_wallet_def)
  obtain w2 where w2: "process_new_transaction receiving_env mined_tx 1 mined_block w1 = (Inr (), w2)" using mined_processed by blast
  have first: "process_new_blockchain_entry receiving_env mined_block \<lparr>bce_block = [], bce_txs = [[1, 0, 1]]\<rparr> (replicate 32 1) 1 owning_wallet = (Inl tx_parse_error, w1)"
    using new w1 chain by (simp add: process_new_blockchain_entry_def m parse w_next_def)
  obtain w3 where second: "process_new_blockchain_entry receiving_env mined_block \<lparr>bce_block = [], bce_txs = []\<rparr> (replicate 32 1) 1 w1 = (Inr (), w3)"
    using new w2 chain by (simp add: process_new_blockchain_entry_def m w_next_def)
  from interrupted_block_received_twice [OF _ new first second, unfolded m, OF w1] first second show ?thesis by (simp add: mined_received)
qed

theorem pulled_blocks_adopted:
  assumes "pull_blocks env (Some (start, es)) w = (n, Inr u, w')" and "unat start + length es < 2 ^ 64"
  shows "take (unat start + length es) (m_blockchain w') = take (unat start) (m_blockchain w) @ map entry_id es \<and> unat start + length es \<le> length (m_blockchain w')"
  using assms pull_loop_adopts [of env start start es 0 w n u w'] by (auto simp: pull_blocks_def split: if_splits)

definition sample_entry :: block_complete_entry where
  "sample_entry = \<lparr>bce_block = block_to_blob sample_block, bce_txs = []\<rparr>"

theorem pulled_blocks_adopted_witness:
  "\<exists>w'. pull_blocks (receiving_env\<lparr>we_createtime := 1500000000\<rparr>) (Some (0, [sample_entry, sample_entry])) (owning_wallet\<lparr>m_blockchain := [get_block_hash sample_block]\<rparr>)
      = (1, Inr (), w')
    \<and> take 2 (m_blockchain w') = [get_block_hash sample_block, get_block_hash sample_block]"
proof -
  have parse: "parse_and_validate_block_from_blob (block_to_blob sample_block) = Some sample_block" by code_simp
  let ?w = "owning_wallet\<lparr>m_blockchain := [get_block_hash sample_block]\<rparr>" and ?env = "receiving_env\<lparr>we_createtime := 1500000000\<rparr>"
  have "timestamp sample_block = 1413000000" by (simp add: sample_block_def)
  then have "\<exists>w'. pull_blocks ?env (Some (0, [sample_entry, sample_entry])) ?w = (1, Inr (), w')"
    by (simp add: pull_blocks_def sample_entry_def parse process_new_blockchain_entry_def w_next_def Let_def)
  then obtain w' where w': "pull_blocks ?env (Some (0, [sample_entry, sample_entry])) ?w = (1, Inr (), w')" by blast
  have "take (Suc (Suc 0)) (m_blockchain w') = [get_block_hash sample_block, get_block_hash sample_block]"
    using pulled_blocks_adopted [OF w'] by (simp add: sample_entry_def parse)
  then show ?thesis using w' by (auto simp: numeral_2_eq_2)
qed

end
