(* ===== verification/WalletSend.thy ===== *)
theory WalletSend
  imports Wallet
begin

text \<open>
  Balances, the selection of outputs and the sending of money of \<open>src/wallet/wallet2.cpp\<close> and \<open>wallet2.h\<close>: the outputs
  found cover what is needed whenever the wallet can pay it, splitting an amount keeps its value, and the real output is
  at the position the source entry names.
\<close>

section \<open>Balances\<close>

definition wallet_spendtime_unlocked :: "wallet_env \<Rightarrow> u64 \<Rightarrow> wallet2 \<Rightarrow> bool" where
  "wallet_spendtime_unlocked env utime w =
    (if utime < CURRENCY_MAX_BLOCK_NUMBER
     then word_of_nat (length (m_blockchain w)) - 1 + CURRENCY_LOCKED_TX_ALLOWED_DELTA_BLOCKS \<ge> utime
     else we_now env + CURRENCY_LOCKED_TX_ALLOWED_DELTA_SECONDS \<ge> utime)"

definition is_transfer_unlocked :: "wallet_env \<Rightarrow> transfer_details \<Rightarrow> wallet2 \<Rightarrow> bool" where
  "is_transfer_unlocked env td w =
    (if \<not> wallet_spendtime_unlocked env (unlock_time (td_tx td)) w then False
     else if td_block_height td + DEFAULT_TX_SPENDABLE_AGE > word_of_nat (length (m_blockchain w)) then False
     else True)"

definition unlocked_balance :: "wallet_env \<Rightarrow> wallet2 \<Rightarrow> u64" where
  "unlocked_balance env w =
    foldl (\<lambda>amount td. if \<not> td_spent td \<and> is_transfer_unlocked env td w then amount + td_amount td else amount) 0 (m_transfers w)"

definition balance :: "wallet2 \<Rightarrow> u64" where
  "balance w =
    foldl (\<lambda>amount u. amount + ut_change (snd u))
      (foldl (\<lambda>amount td. if \<not> td_spent td then amount + td_amount td else amount) 0 (m_transfers w)) (m_unconfirmed_txs w)"

definition get_payments :: "hash \<Rightarrow> wallet2 \<Rightarrow> payment_details list" where
  "get_payments payment_id w = map snd (filter (\<lambda>p. fst p = payment_id) (m_payments w))"

definition get_recent_transfers_history :: "nat \<Rightarrow> nat \<Rightarrow> bool \<Rightarrow> wallet2 \<Rightarrow> wallet_transfer_info list" where
  "get_recent_transfers_history offset cnt bRecent_first w =
    (if offset \<ge> length (m_transfer_history w) then []
     else take cnt (drop offset (if bRecent_first then rev (m_transfer_history w) else m_transfer_history w)))"

definition wallet_transfer_info_from_unconfirmed :: "wallet_env \<Rightarrow> unconfirmed_transfer_details \<Rightarrow> wallet_error + wallet_transfer_info" where
  "wallet_transfer_info_from_unconfirmed env u =
    (let outs = get_outs_money_amount (ut_tx u)
     in case prepare_wti env 0 (ut_sent_time u) (ut_tx u) (outs - ut_change u) [] [] empty_wti of
          (Some e, _) \<Rightarrow> Inl e
        | (None, wti) \<Rightarrow> Inr (wti\<lparr>wti_is_income := False, wti_recipient := ut_recipient u, wti_recipient_alias := ut_recipient_alias u\<rparr>))"

fun get_unconfirmed_transfers :: "wallet_env \<Rightarrow> (hash \<times> unconfirmed_transfer_details) list \<Rightarrow> wallet_error + wallet_transfer_info list" where
  "get_unconfirmed_transfers env [] = Inr []"
| "get_unconfirmed_transfers env ((_, u) # us) =
    (case wallet_transfer_info_from_unconfirmed env u of
       Inl e \<Rightarrow> Inl e
     | Inr wti \<Rightarrow> (case get_unconfirmed_transfers env us of Inl e \<Rightarrow> Inl e | Inr trs \<Rightarrow> Inr (wti # trs)))"

section \<open>Selection of outputs\<close>

text \<open>\<open>found_free_amounts\<close>, a map from amounts to lists of indices, as a sorted association list.\<close>

type_synonym free_amounts = "(u64 \<times> nat list) list"

fun add_free :: "u64 \<Rightarrow> nat \<Rightarrow> free_amounts \<Rightarrow> free_amounts" where
  "add_free a i [] = [(a, [i])]"
| "add_free a i ((b, is) # m) =
    (if a < b then (a, [i]) # (b, is) # m else if a = b then (b, is @ [i]) # m else (b, is) # add_free a i m)"

text \<open>The last index of the greatest amount is taken away, and the amount with its last index.\<close>

abbreviation free_count :: "free_amounts \<Rightarrow> nat" where
  "free_count m \<equiv> sum_list (map (length \<circ> snd) m)"

definition pop_last :: "free_amounts \<Rightarrow> free_amounts" where
  "pop_last m = (let (a, is) = last m in if butlast is = [] then butlast m else butlast m @ [(a, butlast is)])"

lemma free_count_pop_last:
  assumes "m \<noteq> []" and "snd (last m) \<noteq> []"
  shows "free_count m = free_count (pop_last m) + 1"
proof -
  obtain m' a "is" where m: "m = m' @ [(a, is)]" using assms(1) by (cases m rule: rev_cases) auto
  obtain i is' where "is": "is = is' @ [i]" using assms(2) m by (cases "is" rule: rev_cases) auto
  show ?thesis by (simp add: m "is" pop_last_def)
qed

text \<open>The loop: the found money and the selected indices. \<open>lower_bound\<close> finds the first amount that covers the rest.\<close>

function select_loop :: "u64 \<Rightarrow> u64 \<Rightarrow> nat list \<Rightarrow> free_amounts \<Rightarrow> u64 \<times> nat list" where
  "select_loop needed found sel m =
    (if \<not> (found < needed \<and> m \<noteq> []) then (found, sel)
     else case find (\<lambda>e. fst e \<ge> needed - found) m of
            Some (a, i # is) \<Rightarrow> (found + a, sel @ [last (i # is)])
          | _ \<Rightarrow>
              if snd (last m) = [] then (0, sel)
              else select_loop needed (found + fst (last m)) (sel @ [last (snd (last m))]) (pop_last m))"
  by pat_completeness auto

termination select_loop
proof (relation "measure (\<lambda>(_, _, _, m). free_count m)")
qed (use free_count_pop_last in \<open>force simp: split: option.splits\<close>)+

declare select_loop.simps [simp del]

definition select_indices_for_transfer :: "free_amounts \<Rightarrow> u64 \<Rightarrow> u64 \<times> nat list" where
  "select_indices_for_transfer found_free_amounts needed_money = select_loop needed_money 0 [] found_free_amounts"

text \<open>\<open>boost::get\<close> throws for an output that is not to a key.\<close>

fun free_loop :: "wallet_env \<Rightarrow> u64 \<Rightarrow> wallet2 \<Rightarrow> nat \<Rightarrow> transfer_details list \<Rightarrow> free_amounts \<Rightarrow> free_amounts option" where
  "free_loop env fake_outputs_count w i [] m = Some m"
| "free_loop env fake_outputs_count w i (td # tds) m =
    (if \<not> (\<not> td_spent td \<and> is_transfer_unlocked env td w) then free_loop env fake_outputs_count w (i + 1) tds m
     else case o_target (vout (td_tx td) ! td_internal_output_index td) of
            TxoutToKey k \<Rightarrow>
              free_loop env fake_outputs_count w (i + 1) tds
                (if is_mixattr_applicable_for_fake_outs_counter (tk_mix_attr k) fake_outputs_count then add_free (td_amount td) i m else m)
          | _ \<Rightarrow> None)"

definition select_transfers :: "wallet_env \<Rightarrow> u64 \<Rightarrow> u64 \<Rightarrow> wallet2 \<Rightarrow> (u64 \<times> nat list) option" where
  "select_transfers env needed_money fake_outputs_count w =
    (case free_loop env fake_outputs_count w 0 (m_transfers w) [] of
       None \<Rightarrow> None
     | Some m \<Rightarrow> Some (select_indices_for_transfer m needed_money))"

section \<open>Destinations and sources\<close>

definition digit_split_strategy ::
  "tx_destination_entry list \<Rightarrow> tx_destination_entry \<Rightarrow> u64 \<Rightarrow> tx_destination_entry list \<times> u64" where
  "digit_split_strategy dsts change_dst threshold =
    (let parts = decompose_amount_into_digits (de_amount change_dst) threshold
     in (concat (map (\<lambda>de. map (\<lambda>p. de\<lparr>de_amount := fst p\<rparr>) (decompose_amount_into_digits (de_amount de) threshold)) dsts)
           @ map (\<lambda>p. change_dst\<lparr>de_amount := fst p\<rparr>) (filter (\<lambda>p. \<not> snd p) parts),
         case filter snd parts of [] \<Rightarrow> 0 | ds \<Rightarrow> fst (last ds)))"

text \<open>The outputs to mix with: those of the daemon in the order of their indices, without the real one, at most as many as asked for.\<close>

definition fake_outputs :: "u64 \<Rightarrow> u64 \<Rightarrow> (u64 \<times> public_key) list \<Rightarrow> (u64 \<times> public_key) list" where
  "fake_outputs fake_outputs_count global_index outs =
    take (max 1 (unat fake_outputs_count)) (filter (\<lambda>oe. fst oe \<noteq> global_index) (sort_key fst outs))"

definition make_source :: "wallet_env \<Rightarrow> u64 \<Rightarrow> transfer_details \<Rightarrow> (u64 \<times> public_key) list option \<Rightarrow> wallet_error + tx_source_entry" where
  "make_source env fake_outputs_count td daemon_outs =
    (let outputs = (case daemon_outs of None \<Rightarrow> [] | Some outs \<Rightarrow> fake_outputs fake_outputs_count (td_global_output_index td) outs);
         before = takeWhile (\<lambda>oe. \<not> fst oe \<ge> td_global_output_index td) outputs
     in case o_target (vout (td_tx td) ! td_internal_output_index td) of
          TxoutToKey k \<Rightarrow>
            (case get_tx_pub_key_from_extra (we_donation_account env) (td_tx td) of
               None \<Rightarrow> Inl undefined_access
             | Some key \<Rightarrow>
                 Inr \<lparr>se_outputs = before @ (td_global_output_index td, tk_key k) # drop (length before) outputs, se_real_output = length before,
                   se_real_out_tx_key = key, se_real_output_in_tx_index = td_internal_output_index td, se_amount = td_amount td\<rparr>)
        | _ \<Rightarrow> Inl bad_get)"

fun make_sources :: "wallet_env \<Rightarrow> u64 \<Rightarrow> transfer_details list \<Rightarrow> (u64 \<times> public_key) list list \<Rightarrow> wallet_error + tx_source_entry list" where
  "make_sources env fake_outputs_count [] outs = Inr []"
| "make_sources env fake_outputs_count (td # tds) outs =
    (case make_source env fake_outputs_count td (case outs of [] \<Rightarrow> None | os # _ \<Rightarrow> Some os) of
       Inl e \<Rightarrow> Inl e
     | Inr src \<Rightarrow> (case make_sources env fake_outputs_count tds (tl outs) of Inl e \<Rightarrow> Inl e | Inr srcs \<Rightarrow> Inr (src # srcs)))"

section \<open>Sending\<close>

text \<open>The sum of fee and amounts, checked for overflow.\<close>

fun needed_money_loop :: "tx_destination_entry list \<Rightarrow> u64 \<Rightarrow> wallet_error + u64" where
  "needed_money_loop [] needed = Inr needed"
| "needed_money_loop (dt # dts) needed =
    (if 0 = de_amount dt then Inl zero_destination
     else let needed = needed + de_amount dt
          in if needed < de_amount dt then Inl tx_sum_overflow else needed_money_loop dts needed)"

text \<open>The answers of the daemon to the request for outputs to mix with.\<close>

definition request_outs :: "wallet_env \<Rightarrow> u64 \<Rightarrow> transfer_details list \<Rightarrow> wallet_error + (u64 \<times> public_key) list list" where
  "request_outs env fake_outputs_count tds =
    (if fake_outputs_count = 0 then Inr []
     else if list_ex (\<lambda>td. length (vout (td_tx td)) \<le> td_internal_output_index td) tds then Inl wallet_internal_error
     else case get_random_outs env (map td_amount tds) (fake_outputs_count + 1) of
            None \<Rightarrow> Inl no_connection_to_daemon
          | Some outs \<Rightarrow>
              if length outs \<noteq> length tds then Inl wallet_internal_error
              else if list_ex (\<lambda>os. length os < unat fake_outputs_count) outs then Inl not_enough_outs_to_mix
              else Inr outs)"

definition update_current_tx_limit :: "wallet_env \<Rightarrow> wallet2 \<Rightarrow> unit wallet_effect" where
  "update_current_tx_limit env w =
    (case get_blocks_median env of
       None \<Rightarrow> (Inl no_connection_to_daemon, w)
     | Some med \<Rightarrow>
         if med < get_block_granted_full_reward_zone (m_local_bc_height w) then (Inl get_blocks_error, w)
         else (Inr (), w\<lparr>m_upper_transaction_size_limit := med - CURRENCY_COINBASE_BLOB_RESERVED_SIZE\<rparr>))"

definition recipients :: "tx_destination_entry list \<Rightarrow> bytes" where
  "recipients dsts = foldl (\<lambda>r d. (if r \<noteq> [] then r @ [44, 32] else r) @ get_account_address_as_str (de_addr d)) [] dsts"

definition mark_spent :: "nat list \<Rightarrow> wallet2 \<Rightarrow> wallet2" where
  "mark_spent sel w = foldl (\<lambda>w i. w\<lparr>m_transfers := (m_transfers w)[i := (m_transfers w ! i)\<lparr>td_spent := True\<rparr>]\<rparr>) w sel"

text \<open>The part after the transaction was constructed.\<close>

definition send_transaction :: "wallet_env \<Rightarrow> transaction \<Rightarrow> nat list \<Rightarrow> u64 \<Rightarrow> tx_destination_entry list \<Rightarrow> wallet2 \<Rightarrow> transaction wallet_effect" where
  "send_transaction env tx sel change dsts w =
    (if \<not> check_connection env then (Inl no_connection_to_daemon, w)
     else w_next (update_current_tx_limit env w) (\<lambda>_ w.
       if get_max_transaction_blob_size (m_local_bc_height w) \<le> get_object_blobsize tx then (Inl tx_too_big, w)
       else if \<not> check_inputs_types_supported tx then (Inl unexpected_txin_type, w)
       else case send_raw_tx env tx of
              Some e \<Rightarrow> (Inl e, w)
            | None \<Rightarrow> (Inr tx, mark_spent sel (add_sent_unconfirmed_tx env tx change (recipients dsts) w))))"

definition transfer ::
  "wallet_env \<Rightarrow> tx_destination_entry list \<Rightarrow> u64 \<Rightarrow> u64 \<Rightarrow> u64 \<Rightarrow> bytes
    \<Rightarrow> (tx_destination_entry list \<Rightarrow> tx_destination_entry \<Rightarrow> u64 \<Rightarrow> tx_destination_entry list \<times> u64) \<Rightarrow> tx_dust_policy \<Rightarrow> wallet2
    \<Rightarrow> transaction wallet_effect" where
  "transfer env dsts fake_outputs_count utime fee_amount ex split_strategy policy w =
    (if dsts = [] then (Inl zero_destination, w)
     else case needed_money_loop dsts fee_amount of
            Inl e \<Rightarrow> (Inl e, w)
          | Inr needed \<Rightarrow>
              (case select_transfers env needed fake_outputs_count w of
                 None \<Rightarrow> (Inl bad_get, w)
               | Some (found, sel) \<Rightarrow>
                   if found < needed then (Inl not_enough_money, w)
                   else let tds = map (\<lambda>i. m_transfers w ! i) sel
                        in case request_outs env fake_outputs_count tds of
                             Inl e \<Rightarrow> (Inl e, w)
                           | Inr outs \<Rightarrow>
                               (case make_sources env fake_outputs_count tds outs of
                                  Inl e \<Rightarrow> (Inl e, w)
                                | Inr sources \<Rightarrow>
                                    let change_dts = (if needed < found then \<lparr>de_amount = found - needed, de_addr = we_address env\<rparr>
                                          else \<lparr>de_amount = 0, de_addr = \<lparr>m_spend_public_key = replicate 32 0, m_view_public_key = replicate 32 0\<rparr>\<rparr>);
                                        (splitted, dust) = split_strategy dsts change_dts (dust_threshold policy)
                                    in if dust_threshold policy < dust then (Inl wallet_internal_error, w)
                                       else let splitted = (if 0 \<noteq> dust \<and> \<not> add_to_fee policy
                                                  then splitted @ [\<lparr>de_amount = dust, de_addr = addr_for_dust policy\<rparr>] else splitted)
                                            in case construct_tx env sources splitted ex utime of
                                                 None \<Rightarrow> (Inl tx_not_constructed, w)
                                               | Some tx \<Rightarrow> send_transaction env tx sel (de_amount change_dts) dsts w)))"

section \<open>The selection covers the need\<close>

text \<open>The free outputs, as pairs of an amount and an index.\<close>

definition free_pairs :: "free_amounts \<Rightarrow> (u64 \<times> nat) list" where
  "free_pairs m = concat (map (\<lambda>(a, is). map (Pair a) is) m)"

definition pairs_sum :: "(u64 \<times> nat) list \<Rightarrow> nat" where
  "pairs_sum ps = sum_list (map (unat \<circ> fst) ps)"

lemma pairs_sum_simps [simp]:
  "pairs_sum [] = 0" "pairs_sum (p # ps) = unat (fst p) + pairs_sum ps" "pairs_sum (ps @ qs) = pairs_sum ps + pairs_sum qs"
  by (simp_all add: pairs_sum_def)

lemma pairs_sum_member: "p \<in> set ps \<Longrightarrow> unat (fst p) \<le> pairs_sum ps"
  by (induction ps) auto

lemma pairs_sum_mset: "mset ps = mset qs \<Longrightarrow> pairs_sum ps = pairs_sum qs"
  unfolding pairs_sum_def by (metis mset_map sum_mset_sum_list)

lemma free_pairs_simps [simp]:
  "free_pairs [] = []" "free_pairs ((a, is) # m) = map (Pair a) is @ free_pairs m" "free_pairs (m @ m') = free_pairs m @ free_pairs m'"
  by (simp_all add: free_pairs_def)

lemma free_pairs_pop_last:
  assumes "m \<noteq> []" and "snd (last m) \<noteq> []"
  shows "free_pairs m = free_pairs (pop_last m) @ [(fst (last m), last (snd (last m)))]"
proof -
  obtain m' a "is" where m: "m = m' @ [(a, is)]" using assms(1) by (cases m rule: rev_cases) auto
  obtain i is' where "is": "is = is' @ [i]" using assms(2) m by (cases "is" rule: rev_cases) auto
  show ?thesis by (simp add: m "is" pop_last_def)
qed

lemma pop_last_nonempty: "m \<noteq> [] \<Longrightarrow> list_all (\<lambda>e. snd e \<noteq> []) m \<Longrightarrow> list_all (\<lambda>e. snd e \<noteq> []) (pop_last m)"
  by (cases m rule: rev_cases) (auto simp: pop_last_def)

lemma found_in_pairs:
  assumes "find (\<lambda>e. P (fst e)) m = Some (a, i # is)"
  shows "P a \<and> (a, last (i # is)) \<in> set (free_pairs m)"
proof -
  have "(a, i # is) \<in> set m" "P a" using assms unfolding find_Some_iff by (metis nth_mem, metis fst_conv)
  then show ?thesis using last_in_set [of "i # is"] by (force simp: free_pairs_def)
qed

text \<open>The selected pairs, in their order, are some of the free ones, and cover the need if all of them do.\<close>

lemma select_loop_covers:
  assumes "list_all (\<lambda>e. snd e \<noteq> []) m" and "unat found + pairs_sum (free_pairs m) < 2 ^ 64"
    and "select_loop needed found sel m = (f, sel')"
  shows "\<exists>ps. sel' = sel @ map snd ps \<and> mset ps \<subseteq># mset (free_pairs m) \<and> unat f = unat found + pairs_sum ps
           \<and> (unat needed \<le> unat f \<or> unat f = unat found + pairs_sum (free_pairs m))"
  using assms
proof (induction needed found sel m rule: select_loop.induct)
  case (1 needed found sel m)
  show ?case
  proof (cases "found < needed \<and> m \<noteq> []")
    case False
    then have "f = found" "sel' = sel" using "1.prems"(3) by (auto simp: select_loop.simps)
    moreover have "unat needed \<le> unat found \<or> m = []" using False by (auto simp: word_less_nat_alt)
    ultimately show ?thesis by (intro exI [of _ "[]"]) auto
  next
    case True
    let ?find = "find (\<lambda>e. fst e \<ge> needed - found) m"
    have ne: "snd (last m) \<noteq> []" using "1.prems"(1) True by (auto simp: list_all_iff)
    show ?thesis
    proof (cases ?find)
      case None
      let ?p = "(fst (last m), last (snd (last m)))"
      have pairs: "free_pairs m = free_pairs (pop_last m) @ [?p]" using free_pairs_pop_last True ne by blast
      then have sum: "pairs_sum (free_pairs m) = pairs_sum (free_pairs (pop_last m)) + unat (fst (last m))" by simp
      have add: "unat (found + fst (last m)) = unat found + unat (fst (last m))"
        using "1.prems"(2) sum by (intro unat_add_no_wrap) simp
      have "\<exists>ps. sel' = (sel @ [last (snd (last m))]) @ map snd ps \<and> mset ps \<subseteq># mset (free_pairs (pop_last m))
           \<and> unat f = unat (found + fst (last m)) + pairs_sum ps
           \<and> (unat needed \<le> unat f \<or> unat f = unat (found + fst (last m)) + pairs_sum (free_pairs (pop_last m)))"
        using "1.IH"(1) [OF _ None ne] True None ne "1.prems" sum add
        by (auto simp: pop_last_nonempty select_loop.simps [of needed found sel m])
      then obtain ps where "sel' = (sel @ [last (snd (last m))]) @ map snd ps" "mset ps \<subseteq># mset (free_pairs (pop_last m))"
        "unat f = unat (found + fst (last m)) + pairs_sum ps"
        "unat needed \<le> unat f \<or> unat f = unat (found + fst (last m)) + pairs_sum (free_pairs (pop_last m))" by blast
      then show ?thesis using pairs add sum by (intro exI [of _ "?p # ps"]) auto
    next
      case (Some e)
      obtain a "is" where e: "e = (a, is)" by (cases e)
      have "(a, is) \<in> set m" using Some e by (auto simp: find_Some_iff)
      then obtain i is' where "is": "is = i # is'" using "1.prems"(1) by (cases "is") (auto simp: list_all_iff)
      have res: "f = found + a" "sel' = sel @ [last (i # is')]"
        using "1.prems"(3) True Some e "is" by (auto simp: select_loop.simps [of needed found sel m])
      have covers: "needed - found \<le> a" and mem: "(a, last (i # is')) \<in> set (free_pairs m)"
        using found_in_pairs [of "\<lambda>x. x \<ge> needed - found" m a i is'] Some e "is" by auto
      have "unat a \<le> pairs_sum (free_pairs m)" using pairs_sum_member [OF mem] by simp
      then have add: "unat (found + a) = unat found + unat a" using "1.prems"(2) by (intro unat_add_no_wrap) simp
      moreover have "unat (needed - found) = unat needed - unat found" using True by (intro unat_sub_no_wrap) auto
      then have "unat needed - unat found \<le> unat a" using covers by (simp add: word_le_nat_alt)
      ultimately show ?thesis using res mem by (intro exI [of _ "[(a, last (i # is'))]"]) auto
    qed
  qed
qed

text \<open>The outputs of the wallet that may be spent with that many outputs to mix with.\<close>

definition usable :: "wallet_env \<Rightarrow> u64 \<Rightarrow> wallet2 \<Rightarrow> transfer_details \<Rightarrow> bool" where
  "usable env fake_outputs_count w td \<longleftrightarrow> \<not> td_spent td \<and> is_transfer_unlocked env td w
    \<and> (case o_target (vout (td_tx td) ! td_internal_output_index td) of
         TxoutToKey k \<Rightarrow> is_mixattr_applicable_for_fake_outs_counter (tk_mix_attr k) fake_outputs_count | _ \<Rightarrow> False)"

definition usable_pairs :: "wallet_env \<Rightarrow> u64 \<Rightarrow> wallet2 \<Rightarrow> nat \<Rightarrow> transfer_details list \<Rightarrow> (u64 \<times> nat) list" where
  "usable_pairs env fake_outputs_count w i tds =
    map (\<lambda>(j, td). (td_amount td, j)) (filter (usable env fake_outputs_count w \<circ> snd) (enumerate i tds))"

definition usable_money :: "wallet_env \<Rightarrow> u64 \<Rightarrow> wallet2 \<Rightarrow> nat" where
  "usable_money env fake_outputs_count w = sum_list (map (unat \<circ> td_amount) (filter (usable env fake_outputs_count w) (m_transfers w)))"

lemma add_free_pairs:
  "list_all (\<lambda>e. snd e \<noteq> []) m \<Longrightarrow>
    list_all (\<lambda>e. snd e \<noteq> []) (add_free a i m) \<and> mset (free_pairs (add_free a i m)) = add_mset (a, i) (mset (free_pairs m))"
  by (induction a i m rule: add_free.induct) auto

lemma free_loop_pairs:
  assumes "free_loop env fake w i tds m = Some m'" and "list_all (\<lambda>e. snd e \<noteq> []) m"
  shows "list_all (\<lambda>e. snd e \<noteq> []) m' \<and> mset (free_pairs m') = mset (free_pairs m) + mset (usable_pairs env fake w i tds)"
  using assms
proof (induction env fake w i tds m rule: free_loop.induct)
  case (2 env fake w i td tds m)
  show ?case
  proof (cases "\<not> td_spent td \<and> is_transfer_unlocked env td w")
    case True
    then obtain k where k: "o_target (vout (td_tx td) ! td_internal_output_index td) = TxoutToKey k" using "2.prems"(1) by (auto split: txout_target_v.splits)
    have "list_all (\<lambda>e. snd e \<noteq> []) (add_free (td_amount td) i m)" using add_free_pairs "2.prems"(2) by blast
    then show ?thesis
      using "2.IH"(2) [of k] True k "2.prems" add_free_pairs [OF "2.prems"(2), of "td_amount td" i]
      by (auto simp: usable_pairs_def usable_def split: if_splits)
  qed (use 2 in \<open>auto simp: usable_pairs_def usable_def\<close>)
qed (simp add: usable_pairs_def)

lemma usable_pairs_sum: "pairs_sum (usable_pairs env fake w i tds) = sum_list (map (unat \<circ> td_amount) (filter (usable env fake w) tds))"
  by (induction tds arbitrary: i) (auto simp: usable_pairs_def)

lemma usable_pairs_iff:
  "(a, j) \<in> set (usable_pairs env fake w 0 tds) \<longleftrightarrow> j < length tds \<and> usable env fake w (tds ! j) \<and> a = td_amount (tds ! j)"
  by (auto simp: usable_pairs_def in_set_enumerate_eq image_iff)

lemma usable_pairs_distinct: "distinct (map snd (usable_pairs env fake w i tds))"
proof -
  have "map snd (usable_pairs env fake w i tds) = map fst (filter (usable env fake w \<circ> snd) (enumerate i tds))"
    by (simp add: usable_pairs_def comp_def case_prod_beta)
  then show ?thesis by (simp add: distinct_map_filter)
qed

lemma selection_covers:
  assumes "select_transfers env needed fake w = Some (found, sel)" and "usable_money env fake w < 2 ^ 64"
  shows "distinct sel \<and> (\<forall>i \<in> set sel. i < length (m_transfers w) \<and> usable env fake w (m_transfers w ! i))
    \<and> unat found = sum_list (map (\<lambda>i. unat (td_amount (m_transfers w ! i))) sel)
    \<and> (needed \<le> found \<longleftrightarrow> unat needed \<le> usable_money env fake w)"
proof -
  let ?us = "usable_pairs env fake w 0 (m_transfers w)"
  obtain m where m: "free_loop env fake w 0 (m_transfers w) [] = Some m" and sl: "select_loop needed 0 [] m = (found, sel)"
    using assms(1) by (auto simp: select_transfers_def select_indices_for_transfer_def split: option.splits)
  have ne: "list_all (\<lambda>e. snd e \<noteq> []) m" and ms: "mset (free_pairs m) = mset ?us" using free_loop_pairs [OF m] by auto
  have total: "pairs_sum (free_pairs m) = usable_money env fake w" using pairs_sum_mset [OF ms] by (simp add: usable_pairs_sum usable_money_def)
  obtain ps where sel: "sel = map snd ps" and sub: "mset ps \<subseteq># mset ?us" and f: "unat found = pairs_sum ps"
    and cov: "unat needed \<le> unat found \<or> unat found = usable_money env fake w"
    using select_loop_covers [OF ne _ sl] total assms(2) ms by auto
  have el: "fst p = td_amount (m_transfers w ! snd p) \<and> snd p < length (m_transfers w) \<and> usable env fake w (m_transfers w ! snd p)" if "p \<in> set ps" for p
    using that sub usable_pairs_iff [of "fst p" "snd p"] by (metis mset_subset_eqD prod.collapse set_mset_mset)
  obtain zs where zs: "mset ?us = mset (ps @ zs)" using sub by (metis ex_mset mset_append subset_mset.add_diff_inverse)
  have "mset (map snd ?us) = mset (map snd (ps @ zs))" using zs by (metis mset_map)
  then have "distinct (map snd (ps @ zs))" using usable_pairs_distinct mset_eq_imp_distinct_iff by metis
  then have "distinct sel" by (simp add: sel)
  moreover have "unat found = sum_list (map (\<lambda>i. unat (td_amount (m_transfers w ! i))) sel)"
    using el by (simp add: f sel pairs_sum_def comp_def cong: map_cong)
  moreover have "pairs_sum ps \<le> usable_money env fake w" using pairs_sum_mset [OF zs] pairs_sum_mset [OF ms] total by simp
  ultimately show ?thesis using el cov f by (auto simp: sel word_le_nat_alt)
qed

section \<open>Splitting keeps the value\<close>

definition dsts_total :: "tx_destination_entry list \<Rightarrow> nat" where
  "dsts_total dsts = sum_list (map (unat \<circ> de_amount) dsts)"

lemma dsts_total_simps [simp]:
  "dsts_total [] = 0" "dsts_total (d # ds) = unat (de_amount d) + dsts_total ds" "dsts_total (ds @ es) = dsts_total ds + dsts_total es"
  by (simp_all add: dsts_total_def)

lemma decompose_loop_dust_once:
  "decompose_loop amount th order dust h out = (out', dust', h') \<Longrightarrow> length (filter snd out) \<le> of_bool h
    \<Longrightarrow> length (filter snd out') \<le> of_bool h'"
proof (induction amount th order dust h out rule: decompose_loop.induct)
  case (1 amount th order dust h out)
  let ?chunk = "(amount mod 10) * order"
  show ?case
  proof (cases "amount = 0")
    case True
    then show ?thesis using "1.prems" by (simp add: decompose_loop.simps [of 0])
  next
    case False
    show ?thesis
    proof (cases "dust + ?chunk \<le> th")
      case True
      then show ?thesis using "1.IH"(1) [OF False refl refl refl True] "1.prems" False
        by (simp add: decompose_loop.simps [of amount] Let_def)
    next
      case nd: False
      show ?thesis
        using "1.IH"(2) [OF False refl refl refl nd refl refl refl] "1.prems" False nd
        by (cases h; cases "dust = 0"; cases "?chunk = 0") (simp_all add: decompose_loop.simps [of amount] Let_def)
    qed
  qed
qed

lemma decompose_dust_once: "length (filter snd (decompose_amount_into_digits amount th)) \<le> 1"
proof -
  obtain out dust h where "decompose_loop amount th 1 0 False [] = (out, dust, h)" by (metis prod_cases3)
  with decompose_loop_dust_once [OF this] show ?thesis by (cases h) (auto simp: decompose_amount_into_digits_def)
qed

lemma parts_total_filter: "parts_total ps = parts_total (filter snd ps) + parts_total (filter (\<lambda>p. \<not> snd p) ps)"
  by (induction ps) (auto simp: parts_total_def)

lemma dsts_of_parts: "dsts_total (map (\<lambda>p. de\<lparr>de_amount := fst p\<rparr>) ps) = parts_total ps"
  by (induction ps) (auto simp: parts_total_def)

lemma split_dsts_total:
  "dsts_total (concat (map (\<lambda>de. map (\<lambda>p. de\<lparr>de_amount := fst p\<rparr>) (decompose_amount_into_digits (de_amount de) th)) dsts)) = dsts_total dsts"
  using decompose_ok by (induction dsts) (simp_all add: dsts_of_parts)

lemma digit_split_total:
  assumes "digit_split_strategy dsts change th = (splitted, dust)"
  shows "dsts_total splitted + unat dust = dsts_total dsts + unat (de_amount change)" and "dust \<le> th"
proof -
  define ps where "ps = decompose_amount_into_digits (de_amount change) th"
  have whole: "parts_total ps = unat (de_amount change)" "list_all (part_ok th) ps" using decompose_ok by (auto simp: ps_def)
  have dust: "dust = (case filter snd ps of [] \<Rightarrow> 0 | ds \<Rightarrow> fst (last ds))"
    and sp: "dsts_total splitted = dsts_total dsts + parts_total (filter (\<lambda>p. \<not> snd p) ps)"
    using assms by (auto simp: digit_split_strategy_def Let_def ps_def split_dsts_total dsts_of_parts)
  consider "filter snd ps = []" | d where "filter snd ps = [d]"
    using decompose_dust_once [of "de_amount change" th] unfolding ps_def [symmetric] by (cases "filter snd ps") auto
  then have "unat dust = parts_total (filter snd ps) \<and> dust \<le> th"
  proof cases
    case (2 d)
    then have "d \<in> set (filter snd ps)" by (metis list.set_intros(1))
    then have "d \<in> set ps" "snd d" by auto
    then have "part_ok th d" using whole(2) by (simp add: list_all_iff)
    then show ?thesis using 2 dust \<open>snd d\<close> by (simp add: parts_total_def part_ok_def case_prod_beta)
  qed (use dust in \<open>simp add: parts_total_def\<close>)
  then show "dsts_total splitted + unat dust = dsts_total dsts + unat (de_amount change)" "dust \<le> th"
    using whole(1) sp parts_total_filter [of ps] by auto
qed

section \<open>Money is conserved\<close>

definition sources_total :: "tx_source_entry list \<Rightarrow> nat" where
  "sources_total srcs = sum_list (map (unat \<circ> se_amount) srcs)"

lemma make_source_amount: "make_source env fake td os = Inr src \<Longrightarrow> se_amount src = td_amount td"
  by (auto simp: make_source_def Let_def split: txout_target_v.splits option.splits)

lemma make_sources_amounts: "make_sources env fake tds outs = Inr srcs \<Longrightarrow> map se_amount srcs = map td_amount tds"
  by (induction env fake tds outs arbitrary: srcs rule: make_sources.induct) (auto simp: make_source_amount split: sum.splits)

lemma needed_money_exact: "needed_money_loop dts needed = Inr n \<Longrightarrow> unat n = unat needed + dsts_total dts"
proof (induction dts needed rule: needed_money_loop.induct)
  case (2 dt dts needed)
  then have "\<not> de_amount dt + needed < de_amount dt" by (auto simp: Let_def add.commute split: if_splits)
  then have "unat (needed + de_amount dt) = unat needed + unat (de_amount dt)"
    unfolding add_carry_iff by (intro unat_add_no_wrap) simp
  then show ?case using 2 by (auto simp: Let_def split: if_splits)
qed simp

text \<open>What a successful transfer has done: the steps, with their results.\<close>

lemma transferD:
  assumes "transfer env dsts fake utime fee_amount ex split_strategy policy w = (Inr tx, w')"
  shows "\<exists>needed found sel outs sources change splitted dust.
    needed_money_loop dsts fee_amount = Inr needed \<and> select_transfers env needed fake w = Some (found, sel) \<and> needed \<le> found
    \<and> make_sources env fake (map (\<lambda>i. m_transfers w ! i) sel) outs = Inr sources
    \<and> de_amount change = found - needed \<and> (needed < found \<longrightarrow> de_addr change = we_address env)
    \<and> split_strategy dsts change (dust_threshold policy) = (splitted, dust)
    \<and> dust \<le> dust_threshold policy
    \<and> construct_tx env sources (if dust \<noteq> 0 \<and> \<not> add_to_fee policy then splitted @ [\<lparr>de_amount = dust, de_addr = addr_for_dust policy\<rparr>] else splitted) ex utime = Some tx
    \<and> (\<exists>limit. w' = mark_spent sel (add_sent_unconfirmed_tx env tx (found - needed) (recipients dsts) (w\<lparr>m_upper_transaction_size_limit := limit\<rparr>)))"
proof -
  obtain needed where n: "needed_money_loop dsts fee_amount = Inr needed" using assms by (auto simp: transfer_def split: if_splits sum.splits)
  obtain found sel where s: "select_transfers env needed fake w = Some (found, sel)" and le: "needed \<le> found"
    using assms n by (auto simp: transfer_def not_less split: if_splits option.splits)
  let ?tds = "map (\<lambda>i. m_transfers w ! i) sel"
  obtain outs where o: "request_outs env fake ?tds = Inr outs" using assms n s le by (auto simp: transfer_def not_less Let_def split: if_splits sum.splits)
  obtain sources where m: "make_sources env fake ?tds outs = Inr sources"
    using assms n s le o by (auto simp: transfer_def not_less Let_def split: if_splits sum.splits)
  define change where "change = (if needed < found then \<lparr>de_amount = found - needed, de_addr = we_address env\<rparr>
    else \<lparr>de_amount = 0, de_addr = \<lparr>m_spend_public_key = replicate 32 0, m_view_public_key = replicate 32 0\<rparr>\<rparr>)"
  obtain splitted dust where sp: "split_strategy dsts change (dust_threshold policy) = (splitted, dust)" by fastforce
  have ch: "de_amount change = found - needed \<and> (needed < found \<longrightarrow> de_addr change = we_address env)" using le by (auto simp: change_def)
  have d: "dust \<le> dust_threshold policy"
    using assms n s le o m sp unfolding change_def by (auto simp: transfer_def not_less Let_def split: if_splits)
  let ?sp = "if dust \<noteq> 0 \<and> \<not> add_to_fee policy then splitted @ [\<lparr>de_amount = dust, de_addr = addr_for_dust policy\<rparr>] else splitted"
  have "(case construct_tx env sources ?sp ex utime of None \<Rightarrow> (Inl tx_not_constructed, w) | Some tx \<Rightarrow> send_transaction env tx sel (de_amount change) dsts w) = (Inr tx, w')"
    using assms n s le o m sp d unfolding change_def by (auto simp: transfer_def not_less Let_def split: if_splits)
  then obtain tx' where c: "construct_tx env sources ?sp ex utime = Some tx'" and send: "send_transaction env tx' sel (found - needed) dsts w = (Inr tx, w')"
    using ch by (auto split: option.splits)
  have "tx' = tx \<and> (\<exists>limit. w' = mark_spent sel (add_sent_unconfirmed_tx env tx (found - needed) (recipients dsts) (w\<lparr>m_upper_transaction_size_limit := limit\<rparr>)))"
    using send by (auto simp: send_transaction_def update_current_tx_limit_def w_next_def split: if_splits option.splits)
  then show ?thesis using n s le m ch sp d c by blast
qed

section \<open>Balance and failures\<close>

definition unspent_sum :: "transfer_details list \<Rightarrow> u64" where
  "unspent_sum tds = sum_list (map (\<lambda>td. if td_spent td then 0 else td_amount td) tds)"

definition change_sum :: "(hash \<times> unconfirmed_transfer_details) list \<Rightarrow> u64" where
  "change_sum us = sum_list (map (\<lambda>u. ut_change (snd u)) us)"

lemma foldl_plus_sum: "foldl (\<lambda>acc x. acc + f x) a xs = a + sum_list (map f xs)" for a :: u64
  by (induction xs arbitrary: a) (simp_all add: add.assoc)

lemma balance_sum: "balance w = unspent_sum (m_transfers w) + change_sum (m_unconfirmed_txs w)"
proof -
  have "foldl (\<lambda>amount td. if \<not> td_spent td then amount + td_amount td else amount) a tds = a + unspent_sum tds" for a tds
    by (induction tds arbitrary: a) (simp_all add: unspent_sum_def add.assoc)
  then show ?thesis by (simp add: balance_def foldl_plus_sum change_sum_def)
qed

lemma unspent_sum_mark:
  "i < length tds \<Longrightarrow> \<not> td_spent (tds ! i) \<Longrightarrow> unspent_sum (tds[i := (tds ! i)\<lparr>td_spent := True\<rparr>]) = unspent_sum tds - td_amount (tds ! i)"
  by (induction tds arbitrary: i) (auto simp: unspent_sum_def nth_Cons split: nat.splits)

lemma mark_spent_fields [simp]:
  "m_unconfirmed_txs (mark_spent sel w) = m_unconfirmed_txs w" "m_blockchain (mark_spent sel w) = m_blockchain w"
  "m_key_images (mark_spent sel w) = m_key_images w" "length (m_transfers (mark_spent sel w)) = length (m_transfers w)"
  by (induction sel arbitrary: w) (simp_all add: mark_spent_def)

lemma mark_spent_sum:
  "distinct sel \<Longrightarrow> \<forall>i \<in> set sel. i < length (m_transfers w) \<and> \<not> td_spent (m_transfers w ! i)
    \<Longrightarrow> unspent_sum (m_transfers (mark_spent sel w)) = unspent_sum (m_transfers w) - sum_list (map (\<lambda>i. td_amount (m_transfers w ! i)) sel)"
proof (induction sel arbitrary: w)
  case (Cons i sel)
  let ?w = "w\<lparr>m_transfers := (m_transfers w)[i := (m_transfers w ! i)\<lparr>td_spent := True\<rparr>]\<rparr>"
  have same: "map (\<lambda>j. td_amount (m_transfers ?w ! j)) sel = map (\<lambda>j. td_amount (m_transfers w ! j)) sel"
    using Cons.prems by (intro map_cong) (auto simp: nth_list_update)
  have step: "unspent_sum (m_transfers (mark_spent sel ?w)) = unspent_sum (m_transfers ?w) - sum_list (map (\<lambda>i. td_amount (m_transfers ?w ! i)) sel)"
    using Cons.prems by (intro Cons.IH) (auto simp: nth_list_update)
  have "mark_spent (i # sel) w = mark_spent sel ?w" by (simp add: mark_spent_def)
  then show ?case unfolding step same using Cons.prems unspent_sum_mark [of i "m_transfers w"]
    by (simp add: step [unfolded same] diff_diff_add)
qed (simp add: mark_spent_def)

lemma mark_spent_nth:
  "distinct sel \<Longrightarrow> \<forall>i \<in> set sel. i < length (m_transfers w) \<Longrightarrow> j < length (m_transfers w)
    \<Longrightarrow> m_transfers (mark_spent sel w) ! j = (if j \<in> set sel then (m_transfers w ! j)\<lparr>td_spent := True\<rparr> else m_transfers w ! j)"
proof (induction sel arbitrary: w)
  case (Cons i sel)
  let ?w = "w\<lparr>m_transfers := (m_transfers w)[i := (m_transfers w ! i)\<lparr>td_spent := True\<rparr>]\<rparr>"
  have "mark_spent (i # sel) w = mark_spent sel ?w" by (simp add: mark_spent_def)
  then show ?case using Cons.IH [of ?w] Cons.prems by (auto simp: nth_list_update)
qed (simp add: mark_spent_def)

lemma change_sum_update: "h \<notin> fst ` set us \<Longrightarrow> change_sum (AList.update h u us) = change_sum us + ut_change u"
  by (induction us) (auto simp: change_sum_def)

lemma word_sum_list: "unat x = sum_list (map (unat \<circ> f) xs) \<Longrightarrow> x = sum_list (map f xs)" for x :: u64
proof -
  have "word_of_nat (sum_list (map (unat \<circ> f) xs)) = sum_list (map f xs)" by (induction xs) simp_all
  moreover have "word_of_nat (unat x) = x" by simp
  ultimately show "unat x = sum_list (map (unat \<circ> f) xs) \<Longrightarrow> x = sum_list (map f xs)" by metis
qed

lemma failed_transfer:
  assumes "transfer env dsts fake utime fee_amount ex split_strategy policy w = (Inl e, w')"
  shows "\<exists>limit. w' = w\<lparr>m_upper_transaction_size_limit := limit\<rparr>"
proof -
  have id: "\<exists>limit. w = w\<lparr>m_upper_transaction_size_limit := limit\<rparr>" by (rule exI [of _ "m_upper_transaction_size_limit w"]) simp
  have "\<exists>limit. w' = w\<lparr>m_upper_transaction_size_limit := limit\<rparr>" if "send_transaction env tx sel c dsts w = (Inl e, w')" for tx sel c
    using that id by (auto simp: send_transaction_def update_current_tx_limit_def w_next_def split: if_splits option.splits)
  then show ?thesis using assms id by (auto simp: transfer_def Let_def split: if_splits sum.splits option.splits prod.splits)
qed

section \<open>The real output among the others\<close>

lemma fake_outputs_props:
  "sorted (map fst (fake_outputs fake g outs))" "g \<notin> fst ` set (fake_outputs fake g outs)" "set (fake_outputs fake g outs) \<subseteq> set outs"
proof -
  have "sorted (map fst (filter (\<lambda>oe. fst oe \<noteq> g) (sort_key fst outs)))" by (rule sorted_filter) simp
  then show "sorted (map fst (fake_outputs fake g outs))" by (simp add: fake_outputs_def sorted_wrt_take take_map [symmetric])
  show "g \<notin> fst ` set (fake_outputs fake g outs)" "set (fake_outputs fake g outs) \<subseteq> set outs"
    by (auto simp: fake_outputs_def dest: in_set_takeD)
qed

lemma filter_key_once: "distinct (map fst xs) \<Longrightarrow> length (filter (\<lambda>x. fst x = k) xs) \<le> 1"
  by (induction xs) (auto simp: filter_empty_conv image_iff)

lemma fake_outputs_length:
  assumes "distinct (map fst outs)" and "unat fake \<le> length outs"
  shows "unat fake \<le> length (fake_outputs fake g outs) + 1" and "length (fake_outputs fake g outs) \<le> max 1 (unat fake)"
proof -
  have "length (filter (\<lambda>oe. fst oe = g) outs) \<le> 1" using assms(1) by (rule filter_key_once)
  moreover have "length (filter (\<lambda>oe. fst oe \<noteq> g) (sort_key fst outs)) = length (filter (\<lambda>oe. fst oe \<noteq> g) outs)"
    by (rule mset_eq_length) simp
  moreover have "length (filter (\<lambda>oe. fst oe = g) outs) + length (filter (\<lambda>oe. fst oe \<noteq> g) outs) = length outs"
    using sum_length_filter_compl [of "\<lambda>oe. fst oe = g" outs] by simp
  ultimately show "unat fake \<le> length (fake_outputs fake g outs) + 1" using assms(2) by (simp add: fake_outputs_def)
  show "length (fake_outputs fake g outs) \<le> max 1 (unat fake)" by (simp add: fake_outputs_def)
qed

lemma sorted_middle: "sorted (xs @ ys) \<Longrightarrow> \<forall>x \<in> set xs. x \<le> g \<Longrightarrow> \<forall>y \<in> set ys. g \<le> y \<Longrightarrow> sorted (xs @ g # ys)"
  by (auto simp: sorted_append)

lemma nth_middle_other:
  assumes "i < length (xs @ y # zs)" and "i \<noteq> length xs"
  shows "(xs @ y # zs) ! i \<in> set (xs @ zs)"
proof (cases "i < length xs")
  case False
  then obtain j where "i = length xs + Suc j" using assms(2) by (metis add_Suc_right less_imp_Suc_add linorder_neqE_nat)
  then show ?thesis using assms(1) by (simp add: nth_append)
qed (simp add: nth_append)

lemma sorted_insert_middle:
  assumes "sorted (map fst xs)"
  shows "sorted (map fst (takeWhile (\<lambda>x. \<not> fst x \<ge> g) xs @ (g, k) # drop (length (takeWhile (\<lambda>x. \<not> fst x \<ge> g) xs)) xs))"
proof -
  let ?before = "takeWhile (\<lambda>x. \<not> fst x \<ge> g) xs" and ?after = "dropWhile (\<lambda>x. \<not> fst x \<ge> g) xs"
  have split: "sorted (map fst ?before @ map fst ?after)" using assms by (simp flip: map_append)
  have "\<forall>x \<in> set ?before. fst x \<le> g" using set_takeWhileD by fastforce
  moreover have "\<forall>x \<in> set ?after. g \<le> fst x"
  proof (cases ?after)
    case (Cons a as)
    have "g \<le> fst a" using Cons hd_dropWhile [of "\<lambda>x. \<not> fst x \<ge> g" xs] by force
    moreover have "\<forall>x \<in> set as. fst a \<le> fst x" using split Cons by (auto simp: sorted_append)
    ultimately show ?thesis using Cons by force
  qed (simp only: list.set ball_empty)
  ultimately have "sorted (map fst ?before @ g # map fst ?after)" using split by (intro sorted_middle) (simp_all only: list.set_map ball_simps)
  then have "sorted (map fst (?before @ (g, k) # ?after))" by simp
  then show ?thesis by (simp add: dropWhile_eq_drop)
qed

section \<open>A wallet that pays\<close>

definition paying_tx :: transaction where
  "paying_tx = \<lparr>version = 1, unlock_time = 0, vin = [],
     vout = [\<lparr>o_amount = 1000, o_target = TxoutToKey \<lparr>tk_key = replicate 32 9, tk_mix_attr = 0\<rparr>\<rparr>], extra = [], signatures = []\<rparr>"

definition paying_transfer :: transfer_details where
  "paying_transfer = \<lparr>td_block_height = 0, td_tx = paying_tx, td_internal_output_index = 0, td_global_output_index = 3, td_spent = False,
     td_key_image = replicate 32 4\<rparr>"

definition paying_wallet :: wallet2 where
  "paying_wallet = \<lparr>m_blockchain = replicate 11 (replicate 32 0), m_local_bc_height = 11, m_unconfirmed_txs = [], m_transfers = [paying_transfer],
     m_payments = [], m_key_images = [replicate 32 4 \<mapsto> 0], m_upper_transaction_size_limit = 0, m_transfer_history = [],
     m_unconfirmed_in_transfers = Map.empty\<rparr>"

definition paying_address :: account_public_address where
  "paying_address = \<lparr>m_spend_public_key = replicate 32 1, m_view_public_key = replicate 32 2\<rparr>"

definition paying_env :: wallet_env where
  "paying_env = \<lparr>we_now = 0, we_createtime = 0, we_address = paying_address, we_donation_account = None, is_out_to_acc = (\<lambda>_ _ _. False),
     generate_key_image_helper = (\<lambda>_ _. ([], [])), construct_tx = (\<lambda>_ _ _ _. Some paying_tx), get_o_indexes = (\<lambda>_. None),
     get_random_outs = (\<lambda>_ _. Some [[(2, replicate 32 8), (3, replicate 32 9), (7, replicate 32 6)]]), get_blocks_median = Some 1000000,
     check_connection = True, send_raw_tx = (\<lambda>_. None), get_alias_for_address = (\<lambda>_. [])\<rparr>"

definition paying_dsts :: "tx_destination_entry list" where
  "paying_dsts = [\<lparr>de_amount = 700, de_addr = paying_address\<rparr>]"

definition paying_policy :: tx_dust_policy where
  "paying_policy = \<lparr>dust_threshold = 10, add_to_fee = True, addr_for_dust = paying_address\<rparr>"

lemmas paying_defs = paying_tx_def paying_transfer_def paying_wallet_def paying_env_def paying_dsts_def paying_policy_def

lemma paying_facts:
  "m_transfers paying_wallet = [paying_transfer]" "td_spent paying_transfer = False" "td_amount paying_transfer = 1000"
  "o_target (vout paying_tx ! 0) = TxoutToKey \<lparr>tk_key = replicate 32 9, tk_mix_attr = 0\<rparr>"
  "is_mixattr_applicable_for_fake_outs_counter 0 0" "td_tx paying_transfer = paying_tx" "we_donation_account paying_env = None"
  "td_internal_output_index paying_transfer = 0" "td_global_output_index paying_transfer = 3"
  by (simp_all add: paying_transfer_def paying_wallet_def paying_tx_def paying_env_def td_amount_def is_mixattr_applicable_for_fake_outs_counter_def)

lemma paying_unlocked: "is_transfer_unlocked paying_env paying_transfer paying_wallet"
  by (simp add: paying_transfer_def paying_tx_def paying_wallet_def is_transfer_unlocked_def wallet_spendtime_unlocked_def CURRENCY_MAX_BLOCK_NUMBER_def
      CURRENCY_LOCKED_TX_ALLOWED_DELTA_BLOCKS_def DEFAULT_TX_SPENDABLE_AGE_def)

lemma paying_money: "usable_money paying_env 0 paying_wallet = 1000"
  using paying_unlocked by (simp add: usable_money_def usable_def paying_facts)

lemma paying_select: "select_transfers paying_env 800 0 paying_wallet = Some (1000, [0])"
  using paying_unlocked
  by (simp add: select_transfers_def select_indices_for_transfer_def select_loop.simps paying_facts)

lemma paying_source: "\<exists>src. make_source paying_env fake paying_transfer os = Inr src"
proof -
  have "get_tx_pub_key_from_extra None paying_tx \<noteq> None"
    by (simp add: get_tx_pub_key_from_extra_def parse_tx_pub_key_def parse_and_validate_tx_extra_def extra_loop.simps null_extra_def
        check_make_alias_tx_def null_alias_def paying_tx_def)
  then show ?thesis by (auto simp: make_source_def Let_def paying_facts)
qed

lemma paying_sends:
  "\<exists>w'. send_transaction paying_env paying_tx sel change dsts paying_wallet = (Inr paying_tx, w')"
proof -
  have "\<not> get_max_transaction_blob_size 11 \<le> get_object_blobsize paying_tx" "\<not> 1000000 < get_block_granted_full_reward_zone 11" by code_simp+
  then show ?thesis
    by (simp add: send_transaction_def update_current_tx_limit_def w_next_def paying_env_def paying_wallet_def check_inputs_types_supported_def)
      (simp add: paying_tx_def)
qed

lemma paying_transfer_sent:
  "\<exists>w'. transfer paying_env paying_dsts 0 0 100 [] digit_split_strategy paying_policy paying_wallet = (Inr paying_tx, w')"
proof -
  obtain src where src: "make_source paying_env 0 paying_transfer None = Inr src" using paying_source by blast
  have split: "\<not> dust_threshold paying_policy < snd (digit_split_strategy dsts c (dust_threshold paying_policy))" for dsts c
    using digit_split_total(2) [of dsts c "dust_threshold paying_policy"] by (metis not_less prod.collapse)
  have c: "construct_tx paying_env ss ds x u = Some paying_tx" for ss ds x u by (simp add: paying_env_def)
  have n: "needed_money_loop paying_dsts 100 = Inr 800" "paying_dsts \<noteq> []" by (simp_all add: paying_dsts_def)
  show ?thesis
    using split paying_sends by (simp add: transfer_def n paying_select request_outs_def paying_facts src c Let_def case_prod_beta)
qed

section \<open>Properties\<close>

text \<open>C19: In a wallet with less than 2^64 of usable money the selected outputs are different, usable ones
  whose sum is the reported amount, and that amount covers the need exactly when all usable outputs
  together do, so that a transfer is refused for lack of money only if the wallet cannot pay it.\<close>

theorem selection_covers_need:
  assumes "select_transfers env needed fake w = Some (found, sel)" and "usable_money env fake w < 2 ^ 64"
  shows "distinct sel \<and> (\<forall>i \<in> set sel. i < length (m_transfers w) \<and> usable env fake w (m_transfers w ! i))
    \<and> unat found = sum_list (map (\<lambda>i. unat (td_amount (m_transfers w ! i))) sel)
    \<and> (needed \<le> found \<longleftrightarrow> unat needed \<le> usable_money env fake w)"
  using assms by (rule selection_covers)

theorem selection_covers_need_witness:
  "select_transfers paying_env 800 0 paying_wallet = Some (1000, [0]) \<and> usable_money paying_env 0 paying_wallet < 2 ^ 64
    \<and> (800 \<le> (1000 :: u64) \<longleftrightarrow> unat (800 :: u64) \<le> usable_money paying_env 0 paying_wallet)"
  using selection_covers_need [OF paying_select] paying_select by (simp add: paying_money)

text \<open>C18: The transaction that a successful transfer with \<open>digit_split_strategy\<close> constructs, from
  a wallet with less than 2^64 of usable money, conserves money: the amounts of its sources are those of
  its destinations plus the fee, and plus the dust when that goes to the fee, with no overflow, and the
  dust is at most the threshold.\<close>

theorem transfer_conserves_money:
  assumes "transfer env dsts fake utime fee_amount ex digit_split_strategy policy w = (Inr tx, w')" and "usable_money env fake w < 2 ^ 64"
  shows "\<exists>sources splitted dust. construct_tx env sources splitted ex utime = Some tx \<and> dust \<le> dust_threshold policy
    \<and> sources_total sources = dsts_total splitted + unat fee_amount + (if add_to_fee policy then unat dust else 0)"
proof -
  obtain needed found sel outs sources change splitted dust where
    n: "needed_money_loop dsts fee_amount = Inr needed" and s: "select_transfers env needed fake w = Some (found, sel)" and le: "needed \<le> found"
    and m: "make_sources env fake (map (\<lambda>i. m_transfers w ! i) sel) outs = Inr sources" and ch: "de_amount change = found - needed"
    and sp: "digit_split_strategy dsts change (dust_threshold policy) = (splitted, dust)" and d: "dust \<le> dust_threshold policy"
    and c: "construct_tx env sources (if dust \<noteq> 0 \<and> \<not> add_to_fee policy then splitted @ [\<lparr>de_amount = dust, de_addr = addr_for_dust policy\<rparr>] else splitted) ex utime = Some tx"
    using transferD [OF assms(1)] by blast
  have "unat found = sum_list (map unat (map td_amount (map (\<lambda>i. m_transfers w ! i) sel)))"
    using selection_covers [OF s assms(2)] by (simp add: comp_def)
  then have "unat found = sources_total sources" unfolding make_sources_amounts [OF m, symmetric] by (simp add: sources_total_def)
  moreover have "unat (found - needed) = unat found - unat needed" using le by (rule unat_sub_no_wrap)
  moreover have "unat needed \<le> unat found" using le by (simp add: word_le_nat_alt)
  ultimately have "sources_total sources = dsts_total splitted + unat dust + unat fee_amount"
    using digit_split_total(1) [OF sp] needed_money_exact [OF n] ch by simp
  then show ?thesis using c d by (intro exI [of _ sources] exI exI [of _ dust] conjI) (assumption, auto)
qed

theorem transfer_conserves_money_witness:
  "\<exists>sources splitted dust. construct_tx paying_env sources splitted [] 0 = Some paying_tx \<and> dust \<le> dust_threshold paying_policy
    \<and> sources_total sources = dsts_total splitted + unat (100 :: u64) + (if add_to_fee paying_policy then unat dust else 0)"
proof -
  obtain w' where "transfer paying_env paying_dsts 0 0 100 [] digit_split_strategy paying_policy paying_wallet = (Inr paying_tx, w')"
    using paying_transfer_sent by blast
  then show ?thesis by (rule transfer_conserves_money) (simp add: paying_money)
qed

theorem transfer_updates_balance:
  assumes "transfer env dsts fake utime fee_amount ex split_strategy policy w = (Inr tx, w')" and "usable_money env fake w < 2 ^ 64"
    and "get_transaction_hash tx \<notin> fst ` set (m_unconfirmed_txs w)"
  shows "\<exists>needed. unat needed = dsts_total dsts + unat fee_amount \<and> balance w' = balance w - needed"
proof -
  obtain needed found sel limit where
    n: "needed_money_loop dsts fee_amount = Inr needed" and s: "select_transfers env needed fake w = Some (found, sel)"
    and w': "w' = mark_spent sel (add_sent_unconfirmed_tx env tx (found - needed) (recipients dsts) (w\<lparr>m_upper_transaction_size_limit := limit\<rparr>))"
    using transferD [OF assms(1)] by blast
  note sel = selection_covers [OF s assms(2)]
  have found: "found = sum_list (map (\<lambda>i. td_amount (m_transfers w ! i)) sel)" using sel by (intro word_sum_list) (simp add: comp_def)
  have "unspent_sum (m_transfers w') = unspent_sum (m_transfers w) - found"
    unfolding w' found using sel by (subst mark_spent_sum) (auto simp: add_sent_unconfirmed_tx_def usable_def)
  moreover have "change_sum (m_unconfirmed_txs w') = change_sum (m_unconfirmed_txs w) + (found - needed)"
    using assms(3) by (simp add: w' add_sent_unconfirmed_tx_def change_sum_update)
  ultimately show ?thesis using needed_money_exact [OF n] by (intro exI [of _ needed]) (simp add: balance_sum)
qed

theorem transfer_updates_balance_witness:
  "\<exists>w' needed. transfer paying_env paying_dsts 0 0 100 [] digit_split_strategy paying_policy paying_wallet = (Inr paying_tx, w')
    \<and> unat needed = dsts_total paying_dsts + unat (100 :: u64) \<and> balance w' = balance paying_wallet - needed"
proof -
  obtain w' where "transfer paying_env paying_dsts 0 0 100 [] digit_split_strategy paying_policy paying_wallet = (Inr paying_tx, w')"
    using paying_transfer_sent by blast
  moreover from this have "\<exists>needed. unat needed = dsts_total paying_dsts + unat (100 :: u64) \<and> balance w' = balance paying_wallet - needed"
    by (rule transfer_updates_balance) (simp add: paying_money, simp add: paying_wallet_def)
  ultimately show ?thesis by blast
qed

theorem failed_transfer_keeps_wallet:
  assumes "transfer env dsts fake utime fee_amount ex split_strategy policy w = (Inl e, w')"
  shows "\<exists>limit. w' = w\<lparr>m_upper_transaction_size_limit := limit\<rparr>"
  using assms by (rule failed_transfer)

theorem failed_transfer_keeps_wallet_witness:
  "\<exists>w' limit. transfer paying_env paying_dsts 0 0 5000 [] digit_split_strategy paying_policy paying_wallet = (Inl not_enough_money, w')
    \<and> w' = paying_wallet\<lparr>m_upper_transaction_size_limit := limit\<rparr>"
proof -
  have "select_transfers paying_env 5700 0 paying_wallet = Some (1000, [0])"
    using paying_unlocked by (simp add: select_transfers_def select_indices_for_transfer_def select_loop.simps paying_facts pop_last_def)
  then have "transfer paying_env paying_dsts 0 0 5000 [] digit_split_strategy paying_policy paying_wallet = (Inl not_enough_money, paying_wallet)"
    by (simp add: transfer_def paying_dsts_def)
  with failed_transfer_keeps_wallet [OF this] show ?thesis by blast
qed

text \<open>C20: The real output is at the position the source entry names, the outputs are in the order of their
  indices, and the others are outputs of the daemon different from the real one; when the daemon answered
  with at least as many outputs as were asked for to mix with, of different indices, the source has at
  least that many outputs in all, the real one included.\<close>

theorem real_output_in_place:
  assumes "make_source env fake td daemon_outs = Inr src"
  shows "se_real_output src < length (se_outputs src)
    \<and> (case o_target (vout (td_tx td) ! td_internal_output_index td) of
         TxoutToKey k \<Rightarrow> se_outputs src ! se_real_output src = (td_global_output_index td, tk_key k) | _ \<Rightarrow> False)
    \<and> sorted (map fst (se_outputs src))
    \<and> (\<forall>i < length (se_outputs src). i \<noteq> se_real_output src \<longrightarrow>
         fst (se_outputs src ! i) \<noteq> td_global_output_index td \<and> (\<exists>outs. daemon_outs = Some outs \<and> se_outputs src ! i \<in> set outs))
    \<and> (\<forall>outs. daemon_outs = Some outs \<and> distinct (map fst outs) \<and> unat fake \<le> length outs \<longrightarrow> unat fake \<le> length (se_outputs src))"
proof -
  define g where "g = td_global_output_index td"
  define outputs where "outputs = (case daemon_outs of None \<Rightarrow> [] | Some outs \<Rightarrow> fake_outputs fake g outs)"
  define before where "before = takeWhile (\<lambda>oe. \<not> fst oe \<ge> g) outputs"
  have "make_source env fake td daemon_outs = (case o_target (vout (td_tx td) ! td_internal_output_index td) of
      TxoutToKey k \<Rightarrow>
        (case get_tx_pub_key_from_extra (we_donation_account env) (td_tx td) of
           None \<Rightarrow> Inl undefined_access
         | Some key \<Rightarrow> Inr \<lparr>se_outputs = before @ (g, tk_key k) # drop (length before) outputs, se_real_output = length before,
             se_real_out_tx_key = key, se_real_output_in_tx_index = td_internal_output_index td, se_amount = td_amount td\<rparr>)
    | _ \<Rightarrow> Inl bad_get)"
    unfolding make_source_def Let_def g_def outputs_def before_def by (rule refl)
  then obtain k where k: "o_target (vout (td_tx td) ! td_internal_output_index td) = TxoutToKey k"
    and outs: "se_outputs src = before @ (g, tk_key k) # drop (length before) outputs" and real: "se_real_output src = length before"
    using assms by (auto split: txout_target_v.splits option.splits)
  have whole: "before @ drop (length before) outputs = outputs"
    unfolding before_def by (metis dropWhile_eq_drop takeWhile_dropWhile_id)
  have "sorted (map fst outputs)" by (simp add: outputs_def fake_outputs_props split: option.splits)
  then have "sorted (map fst (se_outputs src))" unfolding outs before_def by (rule sorted_insert_middle)
  moreover have "fst (se_outputs src ! i) \<noteq> g \<and> (\<exists>outs. daemon_outs = Some outs \<and> se_outputs src ! i \<in> set outs)"
    if "i < length (se_outputs src)" "i \<noteq> length before" for i
  proof -
    have "se_outputs src ! i \<in> set (before @ drop (length before) outputs)" using that unfolding outs by (rule nth_middle_other)
    then have mem: "se_outputs src ! i \<in> set outputs" unfolding whole .
    then obtain os where os: "daemon_outs = Some os" by (cases daemon_outs) (simp_all add: outputs_def)
    have mem: "se_outputs src ! i \<in> set (fake_outputs fake g os)" using mem os by (simp only: outputs_def option.case)
    have "fst (se_outputs src ! i) \<noteq> g" using mem fake_outputs_props(2) [of g fake os] by (metis image_eqI)
    moreover have "se_outputs src ! i \<in> set os" using mem fake_outputs_props(3) by (rule rev_subsetD)
    ultimately show ?thesis using os by simp
  qed
  moreover have "length (se_outputs src) = length outputs + 1" using whole unfolding outs by (metis length_append length_Cons add_Suc_right Suc_eq_plus1)
  moreover have "unat fake \<le> length outputs + 1" if "daemon_outs = Some os" "distinct (map fst os)" "unat fake \<le> length os" for os
    using fake_outputs_length(1) that by (simp add: outputs_def)
  moreover have "se_outputs src ! length before = (g, tk_key k)" by (simp add: outs)
  moreover have "length before < length (se_outputs src)" by (simp add: outs)
  ultimately show ?thesis unfolding k real g_def [symmetric] by auto
qed

theorem real_output_in_place_witness:
  "\<exists>src. make_source paying_env 2 paying_transfer (Some [(2, replicate 32 8), (3, replicate 32 9), (7, replicate 32 6)]) = Inr src
    \<and> se_outputs src ! se_real_output src = (3, replicate 32 9) \<and> sorted (map fst (se_outputs src))"
proof -
  obtain src where src: "make_source paying_env 2 paying_transfer (Some [(2, replicate 32 8), (3, replicate 32 9), (7, replicate 32 6)]) = Inr src"
    using paying_source by blast
  with real_output_in_place [OF src] show ?thesis by (simp add: paying_facts)
qed

end
