(* ===== verification/WalletReach.thy ===== *)
theory WalletReach
  imports WalletSync WalletSend Transitions
begin

text \<open>
  The wallet over its lifetime: the states that are reached by processed blocks, detached blocks, sent and deleted
  transactions and looks at the pool, in any order and with any answers of the daemon. In each of them the index from key
  images is exact, the outputs are in the order of their blocks and the heights are those of known blocks; detaching
  never fails there and removes the outputs of the detached blocks, no others.
\<close>

section \<open>The invariant\<close>

definition wallet_inv :: "wallet2 \<Rightarrow> bool" where
  "wallet_inv w \<longleftrightarrow> index_ok w \<and> sorted (map td_block_height (m_transfers w))
    \<and> (\<forall>td \<in> set (m_transfers w). unat (td_block_height td) < length (m_blockchain w))
    \<and> m_local_bc_height w = word_of_nat (length (m_blockchain w))"

text \<open>What the other operations leave alone: the outputs without their marks, the index and the chain.\<close>

definition same_outputs :: "wallet2 \<Rightarrow> wallet2 \<Rightarrow> bool" where
  "same_outputs w w' \<longleftrightarrow> unmark (m_transfers w') = unmark (m_transfers w) \<and> m_key_images w' = m_key_images w
    \<and> m_blockchain w' = m_blockchain w \<and> m_local_bc_height w' = m_local_bc_height w"

lemma same_outputs_refl [simp]: "same_outputs w w"
  by (simp add: same_outputs_def)

lemma same_outputs_trans: "same_outputs w v \<Longrightarrow> same_outputs v u \<Longrightarrow> same_outputs w u"
  by (simp add: same_outputs_def)

lemma unmark_field: "unmark xs = unmark ys \<Longrightarrow> map td_key_image xs = map td_key_image ys \<and> map td_block_height xs = map td_block_height ys"
proof -
  have f: "map td_key_image (unmark zs) = map td_key_image zs" "map td_block_height (unmark zs) = map td_block_height zs" for zs by (simp_all add: unmark_def)
  assume "unmark xs = unmark ys"
  then show ?thesis by (metis f)
qed

lemma same_outputs_inv:
  assumes "same_outputs w w'" and "wallet_inv w"
  shows "wallet_inv w'"
proof -
  have f: "map td_key_image (m_transfers w') = map td_key_image (m_transfers w)" "map td_block_height (m_transfers w') = map td_block_height (m_transfers w)"
    using unmark_field [of "m_transfers w'" "m_transfers w"] assms(1) by (simp_all add: same_outputs_def)
  have l: "length (m_transfers w') = length (m_transfers w)" using f(1) by (metis length_map)
  have "td_key_image (m_transfers w' ! t) = td_key_image (m_transfers w ! t)" if "t < length (m_transfers w)" for t
    using arg_cong [OF f(1), of "\<lambda>kis. kis ! t"] that l by simp
  then have "t < length (m_transfers w') \<and> td_key_image (m_transfers w' ! t) = ki \<longleftrightarrow> t < length (m_transfers w) \<and> td_key_image (m_transfers w ! t) = ki" for t ki
    using l by auto
  moreover have "td_block_height ` set (m_transfers w') = td_block_height ` set (m_transfers w)" using f(2) by (metis set_map)
  then have "(\<forall>td \<in> set (m_transfers w'). unat (td_block_height td) < n) \<longleftrightarrow> (\<forall>td \<in> set (m_transfers w). unat (td_block_height td) < n)" for n
    by (metis (no_types, lifting) image_iff)
  ultimately show ?thesis using assms f(2) by (auto simp: wallet_inv_def index_ok_def same_outputs_def)
qed

lemma recharge_same: "same_outputs w (snd (recharge_transfers tx w))"
proof -
  have "same_outputs w (snd (recharge_loop ins w))" for ins
    by (induction ins w rule: recharge_loop.induct) (auto simp: same_outputs_def split: option.splits)
  then show ?thesis by (simp add: recharge_transfers_def)
qed

lemma w_next_same:
  assumes "same_outputs w (snd m)" and "\<And>a v. same_outputs v (snd (f a v))"
  shows "same_outputs w (snd (w_next m f))"
  using assms by (cases m) (auto simp: w_next_def split: sum.splits intro: same_outputs_trans)

lemma delete_all_same: "same_outputs w (snd (delete_all_loop us w))"
proof (induction us w rule: delete_all_loop.induct)
  case (2 h u us w)
  then show ?case by (auto simp: recharge_same intro!: w_next_same) (auto simp: same_outputs_def)
qed simp

lemma delete_unconfirmed_same: "same_outputs w (snd (delete_unconfirmed_tx txid w))"
proof -
  have "same_outputs v (v\<lparr>m_unconfirmed_txs := us\<rparr>)" for v us by (simp add: same_outputs_def)
  then show ?thesis by (auto simp: delete_unconfirmed_tx_def Let_def delete_all_same recharge_same split: option.splits intro!: w_next_same)
qed

lemma pool_loop_same: "same_outputs w (snd (pool_loop env old txs w))"
proof (induction txs arbitrary: w)
  case (Cons blob txs)
  have u: "same_outputs v (v\<lparr>m_unconfirmed_in_transfers := us\<rparr>)" for v us by (simp add: same_outputs_def)
  then have IH: "same_outputs w (snd (pool_loop env old txs (w\<lparr>m_unconfirmed_in_transfers := us\<rparr>)))" for us
    using Cons.IH same_outputs_trans by blast
  show ?case
  proof (cases "parse_and_validate_tx_from_blob blob")
    case (Some tx)
    show ?thesis
    proof (cases "old (get_transaction_hash tx)")
      case None
      show ?thesis unfolding pool_loop.simps Some option.case Let_def None
        by (auto simp: IH Cons.IH u split: option.splits)
    qed (simp add: Some IH Let_def)
  qed simp
qed simp

lemma scan_pool_same: "same_outputs w (snd (scan_tx_pool env res w))"
proof -
  have "same_outputs w (w\<lparr>m_unconfirmed_in_transfers := Map.empty\<rparr>)" by (simp add: same_outputs_def)
  then show ?thesis by (auto simp: scan_tx_pool_def intro: same_outputs_trans pool_loop_same split: option.splits)
qed

lemma mark_spent_same: "same_outputs w (mark_spent sel w)"
proof (induction sel arbitrary: w)
  case (Cons i sel)
  let ?w = "w\<lparr>m_transfers := (m_transfers w)[i := (m_transfers w ! i)\<lparr>td_spent := True\<rparr>]\<rparr>"
  have "mark_spent (i # sel) w = mark_spent sel ?w" by (simp add: mark_spent_def)
  moreover have "same_outputs w ?w" by (simp add: same_outputs_def)
  ultimately show ?case using Cons.IH [of ?w] same_outputs_trans by metis
qed (simp add: mark_spent_def)

lemma transfer_same: "same_outputs w (snd (transfer env dsts fake utime fee_amount ex split_strategy policy w))"
proof (cases "transfer env dsts fake utime fee_amount ex split_strategy policy w")
  case (Pair r w')
  have l: "same_outputs w (w\<lparr>m_upper_transaction_size_limit := limit\<rparr>)" for limit by (simp add: same_outputs_def)
  show ?thesis
  proof (cases r)
    case (Inl e)
    then show ?thesis using failed_transfer [of env dsts fake utime fee_amount ex split_strategy policy w e w'] Pair l by auto
  next
    case (Inr tx)
    then obtain sel c limit where w': "w' = mark_spent sel (add_sent_unconfirmed_tx env tx c (recipients dsts) (w\<lparr>m_upper_transaction_size_limit := limit\<rparr>))"
      using transferD [of env dsts fake utime fee_amount ex split_strategy policy w tx w'] Pair by blast
    have "same_outputs w (add_sent_unconfirmed_tx env tx c (recipients dsts) (w\<lparr>m_upper_transaction_size_limit := limit\<rparr>))"
      by (simp add: same_outputs_def add_sent_unconfirmed_tx_def)
    then show ?thesis unfolding Pair w' snd_conv using mark_spent_same by (rule same_outputs_trans)
  qed
qed

section \<open>Reachable wallets\<close>

definition new_wallet :: "hash \<Rightarrow> wallet2" where
  "new_wallet genesis_id = wallet_clear genesis_id \<lparr>m_blockchain = [], m_local_bc_height = 0, m_unconfirmed_txs = [], m_transfers = [],
     m_payments = [], m_key_images = Map.empty, m_upper_transaction_size_limit = 0, m_transfer_history = [], m_unconfirmed_in_transfers = Map.empty\<rparr>"

definition wallet_init :: "wallet2 \<Rightarrow> bool" where
  "wallet_init w \<longleftrightarrow> (\<exists>genesis_id. w = new_wallet genesis_id)"

inductive wallet_step :: "wallet2 \<Rightarrow> wallet2 \<Rightarrow> bool" where
  block: "fresh_images env height (block_txs env b bche) (m_transfers w)
    \<Longrightarrow> process_new_blockchain_entry env b bche bl_id height w = (Inr (), w') \<Longrightarrow> wallet_step w w'"
| detach: "unat height \<le> length (m_blockchain w) \<Longrightarrow> wallet_step w (snd (detach_blockchain height w))"
| send: "wallet_step w (snd (transfer env dsts fake utime fee_amount ex split_strategy policy w))"
| delete: "wallet_step w (snd (delete_unconfirmed_tx txid w))"
| scan: "wallet_step w (snd (scan_tx_pool env res w))"

abbreviation wallet_reach :: "wallet2 \<Rightarrow> bool" where
  "wallet_reach \<equiv> reach wallet_init wallet_step"

lemma block_inv:
  assumes "wallet_inv w" and "fresh_images env height (block_txs env b bche) (m_transfers w)"
    and "process_new_blockchain_entry env b bche bl_id height w = (Inr (), w')"
  shows "wallet_inv w'"
proof -
  have i: "index_ok w" and h: "\<forall>td \<in> set (m_transfers w). unat (td_block_height td) < length (m_blockchain w)"
    and s: "sorted (map td_block_height (m_transfers w))" and l: "m_local_bc_height w = word_of_nat (length (m_blockchain w))"
    using assms(1) by (simp_all add: wallet_inv_def)
  have w': "m_transfers w' = ledger_block env height (block_txs env b bche) (m_transfers w)" "index_ok w'" "unat height = length (m_blockchain w)"
    "m_blockchain w' = m_blockchain w @ [bl_id]" "m_local_bc_height w' = m_local_bc_height w + 1"
    using process_block_exact [OF assms(3) i assms(2)] by auto
  obtain new where t: "m_transfers w' = mark_images (concat (map spent_images (block_txs env b bche))) (m_transfers w) @ new"
    and n: "\<forall>td \<in> set new. td_block_height td = height"
    using ledger_block_append [of env height "block_txs env b bche" "m_transfers w"] w'(1) by auto
  let ?old = "mark_images (concat (map spent_images (block_txs env b bche))) (m_transfers w)"
  have old: "\<forall>td \<in> set ?old. unat (td_block_height td) < length (m_blockchain w)" using h by (auto simp: mark_images_def)
  have "sorted (map td_block_height new)" using n by (induction new) auto
  moreover have "\<forall>x \<in> set (m_transfers w). \<forall>y \<in> set new. td_block_height x \<le> td_block_height y"
    using h n w'(3) by (auto simp: word_le_nat_alt intro: less_imp_le)
  ultimately have "sorted (map td_block_height (m_transfers w'))" using s by (auto simp: t sorted_append)
  moreover have "\<forall>td \<in> set (m_transfers w'). unat (td_block_height td) < length (m_blockchain w')"
    using old n w'(3,4) by (auto simp: t)
  ultimately show ?thesis using w' l by (simp add: wallet_inv_def)
qed

lemma takeWhile_sorted: "sorted (map f xs) \<Longrightarrow> takeWhile (\<lambda>x. f x < h) xs = filter (\<lambda>x. f x < h) xs" for h :: u64
proof (induction xs)
  case (Cons x xs)
  show ?case
  proof (cases "f x < h")
    case False
    then have "\<forall>y \<in> set xs. \<not> f y < h" using Cons.prems by auto
    then show ?thesis using False by (simp add: filter_empty_conv)
  qed (use Cons in simp)
qed simp

lemma detach_inv:
  assumes "wallet_inv w" and "unat height \<le> length (m_blockchain w)"
  shows "\<exists>w'. detach_blockchain height w = (Inr (), w') \<and> wallet_inv w' \<and> m_blockchain w' = take (unat height) (m_blockchain w)
    \<and> m_transfers w' = filter (\<lambda>td. td_block_height td < height) (m_transfers w)"
proof -
  have s: "sorted (map td_block_height (m_transfers w))" and l: "m_local_bc_height w = word_of_nat (length (m_blockchain w))" and i: "index_ok w"
    using assms(1) by (simp_all add: wallet_inv_def)
  obtain w' where d: "detach_blockchain height w = (Inr (), w')" and i': "index_ok w'"
    and w': "m_transfers w' = takeWhile (\<lambda>td. td_block_height td < height) (m_transfers w)" "m_blockchain w' = take (unat height) (m_blockchain w)"
      "m_local_bc_height w' = m_local_bc_height w - word_of_nat (length (m_blockchain w) - unat height)"
    using detach_exact [OF i assms(2)] by blast
  have t: "m_transfers w' = filter (\<lambda>td. td_block_height td < height) (m_transfers w)" using w'(1) takeWhile_sorted [OF s] by simp
  have "sorted (map td_block_height (m_transfers w'))" unfolding t using s by (rule sorted_filter)
  moreover have "m_local_bc_height w' = word_of_nat (length (m_blockchain w'))"
    using assms(2) by (simp add: w' l of_nat_diff)
  moreover have "\<forall>td \<in> set (m_transfers w'). unat (td_block_height td) < length (m_blockchain w')"
    using assms(2) by (simp add: t w'(2) word_less_nat_alt)
  ultimately show ?thesis using d i' t w'(2) by (simp add: wallet_inv_def)
qed

interpretation wallet: invariant_system wallet_init wallet_step wallet_inv
proof
  show "wallet_inv w" if "wallet_init w" for w
    using that by (auto simp: wallet_init_def new_wallet_def wallet_clear_def wallet_inv_def index_ok_def)
  show "wallet_inv w'" if "wallet_inv w" "wallet_step w w'" for w w'
    using that(2,1)
  proof (induction rule: wallet_step.induct)
    case (block env height b bche w bl_id w')
    then show ?case using block_inv by blast
  next
    case (detach height w)
    then show ?case using detach_inv by fastforce
  qed (blast intro: same_outputs_inv transfer_same delete_unconfirmed_same scan_pool_same)+
qed

text \<open>A new wallet that has processed one block with a coinbase transaction to it.\<close>

lemma mined_reach:
  "\<exists>w. wallet_reach w \<and> length (m_blockchain w) = 2 \<and> map td_block_height (m_transfers w) = [1]"
proof -
  let ?g = "replicate 32 0 :: hash" and ?e = "\<lparr>bce_block = [], bce_txs = []\<rparr>"
  have w: "length (m_blockchain (new_wallet ?g)) = 1" "m_transfers (new_wallet ?g) = []" by (simp_all add: new_wallet_def wallet_clear_def)
  have new: "timestamp mined_block + 60 * 60 * 24 > we_createtime receiving_env" by (simp add: mined_block_def sample_block_def receiving_env_def)
  then have txs: "block_txs receiving_env mined_block ?e = [mined_tx]" by (simp add: block_txs_def mined_block_def)
  obtain w1 where "process_new_transaction receiving_env mined_tx 1 mined_block (new_wallet ?g) = (Inr (), w1)" using mined_processed by blast
  then obtain w' where p: "process_new_blockchain_entry receiving_env mined_block ?e ?g 1 (new_wallet ?g) = (Inr (), w')"
    using new w by (simp add: process_new_blockchain_entry_def w_next_def mined_block_def)
  have fresh: "fresh_images receiving_env 1 (block_txs receiving_env mined_block ?e) (m_transfers (new_wallet ?g))"
    by (simp add: fresh_images_def txs mined_received w)
  have init: "wallet_init (new_wallet ?g)" by (auto simp: wallet_init_def)
  then have "index_ok (new_wallet ?g)" using wallet.init_inv by (simp add: wallet_inv_def)
  then have "m_transfers w' = ledger_step receiving_env 1 [] mined_tx" using process_block_exact [OF p _ fresh] by (simp add: txs w ledger_block_def)
  moreover have "spent_images mined_tx = []" by (simp add: spent_images_def mined_tx_def)
  ultimately have "map td_block_height (m_transfers w') = [1]" by (simp add: ledger_step_def mined_received)
  moreover have "wallet_reach (new_wallet ?g)" using init by (rule reach_init)
  then have "wallet_reach w'" using wallet_step.block [OF fresh p] by (rule reach_step)
  moreover have "length (m_blockchain w') = 2" using process_block_chain [OF p] w by simp
  ultimately show ?thesis by (intro exI conjI)
qed

section \<open>Properties\<close>

text \<open>C14: In every wallet reached from a new one by processed blocks with new key images, detached blocks,
  sent and deleted transactions and looks at the pool, the index from key images to outputs is exact, the
  outputs are in the order of their blocks, and all of these blocks are in the chain of the wallet.\<close>

theorem wallet_invariant_reachable: "wallet_reach w \<Longrightarrow> wallet_inv w"
  by (rule wallet.reach_inv)

theorem wallet_invariant_reachable_witness:
  "\<exists>w. wallet_reach w \<and> map td_block_height (m_transfers w) = [1] \<and> wallet_inv w"
proof -
  obtain w where "wallet_reach w" "map td_block_height (m_transfers w) = [1]" using mined_reach by (elim exE conjE)
  moreover from this(1) have "wallet_inv w" by (rule wallet_invariant_reachable)
  ultimately show ?thesis by (intro exI conjI)
qed

theorem reachable_wallet_detaches:
  assumes "wallet_reach w" and "unat height \<le> length (m_blockchain w)"
  shows "\<exists>w'. detach_blockchain height w = (Inr (), w') \<and> wallet_inv w' \<and> m_blockchain w' = take (unat height) (m_blockchain w)
    \<and> m_transfers w' = filter (\<lambda>td. td_block_height td < height) (m_transfers w)"
  using detach_inv [OF wallet.reach_inv [OF assms(1)] assms(2)] .

theorem reachable_wallet_detaches_witness:
  "\<exists>w w'. wallet_reach w \<and> map td_block_height (m_transfers w) = [1]
    \<and> detach_blockchain 1 w = (Inr (), w') \<and> m_transfers w' = filter (\<lambda>td. td_block_height td < 1) (m_transfers w)"
proof -
  obtain w where w: "wallet_reach w" "length (m_blockchain w) = 2" "map td_block_height (m_transfers w) = [1]" using mined_reach by (elim exE conjE)
  have "unat (1 :: u64) \<le> length (m_blockchain w)" using w(2) by simp
  from reachable_wallet_detaches [OF w(1) this]
  obtain w' where "detach_blockchain 1 w = (Inr (), w')" "m_transfers w' = filter (\<lambda>td. td_block_height td < 1) (m_transfers w)" by (elim exE conjE)
  with w show ?thesis by (intro exI conjI)
qed

end
