(* ===== verification/WalletKeys.thy ===== *)
theory WalletKeys
  imports Wallet ChaCha8 Archive
begin

text \<open>
  The files of the wallet: \<open>store_keys\<close>, \<open>load_keys\<close>, \<open>changepassword\<close>, \<open>generate\<close> and \<open>load\<close> of \<open>src/wallet/wallet2.cpp\<close>. The
  files are a map from names to contents. The codecs of \<open>epee\<close> and \<open>boost\<close>, the keys, the random numbers and the failures of
  the file system are the record \<open>files_env\<close>. The keys file that was written is read back with the same password; changing the
  password keeps the keys in the file or in its backup, whichever operation on the files fails.
\<close>

section \<open>Definitions\<close>

record account_keys =
  m_account_address :: account_public_address
  m_spend_secret_key :: bytes
  m_view_secret_key :: bytes

record account_base =
  m_keys :: account_keys
  m_creation_timestamp :: u64

record keys_file_data =
  kf_iv :: bytes
  kf_account_data :: bytes

text \<open>
  \<open>fe_save\<close> is \<open>None\<close> when the file is written, and otherwise what is left of it; \<open>fe_rename\<close>, \<open>fe_read\<close> and \<open>fe_remove\<close> tell
  whether a file that exists can be renamed, read and removed, the last two in the given state of the files; \<open>fe_tmp\<close> are the
  uninitialised bytes of the cipher.
\<close>

record files_env =
  store_t_to_binary :: "account_base \<Rightarrow> bytes option"
  load_t_from_binary :: "bytes \<Rightarrow> account_base option"
  serialize_wallet :: "account_public_address \<Rightarrow> wallet2 \<Rightarrow> bytes"
  unserialize_wallet :: "bytes \<Rightarrow> (account_public_address \<times> wallet2) option"
  secret_key_to_public_key :: "bytes \<Rightarrow> public_key option"
  fe_iv :: bytes
  fe_tmp :: "nat \<Rightarrow> u8"
  fe_new_account :: account_base
  fe_save :: "bytes \<Rightarrow> bytes option option"
  fe_rename :: "bytes \<Rightarrow> bool"
  fe_read :: "bytes \<Rightarrow> (bytes \<rightharpoonup> bytes) \<Rightarrow> bool"
  fe_remove :: "bytes \<Rightarrow> (bytes \<rightharpoonup> bytes) \<Rightarrow> bool"

type_synonym files = "bytes \<rightharpoonup> bytes"

definition put_string :: "bytes \<Rightarrow> bytes" where
  "put_string str = write_varint (word_of_nat (length str)) @ str"

definition get_string :: "bytes reader" where
  "get_string bs = (case get_uvarint bs of None \<Rightarrow> None | Some (sz, rest) \<Rightarrow> get_blob (unat sz) rest)"

definition put_keys_file :: "keys_file_data \<Rightarrow> bytes" where
  "put_keys_file k = kf_iv k @ put_string (kf_account_data k)"

definition get_keys_file :: "keys_file_data reader" where
  "get_keys_file bs =
    (case get_blob 8 bs of
       None \<Rightarrow> None
     | Some (iv, rest) \<Rightarrow> (case get_string rest of None \<Rightarrow> None | Some (data, rest) \<Rightarrow> Some (\<lparr>kf_iv = iv, kf_account_data = data\<rparr>, rest)))"

definition save_string_to_file :: "files_env \<Rightarrow> bytes \<Rightarrow> bytes \<Rightarrow> files \<Rightarrow> bool \<times> files" where
  "save_string_to_file env path str fs = (case fe_save env path of None \<Rightarrow> (True, fs(path \<mapsto> str)) | Some left \<Rightarrow> (False, fs(path := left)))"

definition replace_file :: "files_env \<Rightarrow> bytes \<Rightarrow> bytes \<Rightarrow> files \<Rightarrow> bool \<times> files" where
  "replace_file env replacement_name replaced_name fs =
    (case fs replacement_name of
       Some content \<Rightarrow> if fe_rename env replacement_name then (True, (fs(replacement_name := None))(replaced_name \<mapsto> content)) else (False, fs)
     | None \<Rightarrow> (False, fs))"

definition load_file_to_string :: "files_env \<Rightarrow> bytes \<Rightarrow> files \<Rightarrow> bytes option" where
  "load_file_to_string env path fs =
    (if fe_read env path fs then (case fs path of Some str \<Rightarrow> if length str > 1000000000 then None else Some str | None \<Rightarrow> None) else None)"

text \<open>\<open>boost::filesystem::remove\<close> without an error code throws when it fails.\<close>

definition remove_file :: "files_env \<Rightarrow> bytes \<Rightarrow> files \<Rightarrow> wallet_error + files" where
  "remove_file env path fs = (if fs path = None then Inr fs else if fe_remove env path fs then Inr (fs(path := None)) else Inl filesystem_error)"

definition store_keys :: "files_env \<Rightarrow> account_base \<Rightarrow> bytes \<Rightarrow> bytes \<Rightarrow> files \<Rightarrow> bool \<times> files" where
  "store_keys env account keys_file_name password fs =
    (case store_t_to_binary env account of
       None \<Rightarrow> (False, fs)
     | Some account_data \<Rightarrow>
         save_string_to_file env keys_file_name
           (put_keys_file \<lparr>kf_iv = fe_iv env, kf_account_data = chacha8 (fe_tmp env) (generate_chacha8_key password) (fe_iv env) account_data\<rparr>) fs)"

definition verify_keys :: "files_env \<Rightarrow> bytes \<Rightarrow> public_key \<Rightarrow> bool" where
  "verify_keys env sec expected_pub = (case secret_key_to_public_key env sec of None \<Rightarrow> False | Some pub \<Rightarrow> expected_pub = pub)"

text \<open>The contents of a keys file, decrypted and verified.\<close>

definition open_keys :: "files_env \<Rightarrow> bytes \<Rightarrow> bytes \<Rightarrow> wallet_error + account_base" where
  "open_keys env password buf =
    (case parse_binary get_keys_file buf of
       None \<Rightarrow> Inl wallet_internal_error
     | Some data \<Rightarrow>
         (case load_t_from_binary env (chacha8 (fe_tmp env) (generate_chacha8_key password) (kf_iv data) (kf_account_data data)) of
            None \<Rightarrow> Inl invalid_password
          | Some account \<Rightarrow>
              let keys = m_keys account
              in if verify_keys env (m_view_secret_key keys) (m_view_public_key (m_account_address keys))
                   \<and> verify_keys env (m_spend_secret_key keys) (m_spend_public_key (m_account_address keys))
                 then Inr account else Inl invalid_password))"

definition load_keys :: "files_env \<Rightarrow> bytes \<Rightarrow> bytes \<Rightarrow> files \<Rightarrow> wallet_error + account_base" where
  "load_keys env keys_file_name password fs =
    (case load_file_to_string env keys_file_name fs of None \<Rightarrow> Inl file_read_error | Some buf \<Rightarrow> open_keys env password buf)"

text \<open>The extension of a file name starts after its last dot.\<close>

definition get_extension :: "bytes \<Rightarrow> bytes" where
  "get_extension str = (if 46 \<in> set str then rev (takeWhile (\<lambda>c. c \<noteq> 46) (rev str)) else [])"

definition cut_off_extension :: "bytes \<Rightarrow> bytes" where
  "cut_off_extension str = (if 46 \<in> set str then take (length str - length (get_extension str) - 1) str else str)"

text \<open>The keys file and the wallet file.\<close>

definition prepare_file_names :: "bytes \<Rightarrow> bytes \<times> bytes" where
  "prepare_file_names file_path =
    (if get_extension file_path = [107, 101, 121, 115] then (file_path, cut_off_extension file_path)
     else (file_path @ [46, 107, 101, 121, 115], file_path))"

text \<open>\<open>account\<close> is the account in memory.\<close>

definition changepassword :: "files_env \<Rightarrow> account_base \<Rightarrow> bytes \<Rightarrow> bytes \<Rightarrow> bytes \<Rightarrow> bytes \<Rightarrow> files \<Rightarrow> (wallet_error + bool) \<times> files" where
  "changepassword env account m_wallet_file m_keys_file old_password new_password fs =
    (if fs m_wallet_file = None \<or> fs m_keys_file = None then (Inl file_not_found, fs)
     else case load_keys env m_keys_file old_password fs of
            Inl e \<Rightarrow> (Inl e, fs)
          | Inr _ \<Rightarrow>
              let filename = m_keys_file @ [46, 98, 97, 107]
              in case remove_file env filename fs of
                   Inl e \<Rightarrow> (Inl e, fs)
                 | Inr fs \<Rightarrow>
                     let (ok, fs) = replace_file env m_keys_file filename fs
                     in if \<not> ok then (Inr False, fs)
                        else let (ok, fs) = store_keys env account m_keys_file new_password fs
                             in if \<not> ok then (Inr False, snd (replace_file env filename m_keys_file fs))
                                else case load_keys env m_keys_file new_password fs of
                                       Inl e \<Rightarrow> (Inl e, fs)
                                     | Inr _ \<Rightarrow> (case remove_file env filename fs of Inl e \<Rightarrow> (Inl e, fs) | Inr fs \<Rightarrow> (Inr True, fs)))"

text \<open>\<open>generate\<close> and \<open>load\<close> start from \<open>clear\<close>; \<open>genesis_id\<close> is the id of the genesis block.\<close>

definition wallet_generate :: "files_env \<Rightarrow> hash \<Rightarrow> bytes \<Rightarrow> bytes \<Rightarrow> wallet2 \<Rightarrow> files \<Rightarrow> (wallet_error + account_base) \<times> wallet2 \<times> files" where
  "wallet_generate env genesis_id path password w fs =
    (let w = wallet_clear genesis_id w; (keys_file, wallet_file) = prepare_file_names path
     in if fs wallet_file \<noteq> None \<or> fs keys_file \<noteq> None then (Inl file_exists, w, fs)
        else let account = fe_new_account env; addr = m_account_address (m_keys account);
                 (ok, fs) = store_keys env account keys_file password fs
             in if \<not> ok then (Inl file_save_error, w, fs)
                else let (_, fs) = save_string_to_file env (wallet_file @ [46, 97, 100, 100, 114, 101, 115, 115, 46, 116, 120, 116])
                           (get_account_address_as_str addr) fs;
                         (ok, fs) = save_string_to_file env wallet_file (serialize_wallet env addr w) fs
                     in (if ok then Inr account else Inl file_save_error, w, fs))"

definition wallet_load :: "files_env \<Rightarrow> hash \<Rightarrow> bytes \<Rightarrow> bytes \<Rightarrow> wallet2 \<Rightarrow> files \<Rightarrow> (wallet_error + account_base) \<times> wallet2" where
  "wallet_load env genesis_id path password w fs =
    (let w = wallet_clear genesis_id w; (keys_file, wallet_file) = prepare_file_names path
     in if fs keys_file = None then (Inl file_not_found, w)
        else case load_keys env keys_file password fs of
               Inl e \<Rightarrow> (Inl e, w)
             | Inr account \<Rightarrow>
                 (case fs wallet_file of
                    None \<Rightarrow> (Inr account, w)
                  | Some blob \<Rightarrow>
                      (case unserialize_wallet env blob of
                         None \<Rightarrow> (Inl file_read_error, w)
                       | Some (addr, w) \<Rightarrow>
                           if addr \<noteq> m_account_address (m_keys account) then (Inl wallet_files_doesnt_correspond, w)
                           else let chain = (if m_blockchain w = [] then [genesis_id] else m_blockchain w)
                                in (Inr account, w\<lparr>m_blockchain := chain, m_local_bc_height := word_of_nat (length chain)\<rparr>))))"

section \<open>The keys file\<close>

lemma get_string_put: "length str < 2 ^ 64 \<Longrightarrow> get_string (put_string str @ rest) = Some (str, rest)"
  by (simp add: get_string_def put_string_def get_uvarint_def read_varint_write get_blob_def unat_of_nat_small)

interpretation keys_file: serializer "\<lambda>k. length (kf_iv k) = 8 \<and> length (kf_account_data k) < 2 ^ 64" put_keys_file get_keys_file
proof unfold_locales
  fix k :: keys_file_data and rest
  assume k: "length (kf_iv k) = 8 \<and> length (kf_account_data k) < 2 ^ 64"
  have "get_blob 8 (put_keys_file k @ rest) = Some (kf_iv k, put_string (kf_account_data k) @ rest)" using k by (simp add: put_keys_file_def get_blob_def)
  then show "get_keys_file (put_keys_file k @ rest) = Some (k, rest)" using k by (simp add: get_keys_file_def get_string_put)
  show "put_keys_file k \<noteq> []" using k by (auto simp: put_keys_file_def)
qed

definition valid_keys :: "files_env \<Rightarrow> account_base \<Rightarrow> bool" where
  "valid_keys env account \<longleftrightarrow>
    verify_keys env (m_view_secret_key (m_keys account)) (m_view_public_key (m_account_address (m_keys account)))
    \<and> verify_keys env (m_spend_secret_key (m_keys account)) (m_spend_public_key (m_account_address (m_keys account)))"

text \<open>The codec of \<open>epee\<close> reads back the account it has written.\<close>

definition account_codec :: "files_env \<Rightarrow> account_base \<Rightarrow> bool" where
  "account_codec env account \<longleftrightarrow>
    (\<forall>data. store_t_to_binary env account = Some data \<longrightarrow> load_t_from_binary env data = Some account \<and> length data < 2 ^ 64)"

lemma stored_keys_open:
  assumes "store_keys env account path password fs = (True, fs')" and "account_codec env account" and "length (fe_iv env) = 8"
  shows "\<exists>buf. fs' path = Some buf \<and> open_keys (env\<lparr>fe_tmp := tmp\<rparr>) password buf = (if valid_keys env account then Inr account else Inl invalid_password)"
proof -
  define kfile where "kfile data = \<lparr>kf_iv = fe_iv env, kf_account_data = chacha8 (fe_tmp env) (generate_chacha8_key password) (fe_iv env) data\<rparr>" for data
  obtain data where data: "store_t_to_binary env account = Some data" and fs: "fs' path = Some (put_keys_file (kfile data))"
    using assms(1) by (auto simp: store_keys_def save_string_to_file_def kfile_def split: option.splits)
  have codec: "load_t_from_binary env data = Some account" "length data < 2 ^ 64" using assms(2) data by (auto simp: account_codec_def)
  have "parse_binary get_keys_file (put_keys_file (kfile data)) = Some (kfile data)"
    using codec(2) assms(3) by (intro keys_file.parse_put) (simp add: kfile_def chacha8_keystream)
  moreover have "chacha8 tmp (generate_chacha8_key password) (kf_iv (kfile data)) (kf_account_data (kfile data)) = data"
    by (simp add: kfile_def chacha8_roundtrip)
  ultimately show ?thesis using fs codec(1) by (simp add: open_keys_def valid_keys_def verify_keys_def Let_def)
qed

lemma stored_keys_load:
  assumes "store_keys env account path password fs = (True, fs')" and "account_codec env account" and "length (fe_iv env) = 8"
    and "fs'' path = fs' path" and "load_file_to_string env path fs'' \<noteq> None"
  shows "load_keys (env\<lparr>fe_tmp := tmp\<rparr>) path password fs'' = (if valid_keys env account then Inr account else Inl invalid_password)"
  using stored_keys_open [OF assms(1-3), of tmp] assms(4,5) by (auto simp: load_keys_def load_file_to_string_def split: if_splits)

text \<open>The name of the keys file is the name of the wallet file with \<open>.keys\<close>.\<close>

lemma keys_file_name: "prepare_file_names path = (keys_file, wallet_file) \<Longrightarrow> keys_file = wallet_file @ [46, 107, 101, 121, 115]"
proof -
  assume p: "prepare_file_names path = (keys_file, wallet_file)"
  show ?thesis
  proof (cases "get_extension path = [107, 101, 121, 115]")
    case True
    then have dot: "46 \<in> set path" by (auto simp: get_extension_def split: if_splits)
    let ?t = "takeWhile (\<lambda>c. c \<noteq> 46) (rev path)" and ?d = "dropWhile (\<lambda>c. c \<noteq> 46) (rev path)"
    have d: "?d \<noteq> []" using dot by (auto simp: dropWhile_eq_Nil_conv)
    then obtain ds where ds: "?d = 46 # ds" using hd_dropWhile [OF d] by (cases ?d) auto
    have "rev path = ?t @ 46 # ds" using ds takeWhile_dropWhile_id [of "\<lambda>c. c \<noteq> 46" "rev path"] by simp
    moreover have "?t = rev [107, 101, 121, 115]" using True dot by (simp add: get_extension_def)
    ultimately have "path = rev ds @ [46, 107, 101, 121, 115]" by (metis append.assoc append_Cons append_Nil rev.simps(2) rev_append rev_rev_ident)
    then show ?thesis using p True dot by (auto simp: prepare_file_names_def cut_off_extension_def)
  qed (use p in \<open>auto simp: prepare_file_names_def\<close>)
qed

section \<open>Changing the password\<close>

abbreviation backup_name :: "bytes \<Rightarrow> bytes" where
  "backup_name keys_file \<equiv> keys_file @ [46, 98, 97, 107]"

lemma store_keys_frame: "store_keys env account keys_file password fs = (r, fs') \<Longrightarrow> path \<noteq> keys_file \<Longrightarrow> fs' path = fs path"
  by (auto simp: store_keys_def save_string_to_file_def split: option.splits)

text \<open>
  What can have become of the keys: the new file opens, or the old file is in place or is the backup. Only a failed rename
  leaves it in the backup after a reported failure.
\<close>

definition keys_kept :: "files_env \<Rightarrow> account_base \<Rightarrow> bytes \<Rightarrow> bytes \<Rightarrow> files \<Rightarrow> wallet_error + bool \<Rightarrow> files \<Rightarrow> bool" where
  "keys_kept env account keys_file new_password fs r fs' \<longleftrightarrow>
    (case r of
       Inl e \<Rightarrow> fs' = fs \<or> fs' (backup_name keys_file) = fs keys_file \<and> fs keys_file \<noteq> None
     | Inr False \<Rightarrow> fs keys_file \<noteq> None \<and> (fs' keys_file = fs keys_file \<or> \<not> fe_rename env (backup_name keys_file) \<and> fs' (backup_name keys_file) = fs keys_file)
     | Inr True \<Rightarrow> fs' (backup_name keys_file) = None
         \<and> (\<exists>buf acc. fs' keys_file = Some buf \<and> open_keys env new_password buf = Inr acc
              \<and> (account_codec env account \<and> length (fe_iv env) = 8 \<longrightarrow> acc = account)))"

lemma changepassword_frame:
  assumes "changepassword env account wallet_file keys_file old_password new_password fs = (r, fs')"
    and "path \<noteq> keys_file" and "path \<noteq> backup_name keys_file"
  shows "fs' path = fs path"
proof -
  have store: "snd (store_keys env account keys_file new_password g) path = g path" for g
    using store_keys_frame [OF _ assms(2), of env account new_password g] by (cases "store_keys env account keys_file new_password g") auto
  have rename: "snd (replace_file env keys_file (backup_name keys_file) g) path = g path" "snd (replace_file env (backup_name keys_file) keys_file g) path = g path" for g
    using assms(2,3) by (auto simp: replace_file_def split: option.splits)
  have remove: "remove_file env (backup_name keys_file) g = Inr g' \<Longrightarrow> g' path = g path" for g g'
    using assms(3) by (auto simp: remove_file_def split: if_splits)
  show ?thesis
    using assms(1) store rename remove
    by (auto simp: changepassword_def Let_def split: if_splits sum.splits prod.splits) (metis snd_conv)+
qed

lemma changepassword_kept:
  assumes "changepassword env account wallet_file keys_file old_password new_password fs = (r, fs')"
  shows "keys_kept env account keys_file new_password fs r fs'"
proof (cases "fs wallet_file \<noteq> None \<and> fs keys_file \<noteq> None \<and> (\<exists>acc. load_keys env keys_file old_password fs = Inr acc)
    \<and> (\<exists>fs0. remove_file env (backup_name keys_file) fs = Inr fs0)")
  case False
  then have "fs' = fs \<and> (\<exists>e. r = Inl e)" using assms by (auto simp: changepassword_def Let_def split: if_splits sum.splits)
  then show ?thesis by (auto simp: keys_kept_def)
next
  case True
  let ?bak = "backup_name keys_file"
  from True obtain content acc fs0 where c: "fs keys_file = Some content" and l: "load_keys env keys_file old_password fs = Inr acc"
    and fs0: "remove_file env ?bak fs = Inr fs0" by auto
  have c0: "fs0 keys_file = Some content" using fs0 c by (auto simp: remove_file_def split: if_splits)
  show ?thesis
  proof (cases "fe_rename env keys_file")
    case False
    then have "r = Inr False" "fs' = fs0" using assms True c l fs0 c0 by (auto simp: changepassword_def replace_file_def Let_def)
    then show ?thesis using c c0 by (simp add: keys_kept_def)
  next
    case rn: True
    let ?fs1 = "(fs0(keys_file := None))(?bak \<mapsto> content)"
    obtain ok fs2 where s: "store_keys env account keys_file new_password ?fs1 = (ok, fs2)" by fastforce
    have bak: "fs2 ?bak = Some content" using store_keys_frame [OF s, of ?bak] by simp
    have rest: "(r, fs') = (if \<not> ok then (Inr False, snd (replace_file env ?bak keys_file fs2))
      else case load_keys env keys_file new_password fs2 of Inl e \<Rightarrow> (Inl e, fs2)
       | Inr _ \<Rightarrow> (case remove_file env ?bak fs2 of Inl e \<Rightarrow> (Inl e, fs2) | Inr fs \<Rightarrow> (Inr True, fs)))"
      using assms True c l fs0 c0 rn s by (auto simp: changepassword_def replace_file_def Let_def split: sum.splits)
    show ?thesis
    proof (cases "ok \<and> (\<exists>acc'. load_keys env keys_file new_password fs2 = Inr acc') \<and> fe_remove env ?bak fs2")
      case True
      then obtain acc' where acc': "load_keys env keys_file new_password fs2 = Inr acc'" by blast
      have r: "r = Inr True" "fs' = fs2(?bak := None)" using rest True bak by (auto simp: remove_file_def)
      obtain buf where buf: "fs2 keys_file = Some buf" "open_keys env new_password buf = Inr acc'"
        using acc' by (auto simp: load_keys_def load_file_to_string_def split: if_splits option.splits)
      have "acc' = account" if "account_codec env account \<and> length (fe_iv env) = 8"
        using stored_keys_open [of env account keys_file new_password ?fs1 fs2 "fe_tmp env"] s True that buf by (auto split: if_splits)
      then show ?thesis using r buf by (simp add: keys_kept_def)
    next
      case False
      then have "fs' = fs2 \<and> (\<exists>e. r = Inl e) \<or> r = Inr False \<and> fs' = snd (replace_file env ?bak keys_file fs2)"
        using rest bak by (auto simp: remove_file_def split: if_splits sum.splits)
      then show ?thesis using bak c by (auto simp: keys_kept_def replace_file_def)
    qed
  qed
qed

lemma changepassword_succeeds:
  assumes "fs wallet_file \<noteq> None" and "fs keys_file = Some content" and "load_keys env keys_file old_password fs = Inr acc" and "fe_rename env keys_file"
    and "fs (backup_name keys_file) = None"
    and "store_keys env account keys_file new_password ((fs(keys_file := None))(backup_name keys_file \<mapsto> content)) = (True, fs1)"
    and "load_keys env keys_file new_password fs1 = Inr acc'" and "fe_remove env (backup_name keys_file) fs1"
  shows "\<exists>fs'. changepassword env account wallet_file keys_file old_password new_password fs = (Inr True, fs')"
  using assms store_keys_frame [OF assms(6), of "backup_name keys_file"] by (simp add: changepassword_def replace_file_def remove_file_def Let_def)

section \<open>A new wallet\<close>

text \<open>The codec of \<open>boost\<close> reads back the wallet it has written.\<close>

definition wallet_codec :: "files_env \<Rightarrow> account_public_address \<Rightarrow> wallet2 \<Rightarrow> bool" where
  "wallet_codec env addr w \<longleftrightarrow> unserialize_wallet env (serialize_wallet env addr w) = Some (addr, w)"

lemma generated_loads:
  assumes "wallet_generate env genesis_id path password w fs = (Inr account, w', fs')"
    and "account_codec env account" and "valid_keys env account" and "length (fe_iv env) = 8"
    and "wallet_codec env (m_account_address (m_keys account)) w'" and "load_file_to_string env (fst (prepare_file_names path)) fs' \<noteq> None"
  shows "wallet_load (env\<lparr>fe_tmp := tmp\<rparr>) genesis_id path password v fs' = (Inr account, w')"
proof -
  obtain keys_file wallet_file where names: "prepare_file_names path = (keys_file, wallet_file)" by fastforce
  note kf = keys_file_name [OF names]
  let ?addr = "m_account_address (m_keys account)" and ?txt = "wallet_file @ [46, 97, 100, 100, 114, 101, 115, 115, 46, 116, 120, 116]"
  obtain fs1 where acc: "account = fe_new_account env" and s: "store_keys env account keys_file password fs = (True, fs1)" and w': "w' = wallet_clear genesis_id w"
    and fs': "save_string_to_file env wallet_file (serialize_wallet env ?addr w') (snd (save_string_to_file env ?txt (get_account_address_as_str ?addr) fs1)) = (True, fs')"
    using assms(1) by (auto simp: wallet_generate_def names Let_def split: if_splits prod.splits)
  have "fs' keys_file = fs1 keys_file" and wf: "fs' wallet_file = Some (serialize_wallet env ?addr w')"
    using fs' kf by (auto simp: save_string_to_file_def split: option.splits)
  moreover have "fs1 keys_file \<noteq> None" using s by (auto simp: store_keys_def save_string_to_file_def split: option.splits)
  moreover from calculation(1) have "load_keys (env\<lparr>fe_tmp := tmp\<rparr>) keys_file password fs' = Inr account" using stored_keys_load [OF s assms(2,4)] assms(3,6) names by simp
  ultimately show ?thesis using assms(5) by (simp add: wallet_load_def names wallet_codec_def w' wallet_clear_def Let_def)
qed

section \<open>Properties\<close>

text \<open>C21: Whichever file operation fails, changing the password loses no keys. After success the keys file
  opens with the new password, and gives the account in memory if the codec of accounts reads back what it
  writes; the backup is removed. After a reported failure the keys file is the old one, or the backup is
  when renaming it back fails. After an exception no file has changed, or the backup is the old keys file.
  Other files are never touched.\<close>

theorem changepassword_keeps_keys:
  assumes "changepassword env account wallet_file keys_file old_password new_password fs = (r, fs')"
  shows "keys_kept env account keys_file new_password fs r fs'
    \<and> (\<forall>path. path \<noteq> keys_file \<and> path \<noteq> backup_name keys_file \<longrightarrow> fs' path = fs path)"
  using changepassword_kept [OF assms] changepassword_frame [OF assms] by blast

definition sample_account :: account_base where
  "sample_account = \<lparr>m_keys = \<lparr>m_account_address = \<lparr>m_spend_public_key = replicate 32 1, m_view_public_key = replicate 32 2\<rparr>,
     m_spend_secret_key = replicate 32 1, m_view_secret_key = replicate 32 2\<rparr>, m_creation_timestamp = 1400000000\<rparr>"

definition empty_wallet :: wallet2 where
  "empty_wallet = \<lparr>m_blockchain = [], m_local_bc_height = 0, m_unconfirmed_txs = [], m_transfers = [], m_payments = [], m_key_images = Map.empty,
     m_upper_transaction_size_limit = 0, m_transfer_history = [], m_unconfirmed_in_transfers = Map.empty\<rparr>"

definition sample_files_env :: files_env where
  "sample_files_env = \<lparr>store_t_to_binary = (\<lambda>_. Some [1, 2, 3]), load_t_from_binary = (\<lambda>bs. if bs = [1, 2, 3] then Some sample_account else None),
     serialize_wallet = (\<lambda>_ _. [4, 5]),
     unserialize_wallet = (\<lambda>_. Some (m_account_address (m_keys sample_account), wallet_clear (replicate 32 0) empty_wallet)),
     secret_key_to_public_key = Some, fe_iv = replicate 8 6, fe_tmp = (\<lambda>_. 0), fe_new_account = sample_account, fe_save = (\<lambda>_. None), fe_rename = (\<lambda>_. True),
     fe_read = (\<lambda>_ _. True), fe_remove = (\<lambda>_ _. True)\<rparr>"

lemma sample_files_ok:
  "account_codec sample_files_env sample_account" "valid_keys sample_files_env sample_account" "length (fe_iv sample_files_env) = 8"
  "fe_rename sample_files_env path" "fe_remove sample_files_env path fs" "\<exists>fs'. store_keys sample_files_env sample_account keys_file password fs = (True, fs')"
  by (simp_all add: sample_files_env_def account_codec_def valid_keys_def verify_keys_def sample_account_def store_keys_def save_string_to_file_def)

lemma sample_stored_short:
  assumes "store_keys sample_files_env sample_account keys_file password fs = (True, fs')" and "fs'' keys_file = fs' keys_file"
  shows "load_file_to_string sample_files_env keys_file fs'' \<noteq> None"
proof -
  obtain data where "fs'' keys_file = Some (put_keys_file \<lparr>kf_iv = replicate 8 6, kf_account_data = data\<rparr>)" and "length data = 3"
    using assms by (auto simp: store_keys_def save_string_to_file_def sample_files_env_def chacha8_keystream)
  then show ?thesis by (simp add: load_file_to_string_def sample_files_env_def put_keys_file_def put_string_def write_varint.simps)
qed

lemma sample_stored_load:
  assumes "store_keys sample_files_env sample_account keys_file password fs = (True, fs')"
  shows "load_keys sample_files_env keys_file password fs' = Inr sample_account"
  using sample_stored_short [OF assms, of fs'] stored_keys_load [OF assms sample_files_ok(1,3), of fs' "fe_tmp sample_files_env"] sample_files_ok(2) by simp

theorem changepassword_keeps_keys_witness:
  "\<exists>fs fs' buf. changepassword sample_files_env sample_account [97] [98] [1] [2] fs = (Inr True, fs')
    \<and> load_keys sample_files_env [98] [1] fs = Inr sample_account \<and> fs' [98] = Some buf \<and> open_keys sample_files_env [2] buf = Inr sample_account"
proof -
  obtain fs where s: "store_keys sample_files_env sample_account [98] [1] [[97] \<mapsto> []] = (True, fs)" using sample_files_ok(6) by blast
  note load = sample_stored_load [OF s]
  have names: "fs [97] \<noteq> None" "fs (backup_name [98]) = None" using store_keys_frame [OF s, of "[97]"] store_keys_frame [OF s, of "backup_name [98]"] by simp_all
  obtain content where content: "fs [98] = Some content" using load by (auto simp: load_keys_def load_file_to_string_def split: option.splits if_splits)
  obtain fs1 where s1: "store_keys sample_files_env sample_account [98] [2] ((fs([98] := None))(backup_name [98] \<mapsto> content)) = (True, fs1)"
    using sample_files_ok(6) by blast
  obtain fs' where c: "changepassword sample_files_env sample_account [97] [98] [1] [2] fs = (Inr True, fs')"
    using changepassword_succeeds [OF names(1) content load sample_files_ok(4) names(2) s1 sample_stored_load [OF s1] sample_files_ok(5)] by blast
  from changepassword_keeps_keys [OF c] have "keys_kept sample_files_env sample_account [98] [2] fs (Inr True) fs'" by blast
  then obtain buf where "fs' [98] = Some buf" "open_keys sample_files_env [2] buf = Inr sample_account"
    using sample_files_ok(1,3) by (auto simp: keys_kept_def)
  then show ?thesis using c load by blast
qed

theorem generated_wallet_loads:
  assumes "wallet_generate env genesis_id path password w fs = (Inr account, w', fs')"
    and "account_codec env account" and "valid_keys env account" and "length (fe_iv env) = 8"
    and "wallet_codec env (m_account_address (m_keys account)) w'" and "load_file_to_string env (fst (prepare_file_names path)) fs' \<noteq> None"
  shows "wallet_load (env\<lparr>fe_tmp := tmp\<rparr>) genesis_id path password v fs' = (Inr account, w')"
  using assms by (rule generated_loads)

theorem generated_wallet_loads_witness:
  "\<exists>w' fs'. wallet_generate sample_files_env (replicate 32 0) [97] [1] empty_wallet Map.empty = (Inr sample_account, w', fs')
    \<and> wallet_load (sample_files_env\<lparr>fe_tmp := (\<lambda>_. 9)\<rparr>) (replicate 32 0) [97] [1] empty_wallet fs' = (Inr sample_account, w')"
proof -
  obtain fs1 where s: "store_keys sample_files_env sample_account ([97] @ [46, 107, 101, 121, 115]) [1] Map.empty = (True, fs1)" using sample_files_ok(6) by blast
  moreover have names: "prepare_file_names [97] = ([97] @ [46, 107, 101, 121, 115], [97])" by (simp add: prepare_file_names_def get_extension_def)
  moreover have "fe_new_account sample_files_env = sample_account" "fe_save sample_files_env = (\<lambda>_. None)" by (simp_all add: sample_files_env_def)
  ultimately obtain fs' where g: "wallet_generate sample_files_env (replicate 32 0) [97] [1] empty_wallet Map.empty
      = (Inr sample_account, wallet_clear (replicate 32 0) empty_wallet, fs')"
    and fs': "fs' ([97] @ [46, 107, 101, 121, 115]) = fs1 ([97] @ [46, 107, 101, 121, 115])"
    by (auto simp: wallet_generate_def save_string_to_file_def Let_def)
  have "wallet_codec sample_files_env (m_account_address (m_keys sample_account)) (wallet_clear (replicate 32 0) empty_wallet)"
    by (simp add: wallet_codec_def sample_files_env_def)
  moreover have "load_file_to_string sample_files_env (fst (prepare_file_names [97])) fs' \<noteq> None"
    unfolding names fst_conv using sample_stored_short [OF s, of fs'] fs' by blast
  ultimately show ?thesis using generated_wallet_loads [OF g sample_files_ok(1-3), of "\<lambda>_. 9" empty_wallet] g by blast
qed

end
