(* ===== verification/Spec2Isabelle.thy ===== *)
theory Spec2Isabelle
  imports Scalar Group Base58 Difficulty SwappedVector Checkpoints Reward ChaCha8 Scratchpad CoreTx Node Peerlist WalletReach WalletKeys
begin

text \<open>
  A verification library of the cryptocurrency node in \<open>src/src\<close>, a node of the CryptoNote family: it keeps a chain of
  blocks, a pool of transactions waiting for a block and a list of known peers. Source paths below are relative to \<open>src/\<close>;
  the definitions carry the names of the C++ and C functions they translate, with a prefix where a name is used twice.

  \<^bold>\<open>The program and its parts.\<close> A transaction arrives as a blob, is parsed (\<open>Archive\<close>, \<open>Transaction\<close>, \<open>TxExtra\<close>), checked
  on its own and against the chain, and enters the pool (\<open>TxPool\<close>, \<open>CoreTx\<close>). A block arrives, is checked for its proof of
  work (\<open>Difficulty\<close>), its checkpoint, its timestamp and its reward (\<open>Reward\<close>), takes its transactions out of the pool and
  is appended to the chain with all indexes (\<open>ChainState\<close> to \<open>Chain\<close>); a block on another branch may replace the top of the
  chain (\<open>ChainAlt\<close>). Nodes exchange blocks and transactions in messages (\<open>ProtocolHandler\<close>, \<open>ChainQuery\<close>, \<open>Node\<close>). Blocks live in a disk-backed vector
  (\<open>SwappedVector\<close>), their ids in \<open>BlockIndex\<close>. Ids are Keccak hashes (\<open>Keccak\<close>, \<open>TreeHash\<close>, \<open>BlockId\<close>); keys and signatures
  rest on the arithmetic of Curve25519 (\<open>Limbs\<close> to \<open>Group\<close>). Peers are kept in two lists (\<open>Peerlist\<close>).

  \<^bold>\<open>Theories, sources and what is shown.\<close>

  \<^item> \<open>Prelude\<close>, \<open>Transitions\<close>: machine integers, byte strings and shared facts; reachable states and the locale
    \<open>invariant_system\<close>, through which the pool, the chain, the peer lists, the protocol handler and the wallet obtain their invariants.
  \<^item> \<open>IntUtil\<close> (\<open>common/int-util.h\<close>), \<open>Varint\<close> (\<open>common/varint.h\<close>): the portable 128-bit routines agree with the native
    ones; a written integer is read back.
  \<^item> \<open>Limbs\<close>, \<open>LimbBytes\<close>, \<open>Scalar\<close>, \<open>Field\<close>, \<open>FieldBytes\<close>, \<open>Curve\<close>, \<open>Group\<close> (\<open>crypto/crypto-ops.c\<close>): every scalar and field
    routine computes its function modulo the group order or \<open>2^255 - 19\<close>, without overflow of the 32 and 64 bit limbs, with
    canonical bytes; the group routines implement the addition law of the curve.
  \<^item> \<open>Keccak\<close> (\<open>crypto/keccak.c\<close>, \<open>crypto/hash.c\<close>), \<open>TreeHash\<close> (\<open>crypto/tree-hash.c\<close>), \<open>ChaCha8\<close> (\<open>crypto/chacha8.c\<close>): the
    in-place code equals the specification of the permutation and the sponge, the hash tree and the stream cipher.
  \<^item> \<open>Base58\<close> (\<open>common/base58.cpp\<close>), \<open>Hex\<close> (\<open>string_tools.h\<close>): both directions of the address code.
  \<^item> \<open>Archive\<close> (\<open>serialization/\<close>), \<open>Transaction\<close> (\<open>currency_core/currency_basic.h\<close>), \<open>TxFormat\<close>, \<open>TxExtra\<close>, \<open>BlockId\<close>,
    \<open>Scratchpad\<close> (\<open>currency_core/currency_format_utils.cpp\<close>): blobs of transactions, blocks and extra fields parse back, fees
    and sizes are exact, a block id commits to the contents up to a collision of the hash, and removing a block from the
    scratchpad undoes adding it. Reads outside of a buffer are the value \<open>OutOfBounds\<close>.
  \<^item> \<open>Difficulty\<close>, \<open>Reward\<close>, \<open>Checkpoints\<close> (\<open>currency_core/difficulty.cpp\<close>, \<open>currency_basic_impl.cpp\<close>, \<open>checkpoints.cpp\<close>):
    the proof-of-work test, the retargeting rule and the reward of a block, which never exceeds the coins left.
  \<^item> \<open>SwappedVector\<close> (\<open>currency_core/SwappedVector.h\<close>) refines a list; \<open>BlockIndex\<close> (\<open>currency_core/BlockIndex.cpp\<close>): the
    loop of the short history terminates and two nodes find a common block.
  \<^item> \<open>TxPool\<close>, \<open>PoolInvariant\<close>, \<open>BlockTemplate\<close>, \<open>CoreTx\<close> (\<open>currency_core/tx_pool.cpp\<close>, \<open>currency_core.cpp\<close>): all operations
    of the pool, its invariant over all sequences of operations, no double spends, templates of blocks.
  \<^item> \<open>ChainState\<close> (state and checks), \<open>ChainUpdate\<close> (adding and removing transactions and blocks), \<open>ChainMain\<close> (handling a
    block, rebuilding the indexes), all from \<open>currency_core/blockchain_storage.cpp\<close>; \<open>ChainInvariant\<close>, \<open>ChainRebuild\<close>,
    \<open>ChainAccept\<close>, \<open>ChainRefuse\<close>, \<open>Chain\<close>: an accepted block leaves the indexes equal to those that \<open>rebuildcache\<close> computes
    from scratch, no key image is spent twice, the rewards add up without wrap-around, blocks are linked and found, a refusal
    that returns changes nothing, and a block with a missing transaction throws and is never accepted afterwards.
  \<^item> \<open>Peerlist\<close> (\<open>p2p/net_peerlist.h\<close>, \<open>net/local_ip.h\<close>): the lists stay disjoint and ordered; the functions that
    should bound them trim each other's list.
  \<^item> \<open>ChainAlt\<close>, \<open>ChainReorg\<close> (\<open>currency_core/blockchain_storage.cpp\<close>): alternative blocks, switching and rollback. The main
    chain changes for a block on another branch only if that branch has more work; a rollback returns and leaves exactly
    the blocks below its height; a switch that throws leaves the chain cut off at the split.
  \<^item> \<open>ChainQuery\<close> (\<open>currency_core/blockchain_storage.cpp\<close>): what the chain answers to other nodes, donations and pruning.
    Short histories are answered with blocks that continue them, and requested blocks are served completely.
  \<^item> \<open>ProtocolHandler\<close> (\<open>currency_protocol/currency_protocol_handler.inl\<close>), \<open>Node\<close>: the messages of the synchronization
    protocol for one connection over any core, and the core made of chain and pool. Only requested blocks reach the core,
    the miner is resumed as often as it was paused, unless the core throws.
  \<^item> \<open>Wallet\<close>, \<open>WalletSend\<close>, \<open>WalletSync\<close>, \<open>WalletReach\<close>, \<open>WalletKeys\<close> (\<open>wallet/wallet2.cpp\<close>, \<open>wallet2.h\<close>): the wallet. A processed
    block refines the ledger of the account, over the whole life of a wallet its index of key images is exact, a transfer
    conserves money and pays whenever the wallet can, and changing the password loses no keys, whichever file operation fails. Detaching a block leaves
    the marks of the outputs it spent, and an interrupted block is counted twice.

  \<^bold>\<open>Conventions.\<close> Unsigned integers are words of their width, so that additions wrap as in C; signed limbs are
  integers with the wrap-around written out. A \<open>std::map\<close> is a partial function, or an association list where its order
  matters; a container with several indexes is the list of its elements in the order of one of them. Functions that
  change an object take and return its record. Errors are values: \<open>None\<close> or \<open>False\<close> for a return value, a sum type for
  exceptions, \<open>OutOfBounds\<close> and \<open>OutOfRange\<close> for accesses the language leaves undefined. Loops are recursive functions with
  a termination proof; two loops whose end depends on wrap-around (\<open>getShortChainHistory\<close>, the 16-bit counters of
  \<open>rebuildcache\<close>) carry fuel or report the wrap-around, and it is proved that they return within the stated bounds. The
  loops that remove blocks have as many rounds as there are blocks, which is proved to be enough for the rollback; the
  loop that collects a branch ends when heights count up along it; the mutual calls of \<open>handle_alternative_block\<close> and
  \<open>switch_to_alternative_blockchain\<close> carry a depth as argument, over which the theorems are general. Exceeding a bound is
  the error \<open>Diverges\<close>.

  \<^bold>\<open>Parameters.\<close> The clock, the proof-of-work hash, ring and alias signatures, the test whether an output belongs to the
  donation account (\<open>chain_env\<close>), the checksum hash of \<open>Base58\<close>, the files of \<open>SwappedVector\<close> as byte streams, the
  multi-index container of the peer lists (\<open>peers_ops\<close>), the core of the protocol handler, a template argument in the source
  (\<open>core_ops\<close>, instantiated by \<open>node_core\<close>), the view the pool has of the chain (\<open>blockchain_view\<close>), and
  for the wallet the account, the daemon and the construction of transactions (\<open>wallet_env\<close>), the codecs of accounts and wallets
  and the failures of the file system (\<open>files_env\<close>).

  \<^bold>\<open>Not modelled.\<close> Sockets, threads and locks of the network layer and the RPC servers, which only pass messages on; the
  command line programs and the graphical interface, which drive the library by commands; the construction of transactions and
  the ring signatures, which need random numbers and the discrete logarithm; the file formats of the boost archives;
  logging; vendored and generated code.
\<close>

end
